(* ===== verification/Prelude.thy ===== *)
theory Prelude
  imports "HOL-Library.Word"
begin

text \<open>
  Shared vocabulary of the development: the machine types of the C++ sources, the
  exception monad in which the stateful code is written, the ordered association lists
  that stand for \<^verbatim>\<open>std::map\<close>, and the generic lemmas about them.

  \<^item> \<open>u256\<close> is boost's unchecked 256-bit unsigned integer (libdevcore/Common.h): arithmetic
    wraps modulo \<open>2^256\<close>, which is exactly \<^typ>\<open>256 word\<close>. Addresses are 160-bit words.
  \<^item> A C++ member function that mutates an object and may throw is a function from the
    state to a pair of an outcome (\<open>Inl\<close> the exception, \<open>Inr\<close> the result) and the state
    \<^emph>\<open>left behind\<close>: as in C++, an exception does not undo the writes made before it.
\<close>

section \<open>Machine types\<close>

type_synonym byte = "8 word"
type_synonym bytes = "byte list"
type_synonym u256 = "256 word"
type_synonym h256 = "256 word"
type_synonym address = "160 word"
type_synonym time_ms = int

section \<open>Collections used by the proofs\<close>

named_theorems emonad_simps
named_theorems keeps_intros
named_theorems omap_simps

section \<open>State and exceptions\<close>

type_synonym ('s, 'e, 'a) emonad = "'s \<Rightarrow> ('e + 'a) \<times> 's"

definition ereturn :: "'a \<Rightarrow> ('s, 'e, 'a) emonad" where
  "ereturn x = (\<lambda>s. (Inr x, s))"

definition ethrow :: "'e \<Rightarrow> ('s, 'e, 'a) emonad" where
  "ethrow e = (\<lambda>s. (Inl e, s))"

definition ebind :: "('s, 'e, 'a) emonad \<Rightarrow> ('a \<Rightarrow> ('s, 'e, 'b) emonad) \<Rightarrow> ('s, 'e, 'b) emonad" where
  "ebind m f = (\<lambda>s. case m s of (Inl e, s') \<Rightarrow> (Inl e, s') | (Inr x, s') \<Rightarrow> f x s')"

definition egets :: "('s \<Rightarrow> 'a) \<Rightarrow> ('s, 'e, 'a) emonad" where
  "egets f = (\<lambda>s. (Inr (f s), s))"

definition emodify :: "('s \<Rightarrow> 's) \<Rightarrow> ('s, 'e, unit) emonad" where
  "emodify f = (\<lambda>s. (Inr (), f s))"

definition ewhen :: "bool \<Rightarrow> ('s, 'e, unit) emonad \<Rightarrow> ('s, 'e, unit) emonad" where
  "ewhen b m = (if b then m else ereturn ())"

text \<open>Straight-line code: the statements in order, stopping at the first that throws.\<close>

primrec eseq :: "('s, 'e, unit) emonad list \<Rightarrow> ('s, 'e, unit) emonad" where
  "eseq [] = ereturn ()"
| "eseq (m # ms) = ebind m (\<lambda>_. eseq ms)"

text \<open>A range-based \<^verbatim>\<open>for\<close> loop without an accumulator, and one with an accumulator.\<close>

primrec efor :: "'a list \<Rightarrow> ('a \<Rightarrow> ('s, 'e, unit) emonad) \<Rightarrow> ('s, 'e, unit) emonad" where
  "efor [] f = ereturn ()"
| "efor (x # xs) f = ebind (f x) (\<lambda>_. efor xs f)"

primrec efold :: "('a \<Rightarrow> 'b \<Rightarrow> ('s, 'e, 'b) emonad) \<Rightarrow> 'a list \<Rightarrow> 'b \<Rightarrow> ('s, 'e, 'b) emonad" where
  "efold f [] acc = ereturn acc"
| "efold f (x # xs) acc = ebind (f x acc) (efold f xs)"

text \<open>\<^verbatim>\<open>try { m } catch (...) { throw h(e); }\<close>, the only form of handler the sources use.\<close>

definition ecatch :: "('s, 'e, 'a) emonad \<Rightarrow> ('e \<Rightarrow> 'e) \<Rightarrow> ('s, 'e, 'a) emonad" where
  "ecatch m h = (\<lambda>s. case m s of (Inl e, s') \<Rightarrow> (Inl (h e), s') | (Inr x, s') \<Rightarrow> (Inr x, s'))"

lemma ereturn_run [simp, emonad_simps]: "ereturn x s = (Inr x, s)"
  by (simp add: ereturn_def)

lemma ethrow_run [simp, emonad_simps]: "ethrow e s = (Inl e, s)"
  by (simp add: ethrow_def)

lemma egets_run [simp, emonad_simps]: "egets f s = (Inr (f s), s)"
  by (simp add: egets_def)

lemma emodify_run [simp, emonad_simps]: "emodify f s = (Inr (), f s)"
  by (simp add: emodify_def)

lemma ebind_run [emonad_simps]:
  "ebind m f s = (case m s of (Inl e, s') \<Rightarrow> (Inl e, s') | (Inr x, s') \<Rightarrow> f x s')"
  by (simp add: ebind_def)

lemma ebind_Inr: "m s = (Inr x, s') \<Longrightarrow> ebind m f s = f x s'"
  by (simp add: ebind_def)

lemma ebind_Inl: "m s = (Inl e, s') \<Longrightarrow> ebind m f s = (Inl e, s')"
  by (simp add: ebind_def)

lemma ewhen_run [simp, emonad_simps]: "ewhen b m s = (if b then m s else (Inr (), s))"
  by (simp add: ewhen_def)

lemma ebind_InrE:
  assumes "ebind m f s = (Inr y, s'')"
  obtains x s' where "m s = (Inr x, s')" and "f x s' = (Inr y, s'')"
  using assms by (auto simp: ebind_def split: prod.splits sum.splits)

subsection \<open>Relations kept by every run\<close>

text \<open>
  \<open>keeps R m\<close>: whatever \<open>m\<close> does, and whether it returns or throws, the state before and
  the state after are related by \<open>R\<close>. For a reflexive and transitive \<open>R\<close> the property is
  compositional, so it is proved per primitive and then holds of every composed operation.
\<close>

definition keeps :: "('s \<Rightarrow> 's \<Rightarrow> bool) \<Rightarrow> ('s, 'e, 'a) emonad \<Rightarrow> bool" where
  "keeps R m \<longleftrightarrow> (\<forall>s. R s (snd (m s)))"

lemma keepsI: "(\<And>s. R s (snd (m s))) \<Longrightarrow> keeps R m"
  by (simp add: keeps_def)

lemma keepsD: "keeps R m \<Longrightarrow> R s (snd (m s))"
  by (simp add: keeps_def)

locale step_relation =
  fixes R :: "'s \<Rightarrow> 's \<Rightarrow> bool"
  assumes R_refl: "R s s"
    and R_trans: "R s t \<Longrightarrow> R t u \<Longrightarrow> R s u"
begin

lemma keeps_ereturn: "keeps R (ereturn x)"
  by (simp add: keeps_def R_refl)

lemma keeps_Pair: "keeps R (Pair x)"
  by (simp add: keeps_def R_refl)

lemma keeps_ethrow: "keeps R (ethrow e)"
  by (simp add: keeps_def R_refl)

lemma keeps_egets: "keeps R (egets f)"
  by (simp add: keeps_def R_refl)

lemma keeps_emodify: "(\<And>s. R s (f s)) \<Longrightarrow> keeps R (emodify f)"
  by (simp add: keeps_def)

lemma keeps_ebind:
  assumes "keeps R m" and "\<And>x. keeps R (f x)"
  shows "keeps R (ebind m f)"
proof (rule keepsI)
  fix s
  from assms(1) have first: "R s (snd (m s))" by (rule keepsD)
  show "R s (snd (ebind m f s))"
  proof (cases "fst (m s)")
    case (Inl e)
    with first show ?thesis by (cases "m s") (simp add: ebind_def)
  next
    case (Inr x)
    then have "ebind m f s = f x (snd (m s))"
      by (cases "m s") (simp add: ebind_def)
    moreover have "R (snd (m s)) (snd (f x (snd (m s))))"
      using assms(2) by (rule keepsD)
    ultimately show ?thesis using first R_trans by metis
  qed
qed

lemma keeps_ewhen: "(b \<Longrightarrow> keeps R m) \<Longrightarrow> keeps R (ewhen b m)"
  by (simp add: keeps_def R_refl)

lemma keeps_if: "(b \<Longrightarrow> keeps R m) \<Longrightarrow> (\<not> b \<Longrightarrow> keeps R n) \<Longrightarrow> keeps R (if b then m else n)"
  by simp

lemma keeps_eseq: "(\<And>m. m \<in> set ms \<Longrightarrow> keeps R m) \<Longrightarrow> keeps R (eseq ms)"
  by (induction ms) (auto intro: keeps_ereturn keeps_ebind)

lemma keeps_efor: "(\<And>x. x \<in> set xs \<Longrightarrow> keeps R (f x)) \<Longrightarrow> keeps R (efor xs f)"
  by (induction xs) (auto intro: keeps_ereturn keeps_ebind)

lemma keeps_efold: "(\<And>x acc. x \<in> set xs \<Longrightarrow> keeps R (f x acc)) \<Longrightarrow> keeps R (efold f xs acc)"
  by (induction xs arbitrary: acc) (auto intro: keeps_ereturn keeps_ebind)

lemma keeps_ecatch: "keeps R m \<Longrightarrow> keeps R (ecatch m h)"
  by (auto simp: keeps_def ecatch_def split: prod.splits sum.splits) (metis snd_conv)+

lemma keeps_case_option:
  "(x = None \<Longrightarrow> keeps R m) \<Longrightarrow> (\<And>y. x = Some y \<Longrightarrow> keeps R (f y)) \<Longrightarrow>
   keeps R (case x of None \<Rightarrow> m | Some y \<Rightarrow> f y)"
  by (cases x) auto

lemma keeps_case_prod:
  "(\<And>a b. x = (a, b) \<Longrightarrow> keeps R (f a b)) \<Longrightarrow> keeps R (case x of (a, b) \<Rightarrow> f a b)"
  by (cases x) auto

lemma keeps_case_sum:
  "(\<And>y. x = Inl y \<Longrightarrow> keeps R (f y)) \<Longrightarrow> (\<And>y. x = Inr y \<Longrightarrow> keeps R (g y)) \<Longrightarrow>
   keeps R (case x of Inl y \<Rightarrow> f y | Inr y \<Rightarrow> g y)"
  by (cases x) auto

lemmas keeps_rules =
  keeps_ereturn keeps_Pair keeps_case_sum keeps_ethrow keeps_egets keeps_ebind keeps_ewhen keeps_if keeps_eseq
  keeps_efor keeps_efold keeps_ecatch keeps_case_option keeps_case_prod

end

section \<open>Results of pure fallible functions\<close>

definition sbind :: "'e + 'a \<Rightarrow> ('a \<Rightarrow> 'e + 'b) \<Rightarrow> 'e + 'b" where
  "sbind m f = (case m of Inl e \<Rightarrow> Inl e | Inr x \<Rightarrow> f x)"

lemma sbind_Inr [simp]: "sbind (Inr x) f = f x"
  by (simp add: sbind_def)

lemma sbind_Inl [simp]: "sbind (Inl e) f = Inl e"
  by (simp add: sbind_def)

lemma sbind_assoc: "sbind (sbind m f) g = sbind m (\<lambda>x. sbind (f x) g)"
  by (simp add: sbind_def split: sum.splits)

section \<open>First match in a vector\<close>

text \<open>
  \<^verbatim>\<open>std::find\<close> over a vector returns the first matching element; the sources then write
  through the iterator or erase it.
\<close>

primrec update_first :: "('a \<Rightarrow> bool) \<Rightarrow> ('a \<Rightarrow> 'a) \<Rightarrow> 'a list \<Rightarrow> 'a list" where
  "update_first P f [] = []"
| "update_first P f (x # xs) = (if P x then f x # xs else x # update_first P f xs)"

primrec erase_first :: "('a \<Rightarrow> bool) \<Rightarrow> 'a list \<Rightarrow> 'a list" where
  "erase_first P [] = []"
| "erase_first P (x # xs) = (if P x then xs else x # erase_first P xs)"

lemma length_update_first [simp]: "length (update_first P f xs) = length xs"
  by (induction xs) auto

lemma update_first_absent: "find P xs = None \<Longrightarrow> update_first P f xs = xs"
  by (induction xs) (auto split: if_splits)

lemma erase_first_absent: "find P xs = None \<Longrightarrow> erase_first P xs = xs"
  by (induction xs) (auto split: if_splits)

lemma find_append: "find P (xs @ ys) = (case find P xs of None \<Rightarrow> find P ys | Some x \<Rightarrow> Some x)"
  by (induction xs) auto

lemma erase_first_append_absent:
  "find P xs = None \<Longrightarrow> P y \<Longrightarrow> erase_first P (xs @ [y]) = xs"
  by (induction xs) (auto split: if_splits)

lemma erase_first_subset: "set (erase_first P xs) \<subseteq> set xs"
  by (induction xs) auto

lemma update_first_update_first:
  "(\<And>x. P x \<Longrightarrow> P (g x)) \<Longrightarrow>
   update_first P f (update_first P g xs) = update_first P (f \<circ> g) xs"
  by (induction xs) auto

lemma update_first_id: "(\<And>x. x \<in> set xs \<Longrightarrow> P x \<Longrightarrow> f x = x) \<Longrightarrow> update_first P f xs = xs"
  by (induction xs) auto

lemma map_update_first:
  "(\<And>x. P x \<Longrightarrow> g (f x) = g x) \<Longrightarrow> map g (update_first P f xs) = map g xs"
  by (induction xs) auto

section \<open>Ordered maps\<close>

text \<open>
  A \<^verbatim>\<open>std::map\<close> is an association list kept sorted by key: iteration follows the list, so a
  loop over the map is a recursion over it.
\<close>

type_synonym ('k, 'v) omap = "('k \<times> 'v) list"

abbreviation om_find :: "('k, 'v) omap \<Rightarrow> 'k \<Rightarrow> 'v option" where
  "om_find \<equiv> map_of"

definition om_count :: "('k, 'v) omap \<Rightarrow> 'k \<Rightarrow> bool" where
  "om_count m k = (case map_of m k of None \<Rightarrow> False | Some _ \<Rightarrow> True)"

fun om_insert :: "'k::linorder \<Rightarrow> 'v \<Rightarrow> ('k, 'v) omap \<Rightarrow> ('k, 'v) omap" where
  "om_insert k v [] = [(k, v)]"
| "om_insert k v ((k', v') # m) =
     (if k < k' then (k, v) # (k', v') # m
      else if k = k' then (k, v) # m
      else (k', v') # om_insert k v m)"

fun om_erase :: "'k \<Rightarrow> ('k, 'v) omap \<Rightarrow> ('k, 'v) omap" where
  "om_erase k [] = []"
| "om_erase k ((k', v') # m) = (if k = k' then m else (k', v') # om_erase k m)"

definition om_wf :: "('k::linorder, 'v) omap \<Rightarrow> bool" where
  "om_wf m = sorted_wrt (<) (map fst m)"

lemma om_count_iff [omap_simps]: "om_count m k \<longleftrightarrow> k \<in> fst ` set m"
proof -
  have "om_count m k \<longleftrightarrow> map_of m k \<noteq> None"
    by (cases "map_of m k") (simp_all add: om_count_def)
  then show ?thesis by (simp add: map_of_eq_None_iff)
qed

lemma om_find_insert [simp, omap_simps]:
  "om_find (om_insert k v m) = (om_find m)(k \<mapsto> v)"
  by (induction k v m rule: om_insert.induct) (auto simp: fun_eq_iff)

lemma om_keys_insert [simp, omap_simps]: "fst ` set (om_insert k v m) = insert k (fst ` set m)"
  by (induction k v m rule: om_insert.induct) auto

lemma om_wf_Nil [simp]: "om_wf []"
  by (simp add: om_wf_def)

lemma om_wf_Cons: "om_wf ((k, v) # m) \<longleftrightarrow> (\<forall>k' \<in> fst ` set m. k < k') \<and> om_wf m"
  by (auto simp: om_wf_def)

lemma om_wf_insert [simp, omap_simps]: "om_wf m \<Longrightarrow> om_wf (om_insert k v m)"
  by (induction k v m rule: om_insert.induct) (auto simp: om_wf_Cons)

lemma om_erase_subset: "fst ` set (om_erase k m) \<subseteq> fst ` set m"
  by (induction k m rule: om_erase.induct) auto

lemma om_wf_erase [simp, omap_simps]: "om_wf m \<Longrightarrow> om_wf (om_erase k m)"
  using om_erase_subset by (induction k m rule: om_erase.induct) (fastforce simp: om_wf_Cons)+

lemma om_find_erase [omap_simps]: "om_wf m \<Longrightarrow> om_find (om_erase k m) = (om_find m)(k := None)"
proof (induction k m rule: om_erase.induct)
  case (2 k k' v' m)
  then have below: "\<forall>j \<in> fst ` set m. k' < j" and wf: "om_wf m"
    by (auto simp: om_wf_Cons)
  show ?case
  proof (cases "k = k'")
    case True
    with below have "k \<notin> fst ` set m" by auto
    then have "om_find m k = None" by (simp add: map_of_eq_None_iff)
    with True show ?thesis by (auto simp: fun_eq_iff)
  next
    case False
    with "2.IH" wf show ?thesis by (auto simp: fun_eq_iff)
  qed
qed (simp add: fun_eq_iff)

lemma om_wf_distinct: "om_wf m \<Longrightarrow> distinct (map fst m)"
  unfolding om_wf_def by (simp add: strict_sorted_iff)

text \<open>What the sources rely on of \<^verbatim>\<open>std::map\<close>, as an interface.\<close>

locale ordered_map =
  fixes find' :: "'m \<Rightarrow> 'k::linorder \<Rightarrow> 'v option"
    and insert' :: "'k \<Rightarrow> 'v \<Rightarrow> 'm \<Rightarrow> 'm"
    and erase' :: "'k \<Rightarrow> 'm \<Rightarrow> 'm"
    and wf' :: "'m \<Rightarrow> bool"
  assumes find_insert: "find' (insert' k v m) = (find' m)(k \<mapsto> v)"
    and find_erase: "wf' m \<Longrightarrow> find' (erase' k m) = (find' m)(k := None)"
    and wf_insert: "wf' m \<Longrightarrow> wf' (insert' k v m)"
    and wf_erase: "wf' m \<Longrightarrow> wf' (erase' k m)"
begin

text \<open>Renaming a key, the way the sources do it: look up, erase, insert under the new key.\<close>

definition rename :: "'k \<Rightarrow> 'k \<Rightarrow> 'm \<Rightarrow> 'm" where
  "rename old new m = (case find' m old of None \<Rightarrow> m | Some v \<Rightarrow> insert' new v (erase' old m))"

lemma wf_rename: "wf' m \<Longrightarrow> wf' (rename old new m)"
  by (auto simp: rename_def wf_insert wf_erase split: option.splits)

lemma find_rename:
  "wf' m \<Longrightarrow> find' m old = Some v \<Longrightarrow>
   find' (rename old new m) = (find' m)(old := None, new \<mapsto> v)"
  by (simp add: rename_def find_insert find_erase)

lemma find_rename_absent: "find' m old = None \<Longrightarrow> rename old new m = m"
  by (simp add: rename_def)

end

interpretation std_map: ordered_map om_find om_insert om_erase om_wf
  by unfold_locales (simp_all add: om_find_erase)

section \<open>Words\<close>

lemma add_neg_cancel [simp]:
  fixes a v :: "'a::len word"
  shows "a + v + (0 - v) = a"
  by simp

lemma unat_sub_le:
  fixes a b :: "'a::len word"
  assumes "b \<le> a"
  shows "unat (a - b) = unat a - unat b"
  using assms by (rule unat_sub)

lemma unat_add_no_wrap:
  fixes a b :: "'a::len word"
  assumes "unat a + unat b < 2 ^ LENGTH('a)"
  shows "unat (a + b) = unat a + unat b"
  using assms by (simp add: unat_word_ariths)

lemma unat_of_nat_small: "n < 2 ^ LENGTH('a) \<Longrightarrow> unat (of_nat n :: 'a::len word) = n"
  by (simp add: unat_of_nat)

lemma word_div_mult_le:
  fixes a b :: "'a::len word"
  shows "a div b * b \<le> a"
proof -
  have nat: "unat a div unat b * unat b \<le> unat a"
    by (rule div_times_less_eq_dividend)
  then have "unat a div unat b * unat b < 2 ^ LENGTH('a)"
    using unsigned_less [of a] by (rule le_less_trans)
  then have "unat (a div b * b) = unat a div unat b * unat b"
    by (simp only: unat_word_ariths(2) unat_div mod_less)
  with nat show ?thesis by (simp add: word_le_nat_alt)
qed

section \<open>Totals over all addresses\<close>

text \<open>Addresses are a finite type, so a total supply is a finite sum.\<close>

lemma finite_address [simp]: "finite (UNIV :: address set)"
  by simp

lemma sum_fun_upd:
  fixes f :: "'a::finite \<Rightarrow> 'b::ab_group_add"
  shows "(\<Sum>x\<in>UNIV. (f(a := v)) x) = (\<Sum>x\<in>UNIV. f x) - f a + v"
proof -
  have "(\<Sum>x\<in>UNIV. (f(a := v)) x) = v + (\<Sum>x\<in>UNIV - {a}. f x)"
    by (simp add: sum.remove [of UNIV a])
  moreover have "(\<Sum>x\<in>UNIV. f x) = f a + (\<Sum>x\<in>UNIV - {a}. f x)"
    by (simp add: sum.remove [of UNIV a])
  ultimately show ?thesis by simp
qed

end
