(* ===== verification/ChainConfig.thy ===== *)
theory ChainConfig
  imports Prelude
begin

text \<open>
  libbrccore/config.cpp and config.h, libdevcore/Address.cpp: the constants of the chain, the
  fork heights, which depend on the chain id, and the voting calendar. The singleton
  \<^verbatim>\<open>config::getInstance()\<close> is the record \<open>config\<close>, an argument of the functions that read it.
  The predicates that gate a fork by a height are used by \<open>State\<close> (theory \<open>ChainState\<close> and the
  theories above it).
\<close>

section \<open>Constants\<close>

definition PRICEPRECISION :: u256 where "PRICEPRECISION = 100000000"
definition MATCHINGFEERATIO :: u256 where "MATCHINGFEERATIO = 2000"
definition SELLCOOKIE :: u256 where "SELLCOOKIE = 100000000"
definition BUYCOOKIE :: u256 where "BUYCOOKIE = 99000000"
definition BALLOTPRICE :: u256 where "BALLOTPRICE = 500000000"
definition MAINCHAINID :: int where "MAINCHAINID = 11"
definition TESTCHAINID :: int where "TESTCHAINID = 1"

definition VoteAddress :: address where
  "VoteAddress = 0x00000000000000000000000000000000766f7465"
definition systemAddress :: address where
  "systemAddress = 0x000000000000000000000042616572436861696e"
definition PdSystemAddress :: address where
  "PdSystemAddress = 0x00000000000000000045786368616e6765466565"
definition ExdbSystemAddress :: address where
  "ExdbSystemAddress = 0x0000000000000000006578646241646472657373"
definition SysBlockCreateRecordAddress :: address where
  "SysBlockCreateRecordAddress = 0x000000537973425265636f726441646472657373"
definition SysElectorAddress :: address where
  "SysElectorAddress = 0x000000000000456c6563746f7241646472657373"
definition SysVarlitorAddress :: address where
  "SysVarlitorAddress = 0x000000000067656e657369735661726c69746f72"
definition SysCanlitorAddress :: address where
  "SysCanlitorAddress = 0x0000000067656e6573697343616e646964617465"
definition SysMinerSnapshotAddress :: address where
  "SysMinerSnapshotAddress = 0x00000000005379734d696e657241646472657373"
definition GaspriceAddress :: address where
  "GaspriceAddress = 0x0000000000676173707269636541646472657373"

lemmas sys_address_defs =
  VoteAddress_def systemAddress_def PdSystemAddress_def ExdbSystemAddress_def
  SysBlockCreateRecordAddress_def SysElectorAddress_def SysVarlitorAddress_def
  SysCanlitorAddress_def SysMinerSnapshotAddress_def GaspriceAddress_def

section \<open>The configuration object\<close>

record config =
  varlitor_num :: "32 word"
  standby_num :: "32 word"
  min_cycel :: "32 word"
  m_chainId :: int

definition default_config :: config where
  "default_config = \<lparr>varlitor_num = 21, standby_num = 30, min_cycel = 3, m_chainId = 1\<rparr>"

datatype Votingstage = VOTE | RECEIVINGINCOME | ERRORSTAGE

text \<open>\<^verbatim>\<open>one_year\<close> and \<^verbatim>\<open>one_month\<close> are 32-bit counts of blocks; neither product overflows.\<close>

definition one_year :: "config \<Rightarrow> int" where
  "one_year c =
     (if m_chainId c = MAINCHAINID then 31536000 * 5
      else if m_chainId c = TESTCHAINID then 31536000
      else 31536000)"

definition one_month :: int where
  "one_month = 60 * 60 * 24 * 30"

definition getVotingCycle :: "config \<Rightarrow> int \<Rightarrow> nat \<times> Votingstage" where
  "getVotingCycle c blockNum =
     (if blockNum = 0 then (1, VOTE)
      else if blockNum > 0 \<and> blockNum < one_year c then
        (if blockNum > 0 \<and> blockNum < one_year c - one_month then (2, RECEIVINGINCOME)
         else if blockNum \<ge> one_year c - one_month \<and> blockNum < one_year c then (2, VOTE)
         else (3, RECEIVINGINCOME))
      else (3, RECEIVINGINCOME))"

definition minner_rank_num :: nat where "minner_rank_num = 7"
definition max_message_num :: nat where "max_message_num = 50"

definition getvoteRound :: "u256 \<Rightarrow> u256" where
  "getvoteRound numberofrounds = (if numberofrounds = 0 then 2 else numberofrounds)"

definition INT64_MAX :: int where "INT64_MAX = 9223372036854775807"

definition changeVoteHeight :: "config \<Rightarrow> int" where
  "changeVoteHeight c =
     (if m_chainId c = MAINCHAINID then 884100
      else if m_chainId c = TESTCHAINID then 884100 else 2)"

definition replaceMinerHeight :: "config \<Rightarrow> int" where
  "replaceMinerHeight c =
     (if m_chainId c = MAINCHAINID then 10681001
      else if m_chainId c = TESTCHAINID then 8759577 else 2)"

definition initSysAddressHeight :: "config \<Rightarrow> int" where
  "initSysAddressHeight c =
     (if m_chainId c = MAINCHAINID then 100
      else if m_chainId c = TESTCHAINID then 100 else 100)"

definition newChangeHeight :: "config \<Rightarrow> int" where
  "newChangeHeight c =
     (if m_chainId c = MAINCHAINID then 10681000
      else if m_chainId c = TESTCHAINID then 8759580 else 2)"

definition gasPriceHeight :: "config \<Rightarrow> int" where
  "gasPriceHeight c =
     (if m_chainId c = MAINCHAINID then 23814700
      else if m_chainId c = TESTCHAINID then 19650000 else 3)"

definition autoExHeight :: "config \<Rightarrow> int" where
  "autoExHeight c =
     (if m_chainId c = MAINCHAINID then 14524000
      else if m_chainId c = TESTCHAINID then 14524000 else 4)"

definition autoExTestNetHeight :: int where "autoExTestNetHeight = 4072941"

definition newBifurcationBvmHeight :: "config \<Rightarrow> int" where
  "newBifurcationBvmHeight c =
     (if m_chainId c = MAINCHAINID then 37920000
      else if m_chainId c = TESTCHAINID then 32089000 else 10)"

definition dividendHeight :: "config \<Rightarrow> int" where
  "dividendHeight c =
     (if m_chainId c = MAINCHAINID then 29875800
      else if m_chainId c = TESTCHAINID then INT64_MAX else 10)"

definition cancelAutoPendingOrderHeight :: "config \<Rightarrow> int" where
  "cancelAutoPendingOrderHeight c =
     (if m_chainId c = MAINCHAINID then 29875700
      else if m_chainId c = TESTCHAINID then INT64_MAX else 15)"

definition getPrecompiled :: "config \<Rightarrow> int" where
  "getPrecompiled c =
     (if m_chainId c = MAINCHAINID then 40409000
      else if m_chainId c = TESTCHAINID then 34436000 else 1)"

definition modifyReciptGasHeight :: "config \<Rightarrow> int" where
  "modifyReciptGasHeight c =
     (if m_chainId c = MAINCHAINID then 40409000
      else if m_chainId c = TESTCHAINID then 34436000 else 1)"

section \<open>The calendar\<close>

lemma one_month_pos: "0 < one_month"
  by (simp add: one_month_def)

lemma one_month_less_one_year: "one_month < one_year c"
  by (simp add: one_month_def one_year_def)

lemma getVotingCycle_no_error: "snd (getVotingCycle c n) \<noteq> ERRORSTAGE"
  by (simp add: getVotingCycle_def)

lemma getVotingCycle_round_range: "fst (getVotingCycle c n) \<in> {1, 2, 3}"
  by (simp add: getVotingCycle_def)

lemma getVotingCycle_round_mono:
  "0 \<le> m \<Longrightarrow> m \<le> n \<Longrightarrow> fst (getVotingCycle c m) \<le> fst (getVotingCycle c n)"
  by (auto simp: getVotingCycle_def)

lemma getVotingCycle_vote_window:
  "snd (getVotingCycle c n) = VOTE \<longleftrightarrow> n = 0 \<or> (one_year c - one_month \<le> n \<and> n < one_year c)"
  using one_month_pos one_month_less_one_year [of c] by (auto simp: getVotingCycle_def)

lemma gasPriceHeight_after_newChangeHeight: "newChangeHeight c < gasPriceHeight c"
  by (simp add: newChangeHeight_def gasPriceHeight_def)

section \<open>Properties\<close>

text \<open>
  The calendar of the chain: the round never decreases with the block number, it is 1, 2 or 3,
  there is no error stage, and the voting stage is the genesis block and the last month of the year.
\<close>

lemma voting_calendar:
  assumes "0 \<le> m" and "m \<le> n"
  shows "fst (getVotingCycle c m) \<le> fst (getVotingCycle c n) \<and> fst (getVotingCycle c n) \<in> {1, 2, 3} \<and>
    snd (getVotingCycle c n) \<noteq> ERRORSTAGE \<and>
    (snd (getVotingCycle c n) = VOTE \<longleftrightarrow> n = 0 \<or> one_year c - one_month \<le> n \<and> n < one_year c)"
  using getVotingCycle_round_mono [OF assms] getVotingCycle_round_range getVotingCycle_no_error getVotingCycle_vote_window
  by simp

end
