(* ===== verification/ExOrder.thy ===== *)
theory ExOrder
  imports Prelude "HOL-Library.Product_Lexorder"
begin

text \<open>
  indexDb/database/include/brc/types.hpp and objects.hpp: the orders of the exchange and the
  multi-index containers that hold them. An \<^verbatim>\<open>ExOrderMulti\<close> has one unique index (the
  transaction id) and ordered non-unique indices; boost inserts an element after the elements
  with an equal key, so the container is a list in insertion order and an ordered index is its
  stable sort by the index's composite key.
\<close>

section \<open>Orders\<close>

datatype order_type = null_type | sell | buy
datatype order_token_type = TK_BRC | TK_FUEL
datatype order_buy_type = all_price | only_price

primrec order_type_code :: "order_type \<Rightarrow> nat" where
  "order_type_code null_type = 0"
| "order_type_code sell = 1"
| "order_type_code buy = 2"

primrec order_token_code :: "order_token_type \<Rightarrow> nat" where
  "order_token_code TK_BRC = 0"
| "order_token_code TK_FUEL = 1"

record ex_order =
  eo_trxid :: h256
  eo_sender :: address
  eo_price :: u256
  eo_token_amount :: u256
  eo_source_amount :: u256
  eo_create_time :: time_ms
  eo_type :: order_type
  eo_token_type :: order_token_type
  eo_buy_type :: order_buy_type

text \<open>\<^verbatim>\<open>ex::order\<close>, what a cancellation returns.\<close>

record order =
  o_trxid :: h256
  o_sender :: address
  o_buy_type :: order_buy_type
  o_token_type :: order_token_type
  o_type :: order_type
  o_price_token :: "u256 \<times> u256"
  o_time :: time_ms

record result_order =
  ro_sender :: address
  ro_acceptor :: address
  ro_type :: order_type
  ro_token_type :: order_token_type
  ro_buy_type :: order_buy_type
  ro_create_time :: time_ms
  ro_send_trxid :: h256
  ro_to_trxid :: h256
  ro_amount :: u256
  ro_price :: u256
  ro_old_price :: u256

text \<open>
  \<^verbatim>\<open>result_order::set_data\<close> on a default-constructed result (\<^verbatim>\<open>old_price\<close> is then 0).
\<close>

definition set_data :: "ex_order \<Rightarrow> ex_order \<Rightarrow> u256 \<Rightarrow> u256 \<Rightarrow> result_order" where
  "set_data itr1 itr2 amount price =
     \<lparr>ro_sender = eo_sender itr1, ro_acceptor = eo_sender itr2, ro_type = eo_type itr1,
      ro_token_type = eo_token_type itr1, ro_buy_type = eo_buy_type itr1,
      ro_create_time = eo_create_time itr1, ro_send_trxid = eo_trxid itr1,
      ro_to_trxid = eo_trxid itr2, ro_amount = amount, ro_price = price, ro_old_price = 0\<rparr>"

section \<open>The order container\<close>

type_synonym ExOrderMulti = "ex_order list"
type_synonym ExResultOrder = "result_order list"

definition has_trxid :: "h256 \<Rightarrow> ex_order \<Rightarrow> bool" where
  "has_trxid t od \<longleftrightarrow> eo_trxid od = t"

text \<open>\<^verbatim>\<open>insert\<close> is refused when the unique key is taken.\<close>

definition multi_insert :: "ex_order \<Rightarrow> ExOrderMulti \<Rightarrow> ExOrderMulti" where
  "multi_insert od m = (case find (has_trxid (eo_trxid od)) m of None \<Rightarrow> m @ [od] | Some _ \<Rightarrow> m)"

definition multi_erase :: "h256 \<Rightarrow> ExOrderMulti \<Rightarrow> ExOrderMulti" where
  "multi_erase t m = erase_first (has_trxid t) m"

definition multi_find :: "h256 \<Rightarrow> ExOrderMulti \<Rightarrow> ex_order option" where
  "multi_find t m = find (has_trxid t) m"

definition trxids_distinct :: "ExOrderMulti \<Rightarrow> bool" where
  "trxids_distinct m = distinct (map eo_trxid m)"

subsection \<open>The ordered indices\<close>

definition price_less_key :: "ex_order \<Rightarrow> nat \<times> nat \<times> int \<times> int" where
  "price_less_key od =
     (order_type_code (eo_type od), order_token_code (eo_token_type od), uint (eo_price od),
      eo_create_time od)"

definition price_greater_key :: "ex_order \<Rightarrow> nat \<times> nat \<times> int \<times> int" where
  "price_greater_key od =
     (order_type_code (eo_type od), order_token_code (eo_token_type od), - uint (eo_price od),
      eo_create_time od)"

definition ex_by_price_less :: "ExOrderMulti \<Rightarrow> ex_order list" where
  "ex_by_price_less m = sort_key price_less_key m"

definition ex_by_price_greater :: "ExOrderMulti \<Rightarrow> ex_order list" where
  "ex_by_price_greater m = sort_key price_greater_key m"

text \<open>The elements from \<^verbatim>\<open>lower_bound(lo)\<close> up to \<^verbatim>\<open>upper_bound(hi)\<close> of an ordered index.\<close>

definition index_range :: "('a \<Rightarrow> 'k::linorder) \<Rightarrow> 'k \<Rightarrow> 'k \<Rightarrow> 'a list \<Rightarrow> 'a list" where
  "index_range key lo hi xs = takeWhile (\<lambda>x. key x \<le> hi) (dropWhile (\<lambda>x. key x < lo) xs)"

lemma index_range_sorted:
  assumes "sorted (map key xs)"
  shows "index_range key lo hi xs = filter (\<lambda>x. lo \<le> key x \<and> key x \<le> hi) xs"
  using assms
proof (induction xs)
  case (Cons x xs)
  then have above: "\<forall>y \<in> set xs. key x \<le> key y" and sorted: "sorted (map key xs)"
    by auto
  show ?case
  proof (cases "key x < lo")
    case True
    then have "index_range key lo hi (x # xs) = index_range key lo hi xs"
      by (simp add: index_range_def)
    with True Cons.IH [OF sorted] show ?thesis by (simp add: not_le)
  next
    case False
    show ?thesis
    proof (cases "key x \<le> hi")
      case True
      from False above have "\<forall>y \<in> set xs. \<not> key y < lo" by auto
      then have "dropWhile (\<lambda>y. key y < lo) xs = xs"
        by (cases xs) auto
      with True False Cons.IH [OF sorted] show ?thesis by (simp add: index_range_def)
    next
      case beyond: False
      with above have "filter (\<lambda>y. lo \<le> key y \<and> key y \<le> hi) xs = []"
        by (auto simp: filter_empty_conv)
      with False beyond show ?thesis by (simp add: index_range_def)
    qed
  qed
qed (simp add: index_range_def)

section \<open>Container lemmas\<close>

lemma has_trxid_iff [simp]: "has_trxid t od \<longleftrightarrow> eo_trxid od = t"
  by (simp add: has_trxid_def)

lemma find_trxid_None: "find (has_trxid t) m = None \<longleftrightarrow> t \<notin> eo_trxid ` set m"
  by (auto simp: find_None_iff)

lemma erase_first_trxid:
  "trxids_distinct m \<Longrightarrow> erase_first (has_trxid t) m = filter (\<lambda>od. eo_trxid od \<noteq> t) m"
proof (induction m)
  case (Cons od m)
  then have fresh: "eo_trxid od \<notin> eo_trxid ` set m" and "trxids_distinct m"
    by (auto simp: trxids_distinct_def)
  from fresh have "eo_trxid od = t \<Longrightarrow> filter (\<lambda>od. eo_trxid od \<noteq> t) m = m"
    by (metis (mono_tags, lifting) filter_True image_eqI)
  with Cons.IH \<open>trxids_distinct m\<close> show ?case by auto
qed simp

lemma multi_insert_distinct: "trxids_distinct m \<Longrightarrow> trxids_distinct (multi_insert od m)"
  by (auto simp: multi_insert_def trxids_distinct_def find_trxid_None split: option.split)

lemma multi_erase_distinct: "trxids_distinct m \<Longrightarrow> trxids_distinct (multi_erase t m)"
  by (simp add: multi_erase_def erase_first_trxid) (simp add: trxids_distinct_def distinct_map_filter)

lemma set_multi_erase: "trxids_distinct m \<Longrightarrow> set (multi_erase t m) = {od \<in> set m. eo_trxid od \<noteq> t}"
  by (auto simp: multi_erase_def erase_first_trxid)

lemma multi_find_Some: "multi_find t m = Some od \<Longrightarrow> od \<in> set m \<and> eo_trxid od = t"
  by (auto simp: multi_find_def find_Some_iff)

lemma multi_find_erased: "trxids_distinct m \<Longrightarrow> multi_find t (multi_erase t m) = None"
  by (simp add: multi_find_def find_trxid_None set_multi_erase) auto

end
