(* ===== verification/Account.thy ===== *)
theory Account
  imports ChainConfig ExOrder
begin

text \<open>
  libbrcdchain/Account.h and Account.cpp: the account object and the structures it embeds (vote
  records, snapshots of rounds, fee snapshots, received income, block records). A member function
  that mutates the account is a function to the new account. Where the C++ dereferences an
  iterator that may be \<^verbatim>\<open>end()\<close> or was invalidated, its behaviour is undefined: such a function
  returns an option and \<open>None\<close> is that case. The serialisation members (\<^verbatim>\<open>streamRLP\<close>,
  \<^verbatim>\<open>populate\<close>) are in the theory \<open>AccountRlp\<close>. \<^verbatim>\<open>insertMiner\<close> and \<^verbatim>\<open>changeMiner\<close>, which print to and parse
  from the strings (byte strings here) of \<^verbatim>\<open>m_willChangeList\<close>, are left out: nothing calls them.
\<close>

section \<open>PollData\<close>

record PollData =
  pd_addr :: address
  pd_poll :: u256
  pd_time :: time_ms

definition empty_poll :: PollData where
  "empty_poll = \<lparr>pd_addr = 0, pd_poll = 0, pd_time = 0\<rparr>"

text \<open>\<^verbatim>\<open>PollData::operator>\<close>, with \<open>p\<close> the object and \<open>q\<close> the argument.\<close>

definition poll_gt :: "PollData \<Rightarrow> PollData \<Rightarrow> bool" where
  "poll_gt p q =
     (if pd_poll q > pd_poll p then True
      else if pd_poll p = pd_poll q \<and> pd_time q = 0 \<and> pd_time q < pd_time p then True
      else False)"

text \<open>
  \<^verbatim>\<open>PollData::sort_greater\<close>: the two nested loops and the three assignments of the exchange,
  as written (the second assignment and the third both write \<^verbatim>\<open>p_data[j]\<close>).
\<close>

definition sort_greater_body :: "nat \<Rightarrow> nat \<Rightarrow> PollData list \<Rightarrow> PollData list" where
  "sort_greater_body i j p_data =
     (if poll_gt (p_data ! j) (p_data ! i) then
        (let data = p_data ! j;
             p1 = p_data[j := p_data ! i];
             p2 = p1[j := data]
         in p2)
      else p_data)"

definition sort_greater :: "PollData list \<Rightarrow> PollData list" where
  "sort_greater p_data =
     (let index = length p_data in
      fold (\<lambda>i. fold (sort_greater_body i) [i + 1..<index]) [0..<index - 1] p_data)"

abbreviation is_poll_of :: "address \<Rightarrow> PollData \<Rightarrow> bool" where
  "is_poll_of a \<equiv> \<lambda>p. pd_addr p = a"

section \<open>ReceivedCookies\<close>

record ReceivedCookies =
  rc_received_cookies :: "(u256, (address, u256 \<times> u256) omap) omap"
  rc_numberofRound :: u256
  rc_is_received :: "u256 \<times> bool"

definition empty_received :: ReceivedCookies where
  "empty_received = \<lparr>rc_received_cookies = [], rc_numberofRound = 0, rc_is_received = (1, False)\<rparr>"

definition up_received_cookies ::
    "u256 \<Rightarrow> address \<Rightarrow> u256 \<times> u256 \<Rightarrow> ReceivedCookies \<Rightarrow> ReceivedCookies" where
  "up_received_cookies rounds a p r =
     (case om_find (rc_received_cookies r) rounds of
        None \<Rightarrow> r\<lparr>rc_received_cookies := om_insert rounds [(a, p)] (rc_received_cookies r)\<rparr>
      | Some m \<Rightarrow> r\<lparr>rc_received_cookies := om_insert rounds (om_insert a p m) (rc_received_cookies r)\<rparr>)"

definition updataNumberofRound :: "u256 \<Rightarrow> ReceivedCookies \<Rightarrow> ReceivedCookies" where
  "updataNumberofRound n r = r\<lparr>rc_numberofRound := n\<rparr>"

definition received_clear :: "ReceivedCookies \<Rightarrow> ReceivedCookies" where
  "received_clear r = r\<lparr>rc_received_cookies := []\<rparr>"

section \<open>VoteSnapshot\<close>

record VoteSnapshot =
  vs_voteDataHistory :: "(u256, (address, u256) omap) omap"
  vs_pollNumHistory :: "(u256, u256) omap"
  vs_blockSummaryHistory :: "(u256, u256) omap"
  vs_numberofrounds :: u256
  vs_latest_round :: u256

definition empty_snapshot :: VoteSnapshot where
  "empty_snapshot =
     \<lparr>vs_voteDataHistory = [], vs_pollNumHistory = [], vs_blockSummaryHistory = [],
      vs_numberofrounds = 0, vs_latest_round = 0\<rparr>"

definition snapshot_isEmpty :: "VoteSnapshot \<Rightarrow> bool" where
  "snapshot_isEmpty v \<longleftrightarrow>
     vs_voteDataHistory v = [] \<and> vs_pollNumHistory v = [] \<and> vs_blockSummaryHistory v = []"

section \<open>CouplingSystemfee\<close>

record CouplingSystemfee =
  cs_Feesnapshot :: "(u256, u256 \<times> u256) omap"
  cs_sorted_creaters :: "(u256, PollData list) omap"
  cs_rounds :: u256
  cs_numofrounds :: u256
  cs_received_cookies :: "(u256, (address, u256 \<times> u256) omap) omap"
  cs_total_summary :: "u256 \<times> u256"

definition empty_systemfee :: CouplingSystemfee where
  "empty_systemfee =
     \<lparr>cs_Feesnapshot = [], cs_sorted_creaters = [], cs_rounds = 0, cs_numofrounds = 0,
      cs_received_cookies = [], cs_total_summary = (0, 0)\<rparr>"

text \<open>The loop takes \<^verbatim>\<open>miner_num\<close> elements at most.\<close>

fun sum_polls :: "nat \<Rightarrow> PollData list \<Rightarrow> u256 \<Rightarrow> u256" where
  "sum_polls n [] acc = acc"
| "sum_polls n (p # ps) acc = (if n = 0 then acc else sum_polls (n - 1) ps (acc + pd_poll p))"

definition get_total_poll :: "u256 \<Rightarrow> nat \<Rightarrow> CouplingSystemfee \<Rightarrow> u256" where
  "get_total_poll round miner_num c =
     (case om_find (cs_sorted_creaters c) round of
        None \<Rightarrow> 0 | Some ps \<Rightarrow> sum_polls miner_num ps 0)"

text \<open>The early return of a new round leaves the summary as it was.\<close>

definition up_received_cookies_brcs ::
    "u256 \<Rightarrow> address \<Rightarrow> u256 \<times> u256 \<Rightarrow> u256 \<times> u256 \<Rightarrow> CouplingSystemfee \<Rightarrow> CouplingSystemfee" where
  "up_received_cookies_brcs rounds a received summary c =
     (case om_find (cs_received_cookies c) rounds of
        None \<Rightarrow> c\<lparr>cs_received_cookies := om_insert rounds [(a, received)] (cs_received_cookies c)\<rparr>
      | Some m \<Rightarrow>
          c\<lparr>cs_received_cookies := om_insert rounds (om_insert a received m) (cs_received_cookies c),
            cs_total_summary := summary\<rparr>)"

definition systemfee_clear :: "CouplingSystemfee \<Rightarrow> CouplingSystemfee" where
  "systemfee_clear c = c\<lparr>cs_Feesnapshot := [], cs_numofrounds := 0, cs_rounds := 0\<rparr>"

definition systemfee_isEmpty :: "CouplingSystemfee \<Rightarrow> bool" where
  "systemfee_isEmpty c \<longleftrightarrow> cs_Feesnapshot c = [] \<and> cs_sorted_creaters c = []"

section \<open>The account\<close>

text \<open>
  The two digests are the values the constants of libdevcore have: Keccak-256 of the empty
  string, and of the RLP encoding of the empty string.
\<close>

definition EmptySHA3 :: h256 where
  "EmptySHA3 = 0xc5d2460186f7233c927e7db2dcc703c0e500b653ca82273b7bfad8045d85a470"

definition EmptyTrie :: h256 where
  "EmptyTrie = 0x56e81f171bcc55a6ff8345e692c0f86e5b48e01b996cadc001622fb5e363b421"

record account =
  m_isAlive :: bool
  m_isUnchanged :: bool
  m_hasNewCode :: bool
  m_nonce :: u256
  m_balance :: u256
  m_storageRoot :: h256
  m_codeHash :: h256
  m_ballot :: u256
  m_poll :: u256
  m_BRC :: u256
  m_FBRC :: u256
  m_FBalance :: u256
  m_CooikeIncomeNum :: u256
  m_willChangeList :: "bytes list"
  m_vote_data :: "PollData list"
  m_vote_sapshot :: VoteSnapshot
  m_couplingSystemFee :: CouplingSystemfee
  m_received_cookies :: ReceivedCookies
  m_BlockReward :: "(u256 \<times> u256) list"
  m_successExchange :: ExResultOrder
  m_exChangeOrder :: ExOrderMulti
  m_storageOverlay :: "u256 \<rightharpoonup> u256"
  m_storageOriginal :: "u256 \<rightharpoonup> u256"
  m_codeCache :: bytes
  m_block_records :: "(address, time_ms) omap"
  m_mappingAddress :: "address \<times> address"
  m_minerGasPrice :: "(address, u256) omap"

definition dead_account :: account where
  "dead_account =
     \<lparr>m_isAlive = False, m_isUnchanged = False, m_hasNewCode = False, m_nonce = 0, m_balance = 0,
      m_storageRoot = EmptyTrie, m_codeHash = EmptySHA3, m_ballot = 0, m_poll = 0, m_BRC = 0,
      m_FBRC = 0, m_FBalance = 0, m_CooikeIncomeNum = 0, m_willChangeList = [], m_vote_data = [],
      m_vote_sapshot = empty_snapshot, m_couplingSystemFee = empty_systemfee,
      m_received_cookies = empty_received, m_BlockReward = [], m_successExchange = [],
      m_exChangeOrder = [], m_storageOverlay = Map.empty, m_storageOriginal = Map.empty,
      m_codeCache = [], m_block_records = [], m_mappingAddress = (0, 0), m_minerGasPrice = []\<rparr>"

text \<open>The constructors \<^verbatim>\<open>Account(nonce, balance)\<close>, \<^verbatim>\<open>Account(ballot)\<close> and \<^verbatim>\<open>Account(nonce, balance, BRC)\<close>.\<close>

definition account_nb :: "u256 \<Rightarrow> u256 \<Rightarrow> account" where
  "account_nb nonce bal = dead_account\<lparr>m_isAlive := True, m_nonce := nonce, m_balance := bal\<rparr>"

definition account_ballot :: "u256 \<Rightarrow> account" where
  "account_ballot b = dead_account\<lparr>m_isAlive := True, m_nonce := 0, m_ballot := b\<rparr>"

definition account_nbb :: "u256 \<Rightarrow> u256 \<Rightarrow> u256 \<Rightarrow> account" where
  "account_nbb nonce bal brc =
     dead_account\<lparr>m_isAlive := True, m_nonce := nonce, m_balance := bal, m_BRC := brc\<rparr>"

definition changed :: "account \<Rightarrow> account" where
  "changed a = a\<lparr>m_isUnchanged := False\<rparr>"

definition untouch :: "account \<Rightarrow> account" where
  "untouch a = a\<lparr>m_isUnchanged := True\<rparr>"

definition isDirty :: "account \<Rightarrow> bool" where
  "isDirty a \<longleftrightarrow> \<not> m_isUnchanged a"

definition isEmpty :: "account \<Rightarrow> bool" where
  "isEmpty a \<longleftrightarrow>
     m_nonce a = 0 \<and> m_balance a = 0 \<and> m_codeHash a = EmptySHA3 \<and> m_BRC a = 0 \<and> m_poll a = 0 \<and>
     m_FBalance a = 0 \<and> m_FBRC a = 0 \<and> m_CooikeIncomeNum a = 0 \<and> m_vote_data a = [] \<and>
     m_BlockReward a = [] \<and> m_ballot a = 0 \<and> m_block_records a = [] \<and>
     systemfee_isEmpty (m_couplingSystemFee a) \<and> snapshot_isEmpty (m_vote_sapshot a) \<and>
     rc_received_cookies (m_received_cookies a) = [] \<and>
     m_exChangeOrder a = [] \<and> m_successExchange a = [] \<and> m_minerGasPrice a = []"

definition kill_account :: "account \<Rightarrow> account" where
  "kill_account a =
     changed (a\<lparr>m_isAlive := False, m_storageOverlay := Map.empty, m_storageOriginal := Map.empty,
       m_codeHash := EmptySHA3, m_storageRoot := EmptyTrie, m_balance := 0, m_BRC := 0, m_FBRC := 0,
       m_FBalance := 0, m_nonce := 0, m_poll := 0, m_ballot := 0, m_willChangeList := [],
       m_BlockReward := [], m_couplingSystemFee := systemfee_clear (m_couplingSystemFee a),
       m_vote_sapshot := empty_snapshot, m_received_cookies := received_clear (m_received_cookies a),
       m_exChangeOrder := [], m_successExchange := []\<rparr>)"

text \<open>Every field but the miner mapping and the gas prices.\<close>

definition copyByAccount :: "account \<Rightarrow> account \<Rightarrow> account" where
  "copyByAccount ac a =
     ac\<lparr>m_mappingAddress := m_mappingAddress a, m_minerGasPrice := m_minerGasPrice a\<rparr>"

subsection \<open>Amounts\<close>

definition acc_addBalance :: "u256 \<Rightarrow> account \<Rightarrow> account" where
  "acc_addBalance v a = changed (a\<lparr>m_balance := m_balance a + v\<rparr>)"

definition acc_addBRC :: "u256 \<Rightarrow> account \<Rightarrow> account" where
  "acc_addBRC v a = changed (a\<lparr>m_BRC := m_BRC a + v\<rparr>)"

definition acc_addFBRC :: "u256 \<Rightarrow> account \<Rightarrow> account" where
  "acc_addFBRC v a = changed (a\<lparr>m_FBRC := m_FBRC a + v\<rparr>)"

definition acc_addFBalance :: "u256 \<Rightarrow> account \<Rightarrow> account" where
  "acc_addFBalance v a = changed (a\<lparr>m_FBalance := m_FBalance a + v\<rparr>)"

definition acc_addBallot :: "u256 \<Rightarrow> account \<Rightarrow> account" where
  "acc_addBallot v a = changed (a\<lparr>m_ballot := m_ballot a + v\<rparr>)"

definition acc_addPoll :: "u256 \<Rightarrow> account \<Rightarrow> account" where
  "acc_addPoll v a = changed (a\<lparr>m_poll := m_poll a + v\<rparr>)"

definition acc_addCooikeIncome :: "u256 \<Rightarrow> account \<Rightarrow> account" where
  "acc_addCooikeIncome v a = changed (a\<lparr>m_CooikeIncomeNum := m_CooikeIncomeNum a + v\<rparr>)"

definition acc_incNonce :: "account \<Rightarrow> account" where
  "acc_incNonce a = changed (a\<lparr>m_nonce := m_nonce a + 1\<rparr>)"

definition acc_setNonce :: "u256 \<Rightarrow> account \<Rightarrow> account" where
  "acc_setNonce n a = changed (a\<lparr>m_nonce := n\<rparr>)"

subsection \<open>Storage and code\<close>

text \<open>
  The storage trie and the hash function are parameters: \<open>trie root key\<close> is the integer the
  trie with that root holds under the key (0 when it holds nothing). The cache
  \<^verbatim>\<open>m_storageOriginal\<close> is mutable, so a read returns the updated account too.
\<close>

definition acc_originalStorageValue ::
    "(h256 \<Rightarrow> u256 \<Rightarrow> u256) \<Rightarrow> u256 \<Rightarrow> account \<Rightarrow> u256 \<times> account" where
  "acc_originalStorageValue trie key a =
     (case m_storageOriginal a key of
        Some v \<Rightarrow> (v, a)
      | None \<Rightarrow> (let v = trie (m_storageRoot a) key
                 in (v, a\<lparr>m_storageOriginal := (m_storageOriginal a)(key \<mapsto> v)\<rparr>)))"

definition acc_storageValue ::
    "(h256 \<Rightarrow> u256 \<Rightarrow> u256) \<Rightarrow> u256 \<Rightarrow> account \<Rightarrow> u256 \<times> account" where
  "acc_storageValue trie key a =
     (case m_storageOverlay a key of
        Some v \<Rightarrow> (v, a)
      | None \<Rightarrow> acc_originalStorageValue trie key a)"

definition acc_setStorage :: "u256 \<Rightarrow> u256 \<Rightarrow> account \<Rightarrow> account" where
  "acc_setStorage p v a = changed (a\<lparr>m_storageOverlay := (m_storageOverlay a)(p \<mapsto> v)\<rparr>)"

definition acc_clearStorage :: "account \<Rightarrow> account" where
  "acc_clearStorage a =
     changed (a\<lparr>m_storageOverlay := Map.empty, m_storageOriginal := Map.empty, m_storageRoot := EmptyTrie\<rparr>)"

definition acc_setStorageRoot :: "h256 \<Rightarrow> account \<Rightarrow> account" where
  "acc_setStorageRoot r a =
     changed (a\<lparr>m_storageOverlay := Map.empty, m_storageOriginal := Map.empty, m_storageRoot := r\<rparr>)"

definition acc_setCode :: "(bytes \<Rightarrow> h256) \<Rightarrow> bytes \<Rightarrow> account \<Rightarrow> account" where
  "acc_setCode sha3 code a = a\<lparr>m_codeCache := code, m_hasNewCode := True, m_codeHash := sha3 code\<rparr>"

subsection \<open>Votes\<close>

definition voteAll :: "account \<Rightarrow> u256" where
  "voteAll a = fold (\<lambda>p n. n + pd_poll p) (m_vote_data a) 0"

definition set_vote_data :: "PollData list \<Rightarrow> account \<Rightarrow> account" where
  "set_vote_data v a = changed (a\<lparr>m_vote_data := v\<rparr>)"

definition clear_vote_data :: "account \<Rightarrow> account" where
  "clear_vote_data a = a\<lparr>m_vote_data := []\<rparr>"

text \<open>
  \<^verbatim>\<open>Account::addVote\<close>. When the receiver is not found and the amount is 0 the code falls
  through and dereferences the end iterator.
\<close>

definition addVote :: "address \<times> u256 \<Rightarrow> account \<Rightarrow> account option" where
  "addVote vp a =
     (case find (is_poll_of (fst vp)) (m_vote_data a) of
        None \<Rightarrow>
          (if snd vp \<noteq> 0 then
             Some (changed (a\<lparr>m_vote_data :=
               m_vote_data a @ [\<lparr>pd_addr = fst vp, pd_poll = snd vp, pd_time = 0\<rparr>]\<rparr>))
           else None)
      | Some p \<Rightarrow>
          (if pd_poll p + snd vp > 0 then
             Some (changed (a\<lparr>m_vote_data :=
               update_first (is_poll_of (fst vp)) (\<lambda>p. p\<lparr>pd_poll := pd_poll p + snd vp\<rparr>) (m_vote_data a)\<rparr>))
           else Some (changed (a\<lparr>m_vote_data := erase_first (is_poll_of (fst vp)) (m_vote_data a)\<rparr>))))"

definition manageSysVote :: "address \<Rightarrow> bool \<Rightarrow> u256 \<Rightarrow> time_ms \<Rightarrow> account \<Rightarrow> account" where
  "manageSysVote other isLogin tickets time a =
     changed
       (case find (is_poll_of other) (m_vote_data a) of
          None \<Rightarrow> (if isLogin
                   then a\<lparr>m_vote_data := m_vote_data a @ [\<lparr>pd_addr = other, pd_poll = tickets, pd_time = time\<rparr>]\<rparr>
                   else a)
        | Some _ \<Rightarrow> (if \<not> isLogin then a\<lparr>m_vote_data := erase_first (is_poll_of other) (m_vote_data a)\<rparr>
                     else a))"

text \<open>
  \<^verbatim>\<open>Account::set_system_poll\<close>. When the address is absent, \<^verbatim>\<open>emplace_back\<close> invalidates the end
  iterator that the next two statements write through.
\<close>

definition set_system_poll :: "PollData \<Rightarrow> account \<Rightarrow> account option" where
  "set_system_poll p a =
     (case find (is_poll_of (pd_addr p)) (m_vote_data a) of
        None \<Rightarrow> None
      | Some _ \<Rightarrow>
          Some (changed (a\<lparr>m_vote_data :=
            update_first (is_poll_of (pd_addr p))
              (\<lambda>q. q\<lparr>pd_poll := pd_poll p, pd_time := pd_time p\<rparr>) (m_vote_data a)\<rparr>)))"

definition poll_data :: "address \<Rightarrow> account \<Rightarrow> PollData" where
  "poll_data addr a =
     (case find (is_poll_of addr) (m_vote_data a) of None \<Rightarrow> empty_poll | Some p \<Rightarrow> p)"

definition changeVoteData :: "address \<Rightarrow> address \<Rightarrow> account \<Rightarrow> bool \<times> account" where
  "changeVoteData before after a =
     (case find (is_poll_of before) (m_vote_data a) of
        None \<Rightarrow> (False, a)
      | Some _ \<Rightarrow> (True, changed (a\<lparr>m_vote_data :=
          update_first (is_poll_of before) (\<lambda>p. p\<lparr>pd_addr := after\<rparr>) (m_vote_data a)\<rparr>)))"

subsection \<open>Block rewards and gas prices\<close>

definition addBlockRewardRecoding :: "u256 \<times> u256 \<Rightarrow> account \<Rightarrow> account" where
  "addBlockRewardRecoding p a =
     changed
       (if m_BlockReward a = [] then a\<lparr>m_BlockReward := m_BlockReward a @ [p]\<rparr>
        else
          (let rewardPair = last (m_BlockReward a) in
           if fst rewardPair = fst p
           then a\<lparr>m_BlockReward := butlast (m_BlockReward a) @ [(fst rewardPair, snd rewardPair + snd p)]\<rparr>
           else a\<lparr>m_BlockReward := m_BlockReward a @ [p]\<rparr>))"

definition setMinerGasPrice :: "address \<Rightarrow> u256 \<Rightarrow> account \<Rightarrow> account" where
  "setMinerGasPrice i price a = changed (a\<lparr>m_minerGasPrice := om_insert i price (m_minerGasPrice a)\<rparr>)"

definition setMinerGasPrices :: "(address, u256) omap \<Rightarrow> account \<Rightarrow> account" where
  "setMinerGasPrices prices a = changed (a\<lparr>m_minerGasPrice := prices\<rparr>)"

definition getAverageGasPrice :: "account \<Rightarrow> u256" where
  "getAverageGasPrice a =
     (if length (m_minerGasPrice a) = 0 then 0
      else fold (\<lambda>p acc. acc + snd p) (m_minerGasPrice a) 0 div of_nat (length (m_minerGasPrice a)))"

definition set_create_record :: "address \<times> time_ms \<Rightarrow> account \<Rightarrow> account" where
  "set_create_record v a = changed (a\<lparr>m_block_records := om_insert (fst v) (snd v) (m_block_records a)\<rparr>)"

definition last_records :: "address \<Rightarrow> account \<Rightarrow> time_ms" where
  "last_records i a = (case om_find (m_block_records a) i of None \<Rightarrow> 0 | Some t \<Rightarrow> t)"

definition setChangeMiner :: "address \<times> address \<Rightarrow> account \<Rightarrow> account" where
  "setChangeMiner p a = changed (a\<lparr>m_mappingAddress := p\<rparr>)"

subsection \<open>Snapshots\<close>

definition set_vote_snapshot :: "VoteSnapshot \<Rightarrow> account \<Rightarrow> account" where
  "set_vote_snapshot v a = changed (a\<lparr>m_vote_sapshot := v\<rparr>)"

definition setCouplingSystemFeeSnapshot :: "CouplingSystemfee \<Rightarrow> account \<Rightarrow> account" where
  "setCouplingSystemFeeSnapshot f a = changed (a\<lparr>m_couplingSystemFee := f\<rparr>)"

definition add_new_rounds_miner_sapshot :: "u256 \<Rightarrow> PollData list \<Rightarrow> account \<Rightarrow> account" where
  "add_new_rounds_miner_sapshot round ps a =
     changed (a\<lparr>m_couplingSystemFee := (m_couplingSystemFee a)\<lparr>cs_sorted_creaters :=
       om_insert round ps (cs_sorted_creaters (m_couplingSystemFee a))\<rparr>\<rparr>)"

definition set_received :: "ReceivedCookies \<Rightarrow> account \<Rightarrow> account" where
  "set_received r a = changed (a\<lparr>m_received_cookies := r\<rparr>)"

definition addSetreceivedCookie :: "u256 \<Rightarrow> address \<Rightarrow> u256 \<times> u256 \<Rightarrow> account \<Rightarrow> account" where
  "addSetreceivedCookie round addr p a =
     changed (a\<lparr>m_received_cookies := up_received_cookies round addr p (m_received_cookies a)\<rparr>)"

definition updateNumofround :: "u256 \<Rightarrow> account \<Rightarrow> account" where
  "updateNumofround rounds a =
     changed (a\<lparr>m_received_cookies := updataNumberofRound rounds (m_received_cookies a)\<rparr>)"

text \<open>One round of the loop of \<^verbatim>\<open>Account::try_new_snapshot\<close>, with the running summary.\<close>

definition snapshot_round ::
    "PollData list \<Rightarrow> u256 \<Rightarrow> u256 \<Rightarrow> VoteSnapshot \<times> u256 \<Rightarrow> VoteSnapshot \<times> u256" where
  "snapshot_round votes poll j st =
     (case st of (v, summary) \<Rightarrow>
        let v1 = (if \<not> om_count (vs_blockSummaryHistory v) j
                  then v\<lparr>vs_voteDataHistory :=
                    om_insert j (fold (\<lambda>p m. om_insert (pd_addr p) (pd_poll p) m) votes [])
                      (vs_voteDataHistory v)\<rparr>
                  else v);
            v2 = (if \<not> om_count (vs_pollNumHistory v1) j
                  then v1\<lparr>vs_pollNumHistory := om_insert j poll (vs_pollNumHistory v1)\<rparr>
                  else v1)
        in if \<not> om_count (vs_blockSummaryHistory v2) j
           then (v2\<lparr>vs_blockSummaryHistory := om_insert j summary (vs_blockSummaryHistory v2)\<rparr>, 0)
           else (v2, summary))"

text \<open>
  \<^verbatim>\<open>Account::try_new_snapshot\<close>. The loop variable is a \<open>u256\<close>, so the loop does not end when
  the bound is the largest value; that case is \<open>None\<close>.
\<close>

definition try_new_snapshot :: "u256 \<Rightarrow> account \<Rightarrow> account option" where
  "try_new_snapshot rounds a =
     (if rounds = -1 then None
      else
        (let v = m_vote_sapshot a;
             js = map of_nat [unat (vs_latest_round v + 1)..<Suc (unat rounds)];
             v' = fst (fold (snapshot_round (m_vote_data a) (m_poll a)) js (v, m_CooikeIncomeNum a))
         in Some (changed (a\<lparr>m_vote_sapshot := v'\<lparr>vs_latest_round := rounds\<rparr>\<rparr>))))"

text \<open>The snapshot is taken and put back: the account is only marked as changed.\<close>

definition try_new_temp_snapshot :: "u256 \<Rightarrow> account \<Rightarrow> (VoteSnapshot \<times> account) option" where
  "try_new_temp_snapshot rounds a =
     map_option (\<lambda>a'. (m_vote_sapshot a', a'\<lparr>m_vote_sapshot := m_vote_sapshot a\<rparr>)) (try_new_snapshot rounds a)"

definition get_no_record_snapshot :: "u256 \<Rightarrow> account \<Rightarrow> bool \<times> u256" where
  "get_no_record_snapshot rounds a =
     (if rounds = 0 then (False, 0)
      else (let last_round = rounds - 1 in
            if last_round \<le> 0 \<or> last_round \<le> vs_latest_round (m_vote_sapshot a)
            then (False, 0) else (True, last_round)))"

text \<open>
  The loop of \<^verbatim>\<open>Account::tryRecordSnapshot\<close>. The 32-bit counter starts at
  \<^verbatim>\<open>minner_rank_num() + 1\<close> and is decremented before each test, so it wraps below 0.
\<close>

fun record_creaters ::
    "bool \<Rightarrow> 32 word \<Rightarrow> PollData list \<Rightarrow> PollData list \<Rightarrow> PollData list" where
  "record_creaters early index [] snap = snap"
| "record_creaters early index (p # ps) snap =
     (if find (is_poll_of (pd_addr p)) snap \<noteq> None then record_creaters early index ps snap
      else if early then
        (let index' = index - 1 in
         if index' \<noteq> 0 then record_creaters early index' ps (snap @ [p])
         else record_creaters early index' ps snap)
      else record_creaters early index ps (snap @ [p]))"

definition tryRecordSnapshot ::
    "config \<Rightarrow> u256 \<Rightarrow> u256 \<Rightarrow> u256 \<Rightarrow> PollData list \<Rightarrow> int \<Rightarrow> account \<Rightarrow> account" where
  "tryRecordSnapshot cfg rounds brc bal p_datas block_num a =
     (let c = m_couplingSystemFee a in
      if rounds \<le> cs_rounds c then a
      else
        changed (a\<lparr>m_couplingSystemFee := c\<lparr>
          cs_Feesnapshot := om_insert (rounds - 1) (brc, bal) (cs_Feesnapshot c),
          cs_rounds := rounds - 1,
          cs_sorted_creaters := om_insert (rounds - 1)
            (record_creaters (fst (getVotingCycle cfg block_num) \<le> 2)
              (of_nat minner_rank_num + 1) p_datas []) (cs_sorted_creaters c)\<rparr>\<rparr>))"

text \<open>
  \<^verbatim>\<open>Account::changeMinerUpdateData\<close>. In the history of votes the erased iterator is read, so a
  round that holds the old address makes the call undefined; the block record starts again at 0.
\<close>

definition rename_creater :: "address \<Rightarrow> address \<Rightarrow> PollData list \<Rightarrow> PollData list" where
  "rename_creater before after = update_first (is_poll_of before) (\<lambda>p. p\<lparr>pd_addr := after\<rparr>)"

definition rename_received ::
    "address \<Rightarrow> address \<Rightarrow> (address, u256 \<times> u256) omap \<Rightarrow> (address, u256 \<times> u256) omap" where
  "rename_received before after m =
     (case om_find m before of None \<Rightarrow> m | Some p \<Rightarrow> om_insert after p (om_erase before m))"

definition changeMinerUpdateData :: "address \<Rightarrow> address \<Rightarrow> account \<Rightarrow> account option" where
  "changeMinerUpdateData before after a =
     (if list_ex (\<lambda>h. om_count (snd h) before) (vs_voteDataHistory (m_vote_sapshot a)) then None
      else
        (let fee = m_couplingSystemFee a; rec = m_received_cookies a;
             touched = (find (is_poll_of before) (m_vote_data a) \<noteq> None \<or>
               list_ex (\<lambda>h. om_count (snd h) before) (cs_received_cookies fee) \<or>
               list_ex (\<lambda>h. om_count (snd h) before) (rc_received_cookies rec) \<or>
               om_count (m_block_records a) before);
             a' = a\<lparr>m_vote_data := rename_creater before after (m_vote_data a),
                    m_couplingSystemFee := fee\<lparr>
                      cs_sorted_creaters := map (\<lambda>(k, ps). (k, rename_creater before after ps)) (cs_sorted_creaters fee),
                      cs_received_cookies := map (\<lambda>(k, m). (k, rename_received before after m)) (cs_received_cookies fee)\<rparr>,
                    m_received_cookies := rec\<lparr>rc_received_cookies :=
                      map (\<lambda>(k, m). (k, rename_received before after m)) (rc_received_cookies rec)\<rparr>,
                    m_block_records :=
                      (if om_count (m_block_records a) before
                       then om_insert after 0 (om_erase before (m_block_records a)) else m_block_records a)\<rparr>
         in Some (if touched then changed a' else a')))"

definition isChangeMinerUpdateData :: "address \<Rightarrow> account \<Rightarrow> bool" where
  "isChangeMinerUpdateData before a \<longleftrightarrow>
     find (is_poll_of before) (m_vote_data a) \<noteq> None \<or>
     list_ex (\<lambda>h. om_count (snd h) before) (vs_voteDataHistory (m_vote_sapshot a)) \<or>
     list_ex (\<lambda>h. find (is_poll_of before) (snd h) \<noteq> None) (cs_sorted_creaters (m_couplingSystemFee a)) \<or>
     list_ex (\<lambda>h. om_count (snd h) before) (cs_received_cookies (m_couplingSystemFee a)) \<or>
     list_ex (\<lambda>h. om_count (snd h) before) (rc_received_cookies (m_received_cookies a)) \<or>
     om_count (m_block_records a) before"

subsection \<open>Exchange orders\<close>

definition setExOrderMulti :: "ExOrderMulti \<Rightarrow> account \<Rightarrow> account" where
  "setExOrderMulti m a = changed (a\<lparr>m_exChangeOrder := m\<rparr>)"

definition addExOrderMulti :: "ex_order \<Rightarrow> account \<Rightarrow> account" where
  "addExOrderMulti od a =
     changed
       (case multi_find (eo_trxid od) (m_exChangeOrder a) of
          None \<Rightarrow> a\<lparr>m_exChangeOrder := multi_insert od (m_exChangeOrder a)\<rparr>
        | Some _ \<Rightarrow> a\<lparr>m_exChangeOrder := multi_insert od (multi_erase (eo_trxid od) (m_exChangeOrder a))\<rparr>)"

definition removeExOrderMulti :: "h256 \<Rightarrow> account \<Rightarrow> bool \<times> account" where
  "removeExOrderMulti t a =
     (case multi_find t (m_exChangeOrder a) of
        None \<Rightarrow> (False, a)
      | Some _ \<Rightarrow> (True, changed (a\<lparr>m_exChangeOrder := multi_erase t (m_exChangeOrder a)\<rparr>)))"

definition setSuccessOrder :: "ExResultOrder \<Rightarrow> account \<Rightarrow> account" where
  "setSuccessOrder m a = changed (a\<lparr>m_successExchange := m\<rparr>)"

text \<open>The results have a unique index by creation time: a second result of the same time is refused.\<close>

definition addSuccessExchangeOrder :: "result_order \<Rightarrow> account \<Rightarrow> account" where
  "addSuccessExchangeOrder r a =
     changed (a\<lparr>m_successExchange :=
       (case find (\<lambda>q. ro_create_time q = ro_create_time r) (m_successExchange a) of
          None \<Rightarrow> m_successExchange a @ [r] | Some _ \<Rightarrow> m_successExchange a)\<rparr>)"

section \<open>Lemmas\<close>

text \<open>What the exchange statement of \<^verbatim>\<open>sort_greater\<close> does: nothing.\<close>

lemma sort_greater_body_id: "sort_greater_body i j xs = xs"
  by (simp add: sort_greater_body_def Let_def)

lemma fold_constant_id: "(\<And>x s. f x s = s) \<Longrightarrow> fold f xs s = s"
  by (induction xs arbitrary: s) auto

lemma sort_greater_unchanged: "sort_greater xs = xs"
  by (simp add: sort_greater_def sort_greater_body_id fold_constant_id)

lemma fold_add_acc:
  fixes f :: "'a \<Rightarrow> 'b::comm_monoid_add"
  shows "fold (\<lambda>x n. n + f x) xs c = c + sum_list (map f xs)"
  by (induction xs arbitrary: c) (auto simp: add.assoc)

lemma voteAll_sum_list: "voteAll a = sum_list (map pd_poll (m_vote_data a))"
  by (simp add: voteAll_def fold_add_acc)

lemma sum_list_update_first:
  fixes g :: "'a \<Rightarrow> 'b::ab_group_add"
  assumes "find P xs = Some x"
  shows "sum_list (map g (update_first P f xs)) = sum_list (map g xs) - g x + g (f x)"
  using assms by (induction xs) (auto split: if_splits)

lemma sum_list_erase_first:
  fixes g :: "'a \<Rightarrow> 'b::ab_group_add"
  assumes "find P xs = Some x"
  shows "sum_list (map g (erase_first P xs)) = sum_list (map g xs) - g x"
  using assms by (induction xs) (auto split: if_splits simp: algebra_simps)

lemma addVote_voteAll:
  assumes "addVote vp a = Some a'"
  shows "voteAll a' = voteAll a + snd vp"
proof (cases "find (is_poll_of (fst vp)) (m_vote_data a)")
  case None
  with assms show ?thesis
    by (auto simp: addVote_def voteAll_sum_list changed_def split: if_splits)
next
  case (Some p)
  show ?thesis
  proof (cases "pd_poll p + snd vp > 0")
    case True
    with assms Some show ?thesis
      by (auto simp: addVote_def voteAll_sum_list changed_def sum_list_update_first [OF Some])
  next
    case False
    then have "pd_poll p + snd vp = 0" by (simp add: word_neq_0_conv [symmetric])
    then have "snd vp = - pd_poll p" by (metis add.commute eq_neg_iff_add_eq_0)
    with assms Some False show ?thesis
      by (auto simp: addVote_def voteAll_sum_list changed_def sum_list_erase_first [OF Some])
  qed
qed

end
