(* ===== verification/ChainState.thy ===== *)
theory ChainState
  imports Account
begin

text \<open>
  libbrcdchain/State.h and State.cpp, the journalled account state: the change log, the amounts
  of an account and the operations that move them, \<^verbatim>\<open>savepoint\<close> and \<^verbatim>\<open>rollback\<close>, and
  \<^verbatim>\<open>executeTransaction\<close>'s use of them.

  The state is the map from addresses to accounts that \<^verbatim>\<open>State::account\<close> shows, with the change
  log and the start nonce. An account pointer that the code writes through is an update of the
  map at that address.
\<close>

section \<open>Exceptions\<close>

datatype exn =
    NotEnoughCash | NotEnoughBallot | NotEnoughPoll | NotEnoughVoteLog
  | InvalidAddress | InvalidAddressAddr | InvalidSysAddress | InvalidDynamic | InvalidFunction
  | InvalidMinner | InvalidAccountStartNonceInState | ExdbChangeFailed | UnknownAccount
  | order_price_num_equal_zero_error | all_price_operation_error | find_order_trxid_error
  | pendingorderAllPriceFiled | CancelPendingOrderFiled | VerifyPendingOrderFiled
  | VerifyVoteField | BrcTranscationField | ChangeMinerFailed | receivingincomeFiled
  | RlpFailure | modifyminergaspriceFailed | DivideByZero | InvalidAutor | transferAutoExFailed
  | InvalidSignature | InvalidNonce | InvalidGasPrice | ExecutiveFailed | BadRLP | DefaultError
  | InternalVMError
  | AssertionFailed | ProcessExit | NonTermination | UndefinedBehaviour

text \<open>The last four are not C++ exceptions: no handler sees them.\<close>

definition is_cpp_exception :: "exn \<Rightarrow> bool" where
  "is_cpp_exception e \<longleftrightarrow> e \<notin> {AssertionFailed, ProcessExit, NonTermination, UndefinedBehaviour}"

text \<open>A division by zero is boost's own exception; a handler for \<^verbatim>\<open>dev::Exception\<close> does not see it.\<close>

definition is_dev_exception :: "exn \<Rightarrow> bool" where
  "is_dev_exception e \<longleftrightarrow> e \<notin> {AssertionFailed, ProcessExit, NonTermination, UndefinedBehaviour, DivideByZero}"

section \<open>The change log\<close>

datatype change =
    Ch_Balance address u256
  | Ch_Storage address u256 u256
  | Ch_StorageRoot address h256
  | Ch_Nonce address u256
  | Ch_Create address
  | Ch_Code address bytes
  | Ch_Touch address
  | Ch_Ballot address u256
  | Ch_Poll address u256
  | Ch_Vote address "address \<times> u256"
  | Ch_SysVoteData address "address \<times> bool"
  | Ch_BRC address u256
  | Ch_FBRC address u256
  | Ch_FBalance address u256
  | Ch_BlockReward address "u256 \<times> u256"
  | Ch_NewVoteSnapshot address VoteSnapshot
  | Ch_CooikeIncomeNum address u256
  | Ch_CoupingSystemFeeSnapshot address CouplingSystemfee
  | Ch_SystemAddressPoll address PollData
  | Ch_LastCreateRecord address "address \<times> time_ms"
  | Ch_MinnerSnapshot address "PollData list"
  | Ch_ReceiveCookies address ReceivedCookies
  | Ch_UpExOrder address ExOrderMulti
  | Ch_SuccessOrder address ExResultOrder
  | Ch_ChangeMiner address account
  | Ch_NewChangeMiner address "address \<times> address"
  | Ch_MinerGasPrice address "(address, u256) omap"

primrec change_addr :: "change \<Rightarrow> address" where
  "change_addr (Ch_Balance i v) = i"
| "change_addr (Ch_Storage i k v) = i"
| "change_addr (Ch_StorageRoot i v) = i"
| "change_addr (Ch_Nonce i v) = i"
| "change_addr (Ch_Create i) = i"
| "change_addr (Ch_Code i v) = i"
| "change_addr (Ch_Touch i) = i"
| "change_addr (Ch_Ballot i v) = i"
| "change_addr (Ch_Poll i v) = i"
| "change_addr (Ch_Vote i v) = i"
| "change_addr (Ch_SysVoteData i v) = i"
| "change_addr (Ch_BRC i v) = i"
| "change_addr (Ch_FBRC i v) = i"
| "change_addr (Ch_FBalance i v) = i"
| "change_addr (Ch_BlockReward i v) = i"
| "change_addr (Ch_NewVoteSnapshot i v) = i"
| "change_addr (Ch_CooikeIncomeNum i v) = i"
| "change_addr (Ch_CoupingSystemFeeSnapshot i v) = i"
| "change_addr (Ch_SystemAddressPoll i v) = i"
| "change_addr (Ch_LastCreateRecord i v) = i"
| "change_addr (Ch_MinnerSnapshot i v) = i"
| "change_addr (Ch_ReceiveCookies i v) = i"
| "change_addr (Ch_UpExOrder i v) = i"
| "change_addr (Ch_SuccessOrder i v) = i"
| "change_addr (Ch_ChangeMiner i v) = i"
| "change_addr (Ch_NewChangeMiner i v) = i"
| "change_addr (Ch_MinerGasPrice i v) = i"

section \<open>The state and its primitives\<close>

record chain_state =
  accts :: "address \<rightharpoonup> account"
  changeLog :: "change list"
  accountStartNonce :: u256

type_synonym 'a st = "(chain_state, exn, 'a) emonad"

definition get_account :: "address \<Rightarrow> account option st" where
  "get_account i = egets (\<lambda>s. accts s i)"

definition upd_account :: "address \<Rightarrow> (account \<Rightarrow> account) \<Rightarrow> unit st" where
  "upd_account i f = emodify (\<lambda>s. s\<lparr>accts := (accts s)(i := map_option f (accts s i))\<rparr>)"

text \<open>A write through an account pointer whose callee may be undefined.\<close>

definition upd_account_ub :: "address \<Rightarrow> (account \<Rightarrow> account option) \<Rightarrow> unit st" where
  "upd_account_ub i f =
     ebind (get_account i) (\<lambda>r. case r of
       None \<Rightarrow> ethrow UndefinedBehaviour
     | Some a \<Rightarrow> (case f a of
         None \<Rightarrow> ethrow UndefinedBehaviour
       | Some a' \<Rightarrow> upd_account i (\<lambda>_. a')))"

definition log_change :: "change \<Rightarrow> unit st" where
  "log_change c = emodify (\<lambda>s. s\<lparr>changeLog := changeLog s @ [c]\<rparr>)"

definition requireAccountStartNonce :: "u256 st" where
  "requireAccountStartNonce =
     ebind (egets accountStartNonce) (\<lambda>n.
       if n = -1 then ethrow InvalidAccountStartNonceInState else ereturn n)"

definition createAccount :: "address \<Rightarrow> account \<Rightarrow> unit st" where
  "createAccount i a =
     ebind (get_account i) (\<lambda>r. case r of
       Some _ \<Rightarrow> ethrow AssertionFailed
     | None \<Rightarrow> eseq [emodify (\<lambda>s. s\<lparr>accts := (accts s)(i \<mapsto> a)\<rparr>), log_change (Ch_Create i)])"

definition createContract :: "address \<Rightarrow> unit st" where
  "createContract i = ebind requireAccountStartNonce (\<lambda>n. createAccount i (account_nb n 0))"

definition touch_if_empty :: "address \<Rightarrow> account \<Rightarrow> unit st" where
  "touch_if_empty i a = ewhen (\<not> isDirty a \<and> isEmpty a) (log_change (Ch_Touch i))"

section \<open>Reading amounts\<close>

definition addressInUse :: "chain_state \<Rightarrow> address \<Rightarrow> bool" where
  "addressInUse s i = (case accts s i of None \<Rightarrow> False | Some _ \<Rightarrow> True)"

definition accountNonemptyAndExisting :: "chain_state \<Rightarrow> address \<Rightarrow> bool" where
  "accountNonemptyAndExisting s i = (case accts s i of None \<Rightarrow> False | Some a \<Rightarrow> \<not> isEmpty a)"

definition addressHasCode :: "chain_state \<Rightarrow> address \<Rightarrow> bool" where
  "addressHasCode s i = (case accts s i of None \<Rightarrow> False | Some a \<Rightarrow> m_codeHash a \<noteq> EmptySHA3)"

definition amount_of :: "(account \<Rightarrow> u256) \<Rightarrow> chain_state \<Rightarrow> address \<Rightarrow> u256" where
  "amount_of f s i = (case accts s i of None \<Rightarrow> 0 | Some a \<Rightarrow> f a)"

definition balance :: "chain_state \<Rightarrow> address \<Rightarrow> u256" where "balance = amount_of m_balance"
definition ballot :: "chain_state \<Rightarrow> address \<Rightarrow> u256" where "ballot = amount_of m_ballot"
definition BRC :: "chain_state \<Rightarrow> address \<Rightarrow> u256" where "BRC = amount_of m_BRC"
definition FBRC :: "chain_state \<Rightarrow> address \<Rightarrow> u256" where "FBRC = amount_of m_FBRC"
definition FBalance :: "chain_state \<Rightarrow> address \<Rightarrow> u256" where "FBalance = amount_of m_FBalance"
definition poll :: "chain_state \<Rightarrow> address \<Rightarrow> u256" where "poll = amount_of m_poll"

definition getNonce :: "chain_state \<Rightarrow> address \<Rightarrow> u256" where
  "getNonce s i = (case accts s i of None \<Rightarrow> accountStartNonce s | Some a \<Rightarrow> m_nonce a)"

section \<open>Changing amounts\<close>

definition incNonce :: "address \<Rightarrow> unit st" where
  "incNonce i =
     ebind (get_account i) (\<lambda>r. case r of
       Some a \<Rightarrow> eseq [upd_account i acc_incNonce, log_change (Ch_Nonce i (m_nonce a))]
     | None \<Rightarrow> ebind requireAccountStartNonce (\<lambda>n. createAccount i (account_nb (n + 1) 0)))"

definition setNonce :: "address \<Rightarrow> u256 \<Rightarrow> unit st" where
  "setNonce i newNonce =
     ebind (get_account i) (\<lambda>r. case r of
       Some a \<Rightarrow> eseq [upd_account i (acc_setNonce newNonce), log_change (Ch_Nonce i (m_nonce a))]
     | None \<Rightarrow> createAccount i (account_nb newNonce 0))"

definition addBalance :: "address \<Rightarrow> u256 \<Rightarrow> unit st" where
  "addBalance i amount =
     eseq [
       ebind (get_account i) (\<lambda>r. case r of
         Some a \<Rightarrow> eseq [touch_if_empty i a, upd_account i (acc_addBalance amount)]
       | None \<Rightarrow> ebind requireAccountStartNonce (\<lambda>n. createAccount i (account_nb n amount))),
       ewhen (amount \<noteq> 0) (log_change (Ch_Balance i amount))]"

definition addBallot :: "address \<Rightarrow> u256 \<Rightarrow> unit st" where
  "addBallot i amount =
     eseq [
       ebind (get_account i) (\<lambda>r. case r of
         Some a \<Rightarrow> eseq [touch_if_empty i a, upd_account i (acc_addBallot amount)]
       | None \<Rightarrow> ethrow InvalidAddress),
       ewhen (amount \<noteq> 0) (log_change (Ch_Ballot i amount))]"

definition subBalance :: "address \<Rightarrow> u256 \<Rightarrow> unit st" where
  "subBalance i v =
     (if v = 0 then ereturn ()
      else ebind (get_account i) (\<lambda>r. case r of
        None \<Rightarrow> ethrow NotEnoughCash
      | Some a \<Rightarrow> if m_balance a < v then ethrow NotEnoughCash else addBalance i (0 - v)))"

definition subBallot :: "address \<Rightarrow> u256 \<Rightarrow> unit st" where
  "subBallot i v =
     (if v = 0 then ereturn ()
      else ebind (get_account i) (\<lambda>r. case r of
        None \<Rightarrow> ethrow NotEnoughBallot
      | Some a \<Rightarrow> if m_ballot a < v then ethrow NotEnoughBallot else addBallot i (0 - v)))"

definition setBalance :: "address \<Rightarrow> u256 \<Rightarrow> unit st" where
  "setBalance i v = ebind (egets (\<lambda>s. balance s i)) (\<lambda>original. addBalance i (v - original))"

definition addBRC :: "address \<Rightarrow> u256 \<Rightarrow> unit st" where
  "addBRC i v =
     eseq [
       ebind (get_account i) (\<lambda>r. case r of
         Some a \<Rightarrow> eseq [touch_if_empty i a, upd_account i (acc_addBRC v)]
       | None \<Rightarrow> ebind requireAccountStartNonce (\<lambda>n. createAccount i (account_nbb n 0 v))),
       ewhen (v \<noteq> 0) (log_change (Ch_BRC i v))]"

text \<open>
  The three checks below print the account's amount before they throw; without an account that
  is a dereference of a null pointer.
\<close>

definition subBRC :: "address \<Rightarrow> u256 \<Rightarrow> unit st" where
  "subBRC i v =
     (if v = 0 then ereturn ()
      else ebind (get_account i) (\<lambda>r. case r of
        None \<Rightarrow> ethrow UndefinedBehaviour
      | Some a \<Rightarrow> if m_BRC a < v then ethrow NotEnoughCash else addBRC i (0 - v)))"

definition setBRC :: "address \<Rightarrow> u256 \<Rightarrow> unit st" where
  "setBRC i v = ebind (egets (\<lambda>s. BRC s i)) (\<lambda>original. addBRC i (v - original))"

definition transferBRC :: "address \<Rightarrow> address \<Rightarrow> u256 \<Rightarrow> unit st" where
  "transferBRC fromAddr toAddr v = eseq [subBRC fromAddr v, addBRC toAddr v]"

definition transferBalance :: "address \<Rightarrow> address \<Rightarrow> u256 \<Rightarrow> unit st" where
  "transferBalance fromAddr toAddr v = eseq [subBalance fromAddr v, addBalance toAddr v]"

text \<open>The frozen amounts: without an account only the log entry is written.\<close>

definition addFBRC :: "address \<Rightarrow> u256 \<Rightarrow> unit st" where
  "addFBRC i v =
     eseq [
       ebind (get_account i) (\<lambda>r. case r of
         Some a \<Rightarrow> eseq [touch_if_empty i a, upd_account i (acc_addFBRC v)]
       | None \<Rightarrow> ereturn ()),
       ewhen (v \<noteq> 0) (log_change (Ch_FBRC i v))]"

definition subFBRC :: "address \<Rightarrow> u256 \<Rightarrow> unit st" where
  "subFBRC i v =
     (if v = 0 then ereturn ()
      else ebind (get_account i) (\<lambda>r. case r of
        None \<Rightarrow> ethrow UndefinedBehaviour
      | Some a \<Rightarrow> if m_FBRC a < v then ethrow NotEnoughCash else addFBRC i (0 - v)))"

definition addFBalance :: "address \<Rightarrow> u256 \<Rightarrow> unit st" where
  "addFBalance i v =
     eseq [
       ebind (get_account i) (\<lambda>r. case r of
         Some a \<Rightarrow> eseq [touch_if_empty i a, upd_account i (acc_addFBalance v)]
       | None \<Rightarrow> ereturn ()),
       ewhen (v \<noteq> 0) (log_change (Ch_FBalance i v))]"

definition subFBalance :: "address \<Rightarrow> u256 \<Rightarrow> unit st" where
  "subFBalance i v =
     (if v = 0 then ereturn ()
      else ebind (get_account i) (\<lambda>r. case r of
        None \<Rightarrow> ethrow UndefinedBehaviour
      | Some a \<Rightarrow> if m_FBalance a < v then ethrow NotEnoughCash else addFBalance i (0 - v)))"

definition addPoll :: "address \<Rightarrow> u256 \<Rightarrow> unit st" where
  "addPoll i v =
     eseq [
       ebind (get_account i) (\<lambda>r. case r of
         Some a \<Rightarrow> upd_account i (acc_addPoll v)
       | None \<Rightarrow> ethrow InvalidAddressAddr),
       ewhen (v \<noteq> 0) (log_change (Ch_Poll i v))]"

definition subPoll :: "address \<Rightarrow> u256 \<Rightarrow> unit st" where
  "subPoll i v =
     (if v = 0 then ereturn ()
      else ebind (get_account i) (\<lambda>r. case r of
        None \<Rightarrow> ethrow NotEnoughPoll
      | Some a \<Rightarrow> if m_poll a < v then ethrow NotEnoughPoll else addPoll i (0 - v)))"

definition addCooikeIncomeNum :: "address \<Rightarrow> u256 \<Rightarrow> unit st" where
  "addCooikeIncomeNum i v =
     eseq [
       ebind (get_account i) (\<lambda>r. case r of
         Some a \<Rightarrow> upd_account i (acc_addCooikeIncome v)
       | None \<Rightarrow> ethrow InvalidAddressAddr),
       ewhen (v \<noteq> 0) (log_change (Ch_CooikeIncomeNum i v))]"

text \<open>The check of \<^verbatim>\<open>subCookieIncomeNum\<close> throws when the income is \<^emph>\<open>not\<close> zero.\<close>

definition subCookieIncomeNum :: "address \<Rightarrow> u256 \<Rightarrow> unit st" where
  "subCookieIncomeNum i v =
     (if v = 0 then ereturn ()
      else ebind (get_account i) (\<lambda>r. case r of
        None \<Rightarrow> ethrow NotEnoughCash
      | Some a \<Rightarrow> if m_CooikeIncomeNum a \<noteq> 0 then ethrow NotEnoughCash
                  else addCooikeIncomeNum i (0 - v)))"

definition setCookieIncomeNum :: "address \<Rightarrow> u256 \<Rightarrow> unit st" where
  "setCookieIncomeNum i v =
     ebind (egets (\<lambda>s. amount_of m_CooikeIncomeNum s i)) (\<lambda>original. addCooikeIncomeNum i (v - original))"

definition addBlockReward :: "address \<Rightarrow> u256 \<Rightarrow> u256 \<Rightarrow> unit st" where
  "addBlockReward i blockNum rewardNum =
     eseq [
       ebind (get_account i) (\<lambda>r. case r of
         Some a \<Rightarrow> upd_account i (addBlockRewardRecoding (blockNum, rewardNum))
       | None \<Rightarrow> eseq [ebind requireAccountStartNonce (\<lambda>n. createAccount i (account_nb n 0)),
                       upd_account i (addBlockRewardRecoding (blockNum, rewardNum))]),
       ewhen (rewardNum \<noteq> 0) (log_change (Ch_BlockReward i (blockNum, rewardNum)))]"

definition kill :: "address \<Rightarrow> unit st" where
  "kill i = upd_account i kill_account"

section \<open>Storage and code\<close>

text \<open>
  \<open>trie\<close> is the storage trie and \<open>sha3\<close> the hash, as in theory \<open>Account\<close>. \<^verbatim>\<open>State::storage\<close> may
  fill the account's cache of original values. \<^verbatim>\<open>setStorage\<close> writes through \<^verbatim>\<open>m_cache[...]\<close>,
  which makes a default account when there is none.
\<close>

definition storage :: "(h256 \<Rightarrow> u256 \<Rightarrow> u256) \<Rightarrow> address \<Rightarrow> u256 \<Rightarrow> u256 st" where
  "storage trie i key =
     ebind (get_account i) (\<lambda>r. case r of
       None \<Rightarrow> ereturn 0
     | Some a \<Rightarrow> (case acc_storageValue trie key a of
         (v, a') \<Rightarrow> ebind (upd_account i (\<lambda>_. a')) (\<lambda>_. ereturn v)))"

definition cache_entry :: "(address \<rightharpoonup> account) \<Rightarrow> address \<Rightarrow> account" where
  "cache_entry m i = (case m i of None \<Rightarrow> dead_account | Some a \<Rightarrow> a)"

definition setStorage :: "(h256 \<Rightarrow> u256 \<Rightarrow> u256) \<Rightarrow> address \<Rightarrow> u256 \<Rightarrow> u256 \<Rightarrow> unit st" where
  "setStorage trie contract key v =
     ebind (storage trie contract key) (\<lambda>old.
       eseq [log_change (Ch_Storage contract key old),
             emodify (\<lambda>s. s\<lparr>accts := (accts s)(contract \<mapsto>
               acc_setStorage key v (cache_entry (accts s) contract))\<rparr>)])"

definition clearStorage :: "address \<Rightarrow> unit st" where
  "clearStorage contract =
     ebind (emodify (\<lambda>s. s\<lparr>accts := (accts s)(contract \<mapsto> cache_entry (accts s) contract)\<rparr>)) (\<lambda>_.
     ebind (egets (\<lambda>s. m_storageRoot (cache_entry (accts s) contract))) (\<lambda>oldHash.
       if oldHash = EmptyTrie then ereturn ()
       else eseq [log_change (Ch_StorageRoot contract oldHash), upd_account contract acc_clearStorage]))"

section \<open>Savepoints and rollback\<close>

definition savepoint :: "chain_state \<Rightarrow> nat" where
  "savepoint s = length (changeLog s)"

text \<open>
  The \<^verbatim>\<open>switch\<close> of \<^verbatim>\<open>State::rollback\<close>, one equation per case; the entry \<^verbatim>\<open>LastCreateRecord\<close> has
  no case and falls to the default. \<^verbatim>\<open>Create\<close> erases the account and is handled by \<open>undo_change\<close>.
\<close>

primrec undo_account :: "(bytes \<Rightarrow> h256) \<Rightarrow> change \<Rightarrow> account \<Rightarrow> account option" where
  "undo_account sha3 (Ch_Storage i k v) a = Some (acc_setStorage k v a)"
| "undo_account sha3 (Ch_StorageRoot i v) a = Some (acc_setStorageRoot v a)"
| "undo_account sha3 (Ch_Balance i v) a = Some (acc_addBalance (0 - v) a)"
| "undo_account sha3 (Ch_BRC i v) a = Some (acc_addBRC (0 - v) a)"
| "undo_account sha3 (Ch_Nonce i v) a = Some (acc_setNonce v a)"
| "undo_account sha3 (Ch_Create i) a = Some a"
| "undo_account sha3 (Ch_Code i old) a = Some (acc_setCode sha3 old a)"
| "undo_account sha3 (Ch_Touch i) a = Some (untouch a)"
| "undo_account sha3 (Ch_Ballot i v) a = Some (acc_addBallot (0 - v) a)"
| "undo_account sha3 (Ch_Poll i v) a = Some (acc_addPoll (0 - v) a)"
| "undo_account sha3 (Ch_Vote i v) a = addVote v a"
| "undo_account sha3 (Ch_SysVoteData i v) a = Some (manageSysVote (fst v) (\<not> snd v) 0 0 a)"
| "undo_account sha3 (Ch_FBRC i v) a = Some (acc_addFBRC (0 - v) a)"
| "undo_account sha3 (Ch_FBalance i v) a = Some (acc_addFBalance (0 - v) a)"
| "undo_account sha3 (Ch_BlockReward i v) a = Some (addBlockRewardRecoding v a)"
| "undo_account sha3 (Ch_NewVoteSnapshot i v) a = Some (set_vote_snapshot v a)"
| "undo_account sha3 (Ch_CooikeIncomeNum i v) a = Some (acc_addCooikeIncome (0 - v) a)"
| "undo_account sha3 (Ch_SystemAddressPoll i v) a = set_system_poll v a"
| "undo_account sha3 (Ch_CoupingSystemFeeSnapshot i v) a = Some (setCouplingSystemFeeSnapshot v a)"
| "undo_account sha3 (Ch_LastCreateRecord i v) a = Some a"
| "undo_account sha3 (Ch_MinnerSnapshot i v) a = Some (set_vote_data v a)"
| "undo_account sha3 (Ch_ReceiveCookies i v) a = Some (set_received v a)"
| "undo_account sha3 (Ch_UpExOrder i v) a = Some (setExOrderMulti v a)"
| "undo_account sha3 (Ch_SuccessOrder i v) a = Some (setSuccessOrder v a)"
| "undo_account sha3 (Ch_ChangeMiner i v) a = Some (copyByAccount v (kill_account a))"
| "undo_account sha3 (Ch_NewChangeMiner i v) a = Some (setChangeMiner v a)"
| "undo_account sha3 (Ch_MinerGasPrice i v) a = Some (setMinerGasPrices v a)"

definition undo_change ::
    "(bytes \<Rightarrow> h256) \<Rightarrow> change \<Rightarrow> (address \<rightharpoonup> account) \<Rightarrow> (address \<rightharpoonup> account) option" where
  "undo_change sha3 c m =
     (case c of
        Ch_Create i \<Rightarrow> Some (m(i := None))
      | _ \<Rightarrow> map_option (\<lambda>a. m(change_addr c \<mapsto> a)) (undo_account sha3 c (cache_entry m (change_addr c))))"

text \<open>The loop, by the number of entries to pop.\<close>

primrec rollback_n :: "(bytes \<Rightarrow> h256) \<Rightarrow> nat \<Rightarrow> unit st" where
  "rollback_n sha3 0 = ereturn ()"
| "rollback_n sha3 (Suc n) = (\<lambda>s.
     if changeLog s = [] then (Inl UndefinedBehaviour, s)
     else (case undo_change sha3 (last (changeLog s)) (accts s) of
       None \<Rightarrow> (Inl UndefinedBehaviour, s)
     | Some m \<Rightarrow> rollback_n sha3 n (s\<lparr>accts := m, changeLog := butlast (changeLog s)\<rparr>)))"

definition rollback :: "(bytes \<Rightarrow> h256) \<Rightarrow> nat \<Rightarrow> unit st" where
  "rollback sha3 sp = (\<lambda>s.
     if length (changeLog s) < sp then (Inl UndefinedBehaviour, s)
     else rollback_n sha3 (length (changeLog s) - sp) s)"

text \<open>
  \<^verbatim>\<open>State::executeTransaction\<close>, with the three calls on the executive as the body: a thrown
  exception is rethrown after the rollback to the savepoint.
\<close>

definition executeTransaction :: "(bytes \<Rightarrow> h256) \<Rightarrow> 'a st \<Rightarrow> 'a st" where
  "executeTransaction sha3 body = (\<lambda>s.
     let savept = savepoint s in
     case body s of
       (Inr x, s') \<Rightarrow> (Inr x, s')
     | (Inl e, s') \<Rightarrow>
         (if is_dev_exception e then
            (case rollback sha3 savept s' of
               (Inl e', s'') \<Rightarrow> (Inl e', s'')
             | (Inr _, s'') \<Rightarrow> (Inl e, s''))
          else (Inl e, s')))"

end
