(* ===== verification/Journal.thy ===== *)
theory Journal
  imports ChainState
begin

text \<open>
  Rollback restores the state. Two accounts are told apart only by what the rest of the program
  can observe: the dirty flag and the read caches of the storage do not count, and an overlay
  entry that repeats the original value is the same as no entry (\<open>observe\<close>). A run of an operation
  is \<open>restorable\<close> when undoing the log entries it appended gives back an observably equal state.
  The relation is reflexive and transitive, so it instantiates the locale \<open>step_relation\<close> and
  holds of every operation composed of restorable ones.
\<close>

section \<open>Observable equality\<close>

definition observe :: "(h256 \<Rightarrow> u256 \<Rightarrow> u256) \<Rightarrow> account \<Rightarrow> account" where
  "observe trie a =
     a\<lparr>m_isUnchanged := True, m_storageOriginal := Map.empty,
       m_storageOverlay := (\<lambda>k. Some (fst (acc_storageValue trie k a)))\<rparr>"

definition same_accts ::
    "(h256 \<Rightarrow> u256 \<Rightarrow> u256) \<Rightarrow> (address \<rightharpoonup> account) \<Rightarrow> (address \<rightharpoonup> account) \<Rightarrow> bool" where
  "same_accts trie m m' \<longleftrightarrow> map_option (observe trie) \<circ> m = map_option (observe trie) \<circ> m'"

definition same_state :: "(h256 \<Rightarrow> u256 \<Rightarrow> u256) \<Rightarrow> chain_state \<Rightarrow> chain_state \<Rightarrow> bool" where
  "same_state trie s t \<longleftrightarrow>
     changeLog s = changeLog t \<and> accountStartNonce s = accountStartNonce t \<and>
     same_accts trie (accts s) (accts t)"

lemma same_accts_refl [simp]: "same_accts trie m m"
  by (simp add: same_accts_def)

lemma same_accts_trans: "same_accts trie m m' \<Longrightarrow> same_accts trie m' m'' \<Longrightarrow> same_accts trie m m''"
  by (simp add: same_accts_def)

lemma same_accts_sym: "same_accts trie m m' \<Longrightarrow> same_accts trie m' m"
  by (simp add: same_accts_def)

lemma same_acctsD: "same_accts trie m m' \<Longrightarrow> map_option (observe trie) (m i) = map_option (observe trie) (m' i)"
  by (metis comp_apply same_accts_def)

lemma same_accts_upd:
  "same_accts trie m m' \<Longrightarrow> map_option (observe trie) x = map_option (observe trie) y \<Longrightarrow>
   same_accts trie (m(i := x)) (m'(i := y))"
  by (auto simp: same_accts_def fun_eq_iff)

lemma same_state_refl [simp]: "same_state trie s s"
  by (simp add: same_state_def)

text \<open>What a reader of the storage sees, as a function of the three storage fields.\<close>

definition storage_view ::
    "(h256 \<Rightarrow> u256 \<Rightarrow> u256) \<Rightarrow> (u256 \<rightharpoonup> u256) \<Rightarrow> (u256 \<rightharpoonup> u256) \<Rightarrow> h256 \<Rightarrow> u256 \<Rightarrow> u256" where
  "storage_view trie overlay original root k =
     (case overlay k of Some v \<Rightarrow> v
      | None \<Rightarrow> (case original k of Some v \<Rightarrow> v | None \<Rightarrow> trie root k))"

lemma storageValue_view:
  "fst (acc_storageValue trie k a) =
     storage_view trie (m_storageOverlay a) (m_storageOriginal a) (m_storageRoot a) k"
  by (simp add: acc_storageValue_def acc_originalStorageValue_def storage_view_def Let_def
      split: option.splits)

lemma storage_view_upd [simp]:
  "storage_view trie (ov(p \<mapsto> v)) orig r k = (if k = p then v else storage_view trie ov orig r k)"
  by (simp add: storage_view_def)

lemma storage_view_full [simp]: "storage_view trie (\<lambda>k. Some (f k)) orig r k = f k"
  by (simp add: storage_view_def)

lemma storage_view_empty [simp]: "storage_view trie Map.empty Map.empty r k = trie r k"
  by (simp add: storage_view_def)

lemma observe_view:
  "observe trie a =
     a\<lparr>m_isUnchanged := True, m_storageOriginal := Map.empty,
       m_storageOverlay := (\<lambda>k. Some (storage_view trie (m_storageOverlay a) (m_storageOriginal a) (m_storageRoot a) k))\<rparr>"
  by (simp add: observe_def storageValue_view)

text \<open>A read of the storage only fills the cache.\<close>

lemma observe_storage_read: "observe trie (snd (acc_storageValue trie k a)) = observe trie a"
  by (auto simp: observe_view acc_storageValue_def acc_originalStorageValue_def storage_view_def
      Let_def fun_eq_iff split: option.splits)

section \<open>Undoing respects observable equality\<close>

text \<open>
  An undo step reads and writes fields of the observation only, so on an observably equal account
  it has an observably equal result. The collection holds the definitions that unfold here.
\<close>

lemmas account_op_defs =
  acc_addBalance_def acc_addBRC_def acc_addFBRC_def acc_addFBalance_def acc_addBallot_def
  acc_addPoll_def acc_addCooikeIncome_def acc_setNonce_def acc_incNonce_def untouch_def changed_def
  set_vote_data_def set_vote_snapshot_def setCouplingSystemFeeSnapshot_def set_received_def
  setExOrderMulti_def setSuccessOrder_def setChangeMiner_def setMinerGasPrices_def

definition clean :: "account \<Rightarrow> account" where
  "clean a = a\<lparr>m_isUnchanged := True\<rparr>"

lemma observe_manageSysVote:
  "observe trie (manageSysVote x l t m a) = clean (manageSysVote x l t m (observe trie a))"
  by (simp add: manageSysVote_def observe_view clean_def changed_def split: option.splits)

lemma observe_addVote:
  "map_option (observe trie) (addVote v a) = map_option clean (addVote v (observe trie a))"
  by (simp add: addVote_def observe_view clean_def changed_def split: option.splits)

lemma observe_set_system_poll:
  "map_option (observe trie) (set_system_poll p a) = map_option clean (set_system_poll p (observe trie a))"
  by (simp add: set_system_poll_def observe_view clean_def changed_def split: option.splits)

lemma observe_addBlockReward:
  "observe trie (addBlockRewardRecoding p a) = clean (addBlockRewardRecoding p (observe trie a))"
  by (simp add: addBlockRewardRecoding_def observe_view clean_def changed_def Let_def)

lemma observe_copyByAccount:
  "observe trie (copyByAccount v (kill_account a)) = observe trie (copyByAccount v (kill_account (observe trie a)))"
  by (simp add: copyByAccount_def kill_account_def observe_view changed_def)

lemma observe_setStorageRoot:
  "observe trie (acc_setStorageRoot r a) = observe trie (acc_setStorageRoot r (observe trie a))"
  by (simp add: acc_setStorageRoot_def observe_view changed_def)

lemma observe_setStorage:
  "observe trie (acc_setStorage k v a) = clean (acc_setStorage k v (observe trie a))"
  by (auto simp: acc_setStorage_def observe_view changed_def clean_def fun_eq_iff)

lemma observe_setCode:
  "observe trie (acc_setCode h c a) = clean (acc_setCode h c (observe trie a))"
  by (simp add: acc_setCode_def observe_view clean_def)

lemma undo_account_observe:
  assumes "observe trie a = observe trie b"
  shows "map_option (observe trie) (undo_account sha3 c a) = map_option (observe trie) (undo_account sha3 c b)"
proof -
  have simple: "observe trie (f a) = observe trie (f b)"
    if "\<And>x. observe trie (f x) = clean (f (observe trie x))" for f
    using assms that by metis
  show ?thesis
  proof (cases c)
    case (Ch_StorageRoot i v)
    then show ?thesis
      using assms observe_setStorageRoot by (metis option.simps(9) undo_account.simps(2))
  next
    case (Ch_ChangeMiner i v)
    then show ?thesis
      using assms observe_copyByAccount by (metis option.simps(9) undo_account.simps(25))
  next
    case (Ch_Vote i v)
    then show ?thesis using assms by (simp add: observe_addVote)
  next
    case (Ch_SystemAddressPoll i v)
    then show ?thesis using assms by (simp add: observe_set_system_poll)
  next
    case (Ch_Create i)
    then show ?thesis using assms by simp
  next
    case (Ch_LastCreateRecord i v)
    then show ?thesis using assms by simp
  next
    case (Ch_Storage i k v)
    then show ?thesis using assms by (simp add: observe_setStorage)
  next
    case (Ch_Code i v)
    then show ?thesis using assms by (simp add: observe_setCode)
  next
    case (Ch_SysVoteData i v)
    then show ?thesis using assms by (simp add: observe_manageSysVote)
  next
    case (Ch_BlockReward i v)
    then show ?thesis using assms by (simp add: observe_addBlockReward)
  qed (simp, rule simple, simp add: account_op_defs observe_view clean_def)+
qed

lemma undo_change_same:
  assumes "same_accts trie m m'" and "undo_change sha3 c m = Some n"
  shows "\<exists>n'. undo_change sha3 c m' = Some n' \<and> same_accts trie n n'"
proof (cases "\<exists>i. c = Ch_Create i")
  case True
  with assms show ?thesis by (auto simp: undo_change_def intro: same_accts_upd)
next
  case False
  let ?i = "change_addr c"
  have "observe trie (cache_entry m ?i) = observe trie (cache_entry m' ?i)"
    using same_acctsD [OF assms(1), of ?i]
    by (auto simp: cache_entry_def map_option_case split: option.splits)
  then have undone: "map_option (observe trie) (undo_account sha3 c (cache_entry m ?i)) =
      map_option (observe trie) (undo_account sha3 c (cache_entry m' ?i))"
    by (rule undo_account_observe)
  from False have step: "undo_change sha3 c k =
      map_option (\<lambda>a. k(?i \<mapsto> a)) (undo_account sha3 c (cache_entry k ?i))" for k
    by (cases c) (auto simp: undo_change_def)
  from assms(2) step obtain a where a: "undo_account sha3 c (cache_entry m ?i) = Some a" "n = m(?i \<mapsto> a)"
    by auto
  with undone obtain b where b: "undo_account sha3 c (cache_entry m' ?i) = Some b"
      and "observe trie a = observe trie b"
    by (auto simp: map_option_case split: option.splits)
  with a assms(1) have "same_accts trie n (m'(?i \<mapsto> b))"
    by (auto intro: same_accts_upd)
  with b step show ?thesis by auto
qed

lemma rollback_n_same:
  assumes "same_state trie s t" and "rollback_n sha3 n s = (Inr (), s')"
  shows "\<exists>t'. rollback_n sha3 n t = (Inr (), t') \<and> same_state trie s' t'"
  using assms
proof (induction n arbitrary: s t)
  case (Suc n)
  from Suc.prems(2) obtain m where log: "changeLog s \<noteq> []"
      and undo: "undo_change sha3 (last (changeLog s)) (accts s) = Some m"
      and rest: "rollback_n sha3 n (s\<lparr>accts := m, changeLog := butlast (changeLog s)\<rparr>) = (Inr (), s')"
    by (auto split: if_splits option.splits)
  from Suc.prems(1) undo obtain m' where undo': "undo_change sha3 (last (changeLog t)) (accts t) = Some m'"
      and same: "same_accts trie m m'"
    by (auto simp: same_state_def dest: undo_change_same)
  have "same_state trie (s\<lparr>accts := m, changeLog := butlast (changeLog s)\<rparr>)
      (t\<lparr>accts := m', changeLog := butlast (changeLog t)\<rparr>)"
    using same Suc.prems(1) by (simp add: same_state_def)
  from Suc.IH [OF this rest] log Suc.prems(1) undo' show ?case
    by (auto simp: same_state_def)
qed simp

lemma rollback_n_add:
  assumes "rollback_n sha3 n s = (Inr (), t)" and "rollback_n sha3 k t = (Inr (), u)"
  shows "rollback_n sha3 (n + k) s = (Inr (), u)"
  using assms by (induction n arbitrary: s) (auto split: if_splits option.splits)

section \<open>Restorable runs\<close>

definition restorable ::
    "(bytes \<Rightarrow> h256) \<Rightarrow> (h256 \<Rightarrow> u256 \<Rightarrow> u256) \<Rightarrow> chain_state \<Rightarrow> chain_state \<Rightarrow> bool" where
  "restorable sha3 trie s s' \<longleftrightarrow>
     length (changeLog s) \<le> length (changeLog s') \<and>
     (\<exists>s''. rollback_n sha3 (length (changeLog s') - length (changeLog s)) s' = (Inr (), s'') \<and>
            same_state trie s'' s)"

lemma same_state_trans: "same_state trie s t \<Longrightarrow> same_state trie t u \<Longrightarrow> same_state trie s u"
  by (auto simp: same_state_def intro: same_accts_trans)

lemma same_state_sym: "same_state trie s t \<Longrightarrow> same_state trie t s"
  by (auto simp: same_state_def intro: same_accts_sym)

lemma restorable_refl: "restorable sha3 trie s s"
  by (simp add: restorable_def)

lemma restorable_trans:
  assumes "restorable sha3 trie s t" and "restorable sha3 trie t u"
  shows "restorable sha3 trie s u"
proof -
  let ?n = "length (changeLog t) - length (changeLog s)" and ?k = "length (changeLog u) - length (changeLog t)"
  from assms obtain s'' u'' where le: "length (changeLog s) \<le> length (changeLog t)" "length (changeLog t) \<le> length (changeLog u)"
      and popped: "rollback_n sha3 ?n t = (Inr (), s'')" "rollback_n sha3 ?k u = (Inr (), u'')"
      and same: "same_state trie s'' s" "same_state trie u'' t"
    by (auto simp: restorable_def)
  from rollback_n_same [OF same_state_sym [OF same(2)] popped(1)] obtain v
    where v: "rollback_n sha3 ?n u'' = (Inr (), v)" "same_state trie s'' v" by blast
  have "rollback_n sha3 (?k + ?n) u = (Inr (), v)"
    using popped(2) v(1) by (rule rollback_n_add)
  moreover have "same_state trie v s"
    using v(2) same(1) same_state_sym same_state_trans by blast
  ultimately show ?thesis using le by (auto simp: restorable_def)
qed

interpretation journal: step_relation "restorable sha3 trie" for sha3 trie
  by unfold_locales (auto intro: restorable_refl restorable_trans)

text \<open>A restorable run can be rolled back to the savepoint taken before it.\<close>

lemma restorable_rollback:
  assumes "restorable sha3 trie s s'"
  shows "\<exists>s''. rollback sha3 (savepoint s) s' = (Inr (), s'') \<and> same_state trie s'' s"
  using assms by (auto simp: restorable_def rollback_def savepoint_def)

section \<open>Entries of one account\<close>

text \<open>Undoing a run of entries of one address, the last entry first.\<close>

definition undo_all :: "(bytes \<Rightarrow> h256) \<Rightarrow> change list \<Rightarrow> account \<Rightarrow> account option" where
  "undo_all sha3 cs a = foldr (\<lambda>c r. Option.bind r (undo_account sha3 c)) cs (Some a)"

lemma undo_all_Nil [simp]: "undo_all sha3 [] a = Some a"
  by (simp add: undo_all_def)

lemma undo_all_snoc [simp]:
  "undo_all sha3 (cs @ [c]) a = Option.bind (undo_account sha3 c a) (undo_all sha3 cs)"
  by (cases "undo_account sha3 c a") (simp_all add: undo_all_def, induction cs, auto)

lemma undo_all_single [simp]: "undo_all sha3 [c] a = undo_account sha3 c a"
  by (simp add: undo_all_def)

definition entry_of :: "address \<Rightarrow> change \<Rightarrow> bool" where
  "entry_of i c \<longleftrightarrow> change_addr c = i \<and> (\<forall>j. c \<noteq> Ch_Create j)"

lemma undo_change_entry:
  assumes "entry_of i c" and "undo_account sha3 c b = Some b'"
  shows "undo_change sha3 c (m(i \<mapsto> b)) = Some (m(i \<mapsto> b'))"
  using assms by (cases c) (auto simp: undo_change_def entry_of_def cache_entry_def)

lemma rollback_n_snoc:
  assumes "undo_change sha3 c m = Some m'"
  shows "rollback_n sha3 (Suc n) (s\<lparr>accts := m, changeLog := l @ [c]\<rparr>) =
    rollback_n sha3 n (s\<lparr>accts := m', changeLog := l\<rparr>)"
  using assms by simp

lemma rollback_n_entries:
  assumes "\<forall>c \<in> set cs. entry_of i c" and "undo_all sha3 cs b = Some b'"
  shows "rollback_n sha3 (length cs) (s\<lparr>accts := m(i \<mapsto> b), changeLog := l @ cs\<rparr>) =
    (Inr (), s\<lparr>accts := m(i \<mapsto> b'), changeLog := l\<rparr>)"
  using assms
proof (induction cs arbitrary: b rule: rev_induct)
  case (snoc c cs)
  from snoc.prems(2) obtain d where d: "undo_account sha3 c b = Some d" "undo_all sha3 cs d = Some b'"
    by (auto simp: bind_eq_Some_conv)
  have "undo_change sha3 c (m(i \<mapsto> b)) = Some (m(i \<mapsto> d))"
    using snoc.prems(1) d(1) by (intro undo_change_entry) auto
  then have "rollback_n sha3 (Suc (length cs)) (s\<lparr>accts := m(i \<mapsto> b), changeLog := (l @ cs) @ [c]\<rparr>) =
      rollback_n sha3 (length cs) (s\<lparr>accts := m(i \<mapsto> d), changeLog := l @ cs\<rparr>)"
    by (rule rollback_n_snoc)
  also have "\<dots> = (Inr (), s\<lparr>accts := m(i \<mapsto> b'), changeLog := l\<rparr>)"
    using snoc.prems(1) d(2) by (intro snoc.IH) auto
  finally show ?case by (simp only: append_assoc length_append_singleton)
qed simp

text \<open>The two shapes of a journalled write: on an account that exists, and on one it creates.\<close>

lemma restorable_existing:
  assumes "accts s i = Some a" and "\<forall>c \<in> set cs. entry_of i c"
    and "undo_all sha3 cs b = Some b'" and "observe trie b' = observe trie a"
  shows "restorable sha3 trie s (s\<lparr>accts := (accts s)(i \<mapsto> b), changeLog := changeLog s @ cs\<rparr>)"
proof -
  have "same_accts trie ((accts s)(i \<mapsto> b')) (accts s)"
    using assms(1,4) by (auto simp: same_accts_def fun_eq_iff)
  then have "same_state trie (s\<lparr>accts := (accts s)(i \<mapsto> b'), changeLog := changeLog s\<rparr>) s"
    by (simp add: same_state_def)
  with rollback_n_entries [OF assms(2,3), where s = s and m = "accts s" and l = "changeLog s"] show ?thesis
    by (auto simp: restorable_def)
qed

lemma restorable_created:
  assumes "accts s i = None" and "\<forall>c \<in> set cs. entry_of i c" and "undo_all sha3 cs b = Some b'"
  shows "restorable sha3 trie s
    (s\<lparr>accts := (accts s)(i \<mapsto> b), changeLog := changeLog s @ Ch_Create i # cs\<rparr>)"
proof -
  let ?t = "s\<lparr>accts := (accts s)(i \<mapsto> b), changeLog := (changeLog s @ [Ch_Create i]) @ cs\<rparr>"
  let ?m = "s\<lparr>accts := (accts s)(i \<mapsto> b'), changeLog := changeLog s @ [Ch_Create i]\<rparr>"
  have "(accts s)(i := None) = accts s"
    using assms(1) by (auto simp: fun_eq_iff)
  then have "rollback_n sha3 1 ?m = (Inr (), s)"
    by (simp add: undo_change_def One_nat_def)
  with rollback_n_entries [OF assms(2,3), where s = s and m = "accts s" and l = "changeLog s @ [Ch_Create i]"]
  have "rollback_n sha3 (length cs + 1) ?t = (Inr (), s)"
    by (rule rollback_n_add)
  then show ?thesis by (auto simp: restorable_def intro: exI [of _ s])
qed

lemma restorable_no_entry:
  assumes "accts s i = Some a" and "observe trie b = observe trie a"
  shows "restorable sha3 trie s (s\<lparr>accts := (accts s)(i \<mapsto> b)\<rparr>)"
  using restorable_existing [of s i a "[]" sha3 b b trie] assms by simp

end
