(* ===== verification/Amounts.thy ===== *)
theory Amounts
  imports Journal
begin

text \<open>
  The seven amounts of an account (cookies, BRC, their frozen parts, ballots, polls, cookie
  income) have one contract: adding changes that amount of that account only, by the given value,
  and appends entries whose undo gives the account back. The contract is the locale
  \<open>journalled_amount\<close>; its two extensions are the two ways an operation treats a missing account.
  The interpretations discharge it for the operations of State.cpp.
\<close>

section \<open>The contract\<close>

definition grand_total :: "(account \<Rightarrow> u256) \<Rightarrow> chain_state \<Rightarrow> u256" where
  "grand_total f s = (\<Sum>i\<in>UNIV. amount_of f s i)"

lemma amount_of_fun: "amount_of f s = (\<lambda>i. case accts s i of None \<Rightarrow> 0 | Some a \<Rightarrow> f a)"
  by (simp add: amount_of_def fun_eq_iff)

lemma amount_of_upd:
  "amount_of f (s\<lparr>accts := (accts s)(i \<mapsto> b), changeLog := l\<rparr>) = (amount_of f s)(i := f b)"
  by (simp add: amount_of_def fun_eq_iff)

lemma total_upd:
  "grand_total f (s\<lparr>accts := (accts s)(i \<mapsto> b), changeLog := l\<rparr>) = grand_total f s - amount_of f s i + f b"
  unfolding grand_total_def amount_of_upd by (rule sum_fun_upd)

lemma total_accts: "accts s' = (accts s)(i \<mapsto> b) \<Longrightarrow> grand_total f s' = grand_total f s - amount_of f s i + f b"
proof -
  assume "accts s' = (accts s)(i \<mapsto> b)"
  then have "amount_of f s' = (amount_of f s)(i := f b)"
    by (auto simp: amount_of_def fun_eq_iff)
  then show ?thesis by (simp only: grand_total_def sum_fun_upd)
qed

text \<open>\<open>adds f d m\<close>: every run of \<open>m\<close> that returns changes the total of \<open>f\<close> by \<open>d\<close>.\<close>

definition adds :: "(account \<Rightarrow> u256) \<Rightarrow> u256 \<Rightarrow> 'a st \<Rightarrow> bool" where
  "adds f d m \<longleftrightarrow> (\<forall>s x s'. m s = (Inr x, s') \<longrightarrow> grand_total f s' = grand_total f s + d)"

lemma addsI: "(\<And>s x s'. m s = (Inr x, s') \<Longrightarrow> grand_total f s' = grand_total f s + d) \<Longrightarrow> adds f d m"
  by (simp add: adds_def)

lemma addsD: "adds f d m \<Longrightarrow> m s = (Inr x, s') \<Longrightarrow> grand_total f s' = grand_total f s + d"
  by (simp add: adds_def)

lemma adds_ereturn: "adds f 0 (ereturn x)"
  by (auto simp: adds_def)

lemma adds_Pair: "adds f 0 (Pair (Inr x))"
  by (auto simp: adds_def)

lemma adds_ethrow: "adds f d (ethrow e)"
  by (auto simp: adds_def)

lemma adds_egets: "adds f 0 (egets g)"
  by (auto simp: adds_def)

lemma adds_ebind: "adds f d m \<Longrightarrow> (\<And>x. adds f e (k x)) \<Longrightarrow> adds f (d + e) (ebind m k)"
  by (auto simp: adds_def add.assoc elim!: ebind_InrE)

lemma adds_ebind_0: "adds f 0 m \<Longrightarrow> (\<And>x. adds f d (k x)) \<Longrightarrow> adds f d (ebind m k)"
  using adds_ebind [of f 0 m d k] by simp

lemma adds_ewhen: "(b \<Longrightarrow> adds f 0 m) \<Longrightarrow> adds f 0 (ewhen b m)"
  by (auto simp: adds_def)

lemma adds_eseq_Nil: "adds f 0 (eseq [])"
  by (simp add: adds_ereturn)

lemma adds_eseq_Cons: "adds f d m \<Longrightarrow> adds f e (eseq ms) \<Longrightarrow> adds f (d + e) (eseq (m # ms))"
  by (simp add: adds_ebind)

lemma adds_efor: "(\<And>x. x \<in> set xs \<Longrightarrow> adds f 0 (g x)) \<Longrightarrow> adds f 0 (efor xs g)"
  by (induction xs) (auto intro: adds_ereturn adds_ebind_0)

lemma adds_efold: "(\<And>x acc. x \<in> set xs \<Longrightarrow> adds f 0 (g x acc)) \<Longrightarrow> adds f 0 (efold g xs acc)"
  by (induction xs arbitrary: acc) (auto intro: adds_ereturn adds_ebind_0)

lemma adds_ecatch: "adds f d m \<Longrightarrow> adds f d (ecatch m h)"
  by (auto simp: adds_def ecatch_def split: prod.splits sum.splits)

lemma adds_case_option:
  "(x = None \<Longrightarrow> adds f d m) \<Longrightarrow> (\<And>y. x = Some y \<Longrightarrow> adds f d (g y)) \<Longrightarrow>
   adds f d (case x of None \<Rightarrow> m | Some y \<Rightarrow> g y)"
  by (cases x) auto

lemma adds_case_prod: "(\<And>a b. x = (a, b) \<Longrightarrow> adds f d (g a b)) \<Longrightarrow> adds f d (case x of (a, b) \<Rightarrow> g a b)"
  by (cases x) auto

lemma adds_case_sum:
  "(\<And>y. x = Inl y \<Longrightarrow> adds f d (g y)) \<Longrightarrow> (\<And>y. x = Inr y \<Longrightarrow> adds f d (h y)) \<Longrightarrow>
   adds f d (case x of Inl y \<Rightarrow> g y | Inr y \<Rightarrow> h y)"
  by (cases x) auto

lemma adds_if: "(b \<Longrightarrow> adds f d m) \<Longrightarrow> (\<not> b \<Longrightarrow> adds f d n) \<Longrightarrow> adds f d (if b then m else n)"
  by simp

lemma adds_get_account: "adds f 0 (get_account i)"
  by (simp add: get_account_def adds_egets)

lemmas adds_rules = adds_ereturn adds_Pair adds_ethrow adds_egets adds_get_account adds_ebind_0 adds_ewhen
  adds_efor adds_efold adds_ecatch adds_case_option adds_case_prod adds_case_sum adds_if

locale journalled_amount =
  fixes field :: "account \<Rightarrow> u256"
    and upd :: "u256 \<Rightarrow> account \<Rightarrow> account"
    and entry :: "address \<Rightarrow> u256 \<Rightarrow> change"
    and add :: "address \<Rightarrow> u256 \<Rightarrow> unit st"
  assumes field_upd: "field (upd v a) = field a + v"
    and entry_addr: "entry_of i (entry i v)"
    and undo_entry: "undo_account sha3 (entry i v) a = Some (upd (0 - v) a)"
    and upd_inverse: "observe trie (upd (0 - v) (upd v a)) = observe trie a"
    and upd_zero: "observe trie (upd 0 a) = observe trie a"
    and observe_untouch: "observe trie (untouch a) = observe trie a"
    and add_run: "accts s i = Some a \<Longrightarrow>
      \<exists>pre \<in> {[], [Ch_Touch i]}. add i v s =
        (Inr (), s\<lparr>accts := (accts s)(i \<mapsto> upd v a),
                  changeLog := changeLog s @ pre @ (if v = 0 then [] else [entry i v])\<rparr>)"
begin

lemma add_returns: "accts s i = Some a \<Longrightarrow> fst (add i v s) = Inr ()"
  using add_run [of s i a v] by auto

lemma add_accts: "accts s i = Some a \<Longrightarrow> accts (snd (add i v s)) = (accts s)(i \<mapsto> upd v a)"
  using add_run [of s i a v] by auto

lemma add_amount:
  assumes "accts s i = Some a"
  shows "amount_of field (snd (add i v s)) = (amount_of field s)(i := amount_of field s i + v)"
proof -
  from assms have "accts (snd (add i v s)) = (accts s)(i \<mapsto> upd v a)" by (rule add_accts)
  with assms show ?thesis by (simp add: amount_of_def fun_eq_iff field_upd)
qed

lemma add_total:
  assumes "accts s i = Some a"
  shows "grand_total field (snd (add i v s)) = grand_total field s + v"
proof -
  have "grand_total field (snd (add i v s)) = grand_total field s - amount_of field s i + (amount_of field s i + v)"
    using assms by (simp only: grand_total_def add_amount sum_fun_upd)
  then show ?thesis by simp
qed

lemma add_total_of:
  assumes "accts s i = Some a" and "f (upd v a) = f a + d"
  shows "grand_total f (snd (add i v s)) = grand_total f s + d"
  using total_accts [OF add_accts [OF assms(1)], of f v] assms by (simp add: amount_of_def)

lemma add_restorable:
  assumes "accts s i = Some a"
  shows "restorable sha3 trie s (snd (add i v s))"
proof -
  from assms obtain pre where pre: "pre \<in> {[], [Ch_Touch i]}" and run: "add i v s =
      (Inr (), s\<lparr>accts := (accts s)(i \<mapsto> upd v a),
                changeLog := changeLog s @ pre @ (if v = 0 then [] else [entry i v])\<rparr>)"
    using add_run by blast
  have touch: "undo_all sha3 pre b = Some (if pre = [] then b else untouch b)" for b
    using pre by auto
  let ?cs = "pre @ (if v = 0 then [] else [entry i v])"
  let ?b = "if v = 0 then upd v a else upd (0 - v) (upd v a)"
  have "undo_all sha3 ?cs (upd v a) = Some (if pre = [] then ?b else untouch ?b)"
    by (simp add: touch undo_entry)
  moreover have "observe trie (if pre = [] then ?b else untouch ?b) = observe trie a"
    using upd_inverse [of trie v a] upd_zero by (simp add: observe_untouch)
  moreover have "\<forall>c \<in> set ?cs. entry_of i c"
    using pre entry_addr by (auto simp: entry_of_def)
  ultimately have "restorable sha3 trie s
      (s\<lparr>accts := (accts s)(i \<mapsto> upd v a), changeLog := changeLog s @ ?cs\<rparr>)"
    using assms by (intro restorable_existing)
  with run show ?thesis by simp
qed

end

text \<open>Ballots, polls and cookie income: the operation refuses a missing account.\<close>

locale refusing_amount = journalled_amount +
  assumes add_missing: "accts s i = None \<Longrightarrow> \<exists>e. add i v s = (Inl e, s)"
begin

lemma keeps_add: "keeps (restorable sha3 trie) (add i v)"
proof (rule keepsI)
  fix s show "restorable sha3 trie s (snd (add i v s))"
    using add_missing [of s i v] add_restorable by (cases "accts s i") (auto simp: restorable_refl)
qed

lemma adds_add:
  assumes "\<And>a. f (upd v a) = f a + d"
  shows "adds f d (add i v)"
proof (rule addsI)
  fix s x s' assume run: "add i v s = (Inr x, s')"
  then obtain a where "accts s i = Some a"
    using add_missing [of s i v] by (cases "accts s i") auto
  with add_total_of [of s i a f v d] assms run show "grand_total f s' = grand_total f s + d" by simp
qed

end

text \<open>Cookies and BRC: the operation creates a missing account with the amount, or fails.\<close>

locale creating_amount = journalled_amount +
  fixes fresh :: "u256 \<Rightarrow> u256 \<Rightarrow> account"
  assumes field_fresh: "field (fresh n v) = v"
    and add_missing: "accts s i = None \<Longrightarrow>
      add i v s =
        (if accountStartNonce s = -1 then (Inl InvalidAccountStartNonceInState, s)
         else (Inr (), s\<lparr>accts := (accts s)(i \<mapsto> fresh (accountStartNonce s) v),
                changeLog := changeLog s @ Ch_Create i # (if v = 0 then [] else [entry i v])\<rparr>))"
begin

lemma keeps_add: "keeps (restorable sha3 trie) (add i v)"
proof (rule keepsI)
  fix s show "restorable sha3 trie s (snd (add i v s))"
  proof (cases "accts s i")
    case None
    have "\<exists>b'. undo_all sha3 (if v = 0 then [] else [entry i v]) (fresh (accountStartNonce s) v) = Some b'"
      by (simp add: undo_entry)
    then obtain b' where "undo_all sha3 (if v = 0 then [] else [entry i v]) (fresh (accountStartNonce s) v) = Some b'"
      by blast
    from restorable_created [OF None _ this] show ?thesis
      using None entry_addr by (auto simp: add_missing restorable_refl)
  qed (rule add_restorable)
qed

lemma adds_add:
  assumes "\<And>a. f (upd v a) = f a + d" and "\<And>n. f (fresh n v) = d"
  shows "adds f d (add i v)"
proof (rule addsI)
  fix s x s' assume run: "add i v s = (Inr x, s')"
  show "grand_total f s' = grand_total f s + d"
  proof (cases "accts s i")
    case None
    with run have "accts s' = (accts s)(i \<mapsto> fresh (accountStartNonce s) v)"
      by (auto simp: add_missing split: if_splits)
    from total_accts [OF this, of f] None assms(2) show ?thesis by (simp add: amount_of_def)
  next
    case (Some a)
    with add_total_of [of s i a f v d] assms(1) run show ?thesis by simp
  qed
qed

lemma add_amount_any:
  assumes "fst (add i v s) = Inr ()"
  shows "amount_of field (snd (add i v s)) = (amount_of field s)(i := amount_of field s i + v)"
proof (cases "accts s i")
  case None
  with assms show ?thesis
    by (auto simp: add_missing amount_of_def field_fresh fun_eq_iff split: if_splits)
qed (rule add_amount)

lemma add_total_any:
  assumes "fst (add i v s) = Inr ()"
  shows "grand_total field (snd (add i v s)) = grand_total field s + v"
proof -
  have "grand_total field (snd (add i v s)) = grand_total field s - amount_of field s i + (amount_of field s i + v)"
    using assms by (simp only: grand_total_def add_amount_any sum_fun_upd)
  then show ?thesis by simp
qed

end

section \<open>The operations of the state keep the contract\<close>

lemmas run_simps = emonad_simps get_account_def upd_account_def log_change_def touch_if_empty_def
  requireAccountStartNonce_def createAccount_def

lemma touch_state: "touch_if_empty i a s =
  (Inr (), s\<lparr>changeLog := changeLog s @ (if \<not> isDirty a \<and> isEmpty a then [Ch_Touch i] else [])\<rparr>)"
  by (simp add: run_simps)

lemmas amount_laws = entry_of_def observe_view account_op_defs

interpretation cookie: creating_amount m_balance acc_addBalance Ch_Balance addBalance account_nb
  by unfold_locales
    (auto simp: amount_laws addBalance_def run_simps account_nb_def)

interpretation brc: creating_amount m_BRC acc_addBRC Ch_BRC addBRC "\<lambda>n v. account_nbb n 0 v"
  by unfold_locales
    (auto simp: amount_laws addBRC_def run_simps account_nbb_def)

interpretation fbrc: journalled_amount m_FBRC acc_addFBRC Ch_FBRC addFBRC
  by unfold_locales (auto simp: amount_laws addFBRC_def run_simps)

interpretation fcookie: journalled_amount m_FBalance acc_addFBalance Ch_FBalance addFBalance
  by unfold_locales (auto simp: amount_laws addFBalance_def run_simps)

interpretation ballots: refusing_amount m_ballot acc_addBallot Ch_Ballot addBallot
  by unfold_locales (auto simp: amount_laws addBallot_def run_simps)

interpretation polls: refusing_amount m_poll acc_addPoll Ch_Poll addPoll
  by unfold_locales (auto simp: amount_laws addPoll_def run_simps)

interpretation income: refusing_amount m_CooikeIncomeNum acc_addCooikeIncome Ch_CooikeIncomeNum addCooikeIncomeNum
  by unfold_locales (auto simp: amount_laws addCooikeIncomeNum_def run_simps)

end
