(* ===== verification/OrderBook.thy ===== *)
theory OrderBook
  imports Amounts
begin

text \<open>
  libbrcdchain/ExdbState.h and ExdbState.cpp, and the order members of State.cpp they call: the
  book of resting orders, which lives in the account \<^verbatim>\<open>ExdbSystemAddress\<close>, the matching of a new
  order against it, cancellation and the queries.

  The matching loops walk a range of an ordered index of the book. Inside a loop the code removes
  only orders it has already passed, so the loop runs over the range as it was at the start. The
  exception is a partial fill in \<^verbatim>\<open>process_only_price\<close>: \<^verbatim>\<open>add_exchangeOrder\<close> erases the resting
  order and inserts its replacement, after which the loop reads and increments the iterator to the
  erased element. The behaviour is then undefined, and so is the model's outcome. The market loops
  do not touch the iterator after such an update.
\<close>

section \<open>The book in the state\<close>

definition addExchangeOrder :: "address \<Rightarrow> ex_order \<Rightarrow> unit st" where
  "addExchangeOrder addr od =
     ebind (get_account addr) (\<lambda>r. case r of
       None \<Rightarrow> ethrow ExdbChangeFailed
     | Some a \<Rightarrow> eseq [upd_account addr (addExOrderMulti od),
                        log_change (Ch_UpExOrder addr (m_exChangeOrder a))])"

definition removeExchangeOrder :: "address \<Rightarrow> h256 \<Rightarrow> unit st" where
  "removeExchangeOrder addr trid =
     ebind (get_account addr) (\<lambda>r. case r of
       None \<Rightarrow> ethrow ExdbChangeFailed
     | Some a \<Rightarrow>
         (if \<not> fst (removeExOrderMulti trid a) then ethrow ExdbChangeFailed
          else eseq [upd_account addr (\<lambda>a. snd (removeExOrderMulti trid a)),
                     log_change (Ch_UpExOrder addr (m_exChangeOrder a))]))"

definition getExOrder :: "ExOrderMulti st" where
  "getExOrder =
     ebind (get_account ExdbSystemAddress) (\<lambda>r. case r of
       Some a \<Rightarrow> ereturn (m_exChangeOrder a)
     | None \<Rightarrow> ebind (createAccount ExdbSystemAddress (account_ballot 0)) (\<lambda>_. ereturn []))"

definition userGetExOrder :: "address \<Rightarrow> ExOrderMulti st" where
  "userGetExOrder addr =
     ebind (get_account addr) (\<lambda>r. case r of
       None \<Rightarrow> ethrow ExdbChangeFailed | Some a \<Rightarrow> ereturn (m_exChangeOrder a))"

definition addSuccessExchange :: "result_order \<Rightarrow> unit st" where
  "addSuccessExchange od =
     ebind (get_account ExdbSystemAddress) (\<lambda>r.
     ebind (case r of Some a \<Rightarrow> ereturn a
            | None \<Rightarrow> ebind (createAccount ExdbSystemAddress (account_ballot 0)) (\<lambda>_. ereturn (account_ballot 0))) (\<lambda>a.
       eseq [upd_account ExdbSystemAddress (addSuccessExchangeOrder od),
             log_change (Ch_SuccessOrder ExdbSystemAddress (m_successExchange a))]))"

definition setSuccessExchange :: "ExResultOrder \<Rightarrow> unit st" where
  "setSuccessExchange rs =
     ebind (get_account ExdbSystemAddress) (\<lambda>r.
     ebind (case r of Some a \<Rightarrow> ereturn a
            | None \<Rightarrow> ebind (createAccount ExdbSystemAddress (account_ballot 0)) (\<lambda>_. ereturn (account_ballot 0))) (\<lambda>a.
       eseq [upd_account ExdbSystemAddress (setSuccessOrder rs),
             log_change (Ch_SuccessOrder ExdbSystemAddress (m_successExchange a))]))"

definition add_exchangeOrder :: "ex_order \<Rightarrow> unit st" where
  "add_exchangeOrder od = addExchangeOrder ExdbSystemAddress od"

definition remove_exchangeOrder :: "h256 \<Rightarrow> unit st" where
  "remove_exchangeOrder trid = removeExchangeOrder ExdbSystemAddress trid"

section \<open>Matching\<close>

definition buy_range :: "order_token_type \<Rightarrow> u256 \<Rightarrow> ExOrderMulti \<Rightarrow> ex_order list" where
  "buy_range token price m =
     index_range price_less_key
       (order_type_code sell, order_token_code token, 0, 0)
       (order_type_code sell, order_token_code token, uint price, INT64_MAX)
       (ex_by_price_less m)"

definition sell_range :: "order_token_type \<Rightarrow> u256 \<Rightarrow> ExOrderMulti \<Rightarrow> ex_order list" where
  "sell_range token price m =
     index_range price_greater_key
       (order_type_code buy, order_token_code token, - uint (-1 :: u256), 0)
       (order_type_code buy, order_token_code token, - uint price, INT64_MAX)
       (ex_by_price_greater m)"

definition get_buy_itr :: "order_token_type \<Rightarrow> u256 \<Rightarrow> ex_order list st" where
  "get_buy_itr token price = ebind getExOrder (\<lambda>m. ereturn (buy_range token price m))"

definition get_sell_itr :: "order_token_type \<Rightarrow> u256 \<Rightarrow> ex_order list st" where
  "get_sell_itr token price = ebind getExOrder (\<lambda>m. ereturn (sell_range token price m))"

fun only_price_loop ::
    "ex_order \<Rightarrow> u256 \<Rightarrow> ex_order list \<Rightarrow> u256 \<Rightarrow> result_order list \<Rightarrow> h256 list \<Rightarrow>
     (u256 \<times> result_order list \<times> h256 list) st" where
  "only_price_loop od price [] spend result removeHashs = ereturn (spend, result, removeHashs)"
| "only_price_loop od price (b # rest) spend result removeHashs =
     (if spend > 0 then
        (if eo_token_amount b \<le> spend then
           only_price_loop od price rest (spend - eo_token_amount b)
             (result @ [(set_data od b (eo_token_amount b) (eo_price b))\<lparr>ro_old_price := price\<rparr>])
             (removeHashs @ [eo_trxid b])
         else
           ebind (add_exchangeOrder (b\<lparr>eo_token_amount := eo_token_amount b - spend\<rparr>)) (\<lambda>_.
             ethrow UndefinedBehaviour))
      else ereturn (spend, result, removeHashs))"

definition process_only_price ::
    "ex_order list \<Rightarrow> ex_order \<Rightarrow> u256 \<Rightarrow> u256 \<Rightarrow> result_order list st" where
  "process_only_price itrs od price amount =
     (if itrs = [] then ebind (add_exchangeOrder od) (\<lambda>_. ereturn [])
      else ebind (only_price_loop od price itrs amount [] []) (\<lambda>r. case r of
        (spend, result, removeHashs) \<Rightarrow>
          ebind (efor removeHashs remove_exchangeOrder) (\<lambda>_.
          ebind (ewhen (spend > 0) (add_exchangeOrder (od\<lparr>eo_token_amount := spend\<rparr>))) (\<lambda>_.
            ereturn result))))"

fun all_price_buy_loop ::
    "bool \<Rightarrow> ex_order \<Rightarrow> ex_order list \<Rightarrow> u256 \<Rightarrow> result_order list \<Rightarrow> result_order list st" where
  "all_price_buy_loop reset od [] total_price result = ereturn result"
| "all_price_buy_loop reset od (b # rest) total_price result =
     (if total_price > 0 then
        (let begin_total_price = eo_token_amount b * eo_price b in
         if begin_total_price \<le> total_price then
           ebind (ewhen (\<not> reset) (remove_exchangeOrder (eo_trxid b))) (\<lambda>_.
             all_price_buy_loop reset od rest (total_price - begin_total_price)
               (result @ [set_data od b (eo_token_amount b) (eo_price b)]))
         else
           (let can_buy_amount = total_price div eo_price b in
            if can_buy_amount = 0 then ereturn result
            else
              ebind (ewhen (\<not> reset)
                (add_exchangeOrder (b\<lparr>eo_token_amount := eo_token_amount b - can_buy_amount\<rparr>))) (\<lambda>_.
              ereturn (result @ [set_data od b can_buy_amount (eo_price b)]))))
      else ereturn result)"

fun all_price_sell_loop ::
    "bool \<Rightarrow> ex_order \<Rightarrow> ex_order list \<Rightarrow> u256 \<Rightarrow> result_order list \<Rightarrow> result_order list st" where
  "all_price_sell_loop reset od [] total_amount result = ereturn result"
| "all_price_sell_loop reset od (b # rest) total_amount result =
     (if total_amount > 0 then
        (if eo_token_amount b > total_amount then
           ebind (ewhen (\<not> reset)
             (add_exchangeOrder (b\<lparr>eo_token_amount := eo_token_amount b - total_amount\<rparr>))) (\<lambda>_.
           ereturn (result @ [set_data od b total_amount (eo_price b)]))
         else
           ebind (ewhen (\<not> reset) (remove_exchangeOrder (eo_trxid b))) (\<lambda>_.
             all_price_sell_loop reset od rest (total_amount - eo_token_amount b)
               (result @ [set_data od b (eo_token_amount b) (eo_price b)])))
      else ereturn result)"

text \<open>The two assertions of the market orders are \<open>AssertionFailed\<close>.\<close>

definition insert_operation :: "ex_order \<Rightarrow> bool \<Rightarrow> result_order list st" where
  "insert_operation itr reset =
     (if eo_token_amount itr = 0 \<and> eo_price itr = 0 then ethrow order_price_num_equal_zero_error
      else if reset \<and> \<not> (eo_type itr = buy \<and> eo_buy_type itr = all_price) then ethrow ProcessExit
      else if eo_buy_type itr = only_price then
        (if eo_type itr = buy then
           ebind (get_buy_itr (eo_token_type itr) (eo_price itr)) (\<lambda>itrs.
             process_only_price itrs itr (eo_price itr) (eo_source_amount itr))
         else
           ebind (get_sell_itr (eo_token_type itr) (eo_price itr)) (\<lambda>itrs.
             process_only_price itrs itr (eo_price itr) (eo_source_amount itr)))
      else if eo_type itr = buy then
        (if \<not> (eo_price itr \<noteq> 0 \<and> eo_source_amount itr = 0) then ethrow AssertionFailed
         else ebind (get_buy_itr (eo_token_type itr) (-1)) (\<lambda>itrs.
           if itrs = [] then ethrow all_price_operation_error
           else all_price_buy_loop reset itr itrs (eo_price itr) []))
      else
        (if \<not> (eo_price itr = 0 \<and> eo_source_amount itr \<noteq> 0) then ethrow AssertionFailed
         else ebind (get_sell_itr (eo_token_type itr) 0) (\<lambda>itrs.
           if itrs = [] then ethrow all_price_operation_error
           else all_price_sell_loop reset itr itrs (eo_token_amount itr) [])))"

section \<open>Cancellation and queries\<close>

definition cancel_order_by_trxid :: "h256 \<Rightarrow> order st" where
  "cancel_order_by_trxid t =
     ebind getExOrder (\<lambda>m. case multi_find t m of
       None \<Rightarrow> ethrow find_order_trxid_error
     | Some od \<Rightarrow>
         ebind (remove_exchangeOrder (eo_trxid od)) (\<lambda>_.
           ereturn \<lparr>o_trxid = eo_trxid od, o_sender = eo_sender od, o_buy_type = only_price,
             o_token_type = eo_token_type od, o_type = eo_type od,
             o_price_token = (eo_price od, eo_token_amount od), o_time = eo_create_time od\<rparr>))"

definition exits_trxid :: "h256 \<Rightarrow> ex_order list st" where
  "exits_trxid t =
     ebind getExOrder (\<lambda>m. case multi_find t m of
       None \<Rightarrow> ethrow find_order_trxid_error | Some od \<Rightarrow> ereturn [od])"

definition get_order_by_type :: "order_type \<Rightarrow> order_token_type \<Rightarrow> nat \<Rightarrow> ex_order list st" where
  "get_order_by_type type token gsize =
     ebind getExOrder (\<lambda>m. ereturn
       (if type = buy then take gsize (sell_range token 0 m) else take gsize (buy_range token (-1) m)))"

text \<open>The counter of \<^verbatim>\<open>get_order_by_address\<close> is decremented before it is tested.\<close>

definition address_key :: "ex_order \<Rightarrow> int \<times> int" where
  "address_key od = (uint (eo_sender od), - eo_create_time od)"

definition get_order_by_address :: "address \<Rightarrow> 32 word \<Rightarrow> ex_order list st" where
  "get_order_by_address addr gsize =
     ebind getExOrder (\<lambda>m. ereturn
       (take (unat (gsize - 1))
         (index_range address_key (uint addr, - INT64_MAX) (uint addr, 0) (sort_key address_key m))))"

text \<open>The results of the exchange as the queries copy them: without the old price.\<close>

definition copy_result :: "result_order \<Rightarrow> result_order" where
  "copy_result r = r\<lparr>ro_old_price := 0\<rparr>"

definition get_result_orders_by_news :: "ExResultOrder \<Rightarrow> nat \<Rightarrow> result_order list" where
  "get_result_orders_by_news rs gsize = map copy_result (take gsize (sort_key ro_create_time rs))"

definition sender_time_key :: "result_order \<Rightarrow> int \<times> int" where
  "sender_time_key r = (uint (ro_sender r), ro_create_time r)"

definition acceptor_time_key :: "result_order \<Rightarrow> int \<times> int" where
  "acceptor_time_key r = (uint (ro_acceptor r), ro_create_time r)"

text \<open>The merge at the end of \<^verbatim>\<open>get_result_orders_by_address\<close>, with the number of results left.\<close>

fun merge_results :: "nat \<Rightarrow> result_order list \<Rightarrow> result_order list \<Rightarrow> result_order list" where
  "merge_results 0 ss as = []"
| "merge_results (Suc n) [] [] = []"
| "merge_results (Suc n) (s # ss) (a # as) =
     (if ro_create_time s > ro_create_time a then s # merge_results n ss (a # as)
      else a # merge_results n (s # ss) as)"
| "merge_results (Suc n) (s # ss) [] = s # merge_results n ss []"
| "merge_results (Suc n) [] (a # as) = a # merge_results n [] as"

definition get_result_orders_by_address ::
    "ExResultOrder \<Rightarrow> address \<Rightarrow> int \<Rightarrow> int \<Rightarrow> nat \<Rightarrow> result_order list" where
  "get_result_orders_by_address rs addr min_time max_time max_size =
     merge_results max_size
       (map copy_result (take max_size
         (index_range sender_time_key (uint addr, min_time) (uint addr, max_time) (sort_key sender_time_key rs))))
       (map copy_result (take max_size
         (index_range acceptor_time_key (uint addr, min_time) (uint addr, max_time) (sort_key acceptor_time_key rs))))"

end
