(* ===== verification/Matching.thy ===== *)
theory Matching
  imports OrderBook
begin

text \<open>
  What the matching of OrderBook does to the book, as pure functions on the list of resting
  orders, and the refinement of the stateful code to them. On the pure side: fills follow the
  ordered range, add up to the order, respect its limit, and leave a book that is not crossed.
\<close>

section \<open>The book as a value\<close>

definition book :: "chain_state \<Rightarrow> ExOrderMulti" where
  "book s = (case accts s ExdbSystemAddress of None \<Rightarrow> [] | Some a \<Rightarrow> m_exChangeOrder a)"

text \<open>\<open>s'\<close> is \<open>s\<close> with the book \<open>m\<close>: nothing but the book, the dirty flag and the log has changed.\<close>

definition book_update :: "chain_state \<Rightarrow> ExOrderMulti \<Rightarrow> chain_state \<Rightarrow> bool" where
  "book_update s m s' \<longleftrightarrow>
     (\<exists>a u l. accts s ExdbSystemAddress = Some a \<and>
        s' = s\<lparr>accts := (accts s)(ExdbSystemAddress \<mapsto> a\<lparr>m_exChangeOrder := m, m_isUnchanged := u\<rparr>),
               changeLog := changeLog s @ l\<rparr>)"

lemma book_updateI:
  "accts s ExdbSystemAddress = Some a \<Longrightarrow>
   s' = s\<lparr>accts := (accts s)(ExdbSystemAddress \<mapsto> a\<lparr>m_exChangeOrder := m, m_isUnchanged := u\<rparr>),
          changeLog := changeLog s @ l\<rparr> \<Longrightarrow> book_update s m s'"
  by (auto simp: book_update_def)

lemma book_update_refl: "accts s ExdbSystemAddress = Some a \<Longrightarrow> book_update s (book s) s"
  by (rule book_updateI [where u = "m_isUnchanged a" and l = "[]"]) (auto simp: book_def fun_upd_idem)

lemma book_update_trans:
  assumes "book_update s m s'" and "book_update s' m' s''"
  shows "book_update s m' s''"
proof -
  from assms(1) obtain a u l where a: "accts s ExdbSystemAddress = Some a"
    and s': "s' = s\<lparr>accts := (accts s)(ExdbSystemAddress \<mapsto> a\<lparr>m_exChangeOrder := m, m_isUnchanged := u\<rparr>),
      changeLog := changeLog s @ l\<rparr>"
    by (auto simp: book_update_def)
  from assms(2) s' obtain u' l' where
    "s'' = s\<lparr>accts := (accts s)(ExdbSystemAddress \<mapsto> a\<lparr>m_exChangeOrder := m', m_isUnchanged := u'\<rparr>),
      changeLog := changeLog s @ l @ l'\<rparr>"
    by (auto simp: book_update_def)
  with a show ?thesis by (rule book_updateI)
qed

lemma book_update_book: "book_update s m s' \<Longrightarrow> book s' = m"
  by (auto simp: book_update_def book_def)

lemma book_update_account:
  "book_update s m s' \<Longrightarrow> \<exists>a. accts s' ExdbSystemAddress = Some a \<and> m_exChangeOrder a = m"
  by (auto simp: book_update_def)

lemma book_update_amount:
  assumes "book_update s m s'" and "\<And>a u. f (a\<lparr>m_exChangeOrder := m, m_isUnchanged := u\<rparr>) = f a"
  shows "amount_of f s' = amount_of f s"
  using assms by (auto simp: book_update_def amount_of_def fun_eq_iff)

subsection \<open>Putting and removing\<close>

definition book_put :: "ex_order \<Rightarrow> ExOrderMulti \<Rightarrow> ExOrderMulti" where
  "book_put od m = multi_erase (eo_trxid od) m @ [od]"

lemma addExOrderMulti_put:
  assumes "trxids_distinct (m_exChangeOrder a)"
  shows "addExOrderMulti od a = a\<lparr>m_exChangeOrder := book_put od (m_exChangeOrder a), m_isUnchanged := False\<rparr>"
proof (cases "multi_find (eo_trxid od) (m_exChangeOrder a)")
  case None
  then show ?thesis
    by (simp add: addExOrderMulti_def multi_insert_def multi_find_def book_put_def multi_erase_def
        erase_first_absent changed_def)
next
  case (Some x)
  have "find (has_trxid (eo_trxid od)) (multi_erase (eo_trxid od) (m_exChangeOrder a)) = None"
    using multi_find_erased [OF assms] by (simp add: multi_find_def)
  with Some show ?thesis
    by (simp add: addExOrderMulti_def multi_insert_def book_put_def changed_def)
qed

lemma add_exchangeOrder_book:
  assumes "accts s ExdbSystemAddress = Some a" and "trxids_distinct (book s)"
  shows "\<exists>s'. add_exchangeOrder od s = (Inr (), s') \<and> book_update s (book_put od (book s)) s'"
proof -
  from assms have "trxids_distinct (m_exChangeOrder a)" "book s = m_exChangeOrder a"
    by (simp_all add: book_def)
  with assms(1) show ?thesis
    by (auto simp: add_exchangeOrder_def addExchangeOrder_def run_simps addExOrderMulti_put
        intro!: book_updateI)
qed

lemma remove_exchangeOrder_book:
  assumes "accts s ExdbSystemAddress = Some a" and "t \<in> eo_trxid ` set (book s)"
  shows "\<exists>s'. remove_exchangeOrder t s = (Inr (), s') \<and> book_update s (multi_erase t (book s)) s'"
proof -
  have "multi_find t (m_exChangeOrder a) \<noteq> None"
    using assms find_trxid_None by (auto simp: book_def multi_find_def)
  then obtain x where "multi_find t (m_exChangeOrder a) = Some x" by blast
  with assms(1) show ?thesis
    by (auto simp: remove_exchangeOrder_def removeExchangeOrder_def removeExOrderMulti_def run_simps
        book_def changed_def intro!: book_updateI)
qed

lemma getExOrder_book:
  "\<exists>s'. getExOrder s = (Inr (book s), s') \<and> book s' = book s \<and>
        (\<exists>a. accts s' ExdbSystemAddress = Some a) \<and>
        (accts s ExdbSystemAddress \<noteq> None \<longrightarrow> s' = s)"
  by (cases "accts s ExdbSystemAddress")
    (auto simp: getExOrder_def run_simps book_def account_ballot_def dead_account_def)

lemma trxids_put: "trxids_distinct m \<Longrightarrow> trxids_distinct (book_put od m)"
  by (auto simp: book_put_def trxids_distinct_def multi_erase_def erase_first_trxid [unfolded trxids_distinct_def]
      distinct_map_filter)

lemma set_book_put:
  "trxids_distinct m \<Longrightarrow> set (book_put od m) = insert od {x \<in> set m. eo_trxid x \<noteq> eo_trxid od}"
  by (auto simp: book_put_def set_multi_erase)

lemma trxids_erase: "trxids_distinct m \<Longrightarrow> trxids_distinct (multi_erase t m)"
  by (rule multi_erase_distinct)

section \<open>Fills\<close>

abbreviation amount :: "ex_order \<Rightarrow> nat" where
  "amount b \<equiv> unat (eo_token_amount b)"

text \<open>The specification: an order of size \<open>n\<close> takes from the range in order until it is filled.\<close>

primrec fills :: "nat \<Rightarrow> ex_order list \<Rightarrow> (ex_order \<times> nat) list" where
  "fills n [] = []"
| "fills n (b # bs) = (if n = 0 then [] else (b, min n (amount b)) # fills (n - amount b) bs)"

text \<open>A filled order leaves the book, the last one may stay with what is left of it.\<close>

definition reduce :: "ex_order \<times> nat \<Rightarrow> ex_order" where
  "reduce f = (fst f)\<lparr>eo_token_amount := eo_token_amount (fst f) - of_nat (snd f)\<rparr>"

definition is_full :: "ex_order \<times> nat \<Rightarrow> bool" where
  "is_full f \<longleftrightarrow> snd f = amount (fst f)"

abbreviation fill_id :: "ex_order \<times> nat \<Rightarrow> h256" where
  "fill_id f \<equiv> eo_trxid (fst f)"

definition put_partial :: "(ex_order \<times> nat) list \<Rightarrow> ExOrderMulti \<Rightarrow> ExOrderMulti" where
  "put_partial fs m = fold (\<lambda>f. book_put (reduce f)) (filter (\<lambda>f. \<not> is_full f) fs) m"

definition erase_full :: "(ex_order \<times> nat) list \<Rightarrow> ExOrderMulti \<Rightarrow> ExOrderMulti" where
  "erase_full fs m = fold multi_erase (map fill_id (filter is_full fs)) m"

definition fill_book :: "(ex_order \<times> nat) list \<Rightarrow> ExOrderMulti \<Rightarrow> ExOrderMulti" where
  "fill_book fs m = erase_full fs (put_partial fs m)"

definition fill_total :: "(ex_order \<times> nat) list \<Rightarrow> nat" where
  "fill_total fs = sum_list (map snd fs)"

definition depth :: "ex_order list \<Rightarrow> nat" where
  "depth bs = sum_list (map amount bs)"

lemma fill_total_fills: "fill_total (fills n bs) = min n (depth bs)"
  by (induction bs arbitrary: n) (auto simp: fill_total_def depth_def)

lemma fills_prefix: "\<exists>k \<le> length bs. map fst (fills n bs) = take k bs"
proof (induction bs arbitrary: n)
  case (Cons b bs)
  show ?case
  proof (cases "n = 0")
    case False
    obtain k where "k \<le> length bs" "map fst (fills (n - amount b) bs) = take k bs"
      using Cons.IH by blast
    with False show ?thesis by (intro exI [of _ "Suc k"]) simp
  qed auto
qed simp

lemma fills_bound: "(b, k) \<in> set (fills n bs) \<Longrightarrow> b \<in> set bs \<and> k \<le> amount b"
  by (induction bs arbitrary: n) (auto split: if_splits)

text \<open>An order that the range cannot fill takes all of it.\<close>

lemma fills_exhausted: "depth bs < n \<Longrightarrow> fills n bs = map (\<lambda>b. (b, amount b)) bs"
  by (induction bs arbitrary: n) (auto simp: depth_def)

lemma reduce_trxid [simp]: "eo_trxid (reduce f) = fill_id f"
  by (simp add: reduce_def)

lemma fills_distinct: "distinct (map eo_trxid bs) \<Longrightarrow> distinct (map fill_id (fills n bs))"
proof -
  assume d: "distinct (map eo_trxid bs)"
  obtain k where k: "map fst (fills n bs) = take k bs" using fills_prefix by blast
  have "map fill_id (fills n bs) = map eo_trxid (map fst (fills n bs))" by simp
  then have "map fill_id (fills n bs) = take k (map eo_trxid bs)" by (simp only: k take_map)
  with d show ?thesis by simp
qed

lemma put_fold_set:
  assumes "trxids_distinct m" and "distinct (map fill_id fs)"
  shows "trxids_distinct (fold (\<lambda>f. book_put (reduce f)) fs m) \<and>
    set (fold (\<lambda>f. book_put (reduce f)) fs m) = reduce ` set fs \<union> {x \<in> set m. eo_trxid x \<notin> fill_id ` set fs}"
  using assms
proof (induction fs arbitrary: m)
  case (Cons f fs)
  then have d: "trxids_distinct (book_put (reduce f) m)" by (simp add: trxids_put)
  have new: "fill_id f \<notin> fill_id ` set fs" using Cons.prems(2) by simp
  have "set (fold (\<lambda>f. book_put (reduce f)) fs (book_put (reduce f) m)) =
      reduce ` set fs \<union> {x \<in> insert (reduce f) {x \<in> set m. eo_trxid x \<noteq> fill_id f}. eo_trxid x \<notin> fill_id ` set fs}"
    using Cons.IH [OF d] Cons.prems by (simp add: set_book_put)
  also have "\<dots> = reduce ` set (f # fs) \<union> {x \<in> set m. eo_trxid x \<notin> fill_id ` set (f # fs)}"
    using new by (auto simp: image_iff)
  finally show ?case using Cons.IH [OF d] Cons.prems by simp
qed auto

lemma erase_fold_set:
  assumes "trxids_distinct m"
  shows "trxids_distinct (fold multi_erase ts m) \<and> set (fold multi_erase ts m) = {x \<in> set m. eo_trxid x \<notin> set ts}"
  using assms by (induction ts arbitrary: m) (auto simp: trxids_erase set_multi_erase)

lemma put_partial_distinct:
  "trxids_distinct m \<Longrightarrow> distinct (map fill_id fs) \<Longrightarrow> trxids_distinct (put_partial fs m)"
  unfolding put_partial_def by (intro conjunct1 [OF put_fold_set]) (simp_all add: distinct_map_filter)

lemma fill_book_distinct:
  "trxids_distinct m \<Longrightarrow> distinct (map fill_id fs) \<Longrightarrow> trxids_distinct (fill_book fs m)"
  unfolding fill_book_def erase_full_def by (intro conjunct1 [OF erase_fold_set] put_partial_distinct)

lemma set_fill_book:
  assumes "trxids_distinct m" and "distinct (map fill_id fs)"
  shows "set (fill_book fs m) =
    reduce ` {f \<in> set fs. \<not> is_full f} \<union> {x \<in> set m. eo_trxid x \<notin> fill_id ` set fs}"
proof -
  let ?p = "filter (\<lambda>f. \<not> is_full f) fs"
  have dp: "distinct (map fill_id ?p)" using assms(2) by (rule distinct_map_filter)
  have part: "set (put_partial fs m) = reduce ` set ?p \<union> {x \<in> set m. eo_trxid x \<notin> fill_id ` set ?p}"
    using put_fold_set [OF assms(1) dp] by (simp add: put_partial_def)
  have apart: "f \<in> set fs \<Longrightarrow> g \<in> set fs \<Longrightarrow> fill_id f = fill_id g \<Longrightarrow> f = g" for f g
    using assms(2) by (simp add: distinct_map inj_on_def)
  have "set (fill_book fs m) = {x \<in> set (put_partial fs m). eo_trxid x \<notin> fill_id ` {f \<in> set fs. is_full f}}"
    using erase_fold_set [OF put_partial_distinct [OF assms]] by (simp add: fill_book_def erase_full_def)
  also have "\<dots> = reduce ` {f \<in> set fs. \<not> is_full f} \<union> {x \<in> set m. eo_trxid x \<notin> fill_id ` set fs}"
    unfolding part using apart by (auto simp: image_iff) (metis, metis)
  finally show ?thesis .
qed

section \<open>The limit order refines the specification\<close>

definition limit_result :: "ex_order \<Rightarrow> u256 \<Rightarrow> ex_order \<times> nat \<Rightarrow> result_order" where
  "limit_result od price f = (set_data od (fst f) (of_nat (snd f)) (eo_price (fst f)))\<lparr>ro_old_price := price\<rparr>"

lemma only_price_loop_full:
  "spend \<noteq> 0 \<Longrightarrow> eo_token_amount b \<le> spend \<Longrightarrow>
   only_price_loop od price (b # bs) spend result rh =
     only_price_loop od price bs (spend - eo_token_amount b)
       (result @ [limit_result od price (b, amount b)]) (rh @ [eo_trxid b])"
  by (simp add: limit_result_def word_neq_0_conv)

text \<open>Inside the loop nothing is written while every match fills its resting order.\<close>

lemma only_price_loop_book:
  assumes "list_all is_full (fills (unat spend) bs)"
  shows "only_price_loop od price bs spend result rh s =
      (Inr (of_nat (unat spend - depth bs), result @ map (limit_result od price) (fills (unat spend) bs),
            rh @ map fill_id (fills (unat spend) bs)), s)"
  using assms
proof (induction bs arbitrary: spend result rh)
  case Nil
  then show ?case by (simp add: depth_def)
next
  case (Cons b bs)
  show ?case
  proof (cases "spend = 0")
    case False
    then have n: "unat spend \<noteq> 0" by (simp add: unat_eq_zero)
    with Cons.prems have le: "amount b \<le> unat spend" by (auto simp: is_full_def min_def split: if_splits)
    then have w: "eo_token_amount b \<le> spend" by (simp add: word_le_nat_alt)
    then have sub: "unat (spend - eo_token_amount b) = unat spend - amount b" by (simp add: unat_sub)
    have fs: "fills (unat spend) (b # bs) = (b, amount b) # fills (unat spend - amount b) bs"
      using n le by (simp add: min_def)
    have "list_all is_full (fills (unat (spend - eo_token_amount b)) bs)"
      using Cons.prems unfolding fs sub by simp
    note Cons.IH [OF this, of "result @ [limit_result od price (b, amount b)]" "rh @ [eo_trxid b]"]
    then show ?thesis
      unfolding fs only_price_loop_full [OF False w] by (simp add: sub depth_def diff_diff_left)
  qed simp
qed

text \<open>A match that fills a resting order only in part makes the loop undefined.\<close>

lemma only_price_loop_undefined:
  assumes "accts s ExdbSystemAddress = Some a" and "\<not> list_all is_full (fills (unat spend) bs)"
  shows "\<exists>s'. only_price_loop od price bs spend result rh s = (Inl UndefinedBehaviour, s')"
  using assms
proof (induction bs arbitrary: spend result rh)
  case (Cons b bs)
  then have n: "unat spend \<noteq> 0" by (cases "unat spend = 0") simp_all
  then have sp: "spend \<noteq> 0" by (simp add: unat_eq_zero)
  show ?case
  proof (cases "amount b \<le> unat spend")
    case True
    then have w: "eo_token_amount b \<le> spend" by (simp add: word_le_nat_alt)
    then have sub: "unat (spend - eo_token_amount b) = unat spend - amount b" by (simp add: unat_sub)
    have "\<not> list_all is_full (fills (unat (spend - eo_token_amount b)) bs)"
      using Cons.prems(2) n True is_full_def [of "(b, amount b)"] by (simp add: sub min_absorb2)
    then show ?thesis unfolding only_price_loop_full [OF sp w] by (rule Cons.IH [OF Cons.prems(1)])
  next
    case False
    with sp Cons.prems(1) show ?thesis
      by (simp add: add_exchangeOrder_def addExchangeOrder_def run_simps word_le_nat_alt word_neq_0_conv)
  qed
qed simp

lemma erase_loop_book:
  assumes "accts s ExdbSystemAddress = Some a" and "trxids_distinct (book s)"
    and "set ts \<subseteq> eo_trxid ` set (book s)" and "distinct ts"
  shows "\<exists>s'. efor ts remove_exchangeOrder s = (Inr (), s') \<and> book_update s (fold multi_erase ts (book s)) s'"
  using assms
proof (induction ts arbitrary: s a)
  case Nil
  then show ?case by (auto intro: book_update_refl)
next
  case (Cons t ts)
  then obtain s1 where s1: "remove_exchangeOrder t s = (Inr (), s1)" "book_update s (multi_erase t (book s)) s1"
    using remove_exchangeOrder_book [OF Cons.prems(1), of t] by auto
  obtain a1 where a1: "accts s1 ExdbSystemAddress = Some a1" using book_update_account [OF s1(2)] by blast
  have b1: "book s1 = multi_erase t (book s)" using s1(2) by (rule book_update_book)
  have "trxids_distinct (book s1)" using Cons.prems(2) by (simp add: b1 trxids_erase)
  moreover have "set ts \<subseteq> eo_trxid ` set (book s1)"
    using Cons.prems(2-4) by (fastforce simp: b1 set_multi_erase image_iff subset_iff)
  ultimately obtain s2 where "efor ts remove_exchangeOrder s1 = (Inr (), s2)"
    "book_update s1 (fold multi_erase ts (book s1)) s2"
    using Cons.IH [OF a1] Cons.prems(4) by auto
  with s1 b1 show ?case by (auto simp: ebind_def intro: book_update_trans)
qed

definition spec_limit :: "ex_order list \<Rightarrow> ex_order \<Rightarrow> ExOrderMulti \<Rightarrow> result_order list \<times> ExOrderMulti" where
  "spec_limit itrs od m =
     (let n = unat (eo_source_amount od); fs = fills n itrs; rest = n - depth itrs in
      (map (limit_result od (eo_price od)) fs,
       if itrs = [] then book_put od m
       else if rest > 0 then book_put (od\<lparr>eo_token_amount := of_nat rest\<rparr>) (fill_book fs m)
       else fill_book fs m))"

lemma process_only_price_book:
  assumes "accts s ExdbSystemAddress = Some a" and "trxids_distinct (book s)"
    and "set itrs \<subseteq> set (book s)" and "distinct (map eo_trxid itrs)"
    and "list_all is_full (fills (unat (eo_source_amount od)) itrs)"
  shows "\<exists>s'. process_only_price itrs od (eo_price od) (eo_source_amount od) s =
      (Inr (fst (spec_limit itrs od (book s))), s') \<and> book_update s (snd (spec_limit itrs od (book s))) s'"
proof (cases "itrs = []")
  case True
  obtain s' where "add_exchangeOrder od s = (Inr (), s')" "book_update s (book_put od (book s)) s'"
    using add_exchangeOrder_book [OF assms(1,2)] by blast
  with True show ?thesis by (auto simp: process_only_price_def spec_limit_def ebind_def Let_def)
next
  case False
  let ?n = "unat (eo_source_amount od)" and ?m = "book s"
  let ?fs = "fills ?n itrs"
  have ids: "distinct (map fill_id ?fs)" using assms(4) by (rule fills_distinct)
  have fst_fs: "fst ` set ?fs \<subseteq> set ?m" using fills_bound assms(3) by fastforce
  have full: "filter is_full ?fs = ?fs" "put_partial ?fs ?m = ?m"
    using assms(5) by (auto simp: list_all_iff put_partial_def)
  have s1: "only_price_loop od (eo_price od) itrs (eo_source_amount od) [] [] s =
      (Inr (of_nat (?n - depth itrs), map (limit_result od (eo_price od)) ?fs, map fill_id ?fs), s)"
    using only_price_loop_book [OF assms(5), of od "eo_price od" "[]" "[]" s] by simp
  have "set (map fill_id ?fs) \<subseteq> eo_trxid ` set ?m" using fst_fs by (auto simp: image_subset_iff)
  then obtain s2 where s2: "efor (map fill_id ?fs) remove_exchangeOrder s = (Inr (), s2)"
      "book_update s (fill_book ?fs ?m) s2"
    using erase_loop_book [OF assms(1,2) _ ids] by (auto simp: fill_book_def erase_full_def full)
  obtain a2 where a2: "accts s2 ExdbSystemAddress = Some a2" using book_update_account [OF s2(2)] by blast
  have b2: "book s2 = fill_book ?fs ?m" using s2(2) by (rule book_update_book)
  have d2: "trxids_distinct (book s2)" unfolding b2 using assms(2) ids by (rule fill_book_distinct)
  have rest: "(of_nat (?n - depth itrs) :: u256) > 0 \<longleftrightarrow> ?n - depth itrs > 0"
  proof -
    have "?n - depth itrs < 2 ^ LENGTH(256)"
      using unsigned_less [of "eo_source_amount od"] by (rule le_less_trans [OF diff_le_self])
    then have "unat (of_nat (?n - depth itrs) :: u256) = ?n - depth itrs" by (rule unat_of_nat_small)
    then show ?thesis by (simp add: word_less_nat_alt)
  qed
  have run: "process_only_price itrs od (eo_price od) (eo_source_amount od) s =
      ebind (ewhen (?n - depth itrs > 0) (add_exchangeOrder (od\<lparr>eo_token_amount := of_nat (?n - depth itrs)\<rparr>)))
        (\<lambda>_. ereturn (map (limit_result od (eo_price od)) ?fs)) s2"
    using False s1 s2(1) rest by (simp add: process_only_price_def ebind_def)
  show ?thesis
  proof (cases "?n - depth itrs > 0")
    case True
    obtain s3 where "add_exchangeOrder (od\<lparr>eo_token_amount := of_nat (?n - depth itrs)\<rparr>) s2 = (Inr (), s3)"
        "book_update s2 (book_put (od\<lparr>eo_token_amount := of_nat (?n - depth itrs)\<rparr>) (book s2)) s3"
      using add_exchangeOrder_book [OF a2 d2] by blast
    with True False run s2(2) b2 show ?thesis
      by (auto simp: spec_limit_def ebind_def Let_def intro: book_update_trans)
  next
    case rest0: False
    with False run s2(2) show ?thesis by (auto simp: spec_limit_def ebind_def Let_def)
  qed
qed

section \<open>The ranges\<close>

definition valid_time :: "ex_order \<Rightarrow> bool" where
  "valid_time od \<longleftrightarrow> 0 \<le> eo_create_time od \<and> eo_create_time od \<le> INT64_MAX"

definition limit_range :: "ex_order \<Rightarrow> ExOrderMulti \<Rightarrow> ex_order list" where
  "limit_range od m =
     (if eo_type od = buy then buy_range (eo_token_type od) (eo_price od) m
      else sell_range (eo_token_type od) (eo_price od) m)"

lemma order_type_code_inject [simp]: "order_type_code x = order_type_code y \<longleftrightarrow> x = y"
  by (cases x; cases y) auto

lemma order_token_code_inject [simp]: "order_token_code x = order_token_code y \<longleftrightarrow> x = y"
  by (cases x; cases y) auto

lemma buy_range_filter:
  "buy_range t p m = filter (\<lambda>x. (order_type_code sell, order_token_code t, 0, 0) \<le> price_less_key x \<and>
     price_less_key x \<le> (order_type_code sell, order_token_code t, uint p, INT64_MAX)) (sort_key price_less_key m)"
  unfolding buy_range_def ex_by_price_less_def by (intro index_range_sorted) simp

lemma sell_range_filter:
  "sell_range t p m = filter (\<lambda>x. (order_type_code buy, order_token_code t, - uint (-1 :: u256), 0) \<le> price_greater_key x \<and>
     price_greater_key x \<le> (order_type_code buy, order_token_code t, - uint p, INT64_MAX)) (sort_key price_greater_key m)"
  unfolding sell_range_def ex_by_price_greater_def by (intro index_range_sorted) simp

lemma key_between:
  fixes lo k hi :: "int \<times> int" and a a' b b' :: nat
  shows "(a, b, lo) \<le> (a', b', k) \<and> (a', b', k) \<le> (a, b, hi) \<longleftrightarrow> a = a' \<and> b = b' \<and> lo \<le> k \<and> k \<le> hi"
  by (auto simp: less_eq_prod_def)

lemma mem_buy_range:
  "x \<in> set (buy_range t p m) \<longleftrightarrow> x \<in> set m \<and> sell = eo_type x \<and> t = eo_token_type x \<and>
     (0, 0) \<le> (uint (eo_price x), eo_create_time x) \<and> (uint (eo_price x), eo_create_time x) \<le> (uint p, INT64_MAX)"
  by (simp only: buy_range_filter price_less_key_def set_filter mem_Collect_eq key_between set_sort
      order_type_code_inject order_token_code_inject)

lemma mem_sell_range:
  "x \<in> set (sell_range t p m) \<longleftrightarrow> x \<in> set m \<and> buy = eo_type x \<and> t = eo_token_type x \<and>
     (- uint (-1 :: u256), 0) \<le> (- uint (eo_price x), eo_create_time x) \<and>
     (- uint (eo_price x), eo_create_time x) \<le> (- uint p, INT64_MAX)"
  by (simp only: sell_range_filter price_greater_key_def set_filter mem_Collect_eq key_between set_sort
      order_type_code_inject order_token_code_inject)

lemma in_buy_range:
  assumes "valid_time x"
  shows "x \<in> set (buy_range t p m) \<longleftrightarrow> x \<in> set m \<and> eo_type x = sell \<and> eo_token_type x = t \<and> eo_price x \<le> p"
proof -
  have "0 \<le> uint (eo_price x)" by simp
  then have "(0, 0) \<le> (uint (eo_price x), eo_create_time x) \<and> (uint (eo_price x), eo_create_time x) \<le> (uint p, INT64_MAX)
      \<longleftrightarrow> eo_price x \<le> p"
    using assms by (auto simp: less_eq_prod_def valid_time_def word_le_def)
  then show ?thesis by (simp only: mem_buy_range) auto
qed

lemma in_sell_range:
  assumes "valid_time x"
  shows "x \<in> set (sell_range t p m) \<longleftrightarrow> x \<in> set m \<and> eo_type x = buy \<and> eo_token_type x = t \<and> p \<le> eo_price x"
proof -
  have "uint (eo_price x) \<le> uint (-1 :: u256)"
    using word_le_def [of "eo_price x" "-1"] word_n1_ge by blast
  then have "(- uint (-1 :: u256), 0) \<le> (- uint (eo_price x), eo_create_time x) \<and>
      (- uint (eo_price x), eo_create_time x) \<le> (- uint p, INT64_MAX) \<longleftrightarrow> p \<le> eo_price x"
    using assms by (auto simp: less_eq_prod_def valid_time_def word_le_def)
  then show ?thesis by (simp only: mem_sell_range) auto
qed

lemma limit_range_side:
  "x \<in> set (limit_range od m) \<Longrightarrow>
   eo_type x = (if eo_type od = buy then sell else buy) \<and> eo_token_type x = eo_token_type od"
  by (cases "eo_type od = buy") (auto simp: limit_range_def dest!: iffD1 [OF mem_buy_range] iffD1 [OF mem_sell_range])

lemma limit_range_subset: "set (limit_range od m) \<subseteq> set m"
  by (auto simp: limit_range_def buy_range_filter sell_range_filter)

lemma distinct_sort_key: "distinct (map g xs) \<Longrightarrow> distinct (map g (sort_key f xs))"
  by (metis distinct_map distinct_sort set_sort)

lemma limit_range_distinct: "trxids_distinct m \<Longrightarrow> distinct (map eo_trxid (limit_range od m))"
  by (auto simp: limit_range_def buy_range_filter sell_range_filter trxids_distinct_def
      intro: distinct_map_filter distinct_sort_key)

text \<open>Price-time priority: the best price first, and at one price the earliest order first.\<close>

definition better :: "order_type \<Rightarrow> ex_order \<Rightarrow> ex_order \<Rightarrow> bool" where
  "better side x y \<longleftrightarrow>
     (if side = buy then eo_price x < eo_price y else eo_price y < eo_price x) \<or>
     eo_price x = eo_price y \<and> eo_create_time x \<le> eo_create_time y"

lemma sorted_range: "sorted_wrt (\<lambda>x y. key x \<le> key y) (filter P (sort_key key m))"
  by (metis sorted_map sorted_sort_key sorted_wrt_filter)

lemma limit_range_sorted: "sorted_wrt (better (eo_type od)) (limit_range od m)"
proof (cases "eo_type od = buy")
  case True
  have "sorted_wrt (\<lambda>x y. price_less_key x \<le> price_less_key y) (limit_range od m)"
    using True by (simp add: limit_range_def buy_range_filter sorted_range)
  then show ?thesis
  proof (rule sorted_wrt_mono_rel [rotated])
    fix x y assume xy: "x \<in> set (limit_range od m)" "y \<in> set (limit_range od m)" "price_less_key x \<le> price_less_key y"
    then have "eo_type x = eo_type y" "eo_token_type x = eo_token_type y"
      using limit_range_side by metis+
    with xy(3) True show "better (eo_type od) x y"
      by (auto simp: better_def price_less_key_def less_eq_prod_def word_less_def word_uint_eq_iff)
  qed
next
  case False
  have "sorted_wrt (\<lambda>x y. price_greater_key x \<le> price_greater_key y) (limit_range od m)"
    using False by (simp add: limit_range_def sell_range_filter sorted_range)
  then show ?thesis
  proof (rule sorted_wrt_mono_rel [rotated])
    fix x y assume xy: "x \<in> set (limit_range od m)" "y \<in> set (limit_range od m)" "price_greater_key x \<le> price_greater_key y"
    then have "eo_type x = eo_type y" "eo_token_type x = eo_token_type y"
      using limit_range_side by metis+
    with xy(3) False show "better (eo_type od) x y"
      by (auto simp: better_def price_greater_key_def less_eq_prod_def word_less_def word_uint_eq_iff)
  qed
qed

section \<open>Inserting a limit order\<close>

text \<open>The order fills every resting order it meets: no match is a partial fill of the other side.\<close>

definition fills_whole :: "ex_order \<Rightarrow> ExOrderMulti \<Rightarrow> bool" where
  "fills_whole od m \<longleftrightarrow> list_all is_full (fills (unat (eo_source_amount od)) (limit_range od m))"

lemma insert_limit_process:
  assumes "eo_buy_type od = only_price" and "eo_token_amount od \<noteq> 0 \<or> eo_price od \<noteq> 0"
    and "getExOrder s = (Inr (book s), s0)"
  shows "insert_operation od False s =
    process_only_price (limit_range od (book s)) od (eo_price od) (eo_source_amount od) s0"
  using assms by (auto simp: insert_operation_def get_buy_itr_def get_sell_itr_def limit_range_def ebind_def)

lemma insert_limit_book:
  assumes "trxids_distinct (book s)" and "eo_buy_type od = only_price"
    and "eo_token_amount od \<noteq> 0 \<or> eo_price od \<noteq> 0" and "fills_whole od (book s)"
  shows "\<exists>s0 s'. getExOrder s = (Inr (book s), s0) \<and>
    insert_operation od False s = (Inr (fst (spec_limit (limit_range od (book s)) od (book s))), s') \<and>
    book_update s0 (snd (spec_limit (limit_range od (book s)) od (book s))) s'"
proof -
  obtain s0 a where s0: "getExOrder s = (Inr (book s), s0)" "book s0 = book s"
      "accts s0 ExdbSystemAddress = Some a"
    using getExOrder_book by blast
  have "\<exists>s'. process_only_price (limit_range od (book s)) od (eo_price od) (eo_source_amount od) s0 =
      (Inr (fst (spec_limit (limit_range od (book s)) od (book s))), s') \<and>
      book_update s0 (snd (spec_limit (limit_range od (book s)) od (book s))) s'"
    using process_only_price_book [OF s0(3), of "limit_range od (book s)" od] assms(1,4)
      limit_range_subset limit_range_distinct by (simp add: s0(2) fills_whole_def)
  with s0(1) insert_limit_process [OF assms(2,3) s0(1)] show ?thesis by metis
qed

lemma insert_limit_undefined:
  assumes "eo_buy_type od = only_price" and "eo_token_amount od \<noteq> 0 \<or> eo_price od \<noteq> 0"
    and "\<not> fills_whole od (book s)"
  shows "\<exists>s'. insert_operation od False s = (Inl UndefinedBehaviour, s')"
proof -
  obtain s0 a where s0: "getExOrder s = (Inr (book s), s0)" "accts s0 ExdbSystemAddress = Some a"
    using getExOrder_book by blast
  let ?r = "limit_range od (book s)"
  have "?r \<noteq> []" using assms(3) by (auto simp: fills_whole_def)
  moreover obtain s' where "only_price_loop od (eo_price od) ?r (eo_source_amount od) [] [] s0 = (Inl UndefinedBehaviour, s')"
    using only_price_loop_undefined [OF s0(2)] assms(3) unfolding fills_whole_def by blast
  ultimately show ?thesis
    unfolding insert_limit_process [OF assms(1,2) s0(1)] by (simp add: process_only_price_def ebind_def)
qed

subsection \<open>The book stays uncrossed\<close>

definition uncrossed :: "ex_order set \<Rightarrow> bool" where
  "uncrossed B \<longleftrightarrow> (\<forall>x\<in>B. \<forall>y\<in>B. eo_type x = sell \<longrightarrow> eo_type y = buy \<longrightarrow>
     eo_token_type x = eo_token_type y \<longrightarrow> eo_price y < eo_price x)"

lemma uncrossed_subset: "uncrossed B \<Longrightarrow> A \<subseteq> B \<Longrightarrow> uncrossed A"
  by (auto simp: uncrossed_def)

text \<open>Reducing amounts does not move prices.\<close>

lemma uncrossed_reduce:
  assumes "uncrossed (set m)" and "fst ` F \<subseteq> set m" and "A \<subseteq> set m"
  shows "uncrossed (reduce ` F \<union> A)"
proof -
  have "\<exists>y \<in> set m. eo_type y = eo_type x \<and> eo_token_type y = eo_token_type x \<and> eo_price y = eo_price x"
    if "x \<in> reduce ` F \<union> A" for x
    using that assms(2,3) by (force simp: reduce_def image_subset_iff)
  with assms(1) show ?thesis unfolding uncrossed_def by metis
qed

lemma uncrossed_insert:
  assumes "uncrossed A" and "eo_type od = buy \<or> eo_type od = sell"
    and "\<And>x. x \<in> A \<Longrightarrow> eo_type x = (if eo_type od = buy then sell else buy) \<Longrightarrow>
      eo_token_type x = eo_token_type od \<Longrightarrow>
      (if eo_type od = buy then eo_price od < eo_price x else eo_price x < eo_price od)"
  shows "uncrossed (insert od A)"
  using assms by (auto simp: uncrossed_def split: if_splits)

lemma outside_range:
  assumes "x \<in> set m" and "x \<notin> set (limit_range od m)" and "valid_time x"
    and "eo_type x = (if eo_type od = buy then sell else buy)" and "eo_token_type x = eo_token_type od"
  shows "if eo_type od = buy then eo_price od < eo_price x else eo_price x < eo_price od"
  using assms in_buy_range [OF assms(3)] in_sell_range [OF assms(3)]
  by (auto simp: limit_range_def not_le split: if_splits)

lemma spec_limit_uncrossed:
  assumes "trxids_distinct m" and "uncrossed (set m)" and "\<And>x. x \<in> set m \<Longrightarrow> valid_time x"
    and "eo_type od = buy \<or> eo_type od = sell"
  shows "uncrossed (set (snd (spec_limit (limit_range od m) od m)))"
proof -
  let ?r = "limit_range od m" and ?n = "unat (eo_source_amount od)"
  let ?fs = "fills ?n ?r"
  have ids: "distinct (map fill_id ?fs)" by (rule fills_distinct) (rule limit_range_distinct [OF assms(1)])
  have book': "set (fill_book ?fs m) = reduce ` {f \<in> set ?fs. \<not> is_full f} \<union> {x \<in> set m. eo_trxid x \<notin> fill_id ` set ?fs}"
    using assms(1) ids by (rule set_fill_book)
  have "fst ` {f \<in> set ?fs. \<not> is_full f} \<subseteq> set m"
    using fills_bound limit_range_subset by fastforce
  then have unc: "uncrossed (set (fill_book ?fs m))"
    unfolding book' by (intro uncrossed_reduce [OF assms(2)]) auto
  have insert_ok: "uncrossed (insert od' A)"
    if "A \<subseteq> {x \<in> set m. x \<notin> set ?r}" "eo_type od' = eo_type od" "eo_price od' = eo_price od"
       "eo_token_type od' = eo_token_type od" for od' A
  proof (rule uncrossed_insert)
    show "uncrossed A" using assms(2) that(1) by (auto intro: uncrossed_subset)
    show "if eo_type od' = buy then eo_price od' < eo_price x else eo_price x < eo_price od'"
      if "x \<in> A" "eo_type x = (if eo_type od' = buy then sell else buy)" "eo_token_type x = eo_token_type od'" for x
      using outside_range [of x m od] that \<open>A \<subseteq> {x \<in> set m. x \<notin> set ?r}\<close> assms(3)
        \<open>eo_type od' = eo_type od\<close> \<open>eo_price od' = eo_price od\<close> \<open>eo_token_type od' = eo_token_type od\<close> by auto
  qed (use assms(4) that(2) in simp)
  consider "?r = []" | "?r \<noteq> []" "?n - depth ?r > 0" | "?r \<noteq> []" "?n - depth ?r = 0" by blast
  then show ?thesis
  proof cases
    case 1
    then show ?thesis
      using insert_ok [of "{x \<in> set m. eo_trxid x \<noteq> eo_trxid od}" od]
      by (auto simp: spec_limit_def set_book_put assms(1))
  next
    case 2
    then have "?fs = map (\<lambda>b. (b, amount b)) ?r" by (intro fills_exhausted) simp
    then have "set (fill_book ?fs m) \<subseteq> {x \<in> set m. x \<notin> set ?r}"
      unfolding book' by (auto simp: is_full_def image_iff)
    then have "uncrossed (insert (od\<lparr>eo_token_amount := of_nat (?n - depth ?r)\<rparr>)
        {x \<in> set (fill_book ?fs m). eo_trxid x \<noteq> eo_trxid od})"
      by (intro insert_ok) auto
    with 2 show ?thesis
      by (simp add: spec_limit_def Let_def set_book_put fill_book_distinct [OF assms(1) ids])
  next
    case 3
    with unc show ?thesis by (simp add: spec_limit_def Let_def)
  qed
qed

subsection \<open>Quantities and prices\<close>

lemma fill_amount_small:
  assumes "(b, k) \<in> set (fills n bs)"
  shows "k < 2 ^ LENGTH(256)"
proof -
  have "k \<le> amount b" using fills_bound [OF assms] by blast
  moreover have "amount b < 2 ^ LENGTH(256)" by (rule unsigned_less)
  ultimately show ?thesis by (rule le_less_trans)
qed

lemma limit_result_amount:
  "f \<in> set (fills n bs) \<Longrightarrow> unat (ro_amount (limit_result od p f)) = snd f"
  using fill_amount_small [of "fst f" "snd f" n bs]
  by (simp add: limit_result_def set_data_def unat_of_nat_small)

text \<open>What the results take plus what stays in the book is the order.\<close>

lemma limit_results_total:
  "sum_list (map (\<lambda>r. unat (ro_amount r)) (map (limit_result od p) (fills n bs))) = min n (depth bs)"
proof -
  have "map (\<lambda>r. unat (ro_amount r)) (map (limit_result od p) (fills n bs)) = map snd (fills n bs)"
    by (simp add: limit_result_amount)
  then show ?thesis using fill_total_fills [of n bs] by (simp only: fill_total_def)
qed

definition within_limit :: "ex_order \<Rightarrow> result_order \<Rightarrow> bool" where
  "within_limit od r \<longleftrightarrow> (if eo_type od = buy then ro_price r \<le> eo_price od else eo_price od \<le> ro_price r)"

lemma limit_results_within:
  assumes "\<And>x. x \<in> set m \<Longrightarrow> valid_time x" and "r \<in> set (fst (spec_limit (limit_range od m) od m))"
  shows "within_limit od r"
proof -
  from assms(2) obtain f where f: "f \<in> set (fills (unat (eo_source_amount od)) (limit_range od m))"
      and r: "r = limit_result od (eo_price od) f"
    by (auto simp: spec_limit_def Let_def)
  from f have "fst f \<in> set (limit_range od m)"
    using fills_bound [of "fst f" "snd f"] by simp
  moreover from this have "valid_time (fst f)" using assms(1) limit_range_subset by blast
  ultimately show ?thesis
    using in_buy_range in_sell_range
    by (auto simp: within_limit_def r limit_result_def set_data_def limit_range_def split: if_splits)
qed

end
