(* ===== verification/Operations.thy ===== *)
theory Operations
  imports ExOrder
begin

text \<open>
  libbrcdchain/Transaction.h, namespace \<^verbatim>\<open>transationTool\<close>: the operations a transaction carries.
  A \<^verbatim>\<open>dynamic_pointer_cast\<close> to one of the structures is the function that returns it or \<open>None\<close>.
\<close>

record vote_operation =
  vo_from :: address
  vo_to :: address
  vo_vote_type :: nat
  vo_vote_numbers :: u256

record transcation_operation =
  to_from :: address
  to_to :: address
  to_Transcation_type :: nat
  to_Transcation_numbers :: u256

record changeMiner_operation =
  cm_before :: address
  cm_after :: address

record pendingorder_operation =
  po_from :: address
  po_num :: u256
  po_price :: u256
  po_type :: order_type
  po_Token_type :: order_token_type
  po_buy_type :: order_buy_type

record receivingincome_operation =
  ri_receivingType :: nat
  ri_from :: address

datatype transferAutoExType = NullType | Balancededuction | Transferdeduction

primrec transferAutoEx_code :: "transferAutoExType \<Rightarrow> nat" where
  "transferAutoEx_code NullType = 0"
| "transferAutoEx_code Balancededuction = 1"
| "transferAutoEx_code Transferdeduction = 2"

record transferAutoEx_operation =
  ta_autoExType :: nat
  ta_autoExNum :: u256
  ta_transferNum :: u256
  ta_from :: address
  ta_to :: address

record modifyMinerGasPrice_operation =
  mg_proposer :: address
  mg_proposedAmount :: u256

record dividend_operation =
  di_from :: address
  di_to :: address
  di_dividendNum :: u256

datatype operation =
    Op_vote vote_operation
  | Op_transcation transcation_operation
  | Op_changeMiner changeMiner_operation
  | Op_pendingorder pendingorder_operation
  | Op_cancelPendingorder nat h256
  | Op_contract bytes
  | Op_receivingincome receivingincome_operation
  | Op_transferAutoEx transferAutoEx_operation
  | Op_modifyMinerGasPrice modifyMinerGasPrice_operation
  | Op_dividend dividend_operation

definition as_vote :: "operation \<Rightarrow> vote_operation option" where
  "as_vote op = (case op of Op_vote x \<Rightarrow> Some x | _ \<Rightarrow> None)"

definition as_transcation :: "operation \<Rightarrow> transcation_operation option" where
  "as_transcation op = (case op of Op_transcation x \<Rightarrow> Some x | _ \<Rightarrow> None)"

definition as_changeMiner :: "operation \<Rightarrow> changeMiner_operation option" where
  "as_changeMiner op = (case op of Op_changeMiner x \<Rightarrow> Some x | _ \<Rightarrow> None)"

definition as_pendingorder :: "operation \<Rightarrow> pendingorder_operation option" where
  "as_pendingorder op = (case op of Op_pendingorder x \<Rightarrow> Some x | _ \<Rightarrow> None)"

definition as_cancelPendingorder :: "operation \<Rightarrow> h256 option" where
  "as_cancelPendingorder op = (case op of Op_cancelPendingorder c x \<Rightarrow> Some x | _ \<Rightarrow> None)"

definition as_receivingincome :: "operation \<Rightarrow> receivingincome_operation option" where
  "as_receivingincome op = (case op of Op_receivingincome x \<Rightarrow> Some x | _ \<Rightarrow> None)"

definition as_transferAutoEx :: "operation \<Rightarrow> transferAutoEx_operation option" where
  "as_transferAutoEx op = (case op of Op_transferAutoEx x \<Rightarrow> Some x | _ \<Rightarrow> None)"

definition as_modifyMinerGasPrice :: "operation \<Rightarrow> modifyMinerGasPrice_operation option" where
  "as_modifyMinerGasPrice op = (case op of Op_modifyMinerGasPrice x \<Rightarrow> Some x | _ \<Rightarrow> None)"

end
