(* ===== verification/Rlp.thy ===== *)
theory Rlp
  imports Prelude
begin

text \<open>
  libdevcore/RLP.h and RLP.cpp, with the integer conversions of CommonData.h they use: the
  writer \<^verbatim>\<open>RLPStream\<close> with its stack of open lists, and the reader \<^verbatim>\<open>RLP\<close> over a byte range. The
  tree-shaped specification \<open>encode\<close> says what the writer must produce; the reader is shown to
  give back every part of it.

  Sizes (\<^verbatim>\<open>size_t\<close>) are natural numbers; the one place where the width shows is the upper limit
  the reader puts on a length, which is written out. A \<^verbatim>\<open>bytesConstRef\<close> is the list of its bytes.
\<close>

section \<open>Integers as bytes\<close>

fun bytesRequired :: "nat \<Rightarrow> nat" where
  "bytesRequired i = (if i = 0 then 0 else Suc (bytesRequired (i div 256)))"

declare bytesRequired.simps [simp del]

text \<open>\<^verbatim>\<open>toBigEndian\<close> into \<open>n\<close> bytes, from the last byte to the first.\<close>

primrec toBigEndian :: "nat \<Rightarrow> nat \<Rightarrow> bytes" where
  "toBigEndian 0 v = []"
| "toBigEndian (Suc n) v = toBigEndian n (v div 256) @ [of_nat v]"

definition fromBigEndian :: "bytes \<Rightarrow> nat" where
  "fromBigEndian bs = fold (\<lambda>b ret. ret * 256 + unat b) bs 0"

definition toCompactBigEndian :: "nat \<Rightarrow> bytes" where
  "toCompactBigEndian v = toBigEndian (bytesRequired v) v"

lemma bytesRequired_0 [simp]: "bytesRequired 0 = 0"
  by (simp add: bytesRequired.simps)

lemma bytesRequired_pos: "i \<noteq> 0 \<Longrightarrow> bytesRequired i = Suc (bytesRequired (i div 256))"
  by (subst bytesRequired.simps) simp

lemma bytesRequired_eq_0 [simp]: "bytesRequired i = 0 \<longleftrightarrow> i = 0"
  by (subst bytesRequired.simps) simp

lemma bytesRequired_le: "i < 256 ^ n \<Longrightarrow> bytesRequired i \<le> n"
proof (induction n arbitrary: i)
  case (Suc n)
  then have "i div 256 < 256 ^ n" by (simp add: less_mult_imp_div_less mult.commute)
  with Suc.IH show ?case by (cases "i = 0") (auto simp: bytesRequired_pos)
qed simp

lemma bytesRequired_bound: "i < 256 ^ bytesRequired i"
proof (induction i rule: bytesRequired.induct)
  case (1 i)
  show ?case
  proof (cases "i = 0")
    case False
    with 1 have "i div 256 < 256 ^ bytesRequired (i div 256)" by simp
    then have "i < 256 * 256 ^ bytesRequired (i div 256)" by (simp add: div_less_iff_less_mult mult.commute)
    with False show ?thesis by (simp add: bytesRequired_pos)
  qed simp
qed

lemma length_toBigEndian [simp]: "length (toBigEndian n v) = n"
  by (induction n arbitrary: v) auto

lemma fromBigEndian_Nil [simp]: "fromBigEndian [] = 0"
  by (simp add: fromBigEndian_def)

lemma fromBigEndian_snoc [simp]: "fromBigEndian (bs @ [b]) = fromBigEndian bs * 256 + unat b"
  by (simp add: fromBigEndian_def)

lemma from_toBigEndian: "v < 256 ^ n \<Longrightarrow> fromBigEndian (toBigEndian n v) = v"
proof (induction n arbitrary: v)
  case (Suc n)
  then have "v div 256 < 256 ^ n" by (simp add: less_mult_imp_div_less mult.commute)
  with Suc.IH have "fromBigEndian (toBigEndian n (v div 256)) = v div 256" by blast
  then show ?case by (simp add: unat_of_nat)
qed simp

lemma from_toCompactBigEndian [simp]: "fromBigEndian (toCompactBigEndian v) = v"
  by (simp add: toCompactBigEndian_def from_toBigEndian bytesRequired_bound)

lemma length_toCompactBigEndian [simp]: "length (toCompactBigEndian v) = bytesRequired v"
  by (simp add: toCompactBigEndian_def)

text \<open>A compact encoding has no leading zero.\<close>

lemma hd_toBigEndian:
  "v \<noteq> 0 \<Longrightarrow> toBigEndian (bytesRequired v) v \<noteq> [] \<and> hd (toBigEndian (bytesRequired v) v) \<noteq> 0"
proof (induction v rule: bytesRequired.induct)
  case (1 v)
  show ?case
  proof (cases "v div 256 = 0")
    case True
    with "1.prems" have "v < 256" "bytesRequired v = 1"
      by (simp_all add: bytesRequired_pos)
    with "1.prems" show ?thesis
      by (simp add: word_of_nat_eq_0_iff dvd_imp_le nat_dvd_not_less)
  next
    case False
    have "toBigEndian (bytesRequired v) v = toBigEndian (bytesRequired (v div 256)) (v div 256) @ [of_nat v]"
      using bytesRequired_pos [OF "1.prems"] by simp
    with False "1.IH" "1.prems" show ?thesis by (metis hd_append2 append_is_Nil_conv)
  qed
qed

section \<open>The writer\<close>

text \<open>
  The exceptions. \<open>NoEnumerator\<close> is not one of them: it is the outcome of casting a number to an
  enumeration that has no enumerator for it, a value the enumeration of the model does not have.
\<close>

datatype rlp_error = BadRLP | BadCast | UndersizeRLP | OversizeRLP | RLPException | NoEnumerator

text \<open>The stack of open lists: items still missing, and where the list starts; the back is the head.\<close>

record RLPStream =
  m_out :: bytes
  m_listStack :: "(nat \<times> nat) list"

definition empty_stream :: RLPStream where
  "empty_stream = \<lparr>m_out = [], m_listStack = []\<rparr>"

definition c_rlpDataImmLenStart :: nat where "c_rlpDataImmLenStart = 0x80"
definition c_rlpListStart :: nat where "c_rlpListStart = 0xc0"
definition c_rlpMaxLengthBytes :: nat where "c_rlpMaxLengthBytes = 8"
definition c_rlpDataImmLenCount :: nat where
  "c_rlpDataImmLenCount = c_rlpListStart - c_rlpDataImmLenStart - c_rlpMaxLengthBytes"
definition c_rlpDataIndLenZero :: nat where
  "c_rlpDataIndLenZero = c_rlpDataImmLenStart + c_rlpDataImmLenCount - 1"
definition c_rlpListImmLenCount :: nat where
  "c_rlpListImmLenCount = 256 - c_rlpListStart - c_rlpMaxLengthBytes"
definition c_rlpListIndLenZero :: nat where
  "c_rlpListIndLenZero = c_rlpListStart + c_rlpListImmLenCount - 1"

lemmas rlp_consts = c_rlpDataImmLenStart_def c_rlpListStart_def c_rlpMaxLengthBytes_def
  c_rlpDataImmLenCount_def c_rlpDataIndLenZero_def c_rlpListImmLenCount_def c_rlpListIndLenZero_def

text \<open>
  The loop of \<^verbatim>\<open>noteAppended\<close>: it closes every list that the appended items complete, inserting
  the header at the list's start.
\<close>

fun close_lists :: "nat \<Rightarrow> bytes \<Rightarrow> (nat \<times> nat) list \<Rightarrow> rlp_error + RLPStream" where
  "close_lists itemCount out [] = Inr \<lparr>m_out = out, m_listStack = []\<rparr>"
| "close_lists itemCount out ((missing, p) # stack) =
     (if missing < itemCount then Inl RLPException
      else if missing - itemCount \<noteq> 0 then Inr \<lparr>m_out = out, m_listStack = (missing - itemCount, p) # stack\<rparr>
      else
        (let s = length out - p; brs = bytesRequired s in
         if s < c_rlpListImmLenCount
         then close_lists 1 (take p out @ [of_nat (c_rlpListStart + s)] @ drop p out) stack
         else if c_rlpListIndLenZero + brs \<le> 0xff
         then close_lists 1
           (take p out @ [of_nat (c_rlpListIndLenZero + brs)] @ toBigEndian brs s @ drop p out) stack
         else Inl RLPException))"

definition noteAppended :: "nat \<Rightarrow> RLPStream \<Rightarrow> rlp_error + RLPStream" where
  "noteAppended itemCount st =
     (if itemCount = 0 then Inr st else close_lists itemCount (m_out st) (m_listStack st))"

definition appendRaw :: "bytes \<Rightarrow> nat \<Rightarrow> RLPStream \<Rightarrow> rlp_error + RLPStream" where
  "appendRaw s itemCount st = noteAppended itemCount (st\<lparr>m_out := m_out st @ s\<rparr>)"

definition pushInt :: "nat \<Rightarrow> nat \<Rightarrow> RLPStream \<Rightarrow> RLPStream" where
  "pushInt i br st = st\<lparr>m_out := m_out st @ toBigEndian br i\<rparr>"

definition push_back :: "nat \<Rightarrow> RLPStream \<Rightarrow> RLPStream" where
  "push_back b st = st\<lparr>m_out := m_out st @ [of_nat b]\<rparr>"

definition pushCount :: "nat \<Rightarrow> nat \<Rightarrow> RLPStream \<Rightarrow> rlp_error + RLPStream" where
  "pushCount count base st =
     (let br = bytesRequired count in
      if br + base > 0xff then Inl RLPException
      else Inr (pushInt count br (push_back (br + base) st)))"

definition appendList_bytes :: "bytes \<Rightarrow> RLPStream \<Rightarrow> rlp_error + RLPStream" where
  "appendList_bytes rlp st =
     sbind (if length rlp < c_rlpListImmLenCount then Inr (push_back (length rlp + c_rlpListStart) st)
            else pushCount (length rlp) c_rlpListIndLenZero st)
       (appendRaw rlp 1)"

definition appendList :: "nat \<Rightarrow> RLPStream \<Rightarrow> rlp_error + RLPStream" where
  "appendList items st =
     (if items \<noteq> 0 then Inr (st\<lparr>m_listStack := (items, length (m_out st)) # m_listStack st\<rparr>)
      else appendList_bytes [] st)"

definition append_bytes :: "bytes \<Rightarrow> bool \<Rightarrow> RLPStream \<Rightarrow> rlp_error + RLPStream" where
  "append_bytes bs compact st =
     (let d = (if compact then dropWhile (\<lambda>b. b = 0) bs else bs); s = length d in
      sbind
        (if s = 1 \<and> unat (hd d) < c_rlpDataImmLenStart then Inr (st\<lparr>m_out := m_out st @ [hd d]\<rparr>)
         else sbind
           (if s < c_rlpDataImmLenCount then Inr (push_back (s + c_rlpDataImmLenStart) st)
            else pushCount s c_rlpDataIndLenZero st)
           (appendRaw d 0))
        (noteAppended 1))"

definition append_bigint :: "nat \<Rightarrow> RLPStream \<Rightarrow> rlp_error + RLPStream" where
  "append_bigint i st =
     sbind
       (if i = 0 then Inr (push_back c_rlpDataImmLenStart st)
        else if i < c_rlpDataImmLenStart then Inr (push_back i st)
        else
          (let br = bytesRequired i in
           sbind
             (if br < c_rlpDataImmLenCount then Inr (push_back (br + c_rlpDataImmLenStart) st)
              else
                (let brbr = bytesRequired br in
                 if c_rlpDataIndLenZero + brbr > 0xff then Inl RLPException
                 else Inr (pushInt br brbr (push_back (c_rlpDataIndLenZero + brbr) st))))
             (\<lambda>st. Inr (pushInt i br st))))
       (noteAppended 1)"

text \<open>\<^verbatim>\<open>append(unsigned)\<close>, \<^verbatim>\<open>append(u256)\<close>: the integer goes through \<^verbatim>\<open>bigint\<close>.\<close>

definition append_word :: "'a::len word \<Rightarrow> RLPStream \<Rightarrow> rlp_error + RLPStream" where
  "append_word w = append_bigint (unat w)"

text \<open>\<^verbatim>\<open>append(FixedHash<N>)\<close>: the \<open>n\<close> bytes of the hash.\<close>

definition append_hash :: "nat \<Rightarrow> 'a::len word \<Rightarrow> RLPStream \<Rightarrow> rlp_error + RLPStream" where
  "append_hash n w = append_bytes (toBigEndian n (unat w)) False"

definition stream_out :: "RLPStream \<Rightarrow> rlp_error + bytes" where
  "stream_out st = (if m_listStack st \<noteq> [] then Inl RLPException else Inr (m_out st))"

section \<open>Specification\<close>

datatype rlp_item = RData bytes | RList "rlp_item list"

definition header :: "nat \<Rightarrow> nat \<Rightarrow> bytes" where
  "header start n =
     (if n < 56 then [of_nat (start + n)]
      else of_nat (start + 55 + bytesRequired n) # toCompactBigEndian n)"

fun encode :: "rlp_item \<Rightarrow> bytes" where
  "encode (RData bs) = (if length bs = 1 \<and> unat (hd bs) < 0x80 then bs else header 0x80 (length bs) @ bs)"
| "encode (RList ts) = header 0xc0 (length (concat (map encode ts))) @ concat (map encode ts)"

text \<open>The calls that write an item: a list is opened, then its items are written.\<close>

fun append_item :: "rlp_item \<Rightarrow> RLPStream \<Rightarrow> rlp_error + RLPStream" where
  "append_item (RData bs) st = append_bytes bs False st"
| "append_item (RList ts) st = fold (\<lambda>t r. sbind r (append_item t)) ts (appendList (length ts) st)"

text \<open>Every size that a header writes stays below what the reader accepts.\<close>

definition rlp_fits :: "rlp_item \<Rightarrow> bool" where
  "rlp_fits t \<longleftrightarrow> length (encode t) < 2 ^ 64 - 257"

section \<open>The writer meets the specification\<close>

lemma bytesRequired_size: "n < 2 ^ 64 \<Longrightarrow> bytesRequired n \<le> 8"
  by (rule bytesRequired_le) simp

lemma rlp_fits_data: "rlp_fits (RData bs) \<Longrightarrow> length bs < 2 ^ 64 - 257"
  by (auto simp: rlp_fits_def split: if_splits)

lemma rlp_fits_list: "rlp_fits (RList ts) \<Longrightarrow> length (concat (map encode ts)) < 2 ^ 64 - 257"
  by (auto simp: rlp_fits_def)

lemma length_item_le: "t \<in> set ts \<Longrightarrow> length (encode t) \<le> length (concat (map encode ts))"
  by (induction ts) auto

lemma rlp_fits_item: "rlp_fits (RList ts) \<Longrightarrow> t \<in> set ts \<Longrightarrow> rlp_fits t"
  using rlp_fits_list length_item_le by (fastforce simp: rlp_fits_def)

lemma append_data_encode:
  assumes "rlp_fits (RData bs)"
  shows "append_bytes bs False st = noteAppended 1 (st\<lparr>m_out := m_out st @ encode (RData bs)\<rparr>)"
proof -
  have "bytesRequired (length bs) \<le> 8"
    using rlp_fits_data [OF assms] by (intro bytesRequired_size) simp
  moreover have "length bs = 1 \<Longrightarrow> bs = [hd bs]" by (cases bs) auto
  ultimately show ?thesis
    by (auto simp: append_bytes_def appendRaw_def noteAppended_def [of 0] pushCount_def push_back_def
        pushInt_def header_def toCompactBigEndian_def rlp_consts Let_def add.commute)
qed

lemma append_bigint_encode:
  assumes "i < 2 ^ 256"
  shows "append_bigint i st =
    noteAppended 1 (st\<lparr>m_out := m_out st @ encode (RData (toCompactBigEndian i))\<rparr>)"
proof -
  have br: "bytesRequired i \<le> 32"
    using assms by (intro bytesRequired_le) simp
  show ?thesis
  proof (cases "i < 0x80")
    case True
    then have "bytesRequired i = (if i = 0 then 0 else 1)"
      by (simp add: bytesRequired_pos)
    moreover have "unat (word_of_nat i :: byte) = i" using True by (simp add: unat_of_nat)
    ultimately show ?thesis using True
      by (auto simp: append_bigint_def push_back_def toCompactBigEndian_def header_def rlp_consts)
  next
    case False
    have "\<not> (length (toCompactBigEndian i) = 1 \<and> unat (hd (toCompactBigEndian i)) < 0x80)"
    proof
      assume small: "length (toCompactBigEndian i) = 1 \<and> unat (hd (toCompactBigEndian i)) < 0x80"
      then have "toCompactBigEndian i = [hd (toCompactBigEndian i)]"
        by (cases "toCompactBigEndian i") auto
      then have "i = fromBigEndian [hd (toCompactBigEndian i)]"
        by (metis from_toCompactBigEndian)
      with small False show False by (simp add: fromBigEndian_def)
    qed
    with False br show ?thesis
      by (auto simp: append_bigint_def push_back_def pushInt_def toCompactBigEndian_def header_def
          rlp_consts Let_def add.commute)
  qed
qed

lemma close_list_header:
  assumes "length payload < 2 ^ 64"
  shows "close_lists 1 (out @ payload) ((1, length out) # stack) =
    close_lists 1 (out @ header 0xc0 (length payload) @ payload) stack"
  using bytesRequired_size [OF assms]
  by (simp add: Let_def header_def toCompactBigEndian_def rlp_consts)

lemma append_items_encode:
  assumes "ts \<noteq> []"
    and "\<And>t st. t \<in> set ts \<Longrightarrow> append_item t st = noteAppended 1 (st\<lparr>m_out := m_out st @ encode t\<rparr>)"
  shows "fold (\<lambda>t r. sbind r (append_item t)) ts (Inr \<lparr>m_out = out, m_listStack = (length ts, p) # stack\<rparr>) =
    close_lists 1 (out @ concat (map encode ts)) ((1, p) # stack)"
  using assms
proof (induction ts arbitrary: out)
  case (Cons t ts)
  have first: "append_item t \<lparr>m_out = out, m_listStack = (length (t # ts), p) # stack\<rparr> =
      close_lists 1 (out @ encode t) ((length (t # ts), p) # stack)"
    using Cons.prems(2) [of t] by (simp add: noteAppended_def)
  show ?case
  proof (cases "ts = []")
    case True
    with first show ?thesis by (simp del: close_lists.simps)
  next
    case False
    then have "close_lists 1 (out @ encode t) ((length (t # ts), p) # stack) =
        Inr \<lparr>m_out = out @ encode t, m_listStack = (length ts, p) # stack\<rparr>"
      by simp
    with first False Cons.IH [of "out @ encode t"] Cons.prems(2) show ?thesis
      by (simp del: close_lists.simps)
  qed
qed simp

lemma append_item_encode:
  "rlp_fits t \<Longrightarrow> append_item t st = noteAppended 1 (st\<lparr>m_out := m_out st @ encode t\<rparr>)"
proof (induction t arbitrary: st rule: encode.induct)
  case (1 bs)
  then show ?case by (simp add: append_data_encode del: encode.simps)
next
  case (2 ts)
  have size: "length (concat (map encode ts)) < 2 ^ 64"
    using rlp_fits_list [OF "2.prems"] by simp
  show ?case
  proof (cases "ts = []")
    case True
    then show ?thesis
      by (simp add: appendList_def appendList_bytes_def push_back_def appendRaw_def header_def rlp_consts)
  next
    case False
    have "append_item (RList ts) st = fold (\<lambda>t r. sbind r (append_item t)) ts
        (Inr \<lparr>m_out = m_out st, m_listStack = (length ts, length (m_out st)) # m_listStack st\<rparr>)"
      using False by (cases st) (simp add: appendList_def)
    also have "\<dots> = close_lists 1 (m_out st @ concat (map encode ts)) ((1, length (m_out st)) # m_listStack st)"
      using False "2.IH" rlp_fits_item [OF "2.prems"] by (intro append_items_encode) auto
    also have "\<dots> = noteAppended 1 (st\<lparr>m_out := m_out st @ encode (RList ts)\<rparr>)"
      using close_list_header [OF size] by (simp add: noteAppended_def)
    finally show ?thesis .
  qed
qed

lemma stream_item_out:
  "rlp_fits t \<Longrightarrow> sbind (append_item t empty_stream) stream_out = Inr (encode t)"
  by (simp add: append_item_encode empty_stream_def noteAppended_def stream_out_def)

section \<open>The reader\<close>

record strictness =
  AllowNonCanon :: bool
  ThrowOnFail :: bool
  FailIfTooBig :: bool
  FailIfTooSmall :: bool

definition Strict :: strictness where
  "Strict = \<lparr>AllowNonCanon = False, ThrowOnFail = True, FailIfTooBig = True, FailIfTooSmall = False\<rparr>"

definition VeryStrict :: strictness where
  "VeryStrict = \<lparr>AllowNonCanon = False, ThrowOnFail = True, FailIfTooBig = True, FailIfTooSmall = True\<rparr>"

definition LaissezFaire :: strictness where
  "LaissezFaire = \<lparr>AllowNonCanon = True, ThrowOnFail = False, FailIfTooBig = False, FailIfTooSmall = False\<rparr>"

text \<open>\<^verbatim>\<open>vector_ref::cropped\<close>: a range that is not inside the data is the empty reference.\<close>

definition cropped :: "nat \<Rightarrow> nat \<Rightarrow> bytes \<Rightarrow> bytes" where
  "cropped begin' count d = (if begin' + count \<le> length d then take count (drop begin' d) else [])"

definition cropped_from :: "nat \<Rightarrow> bytes \<Rightarrow> bytes" where
  "cropped_from begin' d = drop begin' d"

definition isNull :: "bytes \<Rightarrow> bool" where "isNull d \<longleftrightarrow> length d = 0"
definition isData :: "bytes \<Rightarrow> bool" where "isData d \<longleftrightarrow> \<not> isNull d \<and> unat (d ! 0) < c_rlpListStart"
definition isList :: "bytes \<Rightarrow> bool" where "isList d \<longleftrightarrow> \<not> isNull d \<and> unat (d ! 0) \<ge> c_rlpListStart"
definition isSingleByte :: "bytes \<Rightarrow> bool" where
  "isSingleByte d \<longleftrightarrow> \<not> isNull d \<and> unat (d ! 0) < c_rlpDataImmLenStart"

definition requireGood :: "bytes \<Rightarrow> rlp_error + unit" where
  "requireGood d =
     (if isNull d then Inl BadRLP
      else if unat (d ! 0) \<noteq> c_rlpDataImmLenStart + 1 then Inr ()
      else if length d < 2 then Inl BadRLP
      else if unat (d ! 1) < c_rlpDataImmLenStart then Inl BadRLP
      else Inr ())"

text \<open>The last test of \<^verbatim>\<open>length\<close>, and the reading of a length of several bytes.\<close>

definition length_in_range :: "nat \<Rightarrow> rlp_error + nat" where
  "length_in_range ret = (if ret \<ge> 2 ^ 64 - 1 - 0x100 then Inl UndersizeRLP else Inr ret)"

definition long_length :: "nat \<Rightarrow> nat \<Rightarrow> bytes \<Rightarrow> rlp_error + nat" where
  "long_length lengthSize limit d =
     (if length d \<le> lengthSize then Inl BadRLP
      else if length d > 1 \<and> d ! 1 = 0 then Inl BadRLP
      else if lengthSize > 8 then Inl UndersizeRLP
      else if d ! 1 = 0 then Inl BadRLP
      else
        (let ret = fromBigEndian (take lengthSize (drop 1 d)) in
         if ret < limit then Inl BadRLP else length_in_range ret))"

definition rlp_length :: "bytes \<Rightarrow> rlp_error + nat" where
  "rlp_length d =
     (if isNull d then Inr 0
      else sbind (requireGood d) (\<lambda>_.
        let n = unat (d ! 0) in
        if n < c_rlpDataImmLenStart then Inr 1
        else if n \<le> c_rlpDataIndLenZero then Inr (n - c_rlpDataImmLenStart)
        else if n < c_rlpListStart then
          long_length (n - c_rlpDataIndLenZero) (c_rlpListStart - c_rlpDataImmLenStart - c_rlpMaxLengthBytes) d
        else if n \<le> c_rlpListIndLenZero then Inr (n - c_rlpListStart)
        else long_length (n - c_rlpListIndLenZero) (0x100 - c_rlpListStart - c_rlpMaxLengthBytes) d))"

definition rlp_lengthSize :: "bytes \<Rightarrow> nat" where
  "rlp_lengthSize d =
     (if isData d \<and> unat (d ! 0) > c_rlpDataIndLenZero then unat (d ! 0) - c_rlpDataIndLenZero
      else if isList d \<and> unat (d ! 0) > c_rlpListIndLenZero then unat (d ! 0) - c_rlpListIndLenZero
      else 0)"

definition payloadOffset :: "bytes \<Rightarrow> nat" where
  "payloadOffset d = (if isSingleByte d then 0 else 1 + rlp_lengthSize d)"

definition payload :: "bytes \<Rightarrow> rlp_error + bytes" where
  "payload d = sbind (rlp_length d) (\<lambda>l.
     if l > length d then Inl BadRLP else Inr (cropped (payloadOffset d) l d))"

definition actualSize :: "bytes \<Rightarrow> rlp_error + nat" where
  "actualSize d =
     (if isNull d then Inr 0
      else if isSingleByte d then Inr 1
      else if isData d \<or> isList d then sbind (rlp_length d) (\<lambda>l. Inr (payloadOffset d + l))
      else Inr 0)"

text \<open>The constructor: the data the node holds, or the exception.\<close>

definition RLP_node :: "strictness \<Rightarrow> bytes \<Rightarrow> rlp_error + bytes" where
  "RLP_node st d =
     sbind
       (if FailIfTooBig st then
          sbind (actualSize d) (\<lambda>n.
            if n < length d then (if ThrowOnFail st then Inl OversizeRLP else Inr []) else Inr d)
        else Inr d) (\<lambda>m.
       if FailIfTooSmall st then
         sbind (actualSize m) (\<lambda>n.
           if n > length d then (if ThrowOnFail st then Inl UndersizeRLP else Inr []) else Inr m)
       else Inr m)"

definition throw_if_small :: strictness where
  "throw_if_small = \<lparr>AllowNonCanon = False, ThrowOnFail = True, FailIfTooBig = False, FailIfTooSmall = True\<rparr>"

definition sizeAsEncoded :: "bytes \<Rightarrow> rlp_error + nat" where
  "sizeAsEncoded d = sbind (RLP_node throw_if_small d) actualSize"

definition isInt :: "bytes \<Rightarrow> rlp_error + bool" where
  "isInt d =
     (if isNull d then Inr False
      else sbind (requireGood d) (\<lambda>_.
        let n = unat (d ! 0) in
        if n < c_rlpDataImmLenStart then Inr (n \<noteq> 0)
        else if n = c_rlpDataImmLenStart then Inr True
        else if n \<le> c_rlpDataIndLenZero then
          (if length d \<le> 1 then Inl BadRLP else Inr (d ! 1 \<noteq> 0))
        else if n < c_rlpListStart then
          (if length d \<le> 1 + n - c_rlpDataIndLenZero then Inl BadRLP
           else Inr (d ! (1 + n - c_rlpDataIndLenZero) \<noteq> 0))
        else Inr False))"

definition toBytes :: "strictness \<Rightarrow> bytes \<Rightarrow> rlp_error + bytes" where
  "toBytes fl d =
     (if \<not> isData d then (if ThrowOnFail fl then Inl BadCast else Inr [])
      else sbind (payload d) (\<lambda>p. sbind (rlp_length d) (\<lambda>l. Inr (take l p))))"

definition toInt :: "strictness \<Rightarrow> bytes \<Rightarrow> rlp_error + 'a::len word" where
  "toInt fl d =
     sbind (requireGood d) (\<lambda>_. sbind (isInt d) (\<lambda>int_d.
       if (\<not> int_d \<and> \<not> AllowNonCanon fl) \<or> isList d \<or> isNull d
       then (if ThrowOnFail fl then Inl BadCast else Inr 0)
       else sbind (payload d) (\<lambda>p.
         if length p > LENGTH('a) div 8 \<and> FailIfTooBig fl
         then (if ThrowOnFail fl then Inl BadCast else Inr 0)
         else Inr (of_nat (fromBigEndian p)))))"

text \<open>
  \<^verbatim>\<open>toHash\<close>: the bytes go to the end of the hash; of a longer payload the first bytes are taken.
\<close>

definition toHash :: "strictness \<Rightarrow> bytes \<Rightarrow> rlp_error + 'a::len word" where
  "toHash fl d =
     sbind (requireGood d) (\<lambda>_. sbind (payload d) (\<lambda>p.
       let l = length p; N = LENGTH('a) div 8 in
       if \<not> isData d \<or> (l > N \<and> FailIfTooBig fl) \<or> (l < N \<and> FailIfTooSmall fl)
       then (if ThrowOnFail fl then Inl BadCast else Inr 0)
       else Inr (of_nat (fromBigEndian (take (min N l) p)))))"

subsection \<open>Lists\<close>

lemma actualSize_pos: "actualSize d = Inr n \<Longrightarrow> d \<noteq> [] \<Longrightarrow> 0 < n"
  by (auto simp: actualSize_def isNull_def isData_def isList_def payloadOffset_def sbind_def
      split: if_splits sum.splits)

lemma sizeAsEncoded_pos: "sizeAsEncoded d = Inr n \<Longrightarrow> d \<noteq> [] \<Longrightarrow> 0 < n"
  by (auto simp: sizeAsEncoded_def RLP_node_def throw_if_small_def sbind_def
      split: if_splits sum.splits intro: actualSize_pos)

function items_loop :: "bytes \<Rightarrow> nat \<Rightarrow> rlp_error + nat" where
  "items_loop d i =
     (if d = [] then Inr i
      else (case sizeAsEncoded d of
              Inl e \<Rightarrow> Inl e
            | Inr n \<Rightarrow> items_loop (cropped_from n d) (i + 1)))"
  by auto
termination
  by (relation "measure (length \<circ> fst)") (auto simp: cropped_from_def dest: sizeAsEncoded_pos)

declare items_loop.simps [simp del]

definition rlp_items :: "bytes \<Rightarrow> rlp_error + nat" where
  "rlp_items d = (if isList d then sbind (payload d) (\<lambda>p. items_loop p 0) else Inr 0)"

text \<open>A node with the cache of \<^verbatim>\<open>operator[]\<close>; a fresh node has the index \<^verbatim>\<open>(size_t)-1\<close>.\<close>

record rlp_node =
  m_data :: bytes
  m_lastIndex :: nat
  m_lastEnd :: nat
  m_lastItem :: bytes

definition fresh_node :: "bytes \<Rightarrow> rlp_node" where
  "fresh_node d = \<lparr>m_data = d, m_lastIndex = 2 ^ 64 - 1, m_lastEnd = 0, m_lastItem = []\<rparr>"

text \<open>The loop of \<^verbatim>\<open>operator[]\<close>, by the number of steps left.\<close>

primrec subscript_loop :: "nat \<Rightarrow> bytes \<Rightarrow> rlp_node \<Rightarrow> rlp_error + rlp_node" where
  "subscript_loop 0 pl nd = Inr nd"
| "subscript_loop (Suc k) pl nd =
     (if length (m_lastItem nd) = 0 then Inr nd
      else
        (let rest = cropped_from (m_lastEnd nd) pl in
         sbind (sizeAsEncoded rest) (\<lambda>n.
           let item = cropped 0 n rest in
           subscript_loop k pl
             (nd\<lparr>m_lastItem := item, m_lastEnd := m_lastEnd nd + length item, m_lastIndex := m_lastIndex nd + 1\<rparr>))))"

definition subscript_start :: "nat \<Rightarrow> rlp_node \<Rightarrow> rlp_error + rlp_node" where
  "subscript_start i nd =
     (if i < m_lastIndex nd then
        sbind (payload (m_data nd)) (\<lambda>pl. sbind (sizeAsEncoded pl) (\<lambda>e.
          Inr (nd\<lparr>m_lastEnd := e, m_lastItem := cropped 0 e pl, m_lastIndex := 0\<rparr>)))
      else Inr nd)"

definition subscript :: "nat \<Rightarrow> rlp_node \<Rightarrow> rlp_error + (bytes \<times> rlp_node)" where
  "subscript i nd =
     sbind (subscript_start i nd) (\<lambda>nd.
     sbind
       (if m_lastIndex nd < i \<and> length (m_lastItem nd) \<noteq> 0
        then sbind (payload (m_data nd)) (\<lambda>pl. subscript_loop (i - m_lastIndex nd) pl nd)
        else Inr nd) (\<lambda>nd.
     sbind (RLP_node throw_if_small (m_lastItem nd)) (\<lambda>d. Inr (d, nd))))"

section \<open>Reading back what was written\<close>

lemma unat_byte: "n < 256 \<Longrightarrow> unat (word_of_nat n :: byte) = n"
  by (simp add: unat_of_nat)

lemma long_length_header:
  assumes "56 \<le> n" and "n < 2 ^ 64 - 257" and "limit \<le> 56"
  shows "long_length (bytesRequired n) limit ((b # toCompactBigEndian n) @ rest) = Inr n"
proof -
  have br: "bytesRequired n \<le> 8" "bytesRequired n \<noteq> 0"
    using assms(1,2) by (auto intro: bytesRequired_size)
  from assms(1) have "toCompactBigEndian n \<noteq> [] \<and> hd (toCompactBigEndian n) \<noteq> 0"
    unfolding toCompactBigEndian_def by (intro hd_toBigEndian) simp
  then have nz: "(toCompactBigEndian n @ rest) ! 0 \<noteq> 0"
    by (cases "toCompactBigEndian n") auto
  have "length ((b # toCompactBigEndian n) @ rest) > bytesRequired n" by simp
  moreover have "take (bytesRequired n) (drop 1 ((b # toCompactBigEndian n) @ rest)) = toCompactBigEndian n"
    by simp
  ultimately show ?thesis
    using nz br assms by (simp add: long_length_def Let_def length_in_range_def)
qed

text \<open>The three header shapes: a byte that stands for itself, a short header, a long header.\<close>

lemma rlp_length_header_data:
  assumes "n < 2 ^ 64 - 257" and "n = 1 \<Longrightarrow> rest \<noteq> [] \<and> 0x80 \<le> unat (hd rest)"
  shows "rlp_length (header 0x80 n @ rest) = Inr n \<and> payloadOffset (header 0x80 n @ rest) = length (header 0x80 n)"
proof (cases "n < 56")
  case True
  then have b: "unat (0x80 + word_of_nat n :: byte) = 0x80 + n"
    using unat_byte [of "0x80 + n"] by simp
  with True assms(2) have "requireGood (header 0x80 n @ rest) = Inr ()"
    by (cases rest) (auto simp: requireGood_def header_def isNull_def rlp_consts)
  with True b show ?thesis
    by (simp add: rlp_length_def header_def isNull_def isSingleByte_def isData_def isList_def
        payloadOffset_def rlp_lengthSize_def rlp_consts unat_byte)
next
  case False
  then have br: "bytesRequired n \<le> 8" "bytesRequired n \<noteq> 0"
    using assms(1) by (auto intro: bytesRequired_size)
  then have b: "unat (word_of_nat (0x80 + 55 + bytesRequired n) :: byte) = 0xb7 + bytesRequired n"
    using unat_byte [of "0xb7 + bytesRequired n"] by simp
  with br have "requireGood (header 0x80 n @ rest) = Inr ()"
    using False by (simp add: requireGood_def header_def isNull_def rlp_consts)
  with False b br long_length_header [of n 56 _ rest] assms(1) show ?thesis
    by (simp add: rlp_length_def header_def isNull_def isSingleByte_def isData_def isList_def
        payloadOffset_def rlp_lengthSize_def rlp_consts)
qed

lemma rlp_length_header_list:
  assumes "n < 2 ^ 64 - 257"
  shows "rlp_length (header 0xc0 n @ rest) = Inr n \<and> payloadOffset (header 0xc0 n @ rest) = length (header 0xc0 n)"
proof (cases "n < 56")
  case True
  then have b: "unat (0xc0 + word_of_nat n :: byte) = 0xc0 + n"
    using unat_byte [of "0xc0 + n"] by simp
  with True have "requireGood (header 0xc0 n @ rest) = Inr ()"
    by (auto simp: requireGood_def header_def isNull_def rlp_consts)
  with True b show ?thesis
    by (simp add: rlp_length_def header_def isNull_def isSingleByte_def isData_def isList_def
        payloadOffset_def rlp_lengthSize_def rlp_consts unat_byte)
next
  case False
  then have br: "bytesRequired n \<le> 8" "bytesRequired n \<noteq> 0"
    using assms by (auto intro: bytesRequired_size)
  then have b: "unat (word_of_nat (0xc0 + 55 + bytesRequired n) :: byte) = 0xf7 + bytesRequired n"
    using unat_byte [of "0xf7 + bytesRequired n"] by simp
  with br have "requireGood (header 0xc0 n @ rest) = Inr ()"
    using False by (simp add: requireGood_def header_def isNull_def rlp_consts)
  with False b br long_length_header [of n 56 _ rest] assms show ?thesis
    by (simp add: rlp_length_def header_def isNull_def isSingleByte_def isData_def isList_def
        payloadOffset_def rlp_lengthSize_def rlp_consts)
qed

primrec item_payload :: "rlp_item \<Rightarrow> bytes" where
  "item_payload (RData bs) = bs"
| "item_payload (RList ts) = concat (map encode ts)"

lemma header_not_Nil [simp]: "header start n \<noteq> []"
  by (simp add: header_def)

lemma encode_not_Nil [simp]: "encode t \<noteq> []"
  by (cases t) auto

lemma isList_header: "n < 2 ^ 64 \<Longrightarrow> isList (header 0xc0 n @ rest)"
proof -
  assume "n < 2 ^ 64"
  then have "bytesRequired n \<le> 8" by (rule bytesRequired_size)
  then have "unat (0xf7 + word_of_nat (bytesRequired n) :: byte) = 0xf7 + bytesRequired n"
    using unat_byte [of "0xf7 + bytesRequired n"] by simp
  moreover have "n < 56 \<Longrightarrow> unat (0xc0 + word_of_nat n :: byte) = 0xc0 + n"
    using unat_byte [of "0xc0 + n"] by simp
  ultimately show ?thesis by (simp add: isList_def isNull_def header_def rlp_consts)
qed

lemma header_data_byte:
  assumes "n < 2 ^ 64"
  shows "0x80 \<le> unat (header 0x80 n ! 0) \<and> unat (header 0x80 n ! 0) < 0xc0"
proof -
  from assms have "bytesRequired n \<le> 8" by (rule bytesRequired_size)
  then have "unat (0xb7 + word_of_nat (bytesRequired n) :: byte) = 0xb7 + bytesRequired n"
    using unat_byte [of "0xb7 + bytesRequired n"] by simp
  moreover have "n < 56 \<Longrightarrow> unat (0x80 + word_of_nat n :: byte) = 0x80 + n"
    using unat_byte [of "0x80 + n"] by simp
  ultimately show ?thesis
    using \<open>bytesRequired n \<le> 8\<close> by (simp add: header_def)
qed

lemma cropped_append: "cropped (length h) (length p) (h @ p @ r) = p"
  by (simp add: cropped_def)

text \<open>What the reader sees of an encoded item that other bytes may follow.\<close>

lemma read_data:
  assumes "rlp_fits (RData bs)"
  shows "isData (encode (RData bs) @ rest)"
    and "rlp_length (encode (RData bs) @ rest) = Inr (length bs)"
    and "actualSize (encode (RData bs) @ rest) = Inr (length (encode (RData bs)))"
    and "payload (encode (RData bs) @ rest) = Inr bs"
proof -
  let ?d = "encode (RData bs) @ rest"
  have size: "length bs < 2 ^ 64 - 257" using assms by (rule rlp_fits_data)
  have "isData ?d \<and> rlp_length ?d = Inr (length bs) \<and>
      actualSize ?d = Inr (length (encode (RData bs))) \<and> payload ?d = Inr bs"
  proof (cases "length bs = 1 \<and> unat (hd bs) < 0x80")
    case True
    then obtain b where "bs = [b]" "unat b < 0x80" by (cases bs) auto
    then show ?thesis
      by (simp add: rlp_length_def payload_def actualSize_def isNull_def isData_def isSingleByte_def
          requireGood_def payloadOffset_def cropped_def rlp_consts)
  next
    case False
    then have enc: "?d = header 0x80 (length bs) @ (bs @ rest)" by simp
    have len: "rlp_length ?d = Inr (length bs)" "payloadOffset ?d = length (header 0x80 (length bs))"
      using rlp_length_header_data [OF size, of "bs @ rest"] False enc by (cases bs; auto)+
    have "?d ! 0 = header 0x80 (length bs) ! 0" unfolding enc by (simp add: nth_append)
    moreover have "0x80 \<le> unat (header 0x80 (length bs) ! 0) \<and> unat (header 0x80 (length bs) ! 0) < 0xc0"
      using size by (intro header_data_byte) simp
    ultimately have "isData ?d" "\<not> isSingleByte ?d"
      by (auto simp: isData_def isSingleByte_def isNull_def rlp_consts)
    with len False show ?thesis
      by (auto simp: actualSize_def payload_def cropped_def isData_def)
  qed
  then show "isData ?d" "rlp_length ?d = Inr (length bs)"
    "actualSize ?d = Inr (length (encode (RData bs)))" "payload ?d = Inr bs" by blast+
qed

lemma read_list:
  assumes "rlp_fits (RList ts)"
  shows "isList (encode (RList ts) @ rest)"
    and "actualSize (encode (RList ts) @ rest) = Inr (length (encode (RList ts)))"
    and "payload (encode (RList ts) @ rest) = Inr (concat (map encode ts))"
proof -
  let ?d = "encode (RList ts) @ rest" and ?p = "concat (map encode ts)"
  have size: "length ?p < 2 ^ 64 - 257" using assms by (rule rlp_fits_list)
  have enc: "?d = header 0xc0 (length ?p) @ (?p @ rest)" by simp
  show list: "isList ?d" unfolding enc using size by (intro isList_header) simp
  have len: "rlp_length ?d = Inr (length ?p)" "payloadOffset ?d = length (header 0xc0 (length ?p))"
    using rlp_length_header_list [OF size, of "?p @ rest"] unfolding enc by auto
  show "actualSize ?d = Inr (length (encode (RList ts)))"
    using list len by (auto simp: actualSize_def isList_def isSingleByte_def rlp_consts)
  have "cropped (payloadOffset ?d) (length ?p) ?d = ?p"
    unfolding len(2) unfolding enc by (rule cropped_append)
  moreover have "\<not> length ?p > length ?d" unfolding enc by simp
  ultimately show "payload ?d = Inr ?p"
    using len(1) by (simp only: payload_def sbind_Inr if_False)
qed

lemma actualSize_encode: "rlp_fits t \<Longrightarrow> actualSize (encode t @ rest) = Inr (length (encode t))"
  using read_data(3) read_list(2) by (cases t) auto

lemma sizeAsEncoded_encode: "rlp_fits t \<Longrightarrow> sizeAsEncoded (encode t @ rest) = Inr (length (encode t))"
  by (simp add: sizeAsEncoded_def RLP_node_def throw_if_small_def actualSize_encode)

lemma RLP_node_encode: "rlp_fits t \<Longrightarrow> RLP_node st (encode t) = Inr (encode t)"
  using actualSize_encode [of t "[]"] by (simp add: RLP_node_def)

lemma toBytes_encode: "rlp_fits (RData bs) \<Longrightarrow> toBytes fl (encode (RData bs)) = Inr bs"
  using read_data [of bs "[]"] by (simp add: toBytes_def del: encode.simps)

lemma items_loop_encode:
  assumes "\<And>t. t \<in> set ts \<Longrightarrow> rlp_fits t"
  shows "items_loop (concat (map encode ts)) i = Inr (i + length ts)"
  using assms
proof (induction ts arbitrary: i)
  case (Cons t ts)
  then show ?case
    by (subst items_loop.simps) (simp add: sizeAsEncoded_encode cropped_from_def)
qed (simp add: items_loop.simps)

lemma rlp_items_encode:
  assumes "rlp_fits (RList ts)"
  shows "rlp_items (encode (RList ts)) = Inr (length ts)"
  using read_list [OF assms, of "[]"] items_loop_encode [of ts 0] rlp_fits_item [OF assms]
  by (simp add: rlp_items_def del: encode.simps)

subsection \<open>The index cache is transparent\<close>

text \<open>
  A valid cache holds either nothing or the item at its index and where that item ends.
\<close>

definition at_index :: "rlp_item list \<Rightarrow> nat \<Rightarrow> rlp_node \<Rightarrow> bool" where
  "at_index ts j nd \<longleftrightarrow>
     m_data nd = encode (RList ts) \<and> j < length ts \<and> m_lastIndex nd = j \<and>
     m_lastItem nd = encode (ts ! j) \<and> m_lastEnd nd = length (concat (map encode (take (Suc j) ts)))"

definition cache_ok :: "rlp_item list \<Rightarrow> rlp_node \<Rightarrow> bool" where
  "cache_ok ts nd \<longleftrightarrow> nd = fresh_node (encode (RList ts)) \<or> (\<exists>j. at_index ts j nd)"

lemma length_ts_le: "length ts \<le> length (concat (map encode ts))"
proof (induction ts)
  case (Cons t ts)
  have "0 < length (encode t)" by simp
  with Cons.IH show ?case by (simp only: list.map concat.simps length_append list.size)
qed simp

lemma drop_encoded_items:
  assumes "j < length ts"
  shows "drop (length (concat (map encode (take j ts)))) (concat (map encode ts)) =
    encode (ts ! j) @ concat (map encode (drop (Suc j) ts))"
proof -
  have "concat (map encode ts) =
      concat (map encode (take j ts)) @ encode (ts ! j) @ concat (map encode (drop (Suc j) ts))"
    by (metis assms concat.simps(2) concat_append id_take_nth_drop list.simps(9) map_append)
  then show ?thesis by simp
qed

lemma subscript_loop_encode:
  assumes "at_index ts j nd" and "j + k < length ts" and "rlp_fits (RList ts)"
  shows "\<exists>nd'. subscript_loop k (concat (map encode ts)) nd = Inr nd' \<and> at_index ts (j + k) nd'"
  using assms(1,2)
proof (induction k arbitrary: j nd)
  case (Suc k)
  let ?pl = "concat (map encode ts)"
  from Suc.prems have j: "Suc j < length ts" and nonempty: "length (m_lastItem nd) \<noteq> 0"
    and lastEnd: "m_lastEnd nd = length (concat (map encode (take (Suc j) ts)))"
    by (auto simp: at_index_def)
  have rest: "cropped_from (m_lastEnd nd) ?pl = encode (ts ! Suc j) @ concat (map encode (drop (Suc (Suc j)) ts))"
    unfolding lastEnd cropped_from_def using j by (rule drop_encoded_items)
  have fits: "rlp_fits (ts ! Suc j)" using assms(3) j by (auto intro: rlp_fits_item)
  let ?nd = "nd\<lparr>m_lastItem := encode (ts ! Suc j), m_lastEnd := m_lastEnd nd + length (encode (ts ! Suc j)),
      m_lastIndex := m_lastIndex nd + 1\<rparr>"
  have "subscript_loop (Suc k) ?pl nd = subscript_loop k ?pl ?nd"
    using nonempty rest sizeAsEncoded_encode [OF fits] by (simp add: cropped_def Let_def)
  moreover have "at_index ts (Suc j) ?nd"
    using Suc.prems(1) j by (simp add: at_index_def take_Suc_conv_app_nth)
  ultimately show ?case using Suc.IH [of "Suc j" ?nd] Suc.prems(2) by simp
qed auto

lemma subscript_restart:
  assumes "ts \<noteq> []" and "rlp_fits (RList ts)"
  shows "sizeAsEncoded (concat (map encode ts)) = Inr (length (encode (ts ! 0)))"
    and "cropped 0 (length (encode (ts ! 0))) (concat (map encode ts)) = encode (ts ! 0)"
  using assms sizeAsEncoded_encode rlp_fits_item [OF assms(2)]
  by (cases ts; auto simp: cropped_def)+

lemma subscript_start_encode:
  assumes "cache_ok ts nd" and "i < length ts" and "rlp_fits (RList ts)"
  shows "\<exists>f j. subscript_start i nd = Inr f \<and> at_index ts j f \<and> j \<le> i"
proof (cases "i < m_lastIndex nd")
  case True
  have ts: "ts \<noteq> []" using assms(2) by auto
  have data: "m_data nd = encode (RList ts)"
    using assms(1) by (auto simp: cache_ok_def fresh_node_def at_index_def)
  have pl: "payload (m_data nd) = Inr (concat (map encode ts))"
    using read_list(3) [OF assms(3), of "[]"] unfolding data by simp
  let ?f = "nd\<lparr>m_lastEnd := length (encode (ts ! 0)), m_lastItem := encode (ts ! 0), m_lastIndex := 0\<rparr>"
  have "subscript_start i nd = Inr ?f"
    using True pl subscript_restart [OF ts assms(3)] by (simp add: subscript_start_def)
  moreover have "at_index ts 0 ?f"
    using ts data by (cases ts) (auto simp: at_index_def)
  ultimately show ?thesis by blast
next
  case False
  have "length ts < 2 ^ 64 - 1"
    using length_ts_le [of ts] rlp_fits_list [OF assms(3)] by simp
  with False assms(2) have "nd \<noteq> fresh_node (encode (RList ts))"
    by (auto simp: fresh_node_def)
  then obtain j where "at_index ts j nd" using assms(1) by (auto simp: cache_ok_def)
  moreover from this False have "j \<le> i" by (simp add: at_index_def)
  ultimately show ?thesis using False by (auto simp: subscript_start_def)
qed

lemma subscript_cache_ok:
  assumes "cache_ok ts nd" and "i < length ts" and "rlp_fits (RList ts)"
  shows "\<exists>nd'. subscript i nd = Inr (encode (ts ! i), nd') \<and> cache_ok ts nd'"
proof -
  obtain f j where f: "subscript_start i nd = Inr f" "at_index ts j f" "j \<le> i"
    using subscript_start_encode [OF assms] by blast
  then have keep: "m_data f = encode (RList ts)" "m_lastItem f \<noteq> []" "m_lastIndex f = j"
    by (simp_all only: at_index_def encode_not_Nil not_False_eq_True)
  have pl: "payload (m_data f) = Inr (concat (map encode ts))"
    using read_list(3) [OF assms(3), of "[]"] unfolding keep(1) by simp
  obtain nd' where nd': "subscript_loop (i - j) (concat (map encode ts)) f = Inr nd'" "at_index ts i nd'"
    using subscript_loop_encode [OF f(2), of "i - j"] f(3) assms(2,3) by auto
  then have item: "m_lastItem nd' = encode (ts ! i)" by (simp add: at_index_def)
  have "RLP_node throw_if_small (encode (ts ! i)) = Inr (encode (ts ! i))"
    using assms(2,3) by (intro RLP_node_encode) (auto intro: rlp_fits_item)
  then have "subscript i nd = Inr (encode (ts ! i), nd')"
    using f nd' pl keep item by (cases "j < i") (auto simp: subscript_def)
  with nd'(2) show ?thesis by (auto simp: cache_ok_def)
qed

subsection \<open>Integers and hashes\<close>

lemma rlp_fits_short: "length bs \<le> 32 \<Longrightarrow> rlp_fits (RData bs)"
  by (simp add: rlp_fits_def header_def)

lemma compact_length_le: "i < 2 ^ 256 \<Longrightarrow> length (toCompactBigEndian i) \<le> 32"
  by (simp add: bytesRequired_le)

lemma requireGood_encode:
  assumes "length bs \<le> 32"
  shows "requireGood (encode (RData bs)) = Inr ()"
proof (cases "length bs = 1 \<and> unat (hd bs) < 0x80")
  case True
  then show ?thesis by (cases bs) (auto simp: requireGood_def isNull_def rlp_consts)
next
  case False
  have "unat (0x80 + word_of_nat (length bs) :: byte) = 0x80 + length bs"
    using assms unat_byte [of "0x80 + length bs"] by simp
  with False assms show ?thesis
    by (cases bs) (auto simp: requireGood_def isNull_def rlp_consts header_def)
qed

lemma isInt_compact:
  assumes "i < 2 ^ 256"
  shows "isInt (encode (RData (toCompactBigEndian i))) = Inr True"
proof -
  let ?b = "toCompactBigEndian i"
  have len: "length ?b \<le> 32" using assms by (rule compact_length_le)
  have hd_nz: "i \<noteq> 0 \<Longrightarrow> ?b \<noteq> [] \<and> hd ?b \<noteq> 0"
    unfolding toCompactBigEndian_def by (rule hd_toBigEndian)
  have good: "requireGood (encode (RData ?b)) = Inr ()" using len by (rule requireGood_encode)
  have u: "unat (0x80 + word_of_nat (length ?b) :: byte) = 0x80 + length ?b"
    using len unat_byte [of "0x80 + length ?b"] by simp
  show ?thesis
  proof (cases "length ?b = 1 \<and> unat (hd ?b) < 0x80")
    case True
    then have "i \<noteq> 0" by (cases "i = 0") (auto simp: toCompactBigEndian_def)
    with True good hd_nz show ?thesis
      by (cases ?b) (auto simp: isInt_def isNull_def rlp_consts unat_eq_zero)
  next
    case False
    then have "encode (RData ?b) = (0x80 + word_of_nat (length ?b)) # ?b"
      using len by (simp add: header_def)
    moreover have "i = 0 \<Longrightarrow> ?b = []" by (simp add: toCompactBigEndian_def)
    ultimately show ?thesis
      using good u len hd_nz by (cases "i = 0"; cases ?b) (auto simp: isInt_def isNull_def rlp_consts)
  qed
qed

lemma toInt_encode:
  fixes w :: "'a::len word"
  assumes "LENGTH('a) \<le> 256" and "8 dvd LENGTH('a)"
  shows "toInt fl (encode (RData (toCompactBigEndian (unat w)))) = Inr w"
proof -
  let ?b = "toCompactBigEndian (unat w)"
  have "unat w < 2 ^ LENGTH('a)" by (rule unsigned_less)
  moreover have "(2::nat) ^ LENGTH('a) \<le> 2 ^ 256" using assms(1) by (intro power_increasing) auto
  ultimately have bound: "unat w < 2 ^ 256" by (rule less_le_trans)
  then have len: "length ?b \<le> 32" by (rule compact_length_le)
  then have fits: "rlp_fits (RData ?b)" by (rule rlp_fits_short)
  obtain n where n: "LENGTH('a) = 8 * n" using assms(2) by blast
  have "unat w < 256 ^ n"
    using \<open>unat w < 2 ^ LENGTH('a)\<close> by (simp add: n power_mult)
  then have "length ?b \<le> LENGTH('a) div 8"
    by (simp add: n bytesRequired_le)
  moreover have "isData (encode (RData ?b))" "payload (encode (RData ?b)) = Inr ?b"
    using read_data [OF fits, of "[]"] by (simp_all del: encode.simps)
  ultimately show ?thesis
    using requireGood_encode [OF len] isInt_compact [OF bound]
    by (simp add: toInt_def isList_def isData_def isNull_def del: encode.simps)
qed

lemma toHash_encode:
  fixes w :: "'a::len word"
  assumes "LENGTH('a) = 8 * n" and "n \<le> 32"
  shows "toHash fl (encode (RData (toBigEndian n (unat w)))) = Inr w"
proof -
  let ?b = "toBigEndian n (unat w)"
  have len: "length ?b \<le> 32" using assms(2) by simp
  then have fits: "rlp_fits (RData ?b)" by (rule rlp_fits_short)
  have "unat w < 256 ^ n"
    using unsigned_less [of w] by (simp add: assms(1) power_mult)
  then have "fromBigEndian ?b = unat w" by (rule from_toBigEndian)
  moreover have "isData (encode (RData ?b))" "payload (encode (RData ?b)) = Inr ?b"
    using read_data [OF fits, of "[]"] by (simp_all del: encode.simps)
  ultimately show ?thesis
    using requireGood_encode [OF len] assms(1) by (simp add: toHash_def Let_def del: encode.simps)
qed

end
