(* ===== verification/Exchange.thy ===== *)
theory Exchange
  imports Matching Operations Rlp
begin

text \<open>
  The exchange members of State.cpp: placing orders (\<^verbatim>\<open>pendingOrders\<close>), the transfers of a match
  (\<^verbatim>\<open>pendingOrderTransfer\<close>), the system's own orders (\<^verbatim>\<open>systemAutoPendingOrder\<close>), cancellation,
  freezing, and the automatic exchange of a transfer.

  \<open>sha3\<close> is the hash function of libdevcore. The recursion of \<^verbatim>\<open>systemAutoPendingOrder\<close> has a fuel
  argument; running out of it is the outcome \<open>NonTermination\<close>.
\<close>

section \<open>Transfers\<close>

definition pendingOrderTransfer ::
    "address \<Rightarrow> address \<Rightarrow> u256 \<Rightarrow> u256 \<Rightarrow> order_type \<Rightarrow> order_token_type \<Rightarrow> order_buy_type \<Rightarrow> unit st" where
  "pendingOrderTransfer fromAddr toAddr num price type token buyType =
     (if type = buy \<and> token = TK_FUEL \<and> (buyType = only_price \<or> buyType = all_price) then
        (let fromFee = (if fromAddr \<noteq> systemAddress then num div MATCHINGFEERATIO else 0);
             toFee = (if toAddr \<noteq> systemAddress then (num * price div PRICEPRECISION) div MATCHINGFEERATIO else 0)
         in eseq [
           subBRC fromAddr (price * num div PRICEPRECISION),
           addBRC toAddr (price * num div PRICEPRECISION - toFee),
           subFBalance toAddr num,
           addBalance fromAddr (num - fromFee),
           addBRC PdSystemAddress toFee,
           addBalance PdSystemAddress fromFee])
      else if type = sell \<and> token = TK_FUEL \<and> (buyType = only_price \<or> buyType = all_price) then
        (let fromFee = (if fromAddr \<noteq> systemAddress then (num * price div PRICEPRECISION) div MATCHINGFEERATIO else 0);
             toFee = (if toAddr \<noteq> systemAddress then num div MATCHINGFEERATIO else 0)
         in eseq [
           subBalance fromAddr num,
           addBalance toAddr (num - toFee),
           subFBRC toAddr (num * price div PRICEPRECISION),
           addBRC fromAddr (num * price div PRICEPRECISION - fromFee),
           addBRC PdSystemAddress fromFee,
           addBalance PdSystemAddress toFee])
      else ereturn ())"

definition freezeBRC :: "address \<Rightarrow> u256 \<Rightarrow> unit st" where
  "freezeBRC addr v = eseq [subBRC addr v, addFBRC addr v]"

definition freezeBalance :: "address \<Rightarrow> u256 \<Rightarrow> unit st" where
  "freezeBalance addr v = eseq [subBalance addr v, addFBalance addr v]"

definition freezeAmount ::
    "address \<Rightarrow> u256 \<Rightarrow> u256 \<Rightarrow> order_type \<Rightarrow> order_token_type \<Rightarrow> order_buy_type \<Rightarrow> unit st" where
  "freezeAmount addr num price type token buyType =
     (if type = buy \<and> token = TK_BRC \<and> buyType = only_price then freezeBRC addr (num * price)
      else if type = buy \<and> token = TK_BRC \<and> buyType = all_price then freezeBRC addr price
      else if type = buy \<and> token = TK_FUEL \<and> buyType = only_price then freezeBalance addr (num * price)
      else if type = buy \<and> token = TK_FUEL \<and> buyType = all_price then freezeBalance addr price
      else if type = sell \<and> token = TK_BRC \<and> (buyType = only_price \<or> buyType = all_price)
      then freezeBRC addr num
      else if type = sell \<and> token = TK_FUEL \<and> (buyType = only_price \<or> buyType = all_price)
      then freezeBalance addr num
      else ereturn ())"

definition transfer_result :: "result_order \<Rightarrow> unit st" where
  "transfer_result r =
     pendingOrderTransfer (ro_sender r) (ro_acceptor r) (ro_amount r) (ro_price r) (ro_type r)
       (ro_token_type r) (ro_buy_type r)"

section \<open>The orders of the system\<close>

text \<open>\<^verbatim>\<open>std::set<order_type>\<close>, iterated in the order of the enumeration.\<close>

definition type_emplace :: "order_type \<Rightarrow> order_type list \<Rightarrow> order_type list" where
  "type_emplace t ts = (if t \<in> set ts then ts else insort_key order_type_code t ts)"

text \<open>
  The hash of a system order. The time and the size of the book go through
  \<^verbatim>\<open>RLPStream::append(unsigned)\<close> and keep 32 bits.
\<close>

definition auto_trHash :: "(bytes \<Rightarrow> h256) \<Rightarrow> time_ms \<Rightarrow> nat \<Rightarrow> u256 \<Rightarrow> rlp_error + h256" where
  "auto_trHash sha3 nowTime n num =
     sbind (appendList 3 empty_stream) (\<lambda>st.
     sbind (append_word (of_int nowTime :: 32 word) st) (\<lambda>st.
     sbind (append_word (of_nat n :: 32 word) st) (\<lambda>st.
     sbind (append_word num st) (\<lambda>st.
     sbind (stream_out st) (\<lambda>out. Inr (sha3 out))))))"

definition auto_order :: "(bytes \<Rightarrow> h256) \<Rightarrow> time_ms \<Rightarrow> order_type \<Rightarrow> u256 \<Rightarrow> u256 \<Rightarrow> ex_order st" where
  "auto_order sha3 nowTime type price num =
     ebind (get_account ExdbSystemAddress) (\<lambda>r. case r of
       None \<Rightarrow> ethrow UndefinedBehaviour
     | Some a \<Rightarrow> (case auto_trHash sha3 nowTime (length (m_exChangeOrder a)) num of
         Inl _ \<Rightarrow> ethrow RlpFailure
       | Inr h \<Rightarrow> ereturn \<lparr>eo_trxid = h, eo_sender = systemAddress, eo_price = price,
           eo_token_amount = num, eo_source_amount = num, eo_create_time = nowTime, eo_type = type,
           eo_token_type = TK_FUEL, eo_buy_type = only_price\<rparr>))"

text \<open>The first loop; \<open>None\<close> is the early return when the system has too little of an amount.\<close>

fun auto_collect ::
    "(bytes \<Rightarrow> h256) \<Rightarrow> time_ms \<Rightarrow> order_type list \<Rightarrow> ex_order list \<Rightarrow> u256 \<Rightarrow> u256 \<Rightarrow>
     (ex_order list \<times> u256 \<times> u256) option st" where
  "auto_collect sha3 nowTime [] v needBrc needCookie = ereturn (Some (v, needBrc, needCookie))"
| "auto_collect sha3 nowTime (it # its) v needBrc needCookie =
     (if it = buy then
        ebind (egets (\<lambda>s. BRC s systemAddress)) (\<lambda>brc.
          if brc < 10000000000000 then ereturn None
          else
            (let num = brc * PRICEPRECISION div BUYCOOKIE div 10000 * 10000 in
             ebind (auto_order sha3 nowTime buy BUYCOOKIE num) (\<lambda>od.
               auto_collect sha3 nowTime its (v @ [od]) (num * BUYCOOKIE div PRICEPRECISION) needCookie)))
      else if it = sell then
        ebind (egets (\<lambda>s. balance s systemAddress)) (\<lambda>num.
          if num < 10000000000000 then ereturn None
          else
            ebind (auto_order sha3 nowTime sell SELLCOOKIE num) (\<lambda>od.
              auto_collect sha3 nowTime its (v @ [od]) needBrc num))
      else auto_collect sha3 nowTime its v needBrc needCookie)"

text \<open>A thrown exception of the order book is replaced by \<^verbatim>\<open>pendingorderAllPriceFiled\<close>.\<close>

definition as_allPriceFiled :: "exn \<Rightarrow> exn" where
  "as_allPriceFiled e = (if is_cpp_exception e then pendingorderAllPriceFiled else e)"

definition auto_result ::
    "result_order \<Rightarrow> u256 \<times> u256 \<times> order_type list \<Rightarrow> (u256 \<times> u256 \<times> order_type list) st" where
  "auto_result r acc = (case acc of (needBrc, needCookie, autoSet) \<Rightarrow>
     ebind (transfer_result r) (\<lambda>_. ereturn
       (if ro_buy_type r = only_price \<and> ro_type r = buy \<and> ro_token_type r = TK_FUEL
        then needBrc - ro_amount r * ro_old_price r div PRICEPRECISION else needBrc,
        if ro_buy_type r = only_price \<and> ro_type r = sell \<and> ro_token_type r = TK_FUEL
        then needCookie - ro_amount r else needCookie,
        type_emplace (ro_type r) autoSet)))"

definition auto_insert ::
    "ex_order \<Rightarrow> u256 \<times> u256 \<times> order_type list \<Rightarrow> (u256 \<times> u256 \<times> order_type list) st" where
  "auto_insert od acc =
     ebind (ecatch (insert_operation od False) as_allPriceFiled) (\<lambda>results. efold auto_result results acc)"

text \<open>The test \<^verbatim>\<open>_needBrc < 0 || _needCookie < 0\<close> on unsigned integers is never true.\<close>

primrec systemAutoPendingOrder ::
    "(bytes \<Rightarrow> h256) \<Rightarrow> nat \<Rightarrow> order_type list \<Rightarrow> time_ms \<Rightarrow> unit st" where
  "systemAutoPendingOrder sha3 0 types nowTime = ethrow NonTermination"
| "systemAutoPendingOrder sha3 (Suc fuel) types nowTime =
     ebind (auto_collect sha3 nowTime types [] 0 0) (\<lambda>c. case c of
       None \<Rightarrow> ereturn ()
     | Some (v, needBrc, needCookie) \<Rightarrow>
         ebind (efold auto_insert v (needBrc, needCookie, [])) (\<lambda>acc. case acc of
           (needBrc, needCookie, autoSet) \<Rightarrow>
             ebind (ewhen (needCookie > 0) (freezeBalance systemAddress needCookie)) (\<lambda>_.
             ebind (ewhen (needBrc \<noteq> 0) (freezeBRC systemAddress needBrc)) (\<lambda>_.
             ewhen (autoSet \<noteq> []) (systemAutoPendingOrder sha3 fuel autoSet nowTime)))))"

section \<open>Placing orders\<close>

record order_sums =
  total_free_brc :: int
  total_free_balance :: int
  exCookieNum :: u256
  exBRCNum :: u256
  systemSet :: "order_type list"

fun collect_orders ::
    "address \<Rightarrow> time_ms \<Rightarrow> h256 \<Rightarrow> operation list \<Rightarrow> ex_order list \<Rightarrow> order_sums \<Rightarrow> (ex_order list \<times> order_sums) st" where
  "collect_orders addr nowTime hash [] v sums = ereturn (v, sums)"
| "collect_orders addr nowTime hash (op # ops) v sums =
     (case as_pendingorder op of
        None \<Rightarrow> ethrow InvalidDynamic
      | Some pen \<Rightarrow>
          (let price = (if po_buy_type pen = all_price \<and> po_type pen = buy
                        then po_price pen * PRICEPRECISION else po_price pen);
               od = \<lparr>eo_trxid = hash, eo_sender = addr, eo_price = price, eo_token_amount = po_num pen,
                 eo_source_amount = po_num pen, eo_create_time = nowTime, eo_type = po_type pen,
                 eo_token_type = po_Token_type pen, eo_buy_type = po_buy_type pen\<rparr>;
               sums' =
                 (if po_buy_type pen = only_price then
                    (if po_type pen = buy \<and> po_Token_type pen = TK_FUEL
                     then sums\<lparr>total_free_brc := total_free_brc sums + uint (po_num pen * po_price pen div PRICEPRECISION)\<rparr>
                     else if po_type pen = sell \<and> po_Token_type pen = TK_FUEL
                     then sums\<lparr>total_free_balance := total_free_balance sums + uint (po_num pen)\<rparr>
                     else sums)
                  else sums)
           in collect_orders addr nowTime hash ops (v @ [od]) sums'))"

definition order_result :: "result_order \<Rightarrow> order_sums \<Rightarrow> order_sums st" where
  "order_result r sums =
     ebind (transfer_result r) (\<lambda>_. ereturn
       (let sums1 =
              (if ro_type r = buy \<and> ro_token_type r = TK_FUEL \<and> ro_buy_type r = all_price
               then sums\<lparr>exCookieNum := exCookieNum sums + (ro_amount r - ro_amount r div MATCHINGFEERATIO),
                         exBRCNum := exBRCNum sums + ro_amount r * ro_price r div PRICEPRECISION\<rparr>
               else sums);
            sums2 =
              (if ro_buy_type r = only_price then
                 (if ro_type r = buy \<and> ro_token_type r = TK_FUEL
                  then sums1\<lparr>total_free_brc := total_free_brc sums1 - uint (ro_amount r * ro_old_price r div PRICEPRECISION)\<rparr>
                  else if ro_type r = sell \<and> ro_token_type r = TK_FUEL
                  then sums1\<lparr>total_free_balance := total_free_balance sums1 - uint (ro_amount r)\<rparr>
                  else sums1)
               else sums1)
        in if ro_acceptor r = systemAddress
           then sums2\<lparr>systemSet := type_emplace (ro_type r) (systemSet sums2)\<rparr> else sums2))"

definition place_order :: "ex_order \<Rightarrow> order_sums \<Rightarrow> order_sums st" where
  "place_order od sums =
     ebind (ecatch (insert_operation od False) as_allPriceFiled) (\<lambda>results. efold order_result results sums)"

definition no_sums :: order_sums where
  "no_sums = \<lparr>total_free_brc = 0, total_free_balance = 0, exCookieNum = 0, exBRCNum = 0, systemSet = []\<rparr>"

definition pendingOrders ::
    "(bytes \<Rightarrow> h256) \<Rightarrow> config \<Rightarrow> nat \<Rightarrow> address \<Rightarrow> time_ms \<Rightarrow> h256 \<Rightarrow> operation list \<Rightarrow> int \<Rightarrow> (u256 \<times> u256) st" where
  "pendingOrders sha3 cfg fuel addr nowTime hash ops blockNum =
     ebind (collect_orders addr nowTime hash ops [] no_sums) (\<lambda>c. case c of (v, sums0) \<Rightarrow>
     ebind (efold place_order v sums0) (\<lambda>sums.
     ebind (if total_free_balance sums < 0 \<or> total_free_brc sums < 0
            then ethrow pendingorderAllPriceFiled else ereturn ()) (\<lambda>_.
     ebind (ewhen (total_free_balance sums > 0) (freezeBalance addr (of_int (total_free_balance sums)))) (\<lambda>_.
     ebind (ewhen (total_free_brc sums \<noteq> 0) (freezeBRC addr (of_int (total_free_brc sums)))) (\<lambda>_.
     ebind (ewhen (systemSet sums \<noteq> [] \<and> blockNum < cancelAutoPendingOrderHeight cfg)
              (systemAutoPendingOrder sha3 fuel (systemSet sums) nowTime)) (\<lambda>_.
       ereturn (exCookieNum sums, exBRCNum sums)))))))"

section \<open>Cancelling\<close>

definition as_cancelFiled :: "exn \<Rightarrow> exn" where
  "as_cancelFiled e = (if is_cpp_exception e then CancelPendingOrderFiled else e)"

fun collect_hashes :: "operation list \<Rightarrow> h256 list \<Rightarrow> h256 list st" where
  "collect_hashes [] hs = ereturn hs"
| "collect_hashes (op # ops) hs =
     (case as_cancelPendingorder op of None \<Rightarrow> ethrow InvalidDynamic | Some h \<Rightarrow> collect_hashes ops (hs @ [h]))"

definition cancel_one :: "h256 \<Rightarrow> unit st" where
  "cancel_one h =
     ebind (ecatch (cancel_order_by_trxid h) as_cancelFiled) (\<lambda>val.
       if o_type val = buy \<and> o_token_type val = TK_FUEL then
         eseq [subFBRC (o_sender val) (snd (o_price_token val) * fst (o_price_token val) div PRICEPRECISION),
               addBRC (o_sender val) (snd (o_price_token val) * fst (o_price_token val) div PRICEPRECISION)]
       else if o_type val = sell \<and> o_token_type val = TK_FUEL then
         eseq [subFBalance (o_sender val) (snd (o_price_token val)),
               addBalance (o_sender val) (snd (o_price_token val))]
       else ereturn ())"

definition cancelPendingOrders :: "operation list \<Rightarrow> unit st" where
  "cancelPendingOrders ops = ebind (collect_hashes ops []) (\<lambda>hs. efor hs cancel_one)"

section \<open>Transfer with automatic exchange\<close>

definition transferAutoEx_one ::
    "(bytes \<Rightarrow> h256) \<Rightarrow> config \<Rightarrow> nat \<Rightarrow> h256 \<Rightarrow> time_ms \<Rightarrow> u256 \<Rightarrow> int \<Rightarrow> operation \<Rightarrow> unit st" where
  "transferAutoEx_one sha3 cfg fuel trxid timeStamp baseGas blockNum val =
     (case as_transferAutoEx val of
        None \<Rightarrow> ethrow UndefinedBehaviour
      | Some op \<Rightarrow>
          ebind (pendingOrders sha3 cfg fuel (ta_from op) timeStamp trxid
            [Op_pendingorder \<lparr>po_from = ta_from op, po_num = 0, po_price = ta_autoExNum op, po_type = buy,
               po_Token_type = TK_FUEL, po_buy_type = all_price\<rparr>] blockNum) (\<lambda>exNum.
            if ta_autoExType op = transferAutoEx_code Balancededuction then
              transferBRC (ta_from op) (ta_to op) (ta_transferNum op)
            else if ta_autoExType op = transferAutoEx_code Transferdeduction then
              eseq [transferBRC (ta_from op) (ta_to op) (ta_transferNum op - snd exNum),
                    transferBalance (ta_from op) (ta_to op) (fst exNum - baseGas)]
            else ereturn ()))"

definition transferAutoEx ::
    "(bytes \<Rightarrow> h256) \<Rightarrow> config \<Rightarrow> nat \<Rightarrow> operation list \<Rightarrow> h256 \<Rightarrow> time_ms \<Rightarrow> u256 \<Rightarrow> int \<Rightarrow> unit st" where
  "transferAutoEx sha3 cfg fuel ops trxid timeStamp baseGas blockNum =
     efor ops (transferAutoEx_one sha3 cfg fuel trxid timeStamp baseGas blockNum)"

end
