(* ===== verification/Supply.thy ===== *)
theory Supply
  imports Exchange
begin

text \<open>
  The two currencies are conserved: every exchange operation that returns leaves the total of BRC
  (free and frozen) and the total of cookies (free and frozen) over all accounts as it was. Totals
  are sums of \<open>u256\<close> values, so they wrap as the amounts themselves do; for amounts that fit, they
  are the true totals.
\<close>

definition brc_of :: "account \<Rightarrow> u256" where
  "brc_of a = m_BRC a + m_FBRC a"

definition cookie_of :: "account \<Rightarrow> u256" where
  "cookie_of a = m_balance a + m_FBalance a"

lemmas supply_simps = brc_of_def cookie_of_def acc_addBRC_def acc_addBalance_def acc_addFBRC_def
  acc_addFBalance_def changed_def account_nb_def account_nbb_def dead_account_def

section \<open>Single amounts\<close>

lemma addBRC_brc: "adds brc_of v (addBRC i v)"
  by (rule brc.adds_add) (simp_all add: supply_simps)

lemma addBRC_cookie: "adds cookie_of 0 (addBRC i v)"
  by (rule brc.adds_add) (simp_all add: supply_simps)

lemma addBalance_cookie: "adds cookie_of v (addBalance i v)"
  by (rule cookie.adds_add) (simp_all add: supply_simps)

lemma addBalance_brc: "adds brc_of 0 (addBalance i v)"
  by (rule cookie.adds_add) (simp_all add: supply_simps)

lemma subBRC_brc: "adds brc_of (- v) (subBRC i v)"
proof (cases "v = 0")
  case False
  have "adds brc_of (0 - v) (addBRC i (0 - v))" by (rule addBRC_brc)
  with False show ?thesis by (auto simp: subBRC_def intro!: adds_rules)
qed (simp add: subBRC_def adds_ereturn)

lemma subBRC_cookie: "adds cookie_of 0 (subBRC i v)"
  by (auto simp: subBRC_def intro!: adds_rules addBRC_cookie)

lemma subBalance_cookie: "adds cookie_of (- v) (subBalance i v)"
proof (cases "v = 0")
  case False
  have "adds cookie_of (0 - v) (addBalance i (0 - v))" by (rule addBalance_cookie)
  with False show ?thesis by (auto simp: subBalance_def intro!: adds_rules)
qed (simp add: subBalance_def adds_ereturn)

lemma subBalance_brc: "adds brc_of 0 (subBalance i v)"
  by (auto simp: subBalance_def intro!: adds_rules addBalance_brc)

text \<open>A subtraction from a frozen amount finds the account, or does not return.\<close>

lemma subFBRC_run:
  assumes "subFBRC i v s = (Inr x, s')"
  shows "v = 0 \<and> s' = s \<or> (\<exists>a. accts s i = Some a \<and> v \<le> m_FBRC a \<and> addFBRC i (0 - v) s = (Inr x, s'))"
  using assms by (auto simp: subFBRC_def run_simps not_less split: if_splits option.splits)

lemma subFBalance_run:
  assumes "subFBalance i v s = (Inr x, s')"
  shows "v = 0 \<and> s' = s \<or> (\<exists>a. accts s i = Some a \<and> v \<le> m_FBalance a \<and> addFBalance i (0 - v) s = (Inr x, s'))"
  using assms by (auto simp: subFBalance_def run_simps not_less split: if_splits option.splits)

lemma subFBRC_brc: "adds brc_of (- v) (subFBRC i v)"
proof (rule addsI)
  fix s x s' assume "subFBRC i v s = (Inr x, s')"
  then consider "v = 0" "s' = s" | a where "accts s i = Some a" "addFBRC i (0 - v) s = (Inr x, s')"
    using subFBRC_run by blast
  then show "grand_total brc_of s' = grand_total brc_of s + - v"
  proof cases
    case 2
    have "brc_of (acc_addFBRC (0 - v) a) = brc_of a + (0 - v)" by (simp add: supply_simps)
    from fbrc.add_total_of [where f = brc_of, OF 2(1) this] 2(2) show ?thesis by simp
  qed simp
qed

lemma subFBRC_cookie: "adds cookie_of 0 (subFBRC i v)"
proof (rule addsI)
  fix s x s' assume "subFBRC i v s = (Inr x, s')"
  then consider "v = 0" "s' = s" | a where "accts s i = Some a" "addFBRC i (0 - v) s = (Inr x, s')"
    using subFBRC_run by blast
  then show "grand_total cookie_of s' = grand_total cookie_of s + 0"
  proof cases
    case 2
    have "cookie_of (acc_addFBRC (0 - v) a) = cookie_of a + 0" by (simp add: supply_simps)
    from fbrc.add_total_of [where f = cookie_of, OF 2(1) this] 2(2) show ?thesis by simp
  qed simp
qed

lemma subFBalance_cookie: "adds cookie_of (- v) (subFBalance i v)"
proof (rule addsI)
  fix s x s' assume "subFBalance i v s = (Inr x, s')"
  then consider "v = 0" "s' = s" | a where "accts s i = Some a" "addFBalance i (0 - v) s = (Inr x, s')"
    using subFBalance_run by blast
  then show "grand_total cookie_of s' = grand_total cookie_of s + - v"
  proof cases
    case 2
    have "cookie_of (acc_addFBalance (0 - v) a) = cookie_of a + (0 - v)" by (simp add: supply_simps)
    from fcookie.add_total_of [where f = cookie_of, OF 2(1) this] 2(2) show ?thesis by simp
  qed simp
qed

lemma subFBalance_brc: "adds brc_of 0 (subFBalance i v)"
proof (rule addsI)
  fix s x s' assume "subFBalance i v s = (Inr x, s')"
  then consider "v = 0" "s' = s" | a where "accts s i = Some a" "addFBalance i (0 - v) s = (Inr x, s')"
    using subFBalance_run by blast
  then show "grand_total brc_of s' = grand_total brc_of s + 0"
  proof cases
    case 2
    have "brc_of (acc_addFBalance (0 - v) a) = brc_of a + 0" by (simp add: supply_simps)
    from fcookie.add_total_of [where f = brc_of, OF 2(1) this] 2(2) show ?thesis by simp
  qed simp
qed

section \<open>Freezing\<close>

lemma subBRC_account:
  assumes "subBRC i v s = (Inr x, s')"
  shows "v = 0 \<and> s' = s \<or> (\<exists>a. accts s i = Some a \<and> accts s' = (accts s)(i \<mapsto> acc_addBRC (0 - v) a))"
proof (cases "v = 0")
  case False
  with assms obtain a where a: "accts s i = Some a" "addBRC i (0 - v) s = (Inr x, s')"
    by (auto simp: subBRC_def run_simps split: if_splits option.splits)
  with brc.add_accts [OF a(1), of "0 - v"] show ?thesis by auto
qed (use assms in \<open>auto simp: subBRC_def\<close>)

lemma subBalance_account:
  assumes "subBalance i v s = (Inr x, s')"
  shows "v = 0 \<and> s' = s \<or> (\<exists>a. accts s i = Some a \<and> accts s' = (accts s)(i \<mapsto> acc_addBalance (0 - v) a))"
proof (cases "v = 0")
  case False
  with assms obtain a where a: "accts s i = Some a" "addBalance i (0 - v) s = (Inr x, s')"
    by (auto simp: subBalance_def run_simps split: if_splits option.splits)
  with cookie.add_accts [OF a(1), of "0 - v"] show ?thesis by auto
qed (use assms in \<open>auto simp: subBalance_def\<close>)

lemma addFBRC_zero_missing: "accts s i = None \<Longrightarrow> addFBRC i 0 s = (Inr (), s)"
  by (simp add: addFBRC_def run_simps)

lemma addFBalance_zero_missing: "accts s i = None \<Longrightarrow> addFBalance i 0 s = (Inr (), s)"
  by (simp add: addFBalance_def run_simps)

lemma freezeBRC_conserves:
  assumes "\<And>w a. f (acc_addFBRC w a) = f a + e w" and "e 0 = 0" and "adds f (- e v) (subBRC i v)"
  shows "adds f 0 (freezeBRC i v)"
proof (rule addsI)
  fix s x s' assume run: "freezeBRC i v s = (Inr x, s')"
  then obtain y s1 where s1: "subBRC i v s = (Inr y, s1)" "addFBRC i v s1 = (Inr x, s')"
    by (auto simp: freezeBRC_def elim!: ebind_InrE)
  have t1: "grand_total f s1 = grand_total f s - e v" using addsD [OF assms(3) s1(1)] by simp
  show "grand_total f s' = grand_total f s + 0"
  proof (cases "accts s1 i")
    case None
    with subBRC_account [OF s1(1)] have "v = 0" by (auto split: if_splits)
    with None s1(2) t1 assms(2) show ?thesis by (simp add: addFBRC_zero_missing)
  next
    case (Some a)
    from fbrc.add_total_of [where f = f and v = v, OF Some assms(1)] s1(2) t1 show ?thesis by simp
  qed
qed

lemma freezeBalance_conserves:
  assumes "\<And>w a. f (acc_addFBalance w a) = f a + e w" and "e 0 = 0" and "adds f (- e v) (subBalance i v)"
  shows "adds f 0 (freezeBalance i v)"
proof (rule addsI)
  fix s x s' assume run: "freezeBalance i v s = (Inr x, s')"
  then obtain y s1 where s1: "subBalance i v s = (Inr y, s1)" "addFBalance i v s1 = (Inr x, s')"
    by (auto simp: freezeBalance_def elim!: ebind_InrE)
  have t1: "grand_total f s1 = grand_total f s - e v" using addsD [OF assms(3) s1(1)] by simp
  show "grand_total f s' = grand_total f s + 0"
  proof (cases "accts s1 i")
    case None
    with subBalance_account [OF s1(1)] have "v = 0" by (auto split: if_splits)
    with None s1(2) t1 assms(2) show ?thesis by (simp add: addFBalance_zero_missing)
  next
    case (Some a)
    from fcookie.add_total_of [where f = f and v = v, OF Some assms(1)] s1(2) t1 show ?thesis by simp
  qed
qed

lemma freezeBRC_brc: "adds brc_of 0 (freezeBRC i v)"
  by (rule freezeBRC_conserves [where e = "\<lambda>w. w"]) (simp_all add: subBRC_brc, simp add: supply_simps)

lemma freezeBRC_cookie: "adds cookie_of 0 (freezeBRC i v)"
  by (rule freezeBRC_conserves [where e = "\<lambda>_. 0"]) (simp_all add: subBRC_cookie, simp add: supply_simps)

lemma freezeBalance_cookie: "adds cookie_of 0 (freezeBalance i v)"
  by (rule freezeBalance_conserves [where e = "\<lambda>w. w"]) (simp_all add: subBalance_cookie, simp add: supply_simps)

lemma freezeBalance_brc: "adds brc_of 0 (freezeBalance i v)"
  by (rule freezeBalance_conserves [where e = "\<lambda>_. 0"]) (simp_all add: subBalance_brc, simp add: supply_simps)

section \<open>A conserved currency\<close>

text \<open>
  The contract of a currency: \<open>brc_part\<close> and \<open>cookie_part\<close> say how it counts the two amounts, and
  the operations on single amounts and on the book change its total accordingly. The client is the
  exchange; each of its operations then leaves the total alone.
\<close>

locale currency =
  fixes f :: "account \<Rightarrow> u256"
    and brc_part cookie_part :: "u256 \<Rightarrow> u256"
  assumes brc_part_add: "brc_part (v + w) = brc_part v + brc_part w"
    and cookie_part_add: "cookie_part (v + w) = cookie_part v + cookie_part w"
    and add_brc: "adds f (brc_part v) (addBRC i v)"
    and sub_brc: "adds f (- brc_part v) (subBRC i v)"
    and sub_fbrc: "adds f (- brc_part v) (subFBRC i v)"
    and add_cookie: "adds f (cookie_part v) (addBalance i v)"
    and sub_cookie: "adds f (- cookie_part v) (subBalance i v)"
    and sub_fcookie: "adds f (- cookie_part v) (subFBalance i v)"
    and freeze_brc: "adds f 0 (freezeBRC i v)"
    and freeze_cookie: "adds f 0 (freezeBalance i v)"
    and book_free: "f (a\<lparr>m_exChangeOrder := m, m_isUnchanged := u\<rparr>) = f a"
    and no_ballot_money: "f (account_ballot 0) = 0"
begin

lemma eseq_adds:
  "list_all2 (adds f) ds ms \<Longrightarrow> sum_list ds = d \<Longrightarrow> adds f d (eseq ms)"
proof (induction ds ms arbitrary: d rule: list_all2_induct)
  case (Cons e ds m ms)
  have "adds f (e + sum_list ds) (eseq (m # ms))"
    by (rule adds_eseq_Cons) (use Cons in auto)
  with Cons.prems show ?case by simp
qed (simp add: adds_ereturn)

lemma brc_part_diff: "brc_part (v - w) + brc_part w = brc_part v"
  using brc_part_add [of "v - w" w] by simp

lemma cookie_part_diff: "cookie_part (v - w) + cookie_part w = cookie_part v"
  using cookie_part_add [of "v - w" w] by simp

lemma fees_cancel:
  "- brc_part v + (brc_part (v - w) + (- cookie_part n + (cookie_part (n - u) + (brc_part w + cookie_part u)))) = 0"
  "- cookie_part n + (cookie_part (n - u) + (- brc_part v + (brc_part (v - w) + (brc_part w + cookie_part u)))) = 0"
  by (simp_all add: brc_part_diff [of v w, symmetric] cookie_part_diff [of n u, symmetric])

lemma pendingOrderTransfer: "adds f 0 (pendingOrderTransfer fromAddr toAddr num price type token buyType)"
proof -
  have buy: "adds f 0 (eseq [subBRC fromAddr v, addBRC toAddr (v - w), subFBalance toAddr num,
      addBalance fromAddr (num - u), addBRC PdSystemAddress w, addBalance PdSystemAddress u])" for v w u
    by (rule eseq_adds [where ds = "[- brc_part v, brc_part (v - w), - cookie_part num, cookie_part (num - u),
          brc_part w, cookie_part u]"])
      (simp add: add_brc sub_brc sub_fcookie add_cookie, simp only: sum_list.Cons sum_list.Nil add_0_right fees_cancel(1))
  have sell: "adds f 0 (eseq [subBalance fromAddr num, addBalance toAddr (num - u), subFBRC toAddr v,
      addBRC fromAddr (v - w), addBRC PdSystemAddress w, addBalance PdSystemAddress u])" for v w u
    by (rule eseq_adds [where ds = "[- cookie_part num, cookie_part (num - u), - brc_part v, brc_part (v - w),
          brc_part w, cookie_part u]"])
      (simp add: add_brc sub_cookie sub_fbrc add_cookie, simp only: sum_list.Cons sum_list.Nil add_0_right fees_cancel(2))
  show ?thesis unfolding pendingOrderTransfer_def Let_def by (intro adds_if buy sell adds_ereturn)
qed

lemma book_entry: "f (addExOrderMulti od a) = f a" "f (snd (removeExOrderMulti t a)) = f a"
  by (auto simp: addExOrderMulti_def removeExOrderMulti_def changed_def book_free split: option.splits)

lemma upd_account_free: "(\<And>a. f (g a) = f a) \<Longrightarrow> adds f 0 (upd_account i g)"
proof (rule addsI)
  fix s x s' assume g: "\<And>a. f (g a) = f a" and run: "upd_account i g s = (Inr x, s')"
  have "amount_of f s' = amount_of f s"
    using run g by (cases "accts s i") (auto simp: upd_account_def amount_of_def fun_eq_iff split: option.splits if_splits)
  then show "grand_total f s' = grand_total f s + 0" by (simp add: grand_total_def)
qed

lemma log_free: "adds f 0 (log_change c)"
  by (auto simp: adds_def log_change_def grand_total_def amount_of_def)

lemma add_order: "adds f 0 (add_exchangeOrder od)"
  unfolding add_exchangeOrder_def addExchangeOrder_def eseq.simps
  by (intro adds_rules upd_account_free log_free book_entry)

lemma remove_order: "adds f 0 (remove_exchangeOrder t)"
  unfolding remove_exchangeOrder_def removeExchangeOrder_def eseq.simps
  by (intro adds_rules upd_account_free log_free book_entry)

lemma getExOrder: "adds f 0 getExOrder"
proof (rule addsI)
  fix s x s' assume run: "getExOrder s = (Inr x, s')"
  show "grand_total f s' = grand_total f s + 0"
  proof (cases "accts s ExdbSystemAddress")
    case None
    with run have "accts s' = (accts s)(ExdbSystemAddress \<mapsto> account_ballot 0)"
      by (auto simp: getExOrder_def run_simps)
    from total_accts [OF this, of f] None show ?thesis by (simp add: amount_of_def no_ballot_money)
  next
    case (Some a)
    with run show ?thesis by (auto simp: getExOrder_def run_simps)
  qed
qed

lemma only_price_loop: "adds f 0 (only_price_loop od price itrs spend result rh)"
  by (induction od price itrs spend result rh rule: only_price_loop.induct)
    (auto intro!: adds_rules add_order)

lemma all_price_buy_loop: "adds f 0 (all_price_buy_loop reset od itrs n result)"
  by (induction reset od itrs n result rule: all_price_buy_loop.induct)
    (auto simp: Let_def intro!: adds_rules add_order remove_order)

lemma all_price_sell_loop: "adds f 0 (all_price_sell_loop reset od itrs n result)"
  by (induction reset od itrs n result rule: all_price_sell_loop.induct)
    (auto intro!: adds_rules add_order remove_order)

lemma insert_operation: "adds f 0 (insert_operation od reset)"
  unfolding insert_operation_def get_buy_itr_def get_sell_itr_def process_only_price_def
  by (intro adds_rules getExOrder add_order remove_order only_price_loop all_price_buy_loop all_price_sell_loop)

lemma place_order: "adds f 0 (place_order od sums)"
  unfolding place_order_def order_result_def transfer_result_def
  by (intro adds_rules insert_operation pendingOrderTransfer)

lemma auto_insert: "adds f 0 (auto_insert od acc)"
  unfolding auto_insert_def auto_result_def transfer_result_def
  by (intro adds_rules insert_operation pendingOrderTransfer)

lemma auto_collect: "adds f 0 (auto_collect sha3 t types v nb nc)"
  by (induction sha3 t types v nb nc rule: auto_collect.induct)
    (auto simp: Let_def auto_order_def intro!: adds_rules)

lemma collect_orders: "adds f 0 (collect_orders addr t h ops v sums)"
  by (induction addr t h ops v sums rule: collect_orders.induct)
    (auto simp: Let_def intro!: adds_rules)

lemma systemAutoPendingOrder: "adds f 0 (systemAutoPendingOrder sha3 fuel types nowTime)"
proof (induction fuel arbitrary: types)
  case (Suc fuel)
  show ?case
    unfolding systemAutoPendingOrder.simps
    by (intro adds_rules auto_collect auto_insert freeze_brc freeze_cookie Suc.IH)
qed (simp add: adds_ethrow)

lemma pendingOrders: "adds f 0 (pendingOrders sha3 cfg fuel addr nowTime hash ops blockNum)"
  unfolding pendingOrders_def
  by (intro adds_rules collect_orders place_order freeze_brc freeze_cookie systemAutoPendingOrder)

lemma cancel_order: "adds f 0 (cancel_order_by_trxid h)"
  unfolding cancel_order_by_trxid_def by (intro adds_rules getExOrder remove_order)

lemma unfreeze_brc: "adds f 0 (eseq [subFBRC i v, addBRC i v])"
  by (rule eseq_adds [where ds = "[- brc_part v, brc_part v]"]) (simp_all add: sub_fbrc add_brc)

lemma unfreeze_cookie: "adds f 0 (eseq [subFBalance i v, addBalance i v])"
  by (rule eseq_adds [where ds = "[- cookie_part v, cookie_part v]"]) (simp_all add: sub_fcookie add_cookie)

lemma collect_hashes: "adds f 0 (collect_hashes ops hs)"
  by (induction ops arbitrary: hs) (auto intro!: adds_rules)

lemma cancelPendingOrders: "adds f 0 (cancelPendingOrders ops)"
  unfolding cancelPendingOrders_def cancel_one_def
  by (intro adds_rules collect_hashes cancel_order unfreeze_brc unfreeze_cookie)

lemma transferBRC: "adds f 0 (transferBRC x y v)"
  unfolding transferBRC_def
  by (rule eseq_adds [where ds = "[- brc_part v, brc_part v]"]) (simp_all add: sub_brc add_brc)

lemma transferBalance: "adds f 0 (transferBalance x y v)"
  unfolding transferBalance_def
  by (rule eseq_adds [where ds = "[- cookie_part v, cookie_part v]"]) (simp_all add: sub_cookie add_cookie)

lemma transferAutoEx: "adds f 0 (transferAutoEx sha3 cfg fuel ops trxid t gas n)"
  unfolding transferAutoEx_def transferAutoEx_one_def eseq.simps
  by (intro adds_rules pendingOrders transferBRC transferBalance)

end

interpretation brc_supply: currency brc_of "\<lambda>v. v" "\<lambda>_. 0"
  by unfold_locales
    (simp_all add: addBRC_brc subBRC_brc subFBRC_brc addBalance_brc subBalance_brc subFBalance_brc
      freezeBRC_brc freezeBalance_brc, simp_all add: brc_of_def account_ballot_def dead_account_def)

interpretation cookie_supply: currency cookie_of "\<lambda>_. 0" "\<lambda>v. v"
  by unfold_locales
    (simp_all add: addBRC_cookie subBRC_cookie subFBRC_cookie addBalance_cookie subBalance_cookie
      subFBalance_cookie freezeBRC_cookie freezeBalance_cookie,
      simp_all add: cookie_of_def account_ballot_def dead_account_def)

end
