(* ===== verification/Frames.thy ===== *)
theory Frames
  imports Exchange
begin

text \<open>
  What the operations on amounts leave alone. A view of an account that every write to an amount
  keeps, and that a fresh account has at its default, is kept by every operation that only moves
  amounts. The order book and the registers of the voting system are such views.

  The second interface is the one of the exchange: a relation between states that the moves of
  amounts and the writes to the book respect is respected by every operation of the exchange.
\<close>

section \<open>Views of an account\<close>

locale account_view =
  fixes v :: "account \<Rightarrow> 'v" and d :: 'v
  assumes view_fresh: "v (account_nb n b) = d" "v (account_nbb n b c) = d" "v (account_ballot b) = d"
    and view_amounts: "v (acc_addBRC x a) = v a" "v (acc_addBalance x a) = v a" "v (acc_addFBRC x a) = v a"
      "v (acc_addFBalance x a) = v a" "v (acc_addBallot x a) = v a"
begin

definition view :: "chain_state \<Rightarrow> address \<Rightarrow> 'v" where
  "view s i = (case accts s i of None \<Rightarrow> d | Some a \<Rightarrow> v a)"

definition kept :: "chain_state \<Rightarrow> chain_state \<Rightarrow> bool" where
  "kept s s' \<longleftrightarrow> view s' = view s"

lemma step: "step_relation kept"
  by unfold_locales (auto simp: kept_def)

lemmas keeps_rules = step_relation.keeps_rules [OF step]

lemma keptD: "keeps kept m \<Longrightarrow> m s = (r, s') \<Longrightarrow> view s' = view s"
  using keepsD [of kept m s] by (simp add: kept_def)

lemma upd: "(\<And>a. v (g a) = v a) \<Longrightarrow> keeps kept (upd_account i g)"
  by (auto simp: keeps_def kept_def upd_account_def view_def fun_eq_iff split: option.splits)

lemma log: "keeps kept (log_change c)"
  by (auto simp: keeps_def kept_def log_change_def view_def fun_eq_iff)

lemma create: "v a = d \<Longrightarrow> keeps kept (createAccount i a)"
  by (auto simp: keeps_def kept_def createAccount_def run_simps view_def fun_eq_iff split: option.splits)

lemma start_nonce: "keeps kept requireAccountStartNonce"
  unfolding requireAccountStartNonce_def by (intro keeps_rules)

lemma lookup: "keeps kept (get_account i)"
  unfolding get_account_def by (intro keeps_rules)

lemma touch: "keeps kept (touch_if_empty i a)"
  unfolding touch_if_empty_def by (intro keeps_rules log)

lemmas base = keeps_rules upd log create start_nonce lookup touch view_fresh view_amounts

lemma addBRC: "keeps kept (addBRC i x)"
  unfolding addBRC_def eseq.simps by (intro base)

lemma addBalance: "keeps kept (addBalance i x)"
  unfolding addBalance_def eseq.simps by (intro base)

lemma addFBRC: "keeps kept (addFBRC i x)"
  unfolding addFBRC_def eseq.simps by (intro base)

lemma addFBalance: "keeps kept (addFBalance i x)"
  unfolding addFBalance_def eseq.simps by (intro base)

lemma addBallot: "keeps kept (addBallot i x)"
  unfolding addBallot_def eseq.simps by (intro base)

lemma subtract:
  "keeps kept (subBRC i x)" "keeps kept (subBalance i x)" "keeps kept (subFBRC i x)" "keeps kept (subFBalance i x)"
  "keeps kept (subBallot i x)"
  unfolding subBRC_def subBalance_def subFBRC_def subFBalance_def subBallot_def
  by (intro base addBRC addBalance addFBRC addFBalance addBallot)+

lemma setBRC: "keeps kept (setBRC i x)"
  unfolding setBRC_def by (intro base addBRC)

lemma setBalance: "keeps kept (setBalance i x)"
  unfolding setBalance_def by (intro base addBalance)

lemmas amounts = addBRC addBalance addFBRC addFBalance addBallot subtract setBRC setBalance

lemma freeze: "keeps kept (freezeBRC i x)" "keeps kept (freezeBalance i x)"
  unfolding freezeBRC_def freezeBalance_def eseq.simps by (intro base amounts)+

lemma transfer: "keeps kept (pendingOrderTransfer i j num price type token buyType)"
  unfolding pendingOrderTransfer_def Let_def eseq.simps by (intro base amounts)

lemma transfers: "keeps kept (transferBRC i j x)" "keeps kept (transferBalance i j x)"
  unfolding transferBRC_def transferBalance_def eseq.simps by (intro base amounts)+

end

lemmas amount_writes = acc_addBRC_def acc_addBalance_def acc_addFBRC_def acc_addFBalance_def acc_addBallot_def changed_def

lemmas fresh_accounts = account_nb_def account_nbb_def account_ballot_def dead_account_def

interpretation orders: account_view m_exChangeOrder "[]"
  by unfold_locales (simp_all add: fresh_accounts amount_writes)

lemma orders_view: "orders.view s ExdbSystemAddress = book s"
  by (simp add: orders.view_def book_def)

section \<open>Relations the exchange respects\<close>

locale exchange_steps = step_relation R for R :: "chain_state \<Rightarrow> chain_state \<Rightarrow> bool" +
  assumes move: "keeps R (addBRC i x)" "keeps R (addBalance i x)" "keeps R (subBRC i x)" "keeps R (subBalance i x)"
      "keeps R (subFBRC i x)" "keeps R (subFBalance i x)" "keeps R (freezeBRC i x)" "keeps R (freezeBalance i x)"
    and put: "keeps R (add_exchangeOrder od)"
    and remove: "keeps R (remove_exchangeOrder t)"
    and open_book: "keeps R getExOrder"
begin

lemma only_price_loop: "keeps R (only_price_loop od price itrs spend result rh)"
  by (induction od price itrs spend result rh rule: only_price_loop.induct)
    (auto intro!: keeps_rules put)

lemma all_price_buy_loop: "keeps R (all_price_buy_loop reset od itrs n result)"
  by (induction reset od itrs n result rule: all_price_buy_loop.induct)
    (auto simp: Let_def intro!: keeps_rules put remove)

lemma all_price_sell_loop: "keeps R (all_price_sell_loop reset od itrs n result)"
  by (induction reset od itrs n result rule: all_price_sell_loop.induct)
    (auto intro!: keeps_rules put remove)

lemma insert_operation: "keeps R (insert_operation od reset)"
  unfolding insert_operation_def get_buy_itr_def get_sell_itr_def process_only_price_def
  by (intro keeps_rules open_book put remove only_price_loop all_price_buy_loop all_price_sell_loop)

lemma transfer: "keeps R (pendingOrderTransfer i j num price type token buyType)"
  unfolding pendingOrderTransfer_def Let_def eseq.simps by (intro keeps_rules move)

lemma place_order: "keeps R (place_order od sums)"
  unfolding place_order_def order_result_def transfer_result_def
  by (intro keeps_rules insert_operation transfer)

lemma auto_insert: "keeps R (auto_insert od acc)"
  unfolding auto_insert_def auto_result_def transfer_result_def
  by (intro keeps_rules insert_operation transfer)

lemma auto_collect: "keeps R (auto_collect h t types v nb nc)"
  by (induction h t types v nb nc rule: auto_collect.induct)
    (auto simp: Let_def auto_order_def get_account_def intro!: keeps_rules)

lemma collect_orders: "keeps R (collect_orders addr t h ops v sums)"
  by (induction addr t h ops v sums rule: collect_orders.induct) (auto simp: Let_def intro!: keeps_rules)

lemma systemAutoPendingOrder: "keeps R (systemAutoPendingOrder h fuel types nowTime)"
proof (induction fuel arbitrary: types)
  case (Suc fuel)
  show ?case
    unfolding systemAutoPendingOrder.simps by (intro keeps_rules auto_collect auto_insert move Suc.IH)
qed (simp add: keeps_ethrow)

lemma pendingOrders: "keeps R (pendingOrders h cfg fuel addr nowTime hash ops blockNum)"
  unfolding pendingOrders_def
  by (intro keeps_rules collect_orders place_order move systemAutoPendingOrder)

lemma cancel_order: "keeps R (cancel_order_by_trxid h)"
  unfolding cancel_order_by_trxid_def by (intro keeps_rules open_book remove)

lemma collect_hashes: "keeps R (collect_hashes ops hs)"
  by (induction ops arbitrary: hs) (auto intro!: keeps_rules)

lemma cancelPendingOrders: "keeps R (cancelPendingOrders ops)"
  unfolding cancelPendingOrders_def cancel_one_def eseq.simps
  by (intro keeps_rules collect_hashes cancel_order move)

lemma transferBRC: "keeps R (transferBRC i j x)"
  unfolding transferBRC_def eseq.simps by (intro keeps_rules move)

lemma transferBalance: "keeps R (transferBalance i j x)"
  unfolding transferBalance_def eseq.simps by (intro keeps_rules move)

lemma transferAutoEx: "keeps R (transferAutoEx h cfg fuel ops trxid t gas n)"
  unfolding transferAutoEx_def transferAutoEx_one_def eseq.simps
  by (intro keeps_rules pendingOrders transferBRC transferBalance)

end

section \<open>The book stays well-formed\<close>

text \<open>No two resting orders have the same transaction id.\<close>

definition book_wf_kept :: "chain_state \<Rightarrow> chain_state \<Rightarrow> bool" where
  "book_wf_kept s s' \<longleftrightarrow> (trxids_distinct (book s) \<longrightarrow> trxids_distinct (book s'))"

lemma orders_kept_wf: "keeps orders.kept m \<Longrightarrow> keeps book_wf_kept m"
  by (auto simp: keeps_def orders.kept_def book_wf_kept_def orders_view [symmetric])

lemma put_wf: "keeps book_wf_kept (add_exchangeOrder od)"
proof (rule keepsI)
  fix s show "book_wf_kept s (snd (add_exchangeOrder od s))"
  proof (cases "accts s ExdbSystemAddress")
    case (Some a)
    then show ?thesis
      using add_exchangeOrder_book [OF Some, of od] book_update_book trxids_put [of "book s" od]
      by (auto simp: book_wf_kept_def)
  qed (simp add: add_exchangeOrder_def addExchangeOrder_def run_simps book_wf_kept_def)
qed

lemma remove_wf: "keeps book_wf_kept (remove_exchangeOrder t)"
  by (auto simp: keeps_def book_wf_kept_def remove_exchangeOrder_def removeExchangeOrder_def removeExOrderMulti_def
      run_simps book_def changed_def multi_erase_distinct split: option.splits)

lemma open_wf: "keeps book_wf_kept getExOrder"
proof (rule keepsI)
  fix s show "book_wf_kept s (snd (getExOrder s))"
    using getExOrder_book [of s] by (auto simp: book_wf_kept_def)
qed

interpretation book_wf: exchange_steps book_wf_kept
  by unfold_locales
    (auto simp: book_wf_kept_def intro: orders_kept_wf orders.amounts orders.freeze put_wf remove_wf open_wf)

end
