(* ===== verification/Atomicity.thy ===== *)
theory Atomicity
  imports Supply Frames
begin

text \<open>
  Failed operations leave no trace: every operation of the exchange is restorable, so the rollback
  of \<^verbatim>\<open>executeTransaction\<close> gives back the state before the transaction whenever one of them throws,
  however far it had come.
\<close>

section \<open>Restorable primitives\<close>

lemma keeps_get_account: "keeps (restorable sha3 trie) (get_account i)"
  by (simp add: get_account_def journal.keeps_egets)

lemma keeps_createAccount: "keeps (restorable sha3 trie) (createAccount i a)"
proof (rule keepsI)
  fix s show "restorable sha3 trie s (snd (createAccount i a s))"
    using restorable_created [of s i "[]" sha3 a a trie]
    by (cases "accts s i") (simp_all add: run_simps restorable_refl)
qed

lemma keeps_requireNonce: "keeps (restorable sha3 trie) requireAccountStartNonce"
  unfolding requireAccountStartNonce_def by (intro journal.keeps_rules)

lemmas keeps_primitives = journal.keeps_rules keeps_get_account cookie.keeps_add brc.keeps_add
  ballots.keeps_add polls.keeps_add income.keeps_add keeps_createAccount keeps_requireNonce

lemma keeps_subBalance: "keeps (restorable sha3 trie) (subBalance i v)"
  unfolding subBalance_def by (intro keeps_primitives)

lemma keeps_subBRC: "keeps (restorable sha3 trie) (subBRC i v)"
  unfolding subBRC_def by (intro keeps_primitives)

lemma keeps_subBallot: "keeps (restorable sha3 trie) (subBallot i v)"
  unfolding subBallot_def by (intro keeps_primitives)

lemma keeps_subPoll: "keeps (restorable sha3 trie) (subPoll i v)"
  unfolding subPoll_def by (intro keeps_primitives)

lemma keeps_setBalance: "keeps (restorable sha3 trie) (setBalance i v)"
  unfolding setBalance_def by (intro keeps_primitives)

lemma keeps_setBRC: "keeps (restorable sha3 trie) (setBRC i v)"
  unfolding setBRC_def by (intro keeps_primitives)

lemma keeps_transferBRC: "keeps (restorable sha3 trie) (transferBRC x y v)"
  unfolding transferBRC_def eseq.simps by (intro keeps_primitives keeps_subBRC)

lemma keeps_transferBalance: "keeps (restorable sha3 trie) (transferBalance x y v)"
  unfolding transferBalance_def eseq.simps by (intro keeps_primitives keeps_subBalance)

text \<open>Frozen amounts: restorable where the account exists, which the subtraction has made sure of.\<close>

lemma keeps_subFBRC: "keeps (restorable sha3 trie) (subFBRC i v)"
proof (rule keepsI)
  fix s show "restorable sha3 trie s (snd (subFBRC i v s))"
    using fbrc.add_restorable [of s i] by (cases "accts s i") (auto simp: subFBRC_def run_simps restorable_refl)
qed

lemma keeps_subFBalance: "keeps (restorable sha3 trie) (subFBalance i v)"
proof (rule keepsI)
  fix s show "restorable sha3 trie s (snd (subFBalance i v s))"
    using fcookie.add_restorable [of s i] by (cases "accts s i") (auto simp: subFBalance_def run_simps restorable_refl)
qed

lemma keeps_freezeBRC: "keeps (restorable sha3 trie) (freezeBRC i v)"
proof (rule keepsI)
  fix s
  obtain r s1 where s1: "subBRC i v s = (r, s1)" by (cases "subBRC i v s")
  have first: "restorable sha3 trie s s1" using keepsD [OF keeps_subBRC, of sha3 trie s i v] s1 by simp
  show "restorable sha3 trie s (snd (freezeBRC i v s))"
  proof (cases r)
    case (Inl e)
    with first s1 show ?thesis by (simp add: freezeBRC_def ebind_def)
  next
    case (Inr x)
    have run: "snd (freezeBRC i v s) = snd (addFBRC i v s1)"
      using s1 Inr by (simp add: freezeBRC_def ebind_def split: prod.splits sum.splits)
    have "restorable sha3 trie s1 (snd (addFBRC i v s1))"
    proof (cases "accts s1 i")
      case None
      with subBRC_account s1 Inr have "v = 0" by (fastforce split: if_splits)
      with None show ?thesis by (simp add: addFBRC_zero_missing restorable_refl)
    qed (rule fbrc.add_restorable)
    with first run show ?thesis by (auto intro: restorable_trans)
  qed
qed

lemma keeps_freezeBalance: "keeps (restorable sha3 trie) (freezeBalance i v)"
proof (rule keepsI)
  fix s
  obtain r s1 where s1: "subBalance i v s = (r, s1)" by (cases "subBalance i v s")
  have first: "restorable sha3 trie s s1" using keepsD [OF keeps_subBalance, of sha3 trie s i v] s1 by simp
  show "restorable sha3 trie s (snd (freezeBalance i v s))"
  proof (cases r)
    case (Inl e)
    with first s1 show ?thesis by (simp add: freezeBalance_def ebind_def)
  next
    case (Inr x)
    have run: "snd (freezeBalance i v s) = snd (addFBalance i v s1)"
      using s1 Inr by (simp add: freezeBalance_def ebind_def split: prod.splits sum.splits)
    have "restorable sha3 trie s1 (snd (addFBalance i v s1))"
    proof (cases "accts s1 i")
      case None
      with subBalance_account s1 Inr have "v = 0" by (fastforce split: if_splits)
      with None show ?thesis by (simp add: addFBalance_zero_missing restorable_refl)
    qed (rule fcookie.add_restorable)
    with first run show ?thesis by (auto intro: restorable_trans)
  qed
qed

text \<open>
  A write through an account pointer followed by the entry that holds the old value.
\<close>

lemma restorable_write:
  assumes "accts s i = Some a" and "entry_of i c" and "undo_account sha3 c (f a) = Some b"
    and "observe trie b = observe trie a"
  shows "restorable sha3 trie s (snd (eseq [upd_account i f, log_change c] s))"
  using restorable_existing [of s i a "[c]" sha3 "f a" b trie] assms
  by (simp add: run_simps)

section \<open>The book\<close>

lemma observe_setExOrder:
  "observe trie (setExOrderMulti (m_exChangeOrder a) (addExOrderMulti od a)) = observe trie a"
  "observe trie (setExOrderMulti (m_exChangeOrder a) (snd (removeExOrderMulti t a))) = observe trie a"
  by (simp_all add: setExOrderMulti_def addExOrderMulti_def removeExOrderMulti_def changed_def observe_view
      split: option.splits)

lemma keeps_add_order: "keeps (restorable sha3 trie) (add_exchangeOrder od)"
proof (rule keepsI)
  fix s show "restorable sha3 trie s (snd (add_exchangeOrder od s))"
  proof (cases "accts s ExdbSystemAddress")
    case (Some a)
    from restorable_write [OF Some, where f = "addExOrderMulti od" and c = "Ch_UpExOrder ExdbSystemAddress (m_exChangeOrder a)"]
    show ?thesis using Some
      by (simp add: add_exchangeOrder_def addExchangeOrder_def ebind_def get_account_def entry_of_def observe_setExOrder)
  qed (simp add: add_exchangeOrder_def addExchangeOrder_def run_simps restorable_refl)
qed

lemma keeps_remove_order: "keeps (restorable sha3 trie) (remove_exchangeOrder t)"
proof (rule keepsI)
  fix s show "restorable sha3 trie s (snd (remove_exchangeOrder t s))"
  proof (cases "accts s ExdbSystemAddress")
    case (Some a)
    from restorable_write [OF Some, where f = "\<lambda>a. snd (removeExOrderMulti t a)"
        and c = "Ch_UpExOrder ExdbSystemAddress (m_exChangeOrder a)"]
    show ?thesis using Some
      by (simp add: remove_exchangeOrder_def removeExchangeOrder_def ebind_def get_account_def entry_of_def
          observe_setExOrder restorable_refl)
  qed (simp add: remove_exchangeOrder_def removeExchangeOrder_def run_simps restorable_refl)
qed

lemma keeps_getExOrder: "keeps (restorable sha3 trie) getExOrder"
  unfolding getExOrder_def by (intro keeps_primitives)

section \<open>The exchange\<close>

interpretation restoring: exchange_steps "restorable sha3 trie" for sha3 trie
  by unfold_locales
    (auto intro: restorable_refl restorable_trans brc.keeps_add cookie.keeps_add keeps_subBRC keeps_subBalance
      keeps_subFBRC keeps_subFBalance keeps_freezeBRC keeps_freezeBalance keeps_add_order keeps_remove_order
      keeps_getExOrder)

section \<open>Transactions\<close>

lemma executeTransaction_restores:
  assumes "keeps (restorable sha3 trie) body"
    and "executeTransaction sha3 body s = (Inl e, s')" and "is_dev_exception e"
  shows "same_state trie s' s"
proof -
  obtain r t where body: "body s = (r, t)" by (cases "body s")
  have "restorable sha3 trie s t" using keepsD [OF assms(1), of s] body by simp
  then obtain u where u: "rollback sha3 (savepoint s) t = (Inr (), u)" "same_state trie u s"
    using restorable_rollback by blast
  show ?thesis
  proof (cases r)
    case (Inl e0)
    with assms(2,3) body u show ?thesis
      by (auto simp: executeTransaction_def Let_def split: if_splits)
  next
    case (Inr x)
    with assms(2) body show ?thesis by (simp add: executeTransaction_def Let_def)
  qed
qed

text \<open>The rollback of a restorable body does not fail, so the exception of the body is the outcome.\<close>

lemma executeTransaction_fails:
  assumes "keeps (restorable sha3 (\<lambda>_ _. 0)) body" and "fst (body s) = Inl e" and "is_dev_exception e"
  shows "fst (executeTransaction sha3 body s) = Inl e"
proof -
  have "restorable sha3 (\<lambda>_ _. 0) s (snd (body s))" using assms(1) by (rule keepsD)
  then obtain u where "rollback sha3 (savepoint s) (snd (body s)) = (Inr (), u)"
    using restorable_rollback by blast
  with assms(2,3) show ?thesis
    by (cases "body s") (simp add: executeTransaction_def Let_def)
qed

end
