(* ===== verification/Voting.thy ===== *)
theory Voting
  imports Atomicity
begin

text \<open>
  The voting members of State.cpp and DposVote.cpp: buying and selling ballots, delegating votes,
  the registers of electors, witnesses and candidates (the vote data of the system accounts),
  the snapshots of a round, the change of rounds, and the records of block creation.
\<close>

section \<open>Ballots\<close>

definition transferBallotBuy :: "address \<Rightarrow> u256 \<Rightarrow> unit st" where
  "transferBallotBuy fromAddr v =
     eseq [subBRC fromAddr (v * BALLOTPRICE), addBRC systemAddress (v * BALLOTPRICE), addBallot fromAddr v]"

definition transferBallotSell :: "address \<Rightarrow> u256 \<Rightarrow> unit st" where
  "transferBallotSell fromAddr v =
     eseq [subBallot fromAddr v, addBRC fromAddr (v * BALLOTPRICE), subBRC systemAddress (v * BALLOTPRICE)]"

section \<open>Reading\<close>

definition vote_data :: "chain_state \<Rightarrow> address \<Rightarrow> PollData list" where
  "vote_data s addr = (case accts s addr of None \<Rightarrow> [] | Some a \<Rightarrow> m_vote_data a)"

definition state_poll_data :: "chain_state \<Rightarrow> address \<Rightarrow> address \<Rightarrow> PollData" where
  "state_poll_data s addr recv = (case accts s addr of None \<Rightarrow> empty_poll | Some a \<Rightarrow> poll_data recv a)"

definition minerMapping :: "chain_state \<Rightarrow> address \<Rightarrow> address \<times> address" where
  "minerMapping s addr = (case accts s addr of None \<Rightarrow> (0, 0) | Some a \<Rightarrow> m_mappingAddress a)"

definition get_miner_snapshot :: "chain_state \<Rightarrow> (u256, PollData list) omap" where
  "get_miner_snapshot s =
     (case accts s SysMinerSnapshotAddress of None \<Rightarrow> [] | Some a \<Rightarrow> cs_sorted_creaters (m_couplingSystemFee a))"

definition last_block_record :: "chain_state \<Rightarrow> address \<Rightarrow> time_ms" where
  "last_block_record s i =
     (case accts s SysBlockCreateRecordAddress of None \<Rightarrow> 0 | Some a \<Rightarrow> last_records i a)"

definition block_record :: "chain_state \<Rightarrow> (address, time_ms) omap" where
  "block_record s = (case accts s SysBlockCreateRecordAddress of None \<Rightarrow> [] | Some a \<Rightarrow> m_block_records a)"

text \<open>The account of an address the code has just looked up and found.\<close>

definition the_account :: "chain_state \<Rightarrow> address \<Rightarrow> account" where
  "the_account s i = (case accts s i of None \<Rightarrow> dead_account | Some a \<Rightarrow> a)"

section \<open>Delegation\<close>

definition vote_time :: "PollData \<Rightarrow> PollData \<Rightarrow> time_ms" where
  "vote_time old p = (if pd_time old > 0 then pd_time old else pd_time p)"

definition in_use3 :: "address \<Rightarrow> address \<Rightarrow> address \<Rightarrow> chain_state \<Rightarrow> bool" where
  "in_use3 i j k s \<longleftrightarrow> addressInUse s i \<and> addressInUse s j \<and> addressInUse s k"

definition add_vote :: "address \<Rightarrow> PollData \<Rightarrow> unit st" where
  "add_vote i p =
     ebind (egets (in_use3 i (pd_addr p) SysElectorAddress)) (\<lambda>ok.
       if \<not> ok then ethrow InvalidAddressAddr
       else
         ebind (egets (\<lambda>s. m_ballot (the_account s i))) (\<lambda>have.
         if have < pd_poll p then ethrow NotEnoughBallot
         else
           ebind (egets (\<lambda>s. poll_data (pd_addr p) (the_account s SysElectorAddress))) (\<lambda>old.
           eseq [
             upd_account i (acc_addBallot (0 - pd_poll p)),
             upd_account_ub i (addVote (pd_addr p, pd_poll p)),
             upd_account (pd_addr p) (acc_addPoll (pd_poll p)),
             ebind (egets (\<lambda>s. m_poll (the_account s (pd_addr p)))) (\<lambda>n.
               upd_account_ub SysElectorAddress
                 (set_system_poll \<lparr>pd_addr = pd_addr p, pd_poll = n, pd_time = vote_time old p\<rparr>)),
             ewhen (pd_poll p \<noteq> 0) (eseq [
               log_change (Ch_Vote i (pd_addr p, 0 - pd_poll p)),
               log_change (Ch_SystemAddressPoll i old),
               log_change (Ch_Ballot i (0 - pd_poll p)),
               log_change (Ch_Poll (pd_addr p) (pd_poll p))])])))"

definition sub_vote :: "address \<Rightarrow> PollData \<Rightarrow> unit st" where
  "sub_vote i p =
     ebind (egets (in_use3 i (pd_addr p) SysElectorAddress)) (\<lambda>ok.
       if \<not> ok then ethrow InvalidAddressAddr
       else
         ebind (egets (\<lambda>s. pd_poll (poll_data (pd_addr p) (the_account s i)))) (\<lambda>voted.
         if voted < pd_poll p then ethrow NotEnoughVoteLog
         else
           ebind (egets (\<lambda>s. poll_data (pd_addr p) (the_account s SysElectorAddress))) (\<lambda>old.
           ebind (egets (\<lambda>s. m_poll (the_account s (pd_addr p)))) (\<lambda>polls.
           let v = (if polls < pd_poll p then polls else pd_poll p) in
           eseq [
             upd_account (pd_addr p) (acc_addPoll (0 - v)),
             upd_account_ub i (addVote (pd_addr p, 0 - v)),
             upd_account i (acc_addBallot v),
             ebind (egets (\<lambda>s. m_poll (the_account s (pd_addr p)))) (\<lambda>n.
               upd_account_ub SysElectorAddress
                 (set_system_poll \<lparr>pd_addr = pd_addr p, pd_poll = n, pd_time = vote_time old p\<rparr>)),
             ewhen (v \<noteq> 0) (eseq [
               log_change (Ch_Vote i (pd_addr p, 0 - v)),
               log_change (Ch_SystemAddressPoll i old),
               log_change (Ch_Ballot i v),
               log_change (Ch_Poll (pd_addr p) (0 - v))])]))))"

definition addSysVoteDate :: "address \<Rightarrow> address \<Rightarrow> unit st" where
  "addSysVoteDate sysAddress i =
     ebind (egets (\<lambda>s. addressInUse s i)) (\<lambda>known.
     ebind (egets (\<lambda>s. addressInUse s sysAddress)) (\<lambda>sysKnown.
     ebind (ewhen (\<not> sysKnown) (ebind requireAccountStartNonce (\<lambda>n. createAccount sysAddress (account_nb n 0)))) (\<lambda>_.
       if \<not> known then ethrow InvalidAddressAddr
       else eseq [upd_account sysAddress (manageSysVote i True 0 0),
                  log_change (Ch_SysVoteData sysAddress (i, True))])))"

definition subSysVoteDate :: "address \<Rightarrow> address \<Rightarrow> unit st" where
  "subSysVoteDate sysAddress i =
     ebind (egets (\<lambda>s. addressInUse s sysAddress)) (\<lambda>sysKnown.
     ebind (get_account i) (\<lambda>r.
       if \<not> sysKnown then ethrow InvalidSysAddress
       else (case r of
         None \<Rightarrow> ethrow InvalidAddressAddr
       | Some a \<Rightarrow> eseq [upd_account sysAddress (manageSysVote i False (m_poll a) 0),
                          log_change (Ch_SysVoteData sysAddress (i, False))])))"

section \<open>Snapshots of a round\<close>

text \<open>\<^verbatim>\<open>createAccount(_addr, {0})\<close> for an address that may be in use already.\<close>

definition ensure_account :: "address \<Rightarrow> unit st" where
  "ensure_account i =
     ebind (egets (\<lambda>s. addressInUse s i)) (\<lambda>known. ewhen (\<not> known) (createAccount i (account_ballot 0)))"

definition try_new_vote_snapshot :: "config \<Rightarrow> address \<Rightarrow> u256 \<Rightarrow> unit st" where
  "try_new_vote_snapshot cfg addr block_num =
     (let cyc = getVotingCycle cfg (uint block_num) in
      if snd cyc = ERRORSTAGE then ereturn ()
      else
        ebind (ensure_account addr) (\<lambda>_.
        ebind (egets (\<lambda>s. the_account s addr)) (\<lambda>a.
        let ret = get_no_record_snapshot (of_nat (fst cyc)) a; vote_sna = m_vote_sapshot a in
        if \<not> fst ret then ereturn ()
        else eseq [
          upd_account_ub addr (try_new_snapshot (snd ret)),
          ewhen (vs_latest_round vote_sna = 0) (eseq [
            upd_account addr clear_vote_data,
            ebind (egets (\<lambda>s. m_poll (the_account s addr))) (subPoll addr),
            log_change (Ch_MinnerSnapshot addr (m_vote_data a))]),
          log_change (Ch_NewVoteSnapshot addr vote_sna),
          ebind (egets (\<lambda>s. m_CooikeIncomeNum (the_account s addr))) (\<lambda>n.
            log_change (Ch_CooikeIncomeNum addr (0 - n))),
          setCookieIncomeNum addr 0])))"

definition trySnapshotWithMinerMapping :: "config \<Rightarrow> address \<Rightarrow> u256 \<Rightarrow> unit st" where
  "trySnapshotWithMinerMapping cfg addr block_num =
     (if snd (getVotingCycle cfg (uint block_num)) = ERRORSTAGE then ereturn ()
      else
        ebind (egets (\<lambda>s. minerMapping s addr)) (\<lambda>mapping.
        eseq [
          ewhen (uint block_num \<ge> newChangeHeight cfg \<and> fst mapping \<noteq> 0 \<and> fst mapping \<noteq> addr \<and> snd mapping = addr)
            (try_new_vote_snapshot cfg (fst mapping) block_num),
          try_new_vote_snapshot cfg addr block_num]))"

text \<open>The sum of the polls of the first \<open>n\<close> witnesses.\<close>

definition rank_polls :: "nat \<Rightarrow> PollData list \<Rightarrow> u256" where
  "rank_polls n ps = fold (\<lambda>p acc. acc + pd_poll p) (take n ps) 0"

definition map_miner :: "chain_state \<Rightarrow> PollData \<Rightarrow> PollData" where
  "map_miner s d = (if fst (minerMapping s (pd_addr d)) \<noteq> 0 then d\<lparr>pd_addr := fst (minerMapping s (pd_addr d))\<rparr> else d)"

definition tryRecordFeeSnapshot :: "config \<Rightarrow> int \<Rightarrow> unit st" where
  "tryRecordFeeSnapshot cfg blockNum =
     (let round = of_nat (fst (getVotingCycle cfg blockNum)) :: u256 in
      ebind (ensure_account PdSystemAddress) (\<lambda>_.
      ebind (egets (\<lambda>s. (the_account s PdSystemAddress, vote_data s SysVarlitorAddress, map_miner s))) (\<lambda>(a, polls, mapped).
      let fee = m_couplingSystemFee a; rounds = cs_rounds fee in
      if \<not> round > rounds then ereturn ()
      else if rounds \<noteq> 0 \<and> (case om_find (cs_sorted_creaters fee) rounds of None \<Rightarrow> True | Some ps \<Rightarrow> ps = [])
      then ereturn ()
      else if get_total_poll rounds 7 fee = 0 \<and> round > 2 then ereturn ()
      else
        (let total = rank_polls minner_rank_num polls;
             remainder_brc = (if total \<noteq> 0 then m_BRC a mod total else 0);
             remainder_balance = (if total \<noteq> 0 then m_balance a mod total else 0);
             vote_datas = (if blockNum \<ge> newChangeHeight cfg then map mapped polls else polls)
         in eseq [
           upd_account PdSystemAddress
             (tryRecordSnapshot cfg round (m_BRC a - remainder_brc) (m_balance a - remainder_balance) vote_datas blockNum),
           setBRC PdSystemAddress remainder_brc,
           setBalance PdSystemAddress remainder_balance,
           log_change (Ch_CoupingSystemFeeSnapshot PdSystemAddress fee)]))))"

section \<open>Votes of a transaction\<close>

text \<open>The type of a vote is the number in the transaction.\<close>

datatype VoteType = ENull | EBuyVote | ESellVote | ELoginCandidate | ELogoutCandidate | EDelegate | EUnDelegate

definition VoteType_of :: "nat \<Rightarrow> VoteType option" where
  "VoteType_of n =
     (if n = 0 then Some ENull else if n = 1 then Some EBuyVote else if n = 2 then Some ESellVote
      else if n = 3 then Some ELoginCandidate else if n = 4 then Some ELogoutCandidate
      else if n = 5 then Some EDelegate else if n = 6 then Some EUnDelegate else None)"

record EnvInfo =
  env_number :: int
  env_timestamp :: time_ms
  env_chain_id :: int
  env_author :: address
  env_gasLimit :: u256
  env_gasUsed :: u256

definition execute_vote_one :: "config \<Rightarrow> address \<Rightarrow> EnvInfo \<Rightarrow> operation \<Rightarrow> unit st" where
  "execute_vote_one cfg addr info val =
     (let block_num = of_int (env_number info) :: u256 in
      case as_vote val of
        None \<Rightarrow> ethrow InvalidDynamic
      | Some p \<Rightarrow>
          (case VoteType_of (vo_vote_type p) of
             Some EBuyVote \<Rightarrow>
               eseq [trySnapshotWithMinerMapping cfg addr block_num, transferBallotBuy addr (vo_vote_numbers p)]
           | Some ESellVote \<Rightarrow>
               eseq [trySnapshotWithMinerMapping cfg addr block_num, transferBallotSell addr (vo_vote_numbers p)]
           | Some ELoginCandidate \<Rightarrow>
               eseq [trySnapshotWithMinerMapping cfg addr block_num, addSysVoteDate SysElectorAddress addr]
           | Some ELogoutCandidate \<Rightarrow>
               eseq [trySnapshotWithMinerMapping cfg addr block_num, subSysVoteDate SysElectorAddress addr]
           | Some EDelegate \<Rightarrow>
               eseq [trySnapshotWithMinerMapping cfg addr block_num,
                     trySnapshotWithMinerMapping cfg (vo_to p) block_num,
                     add_vote addr \<lparr>pd_addr = vo_to p, pd_poll = vo_vote_numbers p, pd_time = env_timestamp info\<rparr>]
           | Some EUnDelegate \<Rightarrow>
               eseq [trySnapshotWithMinerMapping cfg addr block_num,
                     trySnapshotWithMinerMapping cfg (vo_to p) block_num,
                     sub_vote addr \<lparr>pd_addr = vo_to p, pd_poll = vo_vote_numbers p, pd_time = env_timestamp info\<rparr>]
           | _ \<Rightarrow> ereturn ()))"

definition execute_vote :: "config \<Rightarrow> address \<Rightarrow> operation list \<Rightarrow> EnvInfo \<Rightarrow> unit st" where
  "execute_vote cfg addr ops info = efor ops (execute_vote_one cfg addr info)"

text \<open>
  \<^verbatim>\<open>DposVote::verifyVote\<close>. The test \<^verbatim>\<open>dType == EDelegate || dev::brc::EUnDelegate\<close> has a constant
  that is not zero on its right: it holds for every type.
\<close>

definition verifyVote_one :: "config \<Rightarrow> address \<Rightarrow> EnvInfo \<Rightarrow> operation \<Rightarrow> unit st" where
  "verifyVote_one cfg fromAddr info val =
     (case as_vote val of
        None \<Rightarrow> ethrow VerifyVoteField
      | Some p \<Rightarrow>
          (let dType = VoteType_of (vo_vote_type p); n = vo_vote_numbers p in
           if dType \<in> {Some EBuyVote, Some ESellVote, Some EDelegate, Some EUnDelegate} \<and> n \<le> 0
           then ethrow VerifyVoteField
           else if dType = Some ELoginCandidate \<or> dType = Some ELogoutCandidate then ethrow VerifyVoteField
           else if snd (getVotingCycle cfg (env_number info)) \<noteq> VOTE \<and> (dType = Some EDelegate \<or> True)
           then ethrow VerifyVoteField
           else
             ebind (egets (\<lambda>s. s)) (\<lambda>s.
               case dType of
                 Some EBuyVote \<Rightarrow>
                   (if BRC s fromAddr < n * BALLOTPRICE then ethrow VerifyVoteField else ereturn ())
               | Some ESellVote \<Rightarrow>
                   (if ballot s fromAddr < n then ethrow VerifyVoteField
                    else if n * BALLOTPRICE > BRC s systemAddress then ethrow VerifyVoteField
                    else ereturn ())
               | Some EDelegate \<Rightarrow>
                   (if ballot s fromAddr < n then ethrow VerifyVoteField
                    else if pd_addr (state_poll_data s SysElectorAddress (vo_to p)) \<noteq> vo_to p
                    then ethrow VerifyVoteField
                    else ereturn ())
               | Some EUnDelegate \<Rightarrow>
                   (let d = state_poll_data s fromAddr (vo_to p) in
                    if pd_addr d \<noteq> vo_to p \<or> pd_poll d < n then ethrow VerifyVoteField else ereturn ())
               | _ \<Rightarrow> ereturn ())))"

definition verifyVote :: "config \<Rightarrow> address \<Rightarrow> EnvInfo \<Rightarrow> operation list \<Rightarrow> unit st" where
  "verifyVote cfg fromAddr info ops = efor ops (verifyVote_one cfg fromAddr info)"

section \<open>Records of block creation\<close>

definition set_records :: "address \<Rightarrow> int \<Rightarrow> int \<Rightarrow> PollData list \<Rightarrow> account \<Rightarrow> account" where
  "set_records i time varlitor_time ps a =
     (let offset = length (takeWhile (\<lambda>p. pd_addr p \<noteq> i) ps) in
      fold (\<lambda>(index, p) a. if pd_addr p \<noteq> i
              then set_create_record (pd_addr p, time + (int index - int offset) * varlitor_time) a else a)
        (zip [0..<length ps] ps) a)"

definition set_last_block_record :: "address \<Rightarrow> int \<times> int \<Rightarrow> int \<Rightarrow> unit st" where
  "set_last_block_record i val varlitor_time =
     ebind (ensure_account SysBlockCreateRecordAddress) (\<lambda>_.
     ebind (egets (\<lambda>s. last_records i (the_account s SysBlockCreateRecordAddress))) (\<lambda>time.
     ebind (egets (\<lambda>s. accts s SysVarlitorAddress)) (\<lambda>varlitor.
     eseq [
       upd_account SysBlockCreateRecordAddress (set_create_record (i, snd val)),
       (case varlitor of
          Some v \<Rightarrow> ewhen (fst val = 1)
            (upd_account SysBlockCreateRecordAddress (set_records i (snd val) varlitor_time (m_vote_data v)))
        | None \<Rightarrow> ereturn ()),
       log_change (Ch_LastCreateRecord i (i, time))])))"

section \<open>A new round\<close>

fun split_ranks :: "u256 \<Rightarrow> u256 \<Rightarrow> PollData list \<Rightarrow> PollData list \<times> PollData list" where
  "split_ranks vars stands [] = ([], [])"
| "split_ranks vars stands (p # ps) =
     (if vars \<noteq> 0 then (case split_ranks (vars - 1) stands ps of (v, b) \<Rightarrow> (p # v, b))
      else if stands \<noteq> 0 then (case split_ranks vars (stands - 1) ps of (v, b) \<Rightarrow> (v, p # b))
      else split_ranks vars stands ps)"

definition map_elector :: "chain_state \<Rightarrow> PollData \<Rightarrow> PollData" where
  "map_elector s p =
     (if fst (minerMapping s (pd_addr p)) \<noteq> 0 \<and> snd (minerMapping s (pd_addr p)) = pd_addr p
      then p\<lparr>pd_addr := fst (minerMapping s (pd_addr p))\<rparr> else p)"

definition ranked_electors :: "config \<Rightarrow> int \<Rightarrow> chain_state \<Rightarrow> PollData list \<Rightarrow> PollData list" where
  "ranked_electors cfg curr_num s ps =
     (let p_data = sort_greater ps in
      if curr_num \<ge> newChangeHeight cfg then map (map_elector s) p_data else p_data)"

text \<open>The tail of \<^verbatim>\<open>try_newrounds_count_vote\<close>: the new witnesses and candidates replace the old ones.\<close>

definition install_round ::
    "config \<Rightarrow> nat \<Rightarrow> PollData list \<Rightarrow> PollData list \<Rightarrow> PollData list \<times> PollData list \<Rightarrow> unit st" where
  "install_round cfg prev_round vars cans new =
     (if fst new = [] then ereturn ()
      else
        ebind (ensure_account SysMinerSnapshotAddress) (\<lambda>_.
        ebind (egets (\<lambda>s. m_couplingSystemFee (the_account s SysMinerSnapshotAddress))) (\<lambda>fee.
        eseq [
          log_change (Ch_CoupingSystemFeeSnapshot SysMinerSnapshotAddress fee),
          upd_account SysMinerSnapshotAddress (add_new_rounds_miner_sapshot (of_nat prev_round) (vars @ cans)),
          ewhen (prev_round > fst (getVotingCycle cfg 0)) (eseq [
            log_change (Ch_MinnerSnapshot SysVarlitorAddress vars),
            log_change (Ch_MinnerSnapshot SysCanlitorAddress cans),
            upd_account SysVarlitorAddress (set_vote_data (fst new)),
            upd_account SysCanlitorAddress (set_vote_data (snd new))])])))"

definition try_newrounds_count_vote :: "config \<Rightarrow> int \<Rightarrow> int \<Rightarrow> unit st" where
  "try_newrounds_count_vote cfg curr_num previous_num =
     (let prev_round = fst (getVotingCycle cfg previous_num); curr_round = fst (getVotingCycle cfg curr_num) in
      if curr_round \<le> prev_round then ereturn ()
      else
        ebind (tryRecordFeeSnapshot cfg curr_num) (\<lambda>_.
        ebind (egets (\<lambda>s. accts s SysElectorAddress)) (\<lambda>elector. case elector of
          None \<Rightarrow> ereturn ()
        | Some a \<Rightarrow>
            ebind (ensure_account SysVarlitorAddress) (\<lambda>_.
            ebind (ensure_account SysCanlitorAddress) (\<lambda>_.
            ebind (egets (\<lambda>s. s)) (\<lambda>s.
              install_round cfg prev_round (vote_data s SysVarlitorAddress) (vote_data s SysCanlitorAddress)
                (split_ranks (ucast (varlitor_num cfg)) (ucast (standby_num cfg))
                  (ranked_electors cfg curr_num s (m_vote_data a)))))))))"

end
