(* ===== verification/MinerChange.thy ===== *)
theory MinerChange
  imports Voting
begin

text \<open>
  Replacing a witness: \<^verbatim>\<open>State::verifyChangeMiner\<close> and \<^verbatim>\<open>State::changeMiner\<close>, and the gas prices
  the witnesses propose (\<^verbatim>\<open>modifyGasPrice\<close>, \<^verbatim>\<open>changeMinerModifyGasPrice\<close>, \<^verbatim>\<open>initMinerGasPrice\<close>).

  A replaced witness and its current replacement point at each other through the pair
  \<^verbatim>\<open>m_mappingAddress\<close> (the original, the current one). The comment in \<^verbatim>\<open>changeMiner\<close> gives the
  table of a chain of replacements A to B to C to D and back to A; the invariant \<open>mapping_ok\<close> is
  what all rows of that table have in common.
\<close>

section \<open>The operations\<close>

definition has_poll :: "address \<Rightarrow> PollData list \<Rightarrow> bool" where
  "has_poll i ps \<longleftrightarrow> find (is_poll_of i) ps \<noteq> None"

definition first_changeMiner :: "operation list \<Rightarrow> changeMiner_operation option" where
  "first_changeMiner ops = (case ops of [] \<Rightarrow> None | op # _ \<Rightarrow> as_changeMiner op)"

definition ensure_miner :: "address \<Rightarrow> unit st" where
  "ensure_miner i =
     ebind (egets (\<lambda>s. addressInUse s i)) (\<lambda>known.
       ewhen (\<not> known) (ebind requireAccountStartNonce (\<lambda>n. createAccount i (account_nbb n 0 0))))"

definition verifyChangeMiner :: "config \<Rightarrow> address \<Rightarrow> int \<Rightarrow> operation list \<Rightarrow> unit st" where
  "verifyChangeMiner cfg fromAddr number ops =
     (if newChangeHeight cfg > number then ethrow ChangeMinerFailed
      else if ops = [] then ethrow ChangeMinerFailed
      else (case first_changeMiner ops of
        None \<Rightarrow> ethrow ChangeMinerFailed
      | Some pen \<Rightarrow>
          (if fromAddr \<noteq> cm_before pen then ethrow ChangeMinerFailed
           else if cm_after pen = cm_before pen then ethrow ChangeMinerFailed
           else
             ebind (egets (\<lambda>s. s)) (\<lambda>s.
               if \<not> addressInUse s fromAddr then ethrow ChangeMinerFailed
               else if \<not> addressInUse s SysVarlitorAddress \<or> \<not> addressInUse s SysCanlitorAddress
               then ethrow ChangeMinerFailed
               else if \<not> has_poll fromAddr (vote_data s SysVarlitorAddress) \<and>
                       \<not> has_poll fromAddr (vote_data s SysCanlitorAddress)
               then ethrow ChangeMinerFailed
               else if has_poll (cm_after pen) (vote_data s SysVarlitorAddress) \<or>
                       has_poll (cm_after pen) (vote_data s SysCanlitorAddress)
               then ethrow ChangeMinerFailed
               else if \<not> (snd (minerMapping s fromAddr) = 0 \<or> snd (minerMapping s fromAddr) = fromAddr)
               then ethrow ChangeMinerFailed
               else
                 ebind (ensure_miner (cm_after pen)) (\<lambda>_.
                 ebind (egets (\<lambda>s. s)) (\<lambda>s.
                   if fst (minerMapping s (cm_after pen)) \<noteq> 0 \<and> snd (minerMapping s (cm_after pen)) \<noteq> fromAddr
                   then ethrow ChangeMinerFailed
                   else if number > gasPriceHeight cfg then
                     (case accts s GaspriceAddress of
                        None \<Rightarrow> ethrow ChangeMinerFailed
                      | Some g \<Rightarrow>
                          (if \<not> om_count (m_minerGasPrice g) (cm_before pen) then ethrow ChangeMinerFailed
                           else if om_count (m_minerGasPrice g) (cm_after pen) then ethrow ChangeMinerFailed
                           else ereturn ()))
                   else ereturn ()))))))"

text \<open>The part of \<^verbatim>\<open>changeMiner\<close> that moves the mapping, after the registers were changed.\<close>

definition set_mapping :: "address \<Rightarrow> address \<times> address \<Rightarrow> unit st" where
  "set_mapping i p = upd_account i (setChangeMiner p)"

definition log_mapping :: "address \<Rightarrow> unit st" where
  "log_mapping i = ebind (egets (\<lambda>s. minerMapping s i)) (\<lambda>p. log_change (Ch_NewChangeMiner i p))"

definition chain_mapping :: "address \<Rightarrow> address \<Rightarrow> unit st" where
  "chain_mapping start after = eseq [ensure_miner start, log_mapping start, set_mapping start (start, after)]"

definition link_mapping :: "address \<Rightarrow> address \<Rightarrow> address \<Rightarrow> unit st" where
  "link_mapping before_addr before after =
     eseq [
       log_mapping before,
       log_mapping after,
       set_mapping after (before_addr, after),
       ewhen (before_addr = after) (set_mapping after (0, 0)),
       set_mapping before (before_addr, after),
       ebind (egets (\<lambda>s. minerMapping s before)) (\<lambda>m.
         ewhen (snd m \<noteq> before \<and> fst m \<noteq> before) (set_mapping before (0, 0)))]"

definition move_mapping :: "address \<Rightarrow> address \<Rightarrow> unit st" where
  "move_mapping before after =
     ebind (egets (\<lambda>s. fst (minerMapping s before))) (\<lambda>start.
       if start \<noteq> 0 \<and> start \<noteq> before
       then eseq [chain_mapping start after, link_mapping start before after]
       else link_mapping before before after)"

definition replace_poll :: "address \<Rightarrow> address \<Rightarrow> PollData list \<Rightarrow> PollData list" where
  "replace_poll before after ps = update_first (is_poll_of before) (\<lambda>p. p\<lparr>pd_addr := after\<rparr>) ps"

definition changeMiner :: "operation list \<Rightarrow> unit st" where
  "changeMiner ops =
     (if ops = [] then ethrow InvalidFunction
      else (case first_changeMiner ops of
        None \<Rightarrow> ethrow InvalidDynamic
      | Some pen \<Rightarrow>
          ebind (egets (\<lambda>s. s)) (\<lambda>s.
            if \<not> addressInUse s (cm_before pen) then ethrow InvalidAddressAddr
            else if \<not> addressInUse s SysVarlitorAddress \<or> \<not> addressInUse s SysCanlitorAddress
            then ethrow InvalidMinner
            else if \<not> has_poll (cm_before pen) (vote_data s SysVarlitorAddress) \<and>
                    \<not> has_poll (cm_before pen) (vote_data s SysCanlitorAddress)
            then ethrow InvalidFunction
            else if \<not> (snd (minerMapping s (cm_before pen)) = 0 \<or>
                        snd (minerMapping s (cm_before pen)) = cm_before pen)
            then ethrow InvalidFunction
            else
              (let change_addr = (if has_poll (cm_before pen) (vote_data s SysVarlitorAddress)
                                  then SysVarlitorAddress else SysCanlitorAddress);
                   miners = vote_data s change_addr
               in eseq [
                 ensure_miner (cm_after pen),
                 upd_account change_addr (set_vote_data (replace_poll (cm_before pen) (cm_after pen) miners)),
                 move_mapping (cm_before pen) (cm_after pen),
                 log_change (Ch_MinnerSnapshot change_addr miners)]))))"

section \<open>Gas prices of the witnesses\<close>

definition modifyGasPrice_one :: "operation \<Rightarrow> unit st" where
  "modifyGasPrice_one val =
     (case as_modifyMinerGasPrice val of
        None \<Rightarrow> ethrow UndefinedBehaviour
      | Some op \<Rightarrow>
          ebind (get_account GaspriceAddress) (\<lambda>r. case r of
            None \<Rightarrow> ethrow UndefinedBehaviour
          | Some a \<Rightarrow> eseq [
              upd_account GaspriceAddress (setMinerGasPrice (mg_proposer op) (mg_proposedAmount op)),
              log_change (Ch_MinerGasPrice GaspriceAddress (m_minerGasPrice a))]))"

definition modifyGasPrice :: "operation list \<Rightarrow> unit st" where
  "modifyGasPrice ops = efor ops modifyGasPrice_one"

definition rename_price :: "address \<Rightarrow> address \<Rightarrow> (address, u256) omap \<Rightarrow> (address, u256) omap" where
  "rename_price before after m =
     (case om_find m before of None \<Rightarrow> m | Some price \<Rightarrow> om_insert after price (om_erase before m))"

definition changeMinerModifyGasPrice_one :: "operation \<Rightarrow> unit st" where
  "changeMinerModifyGasPrice_one val =
     (case as_changeMiner val of
        None \<Rightarrow> ethrow ChangeMinerFailed
      | Some op \<Rightarrow>
          ebind (get_account GaspriceAddress) (\<lambda>r. case r of
            None \<Rightarrow> ethrow ChangeMinerFailed
          | Some a \<Rightarrow> eseq [
              upd_account GaspriceAddress
                (setMinerGasPrices (rename_price (cm_before op) (cm_after op) (m_minerGasPrice a))),
              log_change (Ch_MinerGasPrice GaspriceAddress (m_minerGasPrice a))]))"

definition changeMinerModifyGasPrice :: "operation list \<Rightarrow> unit st" where
  "changeMinerModifyGasPrice ops = efor ops changeMinerModifyGasPrice_one"

definition getAveragegasPrice :: "chain_state \<Rightarrow> u256" where
  "getAveragegasPrice s = (case accts s GaspriceAddress of None \<Rightarrow> 0 | Some a \<Rightarrow> getAverageGasPrice a)"

definition initMinerGasPrice :: "config \<Rightarrow> int \<Rightarrow> unit st" where
  "initMinerGasPrice cfg number =
     ewhen (gasPriceHeight cfg = number)
       (ebind (egets (\<lambda>s. (accts s SysVarlitorAddress, accts s SysCanlitorAddress, addressInUse s GaspriceAddress)))
         (\<lambda>(miner, can, known). case (miner, can) of
            (Some m, Some c) \<Rightarrow> eseq [
              ewhen (\<not> known) (createAccount GaspriceAddress (account_nb 0 0)),
              upd_account GaspriceAddress (\<lambda>a.
                fold (\<lambda>v. setMinerGasPrice (pd_addr v) 10) (m_vote_data m @ m_vote_data c) a)]
          | _ \<Rightarrow> ereturn ()))"

section \<open>The mapping\<close>

text \<open>What \<open>move_mapping\<close> does to the mapping, as a function update.\<close>

definition chain_start :: "(address \<Rightarrow> address \<times> address) \<Rightarrow> address \<Rightarrow> address" where
  "chain_start M before = (if fst (M before) \<noteq> 0 \<and> fst (M before) \<noteq> before then fst (M before) else before)"

definition link_spec ::
    "(address \<Rightarrow> address \<times> address) \<Rightarrow> address \<Rightarrow> address \<Rightarrow> address \<Rightarrow> address \<Rightarrow> address \<times> address" where
  "link_spec M st before after =
     M(after := (if st = after then (0, 0) else (st, after)),
       before := (if after \<noteq> before \<and> st \<noteq> before then (0, 0) else (st, after)))"

definition move_spec ::
    "(address \<Rightarrow> address \<times> address) \<Rightarrow> address \<Rightarrow> address \<Rightarrow> address \<Rightarrow> address \<times> address" where
  "move_spec M before after =
     (let st = chain_start M before in
      if st = before then link_spec M before before after
      else link_spec (M(st := (st, after))) st before after)"

lemma addressInUse_iff: "addressInUse s i \<longleftrightarrow> accts s i \<noteq> None"
  by (simp add: addressInUse_def split: option.split)

lemma set_mapping_run:
  "addressInUse s i \<Longrightarrow> \<exists>s'. set_mapping i p s = (Inr (), s') \<and> minerMapping s' = (minerMapping s)(i := p) \<and>
     addressInUse s' = addressInUse s"
  by (auto simp: set_mapping_def upd_account_def minerMapping_def addressInUse_iff setChangeMiner_def changed_def
      fun_eq_iff)

lemma log_mapping_run:
  "\<exists>s'. log_mapping i s = (Inr (), s') \<and> minerMapping s' = minerMapping s \<and> addressInUse s' = addressInUse s"
  by (auto simp: log_mapping_def log_change_def ebind_def minerMapping_def addressInUse_iff fun_eq_iff)

lemma ensure_miner_run:
  "ensure_miner i s = (Inr x, s') \<Longrightarrow>
   minerMapping s' = minerMapping s \<and> addressInUse s' = (addressInUse s)(i := True)"
  by (auto simp: ensure_miner_def run_simps minerMapping_def addressInUse_iff account_nbb_def dead_account_def
      fun_eq_iff split: if_splits option.splits)

lemma set_mappingD:
  "set_mapping i p s = (Inr x, s') \<Longrightarrow> addressInUse s i \<Longrightarrow>
   minerMapping s' = (minerMapping s)(i := p) \<and> addressInUse s' = addressInUse s"
  using set_mapping_run [of s i p] by auto

lemma log_mappingD:
  "log_mapping i s = (Inr x, s') \<Longrightarrow> minerMapping s' = minerMapping s \<and> addressInUse s' = addressInUse s"
  using log_mapping_run [of i s] by auto

lemma chain_mapping_spec:
  assumes "chain_mapping st after s = (Inr x, s')"
  shows "minerMapping s' = (minerMapping s)(st := (st, after)) \<and> addressInUse s' = (addressInUse s)(st := True)"
proof -
  from assms obtain s1 s2 where "ensure_miner st s = (Inr (), s1)" "log_mapping st s1 = (Inr (), s2)"
      "set_mapping st (st, after) s2 = (Inr (), s')"
    by (auto simp: chain_mapping_def elim!: ebind_InrE)
  then show ?thesis using ensure_miner_run log_mappingD set_mappingD by (metis fun_upd_same)
qed

lemma link_mapping_spec:
  assumes "link_mapping st before after s = (Inr x, s')" and "addressInUse s before" and "addressInUse s after"
  shows "minerMapping s' = link_spec (minerMapping s) st before after"
proof -
  from assms(1) obtain s2 s3 s4 s5 s6 where
      s2: "log_mapping before s = (Inr (), s2)" and s3: "log_mapping after s2 = (Inr (), s3)"
    and s4: "set_mapping after (st, after) s3 = (Inr (), s4)"
    and s5: "ewhen (st = after) (set_mapping after (0, 0)) s4 = (Inr (), s5)"
    and s6: "set_mapping before (st, after) s5 = (Inr (), s6)"
    and s7: "ewhen (snd (minerMapping s6 before) \<noteq> before \<and> fst (minerMapping s6 before) \<noteq> before)
        (set_mapping before (0, 0)) s6 = (Inr (), s')"
    unfolding link_mapping_def eseq.simps by (auto elim!: ebind_InrE simp del: ewhen_run)
  have m3: "minerMapping s3 = minerMapping s" "addressInUse s3 = addressInUse s"
    using log_mappingD [OF s2] log_mappingD [OF s3] by auto
  have m4: "minerMapping s4 = (minerMapping s)(after := (st, after))" "addressInUse s4 = addressInUse s"
    using set_mappingD [OF s4] assms(3) m3 by auto
  have m5: "minerMapping s5 = (minerMapping s)(after := (if st = after then (0, 0) else (st, after)))"
    "addressInUse s5 = addressInUse s"
    using s5 set_mappingD [of after "(0, 0)" s4] assms(3) m4 by (auto split: if_splits)
  have m6: "minerMapping s6 = (minerMapping s5)(before := (st, after))" "addressInUse s6 = addressInUse s"
    using set_mappingD [OF s6] assms(2) m5 by auto
  have "minerMapping s' = (minerMapping s5)(before := (if after \<noteq> before \<and> st \<noteq> before then (0, 0) else (st, after)))"
    using s7 set_mappingD [of before "(0, 0)" s6] assms(2) m6 by (auto split: if_splits)
  then show ?thesis by (simp add: link_spec_def m5)
qed

lemma move_mapping_spec:
  assumes "move_mapping before after s = (Inr x, s')" and "addressInUse s before" and "addressInUse s after"
  shows "minerMapping s' = move_spec (minerMapping s) before after"
proof (cases "fst (minerMapping s before) \<noteq> 0 \<and> fst (minerMapping s before) \<noteq> before")
  case True
  let ?st = "fst (minerMapping s before)"
  have st: "chain_start (minerMapping s) before = ?st" using True by (simp add: chain_start_def)
  from assms(1) True obtain s1 where s1: "chain_mapping ?st after s = (Inr (), s1)"
      and s2: "link_mapping ?st before after s1 = (Inr (), s')"
    by (auto simp: move_mapping_def elim!: ebind_InrE)
  from chain_mapping_spec [OF s1] link_mapping_spec [OF s2] assms(2,3) True show ?thesis
    by (simp add: move_spec_def st Let_def)
next
  case False
  then have st: "chain_start (minerMapping s) before = before" by (auto simp: chain_start_def)
  from assms(1) False have "link_mapping before before after s = (Inr x, s')"
    by (auto simp: move_mapping_def ebind_def)
  from link_mapping_spec [OF this assms(2,3)] show ?thesis by (simp add: move_spec_def st)
qed

text \<open>
  The invariant of the table: a pair that is set belongs to a replaced witness \<open>a\<close> and its current
  replacement \<open>b\<close>, and both hold it.
\<close>

definition paired :: "(address \<Rightarrow> address \<times> address) \<Rightarrow> address \<Rightarrow> address \<Rightarrow> bool" where
  "paired M a b \<longleftrightarrow> a \<noteq> 0 \<and> b \<noteq> 0 \<and> a \<noteq> b \<and> M a = (a, b) \<and> M b = (a, b)"

definition mapping_ok :: "(address \<Rightarrow> address \<times> address) \<Rightarrow> bool" where
  "mapping_ok M \<longleftrightarrow> (\<forall>x. M x = (0, 0) \<or> (\<exists>a b. M x = (a, b) \<and> (x = a \<or> x = b) \<and> paired M a b))"

lemma mapping_okE:
  assumes "mapping_ok M"
  obtains "M x = (0, 0)" | a b where "M x = (a, b)" "x = a \<or> x = b" "paired M a b"
  using assms unfolding mapping_ok_def by metis

text \<open>Clearing or setting a set of addresses keeps the other pairs.\<close>

lemma mapping_ok_update:
  assumes "mapping_ok M" and "\<And>x. x \<notin> C \<Longrightarrow> N x = M x"
    and "\<And>x. x \<in> C \<Longrightarrow> N x = (0, 0) \<or> (\<exists>a b. N x = (a, b) \<and> (x = a \<or> x = b) \<and> paired N a b)"
    and "\<And>a b. paired M a b \<Longrightarrow> a \<in> C \<longleftrightarrow> b \<in> C"
  shows "mapping_ok N"
  unfolding mapping_ok_def
proof
  fix x
  show "N x = (0, 0) \<or> (\<exists>a b. N x = (a, b) \<and> (x = a \<or> x = b) \<and> paired N a b)"
  proof (cases "x \<in> C")
    case False
    show ?thesis
    proof (rule mapping_okE [OF assms(1), of x])
      fix a b assume ab: "M x = (a, b)" "x = a \<or> x = b" "paired M a b"
      with False assms(4) have "a \<notin> C" "b \<notin> C" by auto
      with ab assms(2) have "paired N a b" by (auto simp: paired_def)
      with ab False assms(2) show ?thesis by auto
    qed (use False assms(2) in simp)
  qed (rule assms(3))
qed

lemma move_spec_ok:
  assumes ok: "mapping_ok M" and nz: "before \<noteq> 0" "after \<noteq> 0" and neq: "before \<noteq> after"
    and may: "snd (M before) = 0 \<or> snd (M before) = before"
    and free: "fst (M after) = 0 \<or> snd (M after) = before"
  shows "mapping_ok (move_spec M before after)"
proof (rule mapping_okE [OF ok, of before])
  assume b0: "M before = (0, 0)"
  then have st: "chain_start M before = before" by (simp add: chain_start_def)
  have a0: "M after = (0, 0)"
    by (rule mapping_okE [OF ok, of after]) (use free b0 in \<open>auto simp: paired_def\<close>)
  have N: "move_spec M before after = M(after := (before, after), before := (before, after))"
    using neq by (simp add: move_spec_def st link_spec_def)
  show ?thesis
    by (rule mapping_ok_update [OF ok, where C = "{before, after}"])
      (use nz neq b0 a0 in \<open>auto simp: N paired_def\<close>)
next
  fix a b assume ab: "M before = (a, b)" "before = a \<or> before = b" "paired M a b"
  with may nz have b: "b = before" by (auto simp: paired_def)
  with ab have st: "chain_start M before = a" by (auto simp: chain_start_def paired_def)
  have a0: "after = a \<or> M after = (0, 0)"
    by (rule mapping_okE [OF ok, of after]) (use free ab b neq in \<open>auto simp: paired_def\<close>)
  have N: "move_spec M before after = M(a := (a, after),
      after := (if a = after then (0, 0) else (a, after)), before := (0, 0))"
    using ab b neq by (auto simp: move_spec_def st link_spec_def paired_def)
  show ?thesis
    by (rule mapping_ok_update [OF ok, where C = "{a, before, after}"])
      (use nz neq ab b a0 in \<open>auto simp: N paired_def\<close>)
qed

section \<open>A verified change keeps the invariant\<close>

lemma verifyChangeMiner_spec:
  assumes "verifyChangeMiner cfg fromAddr n ops s = (Inr x, s')" and "first_changeMiner ops = Some pen"
  shows "minerMapping s' = minerMapping s \<and> cm_before pen = fromAddr \<and> cm_after pen \<noteq> fromAddr \<and>
    (snd (minerMapping s fromAddr) = 0 \<or> snd (minerMapping s fromAddr) = fromAddr) \<and>
    (fst (minerMapping s (cm_after pen)) = 0 \<or> snd (minerMapping s (cm_after pen)) = fromAddr)"
proof -
  from assms obtain s1 where
      "ensure_miner (cm_after pen) s = (Inr (), s1)" "s' = s1"
    and *: "cm_before pen = fromAddr" "cm_after pen \<noteq> fromAddr"
      "snd (minerMapping s fromAddr) = 0 \<or> snd (minerMapping s fromAddr) = fromAddr"
      "fst (minerMapping s1 (cm_after pen)) = 0 \<or> snd (minerMapping s1 (cm_after pen)) = fromAddr"
    by (auto simp: verifyChangeMiner_def split: if_splits option.splits elim!: ebind_InrE)
  then show ?thesis using ensure_miner_run by metis
qed

lemma set_vote_data_mapping:
  "upd_account c (set_vote_data v) s = (Inr x, s') \<Longrightarrow>
   minerMapping s' = minerMapping s \<and> addressInUse s' = addressInUse s"
  by (cases "accts s c") (auto simp: upd_account_def minerMapping_def addressInUse_iff set_vote_data_def changed_def
      fun_eq_iff split: if_splits)

lemma changeMiner_spec:
  assumes "changeMiner ops s = (Inr x, s')" and "first_changeMiner ops = Some pen"
  shows "minerMapping s' = move_spec (minerMapping s) (cm_before pen) (cm_after pen)"
proof -
  let ?c = "if has_poll (cm_before pen) (vote_data s SysVarlitorAddress) then SysVarlitorAddress else SysCanlitorAddress"
  let ?set = "upd_account ?c (set_vote_data (replace_poll (cm_before pen) (cm_after pen) (vote_data s ?c)))"
  from assms obtain s1 s2 s3 where use: "addressInUse s (cm_before pen)"
    and s1: "ensure_miner (cm_after pen) s = (Inr (), s1)"
    and s2: "?set s1 = (Inr (), s2)"
    and s3: "move_mapping (cm_before pen) (cm_after pen) s2 = (Inr (), s3)"
    and s4: "log_change (Ch_MinnerSnapshot ?c (vote_data s ?c)) s3 = (Inr (), s')"
    unfolding changeMiner_def Let_def eseq.simps
    by (auto split: if_splits option.splits elim!: ebind_InrE)
  have m1: "minerMapping s1 = minerMapping s" "addressInUse s1 = (addressInUse s)(cm_after pen := True)"
    using ensure_miner_run [OF s1] by auto
  have m2: "minerMapping s2 = minerMapping s1" "addressInUse s2 = addressInUse s1"
    using set_vote_data_mapping [OF s2] by auto
  have "minerMapping s3 = move_spec (minerMapping s2) (cm_before pen) (cm_after pen)"
    using move_mapping_spec [OF s3] use m1 m2 by simp
  moreover have "minerMapping s' = minerMapping s3"
    using s4 by (auto simp: log_change_def minerMapping_def fun_eq_iff)
  ultimately show ?thesis using m1 m2 by simp
qed

lemma verified_change_ok:
  assumes "mapping_ok (minerMapping s)" and "first_changeMiner ops = Some pen"
    and "cm_before pen \<noteq> 0" and "cm_after pen \<noteq> 0"
    and "eseq [verifyChangeMiner cfg fromAddr n ops, changeMiner ops] s = (Inr x, s')"
  shows "mapping_ok (minerMapping s')"
proof -
  from assms(5) obtain s1 where s1: "verifyChangeMiner cfg fromAddr n ops s = (Inr (), s1)"
      "changeMiner ops s1 = (Inr (), s')"
    by (auto elim!: ebind_InrE)
  note v = verifyChangeMiner_spec [OF s1(1) assms(2)]
  have "mapping_ok (move_spec (minerMapping s) (cm_before pen) (cm_after pen))"
    using assms(1,3,4) v by (intro move_spec_ok) auto
  with changeMiner_spec [OF s1(2) assms(2)] v show ?thesis by simp
qed

text \<open>Renaming a proposed gas price keeps the average.\<close>

lemma rename_price_std: "rename_price before after m = std_map.rename before after m"
  by (simp add: rename_price_def std_map.rename_def)

section \<open>Properties\<close>

text \<open>
  C33. The mapping of replaced witnesses stays consistent: every address is unmapped or is one end of a
  pair that both ends record alike, and a change of one nonzero address to another that passes its
  verification keeps it so, whatever chain of replacements came before. The verification itself does
  not refuse the zero address, for which this fails.
\<close>

theorem changeMiner_keeps_mapping:
  assumes "mapping_ok (minerMapping s)" and "first_changeMiner ops = Some pen"
    and "cm_before pen \<noteq> 0" and "cm_after pen \<noteq> 0"
    and "eseq [verifyChangeMiner cfg fromAddr n ops, changeMiner ops] s = (Inr x, s')"
  shows "mapping_ok (minerMapping s')"
  using assms by (rule verified_change_ok)

definition miner_state :: chain_state where
  "miner_state = \<lparr>accts =
     [5 \<mapsto> account_nbb 0 100 0, SysVarlitorAddress \<mapsto> (account_ballot 0)\<lparr>m_vote_data := [\<lparr>pd_addr = 5, pd_poll = 10, pd_time = 3\<rparr>]\<rparr>,
      SysCanlitorAddress \<mapsto> account_ballot 0],
     changeLog = [], accountStartNonce = 0\<rparr>"

definition miner_ops :: "operation list" where
  "miner_ops = [Op_changeMiner \<lparr>cm_before = 5, cm_after = 7\<rparr>]"

lemma miner_state_mapping: "minerMapping miner_state = (\<lambda>_. (0, 0))"
  by (auto simp: minerMapping_def miner_state_def account_nbb_def account_ballot_def dead_account_def fun_eq_iff)

theorem changeMiner_keeps_mapping_witness:
  "\<exists>s'. eseq [verifyChangeMiner default_config 5 10000000 miner_ops, changeMiner miner_ops] miner_state = (Inr (), s') \<and>
    mapping_ok (minerMapping s')"
proof -
  let ?run = "eseq [verifyChangeMiner default_config 5 10000000 miner_ops, changeMiner miner_ops] miner_state"
  have "fst ?run = Inr ()" by code_simp
  then have run: "?run = (Inr (), snd ?run)" by (cases ?run) simp
  have "mapping_ok (minerMapping miner_state)" by (simp add: miner_state_mapping mapping_ok_def)
  from changeMiner_keeps_mapping [OF this _ _ _ run, of "\<lparr>cm_before = 5, cm_after = 7\<rparr>"] run show ?thesis
    by (auto simp: miner_ops_def first_changeMiner_def as_changeMiner_def)
qed

end
