(* ===== verification/Income.thy ===== *)
theory Income
  imports MinerChange
begin

text \<open>
  Distributing fees: the block fees of a witness (\<^verbatim>\<open>receivingBlockFeeIncome\<close>), the fees of the
  exchange collected in \<^verbatim>\<open>PdSystemAddress\<close> (\<^verbatim>\<open>anytime_receivingPdFeeIncome\<close>), the one-off dividend,
  and \<^verbatim>\<open>receivingIncome\<close>, which dispatches a transaction. A witness keeps its fee less the part of
  its voters; a voter gets its votes times the fee per vote.
\<close>

section \<open>Splitting a fee\<close>

definition voter_fee :: "u256 \<Rightarrow> u256 \<Rightarrow> u256 \<Rightarrow> u256" where
  "voter_fee fee polls votes = fee div 2 div polls * votes"

definition witness_fee :: "u256 \<Rightarrow> u256 \<Rightarrow> u256" where
  "witness_fee fee polls = fee - (fee div 2 div polls * polls)"

definition node_share :: "u256 \<Rightarrow> u256 \<Rightarrow> u256 \<Rightarrow> u256" where
  "node_share summary total_polls polls = summary div total_polls * polls"

section \<open>Block fees\<close>

text \<open>
  The fee of a round: the recorded summary of the next round, or the running income when that
  round is the current one.
\<close>

definition round_fee :: "u256 \<Rightarrow> u256 \<Rightarrow> account \<Rightarrow> u256" where
  "round_fee current k a =
     (if k + 1 < current then
        (case om_find (vs_blockSummaryHistory (m_vote_sapshot a)) (k + 1) of None \<Rightarrow> 0 | Some f \<Rightarrow> f)
      else m_CooikeIncomeNum a)"

definition add_total :: "address \<Rightarrow> u256 \<Rightarrow> u256 \<Rightarrow> (address, u256 \<times> u256) omap \<Rightarrow> (address, u256 \<times> u256) omap" where
  "add_total i first' second' m =
     (case om_find m i of
        None \<Rightarrow> om_insert i (first', second') m
      | Some p \<Rightarrow> om_insert i (fst p, snd p + second') m)"

text \<open>One vote of a round: the account voted for must exist and hold a snapshot of the round.\<close>

definition vote_income ::
    "config \<Rightarrow> int \<Rightarrow> u256 \<Rightarrow> u256 \<Rightarrow> address \<times> u256 \<Rightarrow> (address, u256 \<times> u256) omap \<Rightarrow> (address, u256 \<times> u256) omap st" where
  "vote_income cfg blockNum current k vote totalMap =
     ebind (get_account (fst vote)) (\<lambda>r. case r of
       None \<Rightarrow> ethrow UndefinedBehaviour
     | Some _ \<Rightarrow>
         ebind (trySnapshotWithMinerMapping cfg (fst vote) (of_int blockNum)) (\<lambda>_.
         ebind (egets (\<lambda>s. the_account s (fst vote))) (\<lambda>pa.
           case om_find (vs_pollNumHistory (m_vote_sapshot pa)) k of
             None \<Rightarrow> ethrow UndefinedBehaviour
           | Some polls \<Rightarrow>
               ereturn (if polls > 0
                 then (let f = voter_fee (round_fee current k pa) polls (snd vote) in add_total (fst vote) f f totalMap)
                 else totalMap))))"

text \<open>
  Paying out the totals of a round: what was received of it before, by the record the function
  started with, is subtracted.
\<close>

definition already_received :: "ReceivedCookies \<Rightarrow> u256 \<Rightarrow> address \<Rightarrow> u256" where
  "already_received r k i =
     (case om_find (rc_received_cookies r) k of
        None \<Rightarrow> 0
      | Some m \<Rightarrow> (case om_find m i of None \<Rightarrow> 0 | Some p \<Rightarrow> snd p))"

definition pay_total ::
    "address \<Rightarrow> ReceivedCookies \<Rightarrow> u256 \<Rightarrow> address \<times> (u256 \<times> u256) \<Rightarrow> u256 \<Rightarrow> u256 st" where
  "pay_total addr received k t cookieFee =
     ebind (upd_account addr (addSetreceivedCookie (k + 1) (fst t) (snd t))) (\<lambda>_.
       ereturn (cookieFee + (snd (snd t) - already_received received (k + 1) (fst t))))"

definition round_income ::
    "config \<Rightarrow> int \<Rightarrow> address \<Rightarrow> ReceivedCookies \<Rightarrow> VoteSnapshot \<Rightarrow> u256 \<Rightarrow>
     u256 \<times> (address, u256) omap \<Rightarrow> u256 \<Rightarrow> u256 st" where
  "round_income cfg blockNum addr received snap current rd cookieFee =
     (case om_find (vs_pollNumHistory snap) (fst rd) of
        None \<Rightarrow> ethrow UndefinedBehaviour
      | Some polls \<Rightarrow>
          ebind (egets (\<lambda>s. round_fee current (fst rd) ((the_account s addr)\<lparr>m_vote_sapshot := snap\<rparr>))) (\<lambda>fee.
          ebind (efold (vote_income cfg blockNum current (fst rd)) (snd rd)
                  (if polls > 0 then [(addr, (fee, witness_fee fee polls))] else [])) (\<lambda>totalMap.
          efold (pay_total addr received (fst rd)) totalMap cookieFee)))"

definition receivingBlockFeeIncome :: "config \<Rightarrow> address \<Rightarrow> int \<Rightarrow> u256 st" where
  "receivingBlockFeeIncome cfg addr blockNum =
     ebind (get_account addr) (\<lambda>r. case r of
       None \<Rightarrow> ethrow UndefinedBehaviour
     | Some a \<Rightarrow>
         (let received = m_received_cookies a; snap = m_vote_sapshot a;
              current = of_nat (fst (getVotingCycle cfg blockNum));
              start = getvoteRound (rc_numberofRound received) - 1;
              todo = dropWhile (\<lambda>rd. fst rd \<noteq> start) (vs_voteDataHistory snap)
          in ebind (efold (round_income cfg blockNum addr received snap current) todo 0) (\<lambda>cookieFee.
             ebind (eseq [
               addBalance addr cookieFee,
               upd_account addr (updateNumofround current),
               log_change (Ch_ReceiveCookies addr received)]) (\<lambda>_.
             ereturn cookieFee))))"

section \<open>Exchange fees\<close>

record pd_acc =
  pa_cookies :: u256
  pa_brcs :: u256
  pa_update :: bool
  pa_fee :: CouplingSystemfee
  pa_old_summary :: "u256 \<times> u256"

text \<open>One witness of a round; \<open>summary\<close> is the pair of BRC and cookies to share.\<close>

definition pd_node ::
    "address \<Rightarrow> CouplingSystemfee \<Rightarrow> (address, u256) omap \<Rightarrow> u256 \<Rightarrow> u256 \<times> u256 \<Rightarrow> u256 \<Rightarrow> PollData \<Rightarrow> pd_acc \<Rightarrow> pd_acc" where
  "pd_node addr received vote_log i summary totalPoll val acc =
     (if pd_poll val = 0 then acc
      else if addr \<noteq> pd_addr val \<and> \<not> om_count vote_log (pd_addr val) then acc
      else
        (let node_cookies = node_share (snd summary) totalPoll (pd_poll val);
             node_brcs = node_share (fst summary) totalPoll (pd_poll val);
             old_get = (case om_find (cs_received_cookies received) i of
                          None \<Rightarrow> (0, 0)
                        | Some m \<Rightarrow> (case om_find m (pd_addr val) of None \<Rightarrow> (0, 0) | Some p \<Rightarrow> p))
         in if snd old_get \<ge> node_cookies \<and> fst old_get \<ge> node_brcs then acc
            else
              (let votes = (case om_find vote_log (pd_addr val) of None \<Rightarrow> 0 | Some n \<Rightarrow> n);
                   brcs = (if addr = pd_addr val then witness_fee node_brcs (pd_poll val) else 0) +
                     (if om_count vote_log (pd_addr val) then voter_fee node_brcs (pd_poll val) votes else 0);
                   cookies = (if addr = pd_addr val then witness_fee node_cookies (pd_poll val) else 0) +
                     (if om_count vote_log (pd_addr val) then voter_fee node_cookies (pd_poll val) votes else 0)
               in acc\<lparr>pa_fee := up_received_cookies_brcs i (pd_addr val) (brcs, cookies) summary (pa_fee acc),
                      pa_brcs := pa_brcs acc + (if brcs > fst old_get then brcs - fst old_get else 0),
                      pa_cookies := pa_cookies acc + (if cookies > snd old_get then cookies - snd old_get else 0),
                      pa_update := (pa_update acc \<or> brcs > fst old_get \<or> cookies > snd old_get),
                      pa_old_summary := (0, 0)\<rparr>)))"

definition pd_round ::
    "config \<Rightarrow> int \<Rightarrow> address \<Rightarrow> CouplingSystemfee \<Rightarrow> CouplingSystemfee \<Rightarrow> VoteSnapshot \<Rightarrow> nat \<Rightarrow>
     PollData list \<Rightarrow> u256 \<Rightarrow> u256 \<times> u256 \<Rightarrow> nat \<Rightarrow> pd_acc \<Rightarrow> pd_acc" where
  "pd_round cfg blockNum addr received system snap current now_miner now_total_poll now_summary n acc =
     (let i = of_nat n :: u256; is_now = (n = current) in
      case om_find (vs_voteDataHistory snap) (i - 1) of
        None \<Rightarrow> acc
      | Some vote_log \<Rightarrow>
          if \<not> om_count (cs_Feesnapshot system) i \<and> \<not> is_now then acc
          else if \<not> om_count (cs_sorted_creaters system) (i - 1) \<and> \<not> is_now then acc
          else
            (let totalPoll = (if is_now then now_total_poll else get_total_poll i minner_rank_num system);
                 summary = (if is_now then now_summary
                            else (case om_find (cs_Feesnapshot system) i of None \<Rightarrow> (0, 0) | Some p \<Rightarrow> p));
                 creaters = (case om_find (cs_sorted_creaters system) i of None \<Rightarrow> [] | Some ps \<Rightarrow> ps);
                 check_creater = (if is_now then now_miner
                                  else if blockNum \<ge> newChangeHeight cfg then take minner_rank_num creaters
                                  else creaters)
             in if summary = pa_old_summary acc then acc\<lparr>pa_old_summary := (0, 0)\<rparr>
                else if totalPoll = 0 then acc
                else fold (pd_node addr received vote_log i summary totalPoll) check_creater acc))"

definition anytime_receivingPdFeeIncome :: "config \<Rightarrow> address \<Rightarrow> int \<Rightarrow> bool \<Rightarrow> (u256 \<times> u256) st" where
  "anytime_receivingPdFeeIncome cfg addr blockNum is_update =
     ebind (egets (\<lambda>s. s)) (\<lambda>s. case (accts s addr, accts s PdSystemAddress) of
       (Some a, Some sys) \<Rightarrow>
         (let received = m_couplingSystemFee a;
              current = fst (getVotingCycle cfg blockNum);
              ranked = take minner_rank_num (vote_data s SysVarlitorAddress);
              now_miner = (if blockNum \<ge> newChangeHeight cfg then map (map_elector s) ranked else ranked);
              start = (if cs_numofrounds received \<noteq> 0 then unat (cs_numofrounds received) else 1);
              acc = fold
                (pd_round cfg blockNum addr received (m_couplingSystemFee sys) (m_vote_sapshot a) current
                  now_miner (rank_polls minner_rank_num now_miner) (m_BRC sys, m_balance sys))
                [start..<Suc current]
                \<lparr>pa_cookies = 0, pa_brcs = 0, pa_update = False, pa_fee = received,
                 pa_old_summary = cs_total_summary received\<rparr>
          in ebind (ewhen (pa_update acc \<and> is_update) (eseq [
               log_change (Ch_CoupingSystemFeeSnapshot PdSystemAddress received),
               upd_account addr (setCouplingSystemFeeSnapshot ((pa_fee acc)\<lparr>cs_numofrounds := of_nat current\<rparr>)),
               upd_account addr (acc_addBRC (pa_brcs acc)),
               upd_account addr (acc_addBalance (pa_cookies acc))])) (\<lambda>_.
             ereturn (pa_brcs acc, pa_cookies acc)))
     | _ \<Rightarrow> ethrow UnknownAccount)"

section \<open>The transaction\<close>

datatype ReceivingType = RReceivingNull | RBlockFeeIncome | RPdFeeIncome

definition ReceivingType_of :: "nat \<Rightarrow> ReceivingType option" where
  "ReceivingType_of n =
     (if n = 0 then Some RReceivingNull else if n = 1 then Some RBlockFeeIncome
      else if n = 2 then Some RPdFeeIncome else None)"

definition receive_one :: "config \<Rightarrow> address \<Rightarrow> int \<Rightarrow> operation \<Rightarrow> unit st" where
  "receive_one cfg addr blockNum val =
     (case as_receivingincome val of
        None \<Rightarrow> ethrow receivingincomeFiled
      | Some op \<Rightarrow>
          ebind (egets (\<lambda>s. minerMapping s addr)) (\<lambda>mapping.
          let mapped = (blockNum \<ge> newChangeHeight cfg \<and> fst mapping \<noteq> 0 \<and> fst mapping \<noteq> addr) in
          case ReceivingType_of (ri_receivingType op) of
            Some RBlockFeeIncome \<Rightarrow>
              ebind (receivingBlockFeeIncome cfg addr blockNum) (\<lambda>_.
              ewhen mapped
                (ebind (receivingBlockFeeIncome cfg (fst mapping) blockNum) (\<lambda>ret.
                  ewhen (ret > 0) (eseq [addBalance addr ret, subBalance (fst mapping) ret]))))
          | Some RPdFeeIncome \<Rightarrow>
              ebind (anytime_receivingPdFeeIncome cfg addr blockNum True) (\<lambda>_.
              ewhen mapped
                (ebind (anytime_receivingPdFeeIncome cfg (fst mapping) blockNum True) (\<lambda>p.
                  ewhen (fst p > 0 \<or> snd p > 0) (eseq [
                    addBalance addr (snd p), addBRC addr (fst p),
                    subBalance (fst mapping) (snd p), subBRC (fst mapping) (fst p)]))))
          | _ \<Rightarrow> ereturn ()))"

definition receivingIncome :: "config \<Rightarrow> address \<Rightarrow> operation list \<Rightarrow> int \<Rightarrow> unit st" where
  "receivingIncome cfg addr ops blockNum =
     ebind (trySnapshotWithMinerMapping cfg addr (of_int blockNum)) (\<lambda>_.
       efor ops (receive_one cfg addr blockNum))"

section \<open>What a fee is split into\<close>

text \<open>The rate per vote times all votes stays below half the fee, so none of the products wraps.\<close>

lemma rate_bound: "unat (fee div 2 div polls) * unat polls \<le> unat fee div 2"
  for fee polls :: u256
  by (simp add: unat_div)

lemma unat_rate_mult:
  fixes fee polls n :: u256
  assumes "n \<le> polls"
  shows "unat (fee div 2 div polls * n) = unat (fee div 2 div polls) * unat n"
proof -
  have "unat (fee div 2 div polls) * unat n \<le> unat (fee div 2 div polls) * unat polls"
    using assms by (intro mult_le_mono2) (simp add: word_le_nat_alt)
  also have "\<dots> \<le> unat fee div 2" by (rule rate_bound)
  also have "\<dots> \<le> unat fee" by simp
  also have "\<dots> < 2 ^ LENGTH(256)" by (rule unsigned_less)
  finally show ?thesis by (simp add: unat_mult_lem [THEN iffD1])
qed

lemma unat_witness_fee:
  "unat (witness_fee fee polls) = unat fee - unat (fee div 2 div polls) * unat polls"
proof -
  have eq: "unat (fee div 2 div polls * polls) = unat (fee div 2 div polls) * unat polls"
    by (rule unat_rate_mult) simp
  have "fee div 2 div polls * polls \<le> fee"
    unfolding word_le_nat_alt eq using rate_bound [of fee polls] by simp
  then show ?thesis by (simp add: witness_fee_def unat_sub eq)
qed

lemma witness_keeps_half: "unat fee - unat fee div 2 \<le> unat (witness_fee fee polls)"
  using rate_bound [of fee polls] by (simp add: unat_witness_fee)

lemma voter_fees_sum:
  assumes "\<And>v. v \<in> set vs \<Longrightarrow> v \<le> polls"
  shows "sum_list (map (\<lambda>v. unat (voter_fee fee polls v)) vs) = unat (fee div 2 div polls) * sum_list (map unat vs)"
  using assms by (induction vs) (auto simp: voter_fee_def unat_rate_mult distrib_left)

lemma fee_split:
  assumes "sum_list (map unat vs) = unat polls"
  shows "unat (witness_fee fee polls) + sum_list (map (\<lambda>v. unat (voter_fee fee polls v)) vs) = unat fee"
proof -
  have "v \<le> polls" if "v \<in> set vs" for v
    using member_le_sum_list [of "unat v" "map unat vs"] that assms by (simp add: word_le_nat_alt)
  then have "sum_list (map (\<lambda>v. unat (voter_fee fee polls v)) vs) = unat (fee div 2 div polls) * unat polls"
    by (simp add: voter_fees_sum assms)
  then show ?thesis using rate_bound [of fee polls] by (simp add: unat_witness_fee)
qed

text \<open>The shares of the witnesses in the fees of the exchange never exceed what was collected, as long
  as their polls add up to at most the total the shares are computed with.
\<close>

lemma node_shares_bound:
  assumes "sum_list (map unat ps) \<le> unat total_polls"
  shows "sum_list (map (\<lambda>p. unat (node_share summary total_polls p)) ps) \<le> unat summary"
proof -
  have share: "unat (node_share summary total_polls p) \<le> unat (summary div total_polls) * unat p" for p
    by (simp add: node_share_def unat_word_ariths)
  have "sum_list (map (\<lambda>p. unat (node_share summary total_polls p)) ps) \<le>
      unat (summary div total_polls) * sum_list (map unat ps)"
    by (induction ps) (use share in \<open>auto simp: distrib_left intro: add_mono\<close>)
  also have "\<dots> \<le> unat (summary div total_polls) * unat total_polls" using assms by simp
  also have "\<dots> \<le> unat summary" by (simp add: unat_div)
  finally show ?thesis .
qed

end
