(* ===== verification/NewBlock.thy ===== *)
theory NewBlock
  imports Income
begin

text \<open>
  What a new block does to the state before its transactions (\<^verbatim>\<open>Block::intoNewBlockToDo\<close>): the
  new round, the scheduled migration of a witness, the repair of votes at a fixed height, the gas
  prices, the one-off dividend, the cancellation of the system's orders, the precompiled contracts
  and the endowment of the test network.

  Data the code reads from tables and from the genesis description is a field of \<open>block_params\<close>:
  the parameters of the chain, \<^verbatim>\<open>changeVote::getChangeVote\<close> and \<^verbatim>\<open>config::getGenesisAddr\<close>.
\<close>

record block_params =
  chainID :: int
  genesisState :: "(address, account) omap"
  change_votes :: "(address \<times> address \<times> u256) list"
  genesis_addrs :: "address list"

definition FIRSTROUND :: u256 where "FIRSTROUND = 1"
definition DIVIDENDNUM :: u256 where "DIVIDENDNUM = 10000000000000000"
definition LIMITE_NUMBER :: nat where "LIMITE_NUMBER = 50"

definition TestNetBalanceAddress :: address where
  "TestNetBalanceAddress = 0xcd44c21f022cc7ac432c3eb370c0fdaf5a26b386"

section \<open>Migrating a witness\<close>

definition getChainMiner :: "config \<Rightarrow> int \<Rightarrow> (address \<times> address) option" where
  "getChainMiner cfg height =
     (if m_chainId cfg = MAINCHAINID \<and> height = 884102
      then Some (0xfe1986a69f6a73ad1050e48b9f9809e1e399b6a2, 0xa71e748cfe35fb519a85eb277b698e2d5659a614)
      else None)"

definition migrate_system_accounts :: "address list" where
  "migrate_system_accounts =
     [systemAddress, PdSystemAddress, SysBlockCreateRecordAddress, SysElectorAddress,
      SysVarlitorAddress, SysCanlitorAddress, SysMinerSnapshotAddress]"

text \<open>The account \<open>i\<close>, when it exists and \<open>due\<close> holds of it.\<close>

definition migrate_if :: "address \<Rightarrow> address \<Rightarrow> (account \<Rightarrow> bool) \<Rightarrow> address \<Rightarrow> unit st" where
  "migrate_if before after due i =
     ebind (get_account i) (\<lambda>r. case r of
       None \<Rightarrow> ereturn ()
     | Some a \<Rightarrow> ewhen (due a) (upd_account_ub i (changeMinerUpdateData before after)))"

definition changeMinerMigrationData :: "address \<Rightarrow> address \<Rightarrow> (address, account) omap \<Rightarrow> unit st" where
  "changeMinerMigrationData before after genesis =
     ebind (egets (\<lambda>s. addressInUse s before)) (\<lambda>known.
     ebind (egets (\<lambda>s. addressInUse s after)) (\<lambda>taken.
       if \<not> known then ethrow InvalidAutor
       else eseq [
         (if taken then kill after else createAccount after (account_ballot 0)),
         ebind (egets (\<lambda>s. the_account s before)) (\<lambda>old. upd_account after (copyByAccount old)),
         upd_account_ub after (changeMinerUpdateData before after),
         kill before,
         efor migrate_system_accounts (migrate_if before after (isChangeMinerUpdateData before)),
         efor genesis (\<lambda>(i, g). ewhen (isChangeMinerUpdateData before g)
           (migrate_if before after (\<lambda>_. True) i))]))"

definition tryChangeMiner :: "config \<Rightarrow> block_params \<Rightarrow> int \<Rightarrow> unit st" where
  "tryChangeMiner cfg params number =
     (if chainID params \<noteq> 11 then ereturn ()
      else (case getChainMiner cfg number of
        None \<Rightarrow> ereturn ()
      | Some (before, after) \<Rightarrow> changeMinerMigrationData before after (genesisState params)))"

section \<open>Repairing votes\<close>

text \<open>A write through an account pointer that the code does not test.\<close>

definition upd_account_at :: "address \<Rightarrow> (account \<Rightarrow> account) \<Rightarrow> unit st" where
  "upd_account_at i f = upd_account_ub i (\<lambda>a. Some (f a))"

definition refresh_poll :: "address \<Rightarrow> PollData \<Rightarrow> unit st" where
  "refresh_poll sys p =
     ebind (get_account (pd_addr p)) (\<lambda>r. case r of
       None \<Rightarrow> ethrow UndefinedBehaviour
     | Some pa \<Rightarrow> upd_account_ub sys (set_system_poll \<lparr>pd_addr = pd_addr p, pd_poll = m_poll pa, pd_time = 0\<rparr>))"

definition set_creaters :: "PollData list \<Rightarrow> account \<Rightarrow> account" where
  "set_creaters ps a =
     setCouplingSystemFeeSnapshot
       ((m_couplingSystemFee a)\<lparr>cs_sorted_creaters := map (\<lambda>(k, _). (k, ps)) (cs_sorted_creaters (m_couplingSystemFee a))\<rparr>) a"

definition change_vote_one :: "address \<times> address \<times> u256 \<Rightarrow> unit st" where
  "change_vote_one v = (case v of (voter, recv, n) \<Rightarrow>
     eseq [upd_account_ub voter (addVote (recv, n)), upd_account_at recv (acc_addPoll n)])"

definition changeVoteData_state :: "config \<Rightarrow> block_params \<Rightarrow> int \<Rightarrow> unit st" where
  "changeVoteData_state cfg params number =
     ewhen (changeVoteHeight cfg = number) (eseq [
       efor (change_votes params) change_vote_one,
       ebind (egets (\<lambda>s. (addressInUse s SysVarlitorAddress \<and> addressInUse s SysCanlitorAddress,
                          vote_data s SysVarlitorAddress, vote_data s SysCanlitorAddress))) (\<lambda>(known, vars, cans).
         if \<not> known then ethrow UndefinedBehaviour
         else eseq [efor vars (refresh_poll SysVarlitorAddress), efor cans (refresh_poll SysCanlitorAddress)]),
       ebind (egets (\<lambda>s. vote_data s SysVarlitorAddress)) (\<lambda>ps. upd_account_at PdSystemAddress (set_creaters ps)),
       ebind (egets (\<lambda>s. vote_data s SysVarlitorAddress @ vote_data s SysCanlitorAddress)) (\<lambda>ps.
         upd_account_at SysMinerSnapshotAddress (set_creaters ps))])"

section \<open>The dividend\<close>

text \<open>Boost's division throws when the divisor is 0.\<close>

definition edivide :: "u256 \<Rightarrow> u256 \<Rightarrow> u256 st" where
  "edivide n d = (if d = 0 then ethrow DivideByZero else ereturn (n div d))"

text \<open>The table of the witnesses' shares, ordered by address as the \<^verbatim>\<open>std::map\<close> is.\<close>

definition getMasterNodeInfo :: "(address, u256) omap" where
  "getMasterNodeInfo =
     [(0x0252fcd7cd7c154e6028fb501f8e630848d26c86, 366843431600000),
      (0x03d283a848fadc4361ac1ea568b2ab76ea5a2918, 140388680000000),
      (0x067a972a98851f00313ce5de08e3a4c8f67f74d2, 369756718000000),
      (0x0c49741d907aa2ec579c454c4e2ba58c756e6829, 558465657200000),
      (0x0caab777158abc1985a1cc0c878e55f888c72f74, 239237727200000),
      (0x0fb86cda6c29430b7f883d5bd7173b37ca4c8582, 551835279000000),
      (0x12008d9141fcdb92ab8805e7f5e39b4e12dfecca, 85478838840000),
      (0x1436e9b7069339f57d7c075d32341daf5cb744e5, 543456430000000),
      (0x150452f690d2424cf366062d9aabafec075c4e77, 446112102600000),
      (0x15643fc8ead0f9aa46d50d48d722c686a303b1c0, 280702993200000),
      (0x20b9d014d5926c8aa758b766ff3699ac2480d5e1, 283225469800000),
      (0x26e0e85302db7d8907ea79c4e16a74c3c6a6b55a, 544597616000000),
      (0x273e65c98ad345d6de3b5b2acc0a2b86b5859c8c, 140812610320000),
      (0x27b2a2da79d24df3bcd6d8ef6f141621a366e06c, 74719103840000),
      (0x2fe8768398e489e93c2ca2cdae85a086607866a7, 118828521180000),
      (0x37111fb7174bafc173af4e3fd989423ee04da34a, 372141800200000),
      (0x502381b4c9a727278fecd9a1cd8ba208bb63ad4a, 285230454600000),
      (0x51efce1fc1cb794e97ba92d8eaa96b993415b3f4, 67228105940000),
      (0x53ef7c91df1580bb0d96102d15c8764c08ac9297, 68896346300000),
      (0x58d72fb9f1048b3ad4082f06bea68edd503831b5, 75730784780000),
      (0x602e65642c52d4fcf4060235f5b51b9936edd2fb, 68967711460000),
      (0x662c52ee941a1112bde8f7477c52d2d42c4808de, 344939304000000),
      (0x6ad984cc22f0fbed8cfc5b41ea6855ac704bd59e, 1572757713040000),
      (0x6c89959351d710131ee9c789d8f725eb9b6ebef9, 66395157420000),
      (0x6d0e7d50e7b1e468f7a97e0429f97b8465585935, 287848762800000),
      (0x6e8a9cb007409cd63d6e3d417966ed6943621c3c, 67777511100000),
      (0x71544ebeb05af0f4430ac89e17ea540dfe16a68f, 176099590320000),
      (0x7d35696ee255ba2cef1f5e496dfadeaa4d5f5c34, 67211276540000),
      (0x7dbd4f7878e844b908016d7eb8f68a57d80cec0a, 348590757600000),
      (0x8305a7c4381b35592aadca063704c5413aca7b92, 283634527000000),
      (0x84ae0404cbd02d5f339b3de67f0c2f48437c4b7f, 291060972200000),
      (0x8a6e14d9a8e2fdf8971c3996f14cb66f949f4970, 376080959600000),
      (0x8a7111a1e869934f6981cd5e6dd3d9b6d98e5603, 67168457440000),
      (0x8e7f14bb4cb837fd5947dc99691dca5e802c187d, 66948823200000),
      (0x944bca7e6bf23b1b72d71196ad041ecdeffb188f, 543444615000000),
      (0x9c4aa479eaebae43e8284f03806c9d5131da1067, 66463327120000),
      (0xa71e748cfe35fb519a85eb277b698e2d5659a614, 279227052400000),
      (0xac94ad70351ec72329c1da4a0400923fe17dbde8, 67047456220000),
      (0xb2428a150210f5403e1ea9cfee488fdc259132ee, 120675920060000),
      (0xc0d97ccaca83c69e31c2a81625eebf03ed6721cb, 85564690060000),
      (0xc670beb4f50f58e22e76705ca1f1e35cb5b52791, 240513991800000),
      (0xc84eaee9d79f92d9d1d598968c4283fe0dfa5c5a, 67131390160000),
      (0xcd7401e6cb6864d3c9c247992518c0a5daf61c12, 487772121800000),
      (0xcdbbfc1b67a67723fdb0330f6d2ec905950ad35b, 216984794000000),
      (0xcfe1985086fb87a364f9f6344674275befd2a510, 305045580400000),
      (0xd5efe84a060b41f17083139a4eafc770de094079, 758983173400000),
      (0xe39984086a55dcc55c4edb3d6369d530c4c0081f, 72350419780000),
      (0xf10762d64bb661691b6ee6ebafd399e5a131563e, 66963948340000),
      (0xf76529f84d8ff60ba90c8a3cbd43792f76cddb00, 279523676600000),
      (0xf78b86783c5b39d81b04a61e2c90fb5bfdbd047b, 279488423800000),
      (0xf9328355833e277e6d01b3f42e60f5740577ad05, 152116424740000)]"

definition node_votes :: "PollData list \<Rightarrow> (address, u256) omap" where
  "node_votes ps = fold (\<lambda>p. om_insert (pd_addr p) (pd_poll p)) ps []"

definition first_miners :: "chain_state \<Rightarrow> PollData list" where
  "first_miners s = (case om_find (get_miner_snapshot s) FIRSTROUND of None \<Rightarrow> [] | Some ps \<Rightarrow> ps)"

definition testCalculateMasterNodeDividend ::
    "(address, u256) omap \<Rightarrow> (address, u256) omap \<Rightarrow> unit st" where
  "testCalculateMasterNodeDividend votes dividends =
     efor dividends (\<lambda>(node, d). case om_find votes node of
       None \<Rightarrow> ereturn ()
     | Some n \<Rightarrow> ebind (edivide (d div 2) n) (\<lambda>q. addBalance node (d - q * n)))"

text \<open>The votes of an account in the first round, and the dividend they earn.\<close>

definition vote_infos :: "address \<Rightarrow> (address, u256) omap st" where
  "vote_infos i =
     egets (\<lambda>s. case om_find (vs_voteDataHistory (m_vote_sapshot (the_account s i))) FIRSTROUND of
       None \<Rightarrow> [] | Some m \<Rightarrow> m)"

definition vote_dividend ::
    "(address \<Rightarrow> (u256 \<times> u256) option) \<Rightarrow> address \<times> u256 \<Rightarrow> u256 \<Rightarrow> u256 st" where
  "vote_dividend info v acc =
     (case info (fst v) of
        None \<Rightarrow> ereturn acc
      | Some (votes, d) \<Rightarrow> ebind (edivide (d div 2) votes) (\<lambda>q. ereturn (acc + q * snd v)))"

definition account_dividend ::
    "config \<Rightarrow> int \<Rightarrow> (address \<Rightarrow> (u256 \<times> u256) option) \<Rightarrow> address \<Rightarrow> unit st" where
  "account_dividend cfg blockNum info i =
     ebind (try_new_vote_snapshot cfg i (of_int blockNum)) (\<lambda>_.
     ebind (vote_infos i) (\<lambda>vs.
     ebind (efold (vote_dividend info) vs 0) (\<lambda>total_amount.
       ewhen (total_amount > 0) (addBalance i total_amount))))"

definition testVotingAccountDividend ::
    "config \<Rightarrow> address list \<Rightarrow> (address, u256) omap \<Rightarrow> (address, u256) omap \<Rightarrow> int \<Rightarrow> unit st" where
  "testVotingAccountDividend cfg addrs dividends votes blockNum =
     efor addrs (account_dividend cfg blockNum (\<lambda>i.
       case (om_find votes i, om_find dividends i) of (Some n, Some d) \<Rightarrow> Some (n, d) | _ \<Rightarrow> None))"

definition testDividend :: "config \<Rightarrow> address list \<Rightarrow> int \<Rightarrow> unit st" where
  "testDividend cfg addrs blockNum =
     ebind (egets (\<lambda>s. node_votes (first_miners s))) (\<lambda>votes.
       eseq [testCalculateMasterNodeDividend votes getMasterNodeInfo,
             testVotingAccountDividend cfg addrs getMasterNodeInfo votes blockNum])"

text \<open>\<^verbatim>\<open>State::dividend\<close>, which shares a fixed amount by the votes; the block does not call it.\<close>

definition node_dividend :: "u256 \<Rightarrow> u256 \<Rightarrow> address \<times> u256 \<Rightarrow> (address, u256 \<times> u256) omap \<Rightarrow> (address, u256 \<times> u256) omap st" where
  "node_dividend total_amount votes node acc =
     ebind (edivide total_amount votes) (\<lambda>q.
     ebind (edivide (q * snd node div 2) (snd node)) (\<lambda>h.
     ebind (addBalance (fst node) (q * snd node - h * snd node)) (\<lambda>_.
       ereturn (acc @ [(fst node, (snd node, q * snd node))]))))"

definition biggest_vote :: "(address, u256) omap \<Rightarrow> address" where
  "biggest_vote nodes = fst (fold (\<lambda>(i, n) b. if snd b < n then (i, n) else b) nodes (0, 0))"

definition calculateMasterNodeDividend ::
    "(address, u256) omap \<Rightarrow> u256 \<Rightarrow> u256 \<Rightarrow> (address, u256 \<times> u256) omap st" where
  "calculateMasterNodeDividend nodes total_amount votes =
     ebind (efold (node_dividend total_amount votes) nodes []) (\<lambda>info.
       if votes = 0 then ethrow DivideByZero
       else
         ebind (eseq [efor nodes (\<lambda>(i, n). addBalance i (total_amount mod votes div 51)),
                      addBalance (biggest_vote nodes) (total_amount mod votes mod 51)]) (\<lambda>_.
         ereturn info))"

definition dividend :: "config \<Rightarrow> address list \<Rightarrow> int \<Rightarrow> unit st" where
  "dividend cfg addrs blockNum =
     ebind (egets first_miners) (\<lambda>miners.
     ebind (calculateMasterNodeDividend (node_votes miners) DIVIDENDNUM
              (fold (\<lambda>p n. n + pd_poll p) miners 0)) (\<lambda>info.
       efor addrs (account_dividend cfg blockNum (om_find info))))"

section \<open>Orders of the system and precompiled contracts\<close>

definition cancel_sys_one :: "ex_order \<Rightarrow> unit st" where
  "cancel_sys_one od =
     ewhen (eo_sender od = systemAddress)
       (ebind (cancel_order_by_trxid (eo_trxid od)) (\<lambda>val.
          eseq [subFBRC (o_sender val) (snd (o_price_token val) * fst (o_price_token val) div PRICEPRECISION),
                addBRC (o_sender val) (snd (o_price_token val) * fst (o_price_token val) div PRICEPRECISION)]))"

definition cancelSysOrder :: "unit st" where
  "cancelSysOrder = ebind (get_order_by_type buy TK_FUEL LIMITE_NUMBER) (\<lambda>ods. efor ods cancel_sys_one)"

definition updatePrecontract :: "unit st" where
  "updatePrecontract =
     efor (map of_nat [1..<9]) (\<lambda>i.
       ebind (egets (\<lambda>s. addressInUse s i)) (\<lambda>known. ewhen (\<not> known) (createAccount i (account_nb 0 1))))"

record precompiled =
  pc_base :: nat
  pc_word :: nat
  pc_executor :: string
  pc_start :: int

definition precompiled_table :: "config \<Rightarrow> (address \<times> precompiled) list" where
  "precompiled_table cfg = map (\<lambda>(i, b, w, e).
       (i, \<lparr>pc_base = b, pc_word = w, pc_executor = e, pc_start = getPrecompiled cfg\<rparr>))
     [(1, 3000, 0, ''ecrecover''), (2, 60, 12, ''sha256''), (3, 600, 120, ''ripemd160''),
      (4, 15, 3, ''identity''), (5, 0, 0, ''modexp''), (6, 500, 0, ''alt_bn128_G1_add''),
      (7, 40000, 0, ''alt_bn128_G1_mul''), (8, 0, 0, ''alt_bn128_pairing_product'')]"

text \<open>The parameters of the seal engine keep an entry they have; the result is the new map.\<close>

definition addPrecompiledCode ::
    "config \<Rightarrow> int \<Rightarrow> (address \<rightharpoonup> precompiled) \<Rightarrow> (address \<rightharpoonup> precompiled) st" where
  "addPrecompiledCode cfg number table =
     (if number = getPrecompiled cfg
      then ebind updatePrecontract (\<lambda>_. ereturn (map_of (precompiled_table cfg) ++ table))
      else ereturn table)"

section \<open>The block\<close>

definition testNetAddBalance :: "config \<Rightarrow> int \<Rightarrow> unit st" where
  "testNetAddBalance cfg number =
     ewhen (m_chainId cfg = TESTCHAINID \<and> number = 34436000)
       (eseq [addBalance TestNetBalanceAddress 0x16345785d8a0000, addBRC TestNetBalanceAddress 0x8ac7230489e80000])"

definition intoNewBlockToDo ::
    "config \<Rightarrow> block_params \<Rightarrow> int \<Rightarrow> int \<Rightarrow> (address \<rightharpoonup> precompiled) \<Rightarrow> (address \<rightharpoonup> precompiled) st" where
  "intoNewBlockToDo cfg params number previous_number table =
     ebind (eseq [
       try_newrounds_count_vote cfg number previous_number,
       tryChangeMiner cfg params number,
       ewhen (chainID params = MAINCHAINID) (changeVoteData_state cfg params number),
       initMinerGasPrice cfg number,
       ewhen (number = dividendHeight cfg) (testDividend cfg (genesis_addrs params) number),
       ewhen (number = cancelAutoPendingOrderHeight cfg) cancelSysOrder]) (\<lambda>_.
     ebind (addPrecompiledCode cfg number table) (\<lambda>table'.
     ebind (testNetAddBalance cfg number) (\<lambda>_.
       ereturn table')))"

definition execute_block_record :: "32 word \<Rightarrow> address \<Rightarrow> int \<Rightarrow> int \<Rightarrow> unit st" where
  "execute_block_record varlitor_time author number timestamp =
     set_last_block_record author (number, timestamp) (uint varlitor_time)"

end
