(* ===== verification/VoteLaws.thy ===== *)
theory VoteLaws
  imports NewBlock Frames
begin

text \<open>
  What holds of the voting members: which amounts a vote moves, what buying and selling ballots
  keep, which stage accepts a vote, and who the witnesses of a new round are.
\<close>

section \<open>Writes that move one amount\<close>

lemma upd_account_amount:
  assumes "upd_account i g s = (Inr x, s')" and "accts s i \<noteq> None" and "\<And>a. f (g a) = f a + d"
  shows "amount_of f s' = (amount_of f s)(i := amount_of f s i + d)"
  using assms by (auto simp: upd_account_def amount_of_def fun_eq_iff)

lemma upd_account_keeps:
  assumes "upd_account i g s = (Inr x, s')" and "\<And>a. f (g a) = f a"
  shows "amount_of f s' = amount_of f s"
  using assms by (cases "accts s i") (auto simp: upd_account_def amount_of_def fun_eq_iff)

lemma upd_account_ub_E:
  assumes "upd_account_ub i g s = (Inr x, s')"
  obtains a a' where "accts s i = Some a" and "g a = Some a'" and "s' = s\<lparr>accts := (accts s)(i \<mapsto> a')\<rparr>"
  using assms by (auto simp: upd_account_ub_def run_simps split: option.splits)

lemma upd_account_ub_amount:
  assumes "upd_account_ub i g s = (Inr x, s')" and "\<And>a a'. g a = Some a' \<Longrightarrow> f a' = f a + d"
  shows "amount_of f s' = (amount_of f s)(i := amount_of f s i + d)"
  using assms(1) by (rule upd_account_ub_E) (auto simp: amount_of_def fun_eq_iff assms(2))

lemma upd_account_ub_keeps:
  assumes "upd_account_ub i g s = (Inr x, s')" and "\<And>a a'. g a = Some a' \<Longrightarrow> f a' = f a"
  shows "amount_of f s' = amount_of f s"
  using assms(1) by (rule upd_account_ub_E) (auto simp: amount_of_def fun_eq_iff assms(2))

lemma upd_account_ub_other:
  assumes "upd_account_ub j g s = (Inr x, s')" and "j \<noteq> i"
  shows "amount_of f s' i = amount_of f s i"
  using assms(1) by (rule upd_account_ub_E) (use assms(2) in \<open>auto simp: amount_of_def\<close>)

lemma log_change_amount: "log_change c s = (Inr x, s') \<Longrightarrow> amount_of f s' = amount_of f s"
  by (auto simp: log_change_def amount_of_def fun_eq_iff)

lemma eseq_ConsE:
  assumes "eseq (m # ms) s = (Inr x, s')"
  obtains s1 where "m s = (Inr (), s1)" and "eseq ms s1 = (Inr x, s')"
  using assms by (auto elim!: ebind_InrE)

lemma eseq5E:
  assumes "eseq [m1, m2, m3, m4, m5] s = (Inr x, s')"
  obtains s1 s2 s3 s4 where "m1 s = (Inr (), s1)" and "m2 s1 = (Inr (), s2)" and "m3 s2 = (Inr (), s3)"
    and "m4 s3 = (Inr (), s4)" and "m5 s4 = (Inr (), s')"
  using assms by (elim eseq_ConsE) simp

lemma eseq_log_accts: "eseq (map log_change cs) s = (Inr (), s\<lparr>changeLog := changeLog s @ cs\<rparr>)"
  by (induction cs arbitrary: s) (auto simp: log_change_def ebind_def)

lemma set_system_poll_fields:
  "set_system_poll p a = Some a' \<Longrightarrow> m_ballot a' = m_ballot a \<and> m_poll a' = m_poll a"
  by (auto simp: set_system_poll_def changed_def split: option.splits)

lemma addVote_fields: "addVote vp a = Some a' \<Longrightarrow> m_ballot a' = m_ballot a \<and> m_poll a' = m_poll a"
  by (auto simp: addVote_def changed_def split: option.splits if_splits)

lemma find_update_first:
  "find P xs = Some x \<Longrightarrow> P (f x) \<Longrightarrow> find P (update_first P f xs) = Some (f x)"
  by (induction xs) (auto split: if_splits)

lemma set_system_poll_poll_data:
  assumes "set_system_poll p a = Some a'"
  shows "pd_poll (poll_data (pd_addr p) a') = pd_poll p"
proof -
  from assms obtain q where q: "find (is_poll_of (pd_addr p)) (m_vote_data a) = Some q"
    by (auto simp: set_system_poll_def split: option.splits)
  then have "pd_addr q = pd_addr p" by (auto simp: find_Some_iff)
  with find_update_first [OF q, of "\<lambda>q. q\<lparr>pd_poll := pd_poll p, pd_time := pd_time p\<rparr>"]
  have "find (is_poll_of (pd_addr p)) (update_first (is_poll_of (pd_addr p))
      (\<lambda>q. q\<lparr>pd_poll := pd_poll p, pd_time := pd_time p\<rparr>) (m_vote_data a)) =
      Some (q\<lparr>pd_poll := pd_poll p, pd_time := pd_time p\<rparr>)"
    by simp
  then show ?thesis using assms
    by (auto simp: set_system_poll_def poll_data_def changed_def split: option.splits)
qed

section \<open>Delegation\<close>

lemmas amount_defs = ballot_def poll_def

lemma in_use3_accts:
  "in_use3 i j k s \<longleftrightarrow> accts s i \<noteq> None \<and> accts s j \<noteq> None \<and> accts s k \<noteq> None"
  by (auto simp: in_use3_def addressInUse_iff)

lemma upd_account_in_use: "upd_account i g s = (Inr x, s') \<Longrightarrow> addressInUse s' = addressInUse s"
  by (cases "accts s i") (auto simp: upd_account_def addressInUse_iff fun_eq_iff split: if_splits)

lemma upd_account_ub_in_use: "upd_account_ub i g s = (Inr x, s') \<Longrightarrow> addressInUse s' = addressInUse s"
  by (erule upd_account_ub_E) (auto simp: addressInUse_iff fun_eq_iff)

lemma m_poll_the_account: "m_poll (the_account s i) = poll s i"
  by (simp add: the_account_def poll_def amount_of_def dead_account_def split: option.splits)

lemma m_ballot_the_account: "m_ballot (the_account s i) = ballot s i"
  by (simp add: the_account_def ballot_def amount_of_def dead_account_def split: option.splits)

text \<open>The three writes to the voter and the candidate, and the write to the register of electors.\<close>

lemma register_poll:
  assumes "ebind (egets (\<lambda>s. m_poll (the_account s j))) (\<lambda>n.
      upd_account_ub k (set_system_poll \<lparr>pd_addr = j, pd_poll = n, pd_time = t\<rparr>)) s = (Inr x, s')"
  shows "ballot s' = ballot s" and "poll s' = poll s" and "pd_poll (state_poll_data s' k j) = poll s' j"
    and "k \<noteq> i \<Longrightarrow> amount_of voteAll s' i = amount_of voteAll s i"
proof -
  from assms have run: "upd_account_ub k (set_system_poll \<lparr>pd_addr = j, pd_poll = poll s j, pd_time = t\<rparr>) s = (Inr x, s')"
    by (simp add: ebind_def m_poll_the_account)
  show b: "ballot s' = ballot s" and p: "poll s' = poll s"
    unfolding amount_defs using run by (rule upd_account_ub_keeps; simp add: set_system_poll_fields)+
  from run show "pd_poll (state_poll_data s' k j) = poll s' j"
    unfolding p by (rule upd_account_ub_E) (use set_system_poll_poll_data in \<open>fastforce simp: state_poll_data_def\<close>)
  show "k \<noteq> i \<Longrightarrow> amount_of voteAll s' i = amount_of voteAll s i"
    using run by (rule upd_account_ub_other)
qed

text \<open>The journal entries of a vote leave the accounts alone.\<close>

lemma vote_log:
  assumes "ewhen b (eseq [log_change c1, log_change c2, log_change c3, log_change c4]) s = (Inr x, s')"
  shows "accts s' = accts s"
  using assms eseq_log_accts [of "[c1, c2, c3, c4]" s] by (auto split: if_splits)

lemma same_accts_amounts:
  assumes "accts s' = accts s"
  shows "amount_of f s' = amount_of f s" and "state_poll_data s' = state_poll_data s"
  using assms by (auto simp: amount_of_def state_poll_data_def fun_eq_iff)

lemma voteAll_amount_fields:
  "voteAll (acc_addBallot v a) = voteAll a" "voteAll (acc_addPoll v a) = voteAll a"
  by (simp_all add: voteAll_def acc_addBallot_def acc_addPoll_def changed_def)

lemma ballot_poll_fields:
  "m_ballot (acc_addPoll v a) = m_ballot a" "m_poll (acc_addBallot v a) = m_poll a"
  "m_ballot (acc_addBallot v a) = m_ballot a + v" "m_poll (acc_addPoll v a) = m_poll a + v"
  by (simp_all add: acc_addBallot_def acc_addPoll_def changed_def)

lemma voter_writes:
  assumes "in_use3 i j k s"
    and "upd_account i (acc_addBallot w) s = (Inr x1, s1)" and "upd_account_ub i (addVote (j, - w)) s1 = (Inr x2, s2)"
    and "upd_account j (acc_addPoll (- w)) s2 = (Inr x3, s3)"
  shows "ballot s3 = (ballot s)(i := ballot s i + w)" and "poll s3 = (poll s)(j := poll s j - w)"
    and "amount_of voteAll s3 = (amount_of voteAll s)(i := amount_of voteAll s i - w)"
proof -
  have use: "accts s i \<noteq> None" "accts s2 j \<noteq> None"
    using assms(1) upd_account_in_use [OF assms(2)] upd_account_ub_in_use [OF assms(3)]
    by (auto simp: in_use3_def addressInUse_iff fun_eq_iff)
  show "ballot s3 = (ballot s)(i := ballot s i + w)"
    unfolding amount_defs
    using upd_account_amount [OF assms(2) use(1), of m_ballot w] upd_account_ub_keeps [OF assms(3), of m_ballot]
      upd_account_keeps [OF assms(4), of m_ballot] by (simp add: ballot_poll_fields addVote_fields)
  show "poll s3 = (poll s)(j := poll s j - w)"
    unfolding amount_defs
    using upd_account_keeps [OF assms(2), of m_poll] upd_account_ub_keeps [OF assms(3), of m_poll]
      upd_account_amount [OF assms(4) use(2), of m_poll "- w"] by (simp add: ballot_poll_fields addVote_fields)
  show "amount_of voteAll s3 = (amount_of voteAll s)(i := amount_of voteAll s i - w)"
    using upd_account_keeps [OF assms(2), of voteAll] upd_account_ub_amount [OF assms(3), of voteAll "- w"]
      upd_account_keeps [OF assms(4), of voteAll] by (simp add: voteAll_amount_fields addVote_voteAll)
qed

lemma add_vote_spec:
  assumes "add_vote i p s = (Inr x, s')" and "i \<noteq> SysElectorAddress"
  shows "pd_poll p \<le> ballot s i" and "ballot s' = (ballot s)(i := ballot s i - pd_poll p)"
    and "poll s' = (poll s)(pd_addr p := poll s (pd_addr p) + pd_poll p)"
    and "amount_of voteAll s' i = amount_of voteAll s i + pd_poll p"
    and "pd_poll (state_poll_data s' SysElectorAddress (pd_addr p)) = poll s' (pd_addr p)"
proof -
  let ?v = "pd_poll p" and ?j = "pd_addr p"
  let ?old = "poll_data ?j (the_account s SysElectorAddress)"
  from assms(1) have use: "in_use3 i ?j SysElectorAddress s" and enough: "\<not> m_ballot (the_account s i) < ?v"
    and run: "eseq [upd_account i (acc_addBallot (0 - ?v)), upd_account_ub i (addVote (?j, ?v)),
      upd_account ?j (acc_addPoll ?v),
      ebind (egets (\<lambda>s. m_poll (the_account s ?j))) (\<lambda>n. upd_account_ub SysElectorAddress
        (set_system_poll \<lparr>pd_addr = ?j, pd_poll = n, pd_time = vote_time ?old p\<rparr>)),
      ewhen (?v \<noteq> 0) (eseq [log_change (Ch_Vote i (?j, 0 - ?v)), log_change (Ch_SystemAddressPoll i ?old),
        log_change (Ch_Ballot i (0 - ?v)), log_change (Ch_Poll ?j ?v)])] s = (Inr x, s')"
    by (auto simp: add_vote_def ebind_def [where m = "egets _"] simp del: eseq.simps split: if_splits)
  obtain s1 s2 s3 s4 where s1: "upd_account i (acc_addBallot (0 - ?v)) s = (Inr (), s1)"
      "upd_account_ub i (addVote (?j, ?v)) s1 = (Inr (), s2)" "upd_account ?j (acc_addPoll ?v) s2 = (Inr (), s3)"
    and reg: "ebind (egets (\<lambda>s. m_poll (the_account s ?j))) (\<lambda>n. upd_account_ub SysElectorAddress
        (set_system_poll \<lparr>pd_addr = ?j, pd_poll = n, pd_time = vote_time ?old p\<rparr>)) s3 = (Inr (), s4)"
    and log: "ewhen (?v \<noteq> 0) (eseq [log_change (Ch_Vote i (?j, 0 - ?v)), log_change (Ch_SystemAddressPoll i ?old),
        log_change (Ch_Ballot i (0 - ?v)), log_change (Ch_Poll ?j ?v)]) s4 = (Inr (), s')"
    using run by (rule eseq5E)
  note w = voter_writes [OF use, of "- ?v", simplified, OF s1 [simplified]]
  note r = register_poll [OF reg]
  note l = same_accts_amounts [OF vote_log [OF log]]
  show "?v \<le> ballot s i" using enough by (simp add: m_ballot_the_account)
  show "ballot s' = (ballot s)(i := ballot s i - ?v)" using w(1) r(1) l(1) [of m_ballot] by (simp add: ballot_def)
  show "poll s' = (poll s)(?j := poll s ?j + ?v)" using w(2) r(2) l(1) [of m_poll] by (simp add: poll_def)
  show "amount_of voteAll s' i = amount_of voteAll s i + ?v"
    using w(3) r(4) [of i] assms(2) l(1) [of voteAll] by simp
  show "pd_poll (state_poll_data s' SysElectorAddress ?j) = poll s' ?j"
    using r(3) l by (simp add: poll_def)
qed

lemma unvote_writes:
  assumes "in_use3 i j k s"
    and "upd_account j (acc_addPoll (- w)) s = (Inr x1, s1)" and "upd_account_ub i (addVote (j, - w)) s1 = (Inr x2, s2)"
    and "upd_account i (acc_addBallot w) s2 = (Inr x3, s3)"
  shows "ballot s3 = (ballot s)(i := ballot s i + w)" and "poll s3 = (poll s)(j := poll s j - w)"
    and "amount_of voteAll s3 = (amount_of voteAll s)(i := amount_of voteAll s i - w)"
proof -
  have use: "accts s j \<noteq> None" "accts s2 i \<noteq> None"
    using assms(1) upd_account_in_use [OF assms(2)] upd_account_ub_in_use [OF assms(3)]
    by (auto simp: in_use3_def addressInUse_iff fun_eq_iff)
  show "ballot s3 = (ballot s)(i := ballot s i + w)"
    unfolding amount_defs
    using upd_account_keeps [OF assms(2), of m_ballot] upd_account_ub_keeps [OF assms(3), of m_ballot]
      upd_account_amount [OF assms(4) use(2), of m_ballot w] by (simp add: ballot_poll_fields addVote_fields)
  show "poll s3 = (poll s)(j := poll s j - w)"
    unfolding amount_defs
    using upd_account_amount [OF assms(2) use(1), of m_poll "- w"] upd_account_ub_keeps [OF assms(3), of m_poll]
      upd_account_keeps [OF assms(4), of m_poll] by (simp add: ballot_poll_fields addVote_fields)
  show "amount_of voteAll s3 = (amount_of voteAll s)(i := amount_of voteAll s i - w)"
    using upd_account_keeps [OF assms(2), of voteAll] upd_account_ub_amount [OF assms(3), of voteAll "- w"]
      upd_account_keeps [OF assms(4), of voteAll] by (simp add: voteAll_amount_fields addVote_voteAll)
qed

text \<open>Taking votes back moves as many as the candidate still has.\<close>

lemma sub_vote_spec:
  fixes s p
  defines "v \<equiv> min (pd_poll p) (poll s (pd_addr p))"
  assumes "sub_vote i p s = (Inr x, s')" and "i \<noteq> SysElectorAddress"
  shows "pd_poll p \<le> pd_poll (poll_data (pd_addr p) (the_account s i))" and "ballot s' = (ballot s)(i := ballot s i + v)"
    and "poll s' = (poll s)(pd_addr p := poll s (pd_addr p) - v)"
    and "amount_of voteAll s' i = amount_of voteAll s i - v"
    and "pd_poll (state_poll_data s' SysElectorAddress (pd_addr p)) = poll s' (pd_addr p)"
proof -
  let ?j = "pd_addr p" and ?old = "poll_data (pd_addr p) (the_account s SysElectorAddress)"
  have v: "(if poll s ?j < pd_poll p then poll s ?j else pd_poll p) = v" by (auto simp: v_def min_def)
  from assms(2) have use: "in_use3 i ?j SysElectorAddress s"
    and enough: "\<not> pd_poll (poll_data ?j (the_account s i)) < pd_poll p"
    and run: "eseq [upd_account ?j (acc_addPoll (0 - v)), upd_account_ub i (addVote (?j, 0 - v)),
      upd_account i (acc_addBallot v),
      ebind (egets (\<lambda>s. m_poll (the_account s ?j))) (\<lambda>n. upd_account_ub SysElectorAddress
        (set_system_poll \<lparr>pd_addr = ?j, pd_poll = n, pd_time = vote_time ?old p\<rparr>)),
      ewhen (v \<noteq> 0) (eseq [log_change (Ch_Vote i (?j, 0 - v)), log_change (Ch_SystemAddressPoll i ?old),
        log_change (Ch_Ballot i v), log_change (Ch_Poll ?j (0 - v))])] s = (Inr x, s')"
    unfolding v [symmetric] m_poll_the_account [symmetric]
    by (auto simp: sub_vote_def Let_def ebind_def [where m = "egets _"] simp del: eseq.simps split: if_splits)
  obtain s1 s2 s3 s4 where s1: "upd_account ?j (acc_addPoll (0 - v)) s = (Inr (), s1)"
      "upd_account_ub i (addVote (?j, 0 - v)) s1 = (Inr (), s2)" "upd_account i (acc_addBallot v) s2 = (Inr (), s3)"
    and reg: "ebind (egets (\<lambda>s. m_poll (the_account s ?j))) (\<lambda>n. upd_account_ub SysElectorAddress
        (set_system_poll \<lparr>pd_addr = ?j, pd_poll = n, pd_time = vote_time ?old p\<rparr>)) s3 = (Inr (), s4)"
    and log: "ewhen (v \<noteq> 0) (eseq [log_change (Ch_Vote i (?j, 0 - v)), log_change (Ch_SystemAddressPoll i ?old),
        log_change (Ch_Ballot i v), log_change (Ch_Poll ?j (0 - v))]) s4 = (Inr (), s')"
    using run by (rule eseq5E)
  note w = unvote_writes [OF use s1 [simplified]]
  note r = register_poll [OF reg]
  note l = same_accts_amounts [OF vote_log [OF log]]
  show "pd_poll p \<le> pd_poll (poll_data ?j (the_account s i))" using enough by simp
  show "ballot s' = (ballot s)(i := ballot s i + v)" using w(1) r(1) l(1) [of m_ballot] by (simp add: ballot_def)
  show "poll s' = (poll s)(?j := poll s ?j - v)" using w(2) r(2) l(1) [of m_poll] by (simp add: poll_def)
  show "amount_of voteAll s' i = amount_of voteAll s i - v"
    using w(3) r(4) [of i] assms(3) l(1) [of voteAll] by simp
  show "pd_poll (state_poll_data s' SysElectorAddress ?j) = poll s' ?j"
    using r(3) l by (simp add: poll_def)
qed

section \<open>Ballots\<close>

lemma transferBallotBuy_brc: "adds brc_of 0 (transferBallotBuy i v)"
proof -
  have "adds brc_of (- (v * BALLOTPRICE) + (v * BALLOTPRICE + (0 + 0))) (transferBallotBuy i v)"
    unfolding transferBallotBuy_def
    by (intro adds_eseq_Cons subBRC_brc addBRC_brc adds_eseq_Nil ballots.adds_add)
      (simp add: brc_of_def acc_addBallot_def changed_def)
  then show ?thesis by simp
qed

lemma transferBallotSell_brc: "adds brc_of 0 (transferBallotSell i v)"
proof -
  have sub: "adds brc_of 0 (subBallot i v)"
    unfolding subBallot_def
    by (intro adds_rules ballots.adds_add) (simp add: brc_of_def acc_addBallot_def changed_def)
  have "adds brc_of (0 + (v * BALLOTPRICE + (- (v * BALLOTPRICE) + 0))) (transferBallotSell i v)"
    unfolding transferBallotSell_def
    by (intro adds_eseq_Cons sub subBRC_brc addBRC_brc adds_eseq_Nil)
  then show ?thesis by simp
qed

lemma keeps_transferBallotBuy: "keeps (restorable sha3 trie) (transferBallotBuy i v)"
  unfolding transferBallotBuy_def eseq.simps
  by (intro journal.keeps_rules keeps_subBRC brc.keeps_add ballots.keeps_add)

lemma keeps_transferBallotSell: "keeps (restorable sha3 trie) (transferBallotSell i v)"
  unfolding transferBallotSell_def subBallot_def eseq.simps
  by (intro journal.keeps_rules keeps_get_account keeps_subBRC brc.keeps_add ballots.keeps_add)

section \<open>Verifying a vote\<close>

lemma verifyVote_one_stage:
  assumes "snd (getVotingCycle cfg (env_number info)) \<noteq> VOTE"
  shows "verifyVote_one cfg i info op s = (Inl VerifyVoteField, s)"
  using assms by (auto simp: verifyVote_one_def Let_def split: option.splits)

lemma verifyVote_keeps_state: "snd (verifyVote cfg i info ops s) = s"
proof -
  have "snd (verifyVote_one cfg i info op s) = s" for op s
    by (auto simp: verifyVote_one_def ebind_def Let_def split: option.splits VoteType.splits)
  then show ?thesis
    unfolding verifyVote_def
    by (induction ops arbitrary: s) (auto simp: ebind_def split: prod.splits sum.splits, (metis snd_conv)+)
qed

section \<open>A new round\<close>

lemma split_ranks_take:
  "split_ranks v b ps = (take (unat v) ps, take (unat b) (drop (unat v) ps))"
proof (induction v b ps rule: split_ranks.induct)
  case (2 v b p ps)
  have "unat (w - 1) = unat w - 1" if "w \<noteq> 0" for w :: u256
    using that by (simp add: unat_minus_one)
  moreover have "0 < unat w" if "w \<noteq> 0" for w :: u256 using that by (simp add: unat_gt_0)
  moreover have "unat w = 0 \<longleftrightarrow> w = 0" for w :: u256 by (simp add: unat_eq_zero)
  ultimately show ?case using 2 by (auto simp: take_Cons' drop_Cons')
qed simp

text \<open>Recording the fees of the round does not touch the registers.\<close>

interpretation registers: account_view "\<lambda>a. (m_vote_data a, m_mappingAddress a)" "([], (0, 0))"
  by unfold_locales (simp_all add: fresh_accounts amount_writes)

lemma registers_view: "registers.view s i = (vote_data s i, minerMapping s i)"
  by (simp add: registers.view_def vote_data_def minerMapping_def split: option.splits)

lemma registers_keptD:
  assumes "keeps registers.kept m" and "m s = (Inr x, s')"
  shows "vote_data s' = vote_data s \<and> minerMapping s' = minerMapping s"
  using registers.keptD [OF assms] by (simp add: fun_eq_iff registers_view)

lemma registers_ensure: "keeps registers.kept (ensure_account i)"
  unfolding ensure_account_def by (intro registers.base)

lemma registers_fee_snapshot: "keeps registers.kept (tryRecordFeeSnapshot cfg n)"
  unfolding tryRecordFeeSnapshot_def Let_def eseq.simps
  by (intro registers.base registers_ensure registers.amounts) (simp add: tryRecordSnapshot_def changed_def Let_def)

text \<open>
  The witnesses of a new round are the first electors of the register in the order of their
  registration: the sort is the identity.
\<close>

lemma write_registers:
  assumes "eseq [upd_account SysVarlitorAddress (set_vote_data v), upd_account SysCanlitorAddress (set_vote_data b)] s = (Inr x, s')"
    and "addressInUse s SysVarlitorAddress" and "addressInUse s SysCanlitorAddress"
  shows "vote_data s' SysVarlitorAddress = v" and "vote_data s' SysCanlitorAddress = b"
  using assms by (auto simp: run_simps set_vote_data_def changed_def vote_data_def addressInUse_iff sys_address_defs)

lemma third_round:
  assumes "1 < fst (getVotingCycle cfg m)" and "fst (getVotingCycle cfg m) < fst (getVotingCycle cfg n)" and "0 \<le> n"
  shows "newChangeHeight cfg \<le> n" and "fst (getVotingCycle cfg 0) < fst (getVotingCycle cfg m)"
  using assms by (auto simp: getVotingCycle_def newChangeHeight_def one_year_def one_month_def split: if_splits)

lemma map_elector_registers: "minerMapping s' = minerMapping s \<Longrightarrow> map_elector s' = map_elector s"
  by (simp add: map_elector_def fun_eq_iff)

lemma vote_data_accts: "vote_data s i \<noteq> [] \<Longrightarrow> \<exists>a. accts s i = Some a \<and> m_vote_data a = vote_data s i"
  by (auto simp: vote_data_def split: option.splits)

lemma ensure_account_use: "ensure_account i s = (Inr x, s') \<Longrightarrow> addressInUse s' = (addressInUse s)(i := True)"
  by (auto simp: ensure_account_def run_simps addressInUse_iff fun_eq_iff split: if_splits option.splits)

lemma log_in_use: "log_change c s = (Inr x, s') \<Longrightarrow> addressInUse s' = addressInUse s"
  by (auto simp: log_change_def addressInUse_iff fun_eq_iff)

lemma round_writes:
  assumes "eseq [log_change c, upd_account SysMinerSnapshotAddress (add_new_rounds_miner_sapshot k ps),
      eseq [log_change c1, log_change c2, upd_account SysVarlitorAddress (set_vote_data v),
        upd_account SysCanlitorAddress (set_vote_data b)]] s = (Inr x, s')"
    and "addressInUse s SysVarlitorAddress" and "addressInUse s SysCanlitorAddress"
  shows "vote_data s' SysVarlitorAddress = v" and "vote_data s' SysCanlitorAddress = b"
proof -
  from assms(1) obtain s1 s2 s3 s4 s5 where s: "log_change c s = (Inr (), s1)"
      "upd_account SysMinerSnapshotAddress (add_new_rounds_miner_sapshot k ps) s1 = (Inr (), s2)"
      "log_change c1 s2 = (Inr (), s3)" "log_change c2 s3 = (Inr (), s4)"
      "upd_account SysVarlitorAddress (set_vote_data v) s4 = (Inr (), s5)"
      "upd_account SysCanlitorAddress (set_vote_data b) s5 = (Inr (), s')"
    by (elim eseq_ConsE) auto
  then have w: "eseq [upd_account SysVarlitorAddress (set_vote_data v), upd_account SysCanlitorAddress (set_vote_data b)] s4 =
      (Inr (), s')"
    by (simp add: ebind_def)
  have "addressInUse s4 = addressInUse s"
    using log_in_use upd_account_in_use s by metis
  with write_registers [OF w] assms(2,3) show "vote_data s' SysVarlitorAddress = v" "vote_data s' SysCanlitorAddress = b"
    by simp_all
qed

lemma install_round_registers:
  assumes "install_round cfg k vars cans new s = (Inr x, s')" and "fst new \<noteq> []" and "fst (getVotingCycle cfg 0) < k"
    and "addressInUse s SysVarlitorAddress" and "addressInUse s SysCanlitorAddress"
  shows "vote_data s' SysVarlitorAddress = fst new \<and> vote_data s' SysCanlitorAddress = snd new"
proof -
  from assms(1,2) obtain s1 where s1: "ensure_account SysMinerSnapshotAddress s = (Inr (), s1)" and
      run: "ebind (egets (\<lambda>s. m_couplingSystemFee (the_account s SysMinerSnapshotAddress))) (\<lambda>fee.
        eseq [log_change (Ch_CoupingSystemFeeSnapshot SysMinerSnapshotAddress fee),
          upd_account SysMinerSnapshotAddress (add_new_rounds_miner_sapshot (of_nat k) (vars @ cans)),
          ewhen (k > fst (getVotingCycle cfg 0)) (eseq [
            log_change (Ch_MinnerSnapshot SysVarlitorAddress vars), log_change (Ch_MinnerSnapshot SysCanlitorAddress cans),
            upd_account SysVarlitorAddress (set_vote_data (fst new)),
            upd_account SysCanlitorAddress (set_vote_data (snd new))])]) s1 = (Inr x, s')"
    unfolding install_round_def by (simp only: if_False) (erule ebind_InrE, simp)
  have "addressInUse s1 SysVarlitorAddress" "addressInUse s1 SysCanlitorAddress"
    using ensure_account_use [OF s1] assms(4,5) by (simp_all add: fun_upd_def)
  with run assms(3) show ?thesis
    unfolding ebind_def egets_run ewhen_def by (auto intro: round_writes simp del: eseq.simps)
qed

lemma new_round_registers:
  assumes run: "try_newrounds_count_vote cfg n m s = (Inr x, s')"
    and round: "1 < fst (getVotingCycle cfg m)" "fst (getVotingCycle cfg m) < fst (getVotingCycle cfg n)" "0 \<le> n"
    and electors: "vote_data s SysElectorAddress \<noteq> []" and vars: "varlitor_num cfg \<noteq> 0"
  shows "vote_data s' SysVarlitorAddress =
      take (unat (varlitor_num cfg)) (map (map_elector s) (vote_data s SysElectorAddress)) \<and>
    vote_data s' SysCanlitorAddress =
      take (unat (standby_num cfg)) (drop (unat (varlitor_num cfg)) (map (map_elector s) (vote_data s SysElectorAddress)))"
proof -
  let ?ranked = "map (map_elector s) (vote_data s SysElectorAddress)"
  note high = third_round [OF round]
  have up: "unat (ucast w :: u256) = unat w" for w :: "32 word"
  proof -
    have "unat w < 2 ^ 32" using unsigned_less [of w] by simp
    then have "unat w < 2 ^ 256" by (rule less_le_trans) simp
    then show ?thesis by (simp add: unsigned_ucast_eq take_bit_nat_eq_self)
  qed
  from run round(2) obtain s1 where s1: "tryRecordFeeSnapshot cfg n s = (Inr (), s1)"
    and run1: "ebind (egets (\<lambda>s. accts s SysElectorAddress)) (\<lambda>elector. case elector of None \<Rightarrow> ereturn () | Some a \<Rightarrow>
      ebind (ensure_account SysVarlitorAddress) (\<lambda>_. ebind (ensure_account SysCanlitorAddress) (\<lambda>_.
      ebind (egets (\<lambda>s. s)) (\<lambda>s. install_round cfg (fst (getVotingCycle cfg m))
        (vote_data s SysVarlitorAddress) (vote_data s SysCanlitorAddress)
        (split_ranks (ucast (varlitor_num cfg)) (ucast (standby_num cfg))
          (ranked_electors cfg n s (m_vote_data a))))))) s1 = (Inr x, s')"
    unfolding try_newrounds_count_vote_def Let_def by (simp only: not_le [symmetric] if_False) (erule ebind_InrE, simp)
  have k1: "vote_data s1 = vote_data s" "minerMapping s1 = minerMapping s"
    using registers_keptD [OF registers_fee_snapshot s1] by simp_all
  obtain a where a: "accts s1 SysElectorAddress = Some a" "m_vote_data a = vote_data s SysElectorAddress"
    using vote_data_accts [of s1] electors k1 by metis
  from run1 obtain s2 s3 where s2: "ensure_account SysVarlitorAddress s1 = (Inr (), s2)"
    and s3: "ensure_account SysCanlitorAddress s2 = (Inr (), s3)"
    and inst: "install_round cfg (fst (getVotingCycle cfg m)) (vote_data s3 SysVarlitorAddress)
        (vote_data s3 SysCanlitorAddress) (split_ranks (ucast (varlitor_num cfg)) (ucast (standby_num cfg))
          (ranked_electors cfg n s3 (m_vote_data a))) s3 = (Inr x, s')"
    by (auto simp: ebind_def [where m = "egets _"] a elim!: ebind_InrE)
  have "minerMapping s3 = minerMapping s"
    using registers_keptD [OF registers_ensure s2] registers_keptD [OF registers_ensure s3] k1 by simp
  then have "map_elector s3 = map_elector s" by (rule map_elector_registers)
  then have "ranked_electors cfg n s3 (m_vote_data a) = ?ranked"
    using high(1) a(2) by (simp add: ranked_electors_def sort_greater_unchanged)
  then have new: "split_ranks (ucast (varlitor_num cfg)) (ucast (standby_num cfg)) (ranked_electors cfg n s3 (m_vote_data a)) =
      (take (unat (varlitor_num cfg)) ?ranked, take (unat (standby_num cfg)) (drop (unat (varlitor_num cfg)) ?ranked))"
    by (simp add: split_ranks_take up)
  have "0 < unat (varlitor_num cfg)" using vars by (simp add: unat_gt_0)
  with electors have "take (unat (varlitor_num cfg)) ?ranked \<noteq> []" by simp
  then have "fst (split_ranks (ucast (varlitor_num cfg)) (ucast (standby_num cfg))
      (ranked_electors cfg n s3 (m_vote_data a))) \<noteq> []"
    by (simp only: new fst_conv not_False_eq_True)
  moreover have "addressInUse s3 SysVarlitorAddress" "addressInUse s3 SysCanlitorAddress"
    using ensure_account_use [OF s2] ensure_account_use [OF s3] by (simp_all add: fun_upd_def)
  ultimately show ?thesis
    using install_round_registers [OF inst _ high(2)] by (simp only: new fst_conv snd_conv not_False_eq_True simp_thms)
qed

section \<open>Ballots for nothing\<close>

text \<open>Operations that leave the BRC and the ballots of all accounts, and remove no account.\<close>

definition same_purse :: "chain_state \<Rightarrow> chain_state \<Rightarrow> bool" where
  "same_purse s s' \<longleftrightarrow> BRC s' = BRC s \<and> ballot s' = ballot s \<and> (\<forall>i. accts s i \<noteq> None \<longrightarrow> accts s' i \<noteq> None)"

interpretation purse: step_relation same_purse
  by unfold_locales (auto simp: same_purse_def)

lemma purse_writes:
  "(\<And>a. m_BRC (g a) = m_BRC a) \<Longrightarrow> (\<And>a. m_ballot (g a) = m_ballot a) \<Longrightarrow> keeps same_purse (upd_account i g)"
  "(\<And>a a'. f a = Some a' \<Longrightarrow> m_BRC a' = m_BRC a) \<Longrightarrow> (\<And>a a'. f a = Some a' \<Longrightarrow> m_ballot a' = m_ballot a) \<Longrightarrow>
     keeps same_purse (upd_account_ub i f)"
  "keeps same_purse (log_change c)"
  "m_BRC b = 0 \<Longrightarrow> m_ballot b = 0 \<Longrightarrow> keeps same_purse (createAccount i b)"
  by (auto simp: keeps_def same_purse_def upd_account_def upd_account_ub_def log_change_def createAccount_def run_simps BRC_def ballot_def
      amount_of_def fun_eq_iff split: option.splits)

lemma snapshot_fields:
  "try_new_snapshot rounds a = Some a' \<Longrightarrow> m_BRC a' = m_BRC a \<and> m_ballot a' = m_ballot a"
  by (auto simp: try_new_snapshot_def changed_def Let_def split: if_splits)

lemma snapshot_purse: "keeps same_purse (trySnapshotWithMinerMapping cfg i n)"
proof -
  have get: "keeps same_purse (get_account j)" for j unfolding get_account_def by (intro purse.keeps_rules)
  have cookies: "keeps same_purse (setCookieIncomeNum j 0)" for j
    unfolding setCookieIncomeNum_def addCooikeIncomeNum_def eseq.simps
    by (intro purse.keeps_rules get purse_writes) (simp_all add: acc_addCooikeIncome_def changed_def)
  have polls: "keeps same_purse (subPoll j w)" for j w
    unfolding subPoll_def addPoll_def touch_if_empty_def eseq.simps
    by (intro purse.keeps_rules get purse_writes) (simp_all add: acc_addPoll_def changed_def)
  have ensure: "keeps same_purse (ensure_account j)" for j
    unfolding ensure_account_def by (intro purse.keeps_rules purse_writes) (simp_all add: fresh_accounts)
  have "keeps same_purse (try_new_vote_snapshot cfg j n)" for j
    unfolding try_new_vote_snapshot_def Let_def eseq.simps
    by (intro purse.keeps_rules ensure cookies polls purse_writes) (simp_all add: snapshot_fields clear_vote_data_def)
  then show ?thesis unfolding trySnapshotWithMinerMapping_def eseq.simps by (intro purse.keeps_rules)
qed

text \<open>The price is \<open>5 ^ 9\<close> times \<open>2 ^ 8\<close>.\<close>

lemma free_ballots: "2 ^ 248 dvd unat k \<Longrightarrow> k * BALLOTPRICE = 0"
proof -
  assume "2 ^ 248 dvd unat k"
  then obtain m where m: "unat k = 2 ^ 248 * m" by blast
  have "unat (k * BALLOTPRICE) = (2 ^ 248 * m) * unat BALLOTPRICE mod 2 ^ 256" by (simp add: unat_word_ariths(2) m)
  also have "\<dots> = 0" by (simp add: BALLOTPRICE_def mult.commute mult.left_commute)
  finally show ?thesis by (simp add: unat_eq_zero)
qed

lemma buy_for_free:
  assumes "k * BALLOTPRICE = 0" and "accts s i \<noteq> None" and "accts s systemAddress \<noteq> None"
  shows "\<exists>s'. transferBallotBuy i k s = (Inr (), s') \<and> ballot s' = (ballot s)(i := ballot s i + k) \<and> BRC s' = BRC s"
proof -
  obtain a where a: "accts s systemAddress = Some a" using assms(3) by blast
  have "\<exists>s1. addBRC systemAddress 0 s = (Inr (), s1) \<and> accts s1 = (accts s)(systemAddress \<mapsto> acc_addBRC 0 a)"
    using a by (cases "\<not> isDirty a \<and> isEmpty a") (simp_all add: addBRC_def touch_if_empty_def run_simps)
  then obtain s1 where s1: "addBRC systemAddress 0 s = (Inr (), s1)" "accts s1 = (accts s)(systemAddress \<mapsto> acc_addBRC 0 a)" by blast
  have "accts s1 i \<noteq> None" using assms(2) by (simp add: s1(2))
  then obtain b where b: "accts s1 i = Some b" by blast
  have "\<exists>s2. addBallot i k s1 = (Inr (), s2) \<and> accts s2 = (accts s1)(i \<mapsto> acc_addBallot k b)"
    using b by (cases "\<not> isDirty b \<and> isEmpty b"; cases "k = 0") (simp_all add: addBallot_def touch_if_empty_def run_simps)
  then obtain s2 where s2: "addBallot i k s1 = (Inr (), s2)" "accts s2 = (accts s1)(i \<mapsto> acc_addBallot k b)" by blast
  have "transferBallotBuy i k s = (Inr (), s2)"
    using s1(1) s2(1) by (simp add: transferBallotBuy_def assms(1) subBRC_def ebind_def)
  moreover have "ballot s1 = ballot s" "BRC s1 = BRC s"
    using a by (auto simp: s1(2) ballot_def BRC_def amount_of_def fun_eq_iff acc_addBRC_def changed_def)
  moreover have "ballot s2 = (ballot s1)(i := ballot s1 i + k)" "BRC s2 = BRC s1"
    using b by (auto simp: s2(2) ballot_def BRC_def amount_of_def fun_eq_iff acc_addBallot_def changed_def)
  ultimately show ?thesis by auto
qed

section \<open>What a rollback misses\<close>

lemma rollback_entries:
  assumes "changeLog s1 = changeLog s @ l"
  shows "rollback sha3 (savepoint s) s1 = rollback_n sha3 (length l) s1"
  using assms by (simp add: rollback_def savepoint_def)

lemma rollback_last:
  assumes "changeLog s = l @ [c]" and "undo_change sha3 c (accts s) = Some m"
  shows "rollback_n sha3 (Suc n) s = rollback_n sha3 n (s\<lparr>accts := m, changeLog := l\<rparr>)"
  using assms by simp

lemma pd_income_rollback:
  assumes "anytime_receivingPdFeeIncome cfg addr n True s = (Inr (b, c), s1)"
  shows "\<exists>s2. rollback sha3 (savepoint s) s1 = (Inr (), s2) \<and> BRC s2 = BRC s1 \<and> balance s2 = balance s1 \<and>
    (s1 \<noteq> s \<longrightarrow> BRC s2 addr = BRC s addr + b \<and> balance s2 addr = balance s addr + c)"
proof (cases "s1 = s")
  case True
  then show ?thesis by (simp add: rollback_def savepoint_def)
next
  case False
  obtain a sys where acc: "accts s addr = Some a" "accts s PdSystemAddress = Some sys"
    using assms by (auto simp: anytime_receivingPdFeeIncome_def ebind_def split: option.splits)
  have "\<exists>(x :: pd_acc) k. anytime_receivingPdFeeIncome cfg addr n True s =
      ebind (ewhen (pa_update x \<and> True) (eseq [log_change (Ch_CoupingSystemFeeSnapshot PdSystemAddress (m_couplingSystemFee a)),
        upd_account addr (setCouplingSystemFeeSnapshot ((pa_fee x)\<lparr>cs_numofrounds := of_nat k\<rparr>)),
        upd_account addr (acc_addBRC (pa_brcs x)), upd_account addr (acc_addBalance (pa_cookies x))]))
        (\<lambda>_. ereturn (pa_brcs x, pa_cookies x)) s"
    unfolding anytime_receivingPdFeeIncome_def ebind_def [of "egets _"] egets_run prod.case sum.case acc option.case Let_def
    by (rule exI)+ (rule refl)
  then obtain x :: pd_acc and k where form: "anytime_receivingPdFeeIncome cfg addr n True s =
      ebind (ewhen (pa_update x \<and> True) (eseq [log_change (Ch_CoupingSystemFeeSnapshot PdSystemAddress (m_couplingSystemFee a)),
        upd_account addr (setCouplingSystemFeeSnapshot ((pa_fee x)\<lparr>cs_numofrounds := of_nat k\<rparr>)),
        upd_account addr (acc_addBRC (pa_brcs x)), upd_account addr (acc_addBalance (pa_cookies x))]))
        (\<lambda>_. ereturn (pa_brcs x, pa_cookies x)) s" by blast
  have "pa_update x" using assms False form by (cases "pa_update x") (simp_all add: ebind_def)
  then have "(Inr (b, c), s1) = (Inr (pa_brcs x, pa_cookies x),
      s\<lparr>changeLog := changeLog s @ [Ch_CoupingSystemFeeSnapshot PdSystemAddress (m_couplingSystemFee a)],
        accts := (accts s)(addr \<mapsto> acc_addBalance (pa_cookies x) (acc_addBRC (pa_brcs x)
          (setCouplingSystemFeeSnapshot ((pa_fee x)\<lparr>cs_numofrounds := of_nat k\<rparr>) a)))\<rparr>)"
    using assms form acc(1) by (auto simp: run_simps)
  then obtain f where run: "s1 = s\<lparr>changeLog := changeLog s @ [Ch_CoupingSystemFeeSnapshot PdSystemAddress (m_couplingSystemFee a)],
      accts := (accts s)(addr \<mapsto> acc_addBalance c (acc_addBRC b (setCouplingSystemFeeSnapshot f a)))\<rparr>"
    by auto
  have fields: "m_BRC (setCouplingSystemFeeSnapshot g x) = m_BRC x" "m_balance (setCouplingSystemFeeSnapshot g x) = m_balance x" for g x
    by (simp_all add: setCouplingSystemFeeSnapshot_def changed_def)
  have "rollback sha3 (savepoint s) s1 = rollback_n sha3 1 s1"
    using rollback_entries [of s1 s "[Ch_CoupingSystemFeeSnapshot PdSystemAddress (m_couplingSystemFee a)]"] run by simp
  then show ?thesis using acc
    by (auto simp: run undo_change_def cache_entry_def BRC_def balance_def amount_of_def fun_eq_iff fields acc_addBRC_def acc_addBalance_def
        changed_def split: option.splits)
qed

text \<open>Votes that are taken back in part stay recorded.\<close>

lemma addVote_part:
  assumes "find (is_poll_of j) (m_vote_data a) = Some q" and "pd_poll q \<noteq> w"
  shows "\<exists>a'. addVote (j, 0 - w) a = Some a' \<and> find (is_poll_of j) (m_vote_data a') = Some (q\<lparr>pd_poll := pd_poll q - w\<rparr>) \<and>
    m_ballot a' = m_ballot a \<and> m_poll a' = m_poll a"
proof -
  have q: "is_poll_of j q" using assms(1) by (auto simp: find_Some_iff)
  have "pd_poll q + (0 - w) > 0" using assms(2) by (simp add: word_neq_0_conv [symmetric])
  with assms(1) find_update_first [OF assms(1), of "\<lambda>p. p\<lparr>pd_poll := pd_poll p + (0 - w)\<rparr>"] q show ?thesis
    by (auto simp: addVote_def changed_def)
qed

lemma set_system_poll_part:
  assumes "find (is_poll_of (pd_addr p)) (m_vote_data a) = Some q"
  shows "\<exists>a' q'. set_system_poll p a = Some a' \<and> find (is_poll_of (pd_addr p)) (m_vote_data a') = Some q' \<and> pd_poll q' = pd_poll p \<and>
    m_ballot a' = m_ballot a \<and> m_poll a' = m_poll a"
proof -
  have q: "is_poll_of (pd_addr p) q" using assms by (auto simp: find_Some_iff)
  with assms find_update_first [OF assms, of "\<lambda>q. q\<lparr>pd_poll := pd_poll p, pd_time := pd_time p\<rparr>"] show ?thesis
    by (auto simp: set_system_poll_def changed_def)
qed

text \<open>Undoing the four entries of \<^verbatim>\<open>sub_vote\<close>, in a state where the voter's record has the candidate.\<close>

lemma unvote_undo:
  assumes log: "changeLog t = l @ [Ch_Vote i (j, 0 - w), Ch_SystemAddressPoll i old, Ch_Ballot i w, Ch_Poll j (0 - w)]"
    and acc: "accts t i = Some a" "accts t j \<noteq> None" and q: "find (is_poll_of j) (m_vote_data a) = Some q"
    and old: "pd_addr old = j" "pd_poll old \<noteq> w"
  shows "\<exists>t'. rollback_n sha3 (Suc (Suc (Suc (Suc 0)))) t = (Inr (), t') \<and> ballot t' = (ballot t)(i := ballot t i - w) \<and> poll t' = (poll t)(j := poll t j + w) \<and>
    pd_poll (state_poll_data t' i j) = pd_poll old - w \<and> (\<forall>k. k \<noteq> i \<longrightarrow> state_poll_data t' k = state_poll_data t k)"
proof -
  obtain b where b: "accts t j = Some b" using acc(2) by blast
  let ?m1 = "(accts t)(j \<mapsto> acc_addPoll w b)"
  define a1 where "a1 = acc_addBallot (0 - w) (the (?m1 i))"
  have a1: "m_vote_data a1 = m_vote_data a" "m_ballot a1 = m_ballot a - w" "m_poll a1 = (if i = j then m_poll a + w else m_poll a)"
    using acc(1) b by (auto simp: a1_def acc_addBallot_def acc_addPoll_def changed_def)
  obtain a2 q2 where a2: "set_system_poll old a1 = Some a2" "find (is_poll_of j) (m_vote_data a2) = Some q2" "pd_poll q2 = pd_poll old"
    "m_ballot a2 = m_ballot a1" "m_poll a2 = m_poll a1"
    using set_system_poll_part [of old a1 q] q old(1) a1(1) by auto
  obtain a3 where a3: "addVote (j, 0 - w) a2 = Some a3" "find (is_poll_of j) (m_vote_data a3) = Some (q2\<lparr>pd_poll := pd_poll q2 - w\<rparr>)"
    "m_ballot a3 = m_ballot a2" "m_poll a3 = m_poll a2"
    using addVote_part [OF a2(2)] a2(3) old(2) by auto
  let ?t1 = "t\<lparr>accts := ?m1, changeLog := l @ [Ch_Vote i (j, 0 - w), Ch_SystemAddressPoll i old, Ch_Ballot i w]\<rparr>"
  let ?t2 = "t\<lparr>accts := ?m1(i \<mapsto> a1), changeLog := l @ [Ch_Vote i (j, 0 - w), Ch_SystemAddressPoll i old]\<rparr>"
  let ?t3 = "t\<lparr>accts := ?m1(i \<mapsto> a2), changeLog := l @ [Ch_Vote i (j, 0 - w)]\<rparr>"
  let ?t4 = "t\<lparr>accts := ?m1(i \<mapsto> a3), changeLog := l\<rparr>"
  have "rollback_n sha3 (Suc (Suc (Suc (Suc 0)))) t = rollback_n sha3 (Suc (Suc (Suc 0))) ?t1"
    using rollback_last [of t "l @ [Ch_Vote i (j, 0 - w), Ch_SystemAddressPoll i old, Ch_Ballot i w]" "Ch_Poll j (0 - w)" sha3 ?m1] log b
    by (simp add: undo_change_def cache_entry_def del: rollback_n.simps)
  also have "\<dots> = rollback_n sha3 (Suc (Suc 0)) ?t2"
    using rollback_last [of ?t1 "l @ [Ch_Vote i (j, 0 - w), Ch_SystemAddressPoll i old]" "Ch_Ballot i w" sha3 "?m1(i \<mapsto> a1)"] acc(1)
    by (auto simp: undo_change_def cache_entry_def a1_def simp del: rollback_n.simps)
  also have "\<dots> = rollback_n sha3 (Suc 0) ?t3"
    using rollback_last [of ?t2 "l @ [Ch_Vote i (j, 0 - w)]" "Ch_SystemAddressPoll i old" sha3 "?m1(i \<mapsto> a2)"] a2(1)
    by (simp add: undo_change_def cache_entry_def del: rollback_n.simps)
  also have "\<dots> = (Inr (), ?t4)" using a3(1) by (simp add: undo_change_def cache_entry_def)
  finally have run: "rollback_n sha3 (Suc (Suc (Suc (Suc 0)))) t = (Inr (), ?t4)" .
  have "ballot ?t4 = (ballot t)(i := ballot t i - w)" "poll ?t4 = (poll t)(j := poll t j + w)"
    using acc(1) b a1 a2(4,5) a3(3,4)
    by (auto simp: ballot_def poll_def amount_of_def fun_eq_iff acc_addPoll_def changed_def)
  moreover have "pd_poll (state_poll_data ?t4 i j) = pd_poll old - w"
    using a3(2) a2(3) by (simp add: state_poll_data_def poll_data_def)
  moreover have "state_poll_data ?t4 k = state_poll_data t k" if "k \<noteq> i" for k
    using that b by (auto simp: state_poll_data_def poll_data_def fun_eq_iff acc_addPoll_def changed_def)
  ultimately show ?thesis using run by blast
qed

text \<open>What taking votes back leaves in the log and in the voter's record.\<close>

lemma sub_vote_run:
  fixes s p
  defines "v \<equiv> min (pd_poll p) (poll s (pd_addr p))"
  assumes "sub_vote i p s = (Inr x, s1)" and "i \<noteq> SysElectorAddress" and "v \<noteq> 0" and "pd_poll (state_poll_data s i (pd_addr p)) \<noteq> v"
  shows "\<exists>t a. s1 = t\<lparr>changeLog := changeLog s @ [Ch_Vote i (pd_addr p, 0 - v),
      Ch_SystemAddressPoll i (poll_data (pd_addr p) (the_account s SysElectorAddress)), Ch_Ballot i v, Ch_Poll (pd_addr p) (0 - v)]\<rparr> \<and>
    accts s1 i = Some a \<and> accts s1 (pd_addr p) \<noteq> None \<and> find (is_poll_of (pd_addr p)) (m_vote_data a) \<noteq> None \<and>
    pd_addr (poll_data (pd_addr p) (the_account s SysElectorAddress)) = pd_addr p"
proof -
  let ?j = "pd_addr p" and ?old = "poll_data (pd_addr p) (the_account s SysElectorAddress)"
  note enough = sub_vote_spec(1) [OF assms(2,3)]
  have v: "(if m_poll (the_account s ?j) < pd_poll p then m_poll (the_account s ?j) else pd_poll p) = v"
    by (auto simp: v_def min_def m_poll_the_account)
  from assms(2) have use: "in_use3 i ?j SysElectorAddress s"
    and run: "eseq [upd_account ?j (acc_addPoll (0 - v)), upd_account_ub i (addVote (?j, 0 - v)), upd_account i (acc_addBallot v),
      ebind (egets (\<lambda>s. m_poll (the_account s ?j))) (\<lambda>n. upd_account_ub SysElectorAddress
        (set_system_poll \<lparr>pd_addr = ?j, pd_poll = n, pd_time = vote_time ?old p\<rparr>)),
      ewhen (v \<noteq> 0) (eseq (map log_change [Ch_Vote i (?j, 0 - v), Ch_SystemAddressPoll i ?old, Ch_Ballot i v, Ch_Poll ?j (0 - v)]))] s = (Inr x, s1)"
    unfolding v [symmetric]
    by (auto simp: sub_vote_def Let_def ebind_def [where m = "egets _"] simp del: eseq.simps split: if_splits)
  obtain t1 t2 t3 t4 where t: "upd_account ?j (acc_addPoll (0 - v)) s = (Inr (), t1)" "upd_account_ub i (addVote (?j, 0 - v)) t1 = (Inr (), t2)"
      "upd_account i (acc_addBallot v) t2 = (Inr (), t3)"
      "upd_account_ub SysElectorAddress (set_system_poll \<lparr>pd_addr = ?j, pd_poll = m_poll (the_account t3 ?j), pd_time = vote_time ?old p\<rparr>) t3 = (Inr (), t4)"
      "eseq (map log_change [Ch_Vote i (?j, 0 - v), Ch_SystemAddressPoll i ?old, Ch_Ballot i v, Ch_Poll ?j (0 - v)]) t4 = (Inr (), s1)"
    using run assms(4) by (elim eseq5E) (simp add: ebind_def [where m = "egets _"] del: eseq.simps list.map)
  obtain ai aj where acc: "accts s i = Some ai" "accts s ?j = Some aj" using use by (auto simp: in_use3_accts)
  have t1: "t1 = s\<lparr>accts := (accts s)(?j \<mapsto> acc_addPoll (0 - v) aj)\<rparr>" using t(1) acc(2) by (simp add: upd_account_def)
  obtain a1 where a1: "accts t1 i = Some a1" "m_vote_data a1 = m_vote_data ai"
    using acc by (cases "i = ?j") (auto simp: t1 acc_addPoll_def changed_def)
  have "find (is_poll_of ?j) (m_vote_data ai) \<noteq> None"
  proof
    assume "find (is_poll_of ?j) (m_vote_data ai) = None"
    with enough acc(1) have "pd_poll p \<le> 0" by (simp add: the_account_def poll_data_def empty_poll_def)
    with assms(4) show False by (simp add: v_def min_def split: if_splits)
  qed
  then obtain q where q: "find (is_poll_of ?j) (m_vote_data a1) = Some q" using a1(2) by auto
  have "pd_poll q \<noteq> v" using assms(5) q acc(1) a1(2) by (simp add: state_poll_data_def poll_data_def)
  then obtain a2 where a2: "addVote (?j, 0 - v) a1 = Some a2" "find (is_poll_of ?j) (m_vote_data a2) \<noteq> None"
    using addVote_part [OF q, of v] by auto
  have t2: "t2 = t1\<lparr>accts := (accts t1)(i \<mapsto> a2)\<rparr>" using t(2) a1(1) a2(1) by (auto elim!: upd_account_ub_E)
  have t3: "t3 = t2\<lparr>accts := (accts t2)(i \<mapsto> acc_addBallot v a2)\<rparr>" using t(3) by (simp add: upd_account_def t2)
  obtain b b' where b: "accts t3 SysElectorAddress = Some b" "find (is_poll_of ?j) (m_vote_data b) \<noteq> None"
      "t4 = t3\<lparr>accts := (accts t3)(SysElectorAddress \<mapsto> b')\<rparr>"
    using t(4) by (elim upd_account_ub_E) (auto simp: set_system_poll_def split: option.splits)
  have s1: "s1 = t4\<lparr>changeLog := changeLog s @ [Ch_Vote i (?j, 0 - v), Ch_SystemAddressPoll i ?old, Ch_Ballot i v, Ch_Poll ?j (0 - v)]\<rparr>"
    using t(5) eseq_log_accts [of _ t4] by (simp add: b(3) t3 t2 t1 del: eseq.simps list.map)
  have "accts s1 i = Some (acc_addBallot v a2)" "accts s1 ?j \<noteq> None"
    using assms(3) by (auto simp: s1 b(3) t3 t2 t1)
  moreover have "find (is_poll_of ?j) (m_vote_data (acc_addBallot v a2)) \<noteq> None" using a2(2) by (simp add: acc_addBallot_def changed_def)
  moreover have "pd_addr ?old = ?j"
  proof -
    have "m_vote_data b = m_vote_data (the_account s SysElectorAddress)"
      using b(1) assms(3) acc(2) by (auto simp: t3 t2 t1 the_account_def acc_addPoll_def changed_def split: if_splits)
    with b(2) obtain y where y: "find (is_poll_of ?j) (m_vote_data (the_account s SysElectorAddress)) = Some y" by auto
    then have "pd_addr y = ?j" by (auto simp: find_Some_iff)
    with y show ?thesis by (simp add: poll_data_def)
  qed
  ultimately show ?thesis using s1 by blast
qed

lemma unvote_rollback:
  fixes s p
  defines "v \<equiv> min (pd_poll p) (poll s (pd_addr p))" and "r \<equiv> pd_poll (state_poll_data s SysElectorAddress (pd_addr p))"
  assumes "sub_vote i p s = (Inr x, s1)" and "i \<noteq> SysElectorAddress" and "v \<noteq> 0" and "r \<noteq> v"
    and "pd_poll (state_poll_data s i (pd_addr p)) \<noteq> v"
  shows "\<exists>s2. rollback sha3 (savepoint s) s1 = (Inr (), s2) \<and> ballot s2 = ballot s \<and> poll s2 = poll s \<and>
    pd_poll (state_poll_data s2 i (pd_addr p)) = r - v \<and>
    pd_poll (state_poll_data s2 SysElectorAddress (pd_addr p)) = poll s (pd_addr p) - v"
proof -
  let ?j = "pd_addr p" and ?old = "poll_data (pd_addr p) (the_account s SysElectorAddress)"
  note spec = sub_vote_spec [OF assms(3,4), folded v_def]
  obtain t a where t: "s1 = t\<lparr>changeLog := changeLog s @ [Ch_Vote i (?j, 0 - v), Ch_SystemAddressPoll i ?old, Ch_Ballot i v, Ch_Poll ?j (0 - v)]\<rparr>"
    and a: "accts s1 i = Some a" "accts s1 ?j \<noteq> None" "find (is_poll_of ?j) (m_vote_data a) \<noteq> None" and old: "pd_addr ?old = ?j"
    using sub_vote_run [OF assms(3,4), folded v_def] assms(5,7) spec(1) by blast
  have r: "pd_poll ?old = r" by (simp add: r_def state_poll_data_def the_account_def poll_data_def dead_account_def split: option.splits)
  have log: "changeLog s1 = changeLog s @ [Ch_Vote i (?j, 0 - v), Ch_SystemAddressPoll i ?old, Ch_Ballot i v, Ch_Poll ?j (0 - v)]"
    using t by simp
  then have undo: "rollback sha3 (savepoint s) s1 = rollback_n sha3 (Suc (Suc (Suc (Suc 0)))) s1"
    using rollback_entries [OF log] by (simp del: rollback_n.simps)
  obtain q where "find (is_poll_of ?j) (m_vote_data a) = Some q" using a(3) by blast
  from unvote_undo [OF log a(1,2) this old] assms(6) r obtain s2 where s2: "rollback_n sha3 (Suc (Suc (Suc (Suc 0)))) s1 = (Inr (), s2)"
      "ballot s2 = (ballot s1)(i := ballot s1 i - v)" "poll s2 = (poll s1)(?j := poll s1 ?j + v)"
      "pd_poll (state_poll_data s2 i ?j) = r - v" "\<And>k. k \<noteq> i \<Longrightarrow> state_poll_data s2 k = state_poll_data s1 k"
    by metis
  moreover have "ballot s2 = ballot s" "poll s2 = poll s" using s2(2,3) spec(2,3) by (auto simp: fun_eq_iff)
  moreover have "pd_poll (state_poll_data s2 SysElectorAddress ?j) = poll s ?j - v"
    using s2(5) [of SysElectorAddress] assms(4) spec(3,5) by simp
  ultimately show ?thesis using undo by auto
qed

section \<open>A sample state\<close>

text \<open>
  Account 5 has 50 ballots and has given 10 votes to account 6, the only elector; both have the
  snapshot of round 1, and block 28944000 of the test network opens the voting month of round 2.
\<close>

definition sample_snapshot :: VoteSnapshot where
  "sample_snapshot = empty_snapshot\<lparr>vs_voteDataHistory := [(1, [(6, 10)])], vs_pollNumHistory := [(1, 0)],
     vs_blockSummaryHistory := [(1, 0)], vs_latest_round := 1\<rparr>"

definition vote_state :: chain_state where
  "vote_state = \<lparr>accts =
     [5 \<mapsto> (account_nbb 0 100 9000000000)\<lparr>m_ballot := 50, m_vote_sapshot := sample_snapshot,
        m_vote_data := [\<lparr>pd_addr = 6, pd_poll = 10, pd_time = 0\<rparr>]\<rparr>,
      6 \<mapsto> (account_nbb 0 0 0)\<lparr>m_poll := 10, m_vote_sapshot := sample_snapshot\<rparr>,
      systemAddress \<mapsto> account_nbb 0 0 5000000000000,
      PdSystemAddress \<mapsto> account_nbb 0 0 1000,
      SysVarlitorAddress \<mapsto> (account_ballot 0)\<lparr>m_vote_data := [\<lparr>pd_addr = 6, pd_poll = 10, pd_time = 3\<rparr>]\<rparr>,
      SysElectorAddress \<mapsto> (account_ballot 0)\<lparr>m_vote_data := [\<lparr>pd_addr = 6, pd_poll = 10, pd_time = 3\<rparr>]\<rparr>],
     changeLog = [], accountStartNonce = 0\<rparr>"

definition vote_env :: EnvInfo where
  "vote_env = \<lparr>env_number = 28944000, env_timestamp = 1000, env_chain_id = 1, env_author = 8, env_gasLimit = 10000000,
     env_gasUsed = 0\<rparr>"

definition vote_op :: "nat \<Rightarrow> u256 \<Rightarrow> operation" where
  "vote_op ty n = Op_vote \<lparr>vo_from = 5, vo_to = 6, vo_vote_type = ty, vo_vote_numbers = n\<rparr>"

section \<open>Properties\<close>

text \<open>
  C4. Delegating moves exactly the votes asked for, for a voter other than the account that keeps the
  register of electors: the voter had that many ballots and has that many fewer, its votes given out
  grow by as many, the candidate's poll grows by as many and nobody else's ballots or poll change; the
  register of electors shows the candidate's new poll, whatever it showed before.
\<close>

theorem add_vote_effect:
  assumes "add_vote i p s = (Inr x, s')" and "i \<noteq> SysElectorAddress"
  shows "pd_poll p \<le> ballot s i \<and> ballot s' = (ballot s)(i := ballot s i - pd_poll p) \<and>
    poll s' = (poll s)(pd_addr p := poll s (pd_addr p) + pd_poll p) \<and>
    amount_of voteAll s' i = amount_of voteAll s i + pd_poll p \<and>
    pd_poll (state_poll_data s' SysElectorAddress (pd_addr p)) = poll s' (pd_addr p)"
  using add_vote_spec [OF assms] by simp

definition sample_poll :: "u256 \<Rightarrow> PollData" where
  "sample_poll n = \<lparr>pd_addr = 6, pd_poll = n, pd_time = 1000\<rparr>"

lemma sample_add_vote: "fst (add_vote 5 (sample_poll 7) vote_state) = Inr ()"
  by code_simp

lemma pair_run: "fst r = x \<Longrightarrow> r = (x, snd r)"
  by (cases r) simp

theorem add_vote_effect_witness:
  "\<exists>s'. add_vote 5 (sample_poll 7) vote_state = (Inr (), s') \<and> ballot s' 5 = ballot vote_state 5 - 7 \<and>
    poll s' 6 = poll vote_state 6 + 7"
proof -
  have run: "add_vote 5 (sample_poll 7) vote_state = (Inr (), snd (add_vote 5 (sample_poll 7) vote_state))"
    by (rule pair_run) (rule sample_add_vote)
  have "(5 :: address) \<noteq> SysElectorAddress" by (simp add: SysElectorAddress_def)
  from add_vote_effect [OF run this] run show ?thesis by (auto simp: sample_poll_def)
qed

text \<open>
  Delegating votes and taking the same votes back restores the ballots and polls of all accounts
  and the voter's total of votes, as long as the candidate's poll does not wrap.
\<close>

lemma vote_roundtrip:
  assumes "eseq [add_vote i p, sub_vote i p] s = (Inr x, s')" and "i \<noteq> SysElectorAddress"
    and "unat (poll s (pd_addr p)) + unat (pd_poll p) < 2 ^ 256"
  shows "ballot s' = ballot s \<and> poll s' = poll s \<and> amount_of voteAll s' i = amount_of voteAll s i"
proof -
  from assms(1) obtain s1 where s1: "add_vote i p s = (Inr (), s1)" and s2: "sub_vote i p s1 = (Inr (), s')"
    by (auto elim!: ebind_InrE)
  note a = add_vote_spec [OF s1 assms(2)] and b = sub_vote_spec [OF s2 assms(2)]
  have "unat (pd_poll p) \<le> unat (poll s (pd_addr p) + pd_poll p)"
    using assms(3) by (simp add: unat_add_lem [THEN iffD1])
  then have "min (pd_poll p) (poll s1 (pd_addr p)) = pd_poll p"
    using a(3) by (simp add: min_def word_le_nat_alt)
  with a(2,3,4) b(2,3,4) show ?thesis by simp
qed

text \<open>
  C34. Outside the voting stage every transaction with at least one vote operation is refused, whatever
  the kind of its first operation: buying and selling ballots too.
\<close>

theorem verifyVote_outside_stage:
  assumes "snd (getVotingCycle cfg (env_number info)) \<noteq> VOTE" and "ops \<noteq> []"
  shows "verifyVote cfg i info ops s = (Inl VerifyVoteField, s)"
  using assms verifyVote_one_stage by (cases ops) (auto simp: verifyVote_def ebind_def)

theorem verifyVote_outside_stage_witness:
  "verifyVote default_config 5 (vote_env\<lparr>env_number := 100\<rparr>) [vote_op 1 3] vote_state =
   (Inl VerifyVoteField, vote_state)"
  by (rule verifyVote_outside_stage)
    (simp_all add: getVotingCycle_def one_year_def one_month_def default_config_def MAINCHAINID_def TESTCHAINID_def)

text \<open>
  C32. When a round ends that is not the first, the witnesses become the first electors of the register
  and the candidates the next ones, with replaced miners mapped back to the original; the polls of the
  electors play no part, because the sort that is meant to rank them leaves the list as it is. (The
  change from round 1 to round 2 leaves the registers alone.)
\<close>

theorem new_round_ignores_polls:
  assumes "try_newrounds_count_vote cfg n m s = (Inr x, s')" and "1 < fst (getVotingCycle cfg m)"
    and "fst (getVotingCycle cfg m) < fst (getVotingCycle cfg n)" and "0 \<le> n"
    and "vote_data s SysElectorAddress \<noteq> []" and "varlitor_num cfg \<noteq> 0"
  shows "vote_data s' SysVarlitorAddress =
      take (unat (varlitor_num cfg)) (map (map_elector s) (vote_data s SysElectorAddress)) \<and>
    vote_data s' SysCanlitorAddress =
      take (unat (standby_num cfg)) (drop (unat (varlitor_num cfg)) (map (map_elector s) (vote_data s SysElectorAddress)))"
  using assms by (rule new_round_registers)

theorem new_round_ignores_polls_witness:
  "\<exists>s'. try_newrounds_count_vote default_config 31536000 31535999 vote_state = (Inr (), s') \<and>
    vote_data s' SysVarlitorAddress = take 21 (map (map_elector vote_state) (vote_data vote_state SysElectorAddress))"
proof -
  let ?run = "try_newrounds_count_vote default_config 31536000 31535999 vote_state"
  have "fst ?run = Inr ()" by code_simp
  then have run: "?run = (Inr (), snd ?run)" by (rule pair_run)
  have "1 < fst (getVotingCycle default_config 31535999)"
    "fst (getVotingCycle default_config 31535999) < fst (getVotingCycle default_config 31536000)"
    "varlitor_num default_config \<noteq> 0" "unat (varlitor_num default_config) = 21"
    by (simp_all add: getVotingCycle_def one_year_def one_month_def default_config_def MAINCHAINID_def TESTCHAINID_def)
  moreover have "vote_data vote_state SysElectorAddress \<noteq> []" by code_simp
  ultimately show ?thesis using new_round_ignores_polls [OF run] run by auto
qed

text \<open>
  Buying and selling ballots keeps the total of BRC: what the account pays or receives, the system
  account receives or pays.
\<close>

lemma ballots_conserve_brc:
  assumes "transferBallotBuy i v s = (Inr x, s') \<or> transferBallotSell i v s = (Inr x, s')"
  shows "grand_total brc_of s' = grand_total brc_of s"
  using assms addsD [OF transferBallotBuy_brc, of i v s x s'] addsD [OF transferBallotSell_brc, of i v s x s'] by auto

text \<open>
  C35. The price of ballots wraps: an account can buy any multiple of \<open>2 ^ 248\<close> ballots for nothing. In
  the voting stage the check of the transaction accepts the purchase, whatever the account owns, and
  its execution credits the ballots and moves no BRC (the buyer's account and the system's exist, and
  the snapshot of the buyer's votes that precedes the purchase succeeds).
\<close>

theorem ballots_for_free:
  assumes "snd (getVotingCycle cfg (env_number info)) = VOTE" and "2 ^ 248 dvd unat (vo_vote_numbers p)" and "vo_vote_numbers p \<noteq> 0"
    and "vo_vote_type p = 1" and "accts s i \<noteq> None" and "accts s systemAddress \<noteq> None"
    and "trySnapshotWithMinerMapping cfg i (of_int (env_number info)) s = (Inr (), s1)"
  shows "verifyVote cfg i info [Op_vote p] s = (Inr (), s) \<and>
    (\<exists>s'. execute_vote cfg i [Op_vote p] info s = (Inr (), s') \<and>
      ballot s' = (ballot s)(i := ballot s i + vo_vote_numbers p) \<and> BRC s' = BRC s)"
proof -
  have free: "vo_vote_numbers p * BALLOTPRICE = 0" using assms(2) by (rule free_ballots)
  have snap: "BRC s1 = BRC s" "ballot s1 = ballot s" "accts s1 i \<noteq> None" "accts s1 systemAddress \<noteq> None"
    using keepsD [OF snapshot_purse [of cfg i "of_int (env_number info)"], of s] assms(5-7) by (auto simp: same_purse_def)
  have kind: "as_vote (Op_vote p) = Some p" "VoteType_of (vo_vote_type p) = Some EBuyVote"
    by (simp_all add: as_vote_def assms(4) VoteType_of_def)
  obtain s' where "transferBallotBuy i (vo_vote_numbers p) s1 = (Inr (), s')"
      "ballot s' = (ballot s1)(i := ballot s1 i + vo_vote_numbers p)" "BRC s' = BRC s1"
    using buy_for_free [OF free snap(3,4)] by blast
  then have "execute_vote cfg i [Op_vote p] info s = (Inr (), s')"
    using assms(7) by (simp add: execute_vote_def execute_vote_one_def kind Let_def ebind_def)
  moreover have "verifyVote cfg i info [Op_vote p] s = (Inr (), s)"
    using assms(1,3) free by (simp add: verifyVote_def verifyVote_one_def kind Let_def ebind_def)
  ultimately show ?thesis using snap \<open>ballot s' = _\<close> \<open>BRC s' = _\<close> by auto
qed

theorem ballots_for_free_witness:
  "verifyVote default_config 5 vote_env [vote_op 1 (2 ^ 248)] vote_state = (Inr (), vote_state) \<and>
   (\<exists>s'. execute_vote default_config 5 [vote_op 1 (2 ^ 248)] vote_env vote_state = (Inr (), s') \<and>
     ballot s' 5 = ballot vote_state 5 + 2 ^ 248 \<and> BRC s' = BRC vote_state)"
proof -
  let ?p = "\<lparr>vo_from = 5, vo_to = 6, vo_vote_type = 1, vo_vote_numbers = 2 ^ 248\<rparr>"
  let ?snap = "trySnapshotWithMinerMapping default_config 5 (of_int (env_number vote_env)) vote_state"
  have "fst ?snap = Inr ()" by code_simp
  then have snap: "?snap = (Inr (), snd ?snap)" by (rule pair_run)
  have stage: "snd (getVotingCycle default_config (env_number vote_env)) = VOTE" by code_simp
  have "accts vote_state 5 \<noteq> None" "accts vote_state systemAddress \<noteq> None"
    by (simp_all add: vote_state_def sys_address_defs)
  with ballots_for_free [OF stage _ _ _ _ _ snap, of ?p] show ?thesis by (auto simp: vote_op_def)
qed

text \<open>
  C36. Rolling back a transaction right after votes were taken back does not restore the votes. Let the
  voter keep some of its votes for the candidate, and let \<open>r\<close> be the candidate's poll in the register of electors
  before. After the rollback, which succeeds, the ballots and polls of all accounts are as they were, but the
  voter's votes for the candidate are \<open>r\<close> less the votes taken back, instead of what they were, and
  the register keeps the candidate's reduced poll.
\<close>

theorem unvote_rollback_loses_votes:
  fixes s p
  defines "v \<equiv> min (pd_poll p) (poll s (pd_addr p))" and "r \<equiv> pd_poll (state_poll_data s SysElectorAddress (pd_addr p))"
  assumes "sub_vote i p s = (Inr x, s1)" and "i \<noteq> SysElectorAddress" and "v \<noteq> 0" and "r \<noteq> v"
    and "pd_poll (state_poll_data s i (pd_addr p)) \<noteq> v"
  shows "\<exists>s2. rollback sha3 (savepoint s) s1 = (Inr (), s2) \<and> ballot s2 = ballot s \<and> poll s2 = poll s \<and>
    pd_poll (state_poll_data s2 i (pd_addr p)) = r - v \<and>
    pd_poll (state_poll_data s2 SysElectorAddress (pd_addr p)) = poll s (pd_addr p) - v"
  using unvote_rollback [OF assms(3-4), folded v_def r_def] assms(5-7) by blast

text \<open>The voter has 10 of the candidate's 25 votes and takes 4 back; after the rollback it is recorded with 21.\<close>

definition two_voters :: chain_state where
  "two_voters = vote_state\<lparr>accts := (accts vote_state)(6 \<mapsto> (account_nbb 0 0 0)\<lparr>m_poll := 25\<rparr>,
     SysElectorAddress \<mapsto> (account_ballot 0)\<lparr>m_vote_data := [\<lparr>pd_addr = 6, pd_poll = 25, pd_time = 3\<rparr>]\<rparr>)\<rparr>"

theorem unvote_rollback_loses_votes_witness:
  "\<exists>s1 s2. sub_vote 5 (sample_poll 4) two_voters = (Inr (), s1) \<and> rollback (\<lambda>_. 0) (savepoint two_voters) s1 = (Inr (), s2) \<and>
     pd_poll (state_poll_data two_voters 5 6) = 10 \<and> pd_poll (state_poll_data s2 5 6) = 21"
proof -
  have "fst (sub_vote 5 (sample_poll 4) two_voters) = Inr ()" by code_simp
  then have run: "sub_vote 5 (sample_poll 4) two_voters = (Inr (), snd (sub_vote 5 (sample_poll 4) two_voters))" by (rule pair_run)
  have facts: "poll two_voters 6 = 25" "pd_poll (state_poll_data two_voters SysElectorAddress 6) = 25"
    "pd_poll (state_poll_data two_voters 5 6) = 10" "(5 :: address) \<noteq> SysElectorAddress"
    by code_simp+
  from unvote_rollback_loses_votes [OF run facts(4), where ?sha3.0 = "\<lambda>_. 0"] facts(1-3)
  obtain s2 where "rollback (\<lambda>_. 0) (savepoint two_voters) (snd (sub_vote 5 (sample_poll 4) two_voters)) = (Inr (), s2)"
    "pd_poll (state_poll_data s2 5 6) = 21"
    by (auto simp: sample_poll_def)
  with run facts(3) show ?thesis by blast
qed

text \<open>
  C37. Income from the exchange fees survives a rollback. When an account has received it, rolling back
  to the savepoint before succeeds but leaves the BRC and cookies of every account as they are after the
  payment; if the call paid anything out, the account keeps it.
\<close>

theorem pd_income_survives_rollback:
  assumes "anytime_receivingPdFeeIncome cfg addr n True s = (Inr (b, c), s1)"
  shows "\<exists>s2. rollback sha3 (savepoint s) s1 = (Inr (), s2) \<and> BRC s2 = BRC s1 \<and> balance s2 = balance s1 \<and>
    (s1 \<noteq> s \<longrightarrow> BRC s2 addr = BRC s addr + b \<and> balance s2 addr = balance s addr + c)"
  using assms by (rule pd_income_rollback)

theorem pd_income_survives_rollback_witness:
  "\<exists>s1 s2. anytime_receivingPdFeeIncome default_config 5 28944000 True vote_state = (Inr (500, 0), s1) \<and>
     rollback (\<lambda>_. 0) (savepoint vote_state) s1 = (Inr (), s2) \<and> BRC s2 5 = BRC vote_state 5 + 500"
proof -
  let ?run = "anytime_receivingPdFeeIncome default_config 5 28944000 True vote_state"
  have "fst ?run = Inr (500, 0)" by code_simp
  then have run: "?run = (Inr (500, 0), snd ?run)" by (rule pair_run)
  have "BRC (snd ?run) 5 \<noteq> BRC vote_state 5" by code_simp
  then have "snd ?run \<noteq> vote_state" by metis
  with pd_income_survives_rollback [OF run, of "\<lambda>_. 0"] run show ?thesis by blast
qed

end
