(* ===== verification/RlpLaws.thy ===== *)
theory RlpLaws
  imports Rlp
begin

text \<open>
  The properties of the RLP writer and reader: the writer produces the encoding of the
  specification, the cached subscript reads every item of a list in any order of access, and the
  integers and hashes that go through a stream come back.
\<close>

section \<open>The writer\<close>

text \<open>
  C5. Whatever nested lists and strings are appended to an empty stream, with the sizes that RLP
  admits, the stream ends up with exactly the RLP encoding of that structure and with no list open.
\<close>

theorem rlp_stream_refines:
  assumes "rlp_fits t"
  shows "sbind (append_item t empty_stream) stream_out = Inr (encode t)"
  using assms by (rule stream_item_out)

theorem rlp_stream_refines_witness:
  "sbind (append_item (RList [RData [1], RList [], RList [RData [0x80, 2]]]) empty_stream) stream_out =
   Inr (encode (RList [RData [1], RList [], RList [RData [0x80, 2]]]))"
  by (rule rlp_stream_refines) (simp add: rlp_fits_def header_def)

section \<open>The reader\<close>

text \<open>Reading the items of a list at the given indices, one after the other, through one node.\<close>

fun subscripts :: "nat list \<Rightarrow> rlp_node \<Rightarrow> rlp_error + bytes list" where
  "subscripts [] nd = Inr []"
| "subscripts (i # is) nd =
     sbind (subscript i nd) (\<lambda>(d, nd'). sbind (subscripts is nd') (\<lambda>ds. Inr (d # ds)))"

lemma subscripts_cache_ok:
  assumes "cache_ok ts nd" and "\<forall>i\<in>set is. i < length ts" and "rlp_fits (RList ts)"
  shows "subscripts is nd = Inr (map (\<lambda>i. encode (ts ! i)) is)"
  using assms
proof (induction "is" arbitrary: nd)
  case (Cons i "is")
  then obtain nd' where "subscript i nd = Inr (encode (ts ! i), nd')" "cache_ok ts nd'"
    using subscript_cache_ok [of ts nd i] by auto
  with Cons show ?case by (simp add: sbind_def del: encode.simps)
qed simp

text \<open>
  The cache of the subscript operator is transparent: reading items of an encoded list at any
  sequence of valid indices, forwards, backwards or repeated, returns the encodings of these items.
\<close>

lemma rlp_subscripts:
  assumes "rlp_fits (RList ts)" and "\<forall>i\<in>set is. i < length ts"
  shows "subscripts is (fresh_node (encode (RList ts))) = Inr (map (\<lambda>i. encode (ts ! i)) is)"
proof -
  have "cache_ok ts (fresh_node (encode (RList ts)))" by (simp only: cache_ok_def simp_thms)
  then show ?thesis using assms(2,1) by (rule subscripts_cache_ok)
qed

text \<open>The reader counts the items of an encoded list correctly.\<close>

lemma rlp_items_count:
  assumes "rlp_fits (RList ts)"
  shows "rlp_items (encode (RList ts)) = Inr (length ts)"
  using assms by (rule rlp_items_encode)

section \<open>Round trips\<close>

text \<open>
  A 256-bit integer written to a stream is read back unchanged by \<^verbatim>\<open>toInt<u256>\<close>, for every choice
  of conversion flags.
\<close>

lemma rlp_u256_roundtrip:
  fixes w :: u256
  shows "sbind (append_word w empty_stream) (\<lambda>st. sbind (stream_out st) (toInt fl)) = Inr w"
proof -
  have "unat w < 2 ^ 256" using unsigned_less [of w, where ?'a = nat] by simp
  then have "append_word w empty_stream = noteAppended 1 (empty_stream\<lparr>m_out := encode (RData (toCompactBigEndian (unat w)))\<rparr>)"
    by (simp add: append_word_def append_bigint_encode empty_stream_def)
  moreover have "toInt fl (encode (RData (toCompactBigEndian (unat w)))) = Inr w"
    by (rule toInt_encode) simp_all
  ultimately show ?thesis
    by (simp add: noteAppended_def empty_stream_def sbind_def stream_out_def del: encode.simps)
qed

text \<open>
  A 160-bit address written to a stream as a fixed hash is read back unchanged by
  \<^verbatim>\<open>toHash<Address>\<close>, for every choice of conversion flags.
\<close>

lemma rlp_address_roundtrip:
  fixes w :: address
  shows "sbind (append_hash 20 w empty_stream) (\<lambda>st. sbind (stream_out st) (toHash fl)) = Inr w"
proof -
  have fits: "rlp_fits (RData (toBigEndian 20 (unat w)))" by (rule rlp_fits_short) simp
  from stream_item_out [OF this]
  have "sbind (append_hash 20 w empty_stream) stream_out = Inr (encode (RData (toBigEndian 20 (unat w))))"
    by (simp add: append_hash_def del: encode.simps)
  then obtain st where "append_hash 20 w empty_stream = Inr st" "stream_out st = Inr (encode (RData (toBigEndian 20 (unat w))))"
    by (auto simp: sbind_def simp del: encode.simps split: sum.splits)
  moreover have "toHash fl (encode (RData (toBigEndian 20 (unat w)))) = Inr w"
    by (rule toHash_encode) simp_all
  ultimately show ?thesis by (simp add: sbind_def del: encode.simps)
qed

end
