(* ===== verification/RlpCodec.thy ===== *)
theory RlpCodec
  imports Rlp
begin

text \<open>
  Structures that go through RLP. The first part is the rest of libdevcore/RLP that structures are
  written and read with: a stream constructed for a list, pairs and vectors, the iterator of a node,
  \<^verbatim>\<open>toPair\<close> and \<^verbatim>\<open>toVector\<close>. The second part is the contract between a writer and a reader, the locale
  \<open>codec\<close>, and the codecs that are built from others: pairs, structures that are embedded as a byte
  string (\<open>blob\<close>), and containers.
\<close>

type_synonym writer = "RLPStream \<Rightarrow> rlp_error + RLPStream"

section \<open>Writing\<close>

text \<open>\<^verbatim>\<open>s << a << b << c\<close>.\<close>

primrec write_all :: "writer list \<Rightarrow> writer" where
  "write_all [] st = Inr st"
| "write_all (w # ws) st = sbind (w st) (write_all ws)"

text \<open>\<^verbatim>\<open>RLPStream s(n); s << ...; s.out()\<close>.\<close>

definition stream_of :: "nat \<Rightarrow> writer list \<Rightarrow> rlp_error + bytes" where
  "stream_of n ws = sbind (appendList n empty_stream) (\<lambda>st. sbind (write_all ws st) stream_out)"

definition append_vector :: "writer list \<Rightarrow> writer" where
  "append_vector ws st = sbind (appendList (length ws) st) (write_all ws)"

definition append_pair :: "writer \<Rightarrow> writer \<Rightarrow> writer" where
  "append_pair a b st = sbind (appendList 2 st) (write_all [a, b])"

lemma fold_write_all: "fold (\<lambda>t r. sbind r (append_item t)) ts r = sbind r (write_all (map append_item ts))"
  by (induction ts arbitrary: r) (auto simp: sbind_assoc sbind_def split: sum.split)

lemma append_item_list: "append_item (RList ts) st = sbind (appendList (length ts) st) (write_all (map append_item ts))"
  by (simp add: fold_write_all)

lemma append_vector_item: "append_vector (map append_item ts) = append_item (RList ts)"
  by (rule ext) (simp add: append_vector_def fold_write_all)

lemma append_pair_item: "append_pair (append_item a) (append_item b) = append_item (RList [a, b])"
  by (rule ext) (simp only: append_pair_def append_item_list list.map list.size add_0 numeral_2_eq_2 add_Suc One_nat_def)

lemma stream_of_items:
  "rlp_fits (RList ts) \<Longrightarrow> n = length ts \<Longrightarrow> stream_of n (map append_item ts) = Inr (encode (RList ts))"
  using stream_item_out [of "RList ts"]
  by (simp only: stream_of_def append_item_list sbind_assoc)

lemma append_word_item:
  fixes w :: "'a::len word"
  assumes "LENGTH('a) \<le> 256"
  shows "append_word w = append_item (RData (toCompactBigEndian (unat w)))"
proof
  fix st
  have "unat w < 2 ^ LENGTH('a)" by (rule unsigned_less)
  also have "(2::nat) ^ LENGTH('a) \<le> 2 ^ 256" using assms by (intro power_increasing) auto
  finally have "unat w < 2 ^ 256" .
  then show "append_word w st = append_item (RData (toCompactBigEndian (unat w))) st"
    using append_item_encode [OF rlp_fits_short [OF compact_length_le]]
    by (simp only: append_word_def append_bigint_encode)
qed

lemma append_hash_item: "append_hash n w = append_item (RData (toBigEndian n (unat w)))"
  by (rule ext) (simp add: append_hash_def)

lemma append_bytes_item: "append_bytes b False = append_item (RData b)"
  by (rule ext) simp

section \<open>Reading\<close>

text \<open>\<^verbatim>\<open>rlp[i].convert<T>(flags)\<close>: the subscript updates the cache of the node, then the item is converted.\<close>

definition with_field ::
    "nat \<Rightarrow> (bytes \<Rightarrow> rlp_error + 'a) \<Rightarrow> rlp_node \<Rightarrow> ('a \<Rightarrow> rlp_node \<Rightarrow> rlp_error + 'b) \<Rightarrow> rlp_error + 'b" where
  "with_field i conv nd k = sbind (subscript i nd) (\<lambda>(d, nd'). sbind (conv d) (\<lambda>x. k x nd'))"

lemma with_field_encode:
  assumes "cache_ok ts nd" and "rlp_fits (RList ts)" and "i < length ts" and "conv (encode (ts ! i)) = Inr x"
    and "\<And>nd'. cache_ok ts nd' \<Longrightarrow> k x nd' = r"
  shows "with_field i conv nd k = r"
proof -
  obtain nd' where "subscript i nd = Inr (encode (ts ! i), nd')" "cache_ok ts nd'"
    using subscript_cache_ok [OF assms(1,3,2)] by blast
  with assms(4,5) show ?thesis by (simp add: with_field_def)
qed

lemma cache_ok_fresh: "cache_ok ts (fresh_node (encode (RList ts)))"
  by (simp only: cache_ok_def simp_thms)

text \<open>
  \<^verbatim>\<open>for (auto const& v: RLP(b))\<close>: the iterator takes the size of the next item from the bytes that
  remain, dereferencing constructs a strict node, then the body runs. A node that is not a list has
  no items.
\<close>

function rlp_for_items :: "(bytes \<Rightarrow> 'a \<Rightarrow> rlp_error + 'a) \<Rightarrow> bytes \<Rightarrow> 'a \<Rightarrow> rlp_error + 'a" where
  "rlp_for_items body d acc =
     (if d = [] then Inr acc
      else (case sizeAsEncoded d of
              Inl e \<Rightarrow> Inl e
            | Inr n \<Rightarrow> (case sbind (RLP_node VeryStrict (cropped 0 n d)) (\<lambda>v. body v acc) of
                Inl e \<Rightarrow> Inl e
              | Inr acc' \<Rightarrow> rlp_for_items body (cropped_from n d) acc')))"
  by auto
termination
  by (relation "measure (length \<circ> fst \<circ> snd)") (auto simp: cropped_from_def dest: sizeAsEncoded_pos)

declare rlp_for_items.simps [simp del]

definition rlp_for :: "bytes \<Rightarrow> (bytes \<Rightarrow> 'a \<Rightarrow> rlp_error + 'a) \<Rightarrow> 'a \<Rightarrow> rlp_error + 'a" where
  "rlp_for d body acc = (if isList d then sbind (payload d) (\<lambda>p. rlp_for_items body p acc) else Inr acc)"

definition itemCountStrict :: "bytes \<Rightarrow> rlp_error + nat" where
  "itemCountStrict d = (if \<not> isList d then Inl BadCast else rlp_items d)"

definition itemCount :: "bytes \<Rightarrow> rlp_error + nat" where
  "itemCount d = (if isList d then rlp_items d else Inr 0)"

text \<open>\<^verbatim>\<open>toPair\<close> with its default flags: \<^verbatim>\<open>Strict\<close> throws.\<close>

definition toPair :: "(bytes \<Rightarrow> rlp_error + 'a) \<Rightarrow> (bytes \<Rightarrow> rlp_error + 'b) \<Rightarrow> bytes \<Rightarrow> rlp_error + 'a \<times> 'b" where
  "toPair conv1 conv2 d =
     sbind (itemCountStrict d) (\<lambda>n.
       if n \<noteq> 2 then Inl BadCast
       else with_field 0 conv1 (fresh_node d) (\<lambda>x nd. with_field 1 conv2 nd (\<lambda>y _. Inr (x, y))))"

text \<open>\<^verbatim>\<open>toVector\<close> with its default flags: a node that is not a list gives the empty vector.\<close>

definition toVector :: "(bytes \<Rightarrow> rlp_error + 'a) \<Rightarrow> bytes \<Rightarrow> rlp_error + 'a list" where
  "toVector conv d =
     (if isList d
      then sbind (itemCount d) (\<lambda>_. rlp_for d (\<lambda>v acc. sbind (conv v) (\<lambda>x. Inr (acc @ [x]))) [])
      else Inr [])"

lemma rlp_for_items_encode:
  assumes "\<And>t. t \<in> set ts \<Longrightarrow> rlp_fits t"
  shows "rlp_for_items body (concat (map encode ts)) acc =
    fold (\<lambda>t r. sbind r (body (encode t))) ts (Inr acc)"
  using assms
proof (induction ts arbitrary: acc)
  case (Cons t ts)
  have "fold (\<lambda>t r. sbind r (body (encode t))) us (Inl e) = Inl e" for us e by (induction us) auto
  with Cons show ?case
    by (subst rlp_for_items.simps)
      (simp add: sizeAsEncoded_encode cropped_from_def cropped_def RLP_node_encode split: sum.split)
qed (simp add: rlp_for_items.simps)

lemma rlp_for_encode:
  assumes "rlp_fits (RList ts)"
  shows "rlp_for (encode (RList ts)) body acc = fold (\<lambda>t r. sbind r (body (encode t))) ts (Inr acc)"
  using read_list [OF assms, of "[]"] rlp_for_items_encode [of ts body acc] rlp_fits_item [OF assms]
  by (simp add: rlp_for_def del: encode.simps)

lemma itemCount_encode:
  assumes "rlp_fits (RList ts)"
  shows "itemCountStrict (encode (RList ts)) = Inr (length ts)" "itemCount (encode (RList ts)) = Inr (length ts)"
  using read_list(1) [OF assms, of "[]"] rlp_items_encode [OF assms]
  by (simp_all add: itemCountStrict_def itemCount_def del: encode.simps)

declare encode.simps [simp del]

section \<open>Codecs\<close>

text \<open>
  A writer and a reader of values of one type, with the RLP item a value stands for: the writer
  appends that item, and the reader gives the value back. \<open>ok\<close> restricts the law of the reader to
  values the format can carry.
\<close>

locale codec =
  fixes put :: "'a \<Rightarrow> writer" and item :: "'a \<Rightarrow> rlp_item" and get :: "bytes \<Rightarrow> rlp_error + 'a" and ok :: "'a \<Rightarrow> bool"
  assumes put_item: "rlp_fits (item x) \<Longrightarrow> put x = append_item (item x)"
    and get_item: "rlp_fits (item x) \<Longrightarrow> ok x \<Longrightarrow> get (encode (item x)) = Inr x"
begin

lemma put_items:
  assumes "rlp_fits (RList (map item xs))"
  shows "map put xs = map append_item (map item xs)"
  using rlp_fits_item [OF assms] by (simp add: put_item)

lemma stream_items:
  "rlp_fits (RList (map item xs)) \<Longrightarrow> stream_of (length xs) (map put xs) = Inr (encode (RList (map item xs)))"
  by (simp only: put_items stream_of_items length_map)

text \<open>A loop that reads every item and folds a function over them.\<close>

lemma for_items:
  assumes "rlp_fits (RList (map item xs))" and "\<And>x. x \<in> set xs \<Longrightarrow> ok x"
    and "\<And>x acc. x \<in> set xs \<Longrightarrow> body (encode (item x)) acc = sbind (get (encode (item x))) (\<lambda>x. Inr (f x acc))"
  shows "rlp_for (encode (RList (map item xs))) body acc = Inr (fold f xs acc)"
proof -
  have "fold (\<lambda>t r. sbind r (body (encode t))) (map item ys) (Inr acc) = Inr (fold f ys acc)" if "set ys \<subseteq> set xs" for ys
    using that
  proof (induction ys arbitrary: acc)
    case (Cons y ys)
    then have "rlp_fits (item y)" using rlp_fits_item [OF assms(1)] by simp
    with Cons assms(2,3) show ?case by (simp add: get_item)
  qed simp
  then show ?thesis by (simp only: rlp_for_encode [OF assms(1)] order_refl)
qed

lemma vector_items:
  assumes "rlp_fits (RList (map item xs))" and "\<And>x. x \<in> set xs \<Longrightarrow> ok x"
  shows "toVector get (encode (RList (map item xs))) = Inr xs"
proof -
  have "fold (\<lambda>x acc. acc @ [x]) ys acc = acc @ ys" for ys and acc :: "'a list"
    by (induction ys arbitrary: acc) auto
  then have "rlp_for (encode (RList (map item xs))) (\<lambda>v acc. sbind (get v) (\<lambda>x. Inr (acc @ [x]))) [] = Inr xs"
    using for_items [OF assms, of "\<lambda>v acc. sbind (get v) (\<lambda>x. Inr (acc @ [x]))" "\<lambda>x acc. acc @ [x]" "[]"] by simp
  then show ?thesis
    using read_list(1) [OF assms(1), of "[]"] itemCount_encode(2) [OF assms(1)]
    by (simp add: toVector_def del: encode.simps)
qed

end

interpretation word_codec: codec append_word "\<lambda>w :: u256. RData (toCompactBigEndian (unat w))" "toInt fl" "\<lambda>_. True" for fl
  by unfold_locales (simp_all add: append_word_item toInt_encode)

interpretation address_codec: codec "append_hash 20" "\<lambda>w :: address. RData (toBigEndian 20 (unat w))" "toHash fl" "\<lambda>_. True" for fl
  by unfold_locales (simp_all add: append_hash_item toHash_encode del: encode.simps)

interpretation hash_codec: codec "append_hash 32" "\<lambda>w :: h256. RData (toBigEndian 32 (unat w))" "toHash fl" "\<lambda>_. True" for fl
  by unfold_locales (simp_all add: append_hash_item toHash_encode del: encode.simps)

interpretation bytes_codec: codec "\<lambda>b. append_bytes b False" RData "toBytes fl" "\<lambda>_. True" for fl
  by unfold_locales (simp_all add: append_bytes_item toBytes_encode del: encode.simps)

subsection \<open>Pairs\<close>

locale pair_codec = left: codec put1 item1 get1 ok1 + right: codec put2 item2 get2 ok2
  for put1 :: "'a \<Rightarrow> writer" and item1 get1 ok1 and put2 :: "'b \<Rightarrow> writer" and item2 get2 ok2
begin

lemma pair_law:
  "codec (\<lambda>p. append_pair (put1 (fst p)) (put2 (snd p))) (\<lambda>p. RList [item1 (fst p), item2 (snd p)])
     (toPair get1 get2) (\<lambda>p. ok1 (fst p) \<and> ok2 (snd p))"
proof
  fix p assume fits: "rlp_fits (RList [item1 (fst p), item2 (snd p)])"
  then have fits': "rlp_fits (item1 (fst p))" "rlp_fits (item2 (snd p))" using rlp_fits_item by force+
  then show "append_pair (put1 (fst p)) (put2 (snd p)) = append_item (RList [item1 (fst p), item2 (snd p)])"
    by (simp only: left.put_item right.put_item append_pair_item)
  assume ok: "ok1 (fst p) \<and> ok2 (snd p)"
  let ?ts = "[item1 (fst p), item2 (snd p)]"
  have "with_field 0 get1 (fresh_node (encode (RList ?ts))) (\<lambda>x nd. with_field 1 get2 nd (\<lambda>y _. Inr (x, y))) = Inr (fst p, snd p)"
    using fits fits' ok
    by (intro with_field_encode [OF cache_ok_fresh fits, where x = "fst p"] with_field_encode [OF _ fits, where x = "snd p"])
      (simp_all add: left.get_item right.get_item)
  then show "toPair get1 get2 (encode (RList ?ts)) = Inr p"
    by (simp add: toPair_def itemCount_encode [OF fits] numeral_2_eq_2 del: encode.simps)
qed

end

sublocale pair_codec \<subseteq> both: codec "\<lambda>p. append_pair (put1 (fst p)) (put2 (snd p))"
  "\<lambda>p. RList [item1 (fst p), item2 (snd p)]" "toPair get1 get2" "\<lambda>p. ok1 (fst p) \<and> ok2 (snd p)"
  by (rule pair_law)

subsection \<open>Structures embedded as byte strings\<close>

text \<open>A structure with a function that gives its RLP and one that reads it back from these bytes.\<close>

locale blob =
  fixes enc :: "'a \<Rightarrow> rlp_error + bytes" and tree :: "'a \<Rightarrow> rlp_item" and dec :: "bytes \<Rightarrow> rlp_error + 'a" and ok :: "'a \<Rightarrow> bool"
  assumes enc_tree: "rlp_fits (tree x) \<Longrightarrow> enc x = Inr (encode (tree x))"
    and dec_tree: "rlp_fits (tree x) \<Longrightarrow> ok x \<Longrightarrow> dec (encode (tree x)) = Inr x"

lemma rlp_fits_blob: "rlp_fits (RData (encode t)) \<Longrightarrow> rlp_fits t"
  using rlp_fits_data [of "encode t"] unfolding rlp_fits_def [of t] .

definition append_blob :: "rlp_error + bytes \<Rightarrow> writer" where
  "append_blob b st = sbind b (\<lambda>b. append_bytes b False st)"

definition get_blob :: "strictness \<Rightarrow> (bytes \<Rightarrow> rlp_error + 'a) \<Rightarrow> bytes \<Rightarrow> rlp_error + 'a" where
  "get_blob fl dec d = sbind (toBytes fl d) dec"

sublocale blob \<subseteq> embedded: codec "\<lambda>x. append_blob (enc x)" "\<lambda>x. RData (encode (tree x))" "get_blob fl dec" ok for fl
proof
  fix x assume fits: "rlp_fits (RData (encode (tree x)))"
  then show "append_blob (enc x) = append_item (RData (encode (tree x)))"
    by (intro ext) (simp add: append_blob_def enc_tree rlp_fits_blob)
  assume "ok x"
  with fits show "get_blob fl dec (encode (RData (encode (tree x)))) = Inr x"
    by (simp add: get_blob_def toBytes_encode dec_tree rlp_fits_blob del: encode.simps)
qed

subsection \<open>Maps\<close>

text \<open>
  A \<^verbatim>\<open>std::map\<close> is written as a list of its entries in the order of the keys and read back with
  \<^verbatim>\<open>m[key] = value\<close> for every entry.
\<close>

definition write_map :: "('k \<times> 'v \<Rightarrow> writer) \<Rightarrow> ('k, 'v) omap \<Rightarrow> rlp_error + bytes" where
  "write_map putE m = stream_of (length m) (map putE m)"

definition read_map :: "(bytes \<Rightarrow> rlp_error + ('k::linorder \<times> 'v)) \<Rightarrow> bytes \<Rightarrow> rlp_error + ('k, 'v) omap" where
  "read_map getE b =
     sbind (RLP_node VeryStrict b) (\<lambda>d.
       rlp_for d (\<lambda>v m. sbind (getE v) (\<lambda>e. Inr (om_insert (fst e) (snd e) m))) [])"

lemma om_insert_last: "\<forall>k' \<in> fst ` set m. k' < k \<Longrightarrow> om_insert k v m = m @ [(k, v)]"
  by (induction k v m rule: om_insert.induct) auto

lemma om_wf_append: "om_wf (m @ n) \<longleftrightarrow> om_wf m \<and> om_wf n \<and> (\<forall>k \<in> fst ` set m. \<forall>k' \<in> fst ` set n. k < k')"
  by (auto simp: om_wf_def sorted_wrt_append)

lemma om_rebuild: "om_wf (n @ m) \<Longrightarrow> fold (\<lambda>e. om_insert (fst e) (snd e)) m n = n @ m"
proof (induction m arbitrary: n)
  case (Cons e m)
  then have "om_insert (fst e) (snd e) n = n @ [e]"
    by (simp add: om_insert_last om_wf_append)
  with Cons.IH [of "n @ [e]"] Cons.prems show ?case by simp
qed simp

locale map_blob = entry: codec putE itemE getE okE
  for putE :: "('k::linorder \<times> 'v) \<Rightarrow> writer" and itemE getE okE
begin

lemma map_law:
  "blob (write_map putE) (\<lambda>m. RList (map itemE m)) (read_map getE) (\<lambda>m. om_wf m \<and> (\<forall>e\<in>set m. okE e))"
proof
  fix m assume fits: "rlp_fits (RList (map itemE m))"
  then show "write_map putE m = Inr (encode (RList (map itemE m)))"
    by (simp add: write_map_def entry.stream_items)
  assume ok: "om_wf m \<and> (\<forall>e\<in>set m. okE e)"
  have "rlp_for (encode (RList (map itemE m))) (\<lambda>v m. sbind (getE v) (\<lambda>e. Inr (om_insert (fst e) (snd e) m))) [] =
      Inr (fold (\<lambda>e. om_insert (fst e) (snd e)) m [])"
    using ok by (intro entry.for_items fits) auto
  with ok fits show "read_map getE (encode (RList (map itemE m))) = Inr m"
    using om_rebuild [of "[]" m] by (simp add: read_map_def RLP_node_encode)
qed

end

sublocale map_blob \<subseteq> whole: blob "write_map putE" "\<lambda>m. RList (map itemE m)" "read_map getE"
  "\<lambda>m. om_wf m \<and> (\<forall>e\<in>set m. okE e)"
  by (rule map_law)

section \<open>Codecs of pairs of words\<close>

interpretation address_word: pair_codec "append_hash 20" "\<lambda>w :: address. RData (toBigEndian 20 (unat w))" "toHash Strict" "\<lambda>_. True"
  append_word "\<lambda>w :: u256. RData (toCompactBigEndian (unat w))" "toInt Strict" "\<lambda>_. True"
  by unfold_locales

interpretation word_pair: pair_codec append_word "\<lambda>w :: u256. RData (toCompactBigEndian (unat w))" "toInt Strict" "\<lambda>_. True"
  append_word "\<lambda>w :: u256. RData (toCompactBigEndian (unat w))" "toInt Strict" "\<lambda>_. True"
  by unfold_locales

end
