(* ===== verification/OrderRlp.thy ===== *)
theory OrderRlp
  imports RlpCodec ExOrder ChainConfig
begin

text \<open>
  The serialisation of orders and results (objects.hpp, \<^verbatim>\<open>streamRLP\<close> and \<^verbatim>\<open>populate\<close>).

  A time is written as \<^verbatim>\<open>(u256)create_time\<close> and read with \<^verbatim>\<open>(int64_t)\<close>. The first conversion wraps like every
  \<^verbatim>\<open>u256\<close>; the second belongs to boost and is the parameter \<open>to_int64\<close>. The laws ask of it only that it gives
  back the time that was written.
\<close>

section \<open>Enumerations\<close>

primrec order_buy_code :: "order_buy_type \<Rightarrow> nat" where
  "order_buy_code all_price = 0"
| "order_buy_code only_price = 1"

definition order_type_of :: "nat \<Rightarrow> order_type option" where
  "order_type_of n = (if n = 0 then Some null_type else if n = 1 then Some sell else if n = 2 then Some buy else None)"

definition order_token_of :: "nat \<Rightarrow> order_token_type option" where
  "order_token_of n = (if n = 0 then Some TK_BRC else if n = 1 then Some TK_FUEL else None)"

definition order_buy_of :: "nat \<Rightarrow> order_buy_type option" where
  "order_buy_of n = (if n = 0 then Some all_price else if n = 1 then Some only_price else None)"

text \<open>\<^verbatim>\<open>s << (uint8_t)e\<close> goes through \<^verbatim>\<open>append(unsigned)\<close>; \<^verbatim>\<open>(E)rlp.convert<uint8_t>(LaissezFaire)\<close> reads it.\<close>

definition append_enum :: "nat \<Rightarrow> writer" where
  "append_enum n = append_word (of_nat n :: 32 word)"

definition get_enum :: "(nat \<Rightarrow> 'e option) \<Rightarrow> bytes \<Rightarrow> rlp_error + 'e" where
  "get_enum of_code d =
     sbind (toInt LaissezFaire d) (\<lambda>b :: byte. case of_code (unat b) of None \<Rightarrow> Inl NoEnumerator | Some e \<Rightarrow> Inr e)"

locale enumeration =
  fixes code :: "'e \<Rightarrow> nat" and of_code :: "nat \<Rightarrow> 'e option"
  assumes small: "code e < 256" and of_code: "of_code (code e) = Some e"

lemma append_enum_item: "n < 256 \<Longrightarrow> append_enum n = append_item (RData (toCompactBigEndian n))"
  by (simp add: append_enum_def append_word_item unat_of_nat_small)

lemma get_enum_encode: "n < 256 \<Longrightarrow> get_enum of_code (encode (RData (toCompactBigEndian n))) =
    (case of_code n of None \<Rightarrow> Inl NoEnumerator | Some e \<Rightarrow> Inr e)"
  using toInt_encode [of LaissezFaire "of_nat n :: byte"] by (simp add: get_enum_def unat_of_nat_small)

sublocale enumeration \<subseteq> byte_codec: codec "\<lambda>e. append_enum (code e)" "\<lambda>e. RData (toCompactBigEndian (code e))" "get_enum of_code" "\<lambda>_. True"
  by unfold_locales (simp_all add: append_enum_item get_enum_encode small of_code)

interpretation type_enum: enumeration order_type_code order_type_of
proof
  show "order_type_code e < 256" "order_type_of (order_type_code e) = Some e" for e
    by (cases e; simp add: order_type_of_def)+
qed

interpretation token_enum: enumeration order_token_code order_token_of
proof
  show "order_token_code e < 256" "order_token_of (order_token_code e) = Some e" for e
    by (cases e; simp add: order_token_of_def)+
qed

interpretation buy_enum: enumeration order_buy_code order_buy_of
proof
  show "order_buy_code e < 256" "order_buy_of (order_buy_code e) = Some e" for e
    by (cases e; simp add: order_buy_of_def)+
qed

section \<open>Orders\<close>

definition append_time :: "time_ms \<Rightarrow> writer" where
  "append_time t = append_word (of_int t :: u256)"

definition ex_order_streamRLP :: "ex_order \<Rightarrow> rlp_error + bytes" where
  "ex_order_streamRLP od = stream_of 9
     [append_hash 32 (eo_trxid od), append_hash 20 (eo_sender od), append_word (eo_price od),
      append_word (eo_token_amount od), append_word (eo_source_amount od), append_time (eo_create_time od),
      append_enum (order_type_code (eo_type od)), append_enum (order_token_code (eo_token_type od)),
      append_enum (order_buy_code (eo_buy_type od))]"

definition ex_order_populate :: "(u256 \<Rightarrow> time_ms) \<Rightarrow> bytes \<Rightarrow> rlp_error + ex_order" where
  "ex_order_populate to_int64 b =
     sbind (RLP_node VeryStrict b) (\<lambda>d.
     with_field 0 (toHash LaissezFaire) (fresh_node d) (\<lambda>trxid nd.
     with_field 1 (toHash LaissezFaire) nd (\<lambda>sender nd.
     with_field 2 (toInt LaissezFaire) nd (\<lambda>price nd.
     with_field 3 (toInt LaissezFaire) nd (\<lambda>token_amount nd.
     with_field 4 (toInt LaissezFaire) nd (\<lambda>source_amount nd.
     with_field 5 (toInt LaissezFaire) nd (\<lambda>create_time nd.
     with_field 6 (get_enum order_type_of) nd (\<lambda>type nd.
     with_field 7 (get_enum order_token_of) nd (\<lambda>token_type nd.
     with_field 8 (get_enum order_buy_of) nd (\<lambda>buy_type nd.
       Inr \<lparr>eo_trxid = trxid, eo_sender = sender, eo_price = price, eo_token_amount = token_amount,
         eo_source_amount = source_amount, eo_create_time = to_int64 create_time, eo_type = type,
         eo_token_type = token_type, eo_buy_type = buy_type\<rparr>))))))))))"

abbreviation word_item :: "u256 \<Rightarrow> rlp_item" where
  "word_item w \<equiv> RData (toCompactBigEndian (unat w))"

abbreviation address_item :: "address \<Rightarrow> rlp_item" where
  "address_item w \<equiv> RData (toBigEndian 20 (unat w))"

abbreviation hash_item :: "h256 \<Rightarrow> rlp_item" where
  "hash_item w \<equiv> RData (toBigEndian 32 (unat w))"

abbreviation enum_item :: "nat \<Rightarrow> rlp_item" where
  "enum_item n \<equiv> RData (toCompactBigEndian n)"

definition ex_order_tree :: "ex_order \<Rightarrow> rlp_item" where
  "ex_order_tree od = RList
     [hash_item (eo_trxid od), address_item (eo_sender od), word_item (eo_price od), word_item (eo_token_amount od),
      word_item (eo_source_amount od), word_item (of_int (eo_create_time od)), enum_item (order_type_code (eo_type od)),
      enum_item (order_token_code (eo_token_type od)), enum_item (order_buy_code (eo_buy_type od))]"

lemmas enum_laws = type_enum.small token_enum.small buy_enum.small type_enum.of_code token_enum.of_code buy_enum.of_code

lemmas field_writers = append_time_def append_word_item append_hash_item append_bytes_item append_enum_item enum_laws

lemmas field_readers = toInt_encode toHash_encode toBytes_encode get_enum_encode enum_laws

interpretation ex_order_blob: blob ex_order_streamRLP ex_order_tree "ex_order_populate to_int64"
  "\<lambda>od. to_int64 (of_int (eo_create_time od)) = eo_create_time od" for to_int64
proof
  fix od assume fits: "rlp_fits (ex_order_tree od)"
  show "ex_order_streamRLP od = Inr (encode (ex_order_tree od))"
    using stream_of_items [OF fits [unfolded ex_order_tree_def], of 9]
    by (simp add: ex_order_streamRLP_def ex_order_tree_def field_writers del: append_item.simps)
  assume ok: "to_int64 (of_int (eo_create_time od)) = eo_create_time od"
  note fits' = fits [unfolded ex_order_tree_def]
  show "ex_order_populate to_int64 (encode (ex_order_tree od)) = Inr od"
    unfolding ex_order_populate_def ex_order_tree_def RLP_node_encode [OF fits'] sbind_Inr
    by (rule with_field_encode [OF _ fits'], (rule cache_ok_fresh | assumption), simp, simp add: field_readers)+ (simp add: ok)
qed

section \<open>Results\<close>

definition result_order_streamRLP :: "result_order \<Rightarrow> rlp_error + bytes" where
  "result_order_streamRLP r = stream_of 11
     [append_hash 20 (ro_sender r), append_hash 20 (ro_acceptor r), append_enum (order_type_code (ro_type r)),
      append_enum (order_token_code (ro_token_type r)), append_enum (order_buy_code (ro_buy_type r)),
      append_time (ro_create_time r), append_hash 32 (ro_send_trxid r), append_hash 32 (ro_to_trxid r),
      append_word (ro_amount r), append_word (ro_price r), append_word (ro_old_price r)]"

definition result_order_populate :: "(u256 \<Rightarrow> time_ms) \<Rightarrow> bytes \<Rightarrow> rlp_error + result_order" where
  "result_order_populate to_int64 b =
     sbind (RLP_node VeryStrict b) (\<lambda>d.
     with_field 0 (toHash LaissezFaire) (fresh_node d) (\<lambda>sender nd.
     with_field 1 (toHash LaissezFaire) nd (\<lambda>acceptor nd.
     with_field 2 (get_enum order_type_of) nd (\<lambda>type nd.
     with_field 3 (get_enum order_token_of) nd (\<lambda>token_type nd.
     with_field 4 (get_enum order_buy_of) nd (\<lambda>buy_type nd.
     with_field 5 (toInt LaissezFaire) nd (\<lambda>create_time nd.
     with_field 6 (toHash LaissezFaire) nd (\<lambda>send_trxid nd.
     with_field 7 (toHash LaissezFaire) nd (\<lambda>to_trxid nd.
     with_field 8 (toInt LaissezFaire) nd (\<lambda>num nd.
     with_field 9 (toInt LaissezFaire) nd (\<lambda>price nd.
     with_field 10 (toInt LaissezFaire) nd (\<lambda>old_price nd.
       Inr \<lparr>ro_sender = sender, ro_acceptor = acceptor, ro_type = type, ro_token_type = token_type,
         ro_buy_type = buy_type, ro_create_time = to_int64 create_time, ro_send_trxid = send_trxid,
         ro_to_trxid = to_trxid, ro_amount = num, ro_price = price, ro_old_price = old_price\<rparr>))))))))))))"

definition result_order_tree :: "result_order \<Rightarrow> rlp_item" where
  "result_order_tree r = RList
     [address_item (ro_sender r), address_item (ro_acceptor r), enum_item (order_type_code (ro_type r)),
      enum_item (order_token_code (ro_token_type r)), enum_item (order_buy_code (ro_buy_type r)),
      word_item (of_int (ro_create_time r)), hash_item (ro_send_trxid r), hash_item (ro_to_trxid r),
      word_item (ro_amount r), word_item (ro_price r), word_item (ro_old_price r)]"

interpretation result_order_blob: blob result_order_streamRLP result_order_tree "result_order_populate to_int64"
  "\<lambda>r. to_int64 (of_int (ro_create_time r)) = ro_create_time r" for to_int64
proof
  fix r assume fits: "rlp_fits (result_order_tree r)"
  note fits' = fits [unfolded result_order_tree_def]
  show "result_order_streamRLP r = Inr (encode (result_order_tree r))"
    using stream_of_items [OF fits', of 11]
    by (simp add: result_order_streamRLP_def result_order_tree_def field_writers del: append_item.simps)
  assume ok: "to_int64 (of_int (ro_create_time r)) = ro_create_time r"
  show "result_order_populate to_int64 (encode (result_order_tree r)) = Inr r"
    unfolding result_order_populate_def result_order_tree_def RLP_node_encode [OF fits'] sbind_Inr
    by (rule with_field_encode [OF _ fits'], (rule cache_ok_fresh | assumption), simp, simp add: field_readers)+ (simp add: ok)
qed

section \<open>Properties\<close>

text \<open>The fields of an order are short, so its encoding always fits.\<close>

lemma length_encode_short: "length bs \<le> 32 \<Longrightarrow> length (encode (RData bs)) \<le> 33"
  by (simp add: encode.simps header_def)

lemma rlp_fits_small_list:
  assumes "length ts \<le> 100" and "\<And>t. t \<in> set ts \<Longrightarrow> length (encode t) \<le> 33"
  shows "rlp_fits (RList ts)"
proof -
  have "length (concat (map encode ts)) \<le> 33 * length ts"
    using assms(2) by (induction ts) (auto simp: add_mono)
  then have small: "length (concat (map encode ts)) \<le> 3300" using assms(1) by simp
  then have "bytesRequired (length (concat (map encode ts))) \<le> 2" by (intro bytesRequired_le) simp
  with small show ?thesis by (simp add: rlp_fits_def encode.simps(2) header_def)
qed

lemma short_items:
  "length (encode (word_item w)) \<le> 33" "length (encode (address_item a)) \<le> 33" "length (encode (hash_item h)) \<le> 33"
  "n < 256 \<Longrightarrow> length (encode (enum_item n)) \<le> 33"
proof -
  have "unat w < 2 ^ 256" using unsigned_less [of w, where ?'a = nat] by simp
  then show "length (encode (word_item w)) \<le> 33" by (intro length_encode_short compact_length_le)
  show "n < 256 \<Longrightarrow> length (encode (enum_item n)) \<le> 33"
    by (intro length_encode_short compact_length_le) simp
qed (simp_all add: length_encode_short)

lemma orders_fit: "rlp_fits (ex_order_tree od)" "rlp_fits (result_order_tree r)"
  unfolding ex_order_tree_def result_order_tree_def
  by (rule rlp_fits_small_list; auto intro: short_items enum_laws)+

text \<open>What boost's conversion of a \<^verbatim>\<open>u256\<close> to \<^verbatim>\<open>int64_t\<close> does on values that fit.\<close>

definition int64_conversion :: "(u256 \<Rightarrow> time_ms) \<Rightarrow> bool" where
  "int64_conversion to_int64 \<longleftrightarrow> (\<forall>n. 0 \<le> n \<and> n \<le> INT64_MAX \<longrightarrow> to_int64 (of_int n) = n)"

definition saturating_int64 :: "u256 \<Rightarrow> time_ms" where
  "saturating_int64 w = min (uint w) INT64_MAX"

lemma saturating_int64: "int64_conversion saturating_int64"
  by (auto simp: int64_conversion_def saturating_int64_def INT64_MAX_def uint_word_of_int mod_pos_pos_trivial)

lemma int64_time: "int64_conversion to_int64 \<Longrightarrow> 0 \<le> t \<Longrightarrow> t \<le> INT64_MAX \<Longrightarrow> to_int64 (of_int t) = t"
  by (simp add: int64_conversion_def)

text \<open>
  An order and a result that are serialised are read back unchanged, for every conversion of
  \<^verbatim>\<open>u256\<close> to \<^verbatim>\<open>int64_t\<close> that is right on values that fit, as long as the time is not negative.
\<close>

lemma order_roundtrip:
  assumes "int64_conversion to_int64" and "0 \<le> eo_create_time od" and "eo_create_time od \<le> INT64_MAX"
    and "0 \<le> ro_create_time r" and "ro_create_time r \<le> INT64_MAX"
  shows "sbind (ex_order_streamRLP od) (ex_order_populate to_int64) = Inr od \<and>
    sbind (result_order_streamRLP r) (result_order_populate to_int64) = Inr r"
  using assms
  by (simp add: orders_fit ex_order_blob.enc_tree ex_order_blob.dec_tree result_order_blob.enc_tree
      result_order_blob.dec_tree int64_time)

definition sample_limit_order :: ex_order where
  "sample_limit_order = \<lparr>eo_trxid = 77, eo_sender = 5, eo_price = 100, eo_token_amount = 20, eo_source_amount = 20,
     eo_create_time = 1000, eo_type = sell, eo_token_type = TK_FUEL, eo_buy_type = only_price\<rparr>"

end
