(* ===== verification/AccountRlp.thy ===== *)
theory AccountRlp
  imports OrderRlp Matching
begin

text \<open>
  How an account is stored: the serialisation of the structures of Account.h, and of the account as a
  whole by \<^verbatim>\<open>commit\<close> and \<^verbatim>\<open>State::account\<close> in State.cpp. The trie that holds the bytes is not modelled; the
  root of the storage after a commit is a parameter.

  Every structure is shown to be a \<open>blob\<close>: its bytes are the encoding of its tree, and reading them gives
  the structure back.
\<close>

section \<open>PollData\<close>

definition poll_streamRLP :: "PollData \<Rightarrow> rlp_error + bytes" where
  "poll_streamRLP p = stream_of 3 [append_hash 20 (pd_addr p), append_word (pd_poll p), append_time (pd_time p)]"

definition poll_populate :: "(u256 \<Rightarrow> time_ms) \<Rightarrow> bytes \<Rightarrow> rlp_error + PollData" where
  "poll_populate to_int64 b =
     sbind (RLP_node VeryStrict b) (\<lambda>d.
     with_field 0 (toHash LaissezFaire) (fresh_node d) (\<lambda>addr nd.
     with_field 1 (toInt LaissezFaire) nd (\<lambda>poll nd.
     with_field 2 (toInt LaissezFaire) nd (\<lambda>time nd.
       Inr \<lparr>pd_addr = addr, pd_poll = poll, pd_time = to_int64 time\<rparr>))))"

definition poll_tree :: "PollData \<Rightarrow> rlp_item" where
  "poll_tree p = RList [address_item (pd_addr p), word_item (pd_poll p), word_item (of_int (pd_time p))]"

definition poll_ok :: "(u256 \<Rightarrow> time_ms) \<Rightarrow> PollData \<Rightarrow> bool" where
  "poll_ok to_int64 p \<longleftrightarrow> to_int64 (of_int (pd_time p)) = pd_time p"

interpretation poll_blob: blob poll_streamRLP poll_tree "poll_populate to_int64" "poll_ok to_int64" for to_int64
proof
  fix p assume fits: "rlp_fits (poll_tree p)"
  note fits' = fits [unfolded poll_tree_def]
  show "poll_streamRLP p = Inr (encode (poll_tree p))"
    using stream_of_items [OF fits', of 3]
    by (simp add: poll_streamRLP_def poll_tree_def field_writers del: append_item.simps)
  assume ok: "poll_ok to_int64 p"
  show "poll_populate to_int64 (encode (poll_tree p)) = Inr p"
    unfolding poll_populate_def poll_tree_def RLP_node_encode [OF fits'] sbind_Inr
    by (rule with_field_encode [OF _ fits'], (rule cache_ok_fresh | assumption), simp, simp add: field_readers)+
      (use ok in \<open>simp add: poll_ok_def\<close>)
qed

section \<open>Pairs of amounts\<close>

text \<open>A stream of two amounts, embedded as bytes, and the two subscripts that read it.\<close>

definition amounts_stream :: "u256 \<times> u256 \<Rightarrow> rlp_error + bytes" where
  "amounts_stream p = stream_of 2 [append_word (fst p), append_word (snd p)]"

definition amounts_read :: "bytes \<Rightarrow> rlp_error + u256 \<times> u256" where
  "amounts_read b =
     sbind (RLP_node VeryStrict b) (\<lambda>d.
     with_field 0 (toInt Strict) (fresh_node d) (\<lambda>x nd. with_field 1 (toInt Strict) nd (\<lambda>y _. Inr (x, y))))"

definition amounts_tree :: "u256 \<times> u256 \<Rightarrow> rlp_item" where
  "amounts_tree p = RList [word_item (fst p), word_item (snd p)]"

interpretation amounts_blob: blob amounts_stream amounts_tree amounts_read "\<lambda>_. True"
proof
  fix p assume fits: "rlp_fits (amounts_tree p)"
  note fits' = fits [unfolded amounts_tree_def]
  show "amounts_stream p = Inr (encode (amounts_tree p))"
    using stream_of_items [OF fits', of 2]
    by (simp add: amounts_stream_def amounts_tree_def field_writers del: append_item.simps)
  show "amounts_read (encode (amounts_tree p)) = Inr p"
    unfolding amounts_read_def amounts_tree_def RLP_node_encode [OF fits'] sbind_Inr
    by (rule with_field_encode [OF _ fits'], (rule cache_ok_fresh | assumption), simp, simp add: field_readers)+ simp
qed

text \<open>\<^verbatim>\<open>std::map<Address, std::pair<u256, u256>>\<close>, the values as bytes.\<close>

interpretation receipt: pair_codec "append_hash 20" address_item "toHash Strict" "\<lambda>_. True"
  "\<lambda>x. append_blob (amounts_stream x)" "\<lambda>x. RData (encode (amounts_tree x))" "get_blob Strict amounts_read" "\<lambda>_. True"
  by unfold_locales

interpretation receipts: map_blob "\<lambda>e. append_pair (append_hash 20 (fst e)) (append_blob (amounts_stream (snd e)))"
  "\<lambda>e. RList [address_item (fst e), RData (encode (amounts_tree (snd e)))]"
  "toPair (toHash Strict) (get_blob Strict amounts_read)" "\<lambda>e. True \<and> True"
  by unfold_locales

text \<open>\<^verbatim>\<open>std::map<u256, std::map<Address, std::pair<u256, u256>>>\<close>: received income by round.\<close>

abbreviation receipts_entry :: "address \<times> u256 \<times> u256 \<Rightarrow> writer" where
  "receipts_entry e \<equiv> append_pair (append_hash 20 (fst e)) (append_blob (amounts_stream (snd e)))"

abbreviation receipts_tree :: "(address, u256 \<times> u256) omap \<Rightarrow> rlp_item" where
  "receipts_tree m \<equiv> RList (map (\<lambda>e. RList [address_item (fst e), RData (encode (amounts_tree (snd e)))]) m)"

abbreviation read_receipts :: "bytes \<Rightarrow> rlp_error + (address, u256 \<times> u256) omap" where
  "read_receipts \<equiv> read_map (toPair (toHash Strict) (get_blob Strict amounts_read))"

section \<open>Structures of embedded parts\<close>

definition field_writes :: "writer \<Rightarrow> rlp_item \<Rightarrow> bool" where
  "field_writes w t \<longleftrightarrow> (rlp_fits t \<longrightarrow> w = append_item t)"

lemma stream_of_fields:
  assumes "rlp_fits (RList ts)" and "list_all2 field_writes ws ts" and "n = length ts"
  shows "stream_of n ws = Inr (encode (RList ts))"
proof -
  have "ws = map append_item ts"
    using assms(2) rlp_fits_item [OF assms(1)]
    by (induction rule: list_all2_induct) (auto simp: field_writes_def)
  with assms(1,3) show ?thesis by (simp add: stream_of_items)
qed

lemma field_writes_basic:
  "field_writes (append_word w) (word_item w)" "field_writes (append_hash 20 a) (address_item a)"
  "field_writes (append_hash 32 h) (hash_item h)" "field_writes (append_bytes b False) (RData b)"
  by (simp_all add: field_writes_def field_writers)

context codec
begin

lemma field_writes_put: "field_writes (put x) (item x)"
  by (simp add: field_writes_def put_item)

end

section \<open>Maps by round\<close>

text \<open>\<^verbatim>\<open>std::map<u256, V>\<close> where the value is embedded as bytes.\<close>

definition write_rounds :: "('v \<Rightarrow> rlp_error + bytes) \<Rightarrow> (u256, 'v) omap \<Rightarrow> rlp_error + bytes" where
  "write_rounds enc = write_map (\<lambda>e. append_pair (append_word (fst e)) (append_blob (enc (snd e))))"

definition read_rounds :: "(bytes \<Rightarrow> rlp_error + 'v) \<Rightarrow> bytes \<Rightarrow> rlp_error + (u256, 'v) omap" where
  "read_rounds dec = read_map (toPair (toInt Strict) (get_blob Strict dec))"

definition rounds_tree :: "('v \<Rightarrow> rlp_item) \<Rightarrow> (u256, 'v) omap \<Rightarrow> rlp_item" where
  "rounds_tree tree m = RList (map (\<lambda>e. RList [word_item (fst e), RData (encode (tree (snd e)))]) m)"

definition rounds_ok :: "('v \<Rightarrow> bool) \<Rightarrow> (u256, 'v) omap \<Rightarrow> bool" where
  "rounds_ok ok m \<longleftrightarrow> om_wf m \<and> (\<forall>e\<in>set m. ok (snd e))"

locale round_map = blob enc tree dec ok
  for enc :: "'v \<Rightarrow> rlp_error + bytes" and tree dec ok

sublocale round_map \<subseteq> round_entry: pair_codec append_word word_item "toInt Strict" "\<lambda>_. True"
  "\<lambda>x. append_blob (enc x)" "\<lambda>x. RData (encode (tree x))" "get_blob Strict dec" ok
  by unfold_locales

sublocale round_map \<subseteq> round_entries: map_blob "\<lambda>e. append_pair (append_word (fst e)) (append_blob (enc (snd e)))"
  "\<lambda>e. RList [word_item (fst e), RData (encode (tree (snd e)))]" "toPair (toInt Strict) (get_blob Strict dec)" "\<lambda>e. True \<and> ok (snd e)"
  by unfold_locales

sublocale round_map \<subseteq> rounds: blob "write_rounds enc" "rounds_tree tree" "read_rounds dec" "rounds_ok ok"
  using round_entries.map_law by (simp add: write_rounds_def read_rounds_def rounds_tree_def [abs_def] rounds_ok_def [abs_def])

interpretation fees: round_map amounts_stream amounts_tree amounts_read "\<lambda>_. True"
  by unfold_locales

interpretation received: round_map "write_map receipts_entry" receipts_tree read_receipts "\<lambda>m. om_wf m \<and> (\<forall>e\<in>set m. True \<and> True)"
  by unfold_locales

text \<open>\<^verbatim>\<open>std::map<Address, u256>\<close>, and such a map by round.\<close>

abbreviation votes_entry :: "address \<times> u256 \<Rightarrow> writer" where
  "votes_entry e \<equiv> append_pair (append_hash 20 (fst e)) (append_word (snd e))"

abbreviation votes_tree :: "(address, u256) omap \<Rightarrow> rlp_item" where
  "votes_tree m \<equiv> RList (map (\<lambda>e. RList [address_item (fst e), word_item (snd e)]) m)"

abbreviation read_votes :: "bytes \<Rightarrow> rlp_error + (address, u256) omap" where
  "read_votes \<equiv> read_map (toPair (toHash Strict) (toInt Strict))"

interpretation votes: map_blob votes_entry "\<lambda>e. RList [address_item (fst e), word_item (snd e)]"
  "toPair (toHash Strict) (toInt Strict)" "\<lambda>e. True \<and> True"
  by unfold_locales

interpretation vote_history: round_map "write_map votes_entry" votes_tree read_votes "\<lambda>m. om_wf m \<and> (\<forall>e\<in>set m. True \<and> True)"
  by unfold_locales

text \<open>\<^verbatim>\<open>std::map<u256, u256>\<close>.\<close>

abbreviation words_entry :: "u256 \<times> u256 \<Rightarrow> writer" where
  "words_entry e \<equiv> append_pair (append_word (fst e)) (append_word (snd e))"

abbreviation words_tree :: "(u256, u256) omap \<Rightarrow> rlp_item" where
  "words_tree m \<equiv> RList (map (\<lambda>e. RList [word_item (fst e), word_item (snd e)]) m)"

abbreviation read_words :: "bytes \<Rightarrow> rlp_error + (u256, u256) omap" where
  "read_words \<equiv> read_map (toPair (toInt Strict) (toInt Strict))"

interpretation words: map_blob words_entry "\<lambda>e. RList [word_item (fst e), word_item (snd e)]"
  "toPair (toInt Strict) (toInt Strict)" "\<lambda>e. True \<and> True"
  by unfold_locales

section \<open>ReceivedCookies\<close>

text \<open>\<^verbatim>\<open>(uint8_t)flag\<close> and \<^verbatim>\<open>(bool)\<close> of the byte that is read.\<close>

definition append_flag :: "bool \<Rightarrow> writer" where
  "append_flag b = append_enum (if b then 1 else 0)"

definition get_flag :: "bytes \<Rightarrow> rlp_error + bool" where
  "get_flag d = sbind (toInt Strict d) (\<lambda>w :: byte. Inr (w \<noteq> 0))"

abbreviation flag_item :: "bool \<Rightarrow> rlp_item" where
  "flag_item b \<equiv> enum_item (if b then 1 else 0)"

interpretation flag_codec: codec append_flag flag_item get_flag "\<lambda>_. True"
proof
  show "append_flag b = append_item (flag_item b)" for b
    unfolding append_flag_def by (rule append_enum_item) simp
  show "get_flag (encode (flag_item b)) = Inr b" for b
    using toInt_encode [of Strict "(if b then 1 else 0) :: byte"] by (simp add: get_flag_def split: if_splits)
qed

interpretation round_flag: pair_codec append_word word_item "toInt Strict" "\<lambda>_. True" append_flag flag_item get_flag "\<lambda>_. True"
  by unfold_locales

definition received_streamRLP :: "ReceivedCookies \<Rightarrow> rlp_error + bytes" where
  "received_streamRLP r = stream_of 3
     [append_blob (write_rounds (write_map receipts_entry) (rc_received_cookies r)), append_word (rc_numberofRound r),
      append_pair (append_word (fst (rc_is_received r))) (append_flag (snd (rc_is_received r)))]"

definition received_populate :: "bytes \<Rightarrow> rlp_error + ReceivedCookies" where
  "received_populate b =
     sbind (RLP_node VeryStrict b) (\<lambda>d.
     with_field 0 (toBytes LaissezFaire) (fresh_node d) (\<lambda>b_receive nd.
     with_field 1 (toInt Strict) nd (\<lambda>n nd.
     sbind (read_rounds read_receipts b_receive) (\<lambda>m.
     with_field 2 (toPair (toInt Strict) get_flag) nd (\<lambda>p nd.
       Inr \<lparr>rc_received_cookies = m, rc_numberofRound = n, rc_is_received = p\<rparr>)))))"

definition received_tree :: "ReceivedCookies \<Rightarrow> rlp_item" where
  "received_tree r = RList
     [RData (encode (rounds_tree receipts_tree (rc_received_cookies r))), word_item (rc_numberofRound r),
      RList [word_item (fst (rc_is_received r)), flag_item (snd (rc_is_received r))]]"

abbreviation nested_ok :: "(u256, ('k::linorder, 'v) omap) omap \<Rightarrow> bool" where
  "nested_ok \<equiv> rounds_ok (\<lambda>m. om_wf m \<and> (\<forall>e\<in>set m. True \<and> True))"

interpretation received_blob: blob received_streamRLP received_tree received_populate "\<lambda>r. nested_ok (rc_received_cookies r)"
proof
  fix r assume fits: "rlp_fits (received_tree r)"
  note fits' = fits [unfolded received_tree_def]
  note parts = rlp_fits_item [OF fits']
  show "received_streamRLP r = Inr (encode (received_tree r))"
    unfolding received_streamRLP_def received_tree_def
    by (rule stream_of_fields [OF fits'])
      (simp_all add: field_writes_basic received.rounds.embedded.field_writes_put round_flag.both.field_writes_put)
  assume ok: "nested_ok (rc_received_cookies r)"
  have "rlp_fits (rounds_tree receipts_tree (rc_received_cookies r))" using parts rlp_fits_blob by simp
  then have m: "read_rounds read_receipts (encode (rounds_tree receipts_tree (rc_received_cookies r))) = Inr (rc_received_cookies r)"
    using ok by (rule received.rounds.dec_tree)
  show "received_populate (encode (received_tree r)) = Inr r"
    unfolding received_populate_def received_tree_def RLP_node_encode [OF fits'] sbind_Inr
    by (rule with_field_encode [OF _ fits'], (rule cache_ok_fresh | assumption), simp,
        simp add: field_readers parts round_flag.both.get_item, (simp only: m sbind_Inr)?)+ simp
qed

section \<open>VoteSnapshot\<close>

definition snapshot_streamRLP :: "VoteSnapshot \<Rightarrow> rlp_error + bytes" where
  "snapshot_streamRLP v = stream_of 5
     [append_blob (write_rounds (write_map votes_entry) (vs_voteDataHistory v)),
      append_blob (write_map words_entry (vs_pollNumHistory v)),
      append_blob (write_map words_entry (vs_blockSummaryHistory v)),
      append_word (vs_numberofrounds v), append_word (vs_latest_round v)]"

definition snapshot_populate :: "bytes \<Rightarrow> rlp_error + VoteSnapshot" where
  "snapshot_populate b =
     sbind (RLP_node VeryStrict b) (\<lambda>d.
     with_field 0 (toBytes LaissezFaire) (fresh_node d) (\<lambda>b_vote nd.
     sbind (read_rounds read_votes b_vote) (\<lambda>history.
     with_field 1 (toBytes LaissezFaire) nd (\<lambda>poll_b nd.
     sbind (read_words poll_b) (\<lambda>polls.
     with_field 2 (toBytes LaissezFaire) nd (\<lambda>block_b nd.
     sbind (read_words block_b) (\<lambda>summaries.
     with_field 3 (toInt Strict) nd (\<lambda>numberofrounds nd.
     with_field 4 (toInt Strict) nd (\<lambda>latest nd.
       Inr \<lparr>vs_voteDataHistory = history, vs_pollNumHistory = polls, vs_blockSummaryHistory = summaries,
         vs_numberofrounds = numberofrounds, vs_latest_round = latest\<rparr>)))))))))"

definition snapshot_tree :: "VoteSnapshot \<Rightarrow> rlp_item" where
  "snapshot_tree v = RList
     [RData (encode (rounds_tree votes_tree (vs_voteDataHistory v))), RData (encode (words_tree (vs_pollNumHistory v))),
      RData (encode (words_tree (vs_blockSummaryHistory v))), word_item (vs_numberofrounds v), word_item (vs_latest_round v)]"

definition snapshot_ok :: "VoteSnapshot \<Rightarrow> bool" where
  "snapshot_ok v \<longleftrightarrow> nested_ok (vs_voteDataHistory v) \<and> om_wf (vs_pollNumHistory v) \<and> om_wf (vs_blockSummaryHistory v)"

interpretation snapshot_blob: blob snapshot_streamRLP snapshot_tree snapshot_populate snapshot_ok
proof
  fix v assume fits: "rlp_fits (snapshot_tree v)"
  note fits' = fits [unfolded snapshot_tree_def]
  note parts = rlp_fits_item [OF fits']
  show "snapshot_streamRLP v = Inr (encode (snapshot_tree v))"
    unfolding snapshot_streamRLP_def snapshot_tree_def
    by (rule stream_of_fields [OF fits'])
      (simp_all add: field_writes_basic vote_history.rounds.embedded.field_writes_put words.whole.embedded.field_writes_put)
  assume ok: "snapshot_ok v"
  have whole: "rlp_fits (rounds_tree votes_tree (vs_voteDataHistory v))" "rlp_fits (words_tree (vs_pollNumHistory v))"
    "rlp_fits (words_tree (vs_blockSummaryHistory v))" using parts rlp_fits_blob by simp_all
  note reads = vote_history.rounds.dec_tree [OF whole(1)] words.whole.dec_tree [OF whole(2)] words.whole.dec_tree [OF whole(3)]
  show "snapshot_populate (encode (snapshot_tree v)) = Inr v"
    unfolding snapshot_populate_def snapshot_tree_def RLP_node_encode [OF fits'] sbind_Inr
    by (rule with_field_encode [OF _ fits'], (rule cache_ok_fresh | assumption), simp, simp add: field_readers parts,
        (subst reads, use ok in \<open>simp add: snapshot_ok_def\<close>, subst sbind_Inr)?)+ simp
qed

section \<open>CouplingSystemfee\<close>

primrec read_each :: "('a \<Rightarrow> rlp_error + 'b) \<Rightarrow> 'a list \<Rightarrow> rlp_error + 'b list" where
  "read_each f [] = Inr []"
| "read_each f (x # xs) = sbind (f x) (\<lambda>y. sbind (read_each f xs) (\<lambda>ys. Inr (y # ys)))"

text \<open>A vector of poll records as bytes, and the loop that populates the records.\<close>

definition polls_stream :: "PollData list \<Rightarrow> rlp_error + bytes" where
  "polls_stream ps = stream_of (length ps) (map (\<lambda>p. append_blob (poll_streamRLP p)) ps)"

definition polls_read :: "(u256 \<Rightarrow> time_ms) \<Rightarrow> bytes \<Rightarrow> rlp_error + PollData list" where
  "polls_read to_int64 b =
     sbind (RLP_node VeryStrict b) (\<lambda>d. sbind (toVector (toBytes LaissezFaire) d) (read_each (poll_populate to_int64)))"

abbreviation polls_tree :: "PollData list \<Rightarrow> rlp_item" where
  "polls_tree ps \<equiv> RList (map (\<lambda>p. RData (encode (poll_tree p))) ps)"

lemma read_polls:
  assumes "rlp_fits (polls_tree ps)" and "\<forall>p\<in>set ps. poll_ok to_int64 p"
  shows "sbind (toVector (toBytes fl) (encode (polls_tree ps))) (read_each (poll_populate to_int64)) = Inr ps"
proof -
  have "toVector (toBytes fl) (encode (polls_tree ps)) = Inr (map (\<lambda>p. encode (poll_tree p)) ps)"
    using bytes_codec.vector_items [of "map (\<lambda>p. encode (poll_tree p)) ps" fl] assms(1) by (simp add: comp_def)
  moreover have "read_each (poll_populate to_int64) (map (\<lambda>p. encode (poll_tree p)) qs) = Inr qs" if "set qs \<subseteq> set ps" for qs
    using that
  proof (induction qs)
    case (Cons q qs)
    then have "rlp_fits (poll_tree q)" using rlp_fits_item [OF assms(1)] rlp_fits_blob by auto
    with Cons assms(2) show ?case by (simp add: poll_blob.dec_tree)
  qed simp
  ultimately show ?thesis by simp
qed

interpretation polls_blob: blob polls_stream polls_tree "polls_read to_int64" "\<lambda>ps. \<forall>p\<in>set ps. poll_ok to_int64 p" for to_int64
proof
  fix ps assume fits: "rlp_fits (polls_tree ps)"
  show "polls_stream ps = Inr (encode (polls_tree ps))"
    using poll_blob.embedded.stream_items [OF fits] by (simp add: polls_stream_def)
  assume "\<forall>p\<in>set ps. poll_ok to_int64 p"
  with fits show "polls_read to_int64 (encode (polls_tree ps)) = Inr ps"
    by (simp add: polls_read_def RLP_node_encode read_polls)
qed

interpretation creaters: round_map polls_stream polls_tree "polls_read to_int64" "\<lambda>ps. \<forall>p\<in>set ps. poll_ok to_int64 p" for to_int64
  by unfold_locales

definition systemfee_streamRLP :: "CouplingSystemfee \<Rightarrow> rlp_error + bytes" where
  "systemfee_streamRLP c = stream_of 6
     [append_blob (write_rounds amounts_stream (cs_Feesnapshot c)), append_word (cs_rounds c), append_word (cs_numofrounds c),
      append_blob (write_rounds polls_stream (cs_sorted_creaters c)),
      append_blob (write_rounds (write_map receipts_entry) (cs_received_cookies c)),
      append_pair (append_word (fst (cs_total_summary c))) (append_word (snd (cs_total_summary c)))]"

definition systemfee_unstreamRLP :: "(u256 \<Rightarrow> time_ms) \<Rightarrow> bytes \<Rightarrow> rlp_error + CouplingSystemfee" where
  "systemfee_unstreamRLP to_int64 b =
     sbind (RLP_node VeryStrict b) (\<lambda>d.
     with_field 0 (toBytes LaissezFaire) (fresh_node d) (\<lambda>fee_b nd.
     sbind (read_rounds amounts_read fee_b) (\<lambda>feesnapshot.
     with_field 1 (toInt Strict) nd (\<lambda>rounds nd.
     with_field 2 (toInt Strict) nd (\<lambda>numofrounds nd.
     with_field 3 (toBytes LaissezFaire) nd (\<lambda>sort_b nd.
     sbind (read_rounds (polls_read to_int64) sort_b) (\<lambda>sorted_creaters.
     with_field 4 (toBytes LaissezFaire) nd (\<lambda>receive_b nd.
     sbind (read_rounds read_receipts receive_b) (\<lambda>received.
     with_field 5 (toPair (toInt Strict) (toInt Strict)) nd (\<lambda>total_summary nd.
       Inr \<lparr>cs_Feesnapshot = feesnapshot, cs_sorted_creaters = sorted_creaters, cs_rounds = rounds,
         cs_numofrounds = numofrounds, cs_received_cookies = received, cs_total_summary = total_summary\<rparr>))))))))))"

definition systemfee_tree :: "CouplingSystemfee \<Rightarrow> rlp_item" where
  "systemfee_tree c = RList
     [RData (encode (rounds_tree amounts_tree (cs_Feesnapshot c))), word_item (cs_rounds c), word_item (cs_numofrounds c),
      RData (encode (rounds_tree polls_tree (cs_sorted_creaters c))),
      RData (encode (rounds_tree receipts_tree (cs_received_cookies c))),
      RList [word_item (fst (cs_total_summary c)), word_item (snd (cs_total_summary c))]]"

definition systemfee_ok :: "(u256 \<Rightarrow> time_ms) \<Rightarrow> CouplingSystemfee \<Rightarrow> bool" where
  "systemfee_ok to_int64 c \<longleftrightarrow> om_wf (cs_Feesnapshot c) \<and> nested_ok (cs_received_cookies c) \<and>
     rounds_ok (\<lambda>ps. \<forall>p\<in>set ps. poll_ok to_int64 p) (cs_sorted_creaters c)"

interpretation systemfee_blob: blob systemfee_streamRLP systemfee_tree "systemfee_unstreamRLP to_int64" "systemfee_ok to_int64" for to_int64
proof
  fix c assume fits: "rlp_fits (systemfee_tree c)"
  note fits' = fits [unfolded systemfee_tree_def]
  note parts = rlp_fits_item [OF fits']
  show "systemfee_streamRLP c = Inr (encode (systemfee_tree c))"
    unfolding systemfee_streamRLP_def systemfee_tree_def
    by (rule stream_of_fields [OF fits'])
      (simp_all add: field_writes_basic fees.rounds.embedded.field_writes_put creaters.rounds.embedded.field_writes_put
        received.rounds.embedded.field_writes_put word_pair.both.field_writes_put)
  assume ok: "systemfee_ok to_int64 c"
  have whole: "rlp_fits (rounds_tree amounts_tree (cs_Feesnapshot c))" "rlp_fits (rounds_tree polls_tree (cs_sorted_creaters c))"
    "rlp_fits (rounds_tree receipts_tree (cs_received_cookies c))" using parts rlp_fits_blob by simp_all
  note reads = fees.rounds.dec_tree [OF whole(1)] creaters.rounds.dec_tree [OF whole(2)] received.rounds.dec_tree [OF whole(3)]
  show "systemfee_unstreamRLP to_int64 (encode (systemfee_tree c)) = Inr c"
    unfolding systemfee_unstreamRLP_def systemfee_tree_def RLP_node_encode [OF fits'] sbind_Inr
    by (rule with_field_encode [OF _ fits'], (rule cache_ok_fresh | assumption), simp,
        simp add: field_readers parts word_pair.both.get_item,
        (subst reads, use ok in \<open>simp add: systemfee_ok_def rounds_ok_def\<close>, subst sbind_Inr)?)+ simp
qed

section \<open>BlockRecord and gas prices\<close>

definition get_time :: "(u256 \<Rightarrow> time_ms) \<Rightarrow> bytes \<Rightarrow> rlp_error + time_ms" where
  "get_time to_int64 d = sbind (toInt Strict d) (\<lambda>w. Inr (to_int64 w))"

interpretation time_codec: codec append_time "\<lambda>t. word_item (of_int t)" "get_time to_int64" "\<lambda>t. to_int64 (of_int t) = t" for to_int64
  by unfold_locales (simp_all add: append_time_def append_word_item get_time_def toInt_encode)

abbreviation times_entry :: "address \<times> time_ms \<Rightarrow> writer" where
  "times_entry e \<equiv> append_pair (append_hash 20 (fst e)) (append_time (snd e))"

abbreviation times_tree :: "(address, time_ms) omap \<Rightarrow> rlp_item" where
  "times_tree m \<equiv> RList (map (\<lambda>e. RList [address_item (fst e), word_item (of_int (snd e))]) m)"

abbreviation read_times :: "(u256 \<Rightarrow> time_ms) \<Rightarrow> bytes \<Rightarrow> rlp_error + (address, time_ms) omap" where
  "read_times to_int64 \<equiv> read_map (toPair (toHash Strict) (get_time to_int64))"

interpretation time_pair: pair_codec "append_hash 20" address_item "toHash Strict" "\<lambda>_. True"
  append_time "\<lambda>t. word_item (of_int t)" "get_time to_int64" "\<lambda>t. to_int64 (of_int t) = t" for to_int64
  by unfold_locales

interpretation times: map_blob times_entry "\<lambda>e. RList [address_item (fst e), word_item (of_int (snd e))]"
  "toPair (toHash Strict) (get_time to_int64)" "\<lambda>e. True \<and> to_int64 (of_int (snd e)) = snd e" for to_int64
  by unfold_locales

definition record_streamRLP :: "(address, time_ms) omap \<Rightarrow> rlp_error + bytes" where
  "record_streamRLP m = stream_of 1 [append_blob (write_map times_entry m)]"

definition record_populate :: "(u256 \<Rightarrow> time_ms) \<Rightarrow> bytes \<Rightarrow> rlp_error + (address, time_ms) omap" where
  "record_populate to_int64 b =
     sbind (RLP_node VeryStrict b) (\<lambda>d.
     with_field 0 (toBytes LaissezFaire) (fresh_node d) (\<lambda>time_b nd. read_times to_int64 time_b))"

definition record_tree :: "(address, time_ms) omap \<Rightarrow> rlp_item" where
  "record_tree m = RList [RData (encode (times_tree m))]"

definition record_ok :: "(u256 \<Rightarrow> time_ms) \<Rightarrow> (address, time_ms) omap \<Rightarrow> bool" where
  "record_ok to_int64 m \<longleftrightarrow> om_wf m \<and> (\<forall>e\<in>set m. to_int64 (of_int (snd e)) = snd e)"

interpretation record_blob: blob record_streamRLP record_tree "record_populate to_int64" "record_ok to_int64" for to_int64
proof
  fix m assume fits: "rlp_fits (record_tree m)"
  note fits' = fits [unfolded record_tree_def]
  note parts = rlp_fits_item [OF fits']
  show "record_streamRLP m = Inr (encode (record_tree m))"
    unfolding record_streamRLP_def record_tree_def
    by (rule stream_of_fields [OF fits']) (simp_all add: times.whole.embedded.field_writes_put)
  assume ok: "record_ok to_int64 m"
  have "rlp_fits (times_tree m)" using parts rlp_fits_blob by simp
  then have "read_times to_int64 (encode (times_tree m)) = Inr m"
    by (rule times.whole.dec_tree) (use ok in \<open>simp add: record_ok_def\<close>)
  then show "record_populate to_int64 (encode (record_tree m)) = Inr m"
    unfolding record_populate_def record_tree_def RLP_node_encode [OF fits'] sbind_Inr
    by (intro with_field_encode [OF cache_ok_fresh fits', where x = "encode (times_tree m)"])
      (simp_all add: field_readers parts)
qed

definition getStreamRLPGasPrice :: "account \<Rightarrow> rlp_error + bytes" where
  "getStreamRLPGasPrice a = write_map votes_entry (m_minerGasPrice a)"

definition initGasPrice :: "bytes \<Rightarrow> rlp_error + (address, u256) omap" where
  "initGasPrice b = read_votes b"

section \<open>The containers of orders\<close>

text \<open>The index by transaction id is descending; the results have a unique index by time.\<close>

definition by_trxid :: "ExOrderMulti \<Rightarrow> ex_order list" where
  "by_trxid m = sort_key (\<lambda>od. - uint (eo_trxid od)) m"

definition result_insert :: "result_order \<Rightarrow> ExResultOrder \<Rightarrow> ExResultOrder" where
  "result_insert r rs = (case find (\<lambda>q. ro_create_time q = ro_create_time r) rs of None \<Rightarrow> rs @ [r] | Some _ \<Rightarrow> rs)"

definition getStreamRLPExOrder :: "account \<Rightarrow> rlp_error + bytes" where
  "getStreamRLPExOrder a = stream_of (length (m_exChangeOrder a))
     (map (\<lambda>od. append_blob (ex_order_streamRLP od)) (by_trxid (m_exChangeOrder a)))"

definition initExOrder :: "(u256 \<Rightarrow> time_ms) \<Rightarrow> bytes \<Rightarrow> rlp_error + ExOrderMulti" where
  "initExOrder to_int64 b =
     sbind (RLP_node VeryStrict b) (\<lambda>d.
       rlp_for d (\<lambda>v m. sbind (get_blob LaissezFaire (ex_order_populate to_int64) v) (\<lambda>od. Inr (multi_insert od m))) [])"

definition getStreamRLPResultOrder :: "account \<Rightarrow> rlp_error + bytes" where
  "getStreamRLPResultOrder a = stream_of (length (m_successExchange a))
     (map (\<lambda>r. append_blob (result_order_streamRLP r)) (sort_key ro_create_time (m_successExchange a)))"

definition initResultOrder :: "(u256 \<Rightarrow> time_ms) \<Rightarrow> bytes \<Rightarrow> rlp_error + ExResultOrder" where
  "initResultOrder to_int64 b =
     sbind (RLP_node VeryStrict b) (\<lambda>d.
       rlp_for d (\<lambda>v m. sbind (get_blob LaissezFaire (result_order_populate to_int64) v) (\<lambda>r. Inr (result_insert r m))) [])"

abbreviation orders_tree :: "ex_order list \<Rightarrow> rlp_item" where
  "orders_tree ods \<equiv> RList (map (\<lambda>od. RData (encode (ex_order_tree od))) ods)"

abbreviation results_tree :: "result_order list \<Rightarrow> rlp_item" where
  "results_tree rs \<equiv> RList (map (\<lambda>r. RData (encode (result_order_tree r))) rs)"

lemma fold_multi_insert: "trxids_distinct (n @ m) \<Longrightarrow> fold multi_insert m n = n @ m"
proof (induction m arbitrary: n)
  case (Cons od m)
  then have "find (has_trxid (eo_trxid od)) n = None"
    by (auto simp: find_None_iff has_trxid_def trxids_distinct_def image_iff)
  with Cons.IH [of "n @ [od]"] Cons.prems show ?case by (simp add: multi_insert_def)
qed simp

lemma fold_result_insert: "distinct (map ro_create_time (n @ m)) \<Longrightarrow> fold result_insert m n = n @ m"
proof (induction m arbitrary: n)
  case (Cons r m)
  then have "find (\<lambda>q. ro_create_time q = ro_create_time r) n = None" by (auto simp: find_None_iff image_iff)
  with Cons.IH [of "n @ [r]"] Cons.prems show ?case by (simp add: result_insert_def)
qed simp

lemma exOrder_stream:
  "rlp_fits (orders_tree (by_trxid (m_exChangeOrder a))) \<Longrightarrow>
   getStreamRLPExOrder a = Inr (encode (orders_tree (by_trxid (m_exChangeOrder a))))"
  using ex_order_blob.embedded.stream_items [of "by_trxid (m_exChangeOrder a)"]
  by (simp add: getStreamRLPExOrder_def by_trxid_def)

lemma exOrder_read:
  assumes "rlp_fits (orders_tree ods)" and "trxids_distinct ods" and "\<forall>od\<in>set ods. to_int64 (of_int (eo_create_time od)) = eo_create_time od"
  shows "initExOrder to_int64 (encode (orders_tree ods)) = Inr ods"
proof -
  have "rlp_for (encode (orders_tree ods))
      (\<lambda>v m. sbind (get_blob LaissezFaire (ex_order_populate to_int64) v) (\<lambda>od. Inr (multi_insert od m))) [] =
      Inr (fold multi_insert ods [])"
    using assms(3) by (intro ex_order_blob.embedded.for_items assms(1)) auto
  with assms(1,2) fold_multi_insert [of "[]" ods] show ?thesis by (simp add: initExOrder_def RLP_node_encode)
qed

lemma resultOrder_stream:
  "rlp_fits (results_tree (sort_key ro_create_time (m_successExchange a))) \<Longrightarrow>
   getStreamRLPResultOrder a = Inr (encode (results_tree (sort_key ro_create_time (m_successExchange a))))"
  using result_order_blob.embedded.stream_items [of "sort_key ro_create_time (m_successExchange a)"]
  by (simp add: getStreamRLPResultOrder_def)

lemma resultOrder_read:
  assumes "rlp_fits (results_tree rs)" and "distinct (map ro_create_time rs)"
    and "\<forall>r\<in>set rs. to_int64 (of_int (ro_create_time r)) = ro_create_time r"
  shows "initResultOrder to_int64 (encode (results_tree rs)) = Inr rs"
proof -
  have "rlp_for (encode (results_tree rs))
      (\<lambda>v m. sbind (get_blob LaissezFaire (result_order_populate to_int64) v) (\<lambda>r. Inr (result_insert r m))) [] =
      Inr (fold result_insert rs [])"
    using assms(3) by (intro result_order_blob.embedded.for_items assms(1)) auto
  with assms(1,2) fold_result_insert [of "[]" rs] show ?thesis by (simp add: initResultOrder_def RLP_node_encode)
qed

section \<open>Miner mapping and block rewards\<close>

definition getRLPStreamChangeMiner :: "account \<Rightarrow> rlp_error + bytes" where
  "getRLPStreamChangeMiner a =
     (if fst (m_mappingAddress a) = 0 then stream_of 1 [append_bytes [] False]
      else stream_of 2 [append_hash 20 (fst (m_mappingAddress a)), append_hash 20 (snd (m_mappingAddress a))])"

definition populateChangeMiner :: "bytes \<Rightarrow> address \<times> address \<Rightarrow> rlp_error + address \<times> address" where
  "populateChangeMiner b old =
     sbind (RLP_node VeryStrict b) (\<lambda>d.
     sbind (itemCount d) (\<lambda>n.
       if n = 2
       then with_field 0 (toHash LaissezFaire) (fresh_node d) (\<lambda>x nd.
            with_field 1 (toHash LaissezFaire) nd (\<lambda>y _. Inr (x, y)))
       else Inr old))"

definition mapping_tree :: "address \<times> address \<Rightarrow> rlp_item" where
  "mapping_tree p = (if fst p = 0 then RList [RData []] else RList [address_item (fst p), address_item (snd p)])"

lemma mapping_fits: "rlp_fits (mapping_tree p)"
  by (auto simp: mapping_tree_def intro!: rlp_fits_small_list short_items length_encode_short)

lemma mapping_stream: "getRLPStreamChangeMiner a = Inr (encode (mapping_tree (m_mappingAddress a)))"
  using mapping_fits [of "m_mappingAddress a"]
  by (auto simp: getRLPStreamChangeMiner_def mapping_tree_def field_writes_basic intro!: stream_of_fields)

lemma mapping_read:
  "populateChangeMiner (encode (mapping_tree p)) old = Inr (if fst p = 0 then old else p)"
proof (cases "fst p = 0")
  case True
  then have fits: "rlp_fits (RList [RData []])" using mapping_fits [of p] by (simp add: mapping_tree_def)
  from True show ?thesis
    by (simp add: populateChangeMiner_def mapping_tree_def RLP_node_encode [OF fits] itemCount_encode [OF fits])
next
  case False
  then have fits: "rlp_fits (RList [address_item (fst p), address_item (snd p)])" using mapping_fits [of p] by (simp add: mapping_tree_def)
  have "with_field 0 (toHash LaissezFaire) (fresh_node (encode (RList [address_item (fst p), address_item (snd p)])))
      (\<lambda>x nd. with_field 1 (toHash LaissezFaire) nd (\<lambda>y _. Inr (x, y))) = Inr p"
    by (rule with_field_encode [OF _ fits], (rule cache_ok_fresh | assumption), simp, simp add: field_readers)+ simp
  with False show ?thesis
    by (simp add: populateChangeMiner_def mapping_tree_def RLP_node_encode [OF fits] itemCount_encode [OF fits])
qed

text \<open>
  The number of rewards goes through \<^verbatim>\<open>append(unsigned)\<close> and is read as \<^verbatim>\<open>size_t\<close>; the loop then reads as
  many pairs.
\<close>

definition rewards_stream :: "(u256 \<times> u256) list \<Rightarrow> rlp_error + bytes" where
  "rewards_stream rs = stream_of (length rs + 1) (append_word (of_nat (length rs) :: 32 word) # map words_entry rs)"

primrec rewards_loop :: "nat \<Rightarrow> nat \<Rightarrow> rlp_node \<Rightarrow> rlp_error + (u256 \<times> u256) list" where
  "rewards_loop 0 k nd = Inr []"
| "rewards_loop (Suc n) k nd =
     with_field k (toPair (toInt Strict) (toInt Strict)) nd (\<lambda>p nd.
       sbind (rewards_loop n (Suc k) nd) (\<lambda>ps. Inr (p # ps)))"

definition rewards_read :: "bytes \<Rightarrow> rlp_error + (u256 \<times> u256) list" where
  "rewards_read b =
     sbind (RLP_node VeryStrict b) (\<lambda>d.
     with_field 0 (toInt Strict) (fresh_node d) (\<lambda>num :: 64 word. \<lambda>nd. rewards_loop (unat num) 1 nd))"

definition rewards_tree :: "(u256 \<times> u256) list \<Rightarrow> rlp_item" where
  "rewards_tree rs = RList (enum_item (length rs mod 2 ^ 32) # map (\<lambda>e. RList [word_item (fst e), word_item (snd e)]) rs)"

lemma rewards_loop_encode:
  assumes "cache_ok ts nd" and "rlp_fits (RList ts)" and "k + length rs = length ts"
    and "drop k ts = map (\<lambda>e. RList [word_item (fst e), word_item (snd e)]) rs"
  shows "rewards_loop (length rs) k nd = Inr rs"
  using assms
proof (induction rs arbitrary: k nd)
  case (Cons r rs)
  have k: "k < length ts" using Cons.prems(3) by simp
  have "ts ! k # drop (Suc k) ts = map (\<lambda>e. RList [word_item (fst e), word_item (snd e)]) (r # rs)"
    using Cons.prems(4) k by (simp add: Cons_nth_drop_Suc)
  then have at: "ts ! k = RList [word_item (fst r), word_item (snd r)]"
    and "drop (Suc k) ts = map (\<lambda>e. RList [word_item (fst e), word_item (snd e)]) rs"
    by simp_all
  from this(2) have rest: "rewards_loop (length rs) (Suc k) nd' = Inr rs" if "cache_ok ts nd'" for nd'
    using Cons.IH that assms(2) Cons.prems(3) by simp
  have "rlp_fits (ts ! k)" using rlp_fits_item [OF assms(2)] k by simp
  then have pair: "toPair (toInt Strict) (toInt Strict) (encode (ts ! k)) = Inr r"
    unfolding at by (rule word_pair.both.get_item) simp
  show ?case unfolding list.size(4) add_Suc_right add_0_right rewards_loop.simps
    by (rule with_field_encode [OF Cons.prems(1) assms(2) k], rule pair) (simp add: rest)
qed simp

lemma append_count_item: "append_word (of_nat n :: 32 word) = append_item (enum_item (n mod 2 ^ 32))"
  by (subst append_word_item) (simp_all add: unat_of_nat)

lemma get_count: "n < 2 ^ 32 \<Longrightarrow> toInt fl (encode (enum_item (n mod 2 ^ 32))) = Inr (of_nat n :: 64 word)"
  using toInt_encode [of fl "of_nat n :: 64 word"] by (simp add: unat_of_nat)

interpretation rewards_blob: blob rewards_stream rewards_tree rewards_read "\<lambda>rs. length rs < 2 ^ 32"
proof
  fix rs assume fits: "rlp_fits (rewards_tree rs)"
  note fits' = fits [unfolded rewards_tree_def]
  have "list_all2 field_writes (map words_entry rs) (map (\<lambda>e. RList [word_item (fst e), word_item (snd e)]) rs)"
    by (simp add: list_all2_map1 list_all2_map2 list_all2_same word_pair.both.field_writes_put)
  then show "rewards_stream rs = Inr (encode (rewards_tree rs))"
    unfolding rewards_stream_def rewards_tree_def
    by (intro stream_of_fields [OF fits']) (simp_all add: append_count_item field_writes_def [of "append_item _"])
  assume small: "length rs < 2 ^ 32"
  have "rewards_loop (length rs) 1 nd = Inr rs"
    if "cache_ok (enum_item (length rs mod 2 ^ 32) # map (\<lambda>e. RList [word_item (fst e), word_item (snd e)]) rs) nd" for nd
    by (rule rewards_loop_encode [OF that fits']) simp_all
  moreover have "unat (of_nat (length rs) :: 64 word) = length rs" using small by (simp add: unat_of_nat)
  moreover note get_count [OF small, of Strict]
  ultimately show "rewards_read (encode (rewards_tree rs)) = Inr rs"
    unfolding rewards_read_def rewards_tree_def RLP_node_encode [OF fits'] sbind_Inr
    by (intro with_field_encode [OF cache_ok_fresh fits', where x = "of_nat (length rs) :: 64 word"])
      simp_all
qed

section \<open>The account\<close>

text \<open>
  \<^verbatim>\<open>dev::brc::commit\<close> for one dirty, alive account. \<open>root\<close> is the root of the storage trie after the
  overlay went into it, or the old root when there was none. \<open>blockNum\<close> is \<^verbatim>\<open>m_block_number\<close>, the number of
  the previous block; the block being committed is the next one.
\<close>

definition commit_account :: "config \<Rightarrow> (account \<Rightarrow> h256) \<Rightarrow> int \<Rightarrow> account \<Rightarrow> rlp_error + bytes" where
  "commit_account cfg root blockNum a =
     stream_of
       (if blockNum + 1 \<ge> gasPriceHeight cfg then 21 else if blockNum \<ge> newChangeHeight cfg then 20 else 19)
       ([append_word (m_nonce a), append_word (m_balance a), append_hash 32 (root a), append_hash 32 (m_codeHash a),
         append_word (m_ballot a), append_word (m_poll a),
         append_vector (map (\<lambda>p. append_blob (poll_streamRLP p)) (m_vote_data a)),
         append_word (m_BRC a), append_word (m_FBRC a), append_word (m_FBalance a),
         append_blob (rewards_stream (m_BlockReward a)),
         append_vector (map (\<lambda>b. append_bytes b False) (m_willChangeList a)),
         append_word (m_CooikeIncomeNum a), append_blob (snapshot_streamRLP (m_vote_sapshot a)),
         append_blob (systemfee_streamRLP (m_couplingSystemFee a)), append_blob (record_streamRLP (m_block_records a)),
         append_blob (received_streamRLP (m_received_cookies a)), append_blob (getStreamRLPResultOrder a),
         append_blob (getStreamRLPExOrder a)] @
        (if blockNum \<ge> newChangeHeight cfg then [append_blob (getRLPStreamChangeMiner a)] else []) @
        (if blockNum + 1 \<ge> gasPriceHeight cfg then [append_blob (getStreamRLPGasPrice a)] else []))"

text \<open>
  The part of \<^verbatim>\<open>State::account\<close> that builds the account from the bytes of the trie. The constructor makes
  an unchanged account, the setters that follow mark it changed, and from the height of the gas
  prices on it is marked unchanged again.
\<close>

definition read_gasPrice :: "config \<Rightarrow> int \<Rightarrow> bytes \<Rightarrow> rlp_node \<Rightarrow> account \<Rightarrow> rlp_error + account" where
  "read_gasPrice cfg blockNum d nd a =
     (if blockNum + 1 \<ge> gasPriceHeight cfg
      then sbind (itemCount d) (\<lambda>n.
        if n > 20
        then with_field 20 (toBytes LaissezFaire) nd (\<lambda>b nd.
          sbind (initGasPrice b) (\<lambda>m. Inr (untouch (a\<lparr>m_minerGasPrice := m\<rparr>))))
        else Inr (untouch a))
      else Inr a)"

definition read_forks :: "config \<Rightarrow> int \<Rightarrow> bytes \<Rightarrow> rlp_node \<Rightarrow> account \<Rightarrow> rlp_error + account" where
  "read_forks cfg blockNum d nd a =
     (if blockNum \<ge> newChangeHeight cfg
      then sbind (itemCount d) (\<lambda>n.
        if n > 19
        then with_field 19 (toBytes LaissezFaire) nd (\<lambda>b nd.
          sbind (populateChangeMiner b (m_mappingAddress a)) (\<lambda>p.
            read_gasPrice cfg blockNum d nd (a\<lparr>m_mappingAddress := p\<rparr>)))
        else read_gasPrice cfg blockNum d nd a)
      else read_gasPrice cfg blockNum d nd a)"

definition load_account :: "(u256 \<Rightarrow> time_ms) \<Rightarrow> config \<Rightarrow> int \<Rightarrow> bytes \<Rightarrow> rlp_error + account" where
  "load_account to_int64 cfg blockNum b =
     sbind (RLP_node VeryStrict b) (\<lambda>d.
     with_field 6 (toVector (toBytes LaissezFaire)) (fresh_node d) (\<lambda>vals nd.
     sbind (read_each (poll_populate to_int64) vals) (\<lambda>vote.
     with_field 10 (toBytes LaissezFaire) nd (\<lambda>reward_b nd.
     sbind (rewards_read reward_b) (\<lambda>blockReward.
     with_field 0 (toInt Strict) nd (\<lambda>nonce nd.
     with_field 1 (toInt Strict) nd (\<lambda>bal nd.
     with_field 2 (toHash Strict) nd (\<lambda>contractRoot nd.
     with_field 3 (toHash Strict) nd (\<lambda>codeHash nd.
     with_field 4 (toInt Strict) nd (\<lambda>ballot nd.
     with_field 5 (toInt Strict) nd (\<lambda>poll nd.
     with_field 7 (toInt Strict) nd (\<lambda>brc nd.
     with_field 8 (toInt Strict) nd (\<lambda>fbrc nd.
     with_field 9 (toInt Strict) nd (\<lambda>fbalance nd.
     with_field 11 (toVector (toBytes LaissezFaire)) nd (\<lambda>changeList nd.
     with_field 12 (toInt Strict) nd (\<lambda>cookieNum nd.
     with_field 13 (toBytes LaissezFaire) nd (\<lambda>vote_sna_b nd.
     sbind (snapshot_populate vote_sna_b) (\<lambda>snapshot.
     with_field 14 (toBytes LaissezFaire) nd (\<lambda>fee_b nd.
     sbind (systemfee_unstreamRLP to_int64 fee_b) (\<lambda>systemfee.
     with_field 15 (toBytes LaissezFaire) nd (\<lambda>record_b nd.
     sbind (record_populate to_int64 record_b) (\<lambda>records.
     with_field 16 (toBytes LaissezFaire) nd (\<lambda>received_b nd.
     sbind (received_populate received_b) (\<lambda>received.
     with_field 17 (toBytes LaissezFaire) nd (\<lambda>ret_order_b nd.
     sbind (initResultOrder to_int64 ret_order_b) (\<lambda>success.
     with_field 18 (toBytes LaissezFaire) nd (\<lambda>ex_order_b nd.
     sbind (initExOrder to_int64 ex_order_b) (\<lambda>orders.
       read_forks cfg blockNum d nd (changed (dead_account\<lparr>m_isAlive := True, m_nonce := nonce, m_balance := bal,
         m_storageRoot := contractRoot, m_codeHash := codeHash, m_ballot := ballot, m_poll := poll, m_BRC := brc,
         m_FBRC := fbrc, m_FBalance := fbalance, m_vote_data := vote, m_BlockReward := blockReward,
         m_willChangeList := changeList, m_CooikeIncomeNum := cookieNum, m_vote_sapshot := snapshot,
         m_couplingSystemFee := systemfee, m_block_records := records, m_received_cookies := received,
         m_successExchange := success, m_exChangeOrder := orders\<rparr>))))))))))))))))))))))))))))))"

definition base_items :: "h256 \<Rightarrow> account \<Rightarrow> rlp_item list" where
  "base_items root a =
     [word_item (m_nonce a), word_item (m_balance a), hash_item root, hash_item (m_codeHash a), word_item (m_ballot a),
      word_item (m_poll a), polls_tree (m_vote_data a), word_item (m_BRC a), word_item (m_FBRC a), word_item (m_FBalance a),
      RData (encode (rewards_tree (m_BlockReward a))), RList (map RData (m_willChangeList a)), word_item (m_CooikeIncomeNum a),
      RData (encode (snapshot_tree (m_vote_sapshot a))), RData (encode (systemfee_tree (m_couplingSystemFee a))),
      RData (encode (record_tree (m_block_records a))), RData (encode (received_tree (m_received_cookies a))),
      RData (encode (results_tree (sort_key ro_create_time (m_successExchange a)))),
      RData (encode (orders_tree (by_trxid (m_exChangeOrder a))))]"

definition fork_items :: "config \<Rightarrow> int \<Rightarrow> account \<Rightarrow> rlp_item list" where
  "fork_items cfg blockNum a =
     (if blockNum \<ge> newChangeHeight cfg then [RData (encode (mapping_tree (m_mappingAddress a)))] else []) @
     (if blockNum + 1 \<ge> gasPriceHeight cfg then [RData (encode (votes_tree (m_minerGasPrice a)))] else [])"

definition account_tree :: "config \<Rightarrow> h256 \<Rightarrow> int \<Rightarrow> account \<Rightarrow> rlp_item" where
  "account_tree cfg root blockNum a = RList (base_items root a @ fork_items cfg blockNum a)"

text \<open>The gas prices came later than the miner mapping, so the announced number of items is right.\<close>

lemma fork_order: "newChangeHeight cfg < gasPriceHeight cfg"
  by (simp add: newChangeHeight_def gasPriceHeight_def)

lemma length_base_items: "length (base_items root a) = 19"
  by (simp add: base_items_def)

lemma blob_field: "(rlp_fits t \<Longrightarrow> b = Inr (encode t)) \<Longrightarrow> field_writes (append_blob b) (RData (encode t))"
  by (auto simp: field_writes_def append_blob_def fun_eq_iff rlp_fits_blob)

lemma vector_field:
  assumes "list_all2 field_writes ws ts"
  shows "field_writes (append_vector ws) (RList ts)"
  unfolding field_writes_def
proof
  assume fits: "rlp_fits (RList ts)"
  have "ws = map append_item ts"
    using assms rlp_fits_item [OF fits] by (induction rule: list_all2_induct) (auto simp: field_writes_def)
  then show "append_vector ws = append_item (RList ts)" by (simp only: append_vector_item)
qed

lemma base_fields:
  "list_all2 field_writes
     [append_word (m_nonce a), append_word (m_balance a), append_hash 32 root, append_hash 32 (m_codeHash a),
      append_word (m_ballot a), append_word (m_poll a),
      append_vector (map (\<lambda>p. append_blob (poll_streamRLP p)) (m_vote_data a)),
      append_word (m_BRC a), append_word (m_FBRC a), append_word (m_FBalance a),
      append_blob (rewards_stream (m_BlockReward a)),
      append_vector (map (\<lambda>b. append_bytes b False) (m_willChangeList a)),
      append_word (m_CooikeIncomeNum a), append_blob (snapshot_streamRLP (m_vote_sapshot a)),
      append_blob (systemfee_streamRLP (m_couplingSystemFee a)), append_blob (record_streamRLP (m_block_records a)),
      append_blob (received_streamRLP (m_received_cookies a)), append_blob (getStreamRLPResultOrder a),
      append_blob (getStreamRLPExOrder a)] (base_items root a)"
proof -
  have polls: "field_writes (append_vector (map (\<lambda>p. append_blob (poll_streamRLP p)) ps)) (polls_tree ps)" for ps
    by (rule vector_field) (simp add: list_all2_map1 list_all2_map2 list_all2_same poll_blob.embedded.field_writes_put)
  have strings: "field_writes (append_vector (map (\<lambda>b. append_bytes b False) bs)) (RList (map RData bs))" for bs
    by (rule vector_field) (simp add: list_all2_map1 list_all2_map2 list_all2_same field_writes_basic)
  show ?thesis unfolding base_items_def
    by (simp only: list_all2_Cons list_all2_Nil field_writes_basic polls strings simp_thms
        rewards_blob.embedded.field_writes_put snapshot_blob.embedded.field_writes_put systemfee_blob.embedded.field_writes_put
        record_blob.embedded.field_writes_put received_blob.embedded.field_writes_put
        blob_field [OF resultOrder_stream] blob_field [OF exOrder_stream])
qed

lemma commit_account_encode:
  assumes "rlp_fits (account_tree cfg (root a) blockNum a)"
  shows "commit_account cfg root blockNum a = Inr (encode (account_tree cfg (root a) blockNum a))"
proof -
  have "list_all2 field_writes
      ((if blockNum \<ge> newChangeHeight cfg then [append_blob (getRLPStreamChangeMiner a)] else []) @
       (if blockNum + 1 \<ge> gasPriceHeight cfg then [append_blob (getStreamRLPGasPrice a)] else []))
      (fork_items cfg blockNum a)"
    using blob_field [OF mapping_stream] votes.whole.embedded.field_writes_put
    by (simp add: fork_items_def getStreamRLPGasPrice_def)
  then show ?thesis
    unfolding commit_account_def account_tree_def using fork_order [of cfg]
    by (intro stream_of_fields assms [unfolded account_tree_def] list_all2_appendI base_fields)
      (auto simp: length_base_items fork_items_def)
qed

text \<open>What can be stored: ordered maps, times that fit, unique ids.\<close>

definition account_storable :: "(u256 \<Rightarrow> time_ms) \<Rightarrow> account \<Rightarrow> bool" where
  "account_storable to_int64 a \<longleftrightarrow>
     (\<forall>p\<in>set (m_vote_data a). poll_ok to_int64 p) \<and> length (m_BlockReward a) < 2 ^ 32 \<and>
     snapshot_ok (m_vote_sapshot a) \<and> systemfee_ok to_int64 (m_couplingSystemFee a) \<and>
     record_ok to_int64 (m_block_records a) \<and> nested_ok (rc_received_cookies (m_received_cookies a)) \<and>
     distinct (map ro_create_time (m_successExchange a)) \<and>
     (\<forall>r\<in>set (m_successExchange a). to_int64 (of_int (ro_create_time r)) = ro_create_time r) \<and>
     trxids_distinct (m_exChangeOrder a) \<and>
     (\<forall>od\<in>set (m_exChangeOrder a). to_int64 (of_int (eo_create_time od)) = eo_create_time od) \<and>
     om_wf (m_minerGasPrice a)"

text \<open>
  The account that comes back: without storage overlay and code; the resting orders by descending
  id instead of in the order of their insertion and the results in the order of their times; the mapping of a
  miner only from the height of its fork on and only when its first address is not zero; the gas
  prices only from the height of theirs on.
\<close>

definition reloaded :: "config \<Rightarrow> h256 \<Rightarrow> int \<Rightarrow> account \<Rightarrow> account" where
  "reloaded cfg root blockNum a =
     a\<lparr>m_isAlive := True, m_isUnchanged := (blockNum + 1 \<ge> gasPriceHeight cfg), m_hasNewCode := False,
       m_storageRoot := root, m_successExchange := sort_key ro_create_time (m_successExchange a),
       m_exChangeOrder := by_trxid (m_exChangeOrder a), m_storageOverlay := Map.empty, m_storageOriginal := Map.empty,
       m_codeCache := [],
       m_mappingAddress := (if blockNum \<ge> newChangeHeight cfg \<and> fst (m_mappingAddress a) \<noteq> 0 then m_mappingAddress a else (0, 0)),
       m_minerGasPrice := (if blockNum + 1 \<ge> gasPriceHeight cfg then m_minerGasPrice a else [])\<rparr>"

definition loaded_base :: "h256 \<Rightarrow> account \<Rightarrow> account" where
  "loaded_base root a =
     a\<lparr>m_isAlive := True, m_isUnchanged := False, m_hasNewCode := False,
       m_storageRoot := root, m_successExchange := sort_key ro_create_time (m_successExchange a),
       m_exChangeOrder := by_trxid (m_exChangeOrder a), m_storageOverlay := Map.empty, m_storageOriginal := Map.empty,
       m_codeCache := [], m_mappingAddress := (0, 0), m_minerGasPrice := []\<rparr>"

lemma loaded_base_fields:
  "changed (dead_account\<lparr>m_isAlive := True, m_nonce := m_nonce a, m_balance := m_balance a,
     m_storageRoot := root, m_codeHash := m_codeHash a, m_ballot := m_ballot a, m_poll := m_poll a, m_BRC := m_BRC a,
     m_FBRC := m_FBRC a, m_FBalance := m_FBalance a, m_vote_data := m_vote_data a, m_BlockReward := m_BlockReward a,
     m_willChangeList := m_willChangeList a, m_CooikeIncomeNum := m_CooikeIncomeNum a, m_vote_sapshot := m_vote_sapshot a,
     m_couplingSystemFee := m_couplingSystemFee a, m_block_records := m_block_records a,
     m_received_cookies := m_received_cookies a, m_successExchange := sort_key ro_create_time (m_successExchange a),
     m_exChangeOrder := by_trxid (m_exChangeOrder a)\<rparr>) = loaded_base root a"
  by (simp add: loaded_base_def dead_account_def changed_def)

lemma storable_orders:
  assumes "account_storable to_int64 a"
  shows "distinct (map ro_create_time (sort_key ro_create_time (m_successExchange a)))" "trxids_distinct (by_trxid (m_exChangeOrder a))"
  using assms distinct_sort_key by (auto simp: account_storable_def trxids_distinct_def by_trxid_def)

lemma base_reads:
  assumes "account_storable to_int64 a" and "\<And>t. t \<in> set (base_items root a) \<Longrightarrow> rlp_fits t"
  shows "sbind (toVector (toBytes LaissezFaire) (encode (polls_tree (m_vote_data a)))) (read_each (poll_populate to_int64)) = Inr (m_vote_data a)"
    and "rewards_read (encode (rewards_tree (m_BlockReward a))) = Inr (m_BlockReward a)"
    and "toVector (toBytes LaissezFaire) (encode (RList (map RData (m_willChangeList a)))) = Inr (m_willChangeList a)"
    and "snapshot_populate (encode (snapshot_tree (m_vote_sapshot a))) = Inr (m_vote_sapshot a)"
    and "systemfee_unstreamRLP to_int64 (encode (systemfee_tree (m_couplingSystemFee a))) = Inr (m_couplingSystemFee a)"
    and "record_populate to_int64 (encode (record_tree (m_block_records a))) = Inr (m_block_records a)"
    and "received_populate (encode (received_tree (m_received_cookies a))) = Inr (m_received_cookies a)"
    and "initResultOrder to_int64 (encode (results_tree (sort_key ro_create_time (m_successExchange a)))) =
      Inr (sort_key ro_create_time (m_successExchange a))"
    and "initExOrder to_int64 (encode (orders_tree (by_trxid (m_exChangeOrder a)))) = Inr (by_trxid (m_exChangeOrder a))"
proof -
  note ok = assms(1) [unfolded account_storable_def]
  have fits: "rlp_fits (polls_tree (m_vote_data a))" "rlp_fits (rewards_tree (m_BlockReward a))"
    "rlp_fits (RList (map RData (m_willChangeList a)))" "rlp_fits (snapshot_tree (m_vote_sapshot a))"
    "rlp_fits (systemfee_tree (m_couplingSystemFee a))" "rlp_fits (record_tree (m_block_records a))"
    "rlp_fits (received_tree (m_received_cookies a))" "rlp_fits (results_tree (sort_key ro_create_time (m_successExchange a)))"
    "rlp_fits (orders_tree (by_trxid (m_exChangeOrder a)))"
    using assms(2) rlp_fits_blob by (simp_all add: base_items_def)
  show "sbind (toVector (toBytes LaissezFaire) (encode (polls_tree (m_vote_data a)))) (read_each (poll_populate to_int64)) = Inr (m_vote_data a)"
    using ok by (intro read_polls fits) simp
  show "rewards_read (encode (rewards_tree (m_BlockReward a))) = Inr (m_BlockReward a)"
    using ok by (intro rewards_blob.dec_tree fits) simp
  show "toVector (toBytes LaissezFaire) (encode (RList (map RData (m_willChangeList a)))) = Inr (m_willChangeList a)"
    by (intro bytes_codec.vector_items fits) simp
  show "snapshot_populate (encode (snapshot_tree (m_vote_sapshot a))) = Inr (m_vote_sapshot a)"
    using ok by (intro snapshot_blob.dec_tree fits) simp
  show "systemfee_unstreamRLP to_int64 (encode (systemfee_tree (m_couplingSystemFee a))) = Inr (m_couplingSystemFee a)"
    using ok by (intro systemfee_blob.dec_tree fits) simp
  show "record_populate to_int64 (encode (record_tree (m_block_records a))) = Inr (m_block_records a)"
    using ok by (intro record_blob.dec_tree fits) simp
  show "received_populate (encode (received_tree (m_received_cookies a))) = Inr (m_received_cookies a)"
    using ok by (intro received_blob.dec_tree fits) simp
  show "initResultOrder to_int64 (encode (results_tree (sort_key ro_create_time (m_successExchange a)))) =
      Inr (sort_key ro_create_time (m_successExchange a))"
    using ok by (intro resultOrder_read fits storable_orders [OF assms(1)]) simp
  show "initExOrder to_int64 (encode (orders_tree (by_trxid (m_exChangeOrder a)))) = Inr (by_trxid (m_exChangeOrder a))"
    using ok by (intro exOrder_read fits storable_orders [OF assms(1)]) (simp add: by_trxid_def)
qed

lemma with_field_reaches:
  assumes "cache_ok ts nd" and "rlp_fits (RList ts)" and "i < length ts" and "conv (encode (ts ! i)) = Inr x"
    and "\<And>nd'. cache_ok ts nd' \<Longrightarrow> \<exists>nd''. cache_ok ts nd'' \<and> k x nd' = f nd''"
  shows "\<exists>nd''. cache_ok ts nd'' \<and> with_field i conv nd k = f nd''"
proof -
  obtain nd' where "subscript i nd = Inr (encode (ts ! i), nd')" "cache_ok ts nd'"
    using subscript_cache_ok [OF assms(1,3,2)] by blast
  with assms(4,5) show ?thesis by (simp add: with_field_def)
qed

lemma sbind_InrE:
  assumes "sbind m f = Inr y"
  obtains x where "m = Inr x" and "f x = Inr y"
  using assms by (cases m) auto

lemma load_account_base:
  assumes "account_storable to_int64 a" and "rlp_fits (RList (base_items root a @ fs))"
  obtains nd where "cache_ok (base_items root a @ fs) nd"
    and "load_account to_int64 cfg blockNum (encode (RList (base_items root a @ fs))) =
      read_forks cfg blockNum (encode (RList (base_items root a @ fs))) nd (loaded_base root a)"
proof -
  define ts where "ts = base_items root a @ fs"
  have nth: "ts ! 0 = word_item (m_nonce a)" "ts ! Suc 0 = word_item (m_balance a)" "ts ! 2 = hash_item root"
    "ts ! 3 = hash_item (m_codeHash a)" "ts ! 4 = word_item (m_ballot a)" "ts ! 5 = word_item (m_poll a)"
    "ts ! 6 = polls_tree (m_vote_data a)" "ts ! 7 = word_item (m_BRC a)" "ts ! 8 = word_item (m_FBRC a)"
    "ts ! 9 = word_item (m_FBalance a)" "ts ! 10 = RData (encode (rewards_tree (m_BlockReward a)))"
    "ts ! 11 = RList (map RData (m_willChangeList a))" "ts ! 12 = word_item (m_CooikeIncomeNum a)"
    "ts ! 13 = RData (encode (snapshot_tree (m_vote_sapshot a)))"
    "ts ! 14 = RData (encode (systemfee_tree (m_couplingSystemFee a)))"
    "ts ! 15 = RData (encode (record_tree (m_block_records a)))" "ts ! 16 = RData (encode (received_tree (m_received_cookies a)))"
    "ts ! 17 = RData (encode (results_tree (sort_key ro_create_time (m_successExchange a))))"
    "ts ! 18 = RData (encode (orders_tree (by_trxid (m_exChangeOrder a))))"
    by (simp_all add: ts_def base_items_def)
  have len: "i < 19 \<Longrightarrow> i < length ts" for i by (simp add: ts_def length_base_items)
  have fits: "rlp_fits (RList ts)" using assms(2) by (simp add: ts_def)
  have all_fit: "rlp_fits t" if "t \<in> set (base_items root a)" for t
    using rlp_fits_item [OF fits] that by (simp add: ts_def)
  have parts: "rlp_fits (ts ! i)" if "i < 19" for i using rlp_fits_item [OF fits] len [OF that] by simp
  note bytes = toBytes_encode [OF parts [of 10, unfolded nth]] toBytes_encode [OF parts [of 13, unfolded nth]]
    toBytes_encode [OF parts [of 14, unfolded nth]] toBytes_encode [OF parts [of 15, unfolded nth]]
    toBytes_encode [OF parts [of 16, unfolded nth]] toBytes_encode [OF parts [of 17, unfolded nth]]
    toBytes_encode [OF parts [of 18, unfolded nth]]
  note reads = base_reads [OF assms(1) all_fit]
  obtain vals where vals: "toVector (toBytes LaissezFaire) (encode (polls_tree (m_vote_data a))) = Inr vals"
      "read_each (poll_populate to_int64) vals = Inr (m_vote_data a)"
    using reads(1) by (rule sbind_InrE)
  have "\<exists>nd. cache_ok ts nd \<and> load_account to_int64 cfg blockNum (encode (RList ts)) =
      read_forks cfg blockNum (encode (RList ts)) nd (loaded_base root a)"
    unfolding load_account_def RLP_node_encode [OF fits] sbind_Inr
    by (rule with_field_reaches [OF _ fits len], (rule cache_ok_fresh | assumption), simp,
        simp add: nth vals bytes reads field_readers, (simp only: reads vals sbind_Inr)?)+
      (simp only: loaded_base_fields, rule exI, erule conjI, rule refl)
  with that show thesis by (auto simp: ts_def)
qed

lemma read_gasPrice_encode:
  assumes "cache_ok ts nd" and "rlp_fits (RList ts)" and "ts = base_items root a @ fork_items cfg blockNum a" and "om_wf (m_minerGasPrice a)"
  shows "read_gasPrice cfg blockNum (encode (RList ts)) nd b =
    Inr (if blockNum + 1 \<ge> gasPriceHeight cfg then untouch (b\<lparr>m_minerGasPrice := m_minerGasPrice a\<rparr>) else b)"
proof (cases "blockNum + 1 \<ge> gasPriceHeight cfg")
  case True
  with fork_order [of cfg] have ts: "ts = base_items root a @ [RData (encode (mapping_tree (m_mappingAddress a))),
      RData (encode (votes_tree (m_minerGasPrice a)))]"
    by (simp add: assms(3) fork_items_def)
  then have len: "length ts = 21" and at: "ts ! 20 = RData (encode (votes_tree (m_minerGasPrice a)))"
    by (simp_all add: length_base_items nth_append)
  have "ts ! 20 \<in> set ts" using len by simp
  then have fits: "rlp_fits (RData (encode (votes_tree (m_minerGasPrice a))))"
    using rlp_fits_item [OF assms(2)] at by simp
  have "initGasPrice (encode (votes_tree (m_minerGasPrice a))) = Inr (m_minerGasPrice a)"
    unfolding initGasPrice_def by (rule votes.whole.dec_tree [OF rlp_fits_blob [OF fits]]) (simp add: assms(4))
  then have "with_field 20 (toBytes LaissezFaire) nd (\<lambda>b' nd. sbind (initGasPrice b') (\<lambda>m. Inr (untouch (b\<lparr>m_minerGasPrice := m\<rparr>)))) =
      Inr (untouch (b\<lparr>m_minerGasPrice := m_minerGasPrice a\<rparr>))"
    using fits by (intro with_field_encode [OF assms(1,2), where x = "encode (votes_tree (m_minerGasPrice a))"])
      (simp_all add: len at toBytes_encode)
  with True show ?thesis by (simp add: read_gasPrice_def itemCount_encode [OF assms(2)] len)
qed (simp add: read_gasPrice_def)

lemma read_forks_encode:
  assumes "cache_ok ts nd" and "rlp_fits (RList ts)" and "ts = base_items root a @ fork_items cfg blockNum a" and "om_wf (m_minerGasPrice a)"
  shows "read_forks cfg blockNum (encode (RList ts)) nd (loaded_base root a) = Inr (reloaded cfg root blockNum a)"
proof -
  note gas = read_gasPrice_encode [OF _ assms(2,3,4)]
  show ?thesis
  proof (cases "blockNum \<ge> newChangeHeight cfg")
    case True
    then have len: "length ts > 19" and at: "ts ! 19 = RData (encode (mapping_tree (m_mappingAddress a)))"
      by (simp_all add: assms(3) fork_items_def length_base_items nth_append)
    have "rlp_fits (ts ! 19)" using rlp_fits_item [OF assms(2)] len by simp
    then have conv: "toBytes LaissezFaire (encode (ts ! 19)) = Inr (encode (mapping_tree (m_mappingAddress a)))"
      unfolding at by (rule toBytes_encode)
    have "with_field 19 (toBytes LaissezFaire) nd (\<lambda>b nd.
        sbind (populateChangeMiner b (m_mappingAddress (loaded_base root a))) (\<lambda>p.
          read_gasPrice cfg blockNum (encode (RList ts)) nd (loaded_base root a\<lparr>m_mappingAddress := p\<rparr>))) =
        Inr (reloaded cfg root blockNum a)"
    proof (rule with_field_encode [OF assms(1,2) len], rule conv)
      fix nd' assume "cache_ok ts nd'"
      from gas [OF this] True
      show "sbind (populateChangeMiner (encode (mapping_tree (m_mappingAddress a))) (m_mappingAddress (loaded_base root a))) (\<lambda>p.
          read_gasPrice cfg blockNum (encode (RList ts)) nd' (loaded_base root a\<lparr>m_mappingAddress := p\<rparr>)) =
        Inr (reloaded cfg root blockNum a)"
        by (simp add: mapping_read reloaded_def loaded_base_def untouch_def)
    qed
    with True len show ?thesis by (simp add: read_forks_def itemCount_encode [OF assms(2)])
  next
    case False
    with fork_order [of cfg] show ?thesis
      by (simp add: read_forks_def gas [OF assms(1)] reloaded_def loaded_base_def untouch_def)
  qed
qed

section \<open>Properties\<close>

text \<open>
  C28. What an account is after it was committed to the trie and loaded again in the same block, field by
  field. Nonce, amounts, votes, snapshots, records and rewards come back as they were; the storage
  overlay has gone into the storage root. The resting orders come back as the same set, but sorted by
  descending id: orders of one price and one time change their places, and with them their priority in
  the matching. A miner mapping whose first address is zero comes back as two zero addresses, and the
  fields that a fork introduced come back only from the height of that fork on.
\<close>

theorem account_roundtrip:
  assumes "account_storable to_int64 a" and "rlp_fits (account_tree cfg (root a) blockNum a)"
  shows "sbind (commit_account cfg root blockNum a) (load_account to_int64 cfg blockNum) =
    Inr (reloaded cfg (root a) blockNum a)"
proof -
  have fits: "rlp_fits (RList (base_items (root a) a @ fork_items cfg blockNum a))"
    using assms(2) by (simp add: account_tree_def)
  obtain nd where nd: "cache_ok (base_items (root a) a @ fork_items cfg blockNum a) nd"
    and load: "load_account to_int64 cfg blockNum (encode (RList (base_items (root a) a @ fork_items cfg blockNum a))) =
      read_forks cfg blockNum (encode (RList (base_items (root a) a @ fork_items cfg blockNum a))) nd (loaded_base (root a) a)"
    by (rule load_account_base [OF assms(1) fits])
  have "om_wf (m_minerGasPrice a)" using assms(1) by (simp add: account_storable_def)
  from read_forks_encode [OF nd fits refl this] load commit_account_encode [where root = root, OF assms(2)]
  show ?thesis by (simp add: account_tree_def)
qed

definition stored_account :: account where
  "stored_account = (account_nbb 3 500 70)\<lparr>m_isUnchanged := False,
     m_vote_data := [\<lparr>pd_addr = 9, pd_poll = 4, pd_time = 1000\<rparr>], m_BlockReward := [(2, 40)],
     m_vote_sapshot := empty_snapshot\<lparr>vs_voteDataHistory := [(1, [(9, 4)])], vs_pollNumHistory := [(1, 6), (2, 8)]\<rparr>,
     m_block_records := [(7, 900)], m_mappingAddress := (7, 8), m_minerGasPrice := [(7, 30)],
     m_exChangeOrder := [sample_limit_order, sample_limit_order\<lparr>eo_trxid := 78\<rparr>]\<rparr>"

text \<open>Bounds on the size of an encoding, so that concrete items are seen to fit.\<close>

definition bounded :: "rlp_item \<Rightarrow> nat \<Rightarrow> bool" where
  "bounded t n \<longleftrightarrow> (n < 2 ^ 32 \<longrightarrow> length (encode t) \<le> n)"

definition list_bounded :: "rlp_item list \<Rightarrow> nat \<Rightarrow> bool" where
  "list_bounded ts n \<longleftrightarrow> (n < 2 ^ 32 \<longrightarrow> length (concat (map encode ts)) \<le> n)"

lemma bounded_fits: "bounded t n \<and> n < 2 ^ 32 \<Longrightarrow> rlp_fits t"
  by (auto simp: bounded_def rlp_fits_def)

lemma header_bound: "n < 2 ^ 32 \<Longrightarrow> length (header k n) \<le> 5"
proof -
  assume "n < 2 ^ 32"
  then have "bytesRequired n \<le> 4" by (intro bytesRequired_le) simp
  then show ?thesis by (simp add: header_def)
qed

lemma bounded_rules:
  "n < 2 ^ 256 \<Longrightarrow> bounded (enum_item n) 33" "bounded (RData (toBigEndian 20 v)) 33" "bounded (RData (toBigEndian 32 v)) 33"
  "bounded (RData []) 33"
  "bounded t n \<Longrightarrow> bounded (RData (encode t)) (n + 5)" "list_bounded ts n \<Longrightarrow> bounded (RList ts) (n + 5)"
  "list_bounded [] 0" "bounded t n \<Longrightarrow> list_bounded ts m \<Longrightarrow> list_bounded (t # ts) (n + m)"
proof -
  show "bounded t n \<Longrightarrow> bounded (RData (encode t)) (n + 5)"
    using header_bound [of "length (encode t)" 128] by (auto simp: bounded_def encode.simps(1) [of "encode t"])
  show "list_bounded ts n \<Longrightarrow> bounded (RList ts) (n + 5)"
    using header_bound [of "length (concat (map encode ts))" 192] by (auto simp: bounded_def list_bounded_def encode.simps(2))
qed (use length_encode_short compact_length_le in \<open>auto simp: bounded_def list_bounded_def\<close>)

text \<open>Two sell orders of one price and one time: the first to be matched is another one after the reload.\<close>

lemma stored_orders:
  "map eo_trxid (buy_range TK_FUEL 100 (m_exChangeOrder stored_account)) = [77, 78]"
  "map eo_trxid (buy_range TK_FUEL 100 (by_trxid (m_exChangeOrder stored_account))) = [78, 77]"
  by code_simp+

theorem account_roundtrip_witness:
  "\<exists>a. sbind (commit_account default_config m_storageRoot 31000000 stored_account) (load_account saturating_int64 default_config 31000000) =
     Inr a \<and> m_BRC a = 70 \<and> m_mappingAddress a = (7, 8) \<and> m_vote_data a = m_vote_data stored_account \<and>
   map eo_trxid (buy_range TK_FUEL 100 (m_exChangeOrder stored_account)) = [77, 78] \<and>
   map eo_trxid (buy_range TK_FUEL 100 (m_exChangeOrder a)) = [78, 77]"
proof -
  have "\<exists>n. bounded (account_tree default_config (m_storageRoot stored_account) 31000000 stored_account) n \<and> n < 2 ^ 32"
    by (simp only: account_tree_def base_items_def fork_items_def stored_account_def account_nbb_def dead_account_def
        empty_snapshot_def empty_systemfee_def empty_received_def poll_tree_def rewards_tree_def snapshot_tree_def
        systemfee_tree_def record_tree_def received_tree_def mapping_tree_def rounds_tree_def by_trxid_def ex_order_tree_def
        sample_limit_order_def default_config_def newChangeHeight_def gasPriceHeight_def
        amounts_tree_def MAINCHAINID_def TESTCHAINID_def, rule exI, rule conjI, simp, (rule bounded_rules | simp)+)
  then have fits: "rlp_fits (account_tree default_config (m_storageRoot stored_account) 31000000 stored_account)"
    using bounded_fits by blast
  have "account_storable saturating_int64 stored_account"
    by (simp add: account_storable_def stored_account_def account_nbb_def dead_account_def poll_ok_def snapshot_ok_def
        empty_snapshot_def systemfee_ok_def empty_systemfee_def record_ok_def empty_received_def rounds_ok_def om_wf_def
        trxids_distinct_def sample_limit_order_def saturating_int64_def INT64_MAX_def)
  have "newChangeHeight default_config \<le> 31000000" by code_simp
  with account_roundtrip [OF \<open>account_storable saturating_int64 stored_account\<close>, of default_config m_storageRoot, OF fits] stored_orders show ?thesis
    by (simp add: reloaded_def) (simp add: stored_account_def account_nbb_def)
qed

end
