(* ===== verification/ExchangeLaws.thy ===== *)
theory ExchangeLaws
  imports Atomicity
begin

text \<open>
  The properties of the exchange on states: limit orders against their specification, market
  orders, the well-formed and uncrossed book, conservation and atomicity of the operations.
\<close>

section \<open>A sample state\<close>

text \<open>Two accounts with cookies and BRC, and orders they place.\<close>

definition sample_account :: account where
  "sample_account = account_nbb 0 5000000000000000 7000000000000000"

definition sample_state :: chain_state where
  "sample_state = \<lparr>accts = [5 \<mapsto> sample_account, 6 \<mapsto> sample_account], changeLog = [], accountStartNonce = 0\<rparr>"

definition sample_order :: "h256 \<Rightarrow> address \<Rightarrow> order_type \<Rightarrow> order_buy_type \<Rightarrow> u256 \<Rightarrow> u256 \<Rightarrow> ex_order" where
  "sample_order h i t b price n =
     \<lparr>eo_trxid = h, eo_sender = i, eo_price = price, eo_token_amount = n, eo_source_amount = n,
      eo_create_time = 1000, eo_type = t, eo_token_type = TK_FUEL, eo_buy_type = b\<rparr>"

definition sample_op :: "address \<Rightarrow> order_type \<Rightarrow> order_buy_type \<Rightarrow> u256 \<Rightarrow> u256 \<Rightarrow> operation" where
  "sample_op i t b price n =
     Op_pendingorder \<lparr>po_from = i, po_num = n, po_price = price, po_type = t, po_Token_type = TK_FUEL, po_buy_type = b\<rparr>"

text \<open>The state with two resting sell orders, 20 at the price 100 and 30 at the price 110.\<close>

definition sample_book :: ExOrderMulti where
  "sample_book = [sample_order 77 5 sell only_price 100 20, sample_order 78 5 sell only_price 110 30]"

definition sample_market :: chain_state where
  "sample_market = sample_state\<lparr>accts := (accts sample_state)
     (ExdbSystemAddress \<mapsto> (account_ballot 0)\<lparr>m_exChangeOrder := sample_book\<rparr>,
      5 \<mapsto> sample_account\<lparr>m_FBalance := 50\<rparr>)\<rparr>"

section \<open>Market orders\<close>

definition cost :: "result_order \<Rightarrow> nat" where
  "cost r = unat (ro_amount r) * unat (ro_price r)"

text \<open>No product of a resting order's amount and price wraps.\<close>

definition no_wrap :: "ex_order \<Rightarrow> bool" where
  "no_wrap b \<longleftrightarrow> unat (eo_token_amount b) * unat (eo_price b) < 2 ^ 256"

lemma unat_product: "no_wrap b \<Longrightarrow> unat (eo_token_amount b * eo_price b) = unat (eo_token_amount b) * unat (eo_price b)"
  by (simp add: no_wrap_def unat_mult_lem [THEN iffD1])

lemma cost_set_data: "cost (set_data od b n (eo_price b)) = unat n * unat (eo_price b)"
  by (simp add: cost_def set_data_def)

lemma all_price_buy_cost:
  assumes "all_price_buy_loop reset od bs budget result s = (Inr rs, s')" and "\<And>b. b \<in> set bs \<Longrightarrow> no_wrap b"
  shows "\<exists>new. rs = result @ new \<and> sum_list (map cost new) \<le> unat budget"
  using assms
proof (induction reset od bs budget result arbitrary: s rule: all_price_buy_loop.induct)
  case (1 reset od budget result)
  then show ?case by simp
next
  case (2 reset od b rest budget result)
  let ?p = "eo_token_amount b * eo_price b"
  have wrap: "unat ?p = unat (eo_token_amount b) * unat (eo_price b)" using "2.prems"(2) by (simp add: unat_product)
  consider "budget = 0" | "budget > 0" "?p \<le> budget" | "budget > 0" "\<not> ?p \<le> budget" using word_neq_0_conv [of budget] by blast
  then show ?case
  proof cases
    case 2
    from "2.prems"(1) 2 obtain s1 where
      "all_price_buy_loop reset od rest (budget - ?p) (result @ [set_data od b (eo_token_amount b) (eo_price b)]) s1 = (Inr rs, s')"
      by (auto simp: Let_def elim!: ebind_InrE)
    from "2.IH" [OF 2(1) refl 2(2) this] "2.prems"(2) obtain new where
      "rs = (result @ [set_data od b (eo_token_amount b) (eo_price b)]) @ new" "sum_list (map cost new) \<le> unat (budget - ?p)"
      by auto
    with 2(2) wrap show ?thesis
      by (intro exI [of _ "set_data od b (eo_token_amount b) (eo_price b) # new"])
        (simp add: cost_set_data unat_sub word_le_nat_alt)
  next
    case 3
    have "unat (budget div eo_price b) * unat (eo_price b) \<le> unat budget" by (simp add: unat_div)
    with "2.prems"(1) 3 show ?thesis
      by (auto simp: Let_def cost_set_data split: if_splits elim!: ebind_InrE)
  qed (use "2.prems" in auto)
qed

lemma all_price_sell_total:
  assumes "all_price_sell_loop reset od bs n result s = (Inr rs, s')"
  shows "\<exists>new. rs = result @ new \<and> sum_list (map (\<lambda>r. unat (ro_amount r)) new) = min (unat n) (depth bs)"
  using assms
proof (induction reset od bs n result arbitrary: s rule: all_price_sell_loop.induct)
  case (1 reset od n result)
  then show ?case by (simp add: depth_def)
next
  case (2 reset od b rest n result)
  consider "n = 0" | "n > 0" "eo_token_amount b > n" | "n > 0" "\<not> eo_token_amount b > n" using word_neq_0_conv [of n] by blast
  then show ?case
  proof cases
    case 2
    with "2.prems" show ?thesis
      by (auto simp: set_data_def depth_def word_less_nat_alt elim!: ebind_InrE)
  next
    case 3
    from "2.prems" 3 obtain s1 where
      "all_price_sell_loop reset od rest (n - eo_token_amount b) (result @ [set_data od b (eo_token_amount b) (eo_price b)]) s1 = (Inr rs, s')"
      by (auto elim!: ebind_InrE)
    from "2.IH" [OF 3 this] obtain new where
      "rs = (result @ [set_data od b (eo_token_amount b) (eo_price b)]) @ new"
      "sum_list (map (\<lambda>r. unat (ro_amount r)) new) = min (unat (n - eo_token_amount b)) (depth rest)"
      by auto
    with 3 show ?thesis
      by (intro exI [of _ "set_data od b (eo_token_amount b) (eo_price b) # new"])
        (auto simp: depth_def set_data_def unat_sub word_le_nat_alt word_less_nat_alt min_def)
  qed (use "2.prems" in auto)
qed

lemma getExOrderE:
  assumes "ebind getExOrder f s = (Inr x, s')"
  obtains s1 where "f (book s) s1 = (Inr x, s')" and "book s1 = book s"
proof -
  obtain s1 where "getExOrder s = (Inr (book s), s1)" "book s1 = book s" using getExOrder_book [of s] by blast
  with assms that show thesis by (simp add: ebind_def)
qed

lemma buy_range_subset: "set (buy_range t p m) \<subseteq> set m"
  by (auto simp: buy_range_filter)

lemma market_buy_cost:
  assumes "eo_buy_type od = all_price" and "eo_type od = buy" and "\<And>b. b \<in> set (book s) \<Longrightarrow> no_wrap b"
    and "insert_operation od reset s = (Inr rs, s')"
  shows "sum_list (map cost rs) \<le> unat (eo_price od)"
proof -
  from assms(4) obtain s1 where
      run: "all_price_buy_loop reset od (buy_range (eo_token_type od) (-1) (book s)) (eo_price od) [] s1 = (Inr rs, s')"
    unfolding insert_operation_def get_buy_itr_def using assms(1,2)
    by (auto split: if_splits elim!: ebind_InrE getExOrderE)
  have "\<And>b. b \<in> set (buy_range (eo_token_type od) (-1) (book s)) \<Longrightarrow> no_wrap b"
    using assms(3) buy_range_subset by blast
  from all_price_buy_cost [OF run this] show ?thesis by auto
qed

lemma market_sell_total:
  assumes "eo_buy_type od = all_price" and "eo_type od = sell" and "insert_operation od reset s = (Inr rs, s')"
  shows "sum_list (map (\<lambda>r. unat (ro_amount r)) rs) =
    min (unat (eo_token_amount od)) (depth (sell_range (eo_token_type od) 0 (book s)))"
proof -
  from assms(3) obtain s1 where
      run: "all_price_sell_loop reset od (sell_range (eo_token_type od) 0 (book s)) (eo_token_amount od) [] s1 = (Inr rs, s')"
    unfolding insert_operation_def get_sell_itr_def using assms(1,2)
    by (auto split: if_splits elim!: ebind_InrE getExOrderE)
  from all_price_sell_total [OF run] show ?thesis by auto
qed

section \<open>Sequences of transactions\<close>

text \<open>
  A step is the body of one operation of the exchange with the rollback of \<^verbatim>\<open>executeTransaction\<close>; it
  ends normally or with an exception of the program and the rollback. The gas that the executive buys
  before the body and settles after it (\<^verbatim>\<open>initialize\<close>, \<^verbatim>\<open>finalize\<close>) is not part of a step: it moves
  cookies from the sender to the income of the miner.
\<close>

definition settled :: "exn + 'a \<Rightarrow> bool" where
  "settled r \<longleftrightarrow> (case r of Inl e \<Rightarrow> is_dev_exception e | Inr _ \<Rightarrow> True)"

inductive exchange_step :: "(bytes \<Rightarrow> h256) \<Rightarrow> config \<Rightarrow> chain_state \<Rightarrow> chain_state \<Rightarrow> bool" for sha3 cfg where
  place: "executeTransaction sha3 (pendingOrders sha3 cfg fuel addr nowTime hash ops blockNum) s = (r, s') \<Longrightarrow>
    settled r \<Longrightarrow> exchange_step sha3 cfg s s'"
| cancel: "executeTransaction sha3 (cancelPendingOrders ops) s = (r, s') \<Longrightarrow> settled r \<Longrightarrow> exchange_step sha3 cfg s s'"
| auto_exchange: "executeTransaction sha3 (transferAutoEx sha3 cfg fuel ops trxid t gas blockNum) s = (r, s') \<Longrightarrow>
    settled r \<Longrightarrow> exchange_step sha3 cfg s s'"

lemma executeTransaction_Inr: "executeTransaction sha3 body s = (Inr x, s') \<Longrightarrow> body s = (Inr x, s')"
  by (auto simp: executeTransaction_def Let_def split: prod.splits sum.splits if_splits)

lemma same_state_amounts:
  assumes "same_state trie s' s" and "\<And>a. f (observe trie a) = f a"
  shows "amount_of f s' = amount_of f s"
proof
  fix i
  have "map_option (observe trie) (accts s' i) = map_option (observe trie) (accts s i)"
    using assms(1) by (auto simp: same_state_def dest: same_acctsD)
  then have "map_option f (accts s' i) = map_option f (accts s i)"
    using assms(2) by (metis (no_types, lifting) option.map_comp comp_apply option.map_cong0)
  then show "amount_of f s' i = amount_of f s i"
    by (auto simp: amount_of_def split: option.splits)
qed

lemma same_state_book: "same_state trie s' s \<Longrightarrow> book s' = book s"
proof -
  assume "same_state trie s' s"
  then have "map_option (observe trie) (accts s' ExdbSystemAddress) = map_option (observe trie) (accts s ExdbSystemAddress)"
    by (auto simp: same_state_def dest: same_acctsD)
  then have "map_option (m_exChangeOrder \<circ> observe trie) (accts s' ExdbSystemAddress) =
      map_option (m_exChangeOrder \<circ> observe trie) (accts s ExdbSystemAddress)"
    by (metis option.map_comp)
  then show ?thesis by (auto simp: book_def observe_def split: option.splits)
qed

text \<open>What a transaction of the exchange keeps, whether it succeeds or is rolled back.\<close>

lemma transaction_conserves:
  assumes run: "executeTransaction sha3 body s = (r, s')" and "settled r"
    and restores: "keeps (restorable sha3 (\<lambda>_ _. 0)) body" and money: "adds f 0 body" and wf: "keeps book_wf_kept body"
    and view: "\<And>a. f (observe (\<lambda>_ _. 0) a) = f a"
  shows "grand_total f s' = grand_total f s \<and> (trxids_distinct (book s) \<longrightarrow> trxids_distinct (book s'))"
proof (cases r)
  case (Inl e)
  have "same_state (\<lambda>_ _. 0) s' s"
    using executeTransaction_restores [OF restores] run assms(2) by (auto simp: Inl settled_def)
  with same_state_amounts [where f = f, OF this view] same_state_book show ?thesis by (simp add: grand_total_def)
next
  case (Inr x)
  with run executeTransaction_Inr [of sha3 body s x s'] have body: "body s = (Inr x, s')" by simp
  from addsD [OF money body] keepsD [OF wf, of s] body show ?thesis by (simp add: book_wf_kept_def)
qed

lemma observe_supply: "brc_of (observe trie a) = brc_of a" "cookie_of (observe trie a) = cookie_of a"
  by (simp_all add: brc_of_def cookie_of_def observe_def)

lemma exchange_step_brc:
  "exchange_step sha3 cfg s s' \<Longrightarrow>
   grand_total brc_of s' = grand_total brc_of s \<and> (trxids_distinct (book s) \<longrightarrow> trxids_distinct (book s'))"
proof (induction rule: exchange_step.induct)
  case place
  then show ?case
    by (rule transaction_conserves) (rule restoring.pendingOrders brc_supply.pendingOrders book_wf.pendingOrders observe_supply)+
next
  case cancel
  then show ?case
    by (rule transaction_conserves)
      (rule restoring.cancelPendingOrders brc_supply.cancelPendingOrders book_wf.cancelPendingOrders observe_supply)+
next
  case auto_exchange
  then show ?case
    by (rule transaction_conserves) (rule restoring.transferAutoEx brc_supply.transferAutoEx book_wf.transferAutoEx observe_supply)+
qed

lemma exchange_step_cookie:
  "exchange_step sha3 cfg s s' \<Longrightarrow>
   grand_total cookie_of s' = grand_total cookie_of s \<and> (trxids_distinct (book s) \<longrightarrow> trxids_distinct (book s'))"
proof (induction rule: exchange_step.induct)
  case place
  then show ?case
    by (rule transaction_conserves) (rule restoring.pendingOrders cookie_supply.pendingOrders book_wf.pendingOrders observe_supply)+
next
  case cancel
  then show ?case
    by (rule transaction_conserves)
      (rule restoring.cancelPendingOrders cookie_supply.cancelPendingOrders book_wf.cancelPendingOrders observe_supply)+
next
  case auto_exchange
  then show ?case
    by (rule transaction_conserves) (rule restoring.transferAutoEx cookie_supply.transferAutoEx book_wf.transferAutoEx observe_supply)+
qed

section \<open>Properties\<close>

lemmas sample_defs = sample_market_def sample_state_def sample_account_def sample_book_def sample_order_def

lemma sample_market_book: "book sample_market = sample_book"
  by (simp add: book_def sample_market_def ExdbSystemAddress_def)

lemma sample_book_facts: "trxids_distinct sample_book" "\<forall>x\<in>set sample_book. valid_time x" "uncrossed (set sample_book)"
  by (simp_all add: trxids_distinct_def sample_book_def sample_order_def valid_time_def INT64_MAX_def uncrossed_def)

text \<open>
  C2. A transaction that places orders and fails with an exception, at whatever point, leaves the
  observable state as it was: the rollback undoes every transfer, freeze and write to the book.
\<close>

theorem pendingOrders_atomic:
  assumes "executeTransaction sha3 (pendingOrders sha3 cfg fuel addr nowTime hash ops blockNum) s = (Inl e, s')"
    and "is_dev_exception e"
  shows "same_state trie s' s"
  using restoring.pendingOrders assms by (rule executeTransaction_restores)

definition sample_failing :: "(exn + (u256 \<times> u256)) \<times> chain_state" where
  "sample_failing = executeTransaction (\<lambda>_. 0) (pendingOrders (\<lambda>_. 0) default_config 3 6 1001 79
     [sample_op 6 buy only_price 105 20, sample_op 6 sell all_price 0 7] 10) sample_market"

theorem pendingOrders_atomic_witness:
  "fst sample_failing = Inl pendingorderAllPriceFiled \<and> same_state (\<lambda>_ _. 0) (snd sample_failing) sample_market"
proof -
  have "fst sample_failing = Inl pendingorderAllPriceFiled" by code_simp
  moreover have "is_dev_exception pendingorderAllPriceFiled" by (simp add: is_dev_exception_def)
  ultimately show ?thesis
    using pendingOrders_atomic [of "\<lambda>_. 0" default_config 3 6 1001 79
        "[sample_op 6 buy only_price 105 20, sample_op 6 sell all_price 0 7]" 10 sample_market]
    by (metis prod.collapse sample_failing_def)
qed

text \<open>
  C3. Placing orders neither creates nor destroys money: the sum over all accounts of free and frozen
  BRC, and the one of free and frozen cookies, are what they were, fees included.
\<close>

theorem pendingOrders_conserves:
  assumes "pendingOrders sha3 cfg fuel addr nowTime hash ops blockNum s = (Inr x, s')"
  shows "grand_total brc_of s' = grand_total brc_of s \<and> grand_total cookie_of s' = grand_total cookie_of s"
  using addsD [OF brc_supply.pendingOrders assms] addsD [OF cookie_supply.pendingOrders assms] by simp

definition sample_placed :: "(exn + (u256 \<times> u256)) \<times> chain_state" where
  "sample_placed = pendingOrders (\<lambda>_. 0) default_config 3 6 1001 79 [sample_op 6 buy only_price 105 30] 10 sample_market"

theorem pendingOrders_conserves_witness:
  "fst sample_placed = Inr (0, 0) \<and> grand_total brc_of (snd sample_placed) = grand_total brc_of sample_market \<and>
   grand_total cookie_of (snd sample_placed) = grand_total cookie_of sample_market"
proof -
  have "fst sample_placed = Inr (0, 0)" by code_simp
  then show ?thesis
    using pendingOrders_conserves [of "\<lambda>_. 0" default_config 3 6 1001 79 "[sample_op 6 buy only_price 105 30]" 10 sample_market]
    by (metis prod.collapse sample_placed_def)
qed

text \<open>
  C27. However the operations that place orders, cancel orders and transfer with automatic exchange
  follow one another, failed and rolled back ones included, they themselves never change the total of
  BRC or the total of cookies, and no two resting orders ever share a transaction id. The gas paid for
  the transactions around them is left out: it does change the total of cookies.
\<close>

theorem exchange_run_invariant:
  assumes "(exchange_step sha3 cfg)\<^sup>*\<^sup>* s s'" and "trxids_distinct (book s)"
  shows "grand_total brc_of s' = grand_total brc_of s \<and> grand_total cookie_of s' = grand_total cookie_of s \<and>
    trxids_distinct (book s')"
  using assms
proof (induction rule: rtranclp_induct)
  case (step t u)
  with exchange_step_brc [OF step.hyps(2)] exchange_step_cookie [OF step.hyps(2)] show ?case by simp
qed simp

theorem exchange_run_invariant_witness:
  "(exchange_step (\<lambda>_. 0) default_config)\<^sup>*\<^sup>* sample_market (snd sample_failing) \<and>
   grand_total brc_of (snd sample_failing) = grand_total brc_of sample_market"
proof -
  have "fst sample_failing = Inl pendingorderAllPriceFiled" by code_simp
  then have "settled (fst sample_failing)" by (simp add: settled_def is_dev_exception_def)
  then have "exchange_step (\<lambda>_. 0) default_config sample_market (snd sample_failing)"
    by (intro exchange_step.place [where r = "fst sample_failing"]) (simp_all add: sample_failing_def)
  then have run: "(exchange_step (\<lambda>_. 0) default_config)\<^sup>*\<^sup>* sample_market (snd sample_failing)" by blast
  with exchange_run_invariant [OF run] sample_book_facts(1) show ?thesis by (simp add: sample_market_book)
qed

subsection \<open>Limit orders\<close>

lemma getExOrder_accts:
  "getExOrder s = (Inr m, s') \<Longrightarrow> i \<noteq> ExdbSystemAddress \<Longrightarrow> accts s' i = accts s i"
  by (auto simp: getExOrder_def run_simps split: option.splits)

lemma book_update_accts: "book_update s m s' \<Longrightarrow> i \<noteq> ExdbSystemAddress \<Longrightarrow> accts s' i = accts s i"
  by (auto simp: book_update_def)

lemma limit_order_run:
  assumes "trxids_distinct (book s)" and "eo_buy_type od = only_price" and "eo_token_amount od \<noteq> 0 \<or> eo_price od \<noteq> 0"
    and "fills_whole od (book s)"
  obtains s' where "insert_operation od False s = (Inr (fst (spec_limit (limit_range od (book s)) od (book s))), s')"
    and "book s' = snd (spec_limit (limit_range od (book s)) od (book s))"
    and "\<And>i. i \<noteq> ExdbSystemAddress \<Longrightarrow> accts s' i = accts s i"
proof -
  from insert_limit_book [OF assms] obtain s0 s' where s0: "getExOrder s = (Inr (book s), s0)"
    and run: "insert_operation od False s = (Inr (fst (spec_limit (limit_range od (book s)) od (book s))), s')"
    and upd: "book_update s0 (snd (spec_limit (limit_range od (book s)) od (book s))) s'"
    by blast
  have "accts s' i = accts s i" if "i \<noteq> ExdbSystemAddress" for i
    using getExOrder_accts [OF s0 that] book_update_accts [OF upd that] by simp
  with run book_update_book [OF upd] show thesis by (rule that)
qed

text \<open>An insertion that returns filled every resting order it met.\<close>

lemma limit_order_returned:
  assumes "trxids_distinct (book s)" and "eo_buy_type od = only_price" and "insert_operation od False s = (Inr rs, s')"
  shows "rs = fst (spec_limit (limit_range od (book s)) od (book s))"
    and "book s' = snd (spec_limit (limit_range od (book s)) od (book s))"
proof -
  have "eo_token_amount od \<noteq> 0 \<or> eo_price od \<noteq> 0" using assms(3) by (auto simp: insert_operation_def split: if_splits)
  moreover from this insert_limit_undefined [OF assms(2)] assms(3) have "fills_whole od (book s)" by fastforce
  ultimately show "rs = fst (spec_limit (limit_range od (book s)) od (book s))"
    and "book s' = snd (spec_limit (limit_range od (book s)) od (book s))"
    using limit_order_run [OF assms(1,2)] assms(3) by (metis prod.inject sum.inject(2))+
qed

text \<open>
  C1. What inserting a limit order does, in every case. When each match fills the resting order it
  meets, the insertion returns and does what the specification of matching says: the order takes from
  the crossing orders in sequence until it is filled, filled orders leave the book, an unfilled
  remainder rests, and no other account changes. When the last match would fill its resting order
  only in part, the insertion reads an erased element of the container and is undefined.
\<close>

theorem limit_order_refines:
  assumes "trxids_distinct (book s)" and "eo_buy_type od = only_price" and "eo_token_amount od \<noteq> 0 \<or> eo_price od \<noteq> 0"
  shows "\<exists>s'. if fills_whole od (book s)
    then insert_operation od False s = (Inr (fst (spec_limit (limit_range od (book s)) od (book s))), s') \<and>
      book s' = snd (spec_limit (limit_range od (book s)) od (book s)) \<and>
      (\<forall>i. i = ExdbSystemAddress \<or> accts s' i = accts s i)
    else insert_operation od False s = (Inl UndefinedBehaviour, s')"
proof (cases "fills_whole od (book s)")
  case True
  with assms show ?thesis by (elim limit_order_run) auto
next
  case False
  with insert_limit_undefined [OF assms(2,3)] show ?thesis by simp
qed

definition sample_buy :: ex_order where
  "sample_buy = sample_order 79 6 buy only_price 105 30"

text \<open>The first order of the sample book is filled and 10 of 30 rest; 7 would fill it only in part.\<close>

theorem limit_order_refines_witness:
  "(\<exists>s'. insert_operation sample_buy False sample_market =
      (Inr (fst (spec_limit (limit_range sample_buy sample_book) sample_buy sample_book)), s') \<and>
    book s' = snd (spec_limit (limit_range sample_buy sample_book) sample_buy sample_book) \<and>
    (\<forall>i. i = ExdbSystemAddress \<or> accts s' i = accts sample_market i)) \<and>
   (\<exists>s'. insert_operation (sample_order 79 6 buy only_price 105 7) False sample_market = (Inl UndefinedBehaviour, s'))"
proof -
  have "fills_whole sample_buy sample_book" "\<not> fills_whole (sample_order 79 6 buy only_price 105 7) sample_book"
    by code_simp+
  with limit_order_refines [of sample_market sample_buy]
    limit_order_refines [of sample_market "sample_order 79 6 buy only_price 105 7"] sample_book_facts(1)
  show ?thesis by (simp add: sample_market_book sample_buy_def sample_order_def)
qed

text \<open>
  Limit orders keep the book uncrossed: when no resting buy order is at or above the price of a
  resting sell order, none is after the insertion either.
\<close>

lemma limit_order_uncrossed:
  assumes "trxids_distinct (book s)" and "uncrossed (set (book s))" and "\<forall>x\<in>set (book s). valid_time x"
    and "eo_buy_type od = only_price" and "eo_type od = buy \<or> eo_type od = sell"
    and "insert_operation od False s = (Inr rs, s')"
  shows "uncrossed (set (book s'))"
proof -
  have "book s' = snd (spec_limit (limit_range od (book s)) od (book s))"
    using assms(1,4,6) by (rule limit_order_returned(2))
  with spec_limit_uncrossed [OF assms(1,2) _ assms(5)] assms(3) show ?thesis by simp
qed

text \<open>
  The quantities of a limit order: what its matches add up to is its size, or all that the crossing
  orders offer when that is less.
\<close>

lemma limit_order_quantity:
  assumes "trxids_distinct (book s)" and "eo_buy_type od = only_price" and "insert_operation od False s = (Inr rs, s')"
  shows "sum_list (map (\<lambda>r. unat (ro_amount r)) rs) = min (unat (eo_source_amount od)) (depth (limit_range od (book s)))"
proof -
  have "rs = fst (spec_limit (limit_range od (book s)) od (book s))" using assms by (rule limit_order_returned(1))
  then show ?thesis by (simp add: spec_limit_def Let_def limit_results_total del: map_map)
qed

text \<open>
  Price-time priority: the orders a limit order meets are an initial part of the crossing orders,
  best price first and, at one price, oldest first; every match is at a price within the limit.
\<close>

lemma limit_order_priority:
  assumes "trxids_distinct (book s)" and "\<forall>x\<in>set (book s). valid_time x" and "eo_buy_type od = only_price"
    and "insert_operation od False s = (Inr rs, s')"
  shows "\<exists>k. map ro_to_trxid rs = map eo_trxid (take k (limit_range od (book s))) \<and>
    sorted_wrt (better (eo_type od)) (limit_range od (book s)) \<and> (\<forall>r\<in>set rs. within_limit od r)"
proof -
  have rs: "rs = fst (spec_limit (limit_range od (book s)) od (book s))"
    using assms(1,3,4) by (rule limit_order_returned(1))
  let ?fs = "fills (unat (eo_source_amount od)) (limit_range od (book s))"
  obtain k where k: "map fst ?fs = take k (limit_range od (book s))" using fills_prefix by blast
  have "map ro_to_trxid rs = map eo_trxid (map fst ?fs)"
    by (simp add: rs spec_limit_def Let_def limit_result_def set_data_def)
  moreover have "\<forall>r\<in>set rs. within_limit od r" using limit_results_within assms(2) rs by blast
  ultimately show ?thesis using k limit_range_sorted by metis
qed

subsection \<open>Market orders\<close>

text \<open>
  C30. A market buy order never spends more than its budget: amount times price, summed over its
  matches, is at most the price field of the order, provided the worth of no resting order wraps.
\<close>

theorem market_buy_within_budget:
  assumes "eo_buy_type od = all_price" and "eo_type od = buy" and "\<forall>b\<in>set (book s). no_wrap b"
    and "insert_operation od reset s = (Inr rs, s')"
  shows "sum_list (map cost rs) \<le> unat (eo_price od)"
  using assms by (intro market_buy_cost) auto

definition sample_market_buy :: "(exn + result_order list) \<times> chain_state" where
  "sample_market_buy = insert_operation ((sample_order 79 6 buy all_price 2500 0)) False sample_market"

theorem market_buy_within_budget_witness:
  "\<exists>rs. fst sample_market_buy = Inr rs \<and> map cost rs = [2000, 440] \<and> sum_list (map cost rs) \<le> 2500"
proof -
  have v: "(case fst sample_market_buy of Inr rs \<Rightarrow> map cost rs | _ \<Rightarrow> []) = [2000, 440]" by code_simp
  then obtain rs where rs: "fst sample_market_buy = Inr rs" "map cost rs = [2000, 440]"
    by (cases "fst sample_market_buy") auto
  have "sum_list (map cost rs) \<le> unat (eo_price (sample_order 79 6 buy all_price 2500 0))"
  proof (rule market_buy_within_budget)
    show "insert_operation (sample_order 79 6 buy all_price 2500 0) False sample_market = (Inr rs, snd sample_market_buy)"
      using rs(1) by (metis prod.collapse sample_market_buy_def)
    show "\<forall>b\<in>set (book sample_market). no_wrap b"
      by (simp add: sample_market_book sample_book_def sample_order_def no_wrap_def)
  qed (simp_all add: sample_order_def)
  with rs show ?thesis by (simp add: sample_order_def)
qed

text \<open>
  A market sell order sells its whole amount, or everything the resting buy orders take when that
  is less.
\<close>

lemma market_sell_quantity:
  assumes "eo_buy_type od = all_price" and "eo_type od = sell" and "insert_operation od reset s = (Inr rs, s')"
  shows "sum_list (map (\<lambda>r. unat (ro_amount r)) rs) =
    min (unat (eo_token_amount od)) (depth (sell_range (eo_token_type od) 0 (book s)))"
  using assms by (rule market_sell_total)

definition sample_sell_market :: chain_state where
  "sample_sell_market = sample_market\<lparr>accts := (accts sample_market)
     (ExdbSystemAddress \<mapsto> (account_ballot 0)\<lparr>m_exChangeOrder := [sample_order 80 6 buy only_price 95 9]\<rparr>)\<rparr>"

subsection \<open>Cancellation and automatic exchange\<close>

text \<open>
  A transaction that cancels orders and fails leaves the observable state as it was.
\<close>

lemma cancelPendingOrders_atomic:
  assumes "executeTransaction sha3 (cancelPendingOrders ops) s = (Inl e, s')" and "is_dev_exception e"
  shows "same_state trie s' s"
  using restoring.cancelPendingOrders assms by (rule executeTransaction_restores)

definition sample_cancel :: "(exn + unit) \<times> chain_state" where
  "sample_cancel = executeTransaction (\<lambda>_. 0) (cancelPendingOrders [Op_cancelPendingorder 3 77, Op_cancelPendingorder 3 99]) sample_market"

text \<open>
  C31. A transfer with automatic exchange that fails, in the exchange or in the transfer after it,
  leaves the observable state as it was; one that succeeds keeps the totals of BRC and cookies.
\<close>

theorem transferAutoEx_atomic_conserves:
  assumes "executeTransaction sha3 (transferAutoEx sha3 cfg fuel ops trxid t gas n) s = (r, s')" and "settled r"
  shows "(case r of Inl _ \<Rightarrow> same_state trie s' s
          | Inr _ \<Rightarrow> grand_total brc_of s' = grand_total brc_of s \<and> grand_total cookie_of s' = grand_total cookie_of s)"
proof (cases r)
  case (Inl e)
  with assms show ?thesis
    using executeTransaction_restores [OF restoring.transferAutoEx] by (auto simp: settled_def)
next
  case (Inr x)
  with assms(1) executeTransaction_Inr [of sha3 "transferAutoEx sha3 cfg fuel ops trxid t gas n" s x s']
  have run: "transferAutoEx sha3 cfg fuel ops trxid t gas n s = (Inr x, s')" by simp
  from addsD [OF brc_supply.transferAutoEx run] addsD [OF cookie_supply.transferAutoEx run] Inr show ?thesis by simp
qed

definition sample_autoEx :: "(exn + unit) \<times> chain_state" where
  "sample_autoEx = executeTransaction (\<lambda>_. 0) (transferAutoEx (\<lambda>_. 0) default_config 3
     [Op_transferAutoEx \<lparr>ta_autoExType = 1, ta_autoExNum = 1, ta_transferNum = 8000000000000000,
        ta_from = 6, ta_to = 5\<rparr>] 90 1002 0 10) sample_market"

theorem transferAutoEx_atomic_conserves_witness:
  "fst sample_autoEx = Inl NotEnoughCash \<and> same_state (\<lambda>_ _. 0) (snd sample_autoEx) sample_market"
proof -
  have "fst (transferAutoEx (\<lambda>_. 0) default_config 3
      [Op_transferAutoEx \<lparr>ta_autoExType = 1, ta_autoExNum = 1, ta_transferNum = 8000000000000000,
        ta_from = 6, ta_to = 5\<rparr>] 90 1002 0 10 sample_market) = Inl NotEnoughCash"
    by code_simp
  then have fail: "fst sample_autoEx = Inl NotEnoughCash"
    unfolding sample_autoEx_def by (rule executeTransaction_fails [OF restoring.transferAutoEx]) (simp add: is_dev_exception_def)
  then have ok: "settled (fst sample_autoEx)" by (simp add: settled_def is_dev_exception_def)
  have "sample_autoEx = (fst sample_autoEx, snd sample_autoEx)" by simp
  from transferAutoEx_atomic_conserves [OF this [unfolded sample_autoEx_def] ok [unfolded sample_autoEx_def], of "\<lambda>_ _. 0"]
  show ?thesis using fail by (simp add: sample_autoEx_def)
qed

end
