(* ===== verification/AutoOrders.thy ===== *)
theory AutoOrders
  imports ExchangeLaws
begin

text \<open>
  The recursion of \<^verbatim>\<open>State::systemAutoPendingOrder\<close> ends. The system buys below the price at which it
  sells, so the remainder of its own orders never meets its next orders; every match therefore uses
  up part of the orders that cross the system's prices. What is left of them bounds the depth of the
  recursion, and with it the fuel of the model: beyond the bound, more fuel changes nothing.
\<close>

section \<open>Operations that never run out of fuel\<close>

definition always_ends :: "'a st \<Rightarrow> bool" where
  "always_ends m \<longleftrightarrow> (\<forall>s. fst (m s) \<noteq> Inl NonTermination)"

lemma always_endsD: "always_ends m \<Longrightarrow> fst (m s) \<noteq> Inl NonTermination"
  by (simp add: always_ends_def)

lemma always_ends_basic:
  "always_ends (ereturn x)" "always_ends (Pair (Inr x))" "always_ends (egets f)" "always_ends (upd_account i g)" "always_ends (log_change c)"
  "always_ends (get_account i)" "always_ends (emodify h)" "e \<noteq> NonTermination \<Longrightarrow> always_ends (ethrow e)"
  by (auto simp: always_ends_def run_simps split: option.splits)

lemma always_ends_ebind: "always_ends m \<Longrightarrow> (\<And>x. always_ends (f x)) \<Longrightarrow> always_ends (ebind m f)"
  by (auto simp: always_ends_def ebind_def split: prod.splits sum.splits) (metis fst_conv)+

lemma always_ends_cases:
  "(b \<Longrightarrow> always_ends m) \<Longrightarrow> (\<not> b \<Longrightarrow> always_ends n) \<Longrightarrow> always_ends (if b then m else n)"
  "(b \<Longrightarrow> always_ends u) \<Longrightarrow> always_ends (ewhen b u)"
  "(o' = None \<Longrightarrow> always_ends m) \<Longrightarrow> (\<And>y. o' = Some y \<Longrightarrow> always_ends (g y)) \<Longrightarrow>
   always_ends (case o' of None \<Rightarrow> m | Some y \<Rightarrow> g y)"
  "(\<And>a b. p = (a, b) \<Longrightarrow> always_ends (k a b)) \<Longrightarrow> always_ends (case p of (a, b) \<Rightarrow> k a b)"
  by (auto simp: always_ends_def split: option.splits prod.splits)

lemma always_ends_efold: "(\<And>x acc. always_ends (f x acc)) \<Longrightarrow> always_ends (efold f xs acc)"
  by (induction xs arbitrary: acc) (auto intro: always_ends_basic always_ends_ebind)

lemmas always_ends_rules = always_ends_basic always_ends_ebind always_ends_cases always_ends_efold

lemma always_ends_amounts:
  "always_ends (addBRC i x)" "always_ends (addBalance i x)" "always_ends (addFBRC i x)" "always_ends (addFBalance i x)"
  "always_ends (createAccount i a)"
  unfolding addBRC_def addBalance_def addFBRC_def addFBalance_def createAccount_def requireAccountStartNonce_def
    touch_if_empty_def eseq.simps
  by (intro always_ends_rules | simp)+

lemma always_ends_subtract:
  "always_ends (subBRC i x)" "always_ends (subBalance i x)" "always_ends (subFBRC i x)" "always_ends (subFBalance i x)"
  unfolding subBRC_def subBalance_def subFBRC_def subFBalance_def
  by (intro always_ends_rules always_ends_amounts | simp)+

lemma always_ends_transfer: "always_ends (transfer_result r)"
  unfolding transfer_result_def pendingOrderTransfer_def Let_def eseq.simps
  by (intro always_ends_rules always_ends_amounts always_ends_subtract)

lemma always_ends_freeze: "always_ends (freezeBRC i x)" "always_ends (freezeBalance i x)"
  unfolding freezeBRC_def freezeBalance_def eseq.simps
  by (intro always_ends_rules always_ends_amounts always_ends_subtract)+

section \<open>What the system can still match\<close>

definition system_order :: "ex_order \<Rightarrow> bool" where
  "system_order od \<longleftrightarrow> eo_token_type od = TK_FUEL \<and> eo_buy_type od = only_price \<and>
     (eo_type od = buy \<and> eo_price od = BUYCOOKIE \<or> eo_type od = sell \<and> eo_price od = SELLCOOKIE)"

definition meets_system :: "ex_order \<Rightarrow> bool" where
  "meets_system x \<longleftrightarrow> eo_token_type x = TK_FUEL \<and>
     (eo_type x = sell \<and> eo_price x \<le> BUYCOOKIE \<or> eo_type x = buy \<and> SELLCOOKIE \<le> eo_price x)"

definition exposure :: "ex_order set \<Rightarrow> nat" where
  "exposure B = (\<Sum>x | x \<in> B \<and> meets_system x. Suc (amount x))"

lemma system_apart: "system_order od \<Longrightarrow> \<not> meets_system od"
  by (auto simp: system_order_def meets_system_def BUYCOOKIE_def SELLCOOKIE_def)

lemma exposure_mono: "finite B \<Longrightarrow> A \<subseteq> B \<Longrightarrow> exposure A \<le> exposure B"
  unfolding exposure_def by (intro sum_mono2) auto

lemma exposure_insert: "\<not> meets_system od \<Longrightarrow> exposure (insert od A) = exposure A"
  unfolding exposure_def by (intro sum.cong) auto

lemma exposure_put:
  assumes "trxids_distinct m" and "\<not> meets_system od"
  shows "exposure (set (book_put od m)) \<le> exposure (set m)"
proof -
  have "exposure (set (book_put od m)) = exposure {x \<in> set m. eo_trxid x \<noteq> eo_trxid od}"
    by (simp add: set_book_put [OF assms(1)] exposure_insert [OF assms(2)])
  also have "\<dots> \<le> exposure (set m)" by (rule exposure_mono) auto
  finally show ?thesis .
qed

lemma range_meets_system:
  assumes "system_order od" and "x \<in> set (limit_range od m)"
  shows "meets_system x"
  using assms by (auto simp: system_order_def meets_system_def limit_range_def mem_buy_range mem_sell_range
      less_eq_prod_def word_le_def less_imp_le split: if_splits)

lemma fills_partial_pos: "f \<in> set (fills n bs) \<Longrightarrow> \<not> is_full f \<Longrightarrow> 0 < snd f"
  by (induction bs arbitrary: n) (auto simp: is_full_def split: if_splits)

lemma amount_reduce: "snd f \<le> amount (fst f) \<Longrightarrow> amount (reduce f) = amount (fst f) - snd f"
proof -
  assume le: "snd f \<le> amount (fst f)"
  then have "snd f < 2 ^ LENGTH(256)" using unsigned_less by (rule le_less_trans)
  then have "unat (of_nat (snd f) :: u256) = snd f" by (rule unat_of_nat_small)
  with le show ?thesis by (simp add: reduce_def unat_sub word_le_nat_alt)
qed

text \<open>Filling orders that the system meets uses them up: each result counts for at least one.\<close>

lemma exposure_reduced:
  assumes "distinct (map fill_id fs)" and "\<And>f. f \<in> set fs \<Longrightarrow> snd f \<le> amount (fst f)"
    and "\<And>f. f \<in> set fs \<Longrightarrow> \<not> is_full f \<Longrightarrow> 0 < snd f"
  shows "exposure (reduce ` {f \<in> set fs. \<not> is_full f}) \<le> (\<Sum>f\<in>set fs. amount (fst f))"
proof -
  let ?N = "{f \<in> set fs. \<not> is_full f}"
  have "inj_on fill_id (set fs)" using assms(1) by (simp add: distinct_map)
  then have "inj_on (eo_trxid \<circ> reduce) ?N" by (simp add: inj_on_def)
  then have inj: "inj_on reduce ?N" by (rule inj_on_imageI2)
  have "exposure (reduce ` ?N) \<le> (\<Sum>x\<in>reduce ` ?N. Suc (amount x))"
    unfolding exposure_def by (intro sum_mono2) auto
  also have "\<dots> = (\<Sum>f\<in>?N. Suc (amount (reduce f)))" using inj by (simp add: sum.reindex)
  also have "\<dots> \<le> (\<Sum>f\<in>?N. amount (fst f))"
  proof (rule sum_mono)
    fix f assume "f \<in> ?N"
    then show "Suc (amount (reduce f)) \<le> amount (fst f)"
      using assms(2) [of f] assms(3) [of f] amount_reduce [of f] by simp
  qed
  also have "\<dots> \<le> (\<Sum>f\<in>set fs. amount (fst f))" by (intro sum_mono2) auto
  finally show ?thesis .
qed

lemma exposure_union: "finite A \<Longrightarrow> finite B \<Longrightarrow> exposure (A \<union> B) \<le> exposure A + exposure B"
proof -
  assume fin: "finite A" "finite B"
  have "{x \<in> A \<union> B. meets_system x} = {x \<in> A. meets_system x} \<union> {x \<in> B. meets_system x}" by auto
  then show ?thesis unfolding exposure_def using fin by (simp add: sum_Un_nat)
qed

lemma exposure_split:
  assumes "trxids_distinct m" and "distinct (map fill_id fs)" and "\<And>f. f \<in> set fs \<Longrightarrow> fst f \<in> set m \<and> meets_system (fst f)"
  shows "(\<Sum>f\<in>set fs. amount (fst f)) + length fs + exposure {x \<in> set m. eo_trxid x \<notin> fill_id ` set fs} \<le> exposure (set m)"
proof -
  let ?rest = "{x \<in> set m. eo_trxid x \<notin> fill_id ` set fs}"
  have "inj_on fill_id (set fs)" using assms(2) by (simp add: distinct_map)
  then have inj: "inj_on fst (set fs)" by (auto simp: inj_on_def)
  have "distinct fs" using assms(2) by (simp add: distinct_map)
  then have "(\<Sum>f\<in>set fs. amount (fst f)) + length fs = (\<Sum>f\<in>set fs. Suc (amount (fst f)))"
    by (simp only: Suc_eq_plus1 sum.distrib) (simp add: distinct_card)
  also have "\<dots> = (\<Sum>x\<in>fst ` set fs. Suc (amount x))" using inj by (simp add: sum.reindex)
  finally have "(\<Sum>f\<in>set fs. amount (fst f)) + length fs + exposure ?rest =
      (\<Sum>x\<in>fst ` set fs. Suc (amount x)) + (\<Sum>x | x \<in> ?rest \<and> meets_system x. Suc (amount x))"
    by (simp add: exposure_def)
  also have "\<dots> = (\<Sum>x\<in>fst ` set fs \<union> {x. x \<in> ?rest \<and> meets_system x}. Suc (amount x))"
    by (rule sum.union_disjoint [symmetric]) auto
  also have "\<dots> \<le> exposure (set m)"
    unfolding exposure_def using assms(3) by (intro sum_mono2) auto
  finally show ?thesis .
qed

lemma system_limit_exposure:
  assumes "trxids_distinct m" and "system_order od"
  shows "exposure (set (snd (spec_limit (limit_range od m) od m))) + length (fst (spec_limit (limit_range od m) od m))
    \<le> exposure (set m)"
proof -
  let ?r = "limit_range od m" and ?n = "unat (eo_source_amount od)"
  let ?fs = "fills ?n ?r"
  have ids: "distinct (map fill_id ?fs)" by (rule fills_distinct) (rule limit_range_distinct [OF assms(1)])
  have bound: "fst f \<in> set ?r" "snd f \<le> amount (fst f)" if "f \<in> set ?fs" for f
    using fills_bound [of "fst f" "snd f"] that by simp_all
  have meets: "fst f \<in> set m \<and> meets_system (fst f)" if "f \<in> set ?fs" for f
    using range_meets_system [OF assms(2) bound(1) [OF that]] limit_range_subset bound(1) [OF that] by blast
  have "exposure (set (fill_book ?fs m)) \<le>
      exposure (reduce ` {f \<in> set ?fs. \<not> is_full f}) + exposure {x \<in> set m. eo_trxid x \<notin> fill_id ` set ?fs}"
    unfolding set_fill_book [OF assms(1) ids] by (rule exposure_union) auto
  also have "\<dots> + length ?fs \<le> exposure (set m)"
    using exposure_reduced [OF ids bound(2) fills_partial_pos [of _ ?n ?r]] exposure_split [OF assms(1) ids meets] by simp
  finally have fill: "exposure (set (fill_book ?fs m)) + length ?fs \<le> exposure (set m)" by simp
  have rest: "exposure (set (book_put (od\<lparr>eo_token_amount := k\<rparr>) m')) \<le> exposure (set m')" if "trxids_distinct m'" for m' k
    by (rule exposure_put [OF that system_apart]) (use assms(2) in \<open>simp add: system_order_def\<close>)
  have left: "exposure (set (book_put (od\<lparr>eo_token_amount := k\<rparr>) (fill_book ?fs m))) + length ?fs \<le> exposure (set m)" for k
    using fill rest [OF fill_book_distinct [OF assms(1) ids], of k] by simp
  show ?thesis
  proof (cases "?r = []")
    case True
    then show ?thesis using rest [OF assms(1), of "eo_token_amount od"] by (simp add: spec_limit_def)
  next
    case False
    then show ?thesis
      using fill left by (simp add: spec_limit_def Let_def)
  qed
qed

section \<open>One level of the recursion\<close>

lemma always_ends_auto_order: "always_ends (auto_order sha3 t type price num)"
  unfolding auto_order_def
  by (intro always_ends_rules | simp split: sum.split)+ (simp add: always_ends_def split: sum.split)

lemma always_ends_auto_collect: "always_ends (auto_collect sha3 t types v nb nc)"
  by (induction sha3 t types v nb nc rule: auto_collect.induct)
    (auto simp: Let_def intro!: always_ends_rules always_ends_auto_order)

lemma auto_order_system:
  assumes "auto_order sha3 t type price num s = (Inr od, s')" and "type = buy \<and> price = BUYCOOKIE \<or> type = sell \<and> price = SELLCOOKIE"
  shows "system_order od"
  using assms by (auto simp: auto_order_def run_simps system_order_def split: option.splits sum.splits)

lemma auto_order_state: "snd (auto_order sha3 t type price num s) = s"
  by (auto simp: auto_order_def run_simps split: option.splits sum.splits)

lemma auto_collect_system:
  assumes "auto_collect sha3 t types v nb nc s = (Inr (Some (v', x)), s')" and "\<forall>od\<in>set v. system_order od"
  shows "\<forall>od\<in>set v'. system_order od"
  using assms
proof (induction sha3 t types v nb nc arbitrary: s rule: auto_collect.induct)
  case (2 sha3 t type types v nb nc)
  consider "type = buy" | "type = sell" | "type = null_type" by (cases type)
  then show ?case
  proof cases
    case 1
    with "2.prems"(1) obtain od s1 where "10000000000000 \<le> BRC s systemAddress"
      "auto_order sha3 t buy BUYCOOKIE (BRC s systemAddress * PRICEPRECISION div BUYCOOKIE div 10000 * 10000) s = (Inr od, s1)"
      "auto_collect sha3 t types (v @ [od]) (BRC s systemAddress * PRICEPRECISION div BUYCOOKIE div 10000 * 10000 * BUYCOOKIE div PRICEPRECISION) nc s1 =
        (Inr (Some (v', x)), s')"
      by (auto simp: Let_def elim!: ebind_InrE split: if_splits)
    with "2.IH"(1) [OF 1 _ refl] auto_order_system [of sha3 t buy] "2.prems"(2) show ?thesis by (auto simp: not_less)
  next
    case 2
    with "2.prems"(1) obtain od s1 where "10000000000000 \<le> balance s systemAddress"
      "auto_order sha3 t sell SELLCOOKIE (balance s systemAddress) s = (Inr od, s1)"
      "auto_collect sha3 t types (v @ [od]) nb (balance s systemAddress) s1 = (Inr (Some (v', x)), s')"
      by (auto elim!: ebind_InrE split: if_splits)
    with "2.IH"(2) [of "balance s systemAddress" od s1] auto_order_system [of sha3 t sell] 2 "2.prems"(2)
    show ?thesis by (auto simp: not_less)
  next
    case 3
    with "2.IH"(3) "2.prems" show ?thesis by simp
  qed
qed simp

lemma auto_collect_state: "snd (auto_collect sha3 t types v nb nc s) = s"
proof (induction sha3 t types v nb nc arbitrary: s rule: auto_collect.induct)
  case (2 sha3 t type types v nb nc)
  then show ?case
    using auto_order_state by (auto simp: Let_def ebind_def split: prod.splits sum.splits) (metis snd_conv)+
qed simp

lemma auto_results_frame:
  "book (snd (efold auto_result rs acc s)) = book s" "fst (efold auto_result rs acc s) \<noteq> Inl NonTermination"
proof -
  have "keeps orders.kept (efold auto_result rs acc)"
    unfolding auto_result_def transfer_result_def by (intro orders.keeps_rules orders.transfer)
  then show "book (snd (efold auto_result rs acc s)) = book s"
    using keepsD [of orders.kept _ s] by (metis orders.kept_def orders_view)
  have "always_ends (efold auto_result rs acc)"
    unfolding auto_result_def by (intro always_ends_rules always_ends_transfer)
  then show "fst (efold auto_result rs acc s) \<noteq> Inl NonTermination" by (rule always_endsD)
qed

text \<open>An inserted order either matches nothing and leaves the set of types alone, or lowers the exposure.\<close>

lemma auto_insert_run:
  assumes "trxids_distinct (book s)" and "system_order od" and "auto_insert od acc s = (r, s')"
  shows "r \<noteq> Inl NonTermination \<and> trxids_distinct (book s') \<and>
    (\<forall>acc'. r = Inr acc' \<longrightarrow> exposure (set (book s')) \<le> exposure (set (book s)) \<and>
      (snd (snd acc') = snd (snd acc) \<or> exposure (set (book s')) < exposure (set (book s))))"
proof -
  let ?sp = "spec_limit (limit_range od (book s)) od (book s)"
  have od: "eo_buy_type od = only_price" "eo_token_amount od \<noteq> 0 \<or> eo_price od \<noteq> 0"
    using assms(2) by (auto simp: system_order_def BUYCOOKIE_def SELLCOOKIE_def)
  have "keeps book_wf_kept (auto_insert od acc)" by (rule book_wf.auto_insert)
  then have wf: "trxids_distinct (book s')" using keepsD [of book_wf_kept "auto_insert od acc" s] assms(1,3) by (simp add: book_wf_kept_def)
  show ?thesis
  proof (cases "fills_whole od (book s)")
    case True
    then obtain s1 where s1: "insert_operation od False s = (Inr (fst ?sp), s1)" "book s1 = snd ?sp"
      using limit_order_run [OF assms(1) od] by metis
    then have run: "(r, s') = efold auto_result (fst ?sp) acc s1"
      using assms(3) by (simp add: auto_insert_def ebind_def ecatch_def)
    have "book s' = snd ?sp" using auto_results_frame(1) s1(2) run by (metis snd_conv)
    then have less: "exposure (set (book s')) + length (fst ?sp) \<le> exposure (set (book s))"
      using system_limit_exposure [OF assms(1,2)] by simp
    moreover have "snd (snd acc') = snd (snd acc)" if "fst ?sp = []" "r = Inr acc'" for acc' using run that by simp
    moreover have "r \<noteq> Inl NonTermination" using auto_results_frame(2) run by (metis fst_conv)
    ultimately show ?thesis using wf by (cases "fst ?sp") auto
  next
    case False
    then obtain s1 where "insert_operation od False s = (Inl UndefinedBehaviour, s1)"
      using insert_limit_undefined [OF od] by metis
    then have "r = Inl UndefinedBehaviour"
      using assms(3) by (auto simp: auto_insert_def ebind_def ecatch_def as_allPriceFiled_def is_dev_exception_def is_cpp_exception_def)
    with wf show ?thesis by simp
  qed
qed

lemma auto_inserts_run:
  assumes "trxids_distinct (book s)" and "\<forall>od\<in>set v. system_order od" and "efold auto_insert v acc s = (r, s')"
  shows "r \<noteq> Inl NonTermination \<and> trxids_distinct (book s') \<and>
    (\<forall>acc'. r = Inr acc' \<longrightarrow> exposure (set (book s')) \<le> exposure (set (book s)) \<and>
      (snd (snd acc') = snd (snd acc) \<or> exposure (set (book s')) < exposure (set (book s))))"
  using assms
proof (induction v arbitrary: acc s)
  case (Cons od v)
  obtain r1 s1 where first: "auto_insert od acc s = (r1, s1)" by fastforce
  note one = auto_insert_run [OF Cons.prems(1) _ first]
  show ?case
  proof (cases r1)
    case (Inl e)
    with first Cons.prems one show ?thesis by (auto simp: ebind_def)
  next
    case (Inr acc1)
    with first Cons.prems(3) have "efold auto_insert v acc1 s1 = (r, s')" by (simp add: ebind_def)
    with Cons.IH [of s1 acc1] Cons.prems(2) one Inr show ?thesis by fastforce
  qed
qed auto

section \<open>The whole recursion\<close>

lemma ebind_ends:
  assumes "fst (m s) \<noteq> Inl NonTermination" and "\<And>x s'. m s = (Inr x, s') \<Longrightarrow> fst (f x s') \<noteq> Inl NonTermination"
  shows "fst (ebind m f s) \<noteq> Inl NonTermination"
  using assms by (cases "m s") (auto simp: ebind_def split: sum.splits)

lemma ebind_cong_run:
  assumes "\<And>x s'. m s = (Inr x, s') \<Longrightarrow> f x s' = g x s'"
  shows "ebind m f s = ebind m g s"
  using assms by (cases "m s") (auto simp: ebind_def split: sum.splits)

lemma freeze_book: "ewhen b (freezeBRC i x) s = (r, s') \<Longrightarrow> book s' = book s"
  "ewhen b (freezeBalance i x) s = (r, s') \<Longrightarrow> book s' = book s"
  using orders.keptD [OF orders.freeze(1), of i x s r s'] orders.keptD [OF orders.freeze(2), of i x s r s']
  by (auto simp: orders_view [symmetric] split: if_splits)

text \<open>The state in which the recursion enters the next level has a smaller exposure.\<close>

lemma next_level:
  assumes "trxids_distinct (book s)" and "auto_collect sha3 t types [] 0 0 s = (Inr (Some (v, nb, nc)), s1)"
    and "efold auto_insert v (nb, nc, []) s1 = (Inr (nb', nc', autoSet), s2)"
    and "ewhen b1 (freezeBalance systemAddress x1) s2 = (Inr (), s3)" and "ewhen b2 (freezeBRC systemAddress x2) s3 = (Inr (), s4)"
    and "autoSet \<noteq> []"
  shows "trxids_distinct (book s4) \<and> exposure (set (book s4)) < exposure (set (book s))"
proof -
  have "s1 = s" using auto_collect_state assms(2) by (metis snd_conv)
  moreover have "\<forall>od\<in>set v. system_order od" using auto_collect_system [OF assms(2)] by simp
  ultimately have "trxids_distinct (book s2)" "exposure (set (book s2)) < exposure (set (book s))"
    using auto_inserts_run [OF assms(1), of v "(nb, nc, [])"] assms(3,6) by fastforce+
  then show ?thesis using freeze_book(2) [OF assms(4)] freeze_book(1) [OF assms(5)] by simp
qed

text \<open>What one level does after its orders are inserted.\<close>

abbreviation level_end ::
    "(bytes \<Rightarrow> h256) \<Rightarrow> time_ms \<Rightarrow> nat \<Rightarrow> u256 \<times> u256 \<times> order_type list \<Rightarrow> unit st" where
  "level_end sha3 t n acc \<equiv> (case acc of (nb, nc, autoSet) \<Rightarrow>
     ebind (ewhen (nc > 0) (freezeBalance systemAddress nc)) (\<lambda>_.
     ebind (ewhen (nb \<noteq> 0) (freezeBRC systemAddress nb)) (\<lambda>_.
       ewhen (autoSet \<noteq> []) (systemAutoPendingOrder sha3 n autoSet t))))"

lemma freeze_ends:
  "fst (ewhen b (freezeBalance i x) u) \<noteq> Inl NonTermination" "fst (ewhen b (freezeBRC i x) u) \<noteq> Inl NonTermination"
  by (simp_all add: always_endsD always_ends_freeze)

lemma systemAuto_ends:
  assumes "trxids_distinct (book s)" and "exposure (set (book s)) < fuel"
  shows "fst (systemAutoPendingOrder sha3 fuel types t s) \<noteq> Inl NonTermination"
  using assms
proof (induction fuel arbitrary: types s)
  case (Suc fuel)
  show ?case
    unfolding systemAutoPendingOrder.simps
  proof (rule ebind_ends, use always_ends_auto_collect in \<open>blast dest: always_endsD\<close>)
    fix c s1 assume c: "auto_collect sha3 t types [] 0 0 s = (Inr c, s1)"
    show "fst ((case c of None \<Rightarrow> ereturn () | Some (v, nb, nc) \<Rightarrow>
        ebind (efold auto_insert v (nb, nc, [])) (level_end sha3 t fuel)) s1) \<noteq> Inl NonTermination"
    proof (cases c)
      case (Some p)
      then obtain v nb nc where p: "c = Some (v, nb, nc)" by (cases p) auto
      have "s1 = s" using auto_collect_state c by (metis snd_conv)
      moreover have "\<forall>od\<in>set v. system_order od" using auto_collect_system c p by fastforce
      ultimately have first: "fst (efold auto_insert v (nb, nc, []) s1) \<noteq> Inl NonTermination"
        using auto_inserts_run [OF Suc.prems(1), of v "(nb, nc, [])"] by (metis prod.collapse)
      have "fst (level_end sha3 t fuel acc s2) \<noteq> Inl NonTermination"
        if run: "efold auto_insert v (nb, nc, []) s1 = (Inr acc, s2)" for acc s2
      proof -
        obtain nb' nc' autoSet where acc: "acc = (nb', nc', autoSet)" by (cases acc) auto
        have "fst (ewhen (autoSet \<noteq> []) (systemAutoPendingOrder sha3 fuel autoSet t) s4) \<noteq> Inl NonTermination"
          if "ewhen (nc' > 0) (freezeBalance systemAddress nc') s2 = (Inr (), s3)"
             "ewhen (nb' \<noteq> 0) (freezeBRC systemAddress nb') s3 = (Inr (), s4)" for s3 s4
          using next_level [OF Suc.prems(1) c [unfolded p] run [unfolded acc] that] Suc.IH [of s4 autoSet] Suc.prems(2)
          by (cases "autoSet = []") simp_all
        then show ?thesis unfolding acc prod.case by (intro ebind_ends freeze_ends) simp
      qed
      with first show ?thesis unfolding p option.case prod.case by (rule ebind_ends)
    qed simp
  qed
qed simp

lemma systemAuto_more_fuel:
  assumes "trxids_distinct (book s)" and "exposure (set (book s)) < fuel"
  shows "systemAutoPendingOrder sha3 (fuel + k) types t s = systemAutoPendingOrder sha3 fuel types t s"
  using assms
proof (induction fuel arbitrary: types s)
  case (Suc fuel)
  show ?case
    unfolding systemAutoPendingOrder.simps add_Suc
  proof (rule ebind_cong_run)
    fix c s1 assume c: "auto_collect sha3 t types [] 0 0 s = (Inr c, s1)"
    show "(case c of None \<Rightarrow> ereturn () | Some (v, nb, nc) \<Rightarrow>
        ebind (efold auto_insert v (nb, nc, [])) (level_end sha3 t (fuel + k))) s1 =
      (case c of None \<Rightarrow> ereturn () | Some (v, nb, nc) \<Rightarrow> ebind (efold auto_insert v (nb, nc, [])) (level_end sha3 t fuel)) s1"
    proof (cases c)
      case (Some p)
      then obtain v nb nc where p: "c = Some (v, nb, nc)" by (cases p) auto
      have "level_end sha3 t (fuel + k) acc s2 = level_end sha3 t fuel acc s2"
        if run: "efold auto_insert v (nb, nc, []) s1 = (Inr acc, s2)" for acc s2
      proof -
        obtain nb' nc' autoSet where acc: "acc = (nb', nc', autoSet)" by (cases acc) auto
        have "ewhen (autoSet \<noteq> []) (systemAutoPendingOrder sha3 (fuel + k) autoSet t) s4 =
            ewhen (autoSet \<noteq> []) (systemAutoPendingOrder sha3 fuel autoSet t) s4"
          if "ewhen (nc' > 0) (freezeBalance systemAddress nc') s2 = (Inr (), s3)"
             "ewhen (nb' \<noteq> 0) (freezeBRC systemAddress nb') s3 = (Inr (), s4)" for s3 s4
          using next_level [OF Suc.prems(1) c [unfolded p] run [unfolded acc] that] Suc.IH [of s4 autoSet] Suc.prems(2)
          by (cases "autoSet = []") simp_all
        then show ?thesis unfolding acc prod.case by (intro ebind_cong_run) simp
      qed
      then show ?thesis unfolding p option.case prod.case by (rule ebind_cong_run)
    qed simp
  qed
qed simp







section \<open>Properties\<close>

text \<open>The system's automatic orders end: with more fuel than the exposure of the book, the recursion
  never runs out of it, whatever the balances of the system and the hash function, and more fuel
  gives the same result.
\<close>

lemma systemAutoPendingOrder_terminates:
  assumes "trxids_distinct (book s)" and "exposure (set (book s)) < fuel"
  shows "fst (systemAutoPendingOrder sha3 fuel types t s) \<noteq> Inl NonTermination \<and>
    systemAutoPendingOrder sha3 (fuel + k) types t s = systemAutoPendingOrder sha3 fuel types t s"
  using systemAuto_ends [OF assms] systemAuto_more_fuel [OF assms] by simp







end
