(* ===== verification/Verify.thy ===== *)
theory Verify
  imports Income AutoOrders
begin

text \<open>
  libbrcdchain/BRCTranscation: what \<^verbatim>\<open>Executive::initialize\<close> checks before the operations of a transaction are
  executed. The checks run on the state itself. Most only read it; reading the order book creates its
  account when there is none, and the check of an automatic exchange matches an order for real.
\<close>

section \<open>Catching\<close>

text \<open>\<^verbatim>\<open>try { m; ok = true; } catch (E const&) { }\<close>: whether the body ran to its end.\<close>

definition ecaught :: "exn \<Rightarrow> unit st \<Rightarrow> bool st" where
  "ecaught e m = (\<lambda>s. case m s of
       (Inr _, s') \<Rightarrow> (Inr True, s')
     | (Inl e', s') \<Rightarrow> (if e' = e then (Inr False, s') else (Inl e', s')))"

text \<open>A handler for all C++ exceptions that throws another one.\<close>

definition rethrown_as :: "exn \<Rightarrow> exn \<Rightarrow> exn" where
  "rethrown_as e' e = (if is_cpp_exception e then e' else e)"

section \<open>Transfers\<close>

definition verifyTranscation :: "address \<Rightarrow> address \<Rightarrow> nat \<Rightarrow> u256 \<Rightarrow> unit st" where
  "verifyTranscation form to type transcationNum =
     (if type \<le> 0 \<or> type \<ge> 2 \<or> (type = 1 \<and> transcationNum = 0) then ethrow BrcTranscationField
      else if form = to then ethrow BrcTranscationField
      else ebind (egets (\<lambda>s. BRC s form)) (\<lambda>brc.
        if transcationNum > brc then ethrow BrcTranscationField else ereturn ()))"

section \<open>Orders\<close>

definition SELLCOOKIELIMIT :: u256 where "SELLCOOKIELIMIT = 1000000000000"
definition BUYCOOKIELIMIT :: u256 where "BUYCOOKIELIMIT = 1000000000000"

definition order_params_wrong :: "pendingorder_operation \<Rightarrow> bool" where
  "order_params_wrong pen \<longleftrightarrow>
     po_type pen = null_type \<or> po_Token_type pen = TK_BRC \<or>
     (po_buy_type pen = only_price \<and> (po_type pen = sell \<or> po_type pen = buy) \<and> (po_num pen = 0 \<or> po_price pen = 0)) \<or>
     (po_buy_type pen = all_price \<and>
       ((po_type pen = buy \<and> (po_num pen \<noteq> 0 \<or> po_price pen = 0)) \<or>
        (po_type pen = sell \<and> (po_price pen \<noteq> 0 \<or> po_num pen = 0))))"

text \<open>The sums of BRC and cookies with one more order, and the checks on them.\<close>

definition order_totals :: "address \<Rightarrow> pendingorder_operation \<Rightarrow> u256 \<times> u256 \<Rightarrow> (u256 \<times> u256) st" where
  "order_totals form pen totals = (case totals of (total_brc, total_cost) \<Rightarrow>
     if po_type pen = buy then
       (if po_buy_type pen = only_price then
          (let total_brc = total_brc + po_num pen * po_price pen div PRICEPRECISION in
           ebind (egets (\<lambda>s. BRC s form)) (\<lambda>brc.
             if total_brc > brc then ethrow VerifyPendingOrderFiled
             else if total_brc < BUYCOOKIELIMIT then ethrow VerifyPendingOrderFiled
             else ereturn (total_brc, total_cost)))
        else
          (let total_brc = total_brc + po_price pen in
           ebind (egets (\<lambda>s. BRC s form)) (\<lambda>brc.
             if total_brc > brc then ethrow VerifyPendingOrderFiled else ereturn (total_brc, total_cost))))
     else if po_type pen = sell then
       (let total_cost = total_cost + po_num pen in
        ebind (egets (\<lambda>s. balance s form)) (\<lambda>bal.
          if total_cost > bal then ethrow VerifyPendingOrderFiled
          else if total_cost < SELLCOOKIELIMIT \<and> po_buy_type pen = only_price then ethrow VerifyPendingOrderFiled
          else ereturn (total_brc, total_cost)))
     else ereturn (total_brc, total_cost))"

text \<open>A market order needs an order on the other side.\<close>

definition market_has_orders :: "pendingorder_operation \<Rightarrow> unit st" where
  "market_has_orders pen =
     (if po_buy_type pen = all_price then
        ebind (get_order_by_type
          (if po_type pen = buy then sell else if po_type pen = sell then buy else po_type pen) TK_FUEL 10) (\<lambda>v.
          if v = [] then ethrow VerifyPendingOrderFiled else ereturn ())
      else ereturn ())"

definition market_buy_order :: "address \<Rightarrow> time_ms \<Rightarrow> h256 \<Rightarrow> pendingorder_operation \<Rightarrow> ex_order" where
  "market_buy_order form nowTime hash pen =
     \<lparr>eo_trxid = hash, eo_sender = form, eo_price = po_price pen * PRICEPRECISION, eo_token_amount = po_num pen,
      eo_source_amount = po_num pen, eo_create_time = nowTime, eo_type = po_type pen,
      eo_token_type = po_Token_type pen, eo_buy_type = po_buy_type pen\<rparr>"

fun verify_orders ::
    "address \<Rightarrow> time_ms \<Rightarrow> h256 \<Rightarrow> operation list \<Rightarrow> u256 \<times> u256 \<Rightarrow> ex_order list \<Rightarrow> ex_order list st" where
  "verify_orders form nowTime hash [] totals verfys = ereturn verfys"
| "verify_orders form nowTime hash (val # ops) totals verfys =
     (case as_pendingorder val of
        None \<Rightarrow> ethrow VerifyPendingOrderFiled
      | Some pen \<Rightarrow>
          (if order_params_wrong pen then ethrow VerifyPendingOrderFiled
           else if po_num pen mod 10000 > 0 \<or> po_price pen mod 10000 > 0 then ethrow VerifyPendingOrderFiled
           else
             ebind (order_totals form pen totals) (\<lambda>totals.
             ebind (market_has_orders pen) (\<lambda>_.
               verify_orders form nowTime hash ops totals
                 (if po_type pen = buy \<and> po_Token_type pen = TK_FUEL \<and> po_buy_type pen = all_price
                  then verfys @ [market_buy_order form nowTime hash pen] else verfys)))))"

text \<open>A market buy order is tried out without recording it; the cookies it gives must help to pay the gas.\<close>

definition bought_cookies :: "result_order list \<Rightarrow> u256" where
  "bought_cookies rs =
     fold (\<lambda>r n. if ro_type r = buy \<and> ro_token_type r = TK_FUEL \<and> ro_buy_type r = all_price then n + ro_amount r else n) rs 0"

definition try_market_buy :: "address \<Rightarrow> u256 \<Rightarrow> ex_order \<Rightarrow> unit st" where
  "try_market_buy form transcationGas od =
     ecatch
       (ebind (insert_operation od True) (\<lambda>retV.
        ebind (egets (\<lambda>s. balance s form)) (\<lambda>bal.
          if bought_cookies retV + bal < transcationGas then ethrow VerifyPendingOrderFiled else ereturn ())))
       (rethrown_as VerifyPendingOrderFiled)"

definition verifyPendingOrders ::
    "address \<Rightarrow> u256 \<Rightarrow> time_ms \<Rightarrow> u256 \<Rightarrow> h256 \<Rightarrow> operation list \<Rightarrow> unit st" where
  "verifyPendingOrders form total_cost nowTime transcationGas hash ops =
     ebind (verify_orders form nowTime hash ops (0, total_cost) []) (\<lambda>verfys.
       efor verfys (try_market_buy form transcationGas))"

text \<open>The orders found for the hashes replace one another; only those of the last hash are compared with the sender.\<close>

fun verify_hashes :: "operation list \<Rightarrow> h256 list \<Rightarrow> h256 list st" where
  "verify_hashes [] hashV = ereturn hashV"
| "verify_hashes (val # ops) hashV =
     (case as_cancelPendingorder val of
        None \<Rightarrow> ethrow CancelPendingOrderFiled
      | Some h \<Rightarrow> (if h = 0 then ethrow CancelPendingOrderFiled else verify_hashes ops (hashV @ [h])))"

definition verifyCancelPendingOrders :: "address \<Rightarrow> operation list \<Rightarrow> unit st" where
  "verifyCancelPendingOrders addr ops =
     ebind (verify_hashes ops []) (\<lambda>hashV.
     ebind (ecatch (efold (\<lambda>h _. exits_trxid h) hashV []) (rethrown_as CancelPendingOrderFiled)) (\<lambda>resultV.
       if resultV = [] then ethrow CancelPendingOrderFiled
       else efor resultV (\<lambda>val. if addr \<noteq> eo_sender val then ethrow CancelPendingOrderFiled else ereturn ())))"

section \<open>Income\<close>

definition findAddress :: "(address, u256) omap \<Rightarrow> PollData list \<Rightarrow> bool" where
  "findAddress voteData pollData = list_ex (\<lambda>v. list_ex (\<lambda>p. fst v = pd_addr p) (take 7 pollData)) voteData"

definition isMainNode :: "address \<Rightarrow> PollData list \<Rightarrow> bool" where
  "isMainNode addr pollData = list_ex (\<lambda>p. addr = pd_addr p) pollData"

definition isMainNode_votes :: "(address, u256) omap \<Rightarrow> PollData list \<Rightarrow> bool" where
  "isMainNode_votes voteData pollData = list_ex (\<lambda>v. list_ex (\<lambda>p. fst v = pd_addr p) pollData) voteData"

definition isMainNode_polls :: "PollData list \<Rightarrow> PollData list \<Rightarrow> bool" where
  "isMainNode_polls voteData pollData = list_ex (\<lambda>v. list_ex (\<lambda>p. pd_addr v = pd_addr p) pollData) voteData"

text \<open>The snapshot the checks look at: one with the missing rounds, which is not kept, or the account's own.\<close>

definition checked_snapshot :: "config \<Rightarrow> int \<Rightarrow> address \<Rightarrow> VoteSnapshot st" where
  "checked_snapshot cfg blockNum from =
     ebind (egets (\<lambda>s. the_account s from)) (\<lambda>a.
       let ret = get_no_record_snapshot (of_nat (fst (getVotingCycle cfg blockNum))) a in
       if fst ret then
         (case try_new_temp_snapshot (snd ret) a of
            None \<Rightarrow> ethrow UndefinedBehaviour
          | Some (snap, a') \<Rightarrow> ebind (upd_account from (\<lambda>_. a')) (\<lambda>_. ereturn snap))
       else ereturn (m_vote_sapshot a))"

definition verifyBlockFeeincome :: "config \<Rightarrow> address \<Rightarrow> int \<Rightarrow> unit st" where
  "verifyBlockFeeincome cfg from blockNum =
     (if snd (getVotingCycle cfg blockNum) = ERRORSTAGE then ethrow receivingincomeFiled
      else
        ebind (egets (\<lambda>s. (accts s from, accts s SysVarlitorAddress))) (\<lambda>accounts. case accounts of
          (Some a, Some sysAccount) \<Rightarrow>
            ebind (checked_snapshot cfg blockNum from) (\<lambda>snap.
              if vs_voteDataHistory snap = [] \<and> m_vote_data a = [] then ethrow receivingincomeFiled
              else
                ebind (egets (\<lambda>s. (get_miner_snapshot s, vote_data s SysVarlitorAddress))) (\<lambda>(minerSnap, nowMiner).
                  let numberofround = getvoteRound (rc_numberofRound (m_received_cookies a)) in
                  case dropWhile (\<lambda>rd. fst rd \<noteq> numberofround - 1) (vs_voteDataHistory snap) of
                    [] \<Rightarrow>
                      (if isMainNode_polls (m_vote_data a) (m_vote_data sysAccount) \<or> isMainNode from (m_vote_data sysAccount)
                       then ereturn () else ethrow receivingincomeFiled)
                  | todo \<Rightarrow>
                      (if list_ex (\<lambda>rd.
                            let nodes = (case om_find minerSnap (fst rd) of Some ps \<Rightarrow> ps | None \<Rightarrow> nowMiner)
                            in isMainNode_votes (snd rd) nodes \<or> isMainNode from nodes) todo
                       then ereturn () else ethrow receivingincomeFiled)))
        | _ \<Rightarrow> ethrow receivingincomeFiled))"

text \<open>Whether a past round of the exchange fees has something for the account.\<close>

definition pd_round_open :: "address \<Rightarrow> VoteSnapshot \<Rightarrow> (u256, PollData list) omap \<Rightarrow> nat \<Rightarrow> bool" where
  "pd_round_open from snap creaters i =
     (case (om_find (vs_voteDataHistory snap) (of_nat i - 1), om_find creaters (of_nat i)) of
        (Some votes, Some ps) \<Rightarrow>
          list_ex (\<lambda>p. (case om_find votes (pd_addr p) of None \<Rightarrow> False | Some n \<Rightarrow> n \<noteq> 0) \<or> from = pd_addr p) ps
      | _ \<Rightarrow> False)"

definition verifyPdFeeincome :: "config \<Rightarrow> address \<Rightarrow> int \<Rightarrow> unit st" where
  "verifyPdFeeincome cfg from blockNum =
     (if snd (getVotingCycle cfg blockNum) = ERRORSTAGE then ethrow receivingincomeFiled
      else
        ebind (egets (\<lambda>s. (accts s from, accts s SysVarlitorAddress, accts s PdSystemAddress))) (\<lambda>accounts. case accounts of
          (Some a, Some miners, Some systemAccount) \<Rightarrow>
            ebind (checked_snapshot cfg blockNum from) (\<lambda>snap.
              let current = fst (getVotingCycle cfg blockNum);
                  ranked = take minner_rank_num (m_vote_data miners);
                  votes = om_find (vs_voteDataHistory snap) (of_nat current - 1)
              in if list_ex (pd_round_open from snap (cs_sorted_creaters (m_couplingSystemFee systemAccount)))
                      [unat (cs_numofrounds (m_couplingSystemFee a))..<current] \<or>
                    (case votes of None \<Rightarrow> False | Some v \<Rightarrow> list_ex (\<lambda>p. om_count v (pd_addr p)) ranked) \<or>
                    list_ex (\<lambda>p. from = pd_addr p) ranked
                 then ereturn () else ethrow receivingincomeFiled)
        | (Some _, Some _, None) \<Rightarrow> ethrow UndefinedBehaviour
        | _ \<Rightarrow> ethrow receivingincomeFiled))"

definition verifyreceivingincome :: "config \<Rightarrow> address \<Rightarrow> operation list \<Rightarrow> int \<Rightarrow> unit st" where
  "verifyreceivingincome cfg from ops blockNum =
     efor ops (\<lambda>it. case as_receivingincome it of
         None \<Rightarrow> ethrow receivingincomeFiled
       | Some p \<Rightarrow>
           (case ReceivingType_of (ri_receivingType p) of
              Some RBlockFeeIncome \<Rightarrow> verifyBlockFeeincome cfg from blockNum
            | Some RPdFeeIncome \<Rightarrow> verifyPdFeeincome cfg from blockNum
            | _ \<Rightarrow> ethrow receivingincomeFiled))"

definition verifyreceivingincomeChanegeMiner :: "config \<Rightarrow> address \<Rightarrow> operation list \<Rightarrow> int \<Rightarrow> unit st" where
  "verifyreceivingincomeChanegeMiner cfg from ops blockNum =
     (if blockNum < newChangeHeight cfg then verifyreceivingincome cfg from ops blockNum
      else
        ebind (egets (\<lambda>s. minerMapping s from)) (\<lambda>mapping.
          if \<not> (fst mapping = 0 \<or> snd mapping = from) then ethrow receivingincomeFiled
          else
            ebind (ecaught receivingincomeFiled (verifyreceivingincome cfg from ops blockNum)) (\<lambda>own.
            ebind (if fst mapping \<noteq> from \<and> fst mapping \<noteq> 0
                   then ecaught receivingincomeFiled (verifyreceivingincome cfg (fst mapping) ops blockNum)
                   else ereturn False) (\<lambda>mapped.
              if own \<or> mapped then ereturn () else ethrow receivingincomeFiled))))"

section \<open>Automatic exchange\<close>

text \<open>
  \<^verbatim>\<open>verifyTransferAutoEx\<close>. The operation is used without a test of the cast, and \<^verbatim>\<open>insert_operation\<close> is called
  without \<^verbatim>\<open>reset\<close>: the resting orders it matches leave the book.
\<close>

definition verifyTransferAutoEx_one :: "address \<Rightarrow> u256 \<Rightarrow> h256 \<Rightarrow> EnvInfo \<Rightarrow> operation \<Rightarrow> unit st" where
  "verifyTransferAutoEx_one from baseGas trxid info val =
     (case as_transferAutoEx val of
        None \<Rightarrow> ethrow UndefinedBehaviour
      | Some p \<Rightarrow>
          (if ta_from p \<noteq> from then ethrow transferAutoExFailed
           else if ta_autoExNum p mod 10000 > 0 then ethrow transferAutoExFailed
           else
             ebind (egets (\<lambda>s. BRC s from)) (\<lambda>brc.
             ebind (if ta_autoExType p = transferAutoEx_code Balancededuction then
                      (if ta_transferNum p + ta_autoExNum p > brc then ethrow transferAutoExFailed else ereturn ())
                    else if ta_autoExType p = transferAutoEx_code Transferdeduction then
                      (if ta_autoExNum p > ta_transferNum p then ethrow transferAutoExFailed
                       else if ta_transferNum p > brc then ethrow transferAutoExFailed else ereturn ())
                    else ethrow transferAutoExFailed) (\<lambda>_.
             ebind (ecatch (insert_operation
                 \<lparr>eo_trxid = trxid, eo_sender = from, eo_price = ta_autoExNum p * PRICEPRECISION,
                  eo_token_amount = 0, eo_source_amount = 0, eo_create_time = env_timestamp info, eo_type = buy,
                  eo_token_type = TK_FUEL, eo_buy_type = all_price\<rparr> False)
                 (rethrown_as transferAutoExFailed)) (\<lambda>result.
               if fold (\<lambda>r n. n + ro_amount r) result 0 < baseGas then ethrow transferAutoExFailed else ereturn ())))))"

definition verifyTransferAutoEx ::
    "config \<Rightarrow> address \<Rightarrow> operation list \<Rightarrow> u256 \<Rightarrow> h256 \<Rightarrow> EnvInfo \<Rightarrow> unit st" where
  "verifyTransferAutoEx cfg from ops baseGas trxid info =
     (if (env_number info < autoExTestNetHeight \<and> env_chain_id info = 1) \<or>
         (env_number info < autoExHeight cfg \<and> env_chain_id info = 11)
      then ethrow transferAutoExFailed
      else efor ops (verifyTransferAutoEx_one from baseGas trxid info))"

section \<open>Gas prices\<close>

definition verifyModifyMinerGasPrice :: "config \<Rightarrow> address \<Rightarrow> int \<Rightarrow> operation list \<Rightarrow> unit st" where
  "verifyModifyMinerGasPrice cfg from blockNum ops =
     (if blockNum \<le> gasPriceHeight cfg then ethrow modifyminergaspriceFailed
      else efor ops (\<lambda>it. case as_modifyMinerGasPrice it of
          None \<Rightarrow> ethrow modifyminergaspriceFailed
        | Some p \<Rightarrow>
            (if from \<noteq> mg_proposer p then ethrow modifyminergaspriceFailed
             else
               ebind (get_account GaspriceAddress) (\<lambda>g. case g of
                 None \<Rightarrow> ethrow modifyminergaspriceFailed
               | Some a \<Rightarrow>
                   (if \<not> om_count (m_minerGasPrice a) (mg_proposer p) then ethrow modifyminergaspriceFailed
                    else
                      (let average = getAverageGasPrice a; lowerLimit = average * 8 div 10; highLimit = average * 12 div 10 in
                       if mg_proposedAmount p > highLimit \<or> mg_proposedAmount p < lowerLimit
                       then ethrow modifyminergaspriceFailed else ereturn ()))))))"

section \<open>Checks respect what the exchange respects\<close>

text \<open>The checks of orders use the book only through operations of the exchange.\<close>

context exchange_steps
begin

lemma verifyTranscation: "keeps R (verifyTranscation i j type n)"
  unfolding verifyTranscation_def by (intro keeps_rules)

lemma verify_orders: "keeps R (verify_orders form t h ops totals verfys)"
  by (induction form t h ops totals verfys rule: verify_orders.induct)
    (auto simp: order_totals_def market_has_orders_def get_order_by_type_def Let_def intro!: keeps_rules open_book)

lemma verifyPendingOrders: "keeps R (verifyPendingOrders form c t g h ops)"
  unfolding verifyPendingOrders_def try_market_buy_def
  by (intro keeps_rules verify_orders insert_operation)

lemma verify_hashes: "keeps R (verify_hashes ops hs)"
  by (induction ops hs rule: verify_hashes.induct) (auto intro!: keeps_rules)

lemma verifyCancelPendingOrders: "keeps R (verifyCancelPendingOrders i ops)"
  unfolding verifyCancelPendingOrders_def exits_trxid_def by (intro keeps_rules verify_hashes open_book)

lemma verifyTransferAutoEx: "keeps R (verifyTransferAutoEx cfg i ops g h info)"
  unfolding verifyTransferAutoEx_def verifyTransferAutoEx_one_def by (intro keeps_rules insert_operation)

lemma verifyModifyMinerGasPrice: "keeps R (verifyModifyMinerGasPrice cfg i n ops)"
  unfolding verifyModifyMinerGasPrice_def get_account_def Let_def by (intro keeps_rules)

lemma verifyVote: "keeps R (verifyVote cfg i info ops)"
proof -
  have "keeps R (verifyVote_one cfg i info val)" for val
  proof (rule keepsI)
    show "R s (snd (verifyVote_one cfg i info val s))" for s
      by (auto simp: verifyVote_one_def ebind_def Let_def R_refl split: option.splits VoteType.splits)
  qed
  then show ?thesis unfolding verifyVote_def by (intro keeps_rules)
qed

end

end
