(* ===== verification/OperationRlp.thy ===== *)
theory OperationRlp
  imports OrderRlp Operations
begin

text \<open>
  The operations of a transaction as they travel in its data (Transaction.h): the macros
  \<^verbatim>\<open>OPERATION_SERIALIZE\<close> and \<^verbatim>\<open>OPERATION_UNSERIALIZE\<close> with the fields each structure names, and
  \<^verbatim>\<open>operation::get_type\<close>, which looks at the first field only.

  The model's structures have no member \<^verbatim>\<open>m_type\<close>: the constructor of \<open>operation\<close> says it. It is an argument
  of the writer and is dropped by the reader. An order with a number outside an enumeration is read as
  the error \<open>NoEnumerator\<close>; the code keeps the number and \<^verbatim>\<open>verifyPendingOrders\<close> refuses it.
\<close>

section \<open>Types\<close>

datatype op_type =
    op_null | op_vote | op_brcTranscation | op_pendingOrder | op_cancelPendingOrder | op_deployContract
  | op_executeContract | op_changeMiner | op_receivingincome | op_transferAutoEx | op_modifyMinerGasPrice

primrec op_code :: "op_type \<Rightarrow> nat" where
  "op_code op_null = 0"
| "op_code op_vote = 1"
| "op_code op_brcTranscation = 2"
| "op_code op_pendingOrder = 3"
| "op_code op_cancelPendingOrder = 4"
| "op_code op_deployContract = 5"
| "op_code op_executeContract = 6"
| "op_code op_changeMiner = 7"
| "op_code op_receivingincome = 8"
| "op_code op_transferAutoEx = 9"
| "op_code op_modifyMinerGasPrice = 10"

definition op_type_of :: "nat \<Rightarrow> op_type option" where
  "op_type_of n = find (\<lambda>t. op_code t = n)
     [op_null, op_vote, op_brcTranscation, op_pendingOrder, op_cancelPendingOrder, op_deployContract,
      op_executeContract, op_changeMiner, op_receivingincome, op_transferAutoEx, op_modifyMinerGasPrice]"

text \<open>A number that is no \<^verbatim>\<open>op_type\<close> takes the default branch wherever it is used; \<open>None\<close> stands for all of them.\<close>

definition get_type :: "bytes \<Rightarrow> op_type option" where
  "get_type d =
     (case sbind (RLP_node VeryStrict d) (\<lambda>d. with_field 0 (toInt Strict) (fresh_node d) (\<lambda>b :: byte. \<lambda>_. Inr (unat b))) of
        Inl _ \<Rightarrow> Some op_null | Inr n \<Rightarrow> op_type_of n)"

section \<open>Writing\<close>

primrec op_fields :: "nat \<Rightarrow> operation \<Rightarrow> writer list" where
  "op_fields ty (Op_vote p) =
     [append_enum ty, append_hash 20 (vo_from p), append_hash 20 (vo_to p), append_enum (vo_vote_type p),
      append_word (vo_vote_numbers p)]"
| "op_fields ty (Op_transcation p) =
     [append_enum ty, append_hash 20 (to_from p), append_hash 20 (to_to p), append_enum (to_Transcation_type p),
      append_word (to_Transcation_numbers p)]"
| "op_fields ty (Op_changeMiner p) = [append_enum ty, append_hash 20 (cm_before p), append_hash 20 (cm_after p)]"
| "op_fields ty (Op_pendingorder p) =
     [append_enum ty, append_hash 20 (po_from p), append_enum (order_type_code (po_type p)),
      append_enum (order_token_code (po_Token_type p)), append_enum (order_buy_code (po_buy_type p)),
      append_word (po_num p), append_word (po_price p)]"
| "op_fields ty (Op_cancelPendingorder c h) = [append_enum ty, append_enum c, append_hash 32 h]"
| "op_fields ty (Op_contract d) = [append_bytes d False]"
| "op_fields ty (Op_receivingincome p) = [append_enum ty, append_enum (ri_receivingType p), append_hash 20 (ri_from p)]"
| "op_fields ty (Op_transferAutoEx p) =
     [append_enum ty, append_enum (ta_autoExType p), append_word (ta_autoExNum p),
      append_word (ta_transferNum p), append_hash 20 (ta_from p), append_hash 20 (ta_to p)]"
| "op_fields ty (Op_modifyMinerGasPrice p) =
     [append_enum ty, append_hash 20 (mg_proposer p), append_word (mg_proposedAmount p)]"
| "op_fields ty (Op_dividend p) = [append_enum ty, append_hash 20 (di_to p), append_word (di_dividendNum p)]"

definition serialize :: "nat \<Rightarrow> operation \<Rightarrow> rlp_error + bytes" where
  "serialize ty p = stream_of (length (op_fields ty p)) (op_fields ty p)"

section \<open>Reading\<close>

abbreviation get_byte :: "bytes \<Rightarrow> rlp_error + nat" where
  "get_byte \<equiv> get_enum Some"

definition vote_of_bytes :: "bytes \<Rightarrow> rlp_error + operation" where
  "vote_of_bytes b =
     sbind (RLP_node VeryStrict b) (\<lambda>d.
     with_field 0 get_byte (fresh_node d) (\<lambda>_ nd.
     with_field 1 (toHash LaissezFaire) nd (\<lambda>from nd.
     with_field 2 (toHash LaissezFaire) nd (\<lambda>to nd.
     with_field 3 get_byte nd (\<lambda>vote_type nd.
     with_field 4 (toInt LaissezFaire) nd (\<lambda>vote_numbers nd.
       Inr (Op_vote \<lparr>vo_from = from, vo_to = to, vo_vote_type = vote_type, vo_vote_numbers = vote_numbers\<rparr>)))))))"

definition transcation_of_bytes :: "bytes \<Rightarrow> rlp_error + operation" where
  "transcation_of_bytes b =
     sbind (RLP_node VeryStrict b) (\<lambda>d.
     with_field 0 get_byte (fresh_node d) (\<lambda>_ nd.
     with_field 1 (toHash LaissezFaire) nd (\<lambda>from nd.
     with_field 2 (toHash LaissezFaire) nd (\<lambda>to nd.
     with_field 3 get_byte nd (\<lambda>type nd.
     with_field 4 (toInt LaissezFaire) nd (\<lambda>numbers nd.
       Inr (Op_transcation \<lparr>to_from = from, to_to = to, to_Transcation_type = type, to_Transcation_numbers = numbers\<rparr>)))))))"

definition changeMiner_of_bytes :: "bytes \<Rightarrow> rlp_error + operation" where
  "changeMiner_of_bytes b =
     sbind (RLP_node VeryStrict b) (\<lambda>d.
     with_field 0 get_byte (fresh_node d) (\<lambda>_ nd.
     with_field 1 (toHash LaissezFaire) nd (\<lambda>before nd.
     with_field 2 (toHash LaissezFaire) nd (\<lambda>after nd.
       Inr (Op_changeMiner \<lparr>cm_before = before, cm_after = after\<rparr>)))))"

definition pendingorder_of_bytes :: "bytes \<Rightarrow> rlp_error + operation" where
  "pendingorder_of_bytes b =
     sbind (RLP_node VeryStrict b) (\<lambda>d.
     with_field 0 get_byte (fresh_node d) (\<lambda>_ nd.
     with_field 1 (toHash LaissezFaire) nd (\<lambda>from nd.
     with_field 2 (get_enum order_type_of) nd (\<lambda>type nd.
     with_field 3 (get_enum order_token_of) nd (\<lambda>token_type nd.
     with_field 4 (get_enum order_buy_of) nd (\<lambda>buy_type nd.
     with_field 5 (toInt LaissezFaire) nd (\<lambda>num nd.
     with_field 6 (toInt LaissezFaire) nd (\<lambda>price nd.
       Inr (Op_pendingorder \<lparr>po_from = from, po_num = num, po_price = price, po_type = type,
         po_Token_type = token_type, po_buy_type = buy_type\<rparr>)))))))))"

definition cancelPendingorder_of_bytes :: "bytes \<Rightarrow> rlp_error + operation" where
  "cancelPendingorder_of_bytes b =
     sbind (RLP_node VeryStrict b) (\<lambda>d.
     with_field 0 get_byte (fresh_node d) (\<lambda>_ nd.
     with_field 1 get_byte nd (\<lambda>cancelType nd.
     with_field 2 (toHash LaissezFaire) nd (\<lambda>hash nd.
       Inr (Op_cancelPendingorder cancelType hash)))))"

definition receivingincome_of_bytes :: "bytes \<Rightarrow> rlp_error + operation" where
  "receivingincome_of_bytes b =
     sbind (RLP_node VeryStrict b) (\<lambda>d.
     with_field 0 get_byte (fresh_node d) (\<lambda>_ nd.
     with_field 1 get_byte nd (\<lambda>type nd.
     with_field 2 (toHash LaissezFaire) nd (\<lambda>from nd.
       Inr (Op_receivingincome \<lparr>ri_receivingType = type, ri_from = from\<rparr>)))))"

definition transferAutoEx_of_bytes :: "bytes \<Rightarrow> rlp_error + operation" where
  "transferAutoEx_of_bytes b =
     sbind (RLP_node VeryStrict b) (\<lambda>d.
     with_field 0 get_byte (fresh_node d) (\<lambda>_ nd.
     with_field 1 get_byte nd (\<lambda>type nd.
     with_field 2 (toInt LaissezFaire) nd (\<lambda>autoExNum nd.
     with_field 3 (toInt LaissezFaire) nd (\<lambda>transferNum nd.
     with_field 4 (toHash LaissezFaire) nd (\<lambda>from nd.
     with_field 5 (toHash LaissezFaire) nd (\<lambda>to nd.
       Inr (Op_transferAutoEx \<lparr>ta_autoExType = type, ta_autoExNum = autoExNum, ta_transferNum = transferNum,
         ta_from = from, ta_to = to\<rparr>))))))))"

definition modifyMinerGasPrice_of_bytes :: "bytes \<Rightarrow> rlp_error + operation" where
  "modifyMinerGasPrice_of_bytes b =
     sbind (RLP_node VeryStrict b) (\<lambda>d.
     with_field 0 get_byte (fresh_node d) (\<lambda>_ nd.
     with_field 1 (toHash LaissezFaire) nd (\<lambda>proposer nd.
     with_field 2 (toInt LaissezFaire) nd (\<lambda>proposedAmount nd.
       Inr (Op_modifyMinerGasPrice \<lparr>mg_proposer = proposer, mg_proposedAmount = proposedAmount\<rparr>)))))"

text \<open>The constructor that \<^verbatim>\<open>Executive::initialize\<close> picks for a type; \<open>None\<close> is its default branch.\<close>

definition unserialize :: "op_type option \<Rightarrow> (bytes \<Rightarrow> rlp_error + operation) option" where
  "unserialize ty = (case ty of
       Some op_vote \<Rightarrow> Some vote_of_bytes
     | Some op_brcTranscation \<Rightarrow> Some transcation_of_bytes
     | Some op_pendingOrder \<Rightarrow> Some pendingorder_of_bytes
     | Some op_cancelPendingOrder \<Rightarrow> Some cancelPendingorder_of_bytes
     | Some op_changeMiner \<Rightarrow> Some changeMiner_of_bytes
     | Some op_receivingincome \<Rightarrow> Some receivingincome_of_bytes
     | Some op_transferAutoEx \<Rightarrow> Some transferAutoEx_of_bytes
     | Some op_modifyMinerGasPrice \<Rightarrow> Some modifyMinerGasPrice_of_bytes
     | _ \<Rightarrow> None)"

section \<open>Round trip\<close>

primrec type_of_operation :: "operation \<Rightarrow> op_type option" where
  "type_of_operation (Op_vote p) = Some op_vote"
| "type_of_operation (Op_transcation p) = Some op_brcTranscation"
| "type_of_operation (Op_changeMiner p) = Some op_changeMiner"
| "type_of_operation (Op_pendingorder p) = Some op_pendingOrder"
| "type_of_operation (Op_cancelPendingorder c h) = Some op_cancelPendingOrder"
| "type_of_operation (Op_contract d) = None"
| "type_of_operation (Op_receivingincome p) = Some op_receivingincome"
| "type_of_operation (Op_transferAutoEx p) = Some op_transferAutoEx"
| "type_of_operation (Op_modifyMinerGasPrice p) = Some op_modifyMinerGasPrice"
| "type_of_operation (Op_dividend p) = None"

text \<open>The numbers the C++ keeps in a \<^verbatim>\<open>uint8_t\<close>.\<close>

primrec op_bytes :: "operation \<Rightarrow> nat" where
  "op_bytes (Op_vote p) = vo_vote_type p"
| "op_bytes (Op_transcation p) = to_Transcation_type p"
| "op_bytes (Op_changeMiner p) = 0"
| "op_bytes (Op_pendingorder p) = 0"
| "op_bytes (Op_cancelPendingorder c h) = c"
| "op_bytes (Op_contract d) = 0"
| "op_bytes (Op_receivingincome p) = ri_receivingType p"
| "op_bytes (Op_transferAutoEx p) = ta_autoExType p"
| "op_bytes (Op_modifyMinerGasPrice p) = 0"
| "op_bytes (Op_dividend p) = 0"

primrec op_items :: "nat \<Rightarrow> operation \<Rightarrow> rlp_item list" where
  "op_items ty (Op_vote p) =
     [enum_item ty, address_item (vo_from p), address_item (vo_to p), enum_item (vo_vote_type p),
      word_item (vo_vote_numbers p)]"
| "op_items ty (Op_transcation p) =
     [enum_item ty, address_item (to_from p), address_item (to_to p), enum_item (to_Transcation_type p),
      word_item (to_Transcation_numbers p)]"
| "op_items ty (Op_changeMiner p) = [enum_item ty, address_item (cm_before p), address_item (cm_after p)]"
| "op_items ty (Op_pendingorder p) =
     [enum_item ty, address_item (po_from p), enum_item (order_type_code (po_type p)),
      enum_item (order_token_code (po_Token_type p)), enum_item (order_buy_code (po_buy_type p)),
      word_item (po_num p), word_item (po_price p)]"
| "op_items ty (Op_cancelPendingorder c h) = [enum_item ty, enum_item c, hash_item h]"
| "op_items ty (Op_contract d) = [RData d]"
| "op_items ty (Op_receivingincome p) = [enum_item ty, enum_item (ri_receivingType p), address_item (ri_from p)]"
| "op_items ty (Op_transferAutoEx p) =
     [enum_item ty, enum_item (ta_autoExType p), word_item (ta_autoExNum p),
      word_item (ta_transferNum p), address_item (ta_from p), address_item (ta_to p)]"
| "op_items ty (Op_modifyMinerGasPrice p) =
     [enum_item ty, address_item (mg_proposer p), word_item (mg_proposedAmount p)]"
| "op_items ty (Op_dividend p) = [enum_item ty, address_item (di_to p), word_item (di_dividendNum p)]"

interpretation op_enum: enumeration op_code op_type_of
proof
  show "op_code e < 256" "op_type_of (op_code e) = Some e" for e
    by (cases e; simp add: op_type_of_def)+
qed

lemmas op_laws = enum_laws op_enum.small

lemma op_fits:
  assumes "type_of_operation p = Some ty" and "op_bytes p < 256"
  shows "rlp_fits (RList (op_items (op_code ty) p))"
  using assms by (intro rlp_fits_small_list; cases p) (auto intro!: short_items op_laws)

lemma serialize_items:
  assumes "type_of_operation p = Some ty" and "op_bytes p < 256"
  shows "serialize (op_code ty) p = Inr (encode (RList (op_items (op_code ty) p)))"
proof -
  have "op_fields (op_code ty) p = map append_item (op_items (op_code ty) p)"
    using assms by (cases p) (simp_all add: field_writers op_laws del: append_item.simps)
  with op_fits [OF assms] show ?thesis by (simp add: serialize_def stream_of_items)
qed

lemma get_type_items:
  assumes "type_of_operation p = Some ty" and "op_bytes p < 256"
  shows "get_type (encode (RList (op_items (op_code ty) p))) = Some ty"
proof -
  note fits = op_fits [OF assms]
  have first: "op_items (op_code ty) p \<noteq> [] \<and> op_items (op_code ty) p ! 0 = enum_item (op_code ty)"
    using assms(1) by (cases p) simp_all
  have "toInt Strict (encode (enum_item (op_code ty))) = Inr (of_nat (op_code ty) :: byte)"
    using toInt_encode [of Strict "of_nat (op_code ty) :: byte"] by (simp add: unat_of_nat_small op_enum.small)
  with first have "with_field 0 (toInt Strict) (fresh_node (encode (RList (op_items (op_code ty) p))))
      (\<lambda>b :: byte. \<lambda>_. Inr (unat b)) = Inr (op_code ty)"
    by (intro with_field_encode [OF cache_ok_fresh fits, where x = "of_nat (op_code ty)"])
      (simp_all add: unat_of_nat_small op_enum.small)
  then show ?thesis by (simp add: get_type_def RLP_node_encode [OF fits] op_enum.of_code)
qed

lemmas op_readers = vote_of_bytes_def transcation_of_bytes_def changeMiner_of_bytes_def pendingorder_of_bytes_def
  cancelPendingorder_of_bytes_def receivingincome_of_bytes_def transferAutoEx_of_bytes_def
  modifyMinerGasPrice_of_bytes_def

lemma unserialize_items:
  assumes "type_of_operation p = Some ty" and "op_bytes p < 256" and "unserialize (Some ty) = Some dec"
  shows "dec (encode (RList (op_items (op_code ty) p))) = Inr p"
proof -
  have read: "dec b = Inr p" if "b = encode (RList (op_items (op_code ty) p))" and "rlp_fits (RList (op_items (op_code ty) p))" for b
    using assms that
    by (cases p; clarsimp simp: unserialize_def op_readers RLP_node_encode)
      ((rule with_field_encode, (rule cache_ok_fresh | assumption), assumption, simp, simp add: field_readers op_laws)+, simp)+
  then show ?thesis using op_fits [OF assms(1,2)] by blast
qed

text \<open>
  C8. Every operation a transaction can carry survives the wire: the type is recognised from its bytes
  and the structure read for that type is the one that was written, for all types that
  \<^verbatim>\<open>Executive::initialize\<close> accepts. The type itself, which every structure repeats in its first
  field \<^verbatim>\<open>m_type\<close>, is not part of the structures here.
\<close>

theorem operation_roundtrip:
  assumes "type_of_operation p = Some ty" and "op_bytes p < 256"
  shows "\<exists>b dec. serialize (op_code ty) p = Inr b \<and> get_type b = Some ty \<and>
    unserialize (get_type b) = Some dec \<and> dec b = Inr p"
proof -
  obtain dec where "unserialize (Some ty) = Some dec"
    using assms(1) by (cases p) (auto simp: unserialize_def)
  with serialize_items [OF assms] get_type_items [OF assms] unserialize_items [OF assms] show ?thesis by auto
qed

theorem operation_roundtrip_witness:
  "\<exists>b dec. serialize 1 (Op_vote \<lparr>vo_from = 3, vo_to = 4, vo_vote_type = 5, vo_vote_numbers = 600\<rparr>) = Inr b \<and>
    get_type b = Some op_vote \<and> unserialize (get_type b) = Some dec \<and>
    dec b = Inr (Op_vote \<lparr>vo_from = 3, vo_to = 4, vo_vote_type = 5, vo_vote_numbers = 600\<rparr>)"
  using operation_roundtrip [of "Op_vote \<lparr>vo_from = 3, vo_to = 4, vo_vote_type = 5, vo_vote_numbers = 600\<rparr>" op_vote]
  by simp

end
