(* ===== verification/Executive.thy ===== *)
theory Executive
  imports Verify NewBlock OperationRlp "HOL-Library.Signed_Division"
begin

text \<open>
  libbrcdchain/Executive: the life of a transaction. \<^verbatim>\<open>initialize\<close> checks it and decodes its operations,
  \<^verbatim>\<open>execute\<close> runs a call or a creation, \<^verbatim>\<open>go\<close> runs code when there is any, \<^verbatim>\<open>finalize\<close> charges the gas.
  \<^verbatim>\<open>State::executeTransaction\<close> puts them together and rolls back when one of them throws. A transaction to
  \<^verbatim>\<open>VoteAddress\<close> carries operations of the chain, every other one is a transfer of BRC, with or without code.

  What the executive gets from other components is in the record \<open>host\<close>: the byte-code interpreter, the hash
  function, the code store, the parameters of the chain and the precompiled contracts. The messages for the
  user, the logs of the interpreter and the trace are left out.
\<close>

section \<open>Data\<close>

datatype transaction_kind = NullTransaction | ContractCreation | MessageCall

datatype initializeEnum = rpcinitialize | executeinitialize | estimateGas

record transaction =
  t_kind :: transaction_kind
  t_sender :: address
  t_nonce :: u256
  t_gas :: u256
  t_gasPrice :: u256
  t_value :: u256
  t_receiveAddress :: address
  t_data :: bytes
  t_chainId :: int
  t_hasSignature :: bool
  t_hasZeroSignature :: bool
  t_lowS :: bool
  t_sha3 :: h256
  t_sha3_unsigned :: h256

datatype TransactionException =
    TE_None | TE_Unknown | TE_InvalidSignature | TE_OutOfGasIntrinsic | TE_BlockGasLimitReached
  | TE_OutOfGasBase | TE_OutOfGas | TE_RevertInstruction | TE_AddressAlreadyUsed

record BRCSchedule =
  txGas :: int
  txCreateGas :: int
  txDataZeroGas :: int
  txDataNonZeroGas :: int
  suicideRefundGas :: int
  createDataGas :: u256
  maxCodeSize :: nat
  exceptionalFailedCodeDeposit :: bool

text \<open>The externality object of a call: what the interpreter runs.\<close>

record vm_call =
  vc_myAddress :: address
  vc_caller :: address
  vc_origin :: address
  vc_value :: u256
  vc_gasPrice :: u256
  vc_data :: bytes
  vc_code :: bytes
  vc_codeHash :: h256
  vc_isCreate :: bool

datatype vm_end = VM_done bytes | VM_reverted bytes | VM_exception TransactionException | VM_internal | VM_unexpected

record vm_result =
  vr_end :: vm_end
  vr_gas :: u256
  vr_refunds :: int
  vr_selfdestructs :: "address list"

record host =
  h_cfg :: config
  h_sha3 :: "bytes \<Rightarrow> h256"
  h_fuel :: nat
  h_to_int64 :: "u256 \<Rightarrow> int"
  h_vm :: "vm_call \<Rightarrow> u256 \<Rightarrow> chain_state \<Rightarrow> vm_result \<times> chain_state"
  h_code_db :: "h256 \<Rightarrow> bytes"
  h_schedule :: "int \<Rightarrow> BRCSchedule"
  h_isPrecompiled :: "address \<Rightarrow> int \<Rightarrow> bool"
  h_costOfPrecompiled :: "address \<Rightarrow> bytes \<Rightarrow> int \<Rightarrow> int"
  h_executePrecompiled :: "address \<Rightarrow> bytes \<Rightarrow> int \<Rightarrow> bool \<times> bytes"
  h_minGasPrice :: u256
  h_chainID :: int
  h_homesteadForkBlock :: int
  h_EIP158ForkBlock :: int
  h_experimentalForkBlock :: int

record executive =
  e_t :: transaction
  e_baseGasRequired :: int
  e_gas :: u256
  e_totalGas :: u256
  e_addCostValue :: u256
  e_needRefundGas :: u256
  e_excepted :: TransactionException
  e_batch_type :: "op_type option"
  e_batch_ops :: "operation list"
  e_ext :: "vm_call option"
  e_refunds :: int
  e_selfdestructs :: "address list"
  e_isCreation :: bool
  e_newAddress :: address
  e_savepoint :: nat
  e_output :: bytes

definition MaxAddress :: address where "MaxAddress = -1"

definition isVoteTranction :: "transaction \<Rightarrow> bool" where
  "isVoteTranction t \<longleftrightarrow> t_receiveAddress t = VoteAddress"

definition isReplayProtected :: "transaction \<Rightarrow> bool" where
  "isReplayProtected t \<longleftrightarrow> t_chainId t \<noteq> -4"

definition baseGasRequired :: "BRCSchedule \<Rightarrow> transaction \<Rightarrow> int" where
  "baseGasRequired es t =
     fold (\<lambda>i g. g + (if i \<noteq> 0 then txDataNonZeroGas es else txDataZeroGas es)) (t_data t)
       (if t_kind t = ContractCreation then txCreateGas es else txGas es)"

definition c_add_value :: "op_type option \<Rightarrow> u256" where
  "c_add_value ty = (case ty of
       Some op_vote \<Rightarrow> 5000 | Some op_pendingOrder \<Rightarrow> 10000 | Some op_cancelPendingOrder \<Rightarrow> 2000
     | Some op_transferAutoEx \<Rightarrow> 20000 | _ \<Rightarrow> 0)"

definition tx_hash :: "initializeEnum \<Rightarrow> transaction \<Rightarrow> h256" where
  "tx_hash enum t = (if enum = estimateGas then t_sha3_unsigned t else t_sha3 t)"

section \<open>Checking a transaction\<close>

text \<open>
  \<^verbatim>\<open>SealEngineFace::verifyTransaction\<close> with all requirements. The result is what \<^verbatim>\<open>toTransactionException\<close> makes of
  the exception.
\<close>

definition verifyTransaction :: "host \<Rightarrow> EnvInfo \<Rightarrow> transaction \<Rightarrow> TransactionException" where
  "verifyTransaction h env t =
     (let number = env_number env in
      if number < h_EIP158ForkBlock h \<and> isReplayProtected t then TE_InvalidSignature
      else if number < h_experimentalForkBlock h \<and> t_hasZeroSignature t then TE_InvalidSignature
      else if number \<ge> h_experimentalForkBlock h \<and> t_hasZeroSignature t \<and>
              (t_value t \<noteq> 0 \<or> t_gasPrice t \<noteq> 0 \<or> t_nonce t \<noteq> 0) then TE_Unknown
      else if number \<ge> h_homesteadForkBlock h \<and> t_hasSignature t \<and> \<not> t_lowS t then TE_InvalidSignature
      else if baseGasRequired (h_schedule h number) t > uint (t_gas t) then TE_OutOfGasIntrinsic
      else if uint (env_gasUsed env) + uint (t_gas t) > uint (env_gasLimit env) then TE_BlockGasLimitReached
      else if t_chainId t \<noteq> h_chainID h then TE_InvalidSignature
      else TE_None)"

definition check_nonce :: "EnvInfo \<Rightarrow> initializeEnum \<Rightarrow> transaction \<Rightarrow> unit st" where
  "check_nonce env enum t =
     ebind (egets (\<lambda>s. getNonce s (t_sender t))) (\<lambda>nonceReq.
       if (env_number env \<le> 1740000 \<and> env_chain_id env = 11) \<or> (env_number env \<le> 1200157 \<and> env_chain_id env = 1) \<or>
          enum = rpcinitialize
       then (if t_nonce t < nonceReq then ethrow InvalidNonce else ereturn ())
       else (if t_nonce t \<noteq> nonceReq then ethrow InvalidNonce else ereturn ()))"

definition check_gasPrice :: "host \<Rightarrow> EnvInfo \<Rightarrow> transaction \<Rightarrow> unit st" where
  "check_gasPrice h env t =
     ebind (egets getAveragegasPrice) (\<lambda>average.
       if t_gasPrice t < (if env_number env > gasPriceHeight (h_cfg h) then average else h_minGasPrice h)
       then ethrow InvalidGasPrice else ereturn ())"

text \<open>A transaction that is not for \<^verbatim>\<open>VoteAddress\<close>.\<close>

definition initialize_plain :: "host \<Rightarrow> EnvInfo \<Rightarrow> executive \<Rightarrow> executive st" where
  "initialize_plain h env e =
     (let t = e_t e; totalCost = uint (t_gas t) * uint (t_gasPrice t) in
      ebind (egets (\<lambda>s. (balance s (t_sender t), BRC s (t_sender t)))) (\<lambda>(bal, brc).
        if uint bal < totalCost \<or> brc < t_value t \<or> uint (t_gas t) < e_baseGasRequired e then ethrow ExecutiveFailed
        else ereturn (if env_number env > modifyReciptGasHeight (h_cfg h)
                      then e\<lparr>e_totalGas := of_int totalCost\<rparr> else e)))"

text \<open>The check of a transfer inside a batch, and the orders that buy the cookies for their own cost.\<close>

definition check_transfer :: "transaction \<Rightarrow> operation \<Rightarrow> unit st" where
  "check_transfer t p = (case as_transcation p of
       None \<Rightarrow> ereturn ()
     | Some tr \<Rightarrow> ecatch (verifyTranscation (t_sender t) (to_to tr) (to_Transcation_type tr) (to_Transcation_numbers tr))
                   (rethrown_as BrcTranscationField))"

definition pays_itself :: "operation \<Rightarrow> bool" where
  "pays_itself p = (case as_pendingorder p of
       None \<Rightarrow> False
     | Some pen \<Rightarrow> po_buy_type pen = all_price \<and> po_type pen = buy \<and> po_Token_type pen = TK_FUEL)"

text \<open>
  One operation of a batch. The additional cost of the batch is that of its first operation; the cost is
  compared with the balance except for an automatic exchange and for a market order that buys the cookies.
\<close>

definition read_op :: "nat \<Rightarrow> bytes \<Rightarrow> int \<times> executive \<Rightarrow> (int \<times> executive) st" where
  "read_op n val acc = (case acc of (totalCost, e) \<Rightarrow>
     let ty = get_type val; t = e_t e; first = (e_batch_ops e = []);
         add = c_add_value ty * t_gasPrice t;
         totalCost = (if first then totalCost + uint add else totalCost);
         e1 = (if first then e\<lparr>e_addCostValue := e_addCostValue e + add\<rparr> else e)
     in if e_batch_type e \<noteq> ty \<and> \<not> first then ethrow InvalidFunction
        else if ty \<noteq> Some op_brcTranscation \<and> n > 1 then ethrow InvalidFunction
        else if ty = Some op_brcTranscation \<and> n > 50 then ethrow InvalidFunction
        else (case unserialize ty of
          None \<Rightarrow> ethrow DefaultError
        | Some dec \<Rightarrow> (case dec val of
            Inl _ \<Rightarrow> ethrow RlpFailure
          | Inr p \<Rightarrow>
              ebind (check_transfer t p) (\<lambda>_.
              ebind (egets (\<lambda>s. uint (balance s (t_sender t)) < totalCost)) (\<lambda>short.
                if short \<and> \<not> pays_itself p \<and> ty \<noteq> Some op_transferAutoEx then ethrow ExecutiveFailed
                else ereturn (totalCost, e1\<lparr>e_batch_type := ty, e_batch_ops := e_batch_ops e @ [p]\<rparr>))))))"

text \<open>The base cost an automatic exchange has to pay for.\<close>

definition autoEx_gas :: "executive \<Rightarrow> u256" where
  "autoEx_gas e = (of_int (e_baseGasRequired e) + c_add_value (Some op_transferAutoEx)) * t_gasPrice (e_t e)"

text \<open>The checks on a batch; the handlers around them throw the exception they caught.\<close>

definition verify_batch :: "host \<Rightarrow> EnvInfo \<Rightarrow> initializeEnum \<Rightarrow> int \<Rightarrow> executive \<Rightarrow> unit st" where
  "verify_batch h env enum totalCost e =
     (let t = e_t e; ops = e_batch_ops e in
      case e_batch_type e of
        Some op_vote \<Rightarrow> verifyVote (h_cfg h) (t_sender t) env ops
      | Some op_pendingOrder \<Rightarrow>
          verifyPendingOrders (t_sender t) (of_int totalCost) (env_timestamp env)
            (of_int (e_baseGasRequired e) * t_gasPrice t) (tx_hash enum t) ops
      | Some op_cancelPendingOrder \<Rightarrow> verifyCancelPendingOrders (t_sender t) ops
      | Some op_receivingincome \<Rightarrow> verifyreceivingincomeChanegeMiner (h_cfg h) (t_sender t) ops (env_number env)
      | Some op_changeMiner \<Rightarrow> verifyChangeMiner (h_cfg h) (t_sender t) (env_number env) ops
      | Some op_transferAutoEx \<Rightarrow> verifyTransferAutoEx (h_cfg h) (t_sender t) ops (autoEx_gas e) (tx_hash enum t) env
      | Some op_modifyMinerGasPrice \<Rightarrow> verifyModifyMinerGasPrice (h_cfg h) (t_sender t) (env_number env) ops
      | _ \<Rightarrow> ereturn ())"

text \<open>A transaction for \<^verbatim>\<open>VoteAddress\<close>. The product of gas and price is one of 256-bit integers.\<close>

definition initialize_batch :: "host \<Rightarrow> EnvInfo \<Rightarrow> initializeEnum \<Rightarrow> executive \<Rightarrow> executive st" where
  "initialize_batch h env enum e =
     (let t = e_t e in
      case sbind (RLP_node VeryStrict (t_data t)) (toVector (toBytes LaissezFaire)) of
        Inl _ \<Rightarrow> ethrow RlpFailure
      | Inr ops \<Rightarrow>
          (if ops = [] then ethrow exn.BadRLP
           else
             ebind (efold (read_op (length ops)) ops
                 (uint (t_gas t * t_gasPrice t), e\<lparr>e_addCostValue := 0, e_batch_type := Some op_null, e_batch_ops := []\<rparr>))
               (\<lambda>(totalCost, e).
             if totalCost < uint (t_gasPrice t * of_int (e_baseGasRequired e) + e_addCostValue e) then ethrow ExecutiveFailed
             else
               ebind (verify_batch h env enum totalCost e) (\<lambda>_.
                 ereturn (e\<lparr>e_totalGas := of_int totalCost\<rparr>)))))"

definition new_executive :: "int \<Rightarrow> transaction \<Rightarrow> executive" where
  "new_executive base t =
     \<lparr>e_t = t, e_baseGasRequired = base, e_gas = 0, e_totalGas = 0, e_addCostValue = 0, e_needRefundGas = 0,
      e_excepted = TE_None, e_batch_type = None, e_batch_ops = [], e_ext = None, e_refunds = 0,
      e_selfdestructs = [], e_isCreation = False, e_newAddress = 0, e_savepoint = 0, e_output = []\<rparr>"

text \<open>Of the exceptions of \<^verbatim>\<open>verifyTransaction\<close> only a wrong signature ends \<^verbatim>\<open>initialize\<close>; the others are noted.\<close>

definition initialize :: "host \<Rightarrow> EnvInfo \<Rightarrow> initializeEnum \<Rightarrow> transaction \<Rightarrow> executive st" where
  "initialize h env enum t =
     (let base = baseGasRequired (h_schedule h (env_number env)) t;
          excepted = verifyTransaction h env t;
          e = (new_executive base t)\<lparr>e_excepted := excepted\<rparr>
      in if excepted = TE_InvalidSignature then ethrow InvalidSignature
         else if t_hasZeroSignature t then ereturn e
         else
           ebind (check_nonce env enum t) (\<lambda>_.
           ebind (check_gasPrice h env t) (\<lambda>_.
             if isVoteTranction t then initialize_batch h env enum e else initialize_plain h env e)))"

section \<open>Calls\<close>

definition execute_transfer_BRCs :: "address \<Rightarrow> operation list \<Rightarrow> unit st" where
  "execute_transfer_BRCs addr ops =
     efor ops (\<lambda>val. case as_transcation val of
       None \<Rightarrow> ethrow InvalidDynamic
     | Some p \<Rightarrow> transferBRC addr (to_to p) (to_Transcation_numbers p))"

definition execute_batch :: "host \<Rightarrow> EnvInfo \<Rightarrow> initializeEnum \<Rightarrow> executive \<Rightarrow> unit st" where
  "execute_batch h env enum e =
     (let t = e_t e; ops = e_batch_ops e; number = env_number env in
      case e_batch_type e of
        Some op_vote \<Rightarrow> execute_vote (h_cfg h) (t_sender t) ops env
      | Some op_brcTranscation \<Rightarrow> execute_transfer_BRCs (t_sender t) ops
      | Some op_pendingOrder \<Rightarrow>
          ebind (pendingOrders (h_sha3 h) (h_cfg h) (h_fuel h) (t_sender t) (env_timestamp env) (tx_hash enum t) ops number)
            (\<lambda>_. ereturn ())
      | Some op_cancelPendingOrder \<Rightarrow> cancelPendingOrders ops
      | Some op_changeMiner \<Rightarrow>
          eseq [changeMiner ops, ewhen (number > gasPriceHeight (h_cfg h)) (changeMinerModifyGasPrice ops)]
      | Some op_receivingincome \<Rightarrow> receivingIncome (h_cfg h) (t_sender t) ops number
      | Some op_transferAutoEx \<Rightarrow>
          transferAutoEx (h_sha3 h) (h_cfg h) (h_fuel h) ops (tx_hash enum t) (env_timestamp env) (autoEx_gas e) number
      | Some op_modifyMinerGasPrice \<Rightarrow> modifyGasPrice ops
      | _ \<Rightarrow> ereturn ())"

definition state_code :: "host \<Rightarrow> address \<Rightarrow> chain_state \<Rightarrow> bytes" where
  "state_code h i s = (case accts s i of
       None \<Rightarrow> []
     | Some a \<Rightarrow> (if m_codeHash a = EmptySHA3 then []
                  else if m_codeCache a = [] then h_code_db h (m_codeHash a) else m_codeCache a))"

definition setCode :: "host \<Rightarrow> address \<Rightarrow> bytes \<Rightarrow> unit st" where
  "setCode h i c = eseq [
     ebind (egets (state_code h i)) (\<lambda>old. log_change (Ch_Code i old)),
     upd_account i (acc_setCode (h_sha3 h) c)]"

text \<open>
  \<^verbatim>\<open>call\<close>. The result says whether everything is done; when it is not, \<^verbatim>\<open>go\<close> follows. The second component of
  the first step is false when a precompiled contract ended the call.
\<close>

definition call_target :: "host \<Rightarrow> EnvInfo \<Rightarrow> u256 \<Rightarrow> executive \<Rightarrow> (bool \<times> executive) st" where
  "call_target h env gas e =
     (let t = e_t e; to = t_receiveAddress t; number = env_number env in
      if h_isPrecompiled h to number then
        (let g = h_costOfPrecompiled h to (t_data t) number in
         if uint gas < g then
           ebind (ewhen (number \<ge> h_EIP158ForkBlock h) (addBalance to 0)) (\<lambda>_.
             ereturn (False, e\<lparr>e_excepted := TE_OutOfGasBase\<rparr>))
         else (case h_executePrecompiled h to (t_data t) number of (success, out) \<Rightarrow>
           if success then ereturn (True, e\<lparr>e_gas := of_int (uint gas - g), e_output := out\<rparr>)
           else ereturn (False, e\<lparr>e_gas := 0, e_output := out, e_excepted := TE_OutOfGas\<rparr>)))
      else
        ebind (egets (\<lambda>s. s)) (\<lambda>s.
          ereturn (True, e\<lparr>e_gas := gas, e_ext := (if addressHasCode s to then
            Some \<lparr>vc_myAddress = to, vc_caller = t_sender t, vc_origin = t_sender t, vc_value = t_value t,
              vc_gasPrice = t_gasPrice t, vc_data = t_data t, vc_code = state_code h to s,
              vc_codeHash = m_codeHash (the_account s to), vc_isCreate = False\<rparr>
            else None)\<rparr>)))"

definition call :: "host \<Rightarrow> EnvInfo \<Rightarrow> initializeEnum \<Rightarrow> u256 \<Rightarrow> executive \<Rightarrow> (bool \<times> executive) st" where
  "call h env enum gas e =
     (let t = e_t e in
      ebind (ewhen (t_kind t \<noteq> NullTransaction \<and>
               (t_sender t \<noteq> MaxAddress \<or> env_number env < h_experimentalForkBlock h)) (incNonce (t_sender t))) (\<lambda>_.
      ebind (egets savepoint) (\<lambda>sp.
      ebind (call_target h env gas (e\<lparr>e_savepoint := sp\<rparr>)) (\<lambda>(more, e).
        if \<not> more then ereturn (True, e)
        else if \<not> isVoteTranction t then
          ebind (transferBRC (t_sender t) (t_receiveAddress t) (t_value t)) (\<lambda>_. ereturn (e_ext e = None, e))
        else if e_batch_ops e = [] then ereturn (False, e)
        else ebind (execute_batch h env enum e) (\<lambda>_.
          ereturn (True, e\<lparr>e_batch_type := Some op_null, e_batch_ops := []\<rparr>))))))"

section \<open>Creations\<close>

definition new_contract_address :: "host \<Rightarrow> address \<Rightarrow> u256 \<Rightarrow> rlp_error + address" where
  "new_contract_address h sender nonce =
     sbind (stream_of 2 [append_hash 20 sender, append_word nonce]) (\<lambda>b. Inr (ucast (h_sha3 h b)))"

text \<open>\<^verbatim>\<open>revert\<close> clears the substate and rolls back to the savepoint of the call.\<close>

definition revert :: "host \<Rightarrow> executive \<Rightarrow> executive st" where
  "revert h e =
     ebind (rollback (h_sha3 h) (e_savepoint e)) (\<lambda>_.
       ereturn (e\<lparr>e_refunds := 0, e_selfdestructs := [], e_newAddress := 0\<rparr>))"

definition executeCreate :: "host \<Rightarrow> EnvInfo \<Rightarrow> u256 \<Rightarrow> executive \<Rightarrow> (bool \<times> executive) st" where
  "executeCreate h env gas e =
     (let t = e_t e; new = e_newAddress e; init = t_data t in
      ebind (ewhen (t_sender t \<noteq> MaxAddress \<or> env_number env < h_experimentalForkBlock h) (incNonce (t_sender t))) (\<lambda>_.
      ebind (egets (\<lambda>s. (savepoint s, addressHasCode s new \<or> getNonce s new > 0))) (\<lambda>(sp, exists_already).
      let e = e\<lparr>e_savepoint := sp, e_isCreation := True, e_gas := gas\<rparr> in
      if exists_already then
        ebind (revert h (e\<lparr>e_gas := 0, e_excepted := TE_AddressAlreadyUsed\<rparr>)) (\<lambda>e.
          ereturn (True, e\<lparr>e_ext := None\<rparr>))
      else
        ebind (transferBRC (t_sender t) new (t_value t)) (\<lambda>_.
        ebind requireAccountStartNonce (\<lambda>n.
        ebind (setNonce new (if env_number env \<ge> h_EIP158ForkBlock h then n + 1 else n)) (\<lambda>_.
        ebind (clearStorage new) (\<lambda>_.
          let e = (if init = [] then e else e\<lparr>e_ext := Some
            \<lparr>vc_myAddress = new, vc_caller = t_sender t, vc_origin = t_sender t, vc_value = t_value t,
             vc_gasPrice = t_gasPrice t, vc_data = [], vc_code = init, vc_codeHash = h_sha3 h init,
             vc_isCreate = True\<rparr>\<rparr>)
          in ereturn (e_ext e = None, e))))))))"

definition create :: "host \<Rightarrow> EnvInfo \<Rightarrow> u256 \<Rightarrow> executive \<Rightarrow> (bool \<times> executive) st" where
  "create h env gas e =
     ebind (egets (\<lambda>s. getNonce s (t_sender (e_t e)))) (\<lambda>nonce.
       case new_contract_address h (t_sender (e_t e)) nonce of
         Inl _ \<Rightarrow> ethrow RlpFailure
       | Inr new \<Rightarrow> executeCreate h env gas (e\<lparr>e_newAddress := new\<rparr>))"

section \<open>Running and charging\<close>

definition execute :: "host \<Rightarrow> EnvInfo \<Rightarrow> initializeEnum \<Rightarrow> executive \<Rightarrow> (bool \<times> executive) st" where
  "execute h env enum e =
     (let t = e_t e; base = of_int (e_baseGasRequired e);
          e = e\<lparr>e_needRefundGas := e_totalGas e - base * t_gasPrice t - e_addCostValue e\<rparr>
      in if t_gas t < base then ethrow AssertionFailed
         else
           ebind (if env_number env > modifyReciptGasHeight (h_cfg h) then edivide (e_needRefundGas e) (t_gasPrice t)
                  else ereturn (t_gas t - base)) (\<lambda>gas.
             if t_kind t = ContractCreation then create h env gas e else call h env enum gas e))"

text \<open>The code that a creation leaves, and the gas for storing it.\<close>

definition deposit_code :: "host \<Rightarrow> EnvInfo \<Rightarrow> vm_call \<Rightarrow> bytes \<Rightarrow> executive \<Rightarrow> (bool \<times> executive) st" where
  "deposit_code h env ext out e =
     (let es = h_schedule h (env_number env); cost = of_nat (length out) * createDataGas es in
      if length out > maxCodeSize es then ereturn (False, e)
      else if cost \<le> e_gas e then
        ebind (setCode h (vc_myAddress ext) out) (\<lambda>_. ereturn (True, e\<lparr>e_gas := e_gas e - cost\<rparr>))
      else if exceptionalFailedCodeDeposit es then ereturn (False, e)
      else ebind (setCode h (vc_myAddress ext) []) (\<lambda>_. ereturn (True, e)))"

definition go :: "host \<Rightarrow> EnvInfo \<Rightarrow> executive \<Rightarrow> executive st" where
  "go h env e = (case e_ext e of
     None \<Rightarrow> ereturn e
   | Some ext \<Rightarrow>
       ebind (\<lambda>s. case h_vm h ext (e_gas e) s of (r, s') \<Rightarrow> (Inr r, s')) (\<lambda>r.
       let e = e\<lparr>e_gas := vr_gas r, e_refunds := vr_refunds r, e_selfdestructs := vr_selfdestructs r\<rparr> in
       case vr_end r of
         VM_done out \<Rightarrow>
           (if e_isCreation e then
              ebind (deposit_code h env ext out e) (\<lambda>(ok, e).
                if ok then ereturn e
                else revert h (e\<lparr>e_gas := 0, e_excepted := TE_OutOfGas\<rparr>))
            else ereturn (e\<lparr>e_output := out\<rparr>))
       | VM_reverted out \<Rightarrow>
           ebind (revert h e) (\<lambda>e. ereturn (e\<lparr>e_output := out, e_excepted := TE_RevertInstruction\<rparr>))
       | VM_exception x \<Rightarrow> revert h (e\<lparr>e_gas := 0, e_excepted := x\<rparr>)
       | VM_internal \<Rightarrow> ebind (revert h e) (\<lambda>_. ethrow InternalVMError)
       | VM_unexpected \<Rightarrow> ethrow ProcessExit))"

text \<open>The refund of the interpreter, at most half of the gas used.\<close>

definition apply_refunds :: "host \<Rightarrow> EnvInfo \<Rightarrow> executive \<Rightarrow> executive" where
  "apply_refunds h env e = (case e_ext e of
       None \<Rightarrow> e
     | Some _ \<Rightarrow>
         (let refunds = e_refunds e + suicideRefundGas (h_schedule h (env_number env)) * int (length (e_selfdestructs e));
              maxRefund = (h_to_int64 h (t_gas (e_t e)) - h_to_int64 h (e_gas e)) sdiv 2
          in e\<lparr>e_refunds := refunds, e_gas := e_gas e + of_int (min maxRefund refunds)\<rparr>))"

text \<open>Charging a fee: the sender pays, the income of the witness or of the address mapped to it grows.\<close>

definition fee_income :: "host \<Rightarrow> EnvInfo \<Rightarrow> u256 \<Rightarrow> unit st" where
  "fee_income h env fee =
     ebind (egets (\<lambda>s. minerMapping s (env_author env))) (\<lambda>mapping.
       let up_addr = (if env_number env \<ge> newChangeHeight (h_cfg h) \<and> fst mapping \<noteq> 0 then fst mapping else env_author env)
       in eseq [try_new_vote_snapshot (h_cfg h) up_addr (of_int (env_number env)), addCooikeIncomeNum up_addr fee])"

definition finalize :: "host \<Rightarrow> EnvInfo \<Rightarrow> executive \<Rightarrow> (bool \<times> executive) st" where
  "finalize h env e =
     (let e = apply_refunds h env e; t = e_t e in
      ebind (if t_kind t = NullTransaction then ereturn ()
             else if env_number env \<ge> modifyReciptGasHeight (h_cfg h) then
               (let fee = e_totalGas e - e_gas e * t_gasPrice t in
                eseq [subBalance (t_sender t) fee, fee_income h env fee])
             else
               (let fee = e_totalGas e - e_needRefundGas e in
                eseq [subBalance (t_sender t) fee,
                      addBlockReward (env_author env) (of_int (env_number env)) fee,
                      fee_income h env fee])) (\<lambda>_.
      ebind (ewhen (e_ext e \<noteq> None) (efor (e_selfdestructs e) kill)) (\<lambda>_.
        ereturn (e_excepted e = TE_None, e))))"

definition gasUsed :: "host \<Rightarrow> EnvInfo \<Rightarrow> executive \<Rightarrow> u256" where
  "gasUsed h env e =
     (if env_number env > modifyReciptGasHeight (h_cfg h) then e_totalGas e div t_gasPrice (e_t e) - e_gas e
      else if env_chain_id env = TESTCHAINID \<and> env_number env \<ge> newBifurcationBvmHeight (h_cfg h)
      then e_totalGas e - e_needRefundGas e
      else t_gas (e_t e) - e_gas e)"

definition run_transaction :: "host \<Rightarrow> EnvInfo \<Rightarrow> initializeEnum \<Rightarrow> transaction \<Rightarrow> (bool \<times> executive) st" where
  "run_transaction h env enum t =
     executeTransaction (h_sha3 h)
       (ebind (initialize h env enum t) (\<lambda>e.
        ebind (execute h env enum e) (\<lambda>(finished, e).
        ebind (if finished then ereturn e else go h env e) (finalize h env))))"

text \<open>\<^verbatim>\<open>State::executeBlockTransactions\<close>: the gas used so far is part of the environment of the next one.\<close>

fun executeBlockTransactions :: "host \<Rightarrow> EnvInfo \<Rightarrow> u256 \<Rightarrow> transaction list \<Rightarrow> unit st" where
  "executeBlockTransactions h env used [] = ereturn ()"
| "executeBlockTransactions h env used (t # ts) =
     (let env = env\<lparr>env_gasUsed := used\<rparr> in
      ebind (run_transaction h env executeinitialize t) (\<lambda>(_, e).
        executeBlockTransactions h env (used + gasUsed h env e) ts))"

end
