(* ===== verification/Nonces.thy ===== *)
theory Nonces
  imports Executive
begin

text \<open>
  The nonce of an account. No operation of the chain writes the nonce of an account that exists: only
  \<^verbatim>\<open>Executive::call\<close> does, once per transaction. That is what keeps a signed transaction from being executed
  twice.
\<close>

section \<open>Operations keep nonces\<close>

definition nonces_kept :: "chain_state \<Rightarrow> chain_state \<Rightarrow> bool" where
  "nonces_kept s s' \<longleftrightarrow> accountStartNonce s' = accountStartNonce s \<and>
     (\<forall>i a. accts s i = Some a \<longrightarrow> (\<exists>a'. accts s' i = Some a' \<and> m_nonce a' = m_nonce a))"

interpretation nonces: step_relation nonces_kept
proof
  show "nonces_kept s u" if "nonces_kept s t" "nonces_kept t u" for s t u
    using that unfolding nonces_kept_def by metis
qed (simp add: nonces_kept_def)

lemma nonce_get_account: "keeps nonces_kept (get_account i)"
  unfolding get_account_def by (intro nonces.keeps_rules)

lemma nonce_log: "keeps nonces_kept (log_change c)"
  by (auto simp: keeps_def nonces_kept_def log_change_def)

lemma nonce_upd: "(\<And>a. m_nonce (g a) = m_nonce a) \<Longrightarrow> keeps nonces_kept (upd_account i g)"
  by (auto simp: keeps_def nonces_kept_def upd_account_def)

lemma nonce_upd_ub: "(\<And>a a'. g a = Some a' \<Longrightarrow> m_nonce a' = m_nonce a) \<Longrightarrow> keeps nonces_kept (upd_account_ub i g)"
  by (auto simp: keeps_def nonces_kept_def upd_account_ub_def run_simps split: option.splits)

lemma nonce_create: "keeps nonces_kept (createAccount i a)"
  by (auto simp: keeps_def nonces_kept_def createAccount_def run_simps split: option.splits)

lemma nonce_start: "keeps nonces_kept requireAccountStartNonce"
  unfolding requireAccountStartNonce_def by (intro nonces.keeps_rules)

lemma nonce_touch: "keeps nonces_kept (touch_if_empty i a)"
  unfolding touch_if_empty_def by (intro nonces.keeps_rules nonce_log)

text \<open>What the members of an account do to its nonce.\<close>

lemma member_nonce [simp]:
  "m_nonce (acc_addBRC x a) = m_nonce a" "m_nonce (acc_addBalance x a) = m_nonce a"
  "m_nonce (acc_addFBRC x a) = m_nonce a" "m_nonce (acc_addFBalance x a) = m_nonce a"
  "m_nonce (acc_addBallot x a) = m_nonce a" "m_nonce (acc_addPoll x a) = m_nonce a"
  "m_nonce (acc_addCooikeIncome x a) = m_nonce a" "m_nonce (clear_vote_data a) = m_nonce a"
  "m_nonce (manageSysVote i b p t a) = m_nonce a" "m_nonce (set_vote_data ps a) = m_nonce a"
  "m_nonce (setChangeMiner q a) = m_nonce a" "m_nonce (setMinerGasPrice i p a) = m_nonce a"
  "m_nonce (setMinerGasPrices m a) = m_nonce a" "m_nonce (addSetreceivedCookie r i w a) = m_nonce a"
  "m_nonce (updateNumofround r a) = m_nonce a" "m_nonce (setCouplingSystemFeeSnapshot c a) = m_nonce a"
  "m_nonce (addExOrderMulti od a) = m_nonce a" "m_nonce (snd (removeExOrderMulti h a)) = m_nonce a"
  "m_nonce (addBlockRewardRecoding v a) = m_nonce a"
  by (simp_all add: account_op_defs manageSysVote_def clear_vote_data_def setChangeMiner_def setMinerGasPrice_def
      setMinerGasPrices_def addSetreceivedCookie_def updateNumofround_def setCouplingSystemFeeSnapshot_def set_vote_data_def
      addExOrderMulti_def removeExOrderMulti_def addBlockRewardRecoding_def changed_def Let_def split: option.splits)

lemma nonce_members_ub:
  "keeps nonces_kept (upd_account_ub i (addVote v))" "keeps nonces_kept (upd_account_ub i (set_system_poll p))"
  "keeps nonces_kept (upd_account_ub i (try_new_snapshot r))"
  by (rule nonce_upd_ub; auto simp: addVote_def set_system_poll_def try_new_snapshot_def changed_def Let_def
      split: option.splits if_splits)+

lemmas nonce_base = nonces.keeps_rules nonce_get_account nonce_log nonce_upd nonce_members_ub nonce_create nonce_start
  nonce_touch member_nonce

lemma nonce_add:
  "keeps nonces_kept (addBRC i x)" "keeps nonces_kept (addBalance i x)" "keeps nonces_kept (addFBRC i x)"
  "keeps nonces_kept (addFBalance i x)" "keeps nonces_kept (addBallot i x)" "keeps nonces_kept (addPoll i x)"
  "keeps nonces_kept (addCooikeIncomeNum i x)" "keeps nonces_kept (addBlockReward i n x)"
  unfolding addBRC_def addBalance_def addFBRC_def addFBalance_def addBallot_def addPoll_def addCooikeIncomeNum_def
    addBlockReward_def eseq.simps
  by (intro nonce_base)+

lemma nonce_sub:
  "keeps nonces_kept (subBRC i x)" "keeps nonces_kept (subBalance i x)" "keeps nonces_kept (subFBRC i x)"
  "keeps nonces_kept (subFBalance i x)" "keeps nonces_kept (subBallot i x)" "keeps nonces_kept (subPoll i x)"
  "keeps nonces_kept (setCookieIncomeNum i x)"
  unfolding subBRC_def subBalance_def subFBRC_def subFBalance_def subBallot_def subPoll_def setCookieIncomeNum_def
  by (intro nonce_base nonce_add)+

lemmas nonce_amounts = nonce_add nonce_sub

interpretation trading_nonces: exchange_steps nonces_kept
  by unfold_locales
    (auto simp: freezeBRC_def freezeBalance_def add_exchangeOrder_def addExchangeOrder_def remove_exchangeOrder_def
      removeExchangeOrder_def getExOrder_def intro!: nonce_base nonce_amounts)

lemma nonce_ensure: "keeps nonces_kept (ensure_account i)" "keeps nonces_kept (ensure_miner i)"
  unfolding ensure_account_def ensure_miner_def by (intro nonce_base)+

lemma nonce_snapshot: "keeps nonces_kept (try_new_vote_snapshot cfg i n)"
  unfolding try_new_vote_snapshot_def Let_def eseq.simps
  by (intro nonce_base nonce_ensure nonce_amounts)

lemma nonce_snapshots: "keeps nonces_kept (trySnapshotWithMinerMapping cfg i n)"
  unfolding trySnapshotWithMinerMapping_def eseq.simps by (intro nonce_base nonce_snapshot)

lemma nonce_ballots: "keeps nonces_kept (transferBallotBuy i n)" "keeps nonces_kept (transferBallotSell i n)"
  unfolding transferBallotBuy_def transferBallotSell_def eseq.simps by (intro nonce_base nonce_amounts)+

lemma nonce_delegate: "keeps nonces_kept (add_vote i p)" "keeps nonces_kept (sub_vote i p)"
  unfolding add_vote_def sub_vote_def Let_def eseq.simps
  by (intro nonce_base)+

lemma nonce_register: "keeps nonces_kept (addSysVoteDate i j)" "keeps nonces_kept (subSysVoteDate i j)"
  unfolding addSysVoteDate_def subSysVoteDate_def eseq.simps by (intro nonce_base)+

lemma nonce_execute_vote: "keeps nonces_kept (execute_vote cfg i ops info)"
proof -
  have "keeps nonces_kept (execute_vote_one cfg i info val)" for val
    unfolding execute_vote_one_def Let_def
    by (cases "as_vote val"; cases "VoteType_of (vo_vote_type (the (as_vote val)))")
      (auto intro!: nonce_base nonce_snapshots nonce_ballots nonce_delegate nonce_register split: VoteType.split)
  then show ?thesis unfolding execute_vote_def by (intro nonce_base)
qed

lemma nonce_mapping: "keeps nonces_kept (move_mapping i j)"
  unfolding move_mapping_def chain_mapping_def link_mapping_def log_mapping_def set_mapping_def eseq.simps
  by (intro nonce_base nonce_ensure)

lemma nonce_changeMiner: "keeps nonces_kept (changeMiner ops)"
  unfolding changeMiner_def Let_def eseq.simps by (intro nonce_base nonce_ensure nonce_mapping)

lemma nonce_gasPrice: "keeps nonces_kept (modifyGasPrice ops)" "keeps nonces_kept (changeMinerModifyGasPrice ops)"
  unfolding modifyGasPrice_def modifyGasPrice_one_def changeMinerModifyGasPrice_def changeMinerModifyGasPrice_one_def eseq.simps
  by (intro nonce_base)+

lemma nonce_blockFee: "keeps nonces_kept (receivingBlockFeeIncome cfg i n)"
  unfolding receivingBlockFeeIncome_def round_income_def vote_income_def pay_total_def Let_def eseq.simps
  by (intro nonce_base nonce_snapshots nonce_amounts)

lemma nonce_pdFee: "keeps nonces_kept (anytime_receivingPdFeeIncome cfg i n b)"
  unfolding anytime_receivingPdFeeIncome_def Let_def eseq.simps by (intro nonce_base)

lemma nonce_income: "keeps nonces_kept (receivingIncome cfg i ops n)"
proof -
  have "keeps nonces_kept (receive_one cfg i n val)" for val
  proof (cases "as_receivingincome val")
    case (Some op)
    then show ?thesis
      by (cases "ReceivingType_of (ri_receivingType op)")
        (auto simp: receive_one_def Let_def intro!: nonce_base nonce_blockFee nonce_pdFee nonce_amounts
          split: ReceivingType.split)
  qed (auto simp: receive_one_def intro!: nonce_base)
  then show ?thesis unfolding receivingIncome_def by (intro nonce_base nonce_snapshots)
qed

section \<open>Checks keep nonces\<close>

lemma nonce_checked_snapshot: "keeps nonces_kept (checked_snapshot cfg n i)"
  by (auto simp: keeps_def nonces_kept_def checked_snapshot_def try_new_temp_snapshot_def try_new_snapshot_def changed_def
      run_simps the_account_def Let_def split: option.splits)

lemma nonce_ecaught: "keeps nonces_kept m \<Longrightarrow> keeps nonces_kept (ecaught e m)"
  by (auto simp: keeps_def ecaught_def split: prod.splits sum.splits) (metis snd_conv)+

lemma keeps_case_list:
  "(xs = [] \<Longrightarrow> keeps R m) \<Longrightarrow> (\<And>y ys. xs = y # ys \<Longrightarrow> keeps R (f y ys)) \<Longrightarrow>
   keeps R (case xs of [] \<Rightarrow> m | y # ys \<Rightarrow> f y ys)"
  by (cases xs) auto

lemma nonce_verify_fees: "keeps nonces_kept (verifyBlockFeeincome cfg i n)" "keeps nonces_kept (verifyPdFeeincome cfg i n)"
  unfolding verifyBlockFeeincome_def verifyPdFeeincome_def Let_def
  by (intro nonce_base nonce_checked_snapshot keeps_case_list)+

lemma nonce_verifyreceivingincome: "keeps nonces_kept (verifyreceivingincome cfg i ops n)"
  unfolding verifyreceivingincome_def
  by (intro nonce_base) (auto intro!: nonce_base nonce_verify_fees split: option.split ReceivingType.split)

lemma nonce_verifyreceivingincomeChanegeMiner: "keeps nonces_kept (verifyreceivingincomeChanegeMiner cfg i ops n)"
  unfolding verifyreceivingincomeChanegeMiner_def
  by (intro nonce_base nonce_ecaught nonce_verifyreceivingincome)

lemma nonce_verifyChangeMiner: "keeps nonces_kept (verifyChangeMiner cfg i n ops)"
  unfolding verifyChangeMiner_def by (intro nonce_base nonce_ensure)

lemmas nonce_checks = trading_nonces.verifyVote trading_nonces.verifyPendingOrders trading_nonces.verifyCancelPendingOrders
  trading_nonces.verifyTransferAutoEx trading_nonces.verifyModifyMinerGasPrice nonce_verifyreceivingincomeChanegeMiner
  nonce_verifyChangeMiner

section \<open>Transactions\<close>

lemma nonce_verify_batch: "keeps nonces_kept (verify_batch h env enum c e)"
  unfolding verify_batch_def Let_def
  by (auto intro!: nonce_base nonce_checks split: option.split op_type.split)

lemma nonce_execute_batch: "keeps nonces_kept (execute_batch h env enum e)"
  unfolding execute_batch_def execute_transfer_BRCs_def Let_def eseq.simps
  by (auto intro!: nonce_base nonce_execute_vote trading_nonces.transferBRC trading_nonces.pendingOrders
      trading_nonces.cancelPendingOrders nonce_changeMiner nonce_gasPrice nonce_income trading_nonces.transferAutoEx
      split: option.split op_type.split)

end
