(* ===== verification/TxLaws.thy ===== *)
theory TxLaws
  imports Nonces
begin

text \<open>
  What \<^verbatim>\<open>initialize\<close> establishes about a batch, and what the phases of a transaction keep of the executive.
\<close>

section \<open>Checks that leave the state alone\<close>

lemma check_transfer_state: "check_transfer t p s = (r, s') \<Longrightarrow> s' = s"
  by (auto simp: check_transfer_def ecatch_def verifyTranscation_def ebind_def split: option.splits if_splits)

lemma check_nonce_state: "snd (check_nonce env enum t s) = s"
  by (simp add: check_nonce_def ebind_def)

lemma check_gasPrice_state: "snd (check_gasPrice h env t s) = s"
  by (simp add: check_gasPrice_def ebind_def)

section \<open>Decoding a batch\<close>

definition decodes :: "op_type option \<Rightarrow> bytes \<Rightarrow> operation \<Rightarrow> bool" where
  "decodes ty b p \<longleftrightarrow> get_type b = ty \<and> (\<exists>dec. unserialize ty = Some dec \<and> dec b = Inr p)"

lemma read_op_result:
  assumes "read_op n val (c, e) s = (Inr (c', e'), s')"
  defines "add \<equiv> c_add_value (get_type val) * t_gasPrice (e_t e)"
  obtains p where "s' = s" and "decodes (get_type val) val p"
    and "e_batch_ops e = [] \<or> e_batch_type e = get_type val"
    and "c' = (if e_batch_ops e = [] then c + uint add else c)"
    and "e' = e\<lparr>e_addCostValue := (if e_batch_ops e = [] then e_addCostValue e + add else e_addCostValue e),
      e_batch_type := get_type val, e_batch_ops := e_batch_ops e @ [p]\<rparr>"
    and "get_type val = Some op_brcTranscation \<or> n \<le> 1" and "fst (check_transfer (e_t e) p s) = Inr ()"
    and "uint (balance s (t_sender (e_t e))) \<ge> c' \<or> pays_itself p \<or> get_type val = Some op_transferAutoEx"
proof -
  let ?ty = "get_type val"
  from assms(1) obtain dec p where dec: "unserialize ?ty = Some dec" "dec val = Inr p"
    by (auto simp: read_op_def Let_def split: if_splits option.splits sum.splits)
  have ok: "check_transfer (e_t e) p s = (Inr (), s)"
    using assms(1) dec check_transfer_state [of "e_t e" p s]
    by (auto simp: read_op_def Let_def ebind_def split: if_splits prod.splits sum.splits)
  show thesis
    by (rule that [of p])
      (use assms(1) dec ok in \<open>auto simp: read_op_def add_def decodes_def Let_def ebind_def split: if_splits\<close>)
qed

lemma read_more_ops:
  assumes "efold (read_op n) vals (c, e) s = (Inr (c', e'), s')" and "e_batch_ops e \<noteq> []"
  obtains ps where "s' = s" and "c' = c" and "e' = e\<lparr>e_batch_ops := e_batch_ops e @ ps\<rparr>"
    and "list_all2 (decodes (e_batch_type e)) vals ps"
    and "\<forall>p\<in>set ps. fst (check_transfer (e_t e) p s) = Inr ()"
  using assms
proof (induction vals arbitrary: c e thesis)
  case Nil
  then show ?case by simp
next
  case (Cons v vals)
  from Cons.prems(2) obtain c1 e1 s1 where one: "read_op n v (c, e) s = (Inr (c1, e1), s1)"
      and rest: "efold (read_op n) vals (c1, e1) s1 = (Inr (c', e'), s')"
    by (auto elim!: ebind_InrE)
  obtain p where raw: "s1 = s" "decodes (get_type v) v p" "e_batch_ops e = [] \<or> e_batch_type e = get_type v"
      "c1 = (if e_batch_ops e = [] then c + uint (c_add_value (get_type v) * t_gasPrice (e_t e)) else c)"
      "e1 = e\<lparr>e_addCostValue := (if e_batch_ops e = [] then e_addCostValue e + c_add_value (get_type v) * t_gasPrice (e_t e)
        else e_addCostValue e), e_batch_type := get_type v, e_batch_ops := e_batch_ops e @ [p]\<rparr>"
      "fst (check_transfer (e_t e) p s) = Inr ()"
    by (rule read_op_result [OF one])
  with Cons.prems(3) have p: "s1 = s" "decodes (e_batch_type e) v p" "c1 = c" "e1 = e\<lparr>e_batch_ops := e_batch_ops e @ [p]\<rparr>"
      "fst (check_transfer (e_t e) p s) = Inr ()"
    by (cases e; simp)+
  from Cons.IH [of c e1] rest p obtain ps where "s' = s" "c' = c" "e' = e1\<lparr>e_batch_ops := e_batch_ops e1 @ ps\<rparr>"
      "list_all2 (decodes (e_batch_type e)) vals ps" "\<forall>p\<in>set ps. fst (check_transfer (e_t e) p s) = Inr ()"
    by auto
  with p show ?case by (intro Cons.prems(1) [of "p # ps"]) auto
qed

text \<open>A batch that is read: one type, one operation unless they are transfers, each one decoded from its bytes.\<close>

lemma read_ops_result:
  assumes "efold (read_op n) vals (c, e) s = (Inr (c', e'), s')" and "e_batch_ops e = []" and "vals \<noteq> []"
    and "n = length vals"
  obtains ty ps where "s' = s" and "ps \<noteq> []" and "list_all2 (decodes ty) vals ps"
    and "c' = c + uint (c_add_value ty * t_gasPrice (e_t e))"
    and "e' = e\<lparr>e_addCostValue := e_addCostValue e + c_add_value ty * t_gasPrice (e_t e), e_batch_type := ty, e_batch_ops := ps\<rparr>"
    and "ty = Some op_brcTranscation \<or> length ps = 1"
    and "\<forall>p\<in>set ps. fst (check_transfer (e_t e) p s) = Inr ()"
    and "uint (balance s (t_sender (e_t e))) \<ge> c' \<or> pays_itself (hd ps) \<or> ty = Some op_transferAutoEx"
proof -
  from assms(3) obtain v vs where vals: "vals = v # vs" by (cases vals) auto
  with assms(1) obtain c1 e1 s1 where one: "read_op n v (c, e) s = (Inr (c1, e1), s1)"
      and rest: "efold (read_op n) vs (c1, e1) s1 = (Inr (c', e'), s')"
    by (auto elim!: ebind_InrE)
  let ?ty = "get_type v"
  obtain p where p: "s1 = s" "decodes ?ty v p"
      "c1 = (if e_batch_ops e = [] then c + uint (c_add_value ?ty * t_gasPrice (e_t e)) else c)"
      "e1 = e\<lparr>e_addCostValue := (if e_batch_ops e = [] then e_addCostValue e + c_add_value ?ty * t_gasPrice (e_t e)
        else e_addCostValue e), e_batch_type := ?ty, e_batch_ops := e_batch_ops e @ [p]\<rparr>"
      "?ty = Some op_brcTranscation \<or> n \<le> 1" "fst (check_transfer (e_t e) p s) = Inr ()"
      "uint (balance s (t_sender (e_t e))) \<ge> c1 \<or> pays_itself p \<or> ?ty = Some op_transferAutoEx"
    by (rule read_op_result [OF one])
  note p = p [unfolded assms(2), simplified]
  from read_more_ops [OF rest [unfolded p(1)]] p(4) obtain ps where ps: "s' = s" "c' = c1"
      "e' = e1\<lparr>e_batch_ops := [p] @ ps\<rparr>" "list_all2 (decodes ?ty) vs ps"
      "\<forall>q\<in>set ps. fst (check_transfer (e_t e) q s) = Inr ()"
    by (auto simp: p(1))
  show thesis
    by (rule that [of "p # ps" ?ty])
      (use p ps vals assms(4) list_all2_lengthD [OF ps(4)] in \<open>auto\<close>)
qed

section \<open>What initialize establishes\<close>

definition base_gas :: "host \<Rightarrow> EnvInfo \<Rightarrow> transaction \<Rightarrow> int" where
  "base_gas h env t = baseGasRequired (h_schedule h (env_number env)) t"

text \<open>The executive after a batch of operations \<open>ps\<close> of type \<open>ty\<close> was read and checked.\<close>

definition batch_executive :: "host \<Rightarrow> EnvInfo \<Rightarrow> transaction \<Rightarrow> op_type option \<Rightarrow> operation list \<Rightarrow> executive" where
  "batch_executive h env t ty ps =
     (new_executive (base_gas h env t) t)\<lparr>e_excepted := verifyTransaction h env t,
       e_addCostValue := c_add_value ty * t_gasPrice t, e_batch_type := ty, e_batch_ops := ps,
       e_totalGas := t_gas t * t_gasPrice t + c_add_value ty * t_gasPrice t\<rparr>"

lemma verify_batch_totalGas: "verify_batch h env enum c (e\<lparr>e_totalGas := g\<rparr>) = verify_batch h env enum c e"
  by (simp add: verify_batch_def autoEx_gas_def Let_def split: option.split op_type.split)

lemma initialize_vote:
  assumes "initialize h env enum t s = (Inr e, s')" and "isVoteTranction t" and "\<not> t_hasZeroSignature t"
  obtains vals ty ps c where "e = batch_executive h env t ty ps" and "ps \<noteq> []"
    and "sbind (RLP_node VeryStrict (t_data t)) (toVector (toBytes LaissezFaire)) = Inr vals"
    and "list_all2 (decodes ty) vals ps" and "ty = Some op_brcTranscation \<or> length ps = 1"
    and "c = uint (t_gas t * t_gasPrice t) + uint (c_add_value ty * t_gasPrice t)"
    and "c \<ge> uint (t_gasPrice t * of_int (base_gas h env t) + c_add_value ty * t_gasPrice t)"
    and "fst (check_nonce env enum t s) = Inr ()" and "fst (check_gasPrice h env t s) = Inr ()"
    and "\<forall>p\<in>set ps. fst (check_transfer t p s) = Inr ()"
    and "uint (balance s (t_sender t)) \<ge> c \<or> pays_itself (hd ps) \<or> ty = Some op_transferAutoEx"
    and "verify_batch h env enum c e s = (Inr (), s')"
proof -
  let ?e0 = "(new_executive (base_gas h env t) t)\<lparr>e_excepted := verifyTransaction h env t, e_addCostValue := 0,
      e_batch_type := Some op_null, e_batch_ops := []\<rparr>"
  from assms have nonce: "fst (check_nonce env enum t s) = Inr ()" and price: "fst (check_gasPrice h env t s) = Inr ()"
    and run: "initialize_batch h env enum ((new_executive (base_gas h env t) t)\<lparr>e_excepted := verifyTransaction h env t\<rparr>) s = (Inr e, s')"
    using check_nonce_state [of env enum t s] check_gasPrice_state [of h env t s]
    by (auto simp: initialize_def base_gas_def Let_def ebind_def split: if_splits prod.splits sum.splits)
  from run obtain vals where vals: "sbind (RLP_node VeryStrict (t_data t)) (toVector (toBytes LaissezFaire)) = Inr vals"
    by (auto simp: initialize_batch_def new_executive_def Let_def split: sum.splits)
  with run obtain c e1 s1 where fold: "efold (read_op (length vals)) vals (uint (t_gas t * t_gasPrice t), ?e0) s = (Inr (c, e1), s1)"
      and nonempty: "vals \<noteq> []" and enough: "c \<ge> uint (t_gasPrice t * of_int (e_baseGasRequired e1) + e_addCostValue e1)"
      and verify: "verify_batch h env enum c e1 s1 = (Inr (), s')" and e: "e = e1\<lparr>e_totalGas := of_int c\<rparr>"
    by (auto simp: initialize_batch_def new_executive_def Let_def split: if_splits elim!: ebind_InrE)
  obtain ty ps where r: "s1 = s" "ps \<noteq> []" "list_all2 (decodes ty) vals ps"
      "c = uint (t_gas t * t_gasPrice t) + uint (c_add_value ty * t_gasPrice (e_t ?e0))"
      "e1 = ?e0\<lparr>e_addCostValue := e_addCostValue ?e0 + c_add_value ty * t_gasPrice (e_t ?e0), e_batch_type := ty, e_batch_ops := ps\<rparr>"
      "ty = Some op_brcTranscation \<or> length ps = 1" "\<forall>p\<in>set ps. fst (check_transfer (e_t ?e0) p s) = Inr ()"
      "uint (balance s (t_sender (e_t ?e0))) \<ge> c \<or> pays_itself (hd ps) \<or> ty = Some op_transferAutoEx"
    by (rule read_ops_result [OF fold]) (use nonempty in auto)
  have t0: "e_t ?e0 = t" and base: "e_baseGasRequired e1 = base_gas h env t" "e_addCostValue e1 = c_add_value ty * t_gasPrice t"
    unfolding r(5) by (simp_all add: new_executive_def)
  have "e = batch_executive h env t ty ps"
    unfolding e r(5) using r(4) by (simp add: batch_executive_def new_executive_def)
  moreover have "verify_batch h env enum c e s = (Inr (), s')"
    using verify unfolding e verify_batch_totalGas r(1) .
  ultimately show thesis
    using that [of ty ps vals c] r enough nonce price vals unfolding t0 base by auto
qed

section \<open>Running a batch\<close>

lemma call_target_frame:
  assumes "call_target h env gas e s = (Inr (goon, e'), s')"
  shows "e_t e' = e_t e \<and> e_batch_type e' = e_batch_type e \<and> e_batch_ops e' = e_batch_ops e \<and> e_selfdestructs e' = e_selfdestructs e \<and>
    e_totalGas e' = e_totalGas e \<and> e_needRefundGas e' = e_needRefundGas e \<and> e_baseGasRequired e' = e_baseGasRequired e \<and>
    e_refunds e' = e_refunds e"
  using assms by (auto simp: call_target_def Let_def ebind_def split: if_splits prod.splits sum.splits)

lemma execute_batch_frame:
  assumes "e_t e' = e_t e" "e_batch_type e' = e_batch_type e" "e_batch_ops e' = e_batch_ops e"
    "e_baseGasRequired e' = e_baseGasRequired e"
  shows "execute_batch h env enum e' = execute_batch h env enum e"
  by (simp add: assms execute_batch_def autoEx_gas_def Let_def split: option.split op_type.split)

lemma call_vote:
  assumes "call h env enum gas e s = (Inr (finished, e'), s')" and "isVoteTranction (e_t e)" and "e_batch_ops e \<noteq> []"
    and "t_kind (e_t e) \<noteq> NullTransaction" and "t_sender (e_t e) \<noteq> MaxAddress"
  obtains s1 goon e2 s2 where "incNonce (t_sender (e_t e)) s = (Inr (), s1)"
    and "call_target h env gas (e\<lparr>e_savepoint := savepoint s1\<rparr>) s1 = (Inr (goon, e2), s2)"
    and "finished" and "e' = (if goon then e2\<lparr>e_batch_type := Some op_null, e_batch_ops := []\<rparr> else e2)"
    and "if goon then execute_batch h env enum e s2 = (Inr (), s') else s' = s2"
proof -
  from assms(1,4,5) obtain s1 goon e2 s2 where run: "incNonce (t_sender (e_t e)) s = (Inr (), s1)"
      "call_target h env gas (e\<lparr>e_savepoint := savepoint s1\<rparr>) s1 = (Inr (goon, e2), s2)"
      and rest: "(if \<not> goon then ereturn (True, e2)
        else if \<not> isVoteTranction (e_t e) then
          ebind (transferBRC (t_sender (e_t e)) (t_receiveAddress (e_t e)) (t_value (e_t e))) (\<lambda>_. ereturn (e_ext e2 = None, e2))
        else if e_batch_ops e2 = [] then ereturn (False, e2)
        else ebind (execute_batch h env enum e2) (\<lambda>_.
          ereturn (True, e2\<lparr>e_batch_type := Some op_null, e_batch_ops := []\<rparr>))) s2 = (Inr (finished, e'), s')"
    by (auto simp: call_def Let_def elim!: ebind_InrE)
  note frame = call_target_frame [OF run(2)]
  then have "execute_batch h env enum e2 = execute_batch h env enum e" by (intro execute_batch_frame) auto
  with rest assms(2,3) frame show thesis
    by (intro that [OF run]) (auto split: if_splits elim!: ebind_InrE)
qed

lemma nonce_call_target: "keeps nonces_kept (call_target h env gas e)"
  unfolding call_target_def Let_def by (intro nonce_base nonce_amounts)

lemma nonce_fee_income: "keeps nonces_kept (fee_income h env fee)"
  unfolding fee_income_def Let_def eseq.simps by (intro nonce_base nonce_snapshot nonce_amounts)

lemma nonce_finalize: "e_selfdestructs e = [] \<Longrightarrow> keeps nonces_kept (finalize h env e)"
  unfolding finalize_def Let_def eseq.simps apply_refunds_def
  by (intro nonce_base nonce_amounts nonce_fee_income; simp split: option.splits)

lemma incNonce_effect: "incNonce i s = (Inr (), s') \<Longrightarrow> accts s i \<noteq> None \<Longrightarrow> getNonce s' i = getNonce s i + 1 \<and> accts s' i \<noteq> None"
  by (auto simp: incNonce_def run_simps getNonce_def acc_incNonce_def changed_def split: option.splits)

lemma nonces_keptD:
  "nonces_kept s s' \<Longrightarrow> accts s i \<noteq> None \<Longrightarrow> getNonce s' i = getNonce s i \<and> accts s' i \<noteq> None"
  by (fastforce simp: nonces_kept_def getNonce_def)

lemma keeps_run: "keeps R m \<Longrightarrow> m s = (r, s') \<Longrightarrow> R s s'"
  using keepsD [of R m s] by simp

text \<open>The phases of a batch that ends well.\<close>

lemma run_vote_phases:
  assumes "run_transaction h env enum t s = (Inr r, s')"
  obtains e s1 fin e1 s2 e2 s3 where "initialize h env enum t s = (Inr e, s1)" and "execute h env enum e s1 = (Inr (fin, e1), s2)"
    and "(if fin then ereturn e1 else go h env e1) s2 = (Inr e2, s3)" and "finalize h env e2 s3 = (Inr r, s')"
  using assms executeTransaction_Inr unfolding run_transaction_def by (fastforce elim!: ebind_InrE)

definition refund_gas :: "executive \<Rightarrow> u256" where
  "refund_gas e = e_totalGas e - of_int (e_baseGasRequired e) * t_gasPrice (e_t e) - e_addCostValue e"

lemma execute_call:
  assumes "execute h env enum e s = (Inr r, s')" and "t_kind (e_t e) = MessageCall"
  obtains gas where "call h env enum gas (e\<lparr>e_needRefundGas := refund_gas e\<rparr>) s = (Inr r, s')"
    and "gas = (if env_number env > modifyReciptGasHeight (h_cfg h) then refund_gas e div t_gasPrice (e_t e)
      else t_gas (e_t e) - of_int (e_baseGasRequired e))"
    and "t_gas (e_t e) \<ge> of_int (e_baseGasRequired e)"
    and "env_number env > modifyReciptGasHeight (h_cfg h) \<Longrightarrow> t_gasPrice (e_t e) \<noteq> 0"
  using assms by (auto simp: execute_def Let_def refund_gas_def edivide_def split: if_splits elim!: ebind_InrE)

definition nonce_checked :: "EnvInfo \<Rightarrow> bool" where
  "nonce_checked env \<longleftrightarrow>
     \<not> (env_number env \<le> 1740000 \<and> env_chain_id env = 11) \<and> \<not> (env_number env \<le> 1200157 \<and> env_chain_id env = 1)"

text \<open>
  A signed batch of operations that runs to its end, phase by phase: \<open>s1\<close> is the state after the checks, \<open>s2\<close>
  after the nonce was counted, \<open>s4\<close> after the operations.
\<close>

lemma run_vote:
  assumes run: "run_transaction h env enum t s = (Inr r, s')" and vote: "isVoteTranction t" "t_kind t = MessageCall"
    and signed: "\<not> t_hasZeroSignature t" "t_sender t \<noteq> MaxAddress"
  obtains e s1 gas s2 goon e2 s3 e3 s4 where "initialize h env enum t s = (Inr e, s1)"
    and "gas = (if env_number env > modifyReciptGasHeight (h_cfg h) then refund_gas e div t_gasPrice t
      else t_gas t - of_int (e_baseGasRequired e))"
    and "incNonce (t_sender t) s1 = (Inr (), s2)"
    and "call_target h env gas (e\<lparr>e_needRefundGas := refund_gas e, e_savepoint := savepoint s2\<rparr>) s2 = (Inr (goon, e2), s3)"
    and "e3 = (if goon then e2\<lparr>e_batch_type := Some op_null, e_batch_ops := []\<rparr> else e2)"
    and "if goon then execute_batch h env enum e s3 = (Inr (), s4) else s4 = s3"
    and "finalize h env e3 s4 = (Inr r, s')" and "e_selfdestructs e3 = []" and "e_t e3 = t" and "e_refunds e3 = 0"
    and "env_number env > modifyReciptGasHeight (h_cfg h) \<Longrightarrow> t_gasPrice t \<noteq> 0"
proof -
  obtain e s1 fin e1 s5 e4 s4 where phases: "initialize h env enum t s = (Inr e, s1)" "execute h env enum e s1 = (Inr (fin, e1), s5)"
      "(if fin then ereturn e1 else go h env e1) s5 = (Inr e4, s4)" "finalize h env e4 s4 = (Inr r, s')"
    by (rule run_vote_phases [OF run])
  obtain ty ps where e: "e = batch_executive h env t ty ps" "ps \<noteq> []"
    by (rule initialize_vote [OF phases(1) vote(1) signed(1)])
  then have e_t: "e_t e = t" and ops: "e_batch_ops e = ps" and clean: "e_selfdestructs e = []" "e_refunds e = 0"
    by (simp_all add: batch_executive_def new_executive_def)
  let ?e0 = "e\<lparr>e_needRefundGas := refund_gas e\<rparr>"
  obtain gas where call: "call h env enum gas ?e0 s1 = (Inr (fin, e1), s5)"
      and gas: "gas = (if env_number env > modifyReciptGasHeight (h_cfg h) then refund_gas e div t_gasPrice (e_t e)
        else t_gas (e_t e) - of_int (e_baseGasRequired e))"
      and price: "env_number env > modifyReciptGasHeight (h_cfg h) \<Longrightarrow> t_gasPrice (e_t e) \<noteq> 0"
    using execute_call [OF phases(2)] vote(2) e_t by metis
  obtain s2 goon e2 s3 where c: "incNonce (t_sender (e_t ?e0)) s1 = (Inr (), s2)"
      "call_target h env gas (?e0\<lparr>e_savepoint := savepoint s2\<rparr>) s2 = (Inr (goon, e2), s3)" "fin"
      "e1 = (if goon then e2\<lparr>e_batch_type := Some op_null, e_batch_ops := []\<rparr> else e2)"
      "if goon then execute_batch h env enum ?e0 s3 = (Inr (), s5) else s5 = s3"
    by (rule call_vote [OF call]) (use vote signed e_t ops e(2) in auto)
  from phases(3) c(3) have "e4 = e1" "s5 = s4" by simp_all
  moreover have "execute_batch h env enum ?e0 = execute_batch h env enum e" by (rule execute_batch_frame) auto
  ultimately show thesis
    using phases(1,4) c call_target_frame [OF c(2)] e_t clean gas price by (intro that [of e s1 gas s2 goon e2 s3 e1 s4]) auto
qed

end
