(* ===== verification/Batches.thy ===== *)
theory Batches
  imports TxLaws
begin

text \<open>
  Transactions whose data is a serialised batch of operations: what \<^verbatim>\<open>initialize\<close> reads from them, and the
  whole life of a batch of transfers.
\<close>

section \<open>The data of a batch\<close>

definition op_data :: "op_type \<Rightarrow> operation \<Rightarrow> bytes" where
  "op_data ty p = encode (RList (op_items (op_code ty) p))"

definition batch_data :: "op_type \<Rightarrow> operation list \<Rightarrow> bytes" where
  "batch_data ty ps = encode (RList (map (\<lambda>p. RData (op_data ty p)) ps))"

definition batch_ok :: "op_type \<Rightarrow> operation list \<Rightarrow> bool" where
  "batch_ok ty ps \<longleftrightarrow> length ps \<le> 50 \<and> (\<forall>p\<in>set ps. type_of_operation p = Some ty \<and> op_bytes p < 256)"

lemma length_encode_list:
  assumes "\<And>t. t \<in> set ts \<Longrightarrow> length (encode t) \<le> k" and "k * length ts < 65536"
  shows "length (encode (RList ts)) \<le> k * length ts + 3"
proof -
  have "length (concat (map encode ts)) \<le> k * length ts"
    using assms(1) by (induction ts) (auto simp: add_mono)
  moreover from this assms(2) have "bytesRequired (length (concat (map encode ts))) \<le> 2"
    by (intro bytesRequired_le) simp
  ultimately show ?thesis by (simp add: encode.simps(2) header_def)
qed

lemma op_data_length:
  assumes "type_of_operation p = Some ty" and "op_bytes p < 256"
  shows "length (op_data ty p) \<le> 234"
proof -
  have "length (encode t) \<le> 33" if "t \<in> set (op_items (op_code ty) p)" for t
    using that assms by (cases p) (auto intro!: short_items op_laws)
  moreover have "length (op_items (op_code ty) p) \<le> 7" using assms(1) by (cases p) simp_all
  ultimately show ?thesis
    using length_encode_list [of "op_items (op_code ty) p" 33] by (simp add: op_data_def)
qed

lemma batch_fits:
  assumes "batch_ok ty ps"
  shows "rlp_fits (RList (map RData (map (op_data ty) ps)))"
proof -
  have "length (encode (RData b)) \<le> 240" if "length b \<le> 234" for b
  proof -
    from that have "bytesRequired (length b) \<le> 1" by (intro bytesRequired_le) simp
    with that show ?thesis by (simp add: encode.simps(1) header_def)
  qed
  then have "length (encode t) \<le> 240" if "t \<in> set (map RData (map (op_data ty) ps))" for t
    using that assms op_data_length by (auto simp: batch_ok_def)
  from length_encode_list [OF this] assms show ?thesis
    by (fastforce simp: batch_ok_def rlp_fits_def)
qed

lemma batch_read:
  assumes "batch_ok ty ps"
  shows "sbind (RLP_node VeryStrict (batch_data ty ps)) (toVector (toBytes LaissezFaire)) = Inr (map (op_data ty) ps)"
  using bytes_codec.vector_items [OF batch_fits [OF assms]] RLP_node_encode [OF batch_fits [OF assms]]
  by (simp add: batch_data_def comp_def)

lemma op_data_decodes:
  assumes "type_of_operation p = Some ty" and "op_bytes p < 256"
  shows "get_type (op_data ty p) = Some ty" and "\<exists>dec. unserialize (Some ty) = Some dec \<and> dec (op_data ty p) = Inr p"
proof -
  show "get_type (op_data ty p) = Some ty" unfolding op_data_def by (rule get_type_items [OF assms])
  obtain dec where "unserialize (Some ty) = Some dec"
    using assms(1) by (cases p) (auto simp: unserialize_def)
  with unserialize_items [OF assms this] show "\<exists>dec. unserialize (Some ty) = Some dec \<and> dec (op_data ty p) = Inr p"
    unfolding op_data_def by blast
qed

section \<open>Reading a batch\<close>

lemma read_op_data:
  fixes c :: int
  assumes "type_of_operation p = Some ty" and "op_bytes p < 256" and "e_batch_ops e = [] \<or> e_batch_type e = Some ty"
    and "ty = op_brcTranscation \<and> n \<le> 50 \<or> n = 1" and "fst (check_transfer (e_t e) p s) = Inr ()"
  defines "add \<equiv> c_add_value (Some ty) * t_gasPrice (e_t e)"
  defines "c' \<equiv> (if e_batch_ops e = [] then c + uint add else c)"
  assumes "uint (balance s (t_sender (e_t e))) \<ge> c' \<or> pays_itself p \<or> ty = op_transferAutoEx"
  shows "read_op n (op_data ty p) (c, e) s = (Inr (c', e\<lparr>
      e_addCostValue := (if e_batch_ops e = [] then e_addCostValue e + add else e_addCostValue e),
      e_batch_type := Some ty, e_batch_ops := e_batch_ops e @ [p]\<rparr>), s)"
proof -
  obtain dec where dec: "unserialize (Some ty) = Some dec" "dec (op_data ty p) = Inr p"
    using op_data_decodes(2) [OF assms(1,2)] by blast
  have ok: "check_transfer (e_t e) p s = (Inr (), s)"
    using assms(5) check_transfer_state [of "e_t e" p s] by (cases "check_transfer (e_t e) p s") auto
  have guards: "(e_batch_type e \<noteq> Some ty \<and> e_batch_ops e \<noteq> []) = False" "(Some ty \<noteq> Some op_brcTranscation \<and> n > 1) = False"
    "(Some ty = Some op_brcTranscation \<and> n > 50) = False"
    "(uint (balance s (t_sender (e_t e))) < c' \<and> \<not> pays_itself p \<and> Some ty \<noteq> Some op_transferAutoEx) = False"
    using assms(3,4,8) by auto
  show ?thesis
    unfolding read_op_def prod.case Let_def op_data_decodes(1) [OF assms(1,2)] guards(1-3) if_False dec option.case sum.case
    using guards(4) by (simp add: ok ebind_def add_def c'_def)
qed

lemma read_ops_data:
  assumes "\<forall>p\<in>set ps. type_of_operation p = Some ty \<and> op_bytes p < 256 \<and> fst (check_transfer (e_t e) p s) = Inr ()"
    and "e_batch_ops e \<noteq> []" and "e_batch_type e = Some ty" and "ty = op_brcTranscation \<and> n \<le> 50 \<or> n = 1"
    and "uint (balance s (t_sender (e_t e))) \<ge> c"
  shows "efold (read_op n) (map (op_data ty) ps) (c, e) s = (Inr (c, e\<lparr>e_batch_ops := e_batch_ops e @ ps\<rparr>), s)"
  using assms
proof (induction ps arbitrary: e)
  case (Cons p ps)
  let ?e = "e\<lparr>e_batch_ops := e_batch_ops e @ [p]\<rparr>"
  have "read_op n (op_data ty p) (c, e) s = (Inr (c, ?e), s)"
    using read_op_data [of p ty e n s c] Cons.prems by (cases e) auto
  with Cons.IH [of ?e] Cons.prems show ?case by (simp add: ebind_def)
qed (simp add: ebind_def)

section \<open>Effects on the amounts\<close>

lemma addBRC_effect:
  assumes "accountStartNonce s \<noteq> -1"
  obtains s' where "addBRC i n s = (Inr (), s')" and "BRC s' = (BRC s)(i := BRC s i + n)" and "balance s' = balance s"
proof -
  have "fst (addBRC i n s) = Inr ()"
    using assms brc.add_missing [of s i n] brc.add_returns [of s i _ n] by (cases "accts s i") auto
  moreover from this have "BRC (snd (addBRC i n s)) = (BRC s)(i := BRC s i + n)"
    unfolding BRC_def by (rule brc.add_amount_any)
  moreover have "balance (snd (addBRC i n s)) = balance s"
    by (cases "accts s i") (auto simp: addBRC_def run_simps requireAccountStartNonce_def balance_def amount_of_def fun_eq_iff
        account_nbb_def dead_account_def acc_addBRC_def changed_def)
  ultimately show thesis by (intro that [of "snd (addBRC i n s)"]) (auto simp: prod_eq_iff)
qed

lemma subBRC_effect:
  assumes "n \<le> BRC s i" and "accountStartNonce s \<noteq> -1"
  obtains s' where "subBRC i n s = (Inr (), s')" and "BRC s' = (BRC s)(i := BRC s i - n)" and "balance s' = balance s"
proof (cases "n = 0")
  case True
  then show ?thesis by (intro that [of s]) (auto simp: subBRC_def fun_eq_iff)
next
  case False
  with assms(1) obtain a where a: "accts s i = Some a" "n \<le> m_BRC a"
    by (cases "accts s i") (auto simp: BRC_def amount_of_def)
  obtain s' where "addBRC i (0 - n) s = (Inr (), s')" "BRC s' = (BRC s)(i := BRC s i + (0 - n))" "balance s' = balance s"
    by (rule addBRC_effect [OF assms(2)])
  with False a show ?thesis by (intro that [of s']) (auto simp: subBRC_def run_simps)
qed

lemma subBalance_effect:
  assumes "n \<le> balance s i"
  obtains s' where "subBalance i n s = (Inr (), s')" and "balance s' = (balance s)(i := balance s i - n)" and "BRC s' = BRC s"
proof (cases "n = 0")
  case True
  then show ?thesis by (intro that [of s]) (auto simp: subBalance_def fun_eq_iff)
next
  case False
  with assms obtain a where a: "accts s i = Some a" "n \<le> m_balance a"
    by (cases "accts s i") (auto simp: balance_def amount_of_def)
  show ?thesis
    by (rule that [of "snd (subBalance i n s)"])
      (use a False in \<open>auto simp: subBalance_def addBalance_def run_simps balance_def BRC_def amount_of_def fun_eq_iff
        acc_addBalance_def changed_def\<close>)
qed

text \<open>The sums of a list of transfers, and the amounts after it.\<close>

definition pay :: "address \<Rightarrow> (address \<times> u256) list \<Rightarrow> (address \<Rightarrow> u256) \<Rightarrow> address \<Rightarrow> u256" where
  "pay i xs b = fold (\<lambda>(j, n) b. b(i := b i - n, j := b j + n)) xs b"

definition transfer_op :: "address \<Rightarrow> address \<times> u256 \<Rightarrow> operation" where
  "transfer_op i x = Op_transcation \<lparr>to_from = i, to_to = fst x, to_Transcation_type = 1, to_Transcation_numbers = snd x\<rparr>"

lemma as_transfer_op: "as_transcation (transfer_op i x) =
    Some \<lparr>to_from = i, to_to = fst x, to_Transcation_type = 1, to_Transcation_numbers = snd x\<rparr>"
  by (simp add: transfer_op_def as_transcation_def)

lemma nonces_keptD2: "nonces_kept s s' \<Longrightarrow> accountStartNonce s' = accountStartNonce s"
  by (simp add: nonces_kept_def)

lemma transfers_effect:
  assumes "(\<Sum>x\<leftarrow>xs. uint (snd x)) \<le> uint (BRC s i)" and "\<forall>x\<in>set xs. fst x \<noteq> i" and "accountStartNonce s \<noteq> -1"
  obtains s' where "execute_transfer_BRCs i (map (transfer_op i) xs) s = (Inr (), s')"
    and "BRC s' = pay i xs (BRC s)" and "balance s' = balance s"
  using assms
proof (induction xs arbitrary: s thesis)
  case Nil
  then show ?case by (auto simp: execute_transfer_BRCs_def pay_def)
next
  case (Cons x xs)
  obtain j n where x: "x = (j, n)" by (cases x)
  have rest_nonneg: "0 \<le> (\<Sum>x\<leftarrow>xs. uint (snd x))" by (induction xs) auto
  with Cons.prems(2) x have le: "uint n \<le> uint (BRC s i)" by simp
  obtain s1 where s1: "subBRC i n s = (Inr (), s1)" "BRC s1 = (BRC s)(i := BRC s i - n)" "balance s1 = balance s"
    by (rule subBRC_effect [of n s i]) (use le Cons.prems(4) in \<open>auto simp: word_le_def\<close>)
  have start1: "accountStartNonce s1 = accountStartNonce s"
    by (rule nonces_keptD2 [OF keeps_run [OF nonce_sub(1) s1(1)]])
  obtain s2 where s2: "addBRC j n s1 = (Inr (), s2)" "BRC s2 = (BRC s1)(j := BRC s1 j + n)" "balance s2 = balance s1"
    by (rule addBRC_effect [of s1 j n]) (use start1 Cons.prems(4) in simp)
  have start2: "accountStartNonce s2 = accountStartNonce s"
    using nonces_keptD2 [OF keeps_run [OF nonce_add(1) s2(1)]] start1 by simp
  have "uint (BRC s2 i) = uint (BRC s i) - uint n"
    using le s1(2) s2(2) Cons.prems(3) x by (auto simp: uint_sub_if_size)
  with Cons.prems x have fits: "(\<Sum>x\<leftarrow>xs. uint (snd x)) \<le> uint (BRC s2 i)" by simp
  obtain s' where s': "execute_transfer_BRCs i (map (transfer_op i) xs) s2 = (Inr (), s')" "BRC s' = pay i xs (BRC s2)"
      "balance s' = balance s2"
    by (rule Cons.IH [OF _ fits]) (use Cons.prems(3,4) start2 in auto)
  have "execute_transfer_BRCs i (map (transfer_op i) (x # xs)) s = (Inr (), s')"
    using s1(1) s2(1) s'(1) x by (simp add: execute_transfer_BRCs_def as_transfer_op transferBRC_def ebind_def)
  moreover have "BRC s' = pay i (x # xs) (BRC s)"
    using s'(2) s2(2) s1(2) Cons.prems(3) x by (simp add: pay_def)
  moreover have "balance s' = balance s" using s'(3) s2(3) s1(3) by simp
  ultimately show ?case by (rule Cons.prems(1))
qed

section \<open>The fee\<close>

text \<open>Counting the income of a witness leaves the amounts of all accounts alone and cannot fail.\<close>

definition funds_kept :: "chain_state \<Rightarrow> chain_state \<Rightarrow> bool" where
  "funds_kept s s' \<longleftrightarrow> BRC s' = BRC s \<and> balance s' = balance s"

interpretation funds: step_relation funds_kept
  by unfold_locales (auto simp: funds_kept_def)

lemma funds_upd: "(\<And>a. m_BRC (g a) = m_BRC a \<and> m_balance (g a) = m_balance a) \<Longrightarrow> keeps funds_kept (upd_account i g)"
  by (auto simp: keeps_def funds_kept_def upd_account_def BRC_def balance_def amount_of_def fun_eq_iff split: option.split)

lemma funds_snapshot_ub: "keeps funds_kept (upd_account_ub i (try_new_snapshot r))"
  by (auto simp: keeps_def funds_kept_def upd_account_ub_def run_simps BRC_def balance_def amount_of_def fun_eq_iff
      try_new_snapshot_def changed_def Let_def split: option.split)

lemma funds_log: "keeps funds_kept (log_change c)"
  by (auto simp: keeps_def funds_kept_def log_change_def BRC_def balance_def amount_of_def fun_eq_iff)

lemma funds_get: "keeps funds_kept (get_account i)"
  unfolding get_account_def by (intro funds.keeps_rules)

lemma funds_touch: "keeps funds_kept (touch_if_empty i a)"
  unfolding touch_if_empty_def by (intro funds.keeps_rules funds_log)

lemma funds_create: "m_BRC a = 0 \<Longrightarrow> m_balance a = 0 \<Longrightarrow> keeps funds_kept (createAccount i a)"
  by (auto simp: keeps_def funds_kept_def createAccount_def run_simps BRC_def balance_def amount_of_def fun_eq_iff split: option.split)

lemma funds_start: "keeps funds_kept requireAccountStartNonce"
  unfolding requireAccountStartNonce_def by (intro funds.keeps_rules)

lemmas funds_base = funds.keeps_rules funds_log funds_get funds_touch funds_snapshot_ub funds_start

lemma funds_amounts: "keeps funds_kept (addPoll i n)" "keeps funds_kept (addCooikeIncomeNum i n)" "keeps funds_kept (incNonce i)"
  unfolding addPoll_def addCooikeIncomeNum_def incNonce_def eseq.simps
  by (intro funds_base funds_upd funds_create;
      simp add: acc_addPoll_def acc_addCooikeIncome_def acc_incNonce_def changed_def account_nb_def dead_account_def)+

lemma funds_snapshot: "keeps funds_kept (try_new_vote_snapshot cfg i n)"
  unfolding try_new_vote_snapshot_def ensure_account_def subPoll_def setCookieIncomeNum_def Let_def eseq.simps
  by (intro funds_base funds_amounts funds_upd funds_create;
      simp add: clear_vote_data_def changed_def account_ballot_def dead_account_def)

lemma funds_fee_income: "keeps funds_kept (fee_income h env fee)"
  unfolding fee_income_def Let_def eseq.simps by (intro funds_base funds_snapshot funds_amounts)

lemma upd_returns: "fst (upd_account i g s) = Inr ()" and upd_accts: "accts (snd (upd_account i g s)) = (accts s)(i := map_option g (accts s i))"
  by (simp_all add: upd_account_def)

lemma snapshot_returns:
  assumes "accts s i \<noteq> None"
  obtains s' where "try_new_vote_snapshot cfg i n s = (Inr (), s')" and "accts s' i \<noteq> None"
proof -
  from assms obtain a where a: "accts s i = Some a" by blast
  let ?r = "of_nat (fst (getVotingCycle cfg (uint n))) - 1 :: u256"
  have "?r \<noteq> -1" using getVotingCycle_round_range [of cfg "uint n"] by auto
  then have snap: "\<exists>b. try_new_snapshot (snd (get_no_record_snapshot (of_nat (fst (getVotingCycle cfg (uint n)))) a)) a = Some b"
    by (simp add: try_new_snapshot_def get_no_record_snapshot_def Let_def)
  show thesis
    by (rule that [of "snd (try_new_vote_snapshot cfg i n s)"])
      (use a snap in \<open>auto simp: try_new_vote_snapshot_def ensure_account_def addressInUse_def the_account_def getVotingCycle_no_error
        upd_account_ub_def subPoll_def addPoll_def setCookieIncomeNum_def addCooikeIncomeNum_def run_simps Let_def
        prod_eq_iff split: option.split\<close>)
qed

lemma addCooike_returns:
  assumes "accts s i \<noteq> None"
  shows "fst (addCooikeIncomeNum i v s) = Inr ()"
  using assms by (auto simp: addCooikeIncomeNum_def run_simps)

text \<open>The account that the fee of a block is counted for.\<close>

definition fee_receiver :: "host \<Rightarrow> EnvInfo \<Rightarrow> chain_state \<Rightarrow> address" where
  "fee_receiver h env s =
     (let m = fst (minerMapping s (env_author env)) in
      if env_number env \<ge> newChangeHeight (h_cfg h) \<and> m \<noteq> 0 then m else env_author env)"

lemma fee_income_returns:
  assumes "accts s (fee_receiver h env s) \<noteq> None"
  obtains s' where "fee_income h env fee s = (Inr (), s')" and "BRC s' = BRC s" and "balance s' = balance s"
proof -
  let ?i = "fee_receiver h env s"
  obtain s1 where s1: "try_new_vote_snapshot (h_cfg h) ?i (of_int (env_number env)) s = (Inr (), s1)" "accts s1 ?i \<noteq> None"
    by (rule snapshot_returns [OF assms])
  obtain s' where s': "addCooikeIncomeNum ?i fee s1 = (Inr (), s')"
    using addCooike_returns [OF s1(2), of fee] by (cases "addCooikeIncomeNum ?i fee s1") auto
  have run: "fee_income h env fee s = (Inr (), s')"
    using s1(1) s' by (auto simp: fee_income_def fee_receiver_def Let_def ebind_def)
  from keeps_run [OF funds_fee_income this] show thesis
    by (intro that [OF run]) (auto simp: funds_kept_def)
qed

section \<open>The mapping of a miner and the code of an account\<close>

text \<open>Moving amounts leaves both alone.\<close>

interpretation settings: account_view "\<lambda>a. (m_mappingAddress a, m_codeHash a)" "((0, 0), EmptySHA3)"
  by unfold_locales (simp_all add: fresh_accounts amount_writes)

lemma settings_view: "minerMapping s i = fst (settings.view s i)" "addressHasCode s i \<longleftrightarrow> snd (settings.view s i) \<noteq> EmptySHA3"
  by (simp_all add: minerMapping_def addressHasCode_def settings.view_def split: option.split)

lemma settings_kept:
  assumes "keeps settings.kept m" and "m s = (r, s')"
  shows "minerMapping s' = minerMapping s" and "addressHasCode s' = addressHasCode s"
  using settings.keptD [OF assms] by (simp_all add: settings_view fun_eq_iff)

lemma settings_incNonce: "keeps settings.kept (incNonce i)"
  unfolding incNonce_def eseq.simps
  by (intro settings.base; simp add: acc_incNonce_def changed_def fresh_accounts)

lemma nonce_transfers: "keeps nonces_kept (execute_transfer_BRCs i ps)"
  unfolding execute_transfer_BRCs_def transferBRC_def eseq.simps by (intro nonce_base nonce_amounts)

lemma settings_transfers: "keeps settings.kept (execute_transfer_BRCs i ps)"
  unfolding execute_transfer_BRCs_def by (intro settings.base settings.transfers)

section \<open>A batch of transfers\<close>

text \<open>What the batch has to be for \<^verbatim>\<open>initialize\<close> to accept it.\<close>

lemma initialize_transfers:
  fixes t h env
  defines "c \<equiv> uint (t_gas t * t_gasPrice t)"
  assumes ps: "ps \<noteq> []" "batch_ok op_brcTranscation ps" "t_data t = batch_data op_brcTranscation ps"
      "\<forall>p\<in>set ps. fst (check_transfer t p s) = Inr ()"
    and t: "isVoteTranction t" "\<not> t_hasZeroSignature t" "verifyTransaction h env t \<noteq> TE_InvalidSignature"
    and checks: "fst (check_nonce env enum t s) = Inr ()" "fst (check_gasPrice h env t s) = Inr ()"
    and pays: "c \<le> uint (balance s (t_sender t))" "uint (t_gasPrice t * of_int (base_gas h env t)) \<le> c"
  shows "initialize h env enum t s = (Inr (batch_executive h env t (Some op_brcTranscation) ps), s)"
proof -
  let ?e = "(new_executive (base_gas h env t) t)\<lparr>e_excepted := verifyTransaction h env t\<rparr>"
  let ?start = "?e\<lparr>e_addCostValue := 0, e_batch_type := Some op_null, e_batch_ops := []\<rparr>"
  from ps(1) obtain p qs where pq: "ps = p # qs" by (cases ps) auto
  let ?read = "?start\<lparr>e_batch_type := Some op_brcTranscation, e_batch_ops := [p]\<rparr>"
  have t0: "e_t ?start = t" "e_t ?read = t" by (simp_all add: new_executive_def)
  from ps(2,4) pq have all: "\<forall>q\<in>set (p # qs). type_of_operation q = Some op_brcTranscation \<and> op_bytes q < 256 \<and>
      fst (check_transfer t q s) = Inr ()" and len: "length ps \<le> 50"
    by (auto simp: batch_ok_def)
  have one: "read_op (length ps) (op_data op_brcTranscation p) (c, ?start) s = (Inr (c, ?read), s)"
    using read_op_data [of p op_brcTranscation ?start "length ps" s c] all len pays(1) t0
    by (simp add: c_add_value_def new_executive_def)
  have rest: "efold (read_op (length ps)) (map (op_data op_brcTranscation) qs) (c, ?read) s =
      (Inr (c, ?read\<lparr>e_batch_ops := e_batch_ops ?read @ qs\<rparr>), s)"
    by (rule read_ops_data) (use all len pays(1) t0 in \<open>auto simp: new_executive_def\<close>)
  have fold: "efold (read_op (length ps)) (map (op_data op_brcTranscation) ps) (c, ?start) s = (Inr (c, ?start\<lparr>
      e_batch_type := Some op_brcTranscation, e_batch_ops := ps\<rparr>), s)"
    using one rest pq by (simp add: ebind_def)
  have "initialize_batch h env enum ?e s = (Inr (batch_executive h env t (Some op_brcTranscation) ps), s)"
    using fold batch_read [OF ps(2)] ps(1,3) pays(2) c_def
    by (simp add: initialize_batch_def verify_batch_def batch_executive_def new_executive_def c_add_value_def Let_def ebind_def)
  then show ?thesis
    using t checks check_nonce_state [of env enum t s] check_gasPrice_state [of h env t s]
    by (auto simp: initialize_def base_gas_def Let_def ebind_def split: prod.splits sum.splits)
qed

text \<open>Executing it: \<^verbatim>\<open>call\<close> counts the nonce and runs the transfers.\<close>

lemma execute_transfers:
  fixes t h env xs
  defines "e \<equiv> batch_executive h env t (Some op_brcTranscation) (map (transfer_op (t_sender t)) xs)"
  assumes t: "isVoteTranction t" "t_kind t = MessageCall" "t_sender t \<noteq> MaxAddress" "t_gasPrice t \<noteq> 0"
      "of_int (base_gas h env t) \<le> t_gas t"
    and env: "env_number env > modifyReciptGasHeight (h_cfg h)" "\<not> h_isPrecompiled h VoteAddress (env_number env)"
      "\<not> addressHasCode s VoteAddress"
    and xs: "xs \<noteq> []" "(\<Sum>x\<leftarrow>xs. uint (snd x)) \<le> uint (BRC s (t_sender t))" "\<forall>x\<in>set xs. fst x \<noteq> t_sender t"
    and s: "accts s (t_sender t) \<noteq> None" "accountStartNonce s \<noteq> -1"
  obtains e' s' where "execute h env enum e s = (Inr (True, e'), s')" and "e_ext e' = None"
    and "e_gas e' = refund_gas e div t_gasPrice t" and "e_totalGas e' = e_totalGas e" and "e_t e' = t"
    and "e_excepted e' = verifyTransaction h env t"
    and "BRC s' = pay (t_sender t) xs (BRC s)" and "balance s' = balance s"
    and "minerMapping s' = minerMapping s" and "\<forall>i. accts s i \<noteq> None \<longrightarrow> accts s' i \<noteq> None"
proof -
  let ?i = "t_sender t"
  have e: "e_t e = t" "e_batch_type e = Some op_brcTranscation" "e_batch_ops e = map (transfer_op ?i) xs" "e_ext e = None"
      "e_baseGasRequired e = base_gas h env t" "e_excepted e = verifyTransaction h env t"
    by (simp_all add: e_def batch_executive_def new_executive_def)
  from s(1) obtain s1 where s1: "incNonce ?i s = (Inr (), s1)"
    by (auto simp: incNonce_def run_simps)
  have funds1: "BRC s1 = BRC s" "balance s1 = balance s"
    using keeps_run [OF funds_amounts(3) s1] by (auto simp: funds_kept_def)
  have start1: "accountStartNonce s1 = accountStartNonce s" "\<forall>i. accts s i \<noteq> None \<longrightarrow> accts s1 i \<noteq> None"
    using s1 s(1) by (auto simp: incNonce_def run_simps)
  note set1 = settings_kept [OF settings_incNonce s1]
  obtain s2 where s2: "execute_transfer_BRCs ?i (map (transfer_op ?i) xs) s1 = (Inr (), s2)"
      "BRC s2 = pay ?i xs (BRC s1)" "balance s2 = balance s1"
    by (rule transfers_effect [of xs s1 ?i]) (use xs(2,3) s(2) funds1(1) start1(1) in auto)
  have kept2: "\<forall>i. accts s1 i \<noteq> None \<longrightarrow> accts s2 i \<noteq> None"
    using keeps_run [OF nonce_transfers s2(1)] nonces_keptD by blast
  note set2 = settings_kept [OF settings_transfers s2(1)]
  let ?e' = "e\<lparr>e_needRefundGas := refund_gas e, e_savepoint := savepoint s1, e_gas := refund_gas e div t_gasPrice t,
    e_ext := None, e_batch_type := Some op_null, e_batch_ops := []\<rparr>"
  have "execute h env enum e s = (Inr (True, ?e'), s2)"
    using s1 s2(1) t env set1(2) xs(1)
    by (simp add: execute_def call_def call_target_def execute_batch_def refund_gas_def isVoteTranction_def edivide_def
        e Let_def ebind_def not_less)
  then show thesis
    by (rule that) (use e s2 funds1 set1 set2 start1(2) kept2 in auto)
qed

text \<open>Charging it: the gas that is left is refunded, the base cost is paid.\<close>

lemma uint_mult_small: "uint x * uint y < 2 ^ 256 \<Longrightarrow> uint (x * y) = uint x * uint y" for x y :: u256
  using uint_mult_lem [of x y] by simp

lemma transfer_fee:
  fixes ps
  assumes "uint (t_gas t) * uint (t_gasPrice t) < 2 ^ 256" and "t_gasPrice t \<noteq> 0" and "0 \<le> base_gas h env t"
    and "base_gas h env t \<le> uint (t_gas t)"
  defines "e \<equiv> batch_executive h env t (Some op_brcTranscation) ps"
  shows "e_totalGas e - (refund_gas e div t_gasPrice t) * t_gasPrice t = of_int (base_gas h env t) * t_gasPrice t"
proof -
  let ?p = "t_gasPrice t" and ?b = "base_gas h env t"
  have b: "uint (of_int ?b :: u256) = ?b"
    using assms(3,4) uint_lt2p [of "t_gas t"] by (simp add: uint_word_of_int_eq take_bit_int_eq_self)
  have total: "e_totalGas e = t_gas t * ?p" and refund: "refund_gas e = (t_gas t - of_int ?b) * ?p"
    by (simp_all add: e_def refund_gas_def batch_executive_def new_executive_def c_add_value_def algebra_simps)
  have diff: "uint (t_gas t - of_int ?b) = uint (t_gas t) - ?b"
    using b assms(4) by (simp add: uint_sub_if_size)
  moreover have "(uint (t_gas t) - ?b) * uint ?p < 2 ^ 256"
    using assms(1,3) mult_right_mono [of "uint (t_gas t) - ?b" "uint (t_gas t)" "uint ?p"] by simp
  ultimately have "uint (refund_gas e) = (uint (t_gas t) - ?b) * uint ?p"
    using uint_mult_small [of "t_gas t - of_int ?b" ?p] by (simp add: refund)
  then have "uint (refund_gas e div ?p) = uint (t_gas t) - ?b"
    using assms(2) by (simp add: uint_div uint_0_iff)
  with diff have "refund_gas e div ?p = t_gas t - of_int ?b" by (simp add: word_uint_eq_iff)
  then show ?thesis unfolding total by (metis (no_types) add_diff_cancel_left' diff_add_cancel distrib_right add.commute)
qed

lemma finalize_transfers:
  assumes "e_ext e = None" and "t_kind (e_t e) = MessageCall" and "env_number env > modifyReciptGasHeight (h_cfg h)"
    and "e_totalGas e - e_gas e * t_gasPrice (e_t e) = fee" and "fee \<le> balance s (t_sender (e_t e))"
    and "accts s (fee_receiver h env s) \<noteq> None"
  obtains s' where "finalize h env e s = (Inr (e_excepted e = TE_None, e), s')" and "BRC s' = BRC s"
    and "balance s' = (balance s)(t_sender (e_t e) := balance s (t_sender (e_t e)) - fee)"
proof -
  let ?i = "t_sender (e_t e)"
  obtain s1 where s1: "subBalance ?i fee s = (Inr (), s1)" "balance s1 = (balance s)(?i := balance s ?i - fee)" "BRC s1 = BRC s"
    by (rule subBalance_effect [OF assms(5)])
  have map1: "fee_receiver h env s1 = fee_receiver h env s"
    using settings_kept(1) [OF settings.subtract(2) s1(1)] by (simp add: fee_receiver_def)
  from nonces_keptD [OF keeps_run [OF nonce_sub(2) s1(1)] assms(6)] have "accts s1 (fee_receiver h env s1) \<noteq> None"
    unfolding map1 ..
  then obtain s' where s': "fee_income h env fee s1 = (Inr (), s')" "BRC s' = BRC s1" "balance s' = balance s1"
    by (rule fee_income_returns)
  have "finalize h env e s = (Inr (e_excepted e = TE_None, e), s')"
    using assms(1-4) s1(1) s'(1) by (simp add: finalize_def apply_refunds_def Let_def ebind_def)
  then show thesis by (rule that) (use s1 s' in auto)
qed

lemma transfer_run:
  assumes data: "t_data t = batch_data op_brcTranscation (map (transfer_op (t_sender t)) xs)" "xs \<noteq> []" "length xs \<le> 50"
    and t: "t_kind t = MessageCall" "t_receiveAddress t = VoteAddress" "\<not> t_hasZeroSignature t" "t_sender t \<noteq> MaxAddress"
    and signature: "verifyTransaction h env t \<noteq> TE_InvalidSignature"
    and checks: "fst (check_nonce env enum t s) = Inr ()" "fst (check_gasPrice h env t s) = Inr ()"
    and gas: "t_gasPrice t \<noteq> 0" "0 \<le> base_gas h env t" "base_gas h env t \<le> uint (t_gas t)"
    and pays: "uint (t_gas t) * uint (t_gasPrice t) \<le> uint (balance s (t_sender t))"
    and amounts: "\<forall>(j, n)\<in>set xs. j \<noteq> t_sender t \<and> n \<noteq> 0" "(\<Sum>x\<leftarrow>xs. uint (snd x)) \<le> uint (BRC s (t_sender t))"
    and block: "env_number env > modifyReciptGasHeight (h_cfg h)" "\<not> h_isPrecompiled h VoteAddress (env_number env)"
      "\<not> addressHasCode s VoteAddress" "accts s (fee_receiver h env s) \<noteq> None" "accountStartNonce s \<noteq> -1"
  shows "\<exists>e s'. run_transaction h env enum t s = (Inr (verifyTransaction h env t = TE_None, e), s') \<and>
    BRC s' = pay (t_sender t) xs (BRC s) \<and>
    balance s' = (balance s)(t_sender t := balance s (t_sender t) - of_int (base_gas h env t) * t_gasPrice t)"
proof -
  let ?i = "t_sender t" and ?ps = "map (transfer_op (t_sender t)) xs"
  let ?e = "batch_executive h env t (Some op_brcTranscation) ?ps" and ?fee = "of_int (base_gas h env t) * t_gasPrice t"
  have small: "uint (t_gas t) * uint (t_gasPrice t) < 2 ^ 256"
    using pays uint_lt2p [of "balance s ?i"] by simp
  have base: "uint (of_int (base_gas h env t) :: u256) = base_gas h env t"
    using gas(2,3) uint_lt2p [of "t_gas t"] by (simp add: uint_word_of_int_eq take_bit_int_eq_self)
  have cost: "uint (t_gas t * t_gasPrice t) = uint (t_gas t) * uint (t_gasPrice t)"
    using small by (rule uint_mult_small)
  have le: "base_gas h env t * uint (t_gasPrice t) \<le> uint (t_gas t) * uint (t_gasPrice t)"
    using gas(3) by (intro mult_right_mono) auto
  then have fee: "uint ?fee = base_gas h env t * uint (t_gasPrice t)"
    using small base uint_mult_small [of "of_int (base_gas h env t)" "t_gasPrice t"] by simp
  have each: "uint (snd x) \<le> uint (BRC s ?i)" if "x \<in> set xs" for x
  proof -
    have "uint (snd x) \<le> (\<Sum>x\<leftarrow>xs. uint (snd x))" using that by (intro member_le_sum_list) auto
    with amounts(2) show ?thesis by simp
  qed
  have ok: "\<forall>p\<in>set ?ps. fst (check_transfer t p s) = Inr ()"
    using amounts(1) each
    by (auto simp: check_transfer_def as_transfer_op verifyTranscation_def ecatch_def ebind_def word_less_def not_less)
  have batch: "batch_ok op_brcTranscation ?ps" using data(3) by (auto simp: batch_ok_def transfer_op_def)
  have init: "initialize h env enum t s = (Inr ?e, s)"
    by (rule initialize_transfers)
      (use data batch ok t signature checks cost pays le fee in \<open>auto simp: isVoteTranction_def mult.commute\<close>)
  have sender: "accts s ?i \<noteq> None"
    using amounts(1) data(2) each [of "hd xs"]
    by (cases xs; cases "accts s ?i") (auto simp: BRC_def amount_of_def uint_0_iff)
  obtain e' s1 where exec: "execute h env enum ?e s = (Inr (True, e'), s1)" "e_ext e' = None"
      "e_gas e' = refund_gas ?e div t_gasPrice t" "e_totalGas e' = e_totalGas ?e" "e_t e' = t"
      "e_excepted e' = verifyTransaction h env t" "BRC s1 = pay ?i xs (BRC s)" "balance s1 = balance s"
      "minerMapping s1 = minerMapping s" "\<forall>i. accts s i \<noteq> None \<longrightarrow> accts s1 i \<noteq> None"
    by (rule execute_transfers [where t = t and h = h and env = env and s = s and xs = xs])
      (use t gas block data(2) amounts sender base in \<open>auto simp: isVoteTranction_def word_le_def\<close>)
  obtain s' where fin: "finalize h env e' s1 = (Inr (e_excepted e' = TE_None, e'), s')" "BRC s' = BRC s1"
      "balance s' = (balance s1)(t_sender (e_t e') := balance s1 (t_sender (e_t e')) - ?fee)"
    by (rule finalize_transfers [where e = e' and fee = ?fee and s = s1])
      (use exec t(1) block(1,4) transfer_fee [OF small gas, of ?ps] le fee pays in \<open>auto simp: fee_receiver_def word_le_def\<close>)
  have "run_transaction h env enum t s = (Inr (verifyTransaction h env t = TE_None, e'), s')"
    using init exec(1,6) fin(1) by (simp add: run_transaction_def executeTransaction_def ebind_def)
  with exec fin show ?thesis by auto
qed

section \<open>A sample chain\<close>

text \<open>A chain late in its life, with the account of a sender and the one of the author of the block.\<close>

definition sample_schedule :: BRCSchedule where
  "sample_schedule = \<lparr>txGas = 21000, txCreateGas = 53000, txDataZeroGas = 0, txDataNonZeroGas = 0, suicideRefundGas = 24000,
     createDataGas = 200, maxCodeSize = 24576, exceptionalFailedCodeDeposit = True\<rparr>"

definition sample_host :: host where
  "sample_host = \<lparr>h_cfg = default_config, h_sha3 = (\<lambda>_. 0), h_fuel = 3, h_to_int64 = uint,
     h_vm = (\<lambda>_ g s. (\<lparr>vr_end = VM_done [], vr_gas = g, vr_refunds = 0, vr_selfdestructs = []\<rparr>, s)), h_code_db = (\<lambda>_. []),
     h_schedule = (\<lambda>_. sample_schedule), h_isPrecompiled = (\<lambda>_ _. False), h_costOfPrecompiled = (\<lambda>_ _ _. 0),
     h_executePrecompiled = (\<lambda>_ _ _. (True, [])), h_minGasPrice = 5, h_chainID = 1, h_homesteadForkBlock = 0,
     h_EIP158ForkBlock = 0, h_experimentalForkBlock = 9223372036854775807\<rparr>"

definition sample_env :: EnvInfo where
  "sample_env = \<lparr>env_number = 34436100, env_timestamp = 0, env_chain_id = 1, env_author = 8, env_gasLimit = 10000000, env_gasUsed = 0\<rparr>"

definition sample_transfers :: "(address \<times> u256) list" where "sample_transfers = [(6, 100), (7, 23)]"

definition sample_transfer :: transaction where
  "sample_transfer = \<lparr>t_kind = MessageCall, t_sender = 5, t_nonce = 0, t_gas = 100000, t_gasPrice = 5, t_value = 0,
     t_receiveAddress = VoteAddress, t_data = batch_data op_brcTranscation (map (transfer_op 5) sample_transfers),
     t_chainId = 1, t_hasSignature = True, t_hasZeroSignature = False, t_lowS = True, t_sha3 = 77, t_sha3_unsigned = 78\<rparr>"

definition sample_chain :: chain_state where
  "sample_chain = \<lparr>accts = [5 \<mapsto> account_nbb 0 1000000 1000, 8 \<mapsto> account_nb 0 0], changeLog = [], accountStartNonce = 0\<rparr>"

lemma sample_base_gas: "base_gas sample_host sample_env t = (if t_kind t = ContractCreation then 53000 else 21000)"
proof -
  have "fold (\<lambda>i g. g + (if i \<noteq> 0 then txDataNonZeroGas sample_schedule else txDataZeroGas sample_schedule)) bs n = n"
    for bs :: bytes and n by (induction bs) (auto simp: sample_schedule_def)
  then show ?thesis by (simp add: base_gas_def baseGasRequired_def sample_host_def) (simp add: sample_schedule_def)
qed

lemma sample_verify: "verifyTransaction sample_host sample_env sample_transfer = TE_None"
proof -
  have "baseGasRequired (h_schedule sample_host (env_number sample_env)) sample_transfer = 21000"
    using sample_base_gas [of sample_transfer] by (simp add: base_gas_def sample_transfer_def)
  then show ?thesis
    by (simp add: verifyTransaction_def Let_def) (simp add: sample_host_def sample_env_def sample_transfer_def)
qed

lemmas sample_defs = sample_host_def sample_env_def sample_transfer_def sample_chain_def sample_transfers_def
  account_nbb_def account_nb_def dead_account_def

lemma sample_checks:
  "fst (check_nonce sample_env executeinitialize sample_transfer sample_chain) = Inr ()"
  "fst (check_gasPrice sample_host sample_env sample_transfer sample_chain) = Inr ()"
  by (simp_all add: check_nonce_def check_gasPrice_def ebind_def getNonce_def getAveragegasPrice_def GaspriceAddress_def
      gasPriceHeight_def default_config_def TESTCHAINID_def MAINCHAINID_def sample_defs)

lemma sample_block:
  "env_number sample_env > modifyReciptGasHeight (h_cfg sample_host)" "\<not> h_isPrecompiled sample_host VoteAddress n"
  "\<not> addressHasCode sample_chain VoteAddress" "accts sample_chain (fee_receiver sample_host sample_env sample_chain) \<noteq> None"
  "accountStartNonce sample_chain \<noteq> -1"
  by (simp_all add: modifyReciptGasHeight_def default_config_def TESTCHAINID_def MAINCHAINID_def VoteAddress_def
      addressHasCode_def fee_receiver_def minerMapping_def Let_def sample_defs)

lemma sample_run:
  obtains e s' where "run_transaction sample_host sample_env executeinitialize sample_transfer sample_chain = (Inr (True, e), s')"
proof -
  note base = sample_base_gas [of sample_transfer]
  have "\<exists>e s'. run_transaction sample_host sample_env executeinitialize sample_transfer sample_chain =
      (Inr (verifyTransaction sample_host sample_env sample_transfer = TE_None, e), s') \<and>
    BRC s' = pay (t_sender sample_transfer) sample_transfers (BRC sample_chain) \<and>
    balance s' = (balance sample_chain)(t_sender sample_transfer := balance sample_chain (t_sender sample_transfer) -
      of_int (base_gas sample_host sample_env sample_transfer) * t_gasPrice sample_transfer)"
    by (rule transfer_run)
      (simp_all add: sample_verify sample_checks sample_block base, simp_all add: sample_defs MaxAddress_def balance_def BRC_def amount_of_def)
  then show thesis using that by (auto simp: sample_verify)
qed

section \<open>Properties\<close>

text \<open>
  C6. A batch of transfers does what it says. When a signed transaction to \<^verbatim>\<open>VoteAddress\<close> carries between one and
  fifty transfers to other accounts that its sender can pay for, with the right nonce and an acceptable
  price, then it runs to its end: the transfers are made one after the other, and the sender pays
  exactly the base gas of the transaction at its price, whatever more gas it offered. This holds also
  when \<^verbatim>\<open>verifyTransaction\<close> notes that the gas limit of the block is exceeded, which only sets the result.
\<close>

theorem transfer_transaction:
  assumes data: "t_data t = batch_data op_brcTranscation (map (transfer_op (t_sender t)) xs)" "xs \<noteq> []" "length xs \<le> 50"
    and t: "t_kind t = MessageCall" "t_receiveAddress t = VoteAddress" "\<not> t_hasZeroSignature t" "t_sender t \<noteq> MaxAddress"
    and signature: "verifyTransaction h env t \<noteq> TE_InvalidSignature"
    and checks: "fst (check_nonce env enum t s) = Inr ()" "fst (check_gasPrice h env t s) = Inr ()"
    and gas: "t_gasPrice t \<noteq> 0" "0 \<le> base_gas h env t" "base_gas h env t \<le> uint (t_gas t)"
    and pays: "uint (t_gas t) * uint (t_gasPrice t) \<le> uint (balance s (t_sender t))"
    and amounts: "\<forall>(j, n)\<in>set xs. j \<noteq> t_sender t \<and> n \<noteq> 0" "(\<Sum>x\<leftarrow>xs. uint (snd x)) \<le> uint (BRC s (t_sender t))"
    and block: "env_number env > modifyReciptGasHeight (h_cfg h)" "\<not> h_isPrecompiled h VoteAddress (env_number env)"
      "\<not> addressHasCode s VoteAddress" "accts s (fee_receiver h env s) \<noteq> None" "accountStartNonce s \<noteq> -1"
  shows "\<exists>e s'. run_transaction h env enum t s = (Inr (verifyTransaction h env t = TE_None, e), s') \<and>
    BRC s' = pay (t_sender t) xs (BRC s) \<and>
    balance s' = (balance s)(t_sender t := balance s (t_sender t) - of_int (base_gas h env t) * t_gasPrice t)"
  by (rule transfer_run [OF assms])

theorem transfer_transaction_witness:
  "\<exists>e s'. run_transaction sample_host sample_env executeinitialize sample_transfer sample_chain = (Inr (True, e), s') \<and>
    BRC s' = pay 5 [(6, 100), (7, 23)] (BRC sample_chain) \<and> balance s' = (balance sample_chain)(5 := 895000)"
proof -
  note base = sample_base_gas [of sample_transfer]
  have "\<exists>e s'. run_transaction sample_host sample_env executeinitialize sample_transfer sample_chain =
      (Inr (verifyTransaction sample_host sample_env sample_transfer = TE_None, e), s') \<and>
    BRC s' = pay (t_sender sample_transfer) sample_transfers (BRC sample_chain) \<and>
    balance s' = (balance sample_chain)(t_sender sample_transfer := balance sample_chain (t_sender sample_transfer) -
      of_int (base_gas sample_host sample_env sample_transfer) * t_gasPrice sample_transfer)"
    by (rule transfer_transaction)
      (simp_all add: sample_verify sample_checks sample_block base, simp_all add: sample_defs MaxAddress_def balance_def BRC_def amount_of_def)
  then show ?thesis
    by (simp add: sample_verify base) (simp add: sample_defs balance_def amount_of_def)
qed

text \<open>
  C7. A transaction is executed at most once. A signed batch of operations that succeeds carried the nonce
  of its sender and leaves that nonce counted up by exactly one, whatever the operations were; so offering
  it again, in any later block, fails and changes nothing.
\<close>

theorem replay_protection:
  assumes "run_transaction h env executeinitialize t s = (Inr r, s')" and "isVoteTranction t" and "t_kind t = MessageCall"
    and "\<not> t_hasZeroSignature t" and "t_sender t \<noteq> MaxAddress" and "accts s (t_sender t) \<noteq> None"
    and "nonce_checked env" and "nonce_checked env'"
  shows "getNonce s (t_sender t) = t_nonce t \<and> getNonce s' (t_sender t) = t_nonce t + 1 \<and>
    (\<exists>x. run_transaction h' env' executeinitialize t s' = (Inl x, s'))"
proof -
  obtain e s1 gas s2 goon e2 s3 e3 s4 where run: "initialize h env executeinitialize t s = (Inr e, s1)"
      "incNonce (t_sender t) s1 = (Inr (), s2)"
      "call_target h env gas (e\<lparr>e_needRefundGas := refund_gas e, e_savepoint := savepoint s2\<rparr>) s2 = (Inr (goon, e2), s3)"
      "if goon then execute_batch h env executeinitialize e s3 = (Inr (), s4) else s4 = s3"
      "finalize h env e3 s4 = (Inr r, s')" "e_selfdestructs e3 = []"
    by (rule run_vote [OF assms(1-5)])
  obtain c where ok: "fst (check_nonce env executeinitialize t s) = Inr ()"
      and verify: "verify_batch h env executeinitialize c e s = (Inr (), s1)"
    by (rule initialize_vote [OF run(1) assms(2,4)])
  from ok assms(7) have nonce: "getNonce s (t_sender t) = t_nonce t"
    by (auto simp: check_nonce_def nonce_checked_def ebind_def split: if_splits)
  have "nonces_kept s s1" by (rule keeps_run [OF nonce_verify_batch verify])
  with assms(6) nonce have "getNonce s1 (t_sender t) = t_nonce t" "accts s1 (t_sender t) \<noteq> None" by (auto dest: nonces_keptD)
  with incNonce_effect [OF run(2)] have s2: "getNonce s2 (t_sender t) = t_nonce t + 1" "accts s2 (t_sender t) \<noteq> None" by auto
  have "nonces_kept s2 s3" by (rule keeps_run [OF nonce_call_target run(3)])
  moreover have "nonces_kept s3 s4"
    using run(4) by (auto simp: nonces.R_refl split: if_splits intro: keeps_run [OF nonce_execute_batch])
  moreover have "nonces_kept s4 s'" by (rule keeps_run [OF nonce_finalize run(5)]) (rule run(6))
  ultimately have "nonces_kept s2 s'" by (blast intro: nonces.R_trans)
  with s2 have after: "getNonce s' (t_sender t) = t_nonce t + 1" by (auto dest: nonces_keptD)
  then have "check_nonce env' executeinitialize t s' = (Inl InvalidNonce, s')"
    using assms(8) by (auto simp: check_nonce_def nonce_checked_def ebind_def)
  then have "\<exists>x. initialize h' env' executeinitialize t s' = (Inl x, s') \<and> x \<in> {InvalidSignature, InvalidNonce}"
    using assms(4) by (auto simp: initialize_def Let_def ebind_def)
  then have "\<exists>x. run_transaction h' env' executeinitialize t s' = (Inl x, s')"
    by (auto simp: run_transaction_def executeTransaction_def ebind_def Let_def is_dev_exception_def rollback_def savepoint_def)
  with nonce after show ?thesis by blast
qed

theorem replay_protection_witness:
  "\<exists>e s'. run_transaction sample_host sample_env executeinitialize sample_transfer sample_chain = (Inr (True, e), s') \<and>
    getNonce s' 5 = 1 \<and>
    (\<exists>x. run_transaction sample_host sample_env executeinitialize sample_transfer s' = (Inl x, s'))"
proof -
  obtain e s' where run: "run_transaction sample_host sample_env executeinitialize sample_transfer sample_chain = (Inr (True, e), s')"
    by (rule sample_run)
  have "getNonce sample_chain (t_sender sample_transfer) = t_nonce sample_transfer \<and>
      getNonce s' (t_sender sample_transfer) = t_nonce sample_transfer + 1 \<and>
      (\<exists>x. run_transaction sample_host sample_env executeinitialize sample_transfer s' = (Inl x, s'))"
    by (rule replay_protection [OF run]) (simp_all add: isVoteTranction_def nonce_checked_def MaxAddress_def sample_defs)
  with run show ?thesis by (simp add: sample_transfer_def)
qed

end
