(* ===== verification/TrieCommon.thy ===== *)
theory TrieCommon
  imports RlpCodec
begin

unbundle bit_operations_syntax

text \<open>
  libdevcore/TrieCommon: keys as sequences of nibbles, and the hex-prefix form in which a node of the trie
  stores a part of a key. A \<^verbatim>\<open>NibbleSlice\<close> is a view of some bytes from a nibble on; \<open>nibbles\<close> is what it
  shows, and the operations on slices and the three versions of \<^verbatim>\<open>hexPrefixEncode\<close> are related to it.
\<close>

section \<open>Slices\<close>

definition nibble :: "bytes \<Rightarrow> nat \<Rightarrow> byte" where
  "nibble d i = (if odd i then (d ! (i div 2)) AND 15 else drop_bit 4 (d ! (i div 2)))"

record NibbleSlice =
  ns_data :: bytes
  ns_offset :: nat

definition slice :: "bytes \<Rightarrow> nat \<Rightarrow> NibbleSlice" where
  "slice d n = \<lparr>ns_data = d, ns_offset = n\<rparr>"

definition ns_size :: "NibbleSlice \<Rightarrow> nat" where
  "ns_size k = length (ns_data k) * 2 - ns_offset k"

definition ns_at :: "NibbleSlice \<Rightarrow> nat \<Rightarrow> byte" where
  "ns_at k i = nibble (ns_data k) (ns_offset k + i)"

definition ns_mid :: "NibbleSlice \<Rightarrow> nat \<Rightarrow> NibbleSlice" where
  "ns_mid k i = slice (ns_data k) (ns_offset k + i)"

text \<open>The loop of \<^verbatim>\<open>sharedNibbles\<close>, and the functions of a slice over it.\<close>

function sharedNibbles_loop :: "bytes \<Rightarrow> nat \<Rightarrow> nat \<Rightarrow> bytes \<Rightarrow> nat \<Rightarrow> nat \<Rightarrow> nat \<Rightarrow> nat" where
  "sharedNibbles_loop d1 b1 e1 d2 b2 e2 ret =
     (if b1 < e1 \<and> b2 < e2 \<and> nibble d1 b1 = nibble d2 b2
      then sharedNibbles_loop d1 (b1 + 1) e1 d2 (b2 + 1) e2 (ret + 1) else ret)"
  by auto
termination
  by (relation "measure (\<lambda>(_, b1, e1, _). e1 - b1)") auto

declare sharedNibbles_loop.simps [simp del]

definition sharedNibbles :: "bytes \<Rightarrow> nat \<Rightarrow> nat \<Rightarrow> bytes \<Rightarrow> nat \<Rightarrow> nat \<Rightarrow> nat" where
  "sharedNibbles d1 b1 e1 d2 b2 e2 = sharedNibbles_loop d1 b1 e1 d2 b2 e2 0"

definition ns_shared :: "NibbleSlice \<Rightarrow> NibbleSlice \<Rightarrow> nat" where
  "ns_shared x k = sharedNibbles (ns_data x) (ns_offset x) (ns_offset x + ns_size x)
     (ns_data k) (ns_offset k) (ns_offset k + ns_size k)"

definition ns_contains :: "NibbleSlice \<Rightarrow> NibbleSlice \<Rightarrow> bool" where
  "ns_contains x k \<longleftrightarrow> ns_shared x k = ns_size k"

definition ns_eq :: "NibbleSlice \<Rightarrow> NibbleSlice \<Rightarrow> bool" where
  "ns_eq x k \<longleftrightarrow> ns_size k = ns_size x \<and> ns_shared x k = ns_size k"

section \<open>Hex-prefix encoding\<close>

definition hp_flags :: "bool \<Rightarrow> bool \<Rightarrow> byte" where
  "hp_flags leaf odd' = ((if leaf then 2 else 0) OR (if odd' then 1 else 0)) * 16"

text \<open>The version on a vector with one nibble per byte; \<^verbatim>\<open>_end\<close> is negative when it counts from the back.\<close>

function hp_pairs :: "bytes \<Rightarrow> nat \<Rightarrow> nat \<Rightarrow> bytes \<Rightarrow> bytes" where
  "hp_pairs v i e ret = (if i < e then hp_pairs v (i + 2) e (ret @ [v ! i * 16 + v ! (i + 1)]) else ret)"
  by auto
termination
  by (relation "measure (\<lambda>(_, i, e, _). e - i)") auto

declare hp_pairs.simps [simp del]

definition hexPrefixEncode_vector :: "bytes \<Rightarrow> bool \<Rightarrow> nat \<Rightarrow> int \<Rightarrow> bytes" where
  "hexPrefixEncode_vector v leaf begin' end' =
     (let e = (if end' < 0 then nat (int (length v) + 1 + end') else nat end');
          odd' = odd (e - begin');
          ret = hp_flags leaf odd'
      in if odd' then hp_pairs v (begin' + 1) e [ret OR v ! begin'] else hp_pairs v begin' e [ret])"

text \<open>The nibble goes into the last byte or opens a new one, by the parity of \<open>d\<close>.\<close>

definition hp_push :: "byte \<Rightarrow> nat \<times> bytes \<Rightarrow> nat \<times> bytes" where
  "hp_push n x = (case x of (d, ret) \<Rightarrow>
     (d + 1, if odd d then butlast ret @ [last ret OR n] else ret @ [push_bit 4 n]))"

definition hexPrefixEncode_data :: "bytes \<Rightarrow> bool \<Rightarrow> nat \<Rightarrow> int \<Rightarrow> nat \<Rightarrow> bytes" where
  "hexPrefixEncode_data d leaf beginNibble endNibble off =
     (let b = beginNibble + off;
          e = nat (if endNibble < 0 then int (length d * 2 - off) + 1 + endNibble else endNibble) + off;
          odd' = odd (e - b)
      in snd (fold (\<lambda>i. hp_push (nibble d i)) [b..<e] (if odd' then 1 else 2, [hp_flags leaf odd'])))"

definition hexPrefixEncode :: "NibbleSlice \<Rightarrow> bool \<Rightarrow> nat \<Rightarrow> int \<Rightarrow> bytes" where
  "hexPrefixEncode k leaf begin' end' = hexPrefixEncode_data (ns_data k) leaf begin' end' (ns_offset k)"

definition hexPrefixEncode_two :: "NibbleSlice \<Rightarrow> NibbleSlice \<Rightarrow> bool \<Rightarrow> bytes" where
  "hexPrefixEncode_two k1 k2 leaf =
     (let b1 = ns_offset k1; e1 = length (ns_data k1) * 2; b2 = ns_offset k2; e2 = length (ns_data k2) * 2;
          odd' = odd (e1 - b1 + (e2 - b2))
      in snd (fold (\<lambda>i. hp_push (nibble (ns_data k2) i)) [b2..<e2]
           (fold (\<lambda>i. hp_push (nibble (ns_data k1) i)) [b1..<e1] (if odd' then 1 else 2, [hp_flags leaf odd']))))"

definition keyOf :: "bytes \<Rightarrow> NibbleSlice" where
  "keyOf hpe =
     (if length hpe = 0 then slice hpe 0
      else if hpe ! 0 AND 0x10 \<noteq> 0 then slice hpe 1 else slice hpe 2)"

definition asNibbles :: "bytes \<Rightarrow> bytes" where
  "asNibbles s = concat (map (\<lambda>i. [i div 16, i mod 16]) s)"

section \<open>What slices show\<close>

definition nibbles :: "NibbleSlice \<Rightarrow> byte list" where
  "nibbles k = map (ns_at k) [0..<ns_size k]"

definition ns_ok :: "NibbleSlice \<Rightarrow> bool" where
  "ns_ok k \<longleftrightarrow> ns_offset k \<le> length (ns_data k) * 2"

definition is_nibble :: "byte \<Rightarrow> bool" where
  "is_nibble n \<longleftrightarrow> n < 16"

subsection \<open>Bits\<close>

lemma is_nibble_take_bit: "is_nibble n \<longleftrightarrow> take_bit 4 n = n"
proof -
  have "unat (n mod 16) = unat n mod 16" by (simp add: unat_mod)
  then have "unat (take_bit 4 n) = unat n mod 16" by (simp add: take_bit_eq_mod)
  then show ?thesis by (auto simp: is_nibble_def word_less_nat_alt word_unat_eq_iff)
qed

lemma is_nibble_bit: "is_nibble n \<Longrightarrow> bit n j \<Longrightarrow> j < 4"
  unfolding is_nibble_take_bit by (metis bit_take_bit_iff)

lemma take_bit_15: "take_bit 4 n = n AND 15" for n :: byte
  using take_bit_eq_mask [of 4 n] by (simp add: mask_eq_exp_minus_1)

lemma low_less: "is_nibble (x AND 15)"
  by (simp add: is_nibble_take_bit flip: take_bit_15)

lemma high_less: "is_nibble (drop_bit 4 x)"
proof -
  have "unat x < 2 ^ LENGTH(8)" by (rule unsigned_less)
  then have "unat (drop_bit 4 x) < 16" by (simp add: drop_bit_eq_div unat_div)
  then show ?thesis by (simp add: is_nibble_def word_less_nat_alt)
qed

lemma low_nibble: "is_nibble n \<Longrightarrow> (push_bit 4 x OR n) AND 15 = n"
  unfolding take_bit_15 [symmetric] is_nibble_take_bit by (simp add: take_bit_push_bit)

lemma high_nibble: "is_nibble n \<Longrightarrow> is_nibble x \<Longrightarrow> drop_bit 4 (push_bit 4 x OR n) = x"
  by (rule bit_word_eqI)
    (auto simp: bit_drop_bit_eq bit_or_iff bit_push_bit_iff dest: is_nibble_bit)

lemma nibble_and_high: "is_nibble n \<Longrightarrow> n AND 16 = 0" "is_nibble n \<Longrightarrow> n AND 32 = 0"
proof -
  have "n AND (15 AND 16) = 0" "n AND (15 AND 32) = 0" by simp_all
  moreover assume "is_nibble n"
  then have "n AND 15 = n" by (simp add: is_nibble_take_bit take_bit_15)
  ultimately show "n AND 16 = 0" "n AND 32 = 0" by (simp_all only: flip: and.assoc)
qed

lemma length_nibbles [simp]: "length (nibbles k) = ns_size k"
  by (simp add: nibbles_def)

lemma nth_nibbles: "i < ns_size k \<Longrightarrow> nibbles k ! i = ns_at k i"
  by (simp add: nibbles_def)

lemma nibble_less: "is_nibble (nibble d i)"
  by (simp add: nibble_def low_less high_less)

lemma nibbles_less: "n \<in> set (nibbles k) \<Longrightarrow> is_nibble n"
  by (auto simp: nibbles_def ns_at_def nibble_less)

section \<open>Hex-prefix form\<close>

fun pack :: "byte list \<Rightarrow> bytes" where
  "pack (a # b # ns) = (push_bit 4 a OR b) # pack ns"
| "pack _ = []"

definition hp :: "bool \<Rightarrow> byte list \<Rightarrow> bytes" where
  "hp leaf ns =
     (if odd (length ns) then (hp_flags leaf True OR hd ns) # pack (tl ns) else hp_flags leaf False # pack ns)"

lemma push_even:
  "even d \<Longrightarrow> even (length ns) \<Longrightarrow> fold hp_push ns (d, ret) = (d + length ns, ret @ pack ns)"
proof (induction ns arbitrary: d ret rule: pack.induct)
  case (1 a b ns)
  then show ?case by (simp add: hp_push_def)
qed auto

lemma push_all:
  "snd (fold hp_push ns (if odd (length ns) then 1 else 2, [hp_flags leaf (odd (length ns))])) = hp leaf ns"
proof (cases "odd (length ns)")
  case True
  then obtain n ns' where "ns = n # ns'" "even (length ns')" by (cases ns) auto
  then show ?thesis by (simp add: hp_push_def push_even hp_def)
qed (simp add: push_even hp_def)

lemma nibbles_range: "map (nibble (ns_data k)) [ns_offset k + i..<ns_offset k + j] = map (ns_at k) [i..<j]"
  by (rule nth_equalityI) (auto simp: ns_at_def add.assoc)

lemma hexPrefixEncode_hp:
  assumes "i \<le> j" and "j \<le> ns_size k" and "e = int j \<or> e = -1 \<and> j = ns_size k"
  shows "hexPrefixEncode k leaf i e = hp leaf (take (j - i) (drop i (nibbles k)))"
proof -
  let ?ns = "map (ns_at k) [i..<j]"
  have "take (j - i) (drop i (nibbles k)) = ?ns"
    using assms(1,2) by (simp add: nibbles_def drop_map take_map)
  moreover have e: "nat (if e < 0 then int (length (ns_data k) * 2 - ns_offset k) + 1 + e else e) + ns_offset k = ns_offset k + j"
    using assms(3) by (auto simp: ns_size_def)
  have len: "i + ns_offset k = ns_offset k + i" "odd (ns_offset k + j - (ns_offset k + i)) = odd (length ?ns)"
    by simp_all
  have "hexPrefixEncode k leaf i e =
      snd (fold hp_push ?ns (if odd (length ?ns) then 1 else 2, [hp_flags leaf (odd (length ?ns))]))"
    unfolding hexPrefixEncode_def hexPrefixEncode_data_def Let_def e len nibbles_range [symmetric] fold_map comp_def ..
  ultimately show ?thesis by (simp only: push_all)
qed

lemma hexPrefixEncode_two_hp:
  assumes "ns_ok k1" and "ns_ok k2"
  shows "hexPrefixEncode_two k1 k2 leaf = hp leaf (nibbles k1 @ nibbles k2)"
proof -
  have e: "nibbles k = map (nibble (ns_data k)) [ns_offset k..<length (ns_data k) * 2]" if "ns_ok k" for k
    using that nibbles_range [of k 0 "ns_size k"] by (simp add: nibbles_def ns_ok_def ns_size_def)
  have len: "length (nibbles k1 @ nibbles k2) = length (ns_data k1) * 2 - ns_offset k1 + (length (ns_data k2) * 2 - ns_offset k2)"
    by (simp add: ns_size_def)
  have "hexPrefixEncode_two k1 k2 leaf =
      snd (fold hp_push (nibbles k1 @ nibbles k2) (if odd (length (nibbles k1 @ nibbles k2)) then 1 else 2,
        [hp_flags leaf (odd (length (nibbles k1 @ nibbles k2)))]))"
    unfolding len unfolding hexPrefixEncode_two_def e [OF assms(1)] e [OF assms(2)] by (simp add: Let_def fold_map comp_def)
  then show ?thesis by (simp only: push_all)
qed

lemma nibble_Cons: "nibble (x # d) (Suc (Suc i)) = nibble d i"
  by (simp add: nibble_def)

lemma nibble_pack:
  "even (length ns) \<Longrightarrow> \<forall>n\<in>set ns. is_nibble n \<Longrightarrow> i < length ns \<Longrightarrow> nibble (pack ns) i = ns ! i"
proof (induction ns arbitrary: i rule: pack.induct)
  case (1 a b ns)
  consider "i = 0" | "i = 1" | j where "i = Suc (Suc j)" by (metis One_nat_def not0_implies_Suc)
  then show ?case
    using "1" by cases (auto simp: nibble_Cons nibble_def [of _ 0] nibble_def [of _ "Suc 0"] high_nibble low_nibble simp del: drop_bit_or)
qed auto

lemma length_pack: "even (length ns) \<Longrightarrow> length (pack ns) = length ns div 2"
  by (induction ns rule: pack.induct) auto

lemma length_hp: "length (hp leaf ns) = Suc (length ns div 2)"
  by (cases ns) (auto simp: hp_def length_pack)

lemma hp_flags_values: "hp_flags False False = 0" "hp_flags False True = 16" "hp_flags True False = 32" "hp_flags True True = 48"
  by (simp_all add: hp_flags_def)

lemma hp_bits:
  assumes "\<forall>n\<in>set ns. is_nibble n"
  shows "hp leaf ns ! 0 AND 0x10 \<noteq> 0 \<longleftrightarrow> odd (length ns)" and "hp leaf ns ! 0 AND 0x20 \<noteq> 0 \<longleftrightarrow> leaf"
proof -
  have "is_nibble (hd ns)" if "odd (length ns)" using assms that by (cases ns) auto
  then show "hp leaf ns ! 0 AND 0x10 \<noteq> 0 \<longleftrightarrow> odd (length ns)" "hp leaf ns ! 0 AND 0x20 \<noteq> 0 \<longleftrightarrow> leaf"
    by (cases leaf; auto simp: hp_def hp_flags_values bit.conj_disj_distrib2 nibble_and_high)+
qed

lemma keyOf_hp:
  assumes "\<forall>n\<in>set ns. is_nibble n"
  shows "nibbles (keyOf (hp leaf ns)) = ns" and "ns_ok (keyOf (hp leaf ns))"
proof -
  have k: "keyOf (hp leaf ns) = slice (hp leaf ns) (if odd (length ns) then 1 else 2)"
    using hp_bits(1) [OF assms] length_hp [of leaf ns] by (simp add: keyOf_def)
  then have size: "ns_size (keyOf (hp leaf ns)) = length ns"
    by (auto simp: ns_size_def slice_def length_hp elim!: oddE evenE)
  show "ns_ok (keyOf (hp leaf ns))" unfolding k by (simp add: ns_ok_def slice_def length_hp)
  show "nibbles (keyOf (hp leaf ns)) = ns"
  proof (rule nth_equalityI)
    fix i
    assume "i < length (nibbles (keyOf (hp leaf ns)))"
    then have i: "i < length ns" by (simp add: size)
    show "nibbles (keyOf (hp leaf ns)) ! i = ns ! i"
    proof (cases "odd (length ns)")
      case True
      then obtain n ns' where ns: "ns = n # ns'" "even (length ns')" by (cases ns) auto
      have low: "(hp_flags leaf True OR n) AND 15 = n"
        using low_nibble [of n "if leaf then 3 else 1"] assms ns(1) by (cases leaf) (auto simp: hp_flags_values)
      have "nibble (hp leaf ns) (Suc i) = ns ! i"
        using i ns assms nibble_pack [of ns'] low
        by (cases i) (auto simp: hp_def nibble_Cons nibble_def [of _ "Suc 0"])
      with True i show ?thesis by (simp add: nth_nibbles size ns_at_def) (simp add: k slice_def)
    next
      case False
      then have "nibble (hp leaf ns) (Suc (Suc i)) = ns ! i"
        using i assms nibble_pack [of ns] by (simp add: hp_def nibble_Cons)
      with False i show ?thesis by (simp add: nth_nibbles size ns_at_def) (simp add: k slice_def)
    qed
  qed (simp add: size)
qed

section \<open>Slices and lists\<close>

fun lcp :: "'a list \<Rightarrow> 'a list \<Rightarrow> nat" where
  "lcp (x # xs) (y # ys) = (if x = y then Suc (lcp xs ys) else 0)"
| "lcp _ _ = 0"

lemma lcp_take: "take (lcp xs ys) xs = take (lcp xs ys) ys"
  by (induction xs ys rule: lcp.induct) auto

lemma lcp_le: "lcp xs ys \<le> length xs" "lcp xs ys \<le> length ys"
  by (induction xs ys rule: lcp.induct) auto

lemma lcp_eq_length: "lcp xs ys = length ys \<longleftrightarrow> take (length ys) xs = ys"
  by (induction xs ys rule: lcp.induct) auto

lemma sharedNibbles_lcp:
  "sharedNibbles_loop d1 b1 e1 d2 b2 e2 ret = ret + lcp (map (nibble d1) [b1..<e1]) (map (nibble d2) [b2..<e2])"
proof (induction d1 b1 e1 d2 b2 e2 ret rule: sharedNibbles_loop.induct)
  case (1 d1 b1 e1 d2 b2 e2 ret)
  then show ?case
    by (subst sharedNibbles_loop.simps; cases "b1 < e1"; cases "b2 < e2") (auto simp: upt_conv_Cons)
qed

lemma ns_shared_lcp: "ns_shared x k = lcp (nibbles x) (nibbles k)"
  using nibbles_range [of x 0 "ns_size x"] nibbles_range [of k 0 "ns_size k"]
  by (simp add: ns_shared_def sharedNibbles_def sharedNibbles_lcp nibbles_def)

lemma ns_contains_prefix: "ns_contains x k \<longleftrightarrow> take (ns_size k) (nibbles x) = nibbles k"
  using lcp_eq_length [of "nibbles x" "nibbles k"] by (simp add: ns_contains_def ns_shared_lcp)

lemma ns_eq_nibbles: "ns_eq x k \<longleftrightarrow> nibbles x = nibbles k"
proof -
  have "nibbles x = nibbles k" if "ns_size k = ns_size x" "ns_shared x k = ns_size k"
    using that lcp_take [of "nibbles x" "nibbles k"] by (simp add: ns_shared_lcp)
  moreover have "lcp xs xs = length xs" for xs :: "byte list" by (induction xs) auto
  ultimately show ?thesis unfolding ns_eq_def ns_shared_lcp by (metis length_nibbles)
qed

lemma nibbles_mid: "i \<le> ns_size k \<Longrightarrow> nibbles (ns_mid k i) = drop i (nibbles k)"
  by (rule nth_equalityI) (auto simp: ns_mid_def slice_def nth_nibbles ns_size_def ns_at_def add.assoc)

lemma ns_ok_mid: "ns_ok k \<Longrightarrow> i \<le> ns_size k \<Longrightarrow> ns_ok (ns_mid k i)"
  by (auto simp: ns_ok_def ns_mid_def slice_def ns_size_def)

lemma ns_at_nibbles: "ns_size k \<noteq> 0 \<Longrightarrow> ns_at k 0 = hd (nibbles k)"
  by (simp add: nibbles_def upt_conv_Cons)

lemma ns_size_mid: "ns_size (ns_mid k i) = ns_size k - i"
  by (simp add: ns_size_def ns_mid_def slice_def)

end
