(* ===== verification/TrieDB.thy ===== *)
theory TrieDB
  imports TrieCommon RlpLaws
begin

text \<open>
  libdevcore/TrieDB.h: the Merkle Patricia trie that holds the state, over the database of its nodes. A node is a
  list of two items (a part of a key and a value or another node) or of seventeen items (the nodes for the next
  nibble and a value). A node whose RLP form has at least 32 bytes is stored under its hash and referred to by it,
  a shorter one stands inside its parent.

  \<^verbatim>\<open>GenericTrieDB\<close> is a template over the database, so its functions take the operations of the database as the record
  \<open>db_ops\<close>; StateCacheDB and OverlayDB provide them. Reading an item goes through the RLP reader of \<open>Rlp\<close>, and each
  exception of the reader is passed on. The recursion of the C++ follows the nodes of the database, which may be
  corrupt; the functions carry a fuel and the laws show that twice the number of nibbles of a key is enough.
\<close>

section \<open>Databases of nodes\<close>

record 'd db_ops =
  db_lookup :: "'d \<Rightarrow> h256 \<Rightarrow> bytes"
  db_exists :: "'d \<Rightarrow> h256 \<Rightarrow> bool"
  db_insert :: "h256 \<Rightarrow> bytes \<Rightarrow> 'd \<Rightarrow> 'd"
  db_kill :: "h256 \<Rightarrow> 'd \<Rightarrow> 'd"

subsection \<open>StateCacheDB\<close>

text \<open>The nodes in memory with the number of their uses; a killed node stays until \<^verbatim>\<open>purge\<close>. \<open>m_aux\<close> holds strings beside the trie.\<close>

record StateCacheDB =
  m_main :: "h256 \<rightharpoonup> bytes \<times> 32 word"
  m_aux :: "h256 \<rightharpoonup> bytes \<times> bool"
  m_enforceRefs :: bool

definition cache_lookup :: "StateCacheDB \<Rightarrow> h256 \<Rightarrow> bytes" where
  "cache_lookup db h = (case m_main db h of
       None \<Rightarrow> []
     | Some (v, n) \<Rightarrow> (if \<not> m_enforceRefs db \<or> n > 0 then v else []))"

definition cache_exists :: "StateCacheDB \<Rightarrow> h256 \<Rightarrow> bool" where
  "cache_exists db h = (case m_main db h of None \<Rightarrow> False | Some (v, n) \<Rightarrow> \<not> m_enforceRefs db \<or> n > 0)"

definition cache_insert :: "h256 \<Rightarrow> bytes \<Rightarrow> StateCacheDB \<Rightarrow> StateCacheDB" where
  "cache_insert h v db = db\<lparr>m_main := (m_main db)(h \<mapsto>
     (case m_main db h of None \<Rightarrow> (v, 1) | Some (_, n) \<Rightarrow> (v, n + 1)))\<rparr>"

definition cache_kill :: "h256 \<Rightarrow> StateCacheDB \<Rightarrow> bool \<times> StateCacheDB" where
  "cache_kill h db = (case m_main db h of
       None \<Rightarrow> (False, db)
     | Some (v, n) \<Rightarrow> (if n > 0 then (True, db\<lparr>m_main := (m_main db)(h \<mapsto> (v, n - 1))\<rparr>) else (False, db)))"

definition cache_lookupAux :: "StateCacheDB \<Rightarrow> h256 \<Rightarrow> bytes" where
  "cache_lookupAux db h = (case m_aux db h of
       None \<Rightarrow> []
     | Some (v, inUse) \<Rightarrow> (if \<not> m_enforceRefs db \<or> inUse then v else []))"

definition cache_removeAux :: "h256 \<Rightarrow> StateCacheDB \<Rightarrow> StateCacheDB" where
  "cache_removeAux h db = db\<lparr>m_aux := (m_aux db)(h \<mapsto> (case m_aux db h of None \<Rightarrow> ([], False) | Some (v, _) \<Rightarrow> (v, False)))\<rparr>"

definition cache_insertAux :: "h256 \<Rightarrow> bytes \<Rightarrow> StateCacheDB \<Rightarrow> StateCacheDB" where
  "cache_insertAux h v db = db\<lparr>m_aux := (m_aux db)(h \<mapsto> (v, True))\<rparr>"

definition cache_purge :: "StateCacheDB \<Rightarrow> StateCacheDB" where
  "cache_purge db = db\<lparr>
     m_main := (\<lambda>h. case m_main db h of None \<Rightarrow> None | Some (v, n) \<Rightarrow> (if n \<noteq> 0 then Some (v, n) else None)),
     m_aux := (\<lambda>h. case m_aux db h of None \<Rightarrow> None | Some (v, inUse) \<Rightarrow> (if inUse then Some (v, inUse) else None))\<rparr>"

definition cache_clear :: "StateCacheDB \<Rightarrow> StateCacheDB" where
  "cache_clear db = db\<lparr>m_main := Map.empty, m_aux := Map.empty\<rparr>"

definition cache_ops :: "StateCacheDB db_ops" where
  "cache_ops = \<lparr>db_lookup = cache_lookup, db_exists = cache_exists, db_insert = cache_insert,
     db_kill = (\<lambda>h db. snd (cache_kill h db))\<rparr>"

subsection \<open>OverlayDB\<close>

text \<open>
  The same over a database on disk, when there is one: a map from strings to strings, in which the nodes have their hash
  as the key and the strings beside the trie a key of 33 bytes that ends with 255.
\<close>

record OverlayDB =
  ov_cache :: StateCacheDB
  ov_disk :: "(bytes \<rightharpoonup> bytes) option"

definition toSlice :: "h256 \<Rightarrow> bytes" where
  "toSlice h = toBigEndian 32 (unat h)"

definition aux_key :: "h256 \<Rightarrow> bytes" where
  "aux_key h = toSlice h @ [255]"

definition disk_lookup :: "(bytes \<rightharpoonup> bytes) \<Rightarrow> bytes \<Rightarrow> bytes" where
  "disk_lookup disk k = (case disk k of None \<Rightarrow> [] | Some v \<Rightarrow> v)"

definition overlay_lookup :: "OverlayDB \<Rightarrow> h256 \<Rightarrow> bytes" where
  "overlay_lookup db h =
     (let ret = cache_lookup (ov_cache db) h in
      case ov_disk db of
        None \<Rightarrow> ret
      | Some disk \<Rightarrow> (if ret \<noteq> [] then ret else disk_lookup disk (toSlice h)))"

definition overlay_exists :: "OverlayDB \<Rightarrow> h256 \<Rightarrow> bool" where
  "overlay_exists db h \<longleftrightarrow>
     cache_exists (ov_cache db) h \<or> (case ov_disk db of None \<Rightarrow> False | Some disk \<Rightarrow> disk (toSlice h) \<noteq> None)"

definition overlay_insert :: "h256 \<Rightarrow> bytes \<Rightarrow> OverlayDB \<Rightarrow> OverlayDB" where
  "overlay_insert h v db = db\<lparr>ov_cache := cache_insert h v (ov_cache db)\<rparr>"

definition overlay_kill :: "h256 \<Rightarrow> OverlayDB \<Rightarrow> OverlayDB" where
  "overlay_kill h db = db\<lparr>ov_cache := snd (cache_kill h (ov_cache db))\<rparr>"

definition overlay_lookupAux :: "OverlayDB \<Rightarrow> h256 \<Rightarrow> bytes" where
  "overlay_lookupAux db h =
     (let ret = cache_lookupAux (ov_cache db) h in
      case ov_disk db of
        None \<Rightarrow> ret
      | Some disk \<Rightarrow> (if ret \<noteq> [] then ret else disk_lookup disk (aux_key h)))"

text \<open>
  \<^verbatim>\<open>commit\<close> writes the nodes and the strings in use to the disk and forgets all of them; \<^verbatim>\<open>rollback\<close> forgets the nodes.
  The write to the disk either succeeds within ten attempts or ends the program; only the first is modelled.
\<close>

definition batch :: "StateCacheDB \<Rightarrow> bytes \<Rightarrow> bytes option" where
  "batch c k =
     (if length k = 32 then
        (case m_main c (of_nat (fromBigEndian k)) of Some (v, n) \<Rightarrow> (if n \<noteq> 0 then Some v else None) | None \<Rightarrow> None)
      else if length k = 33 \<and> last k = 255 then
        (case m_aux c (of_nat (fromBigEndian (butlast k))) of Some (v, inUse) \<Rightarrow> (if inUse then Some v else None) | None \<Rightarrow> None)
      else None)"

definition overlay_commit :: "OverlayDB \<Rightarrow> OverlayDB" where
  "overlay_commit db = (case ov_disk db of
       None \<Rightarrow> db
     | Some disk \<Rightarrow> db\<lparr>ov_disk := Some (disk ++ batch (ov_cache db)), ov_cache := cache_clear (ov_cache db)\<rparr>)"

definition overlay_rollback :: "OverlayDB \<Rightarrow> OverlayDB" where
  "overlay_rollback db = db\<lparr>ov_cache := (ov_cache db)\<lparr>m_main := Map.empty\<rparr>\<rparr>"

definition overlay_ops :: "OverlayDB db_ops" where
  "overlay_ops = \<lparr>db_lookup = overlay_lookup, db_exists = overlay_exists, db_insert = overlay_insert, db_kill = overlay_kill\<rparr>"

section \<open>Reading nodes\<close>

datatype trie_error = Trie_rlp rlp_error | Trie_assert | Trie_undefined | Trie_BadRoot | Trie_RootNotFound | Trie_fuel

type_synonym ('d, 'a) tr = "('d, trie_error, 'a) emonad"

definition RLPNull :: bytes where "RLPNull = [0x80]"

definition tlift :: "rlp_error + 'a \<Rightarrow> ('d, 'a) tr" where
  "tlift r = (case r of Inl e \<Rightarrow> ethrow (Trie_rlp e) | Inr x \<Rightarrow> ereturn x)"

definition rlp_isEmpty :: "bytes \<Rightarrow> bool" where
  "rlp_isEmpty b \<longleftrightarrow> \<not> isNull b \<and> (unat (b ! 0) = c_rlpDataImmLenStart \<or> unat (b ! 0) = c_rlpListStart)"

text \<open>\<^verbatim>\<open>_n[i]\<close> for the given indices.\<close>

definition titems :: "bytes \<Rightarrow> nat list \<Rightarrow> ('d, bytes list) tr" where
  "titems b is = tlift (subscripts is (fresh_node b))"

definition tRLP :: "bytes \<Rightarrow> ('d, bytes) tr" where
  "tRLP b = tlift (RLP_node VeryStrict b)"

definition thash :: "bytes \<Rightarrow> ('d, h256) tr" where
  "thash b = tlift (toHash Strict b)"

definition tstring :: "bytes \<Rightarrow> ('d, bytes) tr" where
  "tstring b = tlift (toBytes LaissezFaire b)"

definition titemCount :: "bytes \<Rightarrow> ('d, nat) tr" where
  "titemCount b = tlift (itemCount b)"

definition isLeaf :: "bytes \<Rightarrow> ('d, bool) tr" where
  "isLeaf b =
     ebind (titems b [0]) (\<lambda>is.
     ebind (tlift (payload (is ! 0))) (\<lambda>pl.
       if pl = [] then ethrow Trie_undefined else ereturn (pl ! 0 AND 0x20 \<noteq> 0)))"

definition keyOf_node :: "bytes \<Rightarrow> ('d, NibbleSlice) tr" where
  "keyOf_node b = ebind (titems b [0]) (\<lambda>is. ebind (tlift (payload (is ! 0))) (\<lambda>pl. ereturn (keyOf pl)))"

definition tnode :: "'d db_ops \<Rightarrow> h256 \<Rightarrow> ('d, bytes) tr" where
  "tnode ops h = egets (\<lambda>d. db_lookup ops d h)"

definition forceInsertNode :: "'d db_ops \<Rightarrow> (bytes \<Rightarrow> h256) \<Rightarrow> bytes \<Rightarrow> ('d, h256) tr" where
  "forceInsertNode ops sha3 v = ebind (emodify (db_insert ops (sha3 v) v)) (\<lambda>_. ereturn (sha3 v))"

definition forceKillNode :: "'d db_ops \<Rightarrow> h256 \<Rightarrow> ('d, unit) tr" where
  "forceKillNode ops h = emodify (db_kill ops h)"

definition killNode :: "'d db_ops \<Rightarrow> bytes \<Rightarrow> h256 \<Rightarrow> ('d, unit) tr" where
  "killNode ops d h = ewhen (length d \<ge> 32) (forceKillNode ops h)"

text \<open>A node inside another node, as it is written.\<close>

definition streamNode :: "'d db_ops \<Rightarrow> (bytes \<Rightarrow> h256) \<Rightarrow> bytes \<Rightarrow> ('d, writer) tr" where
  "streamNode ops sha3 b =
     (if length b < 32 then ereturn (appendRaw b 1)
      else ebind (forceInsertNode ops sha3 b) (\<lambda>h. ereturn (append_hash 32 h)))"

definition raws :: "bytes list \<Rightarrow> writer list" where
  "raws is = map (\<lambda>i. appendRaw i 1) is"

definition append_str :: "bytes \<Rightarrow> writer" where
  "append_str s = append_bytes s False"

text \<open>A reference to a node, followed: \<^verbatim>\<open>n.isList() ? n : RLP(node(n.toHash<h256>()))\<close>.\<close>

definition follow :: "'d db_ops \<Rightarrow> bytes \<Rightarrow> ('d, bytes) tr" where
  "follow ops n = (if isList n then ereturn n else ebind (thash n) (\<lambda>h. ebind (tnode ops h) tRLP))"

definition two_or_seventeen :: "bytes \<Rightarrow> ('d, nat) tr" where
  "two_or_seventeen b =
     ebind (titemCount b) (\<lambda>c. if isList b \<and> (c = 2 \<or> c = 17) then ereturn c else ethrow Trie_assert)"

section \<open>Lookup\<close>

primrec atAux :: "'d db_ops \<Rightarrow> nat \<Rightarrow> bytes \<Rightarrow> NibbleSlice \<Rightarrow> ('d, bytes) tr" where
  "atAux ops 0 here key = ethrow Trie_fuel"
| "atAux ops (Suc n) here key =
     (if rlp_isEmpty here \<or> isNull here then ereturn []
      else
        ebind (two_or_seventeen here) (\<lambda>c.
        if c = 2 then
          ebind (keyOf_node here) (\<lambda>k.
          ebind (isLeaf here) (\<lambda>leaf.
            if ns_eq key k \<and> leaf then ebind (titems here [1]) (\<lambda>is. tstring (is ! 0))
            else if ns_contains key k \<and> \<not> leaf then
              ebind (titems here [1]) (\<lambda>is.
              ebind (follow ops (is ! 0)) (\<lambda>b. atAux ops n b (ns_mid key (ns_size k))))
            else ereturn []))
        else if ns_size key = 0 then ebind (titems here [16]) (\<lambda>is. tstring (is ! 0))
        else
          ebind (titems here [unat (ns_at key 0)]) (\<lambda>is.
            if rlp_isEmpty (is ! 0) then ereturn []
            else ebind (follow ops (is ! 0)) (\<lambda>b. atAux ops n b (ns_mid key 1)))))"

section \<open>Insertion\<close>

definition place :: "'d db_ops \<Rightarrow> (bytes \<Rightarrow> h256) \<Rightarrow> bytes \<Rightarrow> NibbleSlice \<Rightarrow> bytes \<Rightarrow> ('d, bytes) tr" where
  "place ops sha3 orig k s =
     ebind (killNode ops orig (sha3 orig)) (\<lambda>_.
     if rlp_isEmpty orig then tlift (stream_of 2 [append_str (hexPrefixEncode k True 0 (-1)), append_str s])
     else
       ebind (two_or_seventeen orig) (\<lambda>c.
       if c = 2 then ebind (titems orig [0]) (\<lambda>is. tlift (stream_of 2 (raws is @ [append_str s])))
       else ebind (titems orig [0..<16]) (\<lambda>is. tlift (stream_of 17 (raws is @ [append_str s])))))"

text \<open>\<^verbatim>\<open>cleve\<close> splits a node of two items after \<open>s\<close> nibbles of its key.\<close>

definition cleve :: "'d db_ops \<Rightarrow> (bytes \<Rightarrow> h256) \<Rightarrow> bytes \<Rightarrow> nat \<Rightarrow> ('d, bytes) tr" where
  "cleve ops sha3 orig s =
     ebind (killNode ops orig (sha3 orig)) (\<lambda>_.
     ebind (keyOf_node orig) (\<lambda>k.
     ebind (isLeaf orig) (\<lambda>leaf.
     if s = 0 \<or> s > ns_size k then ethrow Trie_assert
     else
       ebind (titems orig [1]) (\<lambda>is.
       ebind (tlift (stream_of 2 (append_str (hexPrefixEncode k leaf s (-1)) # raws is))) (\<lambda>bottom.
       ebind (streamNode ops sha3 bottom) (\<lambda>w.
         tlift (stream_of 2 [append_str (hexPrefixEncode k False 0 (int s)), w])))))))"

text \<open>\<^verbatim>\<open>branch\<close> turns a node of two items into one of seventeen.\<close>

definition branch :: "'d db_ops \<Rightarrow> (bytes \<Rightarrow> h256) \<Rightarrow> bytes \<Rightarrow> ('d, bytes) tr" where
  "branch ops sha3 orig =
     ebind (killNode ops orig (sha3 orig)) (\<lambda>_.
     ebind (keyOf_node orig) (\<lambda>k.
     ebind (isLeaf orig) (\<lambda>leaf.
     ebind (titems orig [1]) (\<lambda>is.
       if ns_size k = 0 then
         (if \<not> leaf then ethrow Trie_assert else tlift (stream_of 17 (replicate 16 (append_str []) @ raws is)))
       else
         ebind (if leaf \<or> ns_size k > 1 then
                  ebind (tlift (stream_of 2 (append_str (hexPrefixEncode (ns_mid k 1) leaf 0 (-1)) # raws is)))
                    (streamNode ops sha3)
                else ereturn (appendRaw (is ! 0) 1)) (\<lambda>w.
           tlift (stream_of 17 ((replicate 17 (append_str []))[unat (ns_at k 0) := w])))))))"

definition mergeAtAux ::
    "'d db_ops \<Rightarrow> (bytes \<Rightarrow> h256) \<Rightarrow> (bytes \<Rightarrow> bool \<Rightarrow> ('d, bytes) tr) \<Rightarrow> bytes \<Rightarrow> ('d, writer) tr" where
  "mergeAtAux ops sha3 merge orig =
     ebind (if \<not> isList orig \<and> \<not> rlp_isEmpty orig
            then ebind (thash orig) (\<lambda>h. ebind (tnode ops h) (\<lambda>s. ebind (tRLP s) (\<lambda>r.
              if isNull r then ethrow Trie_assert else ereturn (r, True))))
            else ereturn (orig, False)) (\<lambda>(r, isRemovable).
     ebind (merge r (\<not> isRemovable)) (streamNode ops sha3))"

primrec mergeAt ::
    "'d db_ops \<Rightarrow> (bytes \<Rightarrow> h256) \<Rightarrow> nat \<Rightarrow> bytes \<Rightarrow> h256 \<Rightarrow> NibbleSlice \<Rightarrow> bytes \<Rightarrow> bool \<Rightarrow> ('d, bytes) tr" where
  "mergeAt ops sha3 0 orig origHash k v inLine = ethrow Trie_fuel"
| "mergeAt ops sha3 (Suc n) orig origHash k v inLine =
     (if rlp_isEmpty orig then place ops sha3 orig k v
      else
        ebind (two_or_seventeen orig) (\<lambda>c.
        if c = 2 then
          ebind (keyOf_node orig) (\<lambda>k'.
          ebind (isLeaf orig) (\<lambda>leaf.
            if ns_eq k' k \<and> leaf then place ops sha3 orig k v
            else if ns_contains k k' \<and> \<not> leaf then
              ebind (ewhen (\<not> inLine) (killNode ops orig origHash)) (\<lambda>_.
              ebind (titems orig [0, 1]) (\<lambda>is.
              ebind (mergeAtAux ops sha3 (\<lambda>r. mergeAt ops sha3 n r (sha3 r) (ns_mid k (ns_size k')) v) (is ! 1)) (\<lambda>w.
                tlift (stream_of 2 [appendRaw (is ! 0) 1, w]))))
            else if ns_shared k k' \<noteq> 0 then
              ebind (cleve ops sha3 orig (ns_shared k k')) (\<lambda>cleved.
              ebind (tRLP cleved) (\<lambda>r. mergeAt ops sha3 n r (sha3 r) k v True))
            else
              ebind (branch ops sha3 orig) (\<lambda>branched.
              ebind (tRLP branched) (\<lambda>r. mergeAt ops sha3 n r (sha3 r) k v True))))
        else if ns_size k = 0 then place ops sha3 orig k v
        else
          ebind (ewhen (\<not> inLine) (killNode ops orig origHash)) (\<lambda>_.
          ebind (titems orig [0..<17]) (\<lambda>is.
          ebind (mergeAtAux ops sha3 (\<lambda>r. mergeAt ops sha3 n r (sha3 r) (ns_mid k 1) v) (is ! unat (ns_at k 0))) (\<lambda>w.
            tlift (stream_of 17 ((raws is)[unat (ns_at k 0) := w])))))))"

section \<open>Removal\<close>

text \<open>\<^verbatim>\<open>uniqueInUse\<close>: the index of the only item that is not empty, 255 when there is none or more than one.\<close>

fun unique_loop :: "nat \<Rightarrow> (nat \<times> bytes) list \<Rightarrow> nat \<Rightarrow> nat" where
  "unique_loop except [] used = used"
| "unique_loop except ((i, x) # xs) used =
     (if i \<noteq> except \<and> \<not> rlp_isEmpty x then (if used = 255 then unique_loop except xs i else 255)
      else unique_loop except xs used)"

definition uniqueInUse :: "bytes \<Rightarrow> nat \<Rightarrow> ('d, nat) tr" where
  "uniqueInUse orig except =
     ebind (titems orig [0..<17]) (\<lambda>is. ereturn (unique_loop except (zip [0..<17] is) 255))"

definition isTwoItemNode :: "'d db_ops \<Rightarrow> bytes \<Rightarrow> ('d, bool) tr" where
  "isTwoItemNode ops n =
     (if isData n then
        ebind (thash n) (\<lambda>h. ebind (tnode ops h) (\<lambda>s. ebind (tRLP s) (\<lambda>r. ebind (titemCount r) (\<lambda>c. ereturn (c = 2)))))
      else if isList n then ebind (titemCount n) (\<lambda>c. ereturn (c = 2))
      else ereturn False)"

text \<open>\<^verbatim>\<open>graft\<close> joins a node of two items with the node of two items it refers to.\<close>

definition graft :: "'d db_ops \<Rightarrow> bytes \<Rightarrow> ('d, bytes) tr" where
  "graft ops orig =
     ebind (titems orig [1]) (\<lambda>is.
     ebind (if isList (is ! 0) then ereturn (is ! 0)
            else
              ebind (thash (is ! 0)) (\<lambda>lh.
              ebind (tnode ops lh) (\<lambda>s.
              ebind (forceKillNode ops lh) (\<lambda>_. tRLP s)))) (\<lambda>n.
     ebind (titemCount n) (\<lambda>c.
     if c \<noteq> 2 then ethrow Trie_assert
     else
       ebind (keyOf_node orig) (\<lambda>k1.
       ebind (keyOf_node n) (\<lambda>k2.
       ebind (isLeaf n) (\<lambda>leaf.
       ebind (titems n [1]) (\<lambda>js.
         tlift (stream_of 2 (append_str (hexPrefixEncode_two k1 k2 leaf) # raws js)))))))))"

text \<open>\<^verbatim>\<open>merge\<close> keeps one item of a node of seventeen.\<close>

definition merge_one :: "bytes \<Rightarrow> nat \<Rightarrow> ('d, bytes) tr" where
  "merge_one orig i =
     ebind (titems orig [i]) (\<lambda>is.
     if i \<noteq> 16 \<and> rlp_isEmpty (is ! 0) then ethrow Trie_assert
     else tlift (stream_of 2 (append_str
       (if i \<noteq> 16 then hexPrefixEncode_data [of_nat i] False 1 2 0 else hexPrefixEncode_vector [] True 0 (-1)) # raws is)))"

definition merge_graft :: "'d db_ops \<Rightarrow> bytes \<Rightarrow> nat \<Rightarrow> ('d, bytes) tr" where
  "merge_graft ops orig used =
     ebind (titems orig [used]) (\<lambda>is.
     ebind (isTwoItemNode ops (is ! 0)) (\<lambda>two.
     if two then ebind (merge_one orig used) (\<lambda>merged. ebind (tRLP merged) (graft ops)) else merge_one orig used))"

text \<open>The result is empty when the key is not there.\<close>

definition deleteAtAux ::
    "'d db_ops \<Rightarrow> (bytes \<Rightarrow> h256) \<Rightarrow> (bytes \<Rightarrow> ('d, bytes) tr) \<Rightarrow> bytes \<Rightarrow> ('d, writer option) tr" where
  "deleteAtAux ops sha3 del orig =
     ebind (if rlp_isEmpty orig then ereturn [] else ebind (follow ops orig) del) (\<lambda>b.
       if b = [] then ereturn None else ebind (streamNode ops sha3 b) (\<lambda>w. ereturn (Some w)))"

primrec deleteAt :: "'d db_ops \<Rightarrow> (bytes \<Rightarrow> h256) \<Rightarrow> nat \<Rightarrow> bytes \<Rightarrow> NibbleSlice \<Rightarrow> ('d, bytes) tr" where
  "deleteAt ops sha3 0 orig k = ethrow Trie_fuel"
| "deleteAt ops sha3 (Suc n) orig k =
     (if rlp_isEmpty orig then ereturn []
      else
        ebind (two_or_seventeen orig) (\<lambda>c.
        if c = 2 then
          ebind (keyOf_node orig) (\<lambda>k'.
          ebind (isLeaf orig) (\<lambda>leaf.
            if ns_eq k' k \<and> leaf then ebind (killNode ops orig (sha3 orig)) (\<lambda>_. ereturn RLPNull)
            else if ns_contains k k' then
              ebind (titems orig [0, 1]) (\<lambda>is.
              ebind (deleteAtAux ops sha3 (\<lambda>r. deleteAt ops sha3 n r (ns_mid k (ns_size k'))) (is ! 1)) (\<lambda>r. case r of
                None \<Rightarrow> ereturn []
              | Some w \<Rightarrow>
                  ebind (killNode ops orig (sha3 orig)) (\<lambda>_.
                  ebind (tlift (stream_of 2 [appendRaw (is ! 0) 1, w])) (\<lambda>s.
                  ebind (tRLP s) (\<lambda>r.
                  ebind (titems r [1]) (\<lambda>js.
                  ebind (isTwoItemNode ops (js ! 0)) (\<lambda>two.
                    if two then graft ops r else ereturn s)))))))
            else ereturn []))
        else
          ebind (titems orig [0..<17]) (\<lambda>is.
          if ns_size k = 0 \<and> \<not> rlp_isEmpty (is ! 16) then
            ebind (killNode ops orig (sha3 orig)) (\<lambda>_.
            ebind (uniqueInUse orig 16) (\<lambda>used.
              if used \<noteq> 255 then merge_graft ops orig used
              else tlift (stream_of 17 (raws (take 16 is) @ [append_str []]))))
          else if ns_size k = 0 then ethrow Trie_undefined
          else
            ebind (deleteAtAux ops sha3 (\<lambda>r. deleteAt ops sha3 n r (ns_mid k 1)) (is ! unat (ns_at k 0))) (\<lambda>r. case r of
              None \<Rightarrow> ereturn []
            | Some w \<Rightarrow>
                ebind (killNode ops orig (sha3 orig)) (\<lambda>_.
                ebind (tlift (stream_of 17 ((raws is)[unat (ns_at k 0) := w]))) (\<lambda>s.
                ebind (tRLP s) (\<lambda>rlp.
                ebind (uniqueInUse rlp 255) (\<lambda>used.
                  if used = 255 then ereturn s else merge_graft ops rlp used))))))))"

section \<open>The trie\<close>

record 'd GenericTrieDB =
  gt_root :: h256
  gt_db :: 'd

definition on_db :: "('d, 'a) tr \<Rightarrow> ('d GenericTrieDB, 'a) tr" where
  "on_db m = (\<lambda>t. case m (gt_db t) of (r, d) \<Rightarrow> (r, t\<lparr>gt_db := d\<rparr>))"

text \<open>The fuel for a key.\<close>

definition key_fuel :: "bytes \<Rightarrow> nat" where
  "key_fuel key = 4 * length key + 3"

text \<open>
  \<^verbatim>\<open>setRoot\<close> calls \<^verbatim>\<open>init\<close> when the root is that of the empty trie and its node is missing, and \<^verbatim>\<open>init\<close> calls \<^verbatim>\<open>setRoot\<close> after it
  inserted this node. A database that does not give it back would let them call each other without end; this is the
  error \<open>Trie_fuel\<close>.
\<close>

definition check_root :: "'d db_ops \<Rightarrow> ('d GenericTrieDB, unit) tr" where
  "check_root ops =
     ebind (egets (\<lambda>t. db_lookup ops (gt_db t) (gt_root t))) (\<lambda>s. if s = [] then ethrow Trie_RootNotFound else ereturn ())"

definition EmptyTrie :: "(bytes \<Rightarrow> h256) \<Rightarrow> h256" where
  "EmptyTrie sha3 = sha3 RLPNull"

definition trie_init :: "'d db_ops \<Rightarrow> (bytes \<Rightarrow> h256) \<Rightarrow> ('d GenericTrieDB, unit) tr" where
  "trie_init ops sha3 =
     ebind (on_db (forceInsertNode ops sha3 RLPNull)) (\<lambda>h.
     ebind (emodify (gt_root_update (\<lambda>_. h))) (\<lambda>_.
     ebind (egets (\<lambda>t. db_exists ops (gt_db t) h)) (\<lambda>ex. if ex then check_root ops else ethrow Trie_fuel)))"

definition trie_setRoot :: "'d db_ops \<Rightarrow> (bytes \<Rightarrow> h256) \<Rightarrow> h256 \<Rightarrow> bool \<Rightarrow> ('d GenericTrieDB, unit) tr" where
  "trie_setRoot ops sha3 root normal =
     ebind (emodify (gt_root_update (\<lambda>_. root))) (\<lambda>_.
     ewhen normal
       (ebind (egets (\<lambda>t. db_exists ops (gt_db t) root)) (\<lambda>ex.
        ebind (ewhen (root = EmptyTrie sha3 \<and> \<not> ex) (trie_init ops sha3)) (\<lambda>_. check_root ops))))"

definition trie_isNull :: "'d db_ops \<Rightarrow> 'd GenericTrieDB \<Rightarrow> bool" where
  "trie_isNull ops t \<longleftrightarrow> db_lookup ops (gt_db t) (gt_root t) = []"

definition trie_isEmpty :: "'d db_ops \<Rightarrow> (bytes \<Rightarrow> h256) \<Rightarrow> 'd GenericTrieDB \<Rightarrow> bool" where
  "trie_isEmpty ops sha3 t \<longleftrightarrow> gt_root t = EmptyTrie sha3 \<and> db_lookup ops (gt_db t) (gt_root t) \<noteq> []"

definition trie_root :: "'d db_ops \<Rightarrow> ('d GenericTrieDB, h256) tr" where
  "trie_root ops =
     ebind (egets (\<lambda>t. db_lookup ops (gt_db t) (gt_root t))) (\<lambda>s.
       if s = [] then ethrow Trie_BadRoot else egets gt_root)"

definition trie_at :: "'d db_ops \<Rightarrow> bytes \<Rightarrow> ('d GenericTrieDB, bytes) tr" where
  "trie_at ops key =
     ebind (egets gt_root) (\<lambda>root.
     on_db (ebind (tnode ops root) (\<lambda>s. ebind (tRLP s) (\<lambda>b. atAux ops (key_fuel key) b (slice key 0)))))"

definition trie_contains :: "'d db_ops \<Rightarrow> bytes \<Rightarrow> ('d GenericTrieDB, bool) tr" where
  "trie_contains ops key = ebind (trie_at ops key) (\<lambda>v. ereturn (v \<noteq> []))"

definition trie_insert :: "'d db_ops \<Rightarrow> (bytes \<Rightarrow> h256) \<Rightarrow> bytes \<Rightarrow> bytes \<Rightarrow> ('d GenericTrieDB, unit) tr" where
  "trie_insert ops sha3 key v =
     ebind (egets gt_root) (\<lambda>root.
     ebind (on_db
       (ebind (tnode ops root) (\<lambda>rootValue.
        if rootValue = [] then ethrow Trie_assert
        else
          ebind (tRLP rootValue) (\<lambda>r.
          ebind (mergeAt ops sha3 (key_fuel key) r root (slice key 0) v False) (\<lambda>b.
          ebind (ewhen (length rootValue < 32) (forceKillNode ops root)) (\<lambda>_. forceInsertNode ops sha3 b)))))) (\<lambda>h.
       emodify (gt_root_update (\<lambda>_. h))))"

definition trie_remove :: "'d db_ops \<Rightarrow> (bytes \<Rightarrow> h256) \<Rightarrow> bytes \<Rightarrow> ('d GenericTrieDB, unit) tr" where
  "trie_remove ops sha3 key =
     ebind (egets gt_root) (\<lambda>root.
     ebind (on_db
       (ebind (tnode ops root) (\<lambda>rv.
        ebind (tRLP rv) (\<lambda>r.
        ebind (deleteAt ops sha3 (key_fuel key) r (slice key 0)) (\<lambda>b.
          if b = [] then ereturn root
          else ebind (ewhen (length rv < 32) (forceKillNode ops root)) (\<lambda>_. forceInsertNode ops sha3 b)))))) (\<lambda>h.
       emodify (gt_root_update (\<lambda>_. h))))"

section \<open>Hashed keys\<close>

text \<open>
  \<^verbatim>\<open>HashedGenericTrieDB\<close>, and \<^verbatim>\<open>FatGenericTrieDB\<close>, which also remembers the key of a hash; \<^verbatim>\<open>SecureTrieDB\<close> is one of the two.
\<close>

definition hashed_at :: "'d db_ops \<Rightarrow> (bytes \<Rightarrow> h256) \<Rightarrow> bytes \<Rightarrow> ('d GenericTrieDB, bytes) tr" where
  "hashed_at ops sha3 key = trie_at ops (toSlice (sha3 key))"

definition hashed_contains :: "'d db_ops \<Rightarrow> (bytes \<Rightarrow> h256) \<Rightarrow> bytes \<Rightarrow> ('d GenericTrieDB, bool) tr" where
  "hashed_contains ops sha3 key = trie_contains ops (toSlice (sha3 key))"

definition hashed_insert :: "'d db_ops \<Rightarrow> (bytes \<Rightarrow> h256) \<Rightarrow> bytes \<Rightarrow> bytes \<Rightarrow> ('d GenericTrieDB, unit) tr" where
  "hashed_insert ops sha3 key v = trie_insert ops sha3 (toSlice (sha3 key)) v"

definition hashed_remove :: "'d db_ops \<Rightarrow> (bytes \<Rightarrow> h256) \<Rightarrow> bytes \<Rightarrow> ('d GenericTrieDB, unit) tr" where
  "hashed_remove ops sha3 key = trie_remove ops sha3 (toSlice (sha3 key))"

definition fat_insert ::
    "'d db_ops \<Rightarrow> (h256 \<Rightarrow> bytes \<Rightarrow> 'd \<Rightarrow> 'd) \<Rightarrow> (bytes \<Rightarrow> h256) \<Rightarrow> bytes \<Rightarrow> bytes \<Rightarrow> ('d GenericTrieDB, unit) tr" where
  "fat_insert ops insertAux sha3 key v =
     ebind (trie_insert ops sha3 (toSlice (sha3 key)) v) (\<lambda>_. emodify (gt_db_update (insertAux (sha3 key) key)))"

end
