(* ===== verification/TrieSpec.thy ===== *)
theory TrieSpec
  imports TrieDB
begin

text \<open>
  The specification of the trie: trees with parts of keys, independent of the database. \<open>t_lookup\<close> is the map a tree
  stands for, \<open>t_insert\<close> and \<open>t_delete\<close> change it, \<open>node_item\<close> is the form of a tree in RLP and \<open>t_nodes\<close> the nodes of it
  that are stored under their hash. A tree in canonical form is determined by its map.
\<close>

section \<open>Trees\<close>

datatype trie = TEmpty | TLeaf "byte list" bytes | TExt "byte list" trie | TBranch "trie list" bytes

lemma size_child [termination_simp]: "i < length cs \<Longrightarrow> size (cs ! i) < Suc (size_list size cs)" for cs :: "trie list"
proof -
  assume "i < length cs"
  then have "cs ! i \<in> set cs" by simp
  then have "size (cs ! i) \<le> size_list size cs" by (rule size_list_estimation') simp
  then show ?thesis by simp
qed

fun t_lookup :: "trie \<Rightarrow> byte list \<Rightarrow> bytes" where
  "t_lookup TEmpty k = []"
| "t_lookup (TLeaf p v) k = (if k = p then v else [])"
| "t_lookup (TExt p t) k = (if take (length p) k = p then t_lookup t (drop (length p) k) else [])"
| "t_lookup (TBranch cs v) k = (case k of
       [] \<Rightarrow> v
     | n # k' \<Rightarrow> (if unat n < length cs then t_lookup (cs ! unat n) k' else []))"

abbreviation no_children :: "trie list" where
  "no_children \<equiv> replicate 16 TEmpty"

text \<open>The children of the branch that a leaf or an extension becomes.\<close>

definition leaf_children :: "byte list \<Rightarrow> bytes \<Rightarrow> trie list" where
  "leaf_children p w = (if p = [] then no_children else no_children[unat (hd p) := TLeaf (tl p) w])"

definition leaf_slot :: "byte list \<Rightarrow> bytes \<Rightarrow> bytes" where
  "leaf_slot p w = (if p = [] then w else [])"

definition ext_children :: "byte list \<Rightarrow> trie \<Rightarrow> trie list" where
  "ext_children p t = no_children[unat (hd p) := (if tl p = [] then t else TExt (tl p) t)]"

text \<open>A leaf or an extension that does not fit is split after the common part of the keys, or becomes a branch.\<close>

function (sequential) t_insert :: "byte list \<Rightarrow> bytes \<Rightarrow> trie \<Rightarrow> trie" where
  "t_insert k v TEmpty = TLeaf k v"
| "t_insert k v (TLeaf p w) =
     (if k = p then TLeaf p v
      else if lcp k p \<noteq> 0
      then TExt (take (lcp k p) p) (t_insert (drop (lcp k p) k) v (TLeaf (drop (lcp k p) p) w))
      else (case k of
          [] \<Rightarrow> TBranch (leaf_children p w) v
        | n # k' \<Rightarrow> TBranch ((leaf_children p w)[unat n := t_insert k' v (leaf_children p w ! unat n)]) (leaf_slot p w)))"
| "t_insert k v (TExt p t) =
     (if take (length p) k = p then TExt p (t_insert (drop (length p) k) v t)
      else if lcp k p \<noteq> 0
      then TExt (take (lcp k p) p) (t_insert (drop (lcp k p) k) v (TExt (drop (lcp k p) p) t))
      else (case k of
          [] \<Rightarrow> TBranch (ext_children p t) v
        | n # k' \<Rightarrow> TBranch ((ext_children p t)[unat n := t_insert k' v (ext_children p t ! unat n)]) []))"
| "t_insert k v (TBranch cs s) = (case k of
       [] \<Rightarrow> TBranch cs v
     | n # k' \<Rightarrow> TBranch (cs[unat n := t_insert k' v (cs ! unat n)]) s)"
  by pat_completeness auto
termination
proof -
  have *: "length k - lcp k p < length k" if "lcp k p \<noteq> 0" for k p :: "byte list"
    using that lcp_le(1) [of k p] by simp
  show ?thesis
    by (relation "measures [\<lambda>(k, v, t). length k, \<lambda>(k, v, t). size t]") (auto simp: *)
qed

section \<open>Canonical form\<close>

abbreviation key_ok :: "byte list \<Rightarrow> bool" where
  "key_ok k \<equiv> \<forall>n\<in>set k. is_nibble n"

fun is_branch :: "trie \<Rightarrow> bool" where
  "is_branch (TBranch cs v) = True"
| "is_branch t = False"

definition used_slots :: "trie list \<Rightarrow> bytes \<Rightarrow> nat" where
  "used_slots cs v = length (filter (\<lambda>c. c \<noteq> TEmpty) cs) + (if v = [] then 0 else 1)"

text \<open>No leaf without a value, no extension but of a branch, no branch with less than two uses.\<close>

fun t_ok :: "trie \<Rightarrow> bool" where
  "t_ok TEmpty \<longleftrightarrow> True"
| "t_ok (TLeaf p v) \<longleftrightarrow> key_ok p \<and> v \<noteq> []"
| "t_ok (TExt p t) \<longleftrightarrow> p \<noteq> [] \<and> key_ok p \<and> is_branch t \<and> t_ok t"
| "t_ok (TBranch cs v) \<longleftrightarrow> length cs = 16 \<and> (\<forall>c\<in>set cs. t_ok c) \<and> 2 \<le> used_slots cs v"

lemma nibble_unat: "is_nibble n \<Longrightarrow> unat n < 16"
  by (simp add: is_nibble_def word_less_nat_alt)

lemma lcp_drop: "lcp (drop (lcp k p) k) (drop (lcp k p) p) = 0"
  by (induction k p rule: lcp.induct) auto

lemma lcp_drop_eq: "drop (lcp k p) k = drop (lcp k p) p \<longleftrightarrow> k = p"
  by (induction k p rule: lcp.induct) auto

lemma lcp_drop_prefix:
  "take (length (drop (lcp k p) p)) (drop (lcp k p) k) = drop (lcp k p) p \<longleftrightarrow> take (length p) k = p"
  by (induction k p rule: lcp.induct) auto

lemma lcp_0: "lcp k p = 0 \<longleftrightarrow> k = [] \<or> p = [] \<or> hd k \<noteq> hd p"
  by (cases k; cases p) auto

lemma nth_leaf_children:
  "key_ok p \<Longrightarrow> i < 16 \<Longrightarrow> leaf_children p w ! i = (if p \<noteq> [] \<and> i = unat (hd p) then TLeaf (tl p) w else TEmpty)"
  by (cases p) (auto simp: leaf_children_def nth_list_update nibble_unat)

lemma nth_ext_children:
  "key_ok p \<Longrightarrow> p \<noteq> [] \<Longrightarrow> i < 16 \<Longrightarrow>
   ext_children p t ! i = (if i = unat (hd p) then (if tl p = [] then t else TExt (tl p) t) else TEmpty)"
  by (cases p) (auto simp: ext_children_def nth_list_update nibble_unat)

lemma length_children [simp]: "length (leaf_children p w) = 16" "length (ext_children p t) = 16"
  by (simp_all add: leaf_children_def ext_children_def)

subsection \<open>Insertion changes the map\<close>

declare t_insert.simps [simp del]

lemma t_insert_leaf:
  "t_insert p v (TLeaf p w) = TLeaf p v"
  "k \<noteq> p \<Longrightarrow> lcp k p \<noteq> 0 \<Longrightarrow>
    t_insert k v (TLeaf p w) = TExt (take (lcp k p) p) (t_insert (drop (lcp k p) k) v (TLeaf (drop (lcp k p) p) w))"
  "[] \<noteq> p \<Longrightarrow> t_insert [] v (TLeaf p w) = TBranch (leaf_children p w) v"
  "n # k' \<noteq> p \<Longrightarrow> lcp (n # k') p = 0 \<Longrightarrow> t_insert (n # k') v (TLeaf p w) =
    TBranch ((leaf_children p w)[unat n := t_insert k' v (leaf_children p w ! unat n)]) (leaf_slot p w)"
  by (subst t_insert.simps; simp)+

lemma t_insert_ext:
  "take (length p) k = p \<Longrightarrow> t_insert k v (TExt p t) = TExt p (t_insert (drop (length p) k) v t)"
  "take (length p) k \<noteq> p \<Longrightarrow> lcp k p \<noteq> 0 \<Longrightarrow>
    t_insert k v (TExt p t) = TExt (take (lcp k p) p) (t_insert (drop (lcp k p) k) v (TExt (drop (lcp k p) p) t))"
  "[] \<noteq> p \<Longrightarrow> t_insert [] v (TExt p t) = TBranch (ext_children p t) v"
  "take (length p) (n # k') \<noteq> p \<Longrightarrow> lcp (n # k') p = 0 \<Longrightarrow> t_insert (n # k') v (TExt p t) =
    TBranch ((ext_children p t)[unat n := t_insert k' v (ext_children p t ! unat n)]) []"
  by (subst t_insert.simps; simp)+

lemma t_insert_branch:
  "t_insert [] v (TBranch cs s) = TBranch cs v"
  "t_insert (n # k') v (TBranch cs s) = TBranch (cs[unat n := t_insert k' v (cs ! unat n)]) s"
  by (subst t_insert.simps; simp)+

lemmas t_insert_rules = t_insert.simps(1) t_insert_leaf t_insert_ext t_insert_branch

lemma lookup_children:
  assumes "key_ok p"
  shows "t_lookup (TBranch (leaf_children p w) (leaf_slot p w)) q = t_lookup (TLeaf p w) q"
    and "p \<noteq> [] \<Longrightarrow> t_lookup (TBranch (ext_children p t) []) q = t_lookup (TExt p t) q"
proof -
  have bound: "unat (hd p) < 16" if "p \<noteq> []" using that assms by (cases p) (auto simp: nibble_unat)
  have same: "unat n = unat m \<longleftrightarrow> n = m" for n m :: byte by (simp add: word_unat_eq_iff)
  show "t_lookup (TBranch (leaf_children p w) (leaf_slot p w)) q = t_lookup (TLeaf p w) q"
    using bound assms by (cases q; cases p) (auto simp: nth_leaf_children leaf_slot_def same)
  show "t_lookup (TBranch (ext_children p t) []) q = t_lookup (TExt p t) q" if "p \<noteq> []"
    using that bound assms by (cases q; cases p) (auto simp: nth_ext_children same)
qed

text \<open>Updating one child of a branch whose lookup is known.\<close>

lemma lookup_update_child:
  assumes "\<And>q. t_lookup c' q = (if q = k' then v else t_lookup (cs ! unat n) q)" and "unat n < length cs"
  shows "t_lookup (TBranch (cs[unat n := c']) s) q = (if q = n # k' then v else t_lookup (TBranch cs s) q)"
  using assms by (cases q) (auto simp: nth_list_update word_unat_eq_iff)

lemma t_lookup_insert:
  assumes "t_ok t" and "key_ok k"
  shows "t_lookup (t_insert k v t) q = (if q = k then v else t_lookup t q)"
  using assms
proof (induction k v t arbitrary: q rule: t_insert.induct)
  case (1 k v)
  then show ?case by (simp add: t_insert_rules)
next
  case (2 k v p w)
  let ?s = "lcp k p" and ?cs = "leaf_children p w"
  consider "k = p" | "k \<noteq> p" "?s \<noteq> 0" | "k \<noteq> p" "?s = 0" "k = []" | n k' where "k \<noteq> p" "?s = 0" "k = n # k'" by (cases k) auto
  then show ?case
  proof cases
    case 2
    have "key_ok (drop ?s k)" "t_ok (TLeaf (drop ?s p) w)" using "2.prems" by (auto dest: in_set_dropD)
    note IH = "2.IH"(1) [OF 2 this(2,1)]
    have len: "length (take ?s p) = ?s" using lcp_le(2) [of k p] by simp
    have "q = k \<longleftrightarrow> take ?s q = take ?s p \<and> drop ?s q = drop ?s k"
      by (metis append_take_drop_id lcp_take)
    moreover have "q = p \<longleftrightarrow> take ?s q = take ?s p \<and> drop ?s q = drop ?s p"
      by (metis append_take_drop_id)
    ultimately show ?thesis unfolding t_insert_leaf(2) [OF 2] using IH [of "drop ?s q"] len by auto
  next
    case 4
    have child: "t_ok (?cs ! unat n)" "key_ok k'" "unat n < 16"
      using "2.prems" 4 by (auto simp: nth_leaf_children nibble_unat dest: list.set_sel(2))
    have "t_lookup (TBranch (?cs[unat n := t_insert k' v (?cs ! unat n)]) (leaf_slot p w)) q =
        (if q = n # k' then v else t_lookup (TBranch ?cs (leaf_slot p w)) q)"
      by (rule lookup_update_child) (use "2.IH"(2) [OF 4(1) _ 4(3) child(1,2)] 4 child in auto)
    with 4 lookup_children(1) [of p w q] "2.prems" show ?thesis by (simp add: t_insert_leaf)
  qed (use "2.prems" lookup_children(1) [of p w q] in \<open>auto simp: leaf_slot_def t_insert_rules split: list.split\<close>)
next
  case (3 k v p t)
  let ?s = "lcp k p" and ?cs = "ext_children p t"
  consider "take (length p) k = p" | "take (length p) k \<noteq> p" "?s \<noteq> 0" | "take (length p) k \<noteq> p" "?s = 0" "k = []"
    | n k' where "take (length p) k \<noteq> p" "?s = 0" "k = n # k'" by (cases k) auto
  then show ?case
  proof cases
    case 1
    have "t_ok t" "key_ok (drop (length p) k)" using "3.prems" by (auto dest: in_set_dropD)
    note IH = "3.IH"(1) [OF 1 this]
    have "q = k \<longleftrightarrow> take (length p) q = p \<and> drop (length p) q = drop (length p) k"
      using 1 by (metis append_take_drop_id)
    with IH [of "drop (length p) q"] show ?thesis unfolding t_insert_ext(1) [OF 1] by auto
  next
    case 2
    have "drop ?s p \<noteq> []" using 2 lcp_le(2) [of k p] lcp_eq_length [of k p] by auto
    then have "key_ok (drop ?s k)" "t_ok (TExt (drop ?s p) t)" using "3.prems" by (auto dest: in_set_dropD)
    note IH = "3.IH"(2) [OF 2 this(2,1)]
    have len: "length (take ?s p) = ?s" using lcp_le(2) [of k p] by simp
    have "q = k \<longleftrightarrow> take ?s q = take ?s p \<and> drop ?s q = drop ?s k"
      by (metis append_take_drop_id lcp_take)
    moreover have "take (length p) q = p \<longleftrightarrow> take ?s q = take ?s p \<and> take (length (drop ?s p)) (drop ?s q) = drop ?s p"
    proof
      assume "take (length p) q = p"
      moreover from this have "take ?s q = take ?s p" using lcp_le(2) [of k p] by (metis min.absorb1 take_take)
      ultimately show "take ?s q = take ?s p \<and> take (length (drop ?s p)) (drop ?s q) = drop ?s p"
        by (metis drop_take length_drop)
    next
      assume "take ?s q = take ?s p \<and> take (length (drop ?s p)) (drop ?s q) = drop ?s p"
      then show "take (length p) q = p"
        using lcp_le(2) [of k p] by (metis append_take_drop_id length_drop take_add le_add_diff_inverse)
    qed
    moreover have "drop (length p - ?s) (drop ?s q) = drop (length p) q" using lcp_le(2) [of k p] by simp
    ultimately show ?thesis unfolding t_insert_ext(2) [OF 2] using IH [of "drop ?s q"] len by auto
  next
    case 4
    have p: "p \<noteq> []" "key_ok p" using "3.prems" by auto
    have child: "t_ok (?cs ! unat n)" "key_ok k'" "unat n < 16"
      using "3.prems" 4 by (auto simp: nth_ext_children nibble_unat dest: list.set_sel(2))
    have "t_lookup (TBranch (?cs[unat n := t_insert k' v (?cs ! unat n)]) []) q =
        (if q = n # k' then v else t_lookup (TBranch ?cs []) q)"
      by (rule lookup_update_child) (use "3.IH"(3) [OF 4(1) _ 4(3) child(1,2)] 4 child in auto)
    with 4 lookup_children(2) [of p t q] p show ?thesis by (simp add: t_insert_ext)
  qed (use "3.prems" lookup_children(2) [of p t q] in \<open>auto simp: t_insert_rules split: list.split\<close>)
next
  case (4 k v cs s)
  show ?case
  proof (cases k)
    case (Cons n k')
    with "4.prems" have child: "t_ok (cs ! unat n)" "key_ok k'" "unat n < 16" "length cs = 16"
      by (auto simp: nibble_unat)
    have "t_lookup (TBranch (cs[unat n := t_insert k' v (cs ! unat n)]) s) q = (if q = n # k' then v else t_lookup (TBranch cs s) q)"
      by (rule lookup_update_child) (use "4.IH" [OF Cons child(1,2)] child in auto)
    with Cons show ?thesis by (simp add: t_insert_branch)
  qed (auto simp: t_insert_branch split: list.split)
qed

subsection \<open>Insertion keeps the canonical form\<close>

lemma used_update:
  "i < length cs \<Longrightarrow> c \<noteq> TEmpty \<Longrightarrow> used_slots (cs[i := c]) s = used_slots cs s + (if cs ! i = TEmpty then 1 else 0)"
proof (induction cs arbitrary: i)
  case (Cons a cs)
  then show ?case by (cases i) (auto simp: used_slots_def)
qed simp

lemma used_no_children: "used_slots no_children s = (if s = [] then 0 else 1)"
  by (simp add: used_slots_def)

lemma used_leaf_children: "key_ok p \<Longrightarrow> w \<noteq> [] \<Longrightarrow> used_slots (leaf_children p w) (leaf_slot p w) = 1"
  by (cases p) (auto simp: leaf_children_def leaf_slot_def used_update used_no_children nibble_unat)

lemma used_ext_children: "key_ok p \<Longrightarrow> p \<noteq> [] \<Longrightarrow> t \<noteq> TEmpty \<Longrightarrow> used_slots (ext_children p t) [] = 1"
  by (cases p) (auto simp: ext_children_def used_update used_no_children nibble_unat)

lemma used_value: "s = [] \<Longrightarrow> v \<noteq> [] \<Longrightarrow> used_slots cs v = Suc (used_slots cs s)"
  by (simp add: used_slots_def)

lemma used_value_mono: "v \<noteq> [] \<Longrightarrow> used_slots cs s \<le> used_slots cs v"
  by (simp add: used_slots_def)

lemma all_children_update: "(\<forall>c\<in>set cs. P c) \<Longrightarrow> P c \<Longrightarrow> \<forall>c\<in>set (cs[i := c]). P c"
  using set_update_subset_insert [of cs i c] by blast

lemma children_ok:
  "t_ok (TLeaf p w) \<Longrightarrow> \<forall>c\<in>set (leaf_children p w). t_ok c"
  "t_ok (TExt p t) \<Longrightarrow> \<forall>c\<in>set (ext_children p t). t_ok c"
  by (cases p; auto simp: leaf_children_def ext_children_def dest!: set_update_subset_insert [THEN subsetD])+

lemma t_insert_not_empty: "t_insert k v t \<noteq> TEmpty"
  by (cases t; hypsubst; subst t_insert.simps) (auto split: list.split)

lemma t_insert_split:
  assumes "lcp k p = 0"
  shows "k \<noteq> p \<Longrightarrow> is_branch (t_insert k v (TLeaf p w))" "take (length p) k \<noteq> p \<Longrightarrow> is_branch (t_insert k v (TExt p t))"
  using assms by (cases k; auto simp: t_insert_rules)+

lemma t_ok_insert:
  assumes "t_ok t" and "key_ok k" and "v \<noteq> []"
  shows "t_ok (t_insert k v t) \<and> (is_branch t \<longrightarrow> is_branch (t_insert k v t))"
  using assms
proof (induction k v t rule: t_insert.induct)
  case (1 k v)
  then show ?case by (simp add: t_insert_rules)
next
  case (2 k v p w)
  let ?s = "lcp k p" and ?cs = "leaf_children p w"
  consider "k = p" | "k \<noteq> p" "?s \<noteq> 0" | "k \<noteq> p" "?s = 0" "k = []" | n k' where "k \<noteq> p" "?s = 0" "k = n # k'" by (cases k) auto
  then show ?case
  proof cases
    case 2
    have ok: "key_ok (drop ?s k)" "t_ok (TLeaf (drop ?s p) w)" "key_ok (take ?s p)"
      using "2.prems" by (auto dest: in_set_dropD in_set_takeD)
    have "is_branch (t_insert (drop ?s k) v (TLeaf (drop ?s p) w))"
      using 2(1) by (intro t_insert_split(1) lcp_drop) (simp add: lcp_drop_eq)
    moreover have "take ?s p \<noteq> []" using 2(2) lcp_le(2) [of k p] by auto
    ultimately show ?thesis
      using "2.IH"(1) [OF 2 ok(2,1) "2.prems"(3)] ok(3) by (simp add: t_insert_leaf(2) [OF 2])
  next
    case 3
    then have slot: "leaf_slot p w = []" by (auto simp: leaf_slot_def)
    have "used_slots ?cs v = 2"
      using used_value [OF slot "2.prems"(3)] used_leaf_children [of p w] "2.prems"(1) by simp
    with 3 "2.prems" show ?thesis
      using children_ok(1) [OF "2.prems"(1)] by (simp add: t_insert_leaf(3))
  next
    case 4
    have child: "t_ok (?cs ! unat n)" "key_ok k'" "unat n < 16" "?cs ! unat n = TEmpty"
      using "2.prems" 4 by (auto simp: nth_leaf_children nibble_unat lcp_0 word_unat_eq_iff dest: list.set_sel(2))
    have "\<forall>c\<in>set (?cs[unat n := t_insert k' v (?cs ! unat n)]). t_ok c"
      by (rule all_children_update [OF children_ok(1) [OF "2.prems"(1)]])
        (use "2.IH"(2) [OF 4(1) _ 4(3) child(1,2) "2.prems"(3)] 4 in auto)
    moreover have "used_slots (?cs[unat n := t_insert k' v (?cs ! unat n)]) (leaf_slot p w) = 2"
      using used_leaf_children [of p w] "2.prems"(1) child(3,4) by (simp add: used_update t_insert_not_empty)
    moreover have "t_insert k v (TLeaf p w) = TBranch (?cs[unat n := t_insert k' v (?cs ! unat n)]) (leaf_slot p w)"
      using 4(1,2) unfolding 4(3) by (rule t_insert_leaf(4))
    ultimately show ?thesis by simp
  qed (use "2.prems" in \<open>auto simp: t_insert_rules\<close>)
next
  case (3 k v p t)
  let ?s = "lcp k p" and ?cs = "ext_children p t"
  have t: "t \<noteq> TEmpty" "p \<noteq> []" "key_ok p" using "3.prems"(1) by auto
  consider "take (length p) k = p" | "take (length p) k \<noteq> p" "?s \<noteq> 0" | "take (length p) k \<noteq> p" "?s = 0" "k = []"
    | n k' where "take (length p) k \<noteq> p" "?s = 0" "k = n # k'" by (cases k) auto
  then show ?case
  proof cases
    case 1
    have ok: "t_ok t" "key_ok (drop (length p) k)" using "3.prems" by (auto dest: in_set_dropD)
    from "3.IH"(1) [OF 1 ok "3.prems"(3)] "3.prems"(1) show ?thesis by (simp add: t_insert_ext(1) [OF 1])
  next
    case 2
    have "drop ?s p \<noteq> []" using 2 lcp_le(2) [of k p] lcp_eq_length [of k p] by auto
    then have ok: "key_ok (drop ?s k)" "t_ok (TExt (drop ?s p) t)" "key_ok (take ?s p)"
      using "3.prems" by (auto dest: in_set_dropD in_set_takeD)
    have "is_branch (t_insert (drop ?s k) v (TExt (drop ?s p) t))"
      using 2(1) by (intro t_insert_split(2) lcp_drop) (simp only: lcp_drop_prefix not_False_eq_True)
    moreover have "take ?s p \<noteq> []" using 2(2) lcp_le(2) [of k p] by auto
    ultimately show ?thesis
      using "3.IH"(2) [OF 2 ok(2,1) "3.prems"(3)] ok(3) by (simp add: t_insert_ext(2) [OF 2])
  next
    case 3
    have "used_slots ?cs v = 2" using used_value [OF refl "3.prems"(3)] used_ext_children [of p t] t by simp
    with 3 t show ?thesis using children_ok(2) [OF "3.prems"(1)] by (simp add: t_insert_ext(3))
  next
    case 4
    have child: "t_ok (?cs ! unat n)" "key_ok k'" "unat n < 16" "?cs ! unat n = TEmpty"
      using "3.prems" 4 by (auto simp: nth_ext_children nibble_unat lcp_0 word_unat_eq_iff dest: list.set_sel(2))
    have "\<forall>c\<in>set (?cs[unat n := t_insert k' v (?cs ! unat n)]). t_ok c"
      by (rule all_children_update [OF children_ok(2) [OF "3.prems"(1)]])
        (use "3.IH"(3) [OF 4(1) _ 4(3) child(1,2) "3.prems"(3)] 4 in auto)
    moreover have "used_slots (?cs[unat n := t_insert k' v (?cs ! unat n)]) [] = 2"
      using used_ext_children [of p t] t child(3,4) by (simp add: used_update t_insert_not_empty)
    moreover have "t_insert k v (TExt p t) = TBranch (?cs[unat n := t_insert k' v (?cs ! unat n)]) []"
      using 4(1,2) unfolding 4(3) by (rule t_insert_ext(4))
    ultimately show ?thesis by simp
  qed
next
  case (4 k v cs s)
  show ?case
  proof (cases k)
    case Nil
    with "4.prems" used_value_mono [of v cs s] show ?thesis by (auto simp: t_insert_branch)
  next
    case (Cons n k')
    with "4.prems" have child: "t_ok (cs ! unat n)" "key_ok k'" "unat n < 16" "length cs = 16" "\<forall>c\<in>set cs. t_ok c"
      by (auto simp: nibble_unat)
    have "\<forall>c\<in>set (cs[unat n := t_insert k' v (cs ! unat n)]). t_ok c"
      by (rule all_children_update [OF child(5)]) (use "4.IH" [OF Cons child(1,2) "4.prems"(3)] in blast)
    with Cons child "4.prems" show ?thesis by (simp add: t_insert_branch used_update t_insert_not_empty)
  qed
qed

section \<open>Canonical trees are determined by their map\<close>

definition t_dom :: "trie \<Rightarrow> byte list set" where
  "t_dom t = {k. t_lookup t k \<noteq> []}"

lemma dom_Nil: "[] \<in> t_dom (TBranch cs v) \<longleftrightarrow> v \<noteq> []"
  by (simp add: t_dom_def)

lemma dom_Cons: "length cs = 16 \<Longrightarrow> n # k \<in> t_dom (TBranch cs v) \<longleftrightarrow> unat n < 16 \<and> k \<in> t_dom (cs ! unat n)"
  by (simp add: t_dom_def)

lemma dom_leaf: "v \<noteq> [] \<Longrightarrow> t_dom (TLeaf p v) = {p}"
  by (auto simp: t_dom_def)

lemma dom_ext: "t_dom (TExt p t) = (@) p ` t_dom t"
proof -
  have "k \<in> (@) p ` t_dom t" if "t_lookup t (drop (length p) k) \<noteq> []" "take (length p) k = p" for k
    using that by (intro image_eqI [of _ _ "drop (length p) k"]) (auto simp: t_dom_def, metis append_take_drop_id)
  then show ?thesis by (auto simp: t_dom_def split: if_splits)
qed

text \<open>A branch that is used at least twice: a value and a child, or two children.\<close>

lemma two_slots:
  assumes "2 \<le> used_slots cs v"
  shows "(v \<noteq> [] \<and> (\<exists>i<length cs. cs ! i \<noteq> TEmpty)) \<or>
    (\<exists>i<length cs. \<exists>j<length cs. i \<noteq> j \<and> cs ! i \<noteq> TEmpty \<and> cs ! j \<noteq> TEmpty)"
proof -
  let ?I = "{i. i < length cs \<and> cs ! i \<noteq> TEmpty}"
  have n: "length (filter (\<lambda>c. c \<noteq> TEmpty) cs) = card ?I" by (simp add: length_filter_conv_card)
  show ?thesis
  proof (cases "v = []")
    case True
    with assms n have "2 \<le> card ?I" by (simp add: used_slots_def)
    then obtain i j where "i \<in> ?I" "j \<in> ?I" "i \<noteq> j" by (auto simp: card_le_Suc_iff numeral_2_eq_2)
    then show ?thesis by blast
  next
    case False
    with assms n have "1 \<le> card ?I" unfolding used_slots_def n by (simp only: if_False)
    then have "?I \<noteq> {}" by (metis card.empty not_one_le_zero)
    with False show ?thesis by blast
  qed
qed

lemma dom_nonempty: "t_ok t \<Longrightarrow> t \<noteq> TEmpty \<Longrightarrow> t_dom t \<noteq> {}"
proof (induction t)
  case (TBranch cs v)
  then have len: "length cs = 16" by simp
  from TBranch.prems two_slots [of cs v] consider "v \<noteq> []" | i where "i < 16" "cs ! i \<noteq> TEmpty" by auto
  then show ?case
  proof cases
    case 1
    then show ?thesis using dom_Nil [of cs v] by blast
  next
    case 2
    with TBranch len obtain k where k: "k \<in> t_dom (cs ! i)" by (metis equals0I nth_mem t_ok.simps(4))
    have "unat (of_nat i :: byte) = i" using 2(1) by (simp add: unat_of_nat)
    with k 2(1) have "(of_nat i :: byte) # k \<in> t_dom (TBranch cs v)" by (simp add: dom_Cons [OF len])
    then show ?thesis by blast
  qed
next
  case (TExt p t)
  then have "t \<noteq> TEmpty" by auto
  with TExt show ?case by (simp add: dom_ext)
qed (auto simp: dom_leaf)

lemma branch_child_key:
  assumes "t_ok (TBranch cs v)" and "i < 16" and "cs ! i \<noteq> TEmpty"
  obtains n k where "n # k \<in> t_dom (TBranch cs v)" and "unat n = i"
proof -
  have len: "length cs = 16" using assms(1) by simp
  from assms len have "t_dom (cs ! i) \<noteq> {}" by (intro dom_nonempty) auto
  then obtain k where "k \<in> t_dom (cs ! i)" by blast
  moreover have "unat (of_nat i :: byte) = i" using assms(2) by (simp add: unat_of_nat)
  ultimately show thesis using assms(2) that [of "of_nat i" k] by (simp add: dom_Cons [OF len])
qed

text \<open>The keys of a branch have no common first nibble.\<close>

lemma branch_keys_differ:
  assumes "t_ok (TBranch cs v)"
  shows "\<exists>k1\<in>t_dom (TBranch cs v). \<exists>k2\<in>t_dom (TBranch cs v). k1 \<noteq> k2 \<and> lcp k1 k2 = 0"
proof -
  have "2 \<le> used_slots cs v" "length cs = 16" using assms by simp_all
  with two_slots [of cs v] consider i where "v \<noteq> []" "i < 16" "cs ! i \<noteq> TEmpty"
    | i j where "i < 16" "j < 16" "i \<noteq> j" "cs ! i \<noteq> TEmpty" "cs ! j \<noteq> TEmpty" by auto
  then show ?thesis
  proof cases
    case 1
    obtain n k where "n # k \<in> t_dom (TBranch cs v)" by (rule branch_child_key [OF assms 1(2,3)])
    moreover have "[] \<in> t_dom (TBranch cs v)" using 1(1) by (simp add: dom_Nil)
    ultimately show ?thesis by (intro bexI [of _ "[]"] bexI [of _ "n # k"]) auto
  next
    case 2
    obtain n k where n: "n # k \<in> t_dom (TBranch cs v)" "unat n = i" by (rule branch_child_key [OF assms 2(1,4)])
    obtain m l where m: "m # l \<in> t_dom (TBranch cs v)" "unat m = j" by (rule branch_child_key [OF assms 2(2,5)])
    from n m 2(3) show ?thesis by (intro bexI [of _ "n # k"] bexI [of _ "m # l"]) auto
  qed
qed

lemma lcp_append: "lcp (p @ k) (p @ l) = length p + lcp k l"
  by (induction p) auto

lemma branch_cases: "is_branch t \<Longrightarrow> (\<And>cs v. t = TBranch cs v \<Longrightarrow> P) \<Longrightarrow> P"
  by (cases t) auto

text \<open>The part of the key in an extension is as long as it can be.\<close>

lemma ext_parts:
  assumes "t_ok (TExt p t)" and "t_dom (TExt p t) \<subseteq> (@) q ` X"
  shows "length q \<le> length p"
proof -
  obtain cs v where t: "t = TBranch cs v" "t_ok t" using assms(1) by (auto elim: branch_cases)
  then obtain k1 k2 where k: "k1 \<in> t_dom t" "k2 \<in> t_dom t" "lcp k1 k2 = 0" using branch_keys_differ by blast
  then have "p @ k1 \<in> t_dom (TExt p t)" "p @ k2 \<in> t_dom (TExt p t)" by (auto simp: dom_ext)
  with assms(2) obtain l1 l2 where "p @ k1 = q @ l1" "p @ k2 = q @ l2" by blast
  then have "lcp (p @ k1) (p @ k2) \<ge> length q" by (metis lcp_append le_add1)
  with k(3) show ?thesis by (simp add: lcp_append)
qed

lemma canonical_unique:
  assumes "t_ok t" and "t_ok u" and "t_lookup t = t_lookup u"
  shows "t = u"
  using assms
proof (induction t arbitrary: u)
  case TEmpty
  then have "t_dom u = {}" by (simp add: t_dom_def flip: TEmpty.prems(3))
  with TEmpty.prems(2) show ?case using dom_nonempty [of u] by blast
next
  case (TLeaf p v)
  have dom: "t_dom u = {p}" using TLeaf.prems by (simp add: t_dom_def flip: TLeaf.prems(3))
  have no_branch: "\<not> t_ok (TBranch cs w) \<or> t_dom (TBranch cs w) \<noteq> {x}" for cs w x
    using branch_keys_differ [of cs w] by auto
  show ?case
  proof (cases u)
    case (TLeaf q w)
    with dom \<open>t_ok u\<close> have "q = p" by (auto simp: dom_leaf)
    with TLeaf fun_cong [OF \<open>t_lookup (trie.TLeaf p v) = t_lookup u\<close>, of p] show ?thesis by simp
  next
    case (TExt q t)
    then obtain cs w where "t = TBranch cs w" "t_ok t" using \<open>t_ok u\<close> by (auto elim: branch_cases)
    moreover have "\<exists>x. t_dom t = {x}" using dom TExt by (auto simp: dom_ext image_def set_eq_iff) (metis same_append_eq)
    ultimately show ?thesis using no_branch by metis
  next
    case (TBranch cs w)
    then show ?thesis using dom no_branch [of cs w p] \<open>t_ok u\<close> by simp
  qed (use dom in \<open>simp add: t_dom_def\<close>)
next
  case (TExt p t)
  have dom: "t_dom u = t_dom (TExt p t)" by (simp add: t_dom_def flip: TExt.prems(3))
  obtain cs w where t: "t = TBranch cs w" "t_ok t" using TExt.prems(1) by (auto elim: branch_cases)
  then obtain k1 k2 where k: "k1 \<in> t_dom t" "k2 \<in> t_dom t" "k1 \<noteq> k2" "lcp k1 k2 = 0" using branch_keys_differ by blast
  show ?case
  proof (cases u)
    case (TLeaf q v)
    then have "t_dom u = {q}" using TExt.prems(2) by (simp add: dom_leaf)
    moreover have "p @ k1 \<in> t_dom u" "p @ k2 \<in> t_dom u" using k(1,2) by (auto simp: dom dom_ext)
    ultimately show ?thesis using k(3) by auto
  next
    case (TExt q t')
    have "length q = length p"
      using ext_parts [of p t q "t_dom t'"] ext_parts [of q t' p "t_dom t"] \<open>t_ok (trie.TExt p t)\<close> \<open>t_ok u\<close> dom TExt
      by (simp add: dom_ext)
    moreover have "p @ k1 \<in> (@) q ` t_dom t'" using k(1) dom TExt by (auto simp: dom_ext)
    ultimately have q: "q = p" by auto
    have "t_lookup t = t_lookup t'"
    proof
      fix k
      show "t_lookup t k = t_lookup t' k"
        using fun_cong [OF \<open>t_lookup (trie.TExt p t) = t_lookup u\<close>, of "p @ k"] TExt q by simp
    qed
    with TExt.IH [of t'] t(2) \<open>t_ok u\<close> TExt q show ?thesis by simp
  next
    case (TBranch ds v)
    then obtain l1 l2 where "l1 \<in> t_dom u" "l2 \<in> t_dom u" "lcp l1 l2 = 0" using branch_keys_differ \<open>t_ok u\<close> by blast
    then obtain m1 m2 where "lcp (p @ m1) (p @ m2) = 0" unfolding dom dom_ext by blast
    then show ?thesis using \<open>t_ok (trie.TExt p t)\<close> by (simp add: lcp_append)
  qed (use dom k(1) in \<open>simp add: dom_ext, simp add: t_dom_def\<close>)
next
  case (TBranch cs v)
  have dom: "t_dom u = t_dom (TBranch cs v)" by (simp add: t_dom_def flip: TBranch.prems(3))
  obtain k1 k2 where k: "k1 \<in> t_dom u" "k2 \<in> t_dom u" "k1 \<noteq> k2" "lcp k1 k2 = 0"
    using branch_keys_differ [OF TBranch.prems(1)] unfolding dom by blast
  show ?case
  proof (cases u)
    case (TLeaf q w)
    then show ?thesis using k TBranch.prems(2) by (auto simp: dom_leaf)
  next
    case (TExt q t')
    then obtain m1 m2 where "lcp (q @ m1) (q @ m2) = 0" using k unfolding TExt dom_ext by blast
    then show ?thesis using TExt TBranch.prems(2) by (simp add: lcp_append)
  next
    case (TBranch ds w)
    have len: "length cs = 16" "length ds = 16" using \<open>t_ok (trie.TBranch cs v)\<close> \<open>t_ok u\<close> TBranch by simp_all
    have "cs ! i = ds ! i" if "i < 16" for i
    proof (rule TBranch.IH)
      show "t_lookup (cs ! i) = t_lookup (ds ! i)"
      proof
        fix k
        have "unat (of_nat i :: byte) = i" using that by (simp add: unat_of_nat)
        then show "t_lookup (cs ! i) k = t_lookup (ds ! i) k"
          using fun_cong [OF \<open>t_lookup (trie.TBranch cs v) = t_lookup u\<close>, of "of_nat i # k"] TBranch len that by simp
      qed
    qed (use that len \<open>t_ok (trie.TBranch cs v)\<close> \<open>t_ok u\<close> TBranch in auto)
    then have "cs = ds" using len by (intro nth_equalityI) auto
    moreover have "v = w" using fun_cong [OF \<open>t_lookup (trie.TBranch cs v) = t_lookup u\<close>, of "[]"] TBranch by simp
    ultimately show ?thesis using TBranch by simp
  qed (use k(1) in \<open>simp add: t_dom_def\<close>)
qed

end
