(* ===== verification/TrieLaws.thy ===== *)
theory TrieLaws
  imports TrieSpec
begin

text \<open>
  The functions of \<^verbatim>\<open>GenericTrieDB\<close> implement the specification. A tree has one RLP form, in which a node of at least 32
  bytes is replaced by its hash; running a function on the form of a tree gives the form of the changed tree, and the
  database afterwards holds the nodes of it. This needs that the hashes of the nodes involved are different.
\<close>

section \<open>The form of a tree\<close>

definition ref_item :: "(bytes \<Rightarrow> h256) \<Rightarrow> rlp_item \<Rightarrow> rlp_item" where
  "ref_item sha3 it = (if length (encode it) < 32 then it else RData (toBigEndian 32 (unat (sha3 (encode it)))))"

definition hashed :: "rlp_item \<Rightarrow> bytes list" where
  "hashed it = (if length (encode it) < 32 then [] else [encode it])"

definition pair_item :: "bool \<Rightarrow> byte list \<Rightarrow> rlp_item \<Rightarrow> rlp_item" where
  "pair_item leaf p x = RList [RData (hp leaf p), x]"

primrec node_item :: "(bytes \<Rightarrow> h256) \<Rightarrow> trie \<Rightarrow> rlp_item" where
  "node_item sha3 TEmpty = RData []"
| "node_item sha3 (TLeaf p v) = pair_item True p (RData v)"
| "node_item sha3 (TExt p t) = pair_item False p (ref_item sha3 (node_item sha3 t))"
| "node_item sha3 (TBranch cs v) = RList (map (\<lambda>c. ref_item sha3 (node_item sha3 c)) cs @ [RData v])"

text \<open>The nodes below a tree that are stored under their hash.\<close>

primrec t_nodes :: "(bytes \<Rightarrow> h256) \<Rightarrow> trie \<Rightarrow> bytes list" where
  "t_nodes sha3 TEmpty = []"
| "t_nodes sha3 (TLeaf p v) = []"
| "t_nodes sha3 (TExt p t) = hashed (node_item sha3 t) @ t_nodes sha3 t"
| "t_nodes sha3 (TBranch cs v) = concat (map (\<lambda>c. hashed (node_item sha3 c) @ t_nodes sha3 c) cs)"

subsection \<open>Sizes\<close>

text \<open>Parts of keys and values that are small enough for every header to be exact; the tree need not be canonical.\<close>

definition part_ok :: "byte list \<Rightarrow> bool" where
  "part_ok p \<longleftrightarrow> key_ok p \<and> length p < 2 ^ 32"

fun t_fit :: "trie \<Rightarrow> bool" where
  "t_fit TEmpty \<longleftrightarrow> True"
| "t_fit (TLeaf p v) \<longleftrightarrow> part_ok p \<and> length v < 2 ^ 32"
| "t_fit (TExt p t) \<longleftrightarrow> p \<noteq> [] \<and> part_ok p \<and> t_fit t"
| "t_fit (TBranch cs v) \<longleftrightarrow> length cs = 16 \<and> length v < 2 ^ 32 \<and> (\<forall>c\<in>set cs. t_fit c)"

lemma part_ok_tl [simp]: "part_ok p \<Longrightarrow> part_ok (tl p)"
  by (cases p) (auto simp: part_ok_def)

lemma part_ok_take [simp]: "part_ok p \<Longrightarrow> part_ok (take s p)"
  by (auto simp: part_ok_def dest: in_set_takeD)

lemma part_ok_drop [simp]: "part_ok p \<Longrightarrow> part_ok (drop s p)"
  by (auto simp: part_ok_def dest: in_set_dropD)

lemma length_header: "n < 2 ^ 64 \<Longrightarrow> length (header s n) \<le> 9"
  using bytesRequired_size [of n] by (simp add: header_def)

lemma length_encode_data: "length b < 2 ^ 33 \<Longrightarrow> length (encode (RData b)) \<le> length b + 9"
  using length_header [of "length b" "0x80"] by (simp add: encode.simps(1))

lemma length_encode_items:
  "sum_list (map (length \<circ> encode) ts) < 2 ^ 60 \<Longrightarrow> length (encode (RList ts)) \<le> sum_list (map (length \<circ> encode) ts) + 9"
  using length_header [of "length (concat (map encode ts))" "0xc0"] by (simp add: length_concat comp_def)

lemma length_ref_item: "length (encode (ref_item sha3 it)) \<le> 33"
  by (simp add: ref_item_def header_def)

definition small_item :: "rlp_item \<Rightarrow> bool" where
  "small_item it \<longleftrightarrow> length (encode it) < 2 ^ 40"

lemma small_fits: "small_item it \<Longrightarrow> rlp_fits it"
  by (simp add: small_item_def rlp_fits_def)

lemma small_ref: "small_item (ref_item sha3 it)"
  using length_ref_item [of sha3 it] by (simp add: small_item_def)

lemma small_data: "length b < 2 ^ 33 \<Longrightarrow> small_item (RData b)"
  using length_encode_data [of b] by (simp add: small_item_def del: encode.simps)

lemma length_pair:
  assumes "part_ok p" and "length (encode x) < 2 ^ 34"
  shows "small_item (pair_item leaf p x)" "rlp_fits (pair_item leaf p x)" "rlp_fits x" "rlp_fits (RData (hp leaf p))"
proof -
  have hp: "length (hp leaf p) < 2 ^ 33" using assms(1) by (auto simp: length_hp part_ok_def)
  then have "length (encode (RData (hp leaf p))) \<le> 2 ^ 33 + 9" using length_encode_data [OF hp] by simp
  with assms(2) show "small_item (pair_item leaf p x)"
    using length_encode_items [of "[RData (hp leaf p), x]"] by (simp add: small_item_def pair_item_def del: encode.simps)
  then show "rlp_fits (pair_item leaf p x)" by (rule small_fits)
  from assms(2) show "rlp_fits x" by (simp add: rlp_fits_def)
  from hp show "rlp_fits (RData (hp leaf p))" by (intro small_fits small_data)
qed

lemma small_branch:
  assumes "length cs = 16" and "length v < 2 ^ 32"
  shows "small_item (RList (map (ref_item sha3) cs @ [RData v]))"
proof -
  have "sum_list (map (length \<circ> encode) (map (ref_item sha3) xs)) \<le> 33 * length xs" for xs
    by (induction xs) (auto intro: add_mono length_ref_item)
  from this [of cs] have "sum_list (map (length \<circ> encode) (map (ref_item sha3) cs @ [RData v])) \<le> 33 * 16 + (2 ^ 32 + 9)"
    using length_encode_data [of v] assms by (simp del: encode.simps)
  then show ?thesis
    using length_encode_items [of "map (ref_item sha3) cs @ [RData v]"] by (simp add: small_item_def del: encode.simps)
qed

lemma small_node: "t_fit t \<Longrightarrow> small_item (node_item sha3 t)"
proof (induction t)
  case (TBranch cs v)
  then show ?case using small_branch [of "map (node_item sha3) cs" v sha3] by (simp add: comp_def)
next
  case (TLeaf p v)
  then show ?case using length_encode_data [of v] by (auto intro!: length_pair simp del: encode.simps)
next
  case (TExt p t)
  then show ?case using length_ref_item [of sha3 "node_item sha3 t"] by (auto intro!: length_pair)
qed (simp add: small_item_def header_def)

lemma node_fits: "t_fit t \<Longrightarrow> rlp_fits (node_item sha3 t)"
  by (intro small_fits small_node)

section \<open>Reading and writing forms\<close>

lemma tlift_run [simp]: "tlift (Inr x) = ereturn x"
  by (simp add: tlift_def)

lemma titems_encode:
  "rlp_fits (RList ts) \<Longrightarrow> \<forall>i\<in>set is. i < length ts \<Longrightarrow>
   titems (encode (RList ts)) is d = (Inr (map (\<lambda>i. encode (ts ! i)) is), d)"
  using subscripts_cache_ok [OF cache_ok_fresh] by (simp add: titems_def del: encode.simps)

lemma titemCount_encode: "rlp_fits (RList ts) \<Longrightarrow> titemCount (encode (RList ts)) d = (Inr (length ts), d)"
  by (simp add: titemCount_def itemCount_encode del: encode.simps)

lemma isList_encode: "rlp_fits (RList ts) \<Longrightarrow> isList (encode (RList ts))"
  using read_list(1) [of ts "[]"] by simp

lemma isData_encode: "rlp_fits (RData b) \<Longrightarrow> isData (encode (RData b)) \<and> \<not> isList (encode (RData b))"
  using read_data(1) [of b "[]"] by (simp add: isData_def isList_def del: encode.simps)

lemma payload_encode: "rlp_fits (RData b) \<Longrightarrow> payload (encode (RData b)) = Inr b"
  using read_data [of b "[]"] by (simp del: encode.simps)

lemma isEmpty_data: "length b \<le> 32 \<Longrightarrow> rlp_isEmpty (encode (RData b)) \<longleftrightarrow> b = []"
proof -
  assume len: "length b \<le> 32"
  have "unat (0x80 + word_of_nat (length b) :: byte) = 0x80 + length b"
    using len unat_byte [of "0x80 + length b"] by simp
  with len show ?thesis by (cases b) (auto simp: rlp_isEmpty_def isNull_def header_def rlp_consts)
qed

lemma isEmpty_list: "rlp_fits (RList ts) \<Longrightarrow> ts \<noteq> [] \<Longrightarrow> \<not> rlp_isEmpty (encode (RList ts))"
proof -
  assume fits: "rlp_fits (RList ts)" and "ts \<noteq> []"
  let ?n = "length (concat (map encode ts))"
  have "?n \<noteq> 0" using \<open>ts \<noteq> []\<close> by (cases ts) simp_all
  have n: "?n < 2 ^ 64" using rlp_fits_list [OF fits] by simp
  have "unat (of_nat (0xc0 + ?n) :: byte) = 0xc0 + ?n" if "?n < 56" using that by (intro unat_byte) simp
  moreover have "unat (of_nat (0xc0 + 55 + bytesRequired ?n) :: byte) = 0xc0 + 55 + bytesRequired ?n"
    using bytesRequired_size [OF n] by (intro unat_byte) simp
  ultimately show ?thesis
    using \<open>?n \<noteq> 0\<close> by (auto simp: rlp_isEmpty_def isNull_def header_def rlp_consts simp del: length_concat concat_eq_Nil_conv)
qed

lemma two_or_seventeen_encode:
  "rlp_fits (RList ts) \<Longrightarrow> length ts = 2 \<or> length ts = 17 \<Longrightarrow> two_or_seventeen (encode (RList ts)) d = (Inr (length ts), d)"
  by (simp add: two_or_seventeen_def titemCount_encode isList_encode ebind_def del: encode.simps)

text \<open>Nodes of two items.\<close>

lemma pair_isLeaf:
  assumes "rlp_fits (pair_item leaf p x)" and "key_ok p"
  shows "isLeaf (encode (pair_item leaf p x)) d = (Inr leaf, d)"
proof -
  have "rlp_fits (RData (hp leaf p))" using assms(1) unfolding pair_item_def by (rule rlp_fits_item) simp
  moreover have "hp leaf p \<noteq> []" using length_hp [of leaf p] by auto
  ultimately show ?thesis
    using assms hp_bits(2) [OF assms(2), of leaf]
    by (simp add: isLeaf_def pair_item_def titems_encode ebind_def payload_encode del: encode.simps)
qed

lemma pair_keyOf:
  assumes "rlp_fits (pair_item leaf p x)"
  shows "keyOf_node (encode (pair_item leaf p x)) d = (Inr (keyOf (hp leaf p)), d)"
proof -
  have "rlp_fits (RData (hp leaf p))" using assms unfolding pair_item_def by (rule rlp_fits_item) simp
  then show ?thesis
    using assms by (simp add: keyOf_node_def pair_item_def titems_encode ebind_def payload_encode del: encode.simps)
qed

lemma pair_items:
  assumes "rlp_fits (pair_item leaf p x)"
  shows "titems (encode (pair_item leaf p x)) [1] d = (Inr [encode x], d)"
    "titems (encode (pair_item leaf p x)) [0] d = (Inr [encode (RData (hp leaf p))], d)"
    "titems (encode (pair_item leaf p x)) [0, 1] d = (Inr [encode (RData (hp leaf p)), encode x], d)"
    "two_or_seventeen (encode (pair_item leaf p x)) d = (Inr 2, d)"
    "\<not> rlp_isEmpty (encode (pair_item leaf p x))" "isList (encode (pair_item leaf p x))"
    "titemCount (encode (pair_item leaf p x)) d = (Inr 2, d)"
  using assms
  by (simp_all add: pair_item_def titems_encode two_or_seventeen_encode isEmpty_list isList_encode titemCount_encode
      del: encode.simps)

text \<open>Writers of items.\<close>

lemma raw_item: "rlp_fits t \<Longrightarrow> appendRaw (encode t) 1 = append_item t"
  by (rule ext) (simp add: append_item_encode appendRaw_def)

lemma str_item: "append_str s = append_item (RData s)"
  by (rule ext) (simp add: append_str_def)

lemma stream_list: "rlp_fits (RList ts) \<Longrightarrow> ws = map append_item ts \<Longrightarrow> n = length ts \<Longrightarrow>
    tlift (stream_of n ws) d = (Inr (encode (RList ts)), d)"
  by (simp add: stream_of_items del: encode.simps)

lemma stream_pair:
  "rlp_fits (pair_item leaf p x) \<Longrightarrow>
   tlift (stream_of 2 [append_item (RData (hp leaf p)), append_item x]) d = (Inr (encode (pair_item leaf p x)), d)"
  unfolding pair_item_def by (rule stream_list) simp_all

section \<open>What a database has to provide\<close>

text \<open>The contents of a database after nodes were written in this order.\<close>

definition put_all :: "(bytes \<Rightarrow> h256) \<Rightarrow> bytes list \<Rightarrow> (h256 \<Rightarrow> bytes) \<Rightarrow> h256 \<Rightarrow> bytes" where
  "put_all sha3 bs L = fold (\<lambda>b f. f(sha3 b := b)) bs L"

lemma put_all_append [simp]: "put_all sha3 (bs @ cs) L = put_all sha3 cs (put_all sha3 bs L)"
  by (simp add: put_all_def)

lemma put_all_Nil [simp]: "put_all sha3 [] L = L"
  by (simp add: put_all_def)

lemma put_all_found:
  assumes "inj_on sha3 S" and "set bs \<subseteq> S" and "b \<in> S" and "b \<in> set bs \<or> L (sha3 b) = b"
  shows "put_all sha3 bs L (sha3 b) = b"
  using assms(2,4)
proof (induction bs arbitrary: L)
  case (Cons c bs)
  have "sha3 b = sha3 c \<longleftrightarrow> b = c" using assms(1,3) Cons.prems(1) by (auto dest: inj_onD)
  with Cons show ?case by (auto simp: put_all_def)
qed (simp add: put_all_def)

locale node_db =
  fixes ops :: "'d db_ops" and sha3 :: "bytes \<Rightarrow> h256" and ok :: "'d \<Rightarrow> bool"
  assumes lookup_insert: "ok d \<Longrightarrow> v \<noteq> [] \<Longrightarrow> db_lookup ops (db_insert ops h v d) = (db_lookup ops d)(h := v)"
    and exists_insert: "ok d \<Longrightarrow> db_exists ops (db_insert ops h v d) h"
    and lookup_kill: "ok d \<Longrightarrow> db_lookup ops (db_kill ops h d) = db_lookup ops d"
    and ok_insert: "ok d \<Longrightarrow> ok (db_insert ops h v d)"
    and ok_kill: "ok d \<Longrightarrow> ok (db_kill ops h d)"
begin

text \<open>On a database with the contents \<open>L\<close> the code returns \<open>x\<close> and writes the nodes \<open>bs\<close>.\<close>

definition yields :: "('d, 'a) tr \<Rightarrow> (h256 \<Rightarrow> bytes) \<Rightarrow> 'a \<Rightarrow> bytes list \<Rightarrow> bool" where
  "yields m L x bs \<longleftrightarrow> (\<forall>d. ok d \<and> db_lookup ops d = L \<longrightarrow>
     (\<exists>d'. m d = (Inr x, d') \<and> ok d' \<and> db_lookup ops d' = put_all sha3 bs L))"

lemma yieldsI: "(\<And>d. ok d \<Longrightarrow> db_lookup ops d = L \<Longrightarrow> m d = (Inr x, d)) \<Longrightarrow> yields m L x []"
  by (auto simp: yields_def)

lemma yields_bind: "yields m L x bs \<Longrightarrow> yields (f x) (put_all sha3 bs L) y cs \<Longrightarrow> yields (ebind m f) L y (bs @ cs)"
  unfolding yields_def by (fastforce simp: ebind_def)

lemma yields_then: "(\<And>d. m d = (Inr x, d)) \<Longrightarrow> yields (f x) L y cs \<Longrightarrow> yields (ebind m f) L y cs"
  by (simp add: yields_def ebind_def)

lemma yields_kill: "yields f L y cs \<Longrightarrow> yields (ebind (killNode ops b h) (\<lambda>_. f)) L y cs"
  by (auto simp: yields_def killNode_def forceKillNode_def ebind_def lookup_kill ok_kill)

lemma yields_when_kill: "yields f L y cs \<Longrightarrow> yields (ebind (ewhen P (killNode ops b h)) (\<lambda>_. f)) L y cs"
  using yields_kill [of f L y cs b h] by (cases P) (simp_all add: yields_def ebind_def)

lemma yields_return: "yields (ereturn x) L x []"
  by (rule yieldsI) simp

lemma yields_pure: "(\<And>d. m d = (Inr x, d)) \<Longrightarrow> yields m L x []"
  by (rule yieldsI) simp

lemma yields_insert: "b \<noteq> [] \<Longrightarrow> yields (forceInsertNode ops sha3 b) L (sha3 b) [b]"
  by (auto simp: yields_def forceInsertNode_def ebind_def lookup_insert ok_insert put_all_def)

lemma yields_node: "yields (tnode ops h) L (L h) []"
  by (rule yieldsI) (simp add: tnode_def)

lemma yields_stream:
  "rlp_fits it \<Longrightarrow> yields (streamNode ops sha3 (encode it)) L (append_item (ref_item sha3 it)) (hashed it)"
  using yields_bind [where f = "\<lambda>h. ereturn (append_hash 32 h)", OF yields_insert [OF encode_not_Nil, of it L] yields_return]
    yields_return [of "append_item it" L]
  by (simp add: streamNode_def raw_item append_hash_item ref_item_def hashed_def del: encode.simps One_nat_def)

text \<open>Following the reference to a node that is stored.\<close>

lemma yields_deref:
  assumes "rlp_fits it" and "\<not> length (encode it) < 32" and "L (sha3 (encode it)) = encode it"
    and "yields (f (encode it)) L y cs"
  shows "yields (ebind (thash (encode (ref_item sha3 it))) (\<lambda>h. ebind (tnode ops h) (\<lambda>s. ebind (tRLP s) f))) L y cs"
proof (rule yields_then)
  show "thash (encode (ref_item sha3 it)) d = (Inr (sha3 (encode it)), d)" for d :: 'd
    using assms(2) toHash_encode [of 32 Strict "sha3 (encode it)"] by (simp add: thash_def ref_item_def del: encode.simps)
  have "yields (ebind (tRLP (encode it)) f) L y cs"
    by (rule yields_then [where x = "encode it"]) (simp_all add: tRLP_def RLP_node_encode assms)
  with yields_bind [OF yields_node [of "sha3 (encode it)" L], of "\<lambda>s. ebind (tRLP s) f" y cs] assms(3)
  show "yields (ebind (tnode ops (sha3 (encode it))) (\<lambda>s. ebind (tRLP s) f)) L y cs" by simp
qed

end

end
