(* ===== verification/TrieInsert.thy ===== *)
theory TrieInsert
  imports TrieLaws
begin

text \<open>
  \<^verbatim>\<open>GenericTrieDB::insert\<close> and \<^verbatim>\<open>GenericTrieDB::at\<close> implement \<open>t_insert\<close> and \<open>t_lookup\<close>: each function run on the form of a
  tree gives the form of the changed tree. \<open>ins_log\<close> lists the nodes that an insertion writes, in their order.
\<close>

section \<open>The nodes an insertion writes\<close>

definition leaf_log :: "(bytes \<Rightarrow> h256) \<Rightarrow> byte list \<Rightarrow> bytes \<Rightarrow> bytes list" where
  "leaf_log sha3 p w = (if p = [] then [] else hashed (node_item sha3 (TLeaf (tl p) w)))"

definition ext_log :: "(bytes \<Rightarrow> h256) \<Rightarrow> byte list \<Rightarrow> trie \<Rightarrow> bytes list" where
  "ext_log sha3 p t = (if tl p = [] then [] else hashed (node_item sha3 (TExt (tl p) t)))"

function (sequential) ins_log :: "(bytes \<Rightarrow> h256) \<Rightarrow> byte list \<Rightarrow> bytes \<Rightarrow> trie \<Rightarrow> bytes list" where
  "ins_log sha3 k v TEmpty = []"
| "ins_log sha3 k v (TLeaf p w) =
     (if k = p then []
      else if lcp k p \<noteq> 0
      then hashed (node_item sha3 (TLeaf (drop (lcp k p) p) w)) @
        ins_log sha3 (drop (lcp k p) k) v (TLeaf (drop (lcp k p) p) w) @
        hashed (node_item sha3 (t_insert (drop (lcp k p) k) v (TLeaf (drop (lcp k p) p) w)))
      else (case k of
          [] \<Rightarrow> leaf_log sha3 p w
        | n # k' \<Rightarrow> leaf_log sha3 p w @ ins_log sha3 k' v (leaf_children p w ! unat n) @
            hashed (node_item sha3 (t_insert k' v (leaf_children p w ! unat n)))))"
| "ins_log sha3 k v (TExt p t) =
     (if take (length p) k = p
      then ins_log sha3 (drop (length p) k) v t @ hashed (node_item sha3 (t_insert (drop (length p) k) v t))
      else if lcp k p \<noteq> 0
      then hashed (node_item sha3 (TExt (drop (lcp k p) p) t)) @
        ins_log sha3 (drop (lcp k p) k) v (TExt (drop (lcp k p) p) t) @
        hashed (node_item sha3 (t_insert (drop (lcp k p) k) v (TExt (drop (lcp k p) p) t)))
      else (case k of
          [] \<Rightarrow> ext_log sha3 p t
        | n # k' \<Rightarrow> ext_log sha3 p t @ ins_log sha3 k' v (ext_children p t ! unat n) @
            hashed (node_item sha3 (t_insert k' v (ext_children p t ! unat n)))))"
| "ins_log sha3 k v (TBranch cs s) = (case k of
       [] \<Rightarrow> []
     | n # k' \<Rightarrow> ins_log sha3 k' v (cs ! unat n) @ hashed (node_item sha3 (t_insert k' v (cs ! unat n))))"
  by pat_completeness auto
termination
proof -
  have *: "length k - lcp k p < length k" if "lcp k p \<noteq> 0" for k p :: "byte list"
    using that lcp_le(1) [of k p] by simp
  show ?thesis
    by (relation "measures [\<lambda>(h, k, v, t). length k, \<lambda>(h, k, v, t). size t]") (auto simp: *)
qed

declare ins_log.simps [simp del] encode.simps [simp del]

lemma ins_log_leaf:
  "ins_log sha3 p v (TLeaf p w) = []"
  "k \<noteq> p \<Longrightarrow> lcp k p \<noteq> 0 \<Longrightarrow> ins_log sha3 k v (TLeaf p w) = hashed (node_item sha3 (TLeaf (drop (lcp k p) p) w)) @
    ins_log sha3 (drop (lcp k p) k) v (TLeaf (drop (lcp k p) p) w) @
    hashed (node_item sha3 (t_insert (drop (lcp k p) k) v (TLeaf (drop (lcp k p) p) w)))"
  "[] \<noteq> p \<Longrightarrow> ins_log sha3 [] v (TLeaf p w) = leaf_log sha3 p w"
  "n # k' \<noteq> p \<Longrightarrow> lcp (n # k') p = 0 \<Longrightarrow> ins_log sha3 (n # k') v (TLeaf p w) = leaf_log sha3 p w @
    ins_log sha3 k' v (leaf_children p w ! unat n) @ hashed (node_item sha3 (t_insert k' v (leaf_children p w ! unat n)))"
  by (subst ins_log.simps; simp)+

lemma ins_log_ext:
  "take (length p) k = p \<Longrightarrow> ins_log sha3 k v (TExt p t) =
    ins_log sha3 (drop (length p) k) v t @ hashed (node_item sha3 (t_insert (drop (length p) k) v t))"
  "take (length p) k \<noteq> p \<Longrightarrow> lcp k p \<noteq> 0 \<Longrightarrow> ins_log sha3 k v (TExt p t) =
    hashed (node_item sha3 (TExt (drop (lcp k p) p) t)) @
    ins_log sha3 (drop (lcp k p) k) v (TExt (drop (lcp k p) p) t) @
    hashed (node_item sha3 (t_insert (drop (lcp k p) k) v (TExt (drop (lcp k p) p) t)))"
  "[] \<noteq> p \<Longrightarrow> ins_log sha3 [] v (TExt p t) = ext_log sha3 p t"
  "take (length p) (n # k') \<noteq> p \<Longrightarrow> lcp (n # k') p = 0 \<Longrightarrow> ins_log sha3 (n # k') v (TExt p t) = ext_log sha3 p t @
    ins_log sha3 k' v (ext_children p t ! unat n) @ hashed (node_item sha3 (t_insert k' v (ext_children p t ! unat n)))"
  by (subst ins_log.simps; simp)+

lemma ins_log_branch:
  "ins_log sha3 [] v (TBranch cs s) = []"
  "ins_log sha3 (n # k') v (TBranch cs s) =
    ins_log sha3 k' v (cs ! unat n) @ hashed (node_item sha3 (t_insert k' v (cs ! unat n)))"
  by (subst ins_log.simps; simp)+

lemmas ins_log_rules = ins_log.simps(1) ins_log_leaf ins_log_ext ins_log_branch

text \<open>A key that shares no first nibble with a node finds an empty child in the branch it becomes.\<close>

lemma split_child:
  assumes "part_ok p" and "lcp (n # k') p = 0" and "unat n < 16"
  shows "leaf_children p w ! unat n = TEmpty" and "p \<noteq> [] \<Longrightarrow> ext_children p t ! unat n = TEmpty"
  using assms by (cases p; auto simp: part_ok_def nth_leaf_children nth_ext_children word_unat_eq_iff split: if_splits)+

text \<open>Every stored node of the new tree was stored before or is written.\<close>

lemma nodes_update:
  "set (t_nodes sha3 (TBranch (cs[i := c]) s)) \<subseteq>
   set (t_nodes sha3 (TBranch cs s)) \<union> set (hashed (node_item sha3 c)) \<union> set (t_nodes sha3 c)"
  using set_update_subset_insert [of cs i c] by auto

lemma nodes_no_child: "t_nodes sha3 (TBranch no_children s) = []"
  by (simp add: hashed_def encode.simps header_def)

lemma nodes_split:
  "set (t_nodes sha3 (TBranch (leaf_children p w) s)) \<subseteq> set (leaf_log sha3 p w)"
  "set (t_nodes sha3 (TBranch (ext_children p t) s)) \<subseteq> set (ext_log sha3 p t) \<union> set (t_nodes sha3 (TExt p t))"
  using nodes_update [of sha3 no_children "unat (hd p)"] nodes_no_child [of sha3]
  by (fastforce simp: leaf_children_def leaf_log_def ext_children_def ext_log_def simp del: t_nodes.simps(4))+

lemma nodes_child:
  "i < length cs \<Longrightarrow> set (hashed (node_item sha3 (cs ! i)) @ t_nodes sha3 (cs ! i)) \<subseteq> set (t_nodes sha3 (TBranch cs s))"
  by (force simp: in_set_conv_nth)

lemma nodes_into:
  assumes "set (t_nodes sha3 c') \<subseteq> N \<union> set log" and "set (t_nodes sha3 (TBranch cs s)) \<subseteq> N \<union> set log0"
  shows "set (t_nodes sha3 (TBranch (cs[i := c']) s)) \<subseteq> N \<union> set (log0 @ log @ hashed (node_item sha3 c'))"
  using nodes_update [of sha3 cs i c' s] assms unfolding set_append by blast

lemma nodes_insert:
  assumes "t_fit t" and "part_ok k"
  shows "set (t_nodes sha3 (t_insert k v t)) \<subseteq> set (t_nodes sha3 t) \<union> set (ins_log sha3 k v t)"
  using assms
proof (induction k v t rule: t_insert.induct)
  case (1 k v)
  then show ?case by (simp add: t_insert_rules)
next
  case (2 k v p w)
  consider "k = p" | "k \<noteq> p" "lcp k p \<noteq> 0" | "k \<noteq> p" "lcp k p = 0" "k = []" | n k' where "k \<noteq> p" "lcp k p = 0" "k = n # k'"
    by (cases k) auto
  then show ?case
  proof cases
    case 2
    then show ?thesis using "2.IH"(1) [OF 2] "2.prems" by (auto simp: t_insert_leaf(2) ins_log_leaf(2))
  next
    case 4
    then have "leaf_children p w ! unat n = TEmpty" using "2.prems" by (intro split_child) (auto simp: part_ok_def nibble_unat)
    then have "set (t_nodes sha3 (t_insert k' v (leaf_children p w ! unat n))) \<subseteq> set (t_nodes sha3 (TLeaf p w)) \<union> set []"
      by (simp add: t_insert_rules)
    from nodes_into [OF this, of "leaf_children p w" "leaf_slot p w" "leaf_log sha3 p w" "unat n"] nodes_split(1) [of sha3 p w "leaf_slot p w"] 4
    show ?thesis by (auto simp: t_insert_leaf(4) ins_log_leaf(4) simp del: t_nodes.simps(4))
  qed (use nodes_split(1) [of sha3 p w] in \<open>auto simp: t_insert_rules ins_log_rules simp del: t_nodes.simps(4)\<close>)
next
  case (3 k v p t)
  consider "take (length p) k = p" | "take (length p) k \<noteq> p" "lcp k p \<noteq> 0" | "take (length p) k \<noteq> p" "lcp k p = 0" "k = []"
    | n k' where "take (length p) k \<noteq> p" "lcp k p = 0" "k = n # k'" by (cases k) auto
  then show ?case
  proof cases
    case 1
    then show ?thesis using "3.IH"(1) [OF 1] "3.prems" by (auto simp: t_insert_ext(1) ins_log_ext(1))
  next
    case 2
    have "drop (lcp k p) p \<noteq> []" using 2 lcp_le(2) [of k p] lcp_eq_length [of k p] by auto
    then show ?thesis using "3.IH"(2) [OF 2] "3.prems" 2 by (auto simp: t_insert_ext(2) ins_log_ext(2))
  next
    case 4
    then have "ext_children p t ! unat n = TEmpty" using "3.prems" by (intro split_child) (auto simp: part_ok_def nibble_unat)
    then have "set (t_nodes sha3 (t_insert k' v (ext_children p t ! unat n))) \<subseteq> set (t_nodes sha3 (TExt p t)) \<union> set []"
      by (simp add: t_insert_rules)
    from nodes_into [OF this, of "ext_children p t" "[]" "ext_log sha3 p t" "unat n"] nodes_split(2) [of sha3 p t "[]"] 4
    show ?thesis by (auto simp: t_insert_ext(4) ins_log_ext(4) simp del: t_nodes.simps)
  qed (use nodes_split(2) [of sha3 p t] "3.prems" in \<open>auto simp: t_insert_rules ins_log_rules simp del: t_nodes.simps\<close>)
next
  case (4 k v cs s)
  show ?case
  proof (cases k)
    case (Cons n k')
    with "4.prems" have n: "unat n < length cs" "t_fit (cs ! unat n)" "part_ok k'" by (auto simp: part_ok_def nibble_unat)
    have "set (t_nodes sha3 (t_insert k' v (cs ! unat n))) \<subseteq> set (t_nodes sha3 (TBranch cs s)) \<union> set (ins_log sha3 k' v (cs ! unat n))"
      using "4.IH" [OF Cons n(2,3)] nodes_child [OF n(1), of sha3 s] unfolding set_append by blast
    from nodes_into [OF this, of cs s "[]" "unat n"] show ?thesis
      unfolding Cons t_insert_branch ins_log_branch by simp
  qed (simp add: t_insert_branch)
qed

section \<open>Steps on forms\<close>

lemma raws_encode: "\<forall>t\<in>set ts. rlp_fits t \<Longrightarrow> raws (map encode ts) = map append_item ts"
  by (simp add: raws_def raw_item del: One_nat_def)

lemma keyOf_part:
  "part_ok p \<Longrightarrow> nibbles (keyOf (hp leaf p)) = p" "part_ok p \<Longrightarrow> ns_ok (keyOf (hp leaf p))"
  "part_ok p \<Longrightarrow> ns_size (keyOf (hp leaf p)) = length p"
  using keyOf_hp [of p leaf] length_nibbles [of "keyOf (hp leaf p)"] by (simp_all add: part_ok_def del: length_nibbles)

lemma hexPrefixEncode_all: "hexPrefixEncode k leaf 0 (-1) = hp leaf (nibbles k)"
  using hexPrefixEncode_hp [of 0 "ns_size k" k "-1" leaf] by simp

lemma fits_pair_ref: "part_ok p \<Longrightarrow> rlp_fits (pair_item leaf p (ref_item sha3 it))"
  using length_ref_item [of sha3 it] by (intro length_pair) simp_all

lemma fits_pair_data: "part_ok p \<Longrightarrow> length v < 2 ^ 32 \<Longrightarrow> rlp_fits (pair_item leaf p (RData v))"
  using length_encode_data [of v] by (intro length_pair) simp_all

lemma fits_children: "length cs = 16 \<Longrightarrow> length v < 2 ^ 32 \<Longrightarrow> rlp_fits (RList (map (ref_item sha3) cs @ [RData v]))"
  by (intro small_fits small_branch)

text \<open>Reading and writing a form needs no database.\<close>

lemma pureI: "(\<And>d. m d = (Inr x, d)) \<Longrightarrow> m = ereturn x"
  by (rule ext) simp

lemma then_return [simp]: "ebind (ereturn x) f = f x"
  by (rule ext) (simp add: ebind_def)

lemma ebind_return: "ebind m ereturn = m"
  by (rule ext) (simp add: ebind_def split: prod.split sum.split)

lemmas pair_pure = pureI [OF pair_keyOf] pureI [OF pair_isLeaf] pureI [OF pair_items(1), simplified]
  pureI [OF pair_items(2)] pureI [OF pair_items(3), simplified] pureI [OF pair_items(4)] pair_items(5)

lemma pure_pair:
  "rlp_fits (pair_item leaf p x) \<Longrightarrow> tlift (stream_of 2 [append_item (RData (hp leaf p)), append_item x]) = ereturn (encode (pair_item leaf p x))"
  "rlp_fits (pair_item leaf p x) \<Longrightarrow> raws [encode (RData (hp leaf p))] = [append_item (RData (hp leaf p))]"
  "rlp_fits (pair_item leaf p x) \<Longrightarrow> raws [encode x] = [append_item x]"
proof -
  assume fits: "rlp_fits (pair_item leaf p x)"
  show "tlift (stream_of 2 [append_item (RData (hp leaf p)), append_item x]) = ereturn (encode (pair_item leaf p x))"
    by (rule pureI [OF stream_pair [OF fits]])
  have "rlp_fits (RData (hp leaf p))" "rlp_fits x"
    using fits unfolding pair_item_def by (auto intro: rlp_fits_item)
  then show "raws [encode (RData (hp leaf p))] = [append_item (RData (hp leaf p))]" "raws [encode x] = [append_item x]"
    using raws_encode [of "[RData (hp leaf p)]"] raws_encode [of "[x]"] by simp_all
qed

lemma pure_branch:
  assumes "rlp_fits (RList ts)" and "length ts = 17"
  shows "two_or_seventeen (encode (RList ts)) = ereturn 17"
    and "titems (encode (RList ts)) [0..<17] = ereturn (map encode ts)"
    and "titems (encode (RList ts)) [0..<16] = ereturn (map encode (take 16 ts))"
    and "\<not> rlp_isEmpty (encode (RList ts))"
    and "ws = map append_item ts \<Longrightarrow> tlift (stream_of 17 ws) = ereturn (encode (RList ts))"
    and "raws (map encode ts) = map append_item ts"
proof -
  show "two_or_seventeen (encode (RList ts)) = ereturn 17"
    using two_or_seventeen_encode [OF assms(1)] assms(2) by (intro pureI) simp
  have "map (\<lambda>i. encode (ts ! i)) [0..<n] = map encode (take n ts)" if "n \<le> 17" for n
    using assms(2) that by (intro nth_equalityI) simp_all
  from this [of 17] this [of 16]
  show "titems (encode (RList ts)) [0..<17] = ereturn (map encode ts)"
    "titems (encode (RList ts)) [0..<16] = ereturn (map encode (take 16 ts))"
    using titems_encode [OF assms(1), of "[0..<17]"] titems_encode [OF assms(1), of "[0..<16]"] assms(2)
    by (auto intro!: pureI simp del: upt_rec_numeral)
  show "\<not> rlp_isEmpty (encode (RList ts))" using isEmpty_list [OF assms(1)] assms(2) by (cases ts) simp_all
  show "ws = map append_item ts \<Longrightarrow> tlift (stream_of 17 ws) = ereturn (encode (RList ts))"
    using stream_list [OF assms(1)] assms(2) by (intro pureI) simp
  show "raws (map encode ts) = map append_item ts" using rlp_fits_item [OF assms(1)] by (intro raws_encode) blast
qed

lemma pure_string: "length v < 2 ^ 32 \<Longrightarrow> tstring (encode (RData v)) = ereturn v"
  by (rule pureI) (simp add: tstring_def toBytes_encode [OF small_fits [OF small_data]])

lemma pure_RLP: "rlp_fits it \<Longrightarrow> tRLP (encode it) = ereturn (encode it)"
  by (rule pureI) (simp add: tRLP_def RLP_node_encode)

text \<open>Nodes that a database holds.\<close>

definition held :: "(bytes \<Rightarrow> h256) \<Rightarrow> (h256 \<Rightarrow> bytes) \<Rightarrow> bytes list \<Rightarrow> bool" where
  "held sha3 L bs \<longleftrightarrow> (\<forall>b\<in>set bs. L (sha3 b) = b)"

lemma held_append [simp]: "held sha3 L (as @ bs) \<longleftrightarrow> held sha3 L as \<and> held sha3 L bs"
  by (auto simp: held_def)

lemma held_sub: "held sha3 L bs \<Longrightarrow> set as \<subseteq> set bs \<Longrightarrow> held sha3 L as"
  by (auto simp: held_def)

lemma held_put:
  assumes "inj_on sha3 S" and "set cs \<subseteq> S" and "set bs \<subseteq> S" and "held sha3 L bs \<or> set bs \<subseteq> set cs"
  shows "held sha3 (put_all sha3 cs L) bs"
  unfolding held_def using assms by (auto intro!: put_all_found [of sha3 S] simp: held_def)

subsection \<open>Branches of one child\<close>

lemma ref_empty [simp]: "ref_item sha3 (RData []) = RData []"
  by (simp add: ref_item_def encode.simps header_def)

lemma form_one_child:
  "i < 16 \<Longrightarrow> node_item sha3 (TBranch (no_children[i := c]) []) =
   RList ((replicate 17 (RData []))[i := ref_item sha3 (node_item sha3 c)])"
proof -
  assume "i < 16"
  moreover have "replicate 17 (RData []) = replicate 16 (RData []) @ [RData []]" by (simp add: numeral_eq_Suc)
  ultimately show ?thesis by (simp add: map_update list_update_append1)
qed

lemma fit_children:
  "part_ok p \<Longrightarrow> length w < 2 ^ 32 \<Longrightarrow> t_fit (TBranch (leaf_children p w) (leaf_slot p w))"
  "part_ok p \<Longrightarrow> p \<noteq> [] \<Longrightarrow> t_fit t \<Longrightarrow> t_fit (TBranch (ext_children p t) [])"
  by (auto simp: leaf_children_def ext_children_def leaf_slot_def dest!: set_update_subset_insert [THEN subsetD])

lemma part_key: "part_ok (n # k) \<Longrightarrow> part_ok k \<and> unat n < 16"
  by (auto simp: part_ok_def nibble_unat)

lemma fit_update: "t_fit (TBranch cs s) \<Longrightarrow> t_fit c \<Longrightarrow> t_fit (TBranch (cs[i := c]) s)"
  using all_children_update [of cs t_fit c i] by simp

lemma fit_insert: "t_fit t \<Longrightarrow> part_ok k \<Longrightarrow> length v < 2 ^ 32 \<Longrightarrow> t_fit (t_insert k v t)"
proof (induction k v t rule: t_insert.induct)
  case (1 k v)
  then show ?case by (simp add: t_insert_rules)
next
  case (2 k v p w)
  consider "k = p" | "k \<noteq> p" "lcp k p \<noteq> 0" | "k \<noteq> p" "lcp k p = 0" "k = []" | n k' where "k \<noteq> p" "lcp k p = 0" "k = n # k'"
    by (cases k) auto
  then show ?case
  proof cases
    case 2
    have "take (lcp k p) p \<noteq> []" using 2 lcp_le(2) [of k p] by auto
    then show ?thesis unfolding t_insert_leaf(2) [OF 2] using "2.IH"(1) [OF 2] "2.prems" by simp
  next
    case 4
    have "leaf_children p w ! unat n = TEmpty" using "2.prems" 4 part_key by (intro split_child) auto
    with 4 "2.prems" part_key [of n k'] fit_children(1) [of p w] show ?thesis
      by (auto simp: t_insert_leaf(4) t_insert_rules simp del: t_fit.simps(4) intro!: fit_update)
  qed (use "2.prems" fit_children(1) [of p w] in \<open>auto simp: t_insert_rules leaf_children_def\<close>)
next
  case (3 k v p t)
  consider "take (length p) k = p" | "take (length p) k \<noteq> p" "lcp k p \<noteq> 0" | "take (length p) k \<noteq> p" "lcp k p = 0" "k = []"
    | n k' where "take (length p) k \<noteq> p" "lcp k p = 0" "k = n # k'" by (cases k) auto
  then show ?case
  proof cases
    case 1
    then show ?thesis using "3.IH"(1) [OF 1] "3.prems" by (auto simp: t_insert_ext(1))
  next
    case 2
    have "drop (lcp k p) p \<noteq> []" "take (lcp k p) p \<noteq> []" using 2 lcp_le(2) [of k p] lcp_eq_length [of k p] by auto
    then show ?thesis unfolding t_insert_ext(2) [OF 2] using "3.IH"(2) [OF 2] "3.prems" by simp
  next
    case 4
    have "ext_children p t ! unat n = TEmpty" using "3.prems" 4 part_key by (intro split_child) auto
    with 4 "3.prems" part_key [of n k'] fit_children(2) [of p t] show ?thesis
      by (auto simp: t_insert_ext(4) t_insert_rules simp del: t_fit.simps(4) intro!: fit_update)
  qed (use "3.prems" fit_children(2) [of p t] in \<open>auto simp: t_insert_rules\<close>)
next
  case (4 k v cs s)
  show ?case
  proof (cases k)
    case (Cons n k')
    with "4.prems" part_key [of n k'] have "t_fit (cs ! unat n)" "part_ok k'" by simp_all
    from "4.IH" [OF Cons this "4.prems"(3)] "4.prems"(1) show ?thesis unfolding Cons t_insert_branch by (intro fit_update)
  qed (use "4.prems" in \<open>simp add: t_insert_branch\<close>)
qed

lemma part_hd: "part_ok p \<Longrightarrow> p \<noteq> [] \<Longrightarrow> unat (hd p) < 16"
  by (cases p) (simp_all add: part_ok_def nibble_unat)

lemma keyOf_first: "part_ok p \<Longrightarrow> p \<noteq> [] \<Longrightarrow> ns_at (keyOf (hp leaf p)) 0 = hd p"
  using ns_at_nibbles [of "keyOf (hp leaf p)"] by (simp add: keyOf_part)

lemma keyOf_rest: "part_ok p \<Longrightarrow> p \<noteq> [] \<Longrightarrow> nibbles (ns_mid (keyOf (hp leaf p)) (Suc 0)) = tl p"
  using nibbles_mid [of "Suc 0" "keyOf (hp leaf p)"] by (cases p) (simp_all add: keyOf_part)

lemma slot_writers:
  "(replicate 17 (append_item (RData [])))[i := append_item x] = map append_item ((replicate 17 (RData []))[i := x])"
  by (simp add: map_update)

lemma isEmpty_ref:
  assumes "t_fit c"
  shows "rlp_isEmpty (encode (ref_item sha3 (node_item sha3 c))) \<longleftrightarrow> c = TEmpty"
proof (cases "length (encode (node_item sha3 c)) < 32")
  case True
  then have "ref_item sha3 (node_item sha3 c) = node_item sha3 c" by (simp add: ref_item_def)
  then show ?thesis
    using node_fits [OF assms, of sha3] by (cases c) (simp_all add: isEmpty_data pair_items(5) isEmpty_list)
next
  case False
  then have "c \<noteq> TEmpty" by (auto simp: encode.simps header_def)
  with False length_toBigEndian [of 32 "unat (sha3 (encode (node_item sha3 c)))"] show ?thesis
    by (auto simp: ref_item_def isEmpty_data simp del: length_toBigEndian)
qed

context node_db
begin

lemma yields_last: "yields m L x bs \<Longrightarrow> (\<And>d. f x d = (Inr y, d)) \<Longrightarrow> yields (ebind m f) L y bs"
  using yields_bind [of m L x bs f y "[]"] yields_pure [of "f x" y "put_all sha3 bs L"] by simp

lemma yields_value [simp]: "yields (ereturn x) L x []" "yields (Pair (Inr x)) L x []"
  by (simp_all add: yields_def)

lemma place_empty:
  assumes "part_ok (nibbles k)" and "length v < 2 ^ 32"
  shows "yields (place ops sha3 (encode (RData [])) k v) L (encode (pair_item True (nibbles k) (RData v))) []"
  unfolding place_def using fits_pair_data [OF assms, of True]
  by (intro yields_kill) (simp add: isEmpty_data str_item hexPrefixEncode_all pure_pair)

lemma place_leaf:
  assumes "rlp_fits (pair_item True p x)" and "rlp_fits (pair_item True p (RData v))"
  shows "yields (place ops sha3 (encode (pair_item True p x)) k v) L (encode (pair_item True p (RData v))) []"
  unfolding place_def using assms by (intro yields_kill) (simp add: pair_pure str_item pure_pair)

lemma place_branch:
  assumes "length cs = 16" and "rlp_fits (RList (cs @ [x]))" and "rlp_fits (RList (cs @ [RData v]))"
  shows "yields (place ops sha3 (encode (RList (cs @ [x]))) k v) L (encode (RList (cs @ [RData v]))) []"
proof -
  have "\<forall>t\<in>set cs. rlp_fits t" using rlp_fits_item [OF assms(2)] by simp
  from raws_encode [OF this] show ?thesis
    unfolding place_def using assms
    by (intro yields_kill) (simp add: pure_branch(1,3,4) pure_branch(5) [OF assms(3)] str_item del: upt_rec_numeral)
qed

text \<open>Splitting a node of two items.\<close>

lemma cleve_pair:
  assumes p: "part_ok p" and x: "length (encode x) < 2 ^ 34" and s: "0 < s" "s \<le> length p"
  shows "yields (cleve ops sha3 (encode (pair_item leaf p x)) s) L
    (encode (pair_item False (take s p) (ref_item sha3 (pair_item leaf (drop s p) x)))) (hashed (pair_item leaf (drop s p) x))"
proof -
  note fits = length_pair [OF p x]
  have key: "key_ok p" using p by (simp add: part_ok_def)
  let ?k = "keyOf (hp leaf p)" and ?bottom = "pair_item leaf (drop s p) x"
  have b: "rlp_fits ?bottom" using p x by (intro length_pair) simp_all
  have hp: "hexPrefixEncode ?k leaf s (-1) = hp leaf (drop s p)" "hexPrefixEncode ?k False 0 (int s) = hp False (take s p)"
    using hexPrefixEncode_hp [of s "length p" ?k "-1" leaf] hexPrefixEncode_hp [of 0 s ?k "int s" False] s p
    by (simp_all add: keyOf_part)
  have result: "tlift (stream_of 2 [append_item (RData (hp False (take s p))), append_item (ref_item sha3 ?bottom)]) d =
      (Inr (encode (pair_item False (take s p) (ref_item sha3 ?bottom))), d)" for d :: 'd
    using p by (intro stream_pair fits_pair_ref) simp
  show ?thesis
    unfolding cleve_def
    using fits key s p b
    by (intro yields_kill)
      (simp add: pair_pure hp str_item keyOf_part pure_pair pure_pair(3) [OF b] yields_last [OF yields_stream [OF b]] result)
qed

text \<open>A node of two items becomes one of seventeen.\<close>

lemma branch_leaf:
  assumes p: "part_ok p" and w: "length w < 2 ^ 32"
  shows "yields (branch ops sha3 (encode (node_item sha3 (TLeaf p w)))) L
    (encode (node_item sha3 (TBranch (leaf_children p w) (leaf_slot p w)))) (leaf_log sha3 p w)"
proof -
  have key: "key_ok p" using p by (simp add: part_ok_def)
  have fits: "rlp_fits (pair_item True p (RData w))" "rlp_fits (pair_item True (tl p) (RData w))"
    using p w by (simp_all add: fits_pair_data)
  have form: "rlp_fits (node_item sha3 (TBranch (leaf_children p w) (leaf_slot p w)))"
    by (rule node_fits [OF fit_children(1) [OF p w]])
  show ?thesis
  proof (cases "p = []")
    case True
    then have "node_item sha3 (TBranch (leaf_children p w) (leaf_slot p w)) = RList (replicate 16 (RData []) @ [RData w])"
      by (simp add: leaf_children_def leaf_slot_def)
    moreover have "ns_size (keyOf (hp True [])) = 0" using keyOf_part(3) [OF p] True by simp
    ultimately show ?thesis
      unfolding branch_def using form True fits(1) key
      by (intro yields_kill) (simp add: pair_pure pure_pair(3) pure_branch(5) str_item leaf_log_def)
  next
    case False
    let ?c = "TLeaf (tl p) w" and ?i = "unat (hd p)"
    have f: "node_item sha3 (TBranch (leaf_children p w) (leaf_slot p w)) = RList ((replicate 17 (RData []))[?i := ref_item sha3 (node_item sha3 ?c)])"
      unfolding form_one_child [OF part_hd [OF p False], symmetric] using False by (simp add: leaf_children_def leaf_slot_def)
    show ?thesis
      unfolding branch_def f using form [unfolded f] False fits key
      by (intro yields_kill)
        (simp add: pair_pure keyOf_part [OF p] keyOf_first [OF p] pure_pair(3) pure_pair(1) keyOf_rest [OF p] str_item
          hexPrefixEncode_all leaf_log_def slot_writers pure_branch(5) yields_last [OF yields_stream])
  qed
qed

lemma branch_ext:
  assumes p: "part_ok p" "p \<noteq> []" and t: "t_fit t"
  shows "yields (branch ops sha3 (encode (node_item sha3 (TExt p t)))) L
    (encode (node_item sha3 (TBranch (ext_children p t) []))) (ext_log sha3 p t)"
proof -
  have key: "key_ok p" using p by (simp add: part_ok_def)
  let ?x = "ref_item sha3 (node_item sha3 t)" and ?i = "unat (hd p)"
  let ?c = "if tl p = [] then t else TExt (tl p) t"
  have fits: "rlp_fits (pair_item False p ?x)" "rlp_fits (pair_item False (tl p) ?x)" using p by (simp_all add: fits_pair_ref)
  have form: "rlp_fits (node_item sha3 (TBranch (ext_children p t) []))" by (rule node_fits [OF fit_children(2) [OF p t]])
  have f: "node_item sha3 (TBranch (ext_children p t) []) = RList ((replicate 17 (RData []))[?i := ref_item sha3 (node_item sha3 ?c)])"
    unfolding form_one_child [OF part_hd [OF p], symmetric] by (simp add: ext_children_def)
  have size: "ns_size (keyOf (hp False p)) > 1 \<longleftrightarrow> tl p \<noteq> []" "length p \<noteq> 0"
    using p by (cases p; simp add: keyOf_part)+
  have raw: "appendRaw (encode ?x) (Suc 0) = append_item ?x" using raw_item [OF small_fits [OF small_ref]] by simp
  show ?thesis
    unfolding branch_def f using form [unfolded f] fits key size
    by (intro yields_kill; cases "tl p = []")
      (simp_all add: pair_pure keyOf_part(3) [OF p(1)] keyOf_first [OF p] pure_pair(3) pure_pair(1) keyOf_rest [OF p] str_item
        hexPrefixEncode_all ext_log_def slot_writers pure_branch(5) yields_last [OF yields_stream] raw)
qed

text \<open>Merging into the node behind a reference.\<close>

lemma merge_child:
  assumes fit: "t_fit c" "t_fit c'" and held: "held sha3 L (hashed (node_item sha3 c))"
    and merge: "\<And>inl. yields (merge (encode (node_item sha3 c)) inl) L (encode (node_item sha3 c')) cs"
  shows "yields (mergeAtAux ops sha3 merge (encode (ref_item sha3 (node_item sha3 c)))) L
    (append_item (ref_item sha3 (node_item sha3 c'))) (cs @ hashed (node_item sha3 c'))"
proof -
  let ?it = "node_item sha3 c"
  have fits: "rlp_fits ?it" "rlp_fits (node_item sha3 c')" using fit by (simp_all add: node_fits)
  have after: "yields (ebind (merge (encode ?it) inl) (streamNode ops sha3)) L
      (append_item (ref_item sha3 (node_item sha3 c'))) (cs @ hashed (node_item sha3 c'))" for inl
    by (rule yields_bind [OF merge]) (rule yields_stream [OF fits(2)])
  show ?thesis
  proof (cases "length (encode ?it) < 32")
    case True
    have "isList (encode ?it) \<or> rlp_isEmpty (encode ?it)"
      using fits(1) by (cases c) (simp_all add: isEmpty_data pair_items(6) isList_encode)
    moreover have "ref_item sha3 ?it = ?it" using True by (simp add: ref_item_def)
    ultimately show ?thesis using after [of True] by (cases "isList (encode ?it)") (simp_all add: mergeAtAux_def)
  next
    case False
    let ?r = "encode (ref_item sha3 ?it)"
    have ref: "\<not> isList ?r" "\<not> rlp_isEmpty ?r"
      using False isData_encode [OF small_fits [OF small_data]] length_toBigEndian [of 32 "unat (sha3 (encode ?it))"]
      by (auto simp: ref_item_def isEmpty_data simp del: length_toBigEndian)
    have "L (sha3 (encode ?it)) = encode ?it" using held False by (simp add: held_def hashed_def)
    from yields_deref [where L = L and f = "\<lambda>r. if isNull r then ethrow Trie_assert else ereturn (r, True)", OF fits(1) False this]
    have "yields (ebind (thash ?r) (\<lambda>h. ebind (tnode ops h) (\<lambda>s. ebind (tRLP s) (\<lambda>r.
        if isNull r then ethrow Trie_assert else ereturn (r, True))))) L (encode ?it, True) []"
      by (simp add: isNull_def encode_not_Nil)
    from yields_bind [OF this, of "\<lambda>(r, isRemovable). ebind (merge r (\<not> isRemovable)) (streamNode ops sha3)"] after ref
    show ?thesis by (simp add: mergeAtAux_def)
  qed
qed

text \<open>One step of \<^verbatim>\<open>mergeAt\<close>: into an extension, into a child of a branch, and the two ways to split.\<close>

lemma merge_ext:
  assumes p: "part_ok p" and pre: "take (length p) (nibbles k) = p" and fit: "t_fit c" "t_fit c'"
    and held: "held sha3 L (hashed (node_item sha3 c))"
    and merge: "\<And>inl h. yields (mergeAt ops sha3 n (encode (node_item sha3 c)) h (ns_mid k (length p)) v inl) L
      (encode (node_item sha3 c')) cs"
  shows "yields (mergeAt ops sha3 (Suc n) (encode (node_item sha3 (TExt p c))) h k v inl) L
    (encode (node_item sha3 (TExt p c'))) (cs @ hashed (node_item sha3 c'))"
proof -
  let ?orig = "pair_item False p (ref_item sha3 (node_item sha3 c))"
  have fits: "rlp_fits ?orig" "rlp_fits (pair_item False p (ref_item sha3 (node_item sha3 c')))"
    using p by (simp_all add: fits_pair_ref)
  have key: "key_ok p" using p by (simp add: part_ok_def)
  have "ns_contains k (keyOf (hp False p))" using pre p by (simp add: ns_contains_prefix keyOf_part)
  moreover have "appendRaw (encode (RData (hp False p))) (Suc 0) = append_item (RData (hp False p))"
    using pure_pair(2) [OF fits(1)] by (simp add: raws_def)
  moreover note child = merge_child [where merge = "\<lambda>r. mergeAt ops sha3 n r (sha3 r) (ns_mid k (length p)) v", OF fit held merge]
  ultimately show ?thesis
    using fits key
    by (simp add: pair_pure keyOf_part [OF p] yields_when_kill yields_last [OF child] pure_pair(1))
qed

lemma merge_branch:
  assumes cs: "length cs = 16" "t_fit (TBranch cs s)" and k: "nibbles k = m # k'" "unat m < 16" and c': "t_fit c'"
    and held: "held sha3 L (hashed (node_item sha3 (cs ! unat m)))"
    and merge: "\<And>inl h. yields (mergeAt ops sha3 n (encode (node_item sha3 (cs ! unat m))) h (ns_mid k 1) v inl) L
      (encode (node_item sha3 c')) log"
  shows "yields (mergeAt ops sha3 (Suc n) (encode (node_item sha3 (TBranch cs s))) h k v inl) L
    (encode (node_item sha3 (TBranch (cs[unat m := c']) s))) (log @ hashed (node_item sha3 c'))"
proof -
  let ?ref = "\<lambda>c. ref_item sha3 (node_item sha3 c)" and ?i = "unat m"
  have c: "t_fit (cs ! ?i)" using cs k(2) by simp
  have "t_fit (TBranch (cs[?i := c']) s)" using cs c' all_children_update [of cs t_fit c' ?i] by simp
  then have fits: "rlp_fits (RList (map ?ref cs @ [RData s]))" "rlp_fits (RList (map ?ref (cs[?i := c']) @ [RData s]))"
    using node_fits [of "TBranch cs s" sha3] node_fits [of "TBranch (cs[?i := c']) s" sha3] cs(2) by simp_all
  have size: "ns_size k \<noteq> 0" "ns_at k 0 = m" using k ns_at_nibbles [of k] length_nibbles [of k] by (auto simp del: length_nibbles)
  have nth: "map encode (map ?ref cs @ [RData s]) ! ?i = encode (?ref (cs ! ?i))" using cs(1) k(2) by (simp add: nth_append)
  have upd: "(map append_item (map ?ref cs @ [RData s]))[?i := append_item (?ref c')] = map append_item (map ?ref (cs[?i := c']) @ [RData s])"
    using cs(1) k(2) by (simp add: list_update_append1 map_update)
  note child = merge_child [where merge = "\<lambda>r. mergeAt ops sha3 n r (sha3 r) (ns_mid k 1) v", OF c c' held merge]
  have len: "length (map ?ref cs @ [RData s]) = 17" "length (map ?ref (cs[?i := c']) @ [RData s]) = 17" using cs(1) by simp_all
  note read = pure_branch [OF fits(1) len(1)] and writes = pure_branch(5) [OF fits(2) len(2) upd]
  show ?thesis
    unfolding mergeAt.simps(2) node_item.simps if_not_P [OF read(4)] read(1) then_return if_not_P [OF size(1)] size(2)
      read(2) nth read(6)
    by (simp del: One_nat_def map_append, intro yields_when_kill yields_last [OF child]) (simp add: writes del: map_append)
qed

lemma merge_cleve:
  assumes p: "part_ok p" and x: "length (encode x) < 2 ^ 34" and s: "lcp (nibbles k) p \<noteq> 0"
    and other: "if leaf then nibbles k \<noteq> p else take (length p) (nibbles k) \<noteq> p"
    and next_step: "yields (mergeAt ops sha3 n (encode (pair_item False (take (lcp (nibbles k) p) p) (ref_item sha3 b)))
      (sha3 (encode (pair_item False (take (lcp (nibbles k) p) p) (ref_item sha3 b)))) k v True) (put_all sha3 (hashed b) L) y log"
    and b: "b = pair_item leaf (drop (lcp (nibbles k) p) p) x"
  shows "yields (mergeAt ops sha3 (Suc n) (encode (pair_item leaf p x)) h k v inl) L y (hashed b @ log)"
proof -
  let ?s = "lcp (nibbles k) p" and ?k = "keyOf (hp leaf p)"
  let ?next = "pair_item False (take ?s p) (ref_item sha3 b)"
  note fits = length_pair [OF p x]
  have key: "key_ok p" using p by (simp add: part_ok_def)
  have cleved: "yields (cleve ops sha3 (encode (pair_item leaf p x)) ?s) L (encode ?next) (hashed b)"
    unfolding b using s lcp_le(2) [of "nibbles k" p] by (intro cleve_pair [OF p x]) simp_all
  have fits_next: "rlp_fits ?next" using p by (simp add: fits_pair_ref)
  have step: "yields (ebind (cleve ops sha3 (encode (pair_item leaf p x)) ?s) (\<lambda>cleved. ebind (tRLP cleved) (\<lambda>r.
      mergeAt ops sha3 n r (sha3 r) k v True))) L y (hashed b @ log)"
    by (intro yields_bind [OF cleved]) (simp only: pure_RLP [OF fits_next] then_return next_step)
  have "\<not> (ns_eq ?k k \<and> leaf)" "\<not> (ns_contains k ?k \<and> \<not> leaf)" "ns_shared k ?k = ?s"
    using other p by (auto simp: ns_eq_nibbles ns_contains_prefix ns_shared_lcp keyOf_part split: if_splits)
  with step s fits key show ?thesis by (cases leaf) (simp_all add: pair_pure)
qed

lemma merge_split:
  assumes p: "part_ok p" and x: "length (encode x) < 2 ^ 34" and s: "lcp (nibbles k) p = 0"
    and other: "if leaf then nibbles k \<noteq> p else take (length p) (nibbles k) \<noteq> p"
    and branch: "yields (branch ops sha3 (encode (pair_item leaf p x))) L (encode b) log" and b: "rlp_fits b"
    and next_step: "yields (mergeAt ops sha3 n (encode b) (sha3 (encode b)) k v True) (put_all sha3 log L) y log'"
  shows "yields (mergeAt ops sha3 (Suc n) (encode (pair_item leaf p x)) h k v inl) L y (log @ log')"
proof -
  let ?k = "keyOf (hp leaf p)"
  note fits = length_pair [OF p x]
  have key: "key_ok p" using p by (simp add: part_ok_def)
  have step: "yields (ebind (branch ops sha3 (encode (pair_item leaf p x))) (\<lambda>branched. ebind (tRLP branched) (\<lambda>r.
      mergeAt ops sha3 n r (sha3 r) k v True))) L y (log @ log')"
    by (intro yields_bind [OF branch]) (simp only: pure_RLP [OF b] then_return next_step)
  have "\<not> (ns_eq ?k k \<and> leaf)" "\<not> (ns_contains k ?k \<and> \<not> leaf)" "ns_shared k ?k = 0"
    using other p s by (auto simp: ns_eq_nibbles ns_contains_prefix ns_shared_lcp keyOf_part split: if_splits)
  with step s fits key show ?thesis by (cases leaf) (simp_all add: pair_pure)
qed

lemma merge_value:
  assumes "t_fit (TBranch cs s)" and "length v < 2 ^ 32" and "nibbles k = []"
  shows "yields (mergeAt ops sha3 (Suc n) (encode (node_item sha3 (TBranch cs s))) h k v inl) L
    (encode (node_item sha3 (TBranch cs v))) []"
proof -
  let ?cs = "map (\<lambda>c. ref_item sha3 (node_item sha3 c)) cs"
  have fits: "length ?cs = 16" "rlp_fits (RList (?cs @ [RData s]))" "rlp_fits (RList (?cs @ [RData v]))"
    using assms node_fits [of "TBranch cs s" sha3] node_fits [of "TBranch cs v" sha3] by simp_all
  have "ns_size k = 0" using assms(3) length_nibbles [of k] by (simp del: length_nibbles)
  with place_branch [OF fits, of k L] fits(1) show ?thesis by (simp add: pure_branch(1,4) [OF fits(2)])
qed

lemma merge_same:
  assumes "part_ok p" and "length w < 2 ^ 32" and "length v < 2 ^ 32" and "nibbles k = p"
  shows "yields (mergeAt ops sha3 (Suc n) (encode (node_item sha3 (TLeaf p w))) h k v inl) L
    (encode (node_item sha3 (TLeaf p v))) []"
proof -
  have fits: "rlp_fits (pair_item True p (RData w))" "rlp_fits (pair_item True p (RData v))"
    using assms by (simp_all add: fits_pair_data)
  have "key_ok p" "ns_eq (keyOf (hp True p)) k" using assms by (simp_all add: part_ok_def ns_eq_nibbles keyOf_part)
  with place_leaf [OF fits] fits(1) show ?thesis by (simp add: pair_pure)
qed

subsection \<open>Insertion\<close>

text \<open>The two ways to split, with the step after them.\<close>

lemma cleve_into:
  assumes p: "part_ok p" and x: "length (encode x) < 2 ^ 34" and s: "lcp (nibbles k) p = s" "s \<noteq> 0"
    and other: "if leaf then nibbles k \<noteq> p else take (length p) (nibbles k) \<noteq> p"
    and c: "node_item sha3 c = pair_item leaf (drop s p) x" "t_fit c" "t_fit c'"
    and inj: "inj_on sha3 S" "set (hashed (node_item sha3 c)) \<subseteq> S"
    and merge: "\<And>inl h. yields (mergeAt ops sha3 n (encode (node_item sha3 c)) h (ns_mid k s) v inl)
      (put_all sha3 (hashed (node_item sha3 c)) L) (encode (node_item sha3 c')) log"
  shows "yields (mergeAt ops sha3 (Suc (Suc n)) (encode (pair_item leaf p x)) h k v inl) L
    (encode (node_item sha3 (TExt (take s p) c'))) (hashed (node_item sha3 c) @ log @ hashed (node_item sha3 c'))"
proof -
  let ?L = "put_all sha3 (hashed (node_item sha3 c)) L"
  have len: "length (take s p) = s" using lcp_le(2) [of "nibbles k" p] s by simp
  have held: "held sha3 ?L (hashed (node_item sha3 c))" by (rule held_put [OF inj inj(2)]) simp
  have "yields (mergeAt ops sha3 (Suc n) (encode (node_item sha3 (TExt (take s p) c))) h k v True) ?L
      (encode (node_item sha3 (TExt (take s p) c'))) (log @ hashed (node_item sha3 c'))" for h
    using p lcp_take [of "nibbles k" p] s merge
    by (intro merge_ext c held) (simp_all only: len part_ok_take)
  then show ?thesis
    using merge_cleve [OF p x _ other, of "Suc n" "node_item sha3 c" v L _ "log @ hashed (node_item sha3 c')" h inl] s c(1)
    by (simp del: mergeAt.simps)
qed

lemma split_into:
  assumes p: "part_ok p" and x: "length (encode x) < 2 ^ 34" and s: "lcp (nibbles k) p = 0"
    and other: "if leaf then nibbles k \<noteq> p else take (length p) (nibbles k) \<noteq> p"
    and branch: "yields (branch ops sha3 (encode (pair_item leaf p x))) L (encode (node_item sha3 (TBranch cs u))) log"
    and cs: "t_fit (TBranch cs u)" and v: "length v < 2 ^ 32" "part_ok (nibbles k)"
  shows "nibbles k = [] \<Longrightarrow> yields (mergeAt ops sha3 (Suc (Suc n)) (encode (pair_item leaf p x)) h k v inl) L
      (encode (node_item sha3 (TBranch cs v))) log" (is "_ \<Longrightarrow> ?empty")
    and "nibbles k = m # k' \<Longrightarrow> cs ! unat m = TEmpty \<Longrightarrow> 0 < n \<Longrightarrow>
      yields (mergeAt ops sha3 (Suc (Suc n)) (encode (pair_item leaf p x)) h k v inl) L
      (encode (node_item sha3 (TBranch (cs[unat m := TLeaf k' v]) u))) (log @ hashed (node_item sha3 (TLeaf k' v)))"
      (is "_ \<Longrightarrow> _ \<Longrightarrow> _ \<Longrightarrow> ?child")
proof -
  note step = merge_split [OF p x s other branch node_fits [OF cs]]
  show ?empty if "nibbles k = []"
    using step [of "Suc n" v _ "[]"] merge_value [OF cs v(1) that] by (simp del: mergeAt.simps)
  show ?child if k: "nibbles k = m # k'" and child: "cs ! unat m = TEmpty" and "0 < n"
  proof -
    have k': "part_ok k'" "unat m < 16" "length cs = 16" using part_key [of m k'] v(2) cs k by simp_all
    have mid: "nibbles (ns_mid k 1) = k'" using nibbles_mid [of 1 k] k length_nibbles [of k] by (simp del: length_nibbles)
    obtain l where n: "n = Suc l" using \<open>0 < n\<close> by (cases n) auto
    have "yields (mergeAt ops sha3 n (encode (RData [])) h (ns_mid k 1) v inl) L'
        (encode (node_item sha3 (TLeaf k' v))) []" for h inl L'
      using place_empty [of "ns_mid k 1" v L'] k'(1) v(1) by (simp add: n mid [simplified] isEmpty_data)
    then have "yields (mergeAt ops sha3 (Suc n) (encode (node_item sha3 (TBranch cs u))) h k v True) (put_all sha3 log L)
        (encode (node_item sha3 (TBranch (cs[unat m := TLeaf k' v]) u))) ([] @ hashed (node_item sha3 (TLeaf k' v)))" for h
      using k' v by (intro merge_branch [OF k'(3) cs k]) (simp_all add: child held_def hashed_def encode.simps header_def del: mergeAt.simps)
    then show ?child by (intro step) simp
  qed
qed

text \<open>\<^verbatim>\<open>mergeAt\<close> with this fuel inserts into the tree.\<close>

definition merges :: "nat \<Rightarrow> byte list \<Rightarrow> bytes \<Rightarrow> trie \<Rightarrow> bool" where
  "merges fuel ks v t \<longleftrightarrow> (\<forall>k L h inl. nibbles k = ks \<and> held sha3 L (t_nodes sha3 t) \<longrightarrow>
     yields (mergeAt ops sha3 fuel (encode (node_item sha3 t)) h k v inl) L
       (encode (node_item sha3 (t_insert ks v t))) (ins_log sha3 ks v t))"

lemma merges_leaf:
  assumes fit: "t_fit (TLeaf p w)" and ks: "part_ok ks" "length v < 2 ^ 32" and n: "2 * length ks \<le> n"
    and inj: "inj_on sha3 S" "set (ins_log sha3 ks v (TLeaf p w)) \<subseteq> S"
    and rec: "ks \<noteq> p \<Longrightarrow> lcp ks p \<noteq> 0 \<Longrightarrow> merges n (drop (lcp ks p) ks) v (TLeaf (drop (lcp ks p) p) w)"
  shows "merges (Suc (Suc n)) ks v (TLeaf p w)"
  unfolding merges_def
proof (intro allI impI)
  fix k L h inl
  assume k: "nibbles k = ks \<and> held sha3 L (t_nodes sha3 (TLeaf p w))"
  let ?s = "lcp ks p"
  have p: "part_ok p" "length w < 2 ^ 32" "length (encode (RData w)) < 2 ^ 34"
    using fit length_encode_data [of w] by auto
  note branch = split_into [where leaf = True and x = "RData w", OF p(1,3) _ _ _ fit_children(1) [OF p(1,2)] ks(2)]
  note branched = branch_leaf [OF p(1,2), unfolded node_item.simps(2)]
  consider "ks = p" | "ks \<noteq> p" "?s \<noteq> 0" | "ks \<noteq> p" "?s = 0" "ks = []" | m k' where "ks \<noteq> p" "?s = 0" "ks = m # k'"
    by (cases ks) auto
  then show "yields (mergeAt ops sha3 (Suc (Suc n)) (encode (node_item sha3 (TLeaf p w))) h k v inl) L
      (encode (node_item sha3 (t_insert ks v (TLeaf p w)))) (ins_log sha3 ks v (TLeaf p w))"
  proof cases
    case 1
    with merge_same [OF p(1,2) ks(2), of k] k show ?thesis by (simp add: t_insert_leaf ins_log_leaf del: mergeAt.simps)
  next
    case 2
    let ?c = "TLeaf (drop ?s p) w" and ?k = "drop ?s ks"
    have log: "set (hashed (node_item sha3 ?c)) \<subseteq> S" using inj(2) by (auto simp: ins_log_leaf(2) [OF 2])
    have c: "t_fit ?c" "part_ok ?k" "nibbles (ns_mid k ?s) = ?k"
      using p ks k lcp_le(1) [of ks p] nibbles_mid [of ?s k] by auto
    have "yields (mergeAt ops sha3 n (encode (node_item sha3 ?c)) h (ns_mid k ?s) v inl) L' (encode (node_item sha3 (t_insert ?k v ?c)))
        (ins_log sha3 ?k v ?c)" for inl h L'
      using rec [OF 2] c(3) by (simp add: merges_def held_def)
    from cleve_into [where leaf = True and c = ?c, OF p(1,3) _ _ _ _ c(1) fit_insert [OF c(1,2) ks(2)] inj(1) log this]
    show ?thesis using 2 k unfolding t_insert_leaf(2) [OF 2] ins_log_leaf(2) [OF 2] by (simp del: mergeAt.simps)
  next
    case 3
    with branch(1) [OF _ _ branched] ks k show ?thesis by (simp add: t_insert_leaf(3) ins_log_leaf(3) del: mergeAt.simps)
  next
    case 4
    have "leaf_children p w ! unat m = TEmpty" "0 < n" using split_child(1) [OF p(1), of m k' w] ks n 4 part_key [of m k'] by auto
    with branch(2) [OF _ _ branched] ks k 4 show ?thesis
      by (simp add: t_insert_leaf(4) ins_log_leaf(4) t_insert.simps(1) ins_log.simps(1) del: mergeAt.simps)
  qed
qed

lemma merges_ext:
  assumes fit: "t_fit (TExt p t)" and ks: "part_ok ks" "length v < 2 ^ 32" and n: "2 * length ks \<le> n"
    and inj: "inj_on sha3 S" "set (ins_log sha3 ks v (TExt p t)) \<subseteq> S" "set (t_nodes sha3 (TExt p t)) \<subseteq> S"
    and rec: "take (length p) ks = p \<Longrightarrow> merges (Suc n) (drop (length p) ks) v t"
      "take (length p) ks \<noteq> p \<Longrightarrow> lcp ks p \<noteq> 0 \<Longrightarrow> merges n (drop (lcp ks p) ks) v (TExt (drop (lcp ks p) p) t)"
  shows "merges (Suc (Suc n)) ks v (TExt p t)"
  unfolding merges_def
proof (intro allI impI)
  fix k L h inl
  assume k: "nibbles k = ks \<and> held sha3 L (t_nodes sha3 (TExt p t))"
  let ?s = "lcp ks p" and ?x = "ref_item sha3 (node_item sha3 t)"
  have p: "part_ok p" "p \<noteq> []" "t_fit t" "length (encode ?x) < 2 ^ 34" using fit length_ref_item [of sha3 "node_item sha3 t"] by auto
  note branch = split_into [where leaf = False and x = ?x, OF p(1,4) _ _ _ fit_children(2) [OF p(1-3)] ks(2)]
  note branched = branch_ext [OF p(1-3), unfolded node_item.simps(3)]
  consider "take (length p) ks = p" | "take (length p) ks \<noteq> p" "?s \<noteq> 0" | "take (length p) ks \<noteq> p" "?s = 0" "ks = []"
    | m k' where "take (length p) ks \<noteq> p" "?s = 0" "ks = m # k'" by (cases ks) auto
  then show "yields (mergeAt ops sha3 (Suc (Suc n)) (encode (node_item sha3 (TExt p t))) h k v inl) L
      (encode (node_item sha3 (t_insert ks v (TExt p t)))) (ins_log sha3 ks v (TExt p t))"
  proof cases
    case 1
    have mid: "nibbles (ns_mid k (length p)) = drop (length p) ks"
      using 1 k nibbles_mid [of "length p" k] by (metis length_nibbles length_take min.cobounded1)
    have "yields (mergeAt ops sha3 (Suc n) (encode (node_item sha3 t)) h (ns_mid k (length p)) v inl) L
        (encode (node_item sha3 (t_insert (drop (length p) ks) v t))) (ins_log sha3 (drop (length p) ks) v t)" for h inl
      using rec(1) [OF 1] k mid unfolding merges_def by simp
    then show ?thesis unfolding t_insert_ext(1) [OF 1] ins_log_ext(1) [OF 1]
      using 1 k ks p by (intro merge_ext) (auto intro: fit_insert)
  next
    case 2
    let ?c = "TExt (drop ?s p) t" and ?k = "drop ?s ks"
    have ne: "drop ?s p \<noteq> []" using 2 lcp_le(2) [of ks p] lcp_eq_length [of ks p] by auto
    have log: "set (hashed (node_item sha3 ?c)) \<subseteq> S" using inj(2) by (auto simp: ins_log_ext(2) [OF 2])
    have c: "t_fit ?c" "part_ok ?k" "nibbles (ns_mid k ?s) = ?k"
      using p ne ks k lcp_le(1) [of ks p] nibbles_mid [of ?s k] by auto
    have "held sha3 (put_all sha3 (hashed (node_item sha3 ?c)) L) (t_nodes sha3 ?c)"
      using k inj(3) by (intro held_put [OF inj(1) log]) simp_all
    then have "yields (mergeAt ops sha3 n (encode (node_item sha3 ?c)) h (ns_mid k ?s) v inl)
        (put_all sha3 (hashed (node_item sha3 ?c)) L) (encode (node_item sha3 (t_insert ?k v ?c))) (ins_log sha3 ?k v ?c)" for inl h
      using rec(2) [OF 2] c(3) unfolding merges_def by blast
    from cleve_into [where leaf = False and c = ?c, OF p(1,4) _ _ _ _ c(1) fit_insert [OF c(1,2) ks(2)] inj(1) log this]
    show ?thesis using 2 k unfolding t_insert_ext(2) [OF 2] ins_log_ext(2) [OF 2] by (simp del: mergeAt.simps)
  next
    case 3
    with branch(1) [OF _ _ branched] p(2) ks k show ?thesis by (simp add: t_insert_ext(3) ins_log_ext(3) del: mergeAt.simps)
  next
    case 4
    have "ext_children p t ! unat m = TEmpty" "0 < n" using split_child(2) [OF p(1), of m k' t] p(2) ks n 4 part_key [of m k'] by auto
    with branch(2) [OF _ _ branched] ks k 4 show ?thesis
      by (simp add: t_insert_ext(4) ins_log_ext(4) t_insert.simps(1) ins_log.simps(1) del: mergeAt.simps)
  qed
qed

lemma merges_branch:
  assumes fit: "t_fit (TBranch cs s)" and ks: "part_ok ks" "length v < 2 ^ 32"
    and rec: "\<And>m k'. ks = m # k' \<Longrightarrow> merges n k' v (cs ! unat m)"
  shows "merges (Suc n) ks v (TBranch cs s)"
  unfolding merges_def
proof (intro allI impI)
  fix k L h inl
  assume k: "nibbles k = ks \<and> held sha3 L (t_nodes sha3 (TBranch cs s))"
  show "yields (mergeAt ops sha3 (Suc n) (encode (node_item sha3 (TBranch cs s))) h k v inl) L
      (encode (node_item sha3 (t_insert ks v (TBranch cs s)))) (ins_log sha3 ks v (TBranch cs s))"
  proof (cases ks)
    case Nil
    with merge_value [OF fit ks(2)] k show ?thesis by (simp add: t_insert_branch ins_log_branch del: mergeAt.simps)
  next
    case (Cons m k')
    with fit ks have c: "unat m < 16" "length cs = 16" "part_ok k'" "t_fit (cs ! unat m)" using part_key [of m k'] by simp_all
    have mid: "nibbles (ns_mid k 1) = k'" using nibbles_mid [of 1 k] k Cons length_nibbles [of k] by (simp del: length_nibbles)
    have held: "held sha3 L (hashed (node_item sha3 (cs ! unat m)) @ t_nodes sha3 (cs ! unat m))"
      using k nodes_child [of "unat m" cs sha3 s] c held_sub by fastforce
    have "yields (mergeAt ops sha3 n (encode (node_item sha3 (cs ! unat m))) h (ns_mid k 1) v inl) L
        (encode (node_item sha3 (t_insert k' v (cs ! unat m)))) (ins_log sha3 k' v (cs ! unat m))" for h inl
      using rec [OF Cons] held mid unfolding merges_def by simp
    with held show ?thesis unfolding Cons t_insert_branch ins_log_branch
      using k Cons c ks by (intro merge_branch [OF _ fit]) (auto intro: fit_insert)
  qed
qed

lemma merge_yields:
  assumes inj: "inj_on sha3 S"
  shows "t_fit t \<Longrightarrow> part_ok ks \<Longrightarrow> length v < 2 ^ 32 \<Longrightarrow> 2 * length ks + 2 \<le> fuel \<Longrightarrow>
    set (t_nodes sha3 t) \<subseteq> S \<Longrightarrow> set (ins_log sha3 ks v t) \<subseteq> S \<Longrightarrow> merges fuel ks v t"
proof (induction ks v t arbitrary: fuel rule: t_insert.induct)
  case (1 ks v)
  then obtain n where "fuel = Suc n" by (cases fuel) auto
  with 1 place_empty show ?case by (auto simp: merges_def t_insert_rules ins_log_rules isEmpty_data)
next
  case (2 ks v p w)
  from "2.prems"(4) obtain n where fuel: "fuel = Suc (Suc n)" "2 * length ks \<le> n" by (cases fuel; cases "fuel - 1") auto
  have "merges n (drop (lcp ks p) ks) v (TLeaf (drop (lcp ks p) p) w)" if "ks \<noteq> p" "lcp ks p \<noteq> 0"
    using "2.prems" fuel that lcp_le(1) [of ks p] by (intro "2.IH"(1) [OF that]) (auto simp: ins_log_leaf(2) [OF that])
  with "2.prems" fuel inj show ?case unfolding fuel(1) by (intro merges_leaf [of p w ks v n S]) auto
next
  case (3 ks v p t)
  from "3.prems"(4) obtain n where fuel: "fuel = Suc (Suc n)" "2 * length ks \<le> n" by (cases fuel; cases "fuel - 1") auto
  have "merges (Suc n) (drop (length p) ks) v t" if "take (length p) ks = p"
  proof -
    have "0 < length p" "length p \<le> length ks" using "3.prems"(1) that by auto (metis length_take min.cobounded1)
    then have "2 * length (drop (length p) ks) + 2 \<le> Suc n" using fuel(2) by (simp only: length_drop)
    then show ?thesis using "3.prems" by (intro "3.IH"(1) [OF that]) (auto simp: ins_log_ext(1) [OF that])
  qed
  moreover have "merges n (drop (lcp ks p) ks) v (TExt (drop (lcp ks p) p) t)" if "take (length p) ks \<noteq> p" "lcp ks p \<noteq> 0"
  proof -
    have "drop (lcp ks p) p \<noteq> []" using that lcp_le(2) [of ks p] lcp_eq_length [of ks p] by auto
    then show ?thesis
      using "3.prems" fuel that lcp_le(1) [of ks p] by (intro "3.IH"(2) [OF that]) (auto simp: ins_log_ext(2) [OF that])
  qed
  ultimately show ?case using "3.prems" fuel inj unfolding fuel(1) by (intro merges_ext [of p t ks v n S]) auto
next
  case (4 ks v cs s)
  from "4.prems"(4) obtain n where fuel: "fuel = Suc n" "2 * length ks < n" by (cases fuel) auto
  have "merges n k' v (cs ! unat m)" if "ks = m # k'" for m k'
  proof -
    have m: "unat m < length cs" "part_ok k'" "t_fit (cs ! unat m)" using "4.prems" part_key [of m k'] that by auto
    then show ?thesis
      using "4.prems" fuel that nodes_child [OF m(1), of sha3 s] by (intro "4.IH" [OF that]) (auto simp: ins_log_branch simp del: t_nodes.simps)
  qed
  with "4.prems" show ?case unfolding fuel(1) by (intro merges_branch) auto
qed

subsection \<open>Lookup\<close>

lemma yields_follow:
  assumes fit: "t_fit c" "c \<noteq> TEmpty" and held: "held sha3 L (hashed (node_item sha3 c))"
    and rest: "yields (f (encode (node_item sha3 c))) L y log"
  shows "yields (ebind (follow ops (encode (ref_item sha3 (node_item sha3 c)))) f) L y log"
proof -
  let ?it = "node_item sha3 c"
  have fits: "rlp_fits ?it" using fit by (simp add: node_fits)
  show ?thesis
  proof (cases "length (encode ?it) < 32")
    case True
    have "isList (encode ?it)" using fits fit(2) by (cases c) (simp_all add: pair_items(6) isList_encode)
    with True rest show ?thesis by (simp add: follow_def ref_item_def)
  next
    case False
    have "\<not> isList (encode (ref_item sha3 ?it))"
      using False isData_encode [OF small_fits [OF small_data]] by (simp add: ref_item_def)
    moreover have "yields (follow ops (encode (ref_item sha3 ?it))) L (encode ?it) []" if "\<not> isList (encode (ref_item sha3 ?it))"
      using yields_deref [where L = L and f = ereturn and it = ?it] that fits False held
      by (simp add: follow_def held_def hashed_def ebind_return)
    ultimately show ?thesis using yields_bind [where f = f and cs = log and y = y] rest by fastforce
  qed
qed

lemma at_yields:
  "t_ok t \<Longrightarrow> t_fit t \<Longrightarrow> part_ok (nibbles k) \<Longrightarrow> held sha3 L (t_nodes sha3 t) \<Longrightarrow> length (nibbles k) < fuel \<Longrightarrow>
   yields (atAux ops fuel (encode (node_item sha3 t)) k) L (t_lookup t (nibbles k)) []"
proof (induction t arbitrary: k fuel)
  case TEmpty
  then show ?case by (cases fuel) (simp_all add: isEmpty_data)
next
  case (TLeaf p v)
  then obtain n where fuel: "fuel = Suc n" by (cases fuel) auto
  have p: "part_ok p" "key_ok p" "rlp_fits (pair_item True p (RData v))" using TLeaf.prems by (simp_all add: fits_pair_data part_ok_def)
  show ?case using p TLeaf.prems(2) by (simp add: fuel isNull_def encode_not_Nil pair_pure ns_eq_nibbles keyOf_part pure_string)
next
  case (TExt p t)
  then obtain n where fuel: "fuel = Suc n" by (cases fuel) auto
  let ?x = "ref_item sha3 (node_item sha3 t)"
  have p: "part_ok p" "key_ok p" "rlp_fits (pair_item False p ?x)" "t \<noteq> TEmpty" "p \<noteq> []"
    using TExt.prems by (auto simp: fits_pair_ref part_ok_def)
  show ?case
  proof (cases "take (length p) (nibbles k) = p")
    case True
    then have "length p \<le> ns_size k" by (metis length_nibbles length_take min.cobounded1)
    then have mid: "nibbles (ns_mid k (length p)) = drop (length p) (nibbles k)" by (rule nibbles_mid)
    have "0 < length p" using p(5) by simp
    then have len: "ns_size k - length p < n" using TExt.prems(5) fuel \<open>length p \<le> ns_size k\<close> by (simp only: length_nibbles)
    have "yields (atAux ops n (encode (node_item sha3 t)) (ns_mid k (length p))) L (t_lookup t (drop (length p) (nibbles k))) []"
      unfolding mid [symmetric] using TExt.prems len by (intro TExt.IH) (auto simp: mid ns_size_mid)
    from yields_follow [where f = "\<lambda>b. atAux ops n b (ns_mid k (length p))", OF _ p(4) _ this] TExt.prems p True fuel
    show ?thesis by (simp add: isNull_def encode_not_Nil pair_pure keyOf_part ns_contains_prefix)
  next
    case False
    then show ?thesis using p by (simp add: fuel isNull_def encode_not_Nil pair_pure keyOf_part ns_contains_prefix)
  qed
next
  case (TBranch cs v)
  then obtain n where fuel: "fuel = Suc n" by (cases fuel) auto
  let ?ts = "map (\<lambda>c. ref_item sha3 (node_item sha3 c)) cs @ [RData v]"
  have fits: "rlp_fits (RList ?ts)" "length ?ts = 17" "length cs = 16"
    using TBranch.prems node_fits [of "TBranch cs v" sha3] by simp_all
  note read = pure_branch(1,4) [OF fits(1,2)] pureI [OF titems_encode [OF fits(1)]]
  show ?case
  proof (cases "nibbles k")
    case Nil
    have "ns_size k = 0" using Nil length_nibbles [of k] by (simp del: length_nibbles)
    moreover have "?ts ! 16 = RData v" using fits(3) by (simp add: nth_append)
    ultimately show ?thesis
      using fits Nil TBranch.prems(2) by (simp add: fuel isNull_def encode_not_Nil read pure_string del: upt_rec_numeral)
  next
    case (Cons m k')
    then have m: "unat m < 16" "part_ok k'" using part_key [of m k'] TBranch.prems(3) by auto
    let ?c = "cs ! unat m"
    have k: "ns_size k \<noteq> 0" "ns_at k 0 = m" "nibbles (ns_mid k 1) = k'"
      using Cons ns_at_nibbles [of k] nibbles_mid [of 1 k] length_nibbles [of k] by (auto simp del: length_nibbles)
    have c: "t_ok ?c" "t_fit ?c" "?c \<in> set cs" using TBranch.prems fits(3) m by auto
    have held: "held sha3 L (hashed (node_item sha3 ?c) @ t_nodes sha3 ?c)"
      using TBranch.prems(4) nodes_child [of "unat m" cs sha3 v] m fits(3) held_sub by fastforce
    have nth: "?ts ! unat m = ref_item sha3 (node_item sha3 ?c)" using m fits(3) by (simp add: nth_append)
    have "length (nibbles (ns_mid k 1)) < n" using TBranch.prems(5) k(3) Cons fuel by (simp del: length_nibbles)
    with TBranch.IH [OF c(3,1,2), of "ns_mid k 1" n] held k m
    have sub: "yields (atAux ops n (encode (node_item sha3 ?c)) (ns_mid k 1)) L (t_lookup ?c k') []" by (simp del: length_nibbles)
    have emp: "rlp_isEmpty (encode (ref_item sha3 (node_item sha3 ?c))) \<longleftrightarrow> ?c = TEmpty" by (rule isEmpty_ref [OF c(2)])
    show ?thesis
    proof (cases "?c = TEmpty")
      case True
      then show ?thesis using fits Cons k(1,2) nth emp m by (simp add: fuel isNull_def encode_not_Nil read del: upt_rec_numeral)
    next
      case False
      with yields_follow [where f = "\<lambda>b. atAux ops n b (ns_mid k 1)", OF c(2) False _ sub] held fits Cons k(1,2) nth emp m
      show ?thesis by (simp add: fuel isNull_def encode_not_Nil read del: upt_rec_numeral)
    qed
  qed
qed

end

end
