(* ===== verification/TrieRefine.thy ===== *)
theory TrieRefine
  imports TrieInsert
begin

text \<open>
  The trie as the rest of the program sees it: keys are strings of bytes, the root is a hash. \<open>trie_repr\<close> relates a
  \<^verbatim>\<open>GenericTrieDB\<close> with the tree it holds. The laws hold for every database that gives back what was written last;
  StateCacheDB and OverlayDB are two of them.
\<close>

section \<open>Keys\<close>

lemma asNibbles_simps [simp]: "asNibbles [] = []" "asNibbles (x # d) = x div 16 # x mod 16 # asNibbles d"
  by (simp_all add: asNibbles_def)

lemma length_asNibbles [simp]: "length (asNibbles d) = 2 * length d"
  by (induction d) simp_all

lemma asNibbles_inj: "asNibbles a = asNibbles b \<longleftrightarrow> a = b"
proof (induction a arbitrary: b)
  case (Cons x a)
  have "x = y" if "x div 16 = y div 16" "x mod 16 = y mod 16" for y
    using that by (metis div_mult_mod_eq)
  with Cons show ?case by (cases b) auto
qed (case_tac b; simp)

lemma nibbles_slice: "nibbles (slice key 0) = asNibbles key"
proof -
  have "ns_at (slice e 0) = nibble e" for e by (rule ext) (simp add: ns_at_def slice_def)
  then have all: "nibbles (slice e 0) = map (nibble e) [0..<length e * 2]" for e
    by (simp add: nibbles_def ns_size_def slice_def)
  show ?thesis
  proof (induction key)
    case (Cons x d)
    have "[0..<Suc (Suc n)] = 0 # 1 # map (Suc \<circ> Suc) [0..<n]" for n by (induction n) auto
    from this [of "length d * 2"] have "[0..<length (x # d) * 2] = 0 # 1 # map (Suc \<circ> Suc) [0..<length d * 2]" by simp
    moreover have "drop_bit 4 x = x div 16" "x AND 15 = x mod 16"
      by (simp_all add: drop_bit_eq_div flip: take_bit_15 take_bit_eq_mod) (simp_all add: take_bit_eq_mod)
    then have "nibble (x # d) 0 = x div 16" "nibble (x # d) (Suc 0) = x mod 16" by (simp_all add: nibble_def)
    ultimately show ?case using Cons by (simp add: all nibble_Cons comp_def)
  qed (simp add: all)
qed

lemma part_asNibbles: "length key < 2 ^ 31 \<Longrightarrow> part_ok (asNibbles key)"
  using nibbles_less [of _ "slice key 0"] by (auto simp: part_ok_def nibbles_slice)

section \<open>The tree of a trie\<close>

definition trie_repr :: "'d db_ops \<Rightarrow> (bytes \<Rightarrow> h256) \<Rightarrow> 'd GenericTrieDB \<Rightarrow> trie \<Rightarrow> bool" where
  "trie_repr ops sha3 g t \<longleftrightarrow>
     t_ok t \<and> t_fit t \<and> (\<forall>ks\<in>t_dom t. \<exists>q. length q < 2 ^ 31 \<and> ks = asNibbles q) \<and>
     gt_root g = sha3 (encode (node_item sha3 t)) \<and>
     held sha3 (db_lookup ops (gt_db g)) (encode (node_item sha3 t) # t_nodes sha3 t)"

text \<open>The nodes that an insertion reads and writes.\<close>

definition insert_nodes :: "(bytes \<Rightarrow> h256) \<Rightarrow> bytes \<Rightarrow> bytes \<Rightarrow> trie \<Rightarrow> bytes list" where
  "insert_nodes sha3 key v t =
     encode (node_item sha3 t) # t_nodes sha3 t @ ins_log sha3 (asNibbles key) v t @
     [encode (node_item sha3 (t_insert (asNibbles key) v t))]"

definition entry_ok :: "bytes \<times> bytes \<Rightarrow> bool" where
  "entry_ok e \<longleftrightarrow> length (fst e) < 2 ^ 31 \<and> snd e \<noteq> [] \<and> length (snd e) < 2 ^ 32"

primrec t_insert_all :: "(bytes \<times> bytes) list \<Rightarrow> trie \<Rightarrow> trie" where
  "t_insert_all [] t = t"
| "t_insert_all (e # kvs) t = t_insert_all kvs (t_insert (asNibbles (fst e)) (snd e) t)"

primrec run_nodes :: "(bytes \<Rightarrow> h256) \<Rightarrow> (bytes \<times> bytes) list \<Rightarrow> trie \<Rightarrow> bytes list" where
  "run_nodes sha3 [] t = []"
| "run_nodes sha3 (e # kvs) t =
     insert_nodes sha3 (fst e) (snd e) t @ run_nodes sha3 kvs (t_insert (asNibbles (fst e)) (snd e) t)"

lemma insert_all_ok: "t_ok t \<Longrightarrow> \<forall>e\<in>set kvs. entry_ok e \<Longrightarrow> t_ok (t_insert_all kvs t)"
proof (induction kvs arbitrary: t)
  case (Cons e kvs)
  then show ?case using part_asNibbles [of "fst e"] t_ok_insert [of t "asNibbles (fst e)" "snd e"]
    by (auto simp: entry_ok_def part_ok_def)
qed simp

lemma lookup_insert_all:
  "t_ok t \<Longrightarrow> \<forall>e\<in>set kvs. entry_ok e \<Longrightarrow> t_lookup (t_insert_all kvs t) ks =
   (case map_of (rev (map (\<lambda>(k, v). (asNibbles k, v)) kvs)) ks of None \<Rightarrow> t_lookup t ks | Some v \<Rightarrow> v)"
proof (induction kvs arbitrary: t)
  case (Cons e kvs)
  let ?t = "t_insert (asNibbles (fst e)) (snd e) t"
  have ks: "key_ok (asNibbles (fst e))" "snd e \<noteq> []"
    using Cons.prems(2) part_asNibbles [of "fst e"] by (auto simp: entry_ok_def part_ok_def)
  with Cons.IH [of ?t] Cons.prems t_ok_insert [of t "asNibbles (fst e)" "snd e"] t_lookup_insert [OF Cons.prems(1) ks(1)]
  show ?case by (cases e) (auto simp: map_of_append split: option.splits)
qed simp

context node_db
begin

lemma yields_when_force: "yields f L y cs \<Longrightarrow> yields (ebind (ewhen P (forceKillNode ops h)) (\<lambda>_. f)) L y cs"
  by (cases P) (auto simp: yields_def forceKillNode_def ebind_def lookup_kill ok_kill)

lemma held_mix:
  assumes "inj_on sha3 S" and "set cs \<subseteq> S" and "set as \<subseteq> S" and "held sha3 L as" and "set ns \<subseteq> set as \<union> set cs"
  shows "held sha3 (put_all sha3 cs L) ns"
  unfolding held_def using assms by (auto intro!: put_all_found [of sha3 S] simp: held_def)

lemma on_db_yields:
  "yields m (db_lookup ops (gt_db g)) x bs \<Longrightarrow> ok (gt_db g) \<Longrightarrow>
   \<exists>d'. on_db m g = (Inr x, g\<lparr>gt_db := d'\<rparr>) \<and> ok d' \<and> db_lookup ops d' = put_all sha3 bs (db_lookup ops (gt_db g))"
  by (fastforce simp: yields_def on_db_def)

lemma trie_at_repr:
  assumes "trie_repr ops sha3 g t" and "ok (gt_db g)" and "length q < 2 ^ 31"
  shows "fst (trie_at ops q g) = Inr (t_lookup t (asNibbles q))"
proof -
  let ?L = "db_lookup ops (gt_db g)" and ?it = "node_item sha3 t"
  have t: "t_ok t" "t_fit t" "?L (gt_root g) = encode ?it" "held sha3 ?L (t_nodes sha3 t)"
    using assms(1) by (simp_all add: trie_repr_def held_def)
  have "yields (atAux ops (key_fuel q) (encode ?it) (slice q 0)) ?L (t_lookup t (asNibbles q)) []"
    using at_yields [OF t(1,2) _ t(4), of "slice q 0" "key_fuel q"] part_asNibbles [OF assms(3)]
    by (simp add: nibbles_slice key_fuel_def del: length_nibbles)
  then have "yields (ebind (tnode ops (gt_root g)) (\<lambda>s. ebind (tRLP s) (\<lambda>b. atAux ops (key_fuel q) b (slice q 0)))) ?L
      (t_lookup t (asNibbles q)) ([] @ [])"
    by (intro yields_bind [OF yields_node]) (simp add: t(3) pure_RLP node_fits [OF t(2)])
  from on_db_yields [OF this assms(2)] show ?thesis by (auto simp: trie_at_def ebind_def)
qed

lemma trie_insert_repr:
  assumes repr: "trie_repr ops sha3 g t" and "ok (gt_db g)" and entry: "entry_ok (key, v)"
    and inj: "inj_on sha3 (set (insert_nodes sha3 key v t))"
  shows "\<exists>g'. trie_insert ops sha3 key v g = (Inr (), g') \<and> ok (gt_db g') \<and> trie_repr ops sha3 g' (t_insert (asNibbles key) v t)"
proof -
  let ?L = "db_lookup ops (gt_db g)" and ?it = "node_item sha3 t" and ?ks = "asNibbles key"
  let ?t = "t_insert ?ks v t" and ?S = "set (insert_nodes sha3 key v t)"
  let ?log = "ins_log sha3 ?ks v t" and ?new = "encode (node_item sha3 (t_insert (asNibbles key) v t))"
  have t: "t_ok t" "t_fit t" "?L (gt_root g) = encode ?it" "held sha3 ?L (t_nodes sha3 t)"
    using repr by (simp_all add: trie_repr_def held_def)
  have e: "length key < 2 ^ 31" "v \<noteq> []" "length v < 2 ^ 32" using entry by (simp_all add: entry_ok_def)
  have ks: "part_ok ?ks" "key_ok ?ks" using part_asNibbles [OF e(1)] by (simp_all add: part_ok_def)
  have sub: "set (t_nodes sha3 t) \<subseteq> ?S" "set ?log \<subseteq> ?S" "?new \<in> ?S" by (auto simp: insert_nodes_def)
  have "yields (mergeAt ops sha3 (key_fuel key) (encode ?it) (gt_root g) (slice key 0) v False) ?L ?new ?log"
    using merge_yields [OF inj t(2) ks(1) e(3) _ sub(1,2), of "key_fuel key"] t(4)
    by (simp add: merges_def nibbles_slice key_fuel_def)
  moreover have "yields (ebind (ewhen P (forceKillNode ops h)) (\<lambda>_. forceInsertNode ops sha3 ?new)) L (sha3 ?new) [?new]" for P h L
    using yields_insert [OF encode_not_Nil, of "node_item sha3 ?t"] by (intro yields_when_force) simp
  ultimately have "yields (ebind (tnode ops (gt_root g)) (\<lambda>rootValue.
        if rootValue = [] then ethrow Trie_assert
        else
          ebind (tRLP rootValue) (\<lambda>r.
          ebind (mergeAt ops sha3 (key_fuel key) r (gt_root g) (slice key 0) v False) (\<lambda>b.
          ebind (ewhen (length rootValue < 32) (forceKillNode ops (gt_root g))) (\<lambda>_. forceInsertNode ops sha3 b))))) ?L
      (sha3 ?new) ([] @ (?log @ [?new]))"
    by (intro yields_bind [OF yields_node]) (simp add: t(3) pure_RLP node_fits [OF t(2)] encode_not_Nil yields_bind)
  from on_db_yields [OF this \<open>ok (gt_db g)\<close>] obtain d' where d': "ok d'" "db_lookup ops d' = put_all sha3 (?log @ [?new]) ?L"
    "trie_insert ops sha3 key v g = (Inr (), \<lparr>gt_root = sha3 ?new, gt_db = d'\<rparr>)"
    by (auto simp: trie_insert_def ebind_def)
  have "held sha3 (put_all sha3 (?log @ [?new]) ?L) (?new # t_nodes sha3 ?t)"
  proof -
    have "set (?new # t_nodes sha3 ?t) \<subseteq> set (t_nodes sha3 t) \<union> set (?log @ [?new])" using nodes_insert [OF t(2) ks(1), of sha3 v] by auto
    then show ?thesis using sub by (intro held_mix [OF inj _ sub(1) t(4)]) auto
  qed
  moreover have "\<forall>ks\<in>t_dom ?t. \<exists>q. length q < 2 ^ 31 \<and> ks = asNibbles q"
    using repr e(1) t_lookup_insert [OF t(1) ks(2)] by (auto simp: trie_repr_def t_dom_def split: if_splits)
  ultimately show ?thesis
    using d' t_ok_insert [OF t(1) ks(2) e(2)] fit_insert [OF t(2) ks(1) e(3)] by (simp add: trie_repr_def)
qed

lemma trie_init_repr:
  assumes "ok (gt_db g)"
  shows "\<exists>g'. trie_init ops sha3 g = (Inr (), g') \<and> ok (gt_db g') \<and> trie_repr ops sha3 g' TEmpty"
proof -
  have null: "RLPNull = encode (RData [])" by (simp add: RLPNull_def encode.simps header_def)
  let ?h = "sha3 (encode (RData []))" and ?d = "db_insert ops (sha3 (encode (RData []))) (encode (RData [])) (gt_db g)"
  have look: "db_lookup ops ?d = (db_lookup ops (gt_db g))(?h := encode (RData []))"
    by (rule lookup_insert [OF assms]) (simp add: encode_not_Nil)
  then have "trie_init ops sha3 g = (Inr (), \<lparr>gt_root = ?h, gt_db = ?d\<rparr>)"
    using exists_insert [OF assms]
    by (simp add: trie_init_def check_root_def on_db_def forceInsertNode_def ebind_def null encode_not_Nil)
  with look ok_insert [OF assms] show ?thesis by (simp add: trie_repr_def t_dom_def held_def)
qed

lemma trie_run_repr:
  assumes "trie_repr ops sha3 g t" and "ok (gt_db g)" and "\<forall>e\<in>set kvs. entry_ok e" and "inj_on sha3 (set (run_nodes sha3 kvs t))"
  shows "\<exists>g'. efor kvs (\<lambda>(key, v). trie_insert ops sha3 key v) g = (Inr (), g') \<and> ok (gt_db g') \<and>
    trie_repr ops sha3 g' (t_insert_all kvs t)"
  using assms
proof (induction kvs arbitrary: g t)
  case (Cons e kvs)
  obtain key v where e: "e = (key, v)" by (cases e)
  have inj: "inj_on sha3 (set (insert_nodes sha3 key v t))" "inj_on sha3 (set (run_nodes sha3 kvs (t_insert (asNibbles key) v t)))"
    using Cons.prems(4) by (auto simp: e intro: inj_on_subset)
  obtain g1 where g1: "trie_insert ops sha3 key v g = (Inr (), g1)" "ok (gt_db g1)"
    "trie_repr ops sha3 g1 (t_insert (asNibbles key) v t)"
    using trie_insert_repr [OF Cons.prems(1,2) _ inj(1)] Cons.prems(3) by (auto simp: e)
  with Cons.IH [OF g1(3,2) _ inj(2)] Cons.prems(3) show ?case by (auto simp: e ebind_def)
qed simp

end

interpretation cache_db: node_db cache_ops sha3 "\<lambda>d. \<not> m_enforceRefs d" for sha3
  by unfold_locales (auto simp: cache_ops_def cache_lookup_def cache_exists_def cache_insert_def cache_kill_def fun_eq_iff split: option.splits)

interpretation overlay_db: node_db overlay_ops sha3 "\<lambda>d. \<not> m_enforceRefs (ov_cache d)" for sha3
  by unfold_locales (auto simp: overlay_ops_def overlay_lookup_def overlay_insert_def overlay_kill_def
      overlay_exists_def cache_exists_def cache_lookup_def cache_insert_def cache_kill_def fun_eq_iff Let_def split: option.splits)

section \<open>Insertion and lookup\<close>

lemma map_of_nibbles: "map_of (map (\<lambda>(k, v). (asNibbles k, v)) kvs) (asNibbles q) = map_of kvs q"
  by (induction kvs) (auto simp: asNibbles_inj)

lemma map_of_other: "\<nexists>q. ks = asNibbles q \<Longrightarrow> map_of (map (\<lambda>(k, v). (asNibbles k, v)) kvs) ks = None"
  by (induction kvs) auto

lemma lookup_all_eq:
  assumes "map_of (rev kvs) = map_of (rev kvs')" and "\<forall>e\<in>set kvs. entry_ok e" and "\<forall>e\<in>set kvs'. entry_ok e"
  shows "t_insert_all kvs TEmpty = t_insert_all kvs' TEmpty"
proof (rule canonical_unique)
  have "map_of (rev (map (\<lambda>(k, v). (asNibbles k, v)) kvs)) ks = map_of (rev (map (\<lambda>(k, v). (asNibbles k, v)) kvs')) ks" for ks
    using assms(1) by (cases "\<exists>q. ks = asNibbles q") (auto simp: rev_map map_of_nibbles map_of_other)
  then show "t_lookup (t_insert_all kvs TEmpty) = t_lookup (t_insert_all kvs' TEmpty)"
    using assms by (simp add: fun_eq_iff lookup_insert_all)
qed (use assms in \<open>simp_all add: insert_all_ok\<close>)

text \<open>
  C9. Insertion refines the update of a map. On a trie over OverlayDB that holds a tree in canonical form, and when the
  hashes of the nodes of the old tree and of the nodes written are different, \<^verbatim>\<open>insert\<close> ends without an exception and
  within its fuel, \<^verbatim>\<open>at\<close> then gives the new value for the key and the old value for every other key, and the trie holds
  the changed tree in canonical form.
\<close>

theorem trie_insert_lookup:
  fixes g :: "OverlayDB GenericTrieDB"
  assumes repr: "trie_repr overlay_ops sha3 g t" and refs: "\<not> m_enforceRefs (ov_cache (gt_db g))"
    and entry: "entry_ok (key, v)" and inj: "inj_on sha3 (set (insert_nodes sha3 key v t))"
  shows "\<exists>g'. trie_insert overlay_ops sha3 key v g = (Inr (), g') \<and>
    trie_repr overlay_ops sha3 g' (t_insert (asNibbles key) v t) \<and>
    (\<forall>q. length q < 2 ^ 31 \<longrightarrow>
      fst (trie_at overlay_ops q g') = (if q = key then Inr v else fst (trie_at overlay_ops q g)))"
proof -
  obtain g' where g': "trie_insert overlay_ops sha3 key v g = (Inr (), g')" "\<not> m_enforceRefs (ov_cache (gt_db g'))"
    "trie_repr overlay_ops sha3 g' (t_insert (asNibbles key) v t)"
    using overlay_db.trie_insert_repr [OF repr refs entry inj] by blast
  have "t_ok t" "key_ok (asNibbles key)" using repr entry part_asNibbles [of key] by (simp_all add: trie_repr_def entry_ok_def part_ok_def)
  from t_lookup_insert [OF this, of v] show ?thesis
    using g' overlay_db.trie_at_repr [OF repr refs] overlay_db.trie_at_repr [OF g'(3,2)] by (auto simp: asNibbles_inj)
qed

text \<open>
  The root commits to the contents: two tries over OverlayDB that give the same value for every key have the same
  root, however they came about.
\<close>

lemma trie_root_determined:
  fixes g g' :: "OverlayDB GenericTrieDB"
  assumes "trie_repr overlay_ops sha3 g t" and "\<not> m_enforceRefs (ov_cache (gt_db g))"
    and "trie_repr overlay_ops sha3 g' t'" and "\<not> m_enforceRefs (ov_cache (gt_db g'))"
    and same: "\<And>q. length q < 2 ^ 31 \<Longrightarrow> fst (trie_at overlay_ops q g) = fst (trie_at overlay_ops q g')"
  shows "gt_root g = gt_root g'"
proof -
  have bytes: "t_lookup t (asNibbles q) = t_lookup t' (asNibbles q)" if "length q < 2 ^ 31" for q
    using overlay_db.trie_at_repr [OF assms(1,2) that] overlay_db.trie_at_repr [OF assms(3,4) that] same [OF that] by simp
  have "t_lookup t ks = t_lookup t' ks" for ks
  proof (cases "ks \<in> t_dom t \<union> t_dom t'")
    case True
    then obtain q where "length q < 2 ^ 31" "ks = asNibbles q" using assms(1,3) unfolding trie_repr_def by blast
    then show ?thesis by (simp add: bytes)
  qed (simp add: t_dom_def)
  then have "t = t'" using assms(1,3) by (intro canonical_unique) (auto simp: trie_repr_def)
  with assms(1,3) show ?thesis by (simp add: trie_repr_def)
qed

text \<open>A new trie filled with the given entries.\<close>

definition trie_build :: "'d db_ops \<Rightarrow> (bytes \<Rightarrow> h256) \<Rightarrow> (bytes \<times> bytes) list \<Rightarrow> ('d GenericTrieDB, unit) tr" where
  "trie_build ops sha3 kvs = ebind (trie_init ops sha3) (\<lambda>_. efor kvs (\<lambda>(key, v). trie_insert ops sha3 key v))"

text \<open>
  C26. The state root does not depend on the order of the writes: two sequences of insertions into new tries over
  OverlayDB that leave the same value for every key both end without an exception, with the same root, and \<^verbatim>\<open>at\<close>
  gives the value written last.
\<close>

theorem trie_build_order:
  fixes g g' :: "OverlayDB GenericTrieDB"
  assumes refs: "\<not> m_enforceRefs (ov_cache (gt_db g))" "\<not> m_enforceRefs (ov_cache (gt_db g'))"
    and entries: "\<forall>e\<in>set kvs. entry_ok e" "\<forall>e\<in>set kvs'. entry_ok e" and same: "map_of (rev kvs) = map_of (rev kvs')"
    and inj: "inj_on sha3 (set (run_nodes sha3 kvs TEmpty))" "inj_on sha3 (set (run_nodes sha3 kvs' TEmpty))"
  shows "\<exists>h h'. trie_build overlay_ops sha3 kvs g = (Inr (), h) \<and> trie_build overlay_ops sha3 kvs' g' = (Inr (), h') \<and>
    gt_root h = gt_root h' \<and>
    (\<forall>q. length q < 2 ^ 31 \<longrightarrow>
      fst (trie_at overlay_ops q h) = Inr (case map_of (rev kvs) q of None \<Rightarrow> [] | Some v \<Rightarrow> v))"
proof -
  have build: "\<exists>h. trie_build overlay_ops sha3 xs f = (Inr (), h) \<and> \<not> m_enforceRefs (ov_cache (gt_db h)) \<and>
      trie_repr overlay_ops sha3 h (t_insert_all xs TEmpty)"
    if "\<not> m_enforceRefs (ov_cache (gt_db f))" "\<forall>e\<in>set xs. entry_ok e" "inj_on sha3 (set (run_nodes sha3 xs TEmpty))" for xs f
    using overlay_db.trie_init_repr [OF that(1), of sha3] overlay_db.trie_run_repr [OF _ _ that(2,3)]
    by (fastforce simp: trie_build_def ebind_def)
  obtain h where h: "trie_build overlay_ops sha3 kvs g = (Inr (), h)" "\<not> m_enforceRefs (ov_cache (gt_db h))"
    "trie_repr overlay_ops sha3 h (t_insert_all kvs TEmpty)" using build [OF refs(1) entries(1) inj(1)] by blast
  obtain h' where h': "trie_build overlay_ops sha3 kvs' g' = (Inr (), h')" "trie_repr overlay_ops sha3 h' (t_insert_all kvs' TEmpty)"
    using build [OF refs(2) entries(2) inj(2)] by blast
  have "gt_root h = gt_root h'" using h(3) h'(2) lookup_all_eq [OF same entries] by (simp add: trie_repr_def)
  moreover have "t_lookup (t_insert_all kvs TEmpty) (asNibbles q) = (case map_of (rev kvs) q of None \<Rightarrow> [] | Some v \<Rightarrow> v)" for q
    using lookup_insert_all [of TEmpty kvs "asNibbles q"] entries(1) map_of_nibbles [of "rev kvs" q]
    by (simp add: rev_map split: option.split)
  ultimately show ?thesis using h h'(1) overlay_db.trie_at_repr [OF h(3,2)] by auto
qed

subsection \<open>Instances\<close>

text \<open>A hash that is different on short nodes, for the instances of the theorems.\<close>

definition sum_hash :: "bytes \<Rightarrow> h256" where
  "sum_hash b = of_nat (256 * length b + unat (last b))"

lemma small_leaf: "x < 0x80 \<Longrightarrow> encode (node_item sha3 (TLeaf (asNibbles [0x12]) [x])) = [0xc4, 0x82, 0x20, 0x12, x]"
  by (simp add: pair_item_def encode.simps header_def hp_def hp_flags_values word_less_nat_alt)

lemma small_insert:
  "t_insert (asNibbles [0x12]) v TEmpty = TLeaf (asNibbles [0x12]) v"
  "t_insert (asNibbles [0x12]) v (TLeaf (asNibbles [0x12]) w) = TLeaf (asNibbles [0x12]) v"
  by (simp_all add: t_insert_rules)

lemma small_nodes:
  "insert_nodes sum_hash [0x12] [1] TEmpty = [[0x80], [0xc4, 0x82, 0x20, 0x12, 1]]"
  "insert_nodes sum_hash [0x12] [2] TEmpty = [[0x80], [0xc4, 0x82, 0x20, 0x12, 2]]"
  "insert_nodes sum_hash [0x12] [2] (TLeaf (asNibbles [0x12]) [1]) = [[0xc4, 0x82, 0x20, 0x12, 1], [0xc4, 0x82, 0x20, 0x12, 2]]"
  unfolding insert_nodes_def small_insert by (simp_all add: small_leaf [simplified] ins_log_rules encode.simps header_def)

lemma sum_hash_inj: "inj_on sum_hash {[0x80], [0xc4, 0x82, 0x20, 0x12, 1], [0xc4, 0x82, 0x20, 0x12, 2]}"
  by (simp add: inj_on_def sum_hash_def)

definition new_trie :: "OverlayDB GenericTrieDB" where
  "new_trie = \<lparr>gt_root = sum_hash [0x80], gt_db = \<lparr>ov_cache = \<lparr>m_main = [sum_hash [0x80] \<mapsto> ([0x80], 1)], m_aux = Map.empty, m_enforceRefs = False\<rparr>,
     ov_disk = Some Map.empty\<rparr>\<rparr>"

definition disk_trie :: "OverlayDB GenericTrieDB" where
  "disk_trie = new_trie\<lparr>gt_db := overlay_commit (gt_db new_trie)\<rparr>"

lemma slice_hash: "of_nat (fromBigEndian (toSlice h)) = h" "length (toSlice h) = 32"
proof -
  have "unat h < 2 ^ LENGTH(256)" by (rule unsigned_less)
  then show "of_nat (fromBigEndian (toSlice h)) = h" by (simp add: toSlice_def from_toBigEndian)
qed (simp add: toSlice_def)

lemma new_trie_repr:
  "trie_repr overlay_ops sum_hash new_trie TEmpty" "\<not> m_enforceRefs (ov_cache (gt_db new_trie))"
  "trie_repr overlay_ops sum_hash disk_trie TEmpty" "\<not> m_enforceRefs (ov_cache (gt_db disk_trie))"
  by (simp_all add: trie_repr_def new_trie_def disk_trie_def overlay_commit_def overlay_ops_def overlay_lookup_def cache_lookup_def
      cache_clear_def disk_lookup_def batch_def slice_hash map_add_def held_def t_dom_def encode.simps header_def)

lemma small_entries: "entry_ok ([0x12], [1])" "entry_ok ([0x12], [2])"
  by (simp_all add: entry_ok_def)

theorem trie_insert_lookup_witness:
  "\<exists>g'. trie_insert overlay_ops sum_hash [0x12] [1] new_trie = (Inr (), g') \<and> fst (trie_at overlay_ops [0x12] g') = Inr [1]"
proof -
  have "inj_on sum_hash (set (insert_nodes sum_hash [0x12] [1] TEmpty))"
    unfolding small_nodes by (rule inj_on_subset [OF sum_hash_inj]) auto
  from trie_insert_lookup [OF new_trie_repr(1,2) small_entries(1) this] show ?thesis by fastforce
qed

theorem trie_build_order_witness:
  "\<exists>h h'. trie_build overlay_ops sum_hash [([0x12], [1]), ([0x12], [2])] new_trie = (Inr (), h) \<and>
     trie_build overlay_ops sum_hash [([0x12], [2])] new_trie = (Inr (), h') \<and> gt_root h = gt_root h'"
proof -
  have "inj_on sum_hash (set (run_nodes sum_hash [([0x12], [1]), ([0x12], [2])] TEmpty))"
    "inj_on sum_hash (set (run_nodes sum_hash [([0x12], [2])] TEmpty))"
    unfolding run_nodes.simps fst_conv snd_conv small_insert small_nodes by (rule inj_on_subset [OF sum_hash_inj]; auto)+
  moreover have "map_of (rev [([0x12], [1]), ([0x12], [2])]) = map_of (rev [([0x12 :: byte], [2 :: byte])])"
    by (auto simp: fun_eq_iff)
  moreover have "\<forall>e\<in>set [([0x12], [1]), ([0x12], [2])]. entry_ok e" "\<forall>e\<in>set [([0x12], [2])]. entry_ok e"
    using small_entries by simp_all
  ultimately show ?thesis using trie_build_order [OF new_trie_repr(2,2)] by blast
qed

end
