(* ===== verification/TrieDelete.thy ===== *)
theory TrieDelete
  imports TrieRefine
begin

text \<open>
  \<^verbatim>\<open>GenericTrieDB::remove\<close> implements the removal of a key for tries whose keys all have the same length, as those of
  \<^verbatim>\<open>SecureTrieDB\<close> do: no key is a part of another, and no branch has a value. A branch that loses its last but one
  child is joined with the remaining one, so that the tree stays in canonical form.
\<close>

section \<open>Specification\<close>

text \<open>All keys have the length \<open>n\<close>.\<close>

fun t_uniform :: "nat \<Rightarrow> trie \<Rightarrow> bool" where
  "t_uniform n TEmpty \<longleftrightarrow> True"
| "t_uniform n (TLeaf p v) \<longleftrightarrow> length p = n"
| "t_uniform n (TExt p t) \<longleftrightarrow> length p \<le> n \<and> t_uniform (n - length p) t"
| "t_uniform n (TBranch cs v) \<longleftrightarrow> n \<noteq> 0 \<and> v = [] \<and> (\<forall>c\<in>set cs. t_uniform (n - 1) c)"

fun join :: "byte list \<Rightarrow> trie \<Rightarrow> trie" where
  "join p (TLeaf q w) = TLeaf (p @ q) w"
| "join p (TExt q t) = TExt (p @ q) t"
| "join p t = TExt p t"

definition in_use :: "trie list \<Rightarrow> nat list" where
  "in_use cs = filter (\<lambda>i. cs ! i \<noteq> TEmpty) [0..<length cs]"

definition collapse :: "trie list \<Rightarrow> trie" where
  "collapse cs = (case in_use cs of [i] \<Rightarrow> join [of_nat i] (cs ! i) | _ \<Rightarrow> TBranch cs [])"

text \<open>The tree without the key, none when the key is not there.\<close>

fun t_delete :: "byte list \<Rightarrow> trie \<Rightarrow> trie option" where
  "t_delete k TEmpty = None"
| "t_delete k (TLeaf p v) = (if k = p then Some TEmpty else None)"
| "t_delete k (TExt p t) =
     (if take (length p) k = p then map_option (join p) (t_delete (drop (length p) k) t) else None)"
| "t_delete k (TBranch cs v) = (case k of
       [] \<Rightarrow> None
     | n # k' \<Rightarrow> (if unat n < length cs
         then map_option (\<lambda>c. collapse (cs[unat n := c])) (t_delete k' (cs ! unat n)) else None))"

lemma take_append_iff:
  "take (length p + length r) q = p @ r \<longleftrightarrow> take (length p) q = p \<and> take (length r) (drop (length p) q) = r"
proof
  assume a: "take (length p + length r) q = p @ r"
  then have "length p \<le> length q" by (metis length_append length_take min.cobounded1 le_trans le_add1)
  then show "take (length p) q = p \<and> take (length r) (drop (length p) q) = r"
    using a unfolding take_add by (simp add: append_eq_append_conv)
qed (simp add: take_add)

lemma lookup_join: "t_lookup (join p t) q = t_lookup (TExt p t) q"
proof (cases t)
  case (TLeaf r w)
  have "q = p @ r \<longleftrightarrow> take (length p) q = p \<and> drop (length p) q = r" by (metis append_eq_conv_conj)
  with TLeaf show ?thesis by auto
next
  case (TExt r u)
  then show ?thesis using take_append_iff [of p r q] by (auto simp: add.commute)
qed simp_all

lemma length_in_use: "length (in_use cs) = used_slots cs []"
proof -
  have "map ((!) cs) (in_use cs) = filter (\<lambda>c. c \<noteq> TEmpty) (map ((!) cs) [0..<length cs])"
    by (simp only: in_use_def filter_map comp_def)
  then have "length (in_use cs) = length (filter (\<lambda>c. c \<noteq> TEmpty) cs)" by (metis length_map map_nth)
  then show ?thesis by (simp add: used_slots_def)
qed

lemma in_use_iff: "i \<in> set (in_use cs) \<longleftrightarrow> i < length cs \<and> cs ! i \<noteq> TEmpty"
  by (auto simp: in_use_def)

lemma collapse_cases:
  obtains (one) i where "in_use cs = [i]" "i < length cs" "cs ! i \<noteq> TEmpty" "collapse cs = join [of_nat i] (cs ! i)"
    "\<And>j. j < length cs \<Longrightarrow> j \<noteq> i \<Longrightarrow> cs ! j = TEmpty"
  | (more) "length (in_use cs) \<noteq> 1" "collapse cs = TBranch cs []"
proof (cases "length (in_use cs) = 1")
  case True
  then obtain i where i: "in_use cs = [i]" by (auto simp: length_Suc_conv)
  with in_use_iff [of _ cs] show ?thesis by (intro one [of i]) (auto simp: collapse_def)
next
  case False
  then show ?thesis by (intro more) (auto simp: collapse_def split: list.split)
qed

lemma unat_slot: "i < 16 \<Longrightarrow> unat (of_nat i :: byte) = i" "i < 16 \<Longrightarrow> is_nibble (of_nat i)"
  by (simp_all add: unat_of_nat is_nibble_def word_less_nat_alt)

lemma lookup_collapse:
  assumes "length cs = 16"
  shows "t_lookup (collapse cs) q = t_lookup (TBranch cs []) q"
proof (cases rule: collapse_cases [of cs])
  case (one i)
  have i: "unat (of_nat i :: byte) = i" using one(2) assms unat_slot(1) [of i] by simp
  then have "unat n \<noteq> i" if "n \<noteq> of_nat i" for n :: byte using that by (auto simp: word_unat_eq_iff)
  with one assms show ?thesis by (cases q) (auto simp: lookup_join i)
qed simp

lemma join_ok: "t_ok t \<Longrightarrow> t \<noteq> TEmpty \<Longrightarrow> p \<noteq> [] \<Longrightarrow> key_ok p \<Longrightarrow> t_ok (join p t) \<and> join p t \<noteq> TEmpty"
  by (cases t) auto

lemma collapse_ok:
  assumes "length cs = 16" and "\<forall>c\<in>set cs. t_ok c" and "used_slots cs [] \<noteq> 0"
  shows "t_ok (collapse cs) \<and> collapse cs \<noteq> TEmpty"
proof (cases rule: collapse_cases [of cs])
  case (one i)
  then show ?thesis using join_ok [of "cs ! i" "[of_nat i]"] unat_slot(2) [of i] assms by auto
next
  case more
  then show ?thesis using assms length_in_use [of cs] by auto
qed

lemma used_removed: "i < length cs \<Longrightarrow> used_slots cs s \<le> Suc (used_slots (cs[i := c]) s)"
proof (induction cs arbitrary: i)
  case (Cons a cs)
  then show ?case by (cases i) (auto simp: used_slots_def)
qed simp

lemma t_delete_ok:
  assumes "t_ok t" and "t_uniform n t" and "t_delete k t = Some t'"
  shows "t_ok t' \<and> (is_branch t \<longrightarrow> t' \<noteq> TEmpty)"
  using assms
proof (induction t arbitrary: n k t')
  case (TExt p t)
  then show ?case using join_ok by (fastforce split: if_splits)
next
  case (TBranch cs v)
  then obtain m k' c where k: "k = m # k'" "unat m < length cs" "t_delete k' (cs ! unat m) = Some c" "t' = collapse (cs[unat m := c])"
    by (auto split: list.splits if_splits)
  have cs: "length cs = 16" "2 \<le> used_slots cs []" using TBranch.prems by auto
  have "t_ok c" using TBranch.IH [OF _ _ _ k(3)] TBranch.prems k(2) by fastforce
  then have "\<forall>c\<in>set (cs[unat m := c]). t_ok c" using TBranch.prems by (intro all_children_update) auto
  then show ?case using collapse_ok [of "cs[unat m := c]"] used_removed [OF k(2), of "[]" c] cs k(4) by auto
qed (auto split: if_splits)

lemma join_uniform: "length p \<le> n \<Longrightarrow> t_uniform (n - length p) t \<Longrightarrow> t_uniform n (join p t)"
  by (cases t) auto

lemma t_delete_uniform:
  assumes "t_ok t" and "t_uniform n t" and "t_delete k t = Some t'"
  shows "t_uniform n t'"
  using assms
proof (induction t arbitrary: n k t')
  case (TExt p t)
  then show ?case by (auto split: if_splits intro!: join_uniform)
next
  case (TBranch cs v)
  then obtain m k' c where k: "k = m # k'" "unat m < length cs" "t_delete k' (cs ! unat m) = Some c" "t' = collapse (cs[unat m := c])"
    by (auto split: list.splits if_splits)
  have "t_uniform (n - 1) c" using TBranch.IH [OF _ _ _ k(3)] TBranch.prems k(2) by fastforce
  then have all: "\<forall>c\<in>set (cs[unat m := c]). t_uniform (n - 1) c" using TBranch.prems by (intro all_children_update) auto
  show ?case
  proof (cases rule: collapse_cases [of "cs[unat m := c]"])
    case (one i)
    then show ?thesis using TBranch.prems all unfolding k(4) by (auto intro!: join_uniform)
  qed (use TBranch.prems all k(4) in auto)
qed (auto split: if_splits)

lemma t_delete_lookup:
  assumes "t_ok t" and "t_uniform (length k) t" and "key_ok k"
  shows "t_delete k t = Some t' \<Longrightarrow> t_lookup t' q = (if q = k then [] else t_lookup t q)"
    and "t_delete k t = None \<Longrightarrow> t_lookup t k = []"
  using assms
proof (induction t arbitrary: k t' q)
  case (TExt p t)
  {
    case 1
    then obtain u where u: "take (length p) k = p" "t_delete (drop (length p) k) t = Some u" "t' = join p u" by (auto split: if_splits)
    have "q = k \<longleftrightarrow> take (length p) q = p \<and> drop (length p) q = drop (length p) k" using u(1) by (metis append_take_drop_id)
    moreover have "key_ok (drop (length p) k)" using 1(4) by (auto dest: in_set_dropD)
    ultimately show ?case using TExt.IH(1) [OF u(2)] 1 u by (auto simp: lookup_join)
  next
    case 2
    then show ?case using TExt.IH(2) [of "drop (length p) k"] by (auto split: if_splits dest: in_set_dropD)
  }
next
  case (TBranch cs v)
  {
    case 1
    then obtain m k' c where k: "k = m # k'" "unat m < length cs" "t_delete k' (cs ! unat m) = Some c" "t' = collapse (cs[unat m := c])"
      by (auto split: list.splits if_splits)
    have "t_lookup c r = (if r = k' then [] else t_lookup (cs ! unat m) r)" for r
      using TBranch.IH(1) [OF _ k(3)] 1 k(1,2) by fastforce
    from lookup_update_child [of c k' "[]" cs m "[]" q, OF this k(2)] show ?case
      using 1 k by (simp add: lookup_collapse)
  next
    case 2
    then obtain m k' where k: "k = m # k'" by (cases k) auto
    have "unat m < length cs" using 2 k nibble_unat by auto
    with TBranch.IH(2) [of "cs ! unat m" k'] 2 k show ?case by fastforce
  }
qed (auto split: if_splits)

subsection \<open>The nodes a removal writes\<close>

definition opt_log :: "(bytes \<Rightarrow> h256) \<Rightarrow> trie option \<Rightarrow> bytes list \<Rightarrow> bytes list" where
  "opt_log sha3 r log = (case r of None \<Rightarrow> [] | Some c \<Rightarrow> log @ hashed (node_item sha3 c))"

definition opt_form :: "(bytes \<Rightarrow> h256) \<Rightarrow> trie option \<Rightarrow> bytes" where
  "opt_form sha3 r = (case r of None \<Rightarrow> [] | Some c \<Rightarrow> encode (node_item sha3 c))"

fun del_log :: "(bytes \<Rightarrow> h256) \<Rightarrow> byte list \<Rightarrow> trie \<Rightarrow> bytes list" where
  "del_log sha3 k (TExt p t) =
     (if take (length p) k = p
      then opt_log sha3 (t_delete (drop (length p) k) t) (del_log sha3 (drop (length p) k) t) else [])"
| "del_log sha3 k (TBranch cs v) = (case k of
       [] \<Rightarrow> []
     | n # k' \<Rightarrow> (if unat n < length cs then opt_log sha3 (t_delete k' (cs ! unat n)) (del_log sha3 k' (cs ! unat n)) else []))"
| "del_log sha3 k t = []"

lemma del_log_none: "t_delete k t = None \<Longrightarrow> del_log sha3 k t = []"
  by (cases t) (auto simp: opt_log_def split: list.splits if_splits)

lemma nodes_join: "set (t_nodes sha3 (join p t)) \<subseteq> set (hashed (node_item sha3 t)) \<union> set (t_nodes sha3 t)"
  by (cases t) auto

lemma nodes_collapse: "set (t_nodes sha3 (collapse cs)) \<subseteq> set (t_nodes sha3 (TBranch cs []))"
proof (cases rule: collapse_cases [of cs])
  case (one i)
  then show ?thesis using nodes_join [of sha3 "[of_nat i]" "cs ! i"] nodes_child [OF one(2), of sha3 "[]"] unfolding set_append by auto
qed simp

lemma nodes_delete:
  "t_delete k t = Some t' \<Longrightarrow> set (t_nodes sha3 t') \<subseteq> set (t_nodes sha3 t) \<union> set (del_log sha3 k t)"
proof (induction t arbitrary: k t')
  case (TExt p t)
  then obtain u where u: "take (length p) k = p" "t_delete (drop (length p) k) t = Some u" "t' = join p u" by (auto split: if_splits)
  then show ?case using TExt.IH [OF u(2)] nodes_join [of sha3 p u] by (auto simp: opt_log_def)
next
  case (TBranch cs v)
  then obtain m k' c where k: "k = m # k'" "unat m < length cs" "t_delete k' (cs ! unat m) = Some c" "t' = collapse (cs[unat m := c])"
    by (auto split: list.splits if_splits)
  have "set (t_nodes sha3 c) \<subseteq> set (t_nodes sha3 (TBranch cs v)) \<union> set (del_log sha3 k' (cs ! unat m))"
    using TBranch.IH [OF _ k(3)] nodes_child [OF k(2), of sha3 v] k(2) unfolding set_append by fastforce
  from nodes_into [OF this, of cs v "[]" "unat m"]
  have "set (t_nodes sha3 (TBranch (cs[unat m := c]) [])) \<subseteq>
      set (t_nodes sha3 (TBranch cs v)) \<union> set (del_log sha3 k' (cs ! unat m) @ hashed (node_item sha3 c))" by simp
  moreover have log: "del_log sha3 k (TBranch cs v) = del_log sha3 k' (cs ! unat m) @ hashed (node_item sha3 c)"
    using k by (simp add: opt_log_def)
  ultimately show ?case unfolding k(4) log by (intro subset_trans [OF nodes_collapse])
qed (auto split: if_splits)

lemma fit_join:
  assumes "t_fit t" and "part_ok p" and "p \<noteq> []" and "t_uniform n t" and "length p + n < 2 ^ 32"
  shows "t_fit (join p t)"
  using assms by (cases t) (auto simp: part_ok_def)

lemma fit_delete:
  "t_fit t \<Longrightarrow> t_ok t \<Longrightarrow> t_uniform n t \<Longrightarrow> n < 2 ^ 32 \<Longrightarrow> t_delete k t = Some t' \<Longrightarrow> t_fit t'"
proof (induction t arbitrary: n k t')
  case (TExt p t)
  then obtain u where u: "take (length p) k = p" "t_delete (drop (length p) k) t = Some u" "t' = join p u" by (auto split: if_splits)
  then show ?case using TExt.IH [OF _ _ _ _ u(2), of "n - length p"] TExt.prems t_delete_uniform [OF _ _ u(2), of "n - length p"]
    by (auto intro!: fit_join [of _ _ "n - length p"])
next
  case (TBranch cs v)
  then obtain m k' c where k: "k = m # k'" "unat m < length cs" "t_delete k' (cs ! unat m) = Some c" "t' = collapse (cs[unat m := c])"
    by (auto split: list.splits if_splits)
  let ?cs = "cs[unat m := c]"
  have "t_fit c" using TBranch.IH [OF _ _ _ _ _ k(3), of "n - 1"] TBranch.prems k(2) by fastforce
  then have fit: "t_fit (TBranch ?cs [])" using TBranch.prems fit_update [of cs v c] by auto
  show ?case
  proof (cases rule: collapse_cases [of ?cs])
    case (one i)
    have "t_uniform n (TBranch ?cs [])"
      using t_delete_uniform [OF _ _ k(3), of "n - 1"] TBranch.prems k(2) all_children_update [of cs "t_uniform (n - 1)" c "unat m"] by auto
    then show ?thesis using one fit TBranch.prems unfolding k(4)
      by (auto intro!: fit_join [of _ _ "n - 1"] simp: part_ok_def unat_slot)
  qed (use fit k(4) in auto)
qed (auto split: if_splits)

definition new_root :: "(bytes \<Rightarrow> h256) \<Rightarrow> trie option \<Rightarrow> bytes list" where
  "new_root sha3 r = (case r of None \<Rightarrow> [] | Some t \<Rightarrow> [encode (node_item sha3 t)])"

text \<open>The nodes that a removal reads and writes.\<close>

definition delete_nodes :: "(bytes \<Rightarrow> h256) \<Rightarrow> bytes \<Rightarrow> trie \<Rightarrow> bytes list" where
  "delete_nodes sha3 key t =
     encode (node_item sha3 t) # t_nodes sha3 t @ del_log sha3 (asNibbles key) t @ new_root sha3 (t_delete (asNibbles key) t)"

section \<open>Steps on forms\<close>

lemma unique_loop_hits:
  assumes "\<forall>(i, x)\<in>set xs. i < 255"
  shows "used \<noteq> 255 \<Longrightarrow> unique_loop e xs used = (if filter (\<lambda>(i, x). i \<noteq> e \<and> \<not> rlp_isEmpty x) xs = [] then used else 255)"
    and "unique_loop e xs 255 = (case filter (\<lambda>(i, x). i \<noteq> e \<and> \<not> rlp_isEmpty x) xs of [h] \<Rightarrow> fst h | _ \<Rightarrow> 255)"
  using assms by (induction xs arbitrary: used) (auto split: list.splits)

lemma unique_form:
  fixes sha3 :: "bytes \<Rightarrow> h256" and cs :: "trie list"
  assumes "t_fit (TBranch cs [])"
  defines "ts \<equiv> map (\<lambda>c. ref_item sha3 (node_item sha3 c)) cs @ [RData []]"
  shows "uniqueInUse (encode (RList ts)) 255 = ereturn (case in_use cs of [i] \<Rightarrow> i | _ \<Rightarrow> 255)"
proof -
  have fits: "rlp_fits (RList ts)" "length ts = 17" "length cs = 16"
    using node_fits [OF assms(1), of sha3] assms(1) by (simp_all add: ts_def)
  let ?zs = "zip [0..<17] (map encode ts)"
  have z: "?zs = map (\<lambda>i. (i, encode (ts ! i))) [0..<17]" using fits(2) by (intro nth_equalityI) simp_all
  have "filter (\<lambda>(i, x). i \<noteq> 255 \<and> \<not> rlp_isEmpty x) ?zs =
      map (\<lambda>i. (i, encode (ts ! i))) (filter (\<lambda>i. \<not> rlp_isEmpty (encode (ts ! i))) [0..<17])"
    unfolding z filter_map comp_def by (intro arg_cong [where f = "map _"] filter_cong) auto
  also have "filter (\<lambda>i. \<not> rlp_isEmpty (encode (ts ! i))) [0..<17] = in_use cs"
  proof -
    have "[0..<17] = [0..<16] @ [16]" by (simp add: upt_rec)
    moreover have "rlp_isEmpty (encode (ts ! 16))" using fits(3) by (simp add: ts_def nth_append isEmpty_data)
    moreover have "rlp_isEmpty (encode (ts ! i)) \<longleftrightarrow> cs ! i = TEmpty" if "i < 16" for i
      using that assms(1) fits(3) isEmpty_ref [of "cs ! i" sha3] by (simp add: ts_def nth_append)
    ultimately show ?thesis unfolding in_use_def fits(3) by (auto intro!: filter_cong simp del: upt_rec_numeral)
  qed
  finally have "filter (\<lambda>(i, x). i \<noteq> 255 \<and> \<not> rlp_isEmpty x) ?zs = map (\<lambda>i. (i, encode (ts ! i))) (in_use cs)" .
  moreover have "\<forall>(i, x)\<in>set ?zs. i < 255" by (auto simp: z)
  ultimately have "unique_loop 255 ?zs 255 = (case in_use cs of [i] \<Rightarrow> i | _ \<Rightarrow> 255)"
    by (simp add: unique_loop_hits(2) split: list.split del: upt_rec_numeral)
  then show ?thesis unfolding uniqueInUse_def pure_branch(2) [OF fits(1,2)] then_return by simp
qed

lemma hexPrefixEncode_slot: "i < 16 \<Longrightarrow> hexPrefixEncode_data [of_nat i] False 1 2 0 = hp False [of_nat i]"
proof -
  assume i: "i < 16"
  let ?k = "slice [of_nat i] 0"
  have "hexPrefixEncode_data [of_nat i] False 1 2 0 = hexPrefixEncode ?k False 1 2" by (simp add: hexPrefixEncode_def slice_def)
  also have "\<dots> = hp False (take 1 (drop 1 (nibbles ?k)))"
    using hexPrefixEncode_hp [of 1 2 ?k 2 False] by (simp add: ns_size_def slice_def)
  also have "take 1 (drop 1 (nibbles ?k)) = [of_nat i]"
    using i unat_slot(1) [of i] by (simp add: nibbles_slice word_unat_eq_iff unat_mod)
  finally show ?thesis .
qed

text \<open>A node of two items.\<close>

lemma pair_form:
  assumes "t_fit c" and "c \<noteq> TEmpty" and "\<not> is_branch c"
  obtains leaf q x where "node_item sha3 c = pair_item leaf q x" "part_ok q" "length (encode x) < 2 ^ 34"
    "\<And>p. node_item sha3 (join p c) = pair_item leaf (p @ q) x"
proof (cases c)
  case (TLeaf q w)
  then show thesis using assms length_encode_data [of w] by (intro that [of True q "RData w"]) simp_all
next
  case (TExt q t)
  then show thesis using assms length_ref_item [of sha3 "node_item sha3 t"]
    by (intro that [of False q "ref_item sha3 (node_item sha3 t)"]) simp_all
qed (use assms in auto)

lemma count_form:
  assumes "t_fit c" and "c \<noteq> TEmpty"
  shows "titemCount (encode (node_item sha3 c)) = ereturn (if is_branch c then 17 else 2)"
proof (cases c)
  case (TBranch cs v)
  then show ?thesis using node_fits [OF assms(1), of sha3] assms(1) by (intro pureI) (simp add: titemCount_encode)
qed (use assms node_fits [OF assms(1), of sha3] pair_items(7) in \<open>auto intro!: pureI\<close>)

lemma list_form: "t_fit c \<Longrightarrow> c \<noteq> TEmpty \<Longrightarrow> isList (encode (node_item sha3 c))"
  using node_fits [of c sha3] by (cases c) (simp_all add: pair_items(6) isList_encode)

context node_db
begin

lemma yields_force: "yields f L y cs \<Longrightarrow> yields (ebind (forceKillNode ops h) (\<lambda>_. f)) L y cs"
  by (auto simp: yields_def forceKillNode_def ebind_def lookup_kill ok_kill)

lemma two_item:
  assumes c: "t_fit c" "c \<noteq> TEmpty" and held: "held sha3 L (hashed (node_item sha3 c))"
  shows "yields (isTwoItemNode ops (encode (ref_item sha3 (node_item sha3 c)))) L (\<not> is_branch c) []"
proof (cases "length (encode (node_item sha3 c)) < 32")
  case True
  have "\<not> isData (encode (node_item sha3 c))" using list_form [OF c, of sha3] by (auto simp: isData_def isList_def)
  with True show ?thesis by (simp add: isTwoItemNode_def ref_item_def list_form [OF c] count_form [OF c])
next
  case False
  have "isData (encode (ref_item sha3 (node_item sha3 c)))"
    using False isData_encode [OF small_fits [OF small_data]] by (simp add: ref_item_def)
  moreover have "yields (ebind (thash (encode (ref_item sha3 (node_item sha3 c)))) (\<lambda>h. ebind (tnode ops h) (\<lambda>s. ebind (tRLP s)
      (\<lambda>r. ebind (titemCount r) (\<lambda>c. ereturn (c = 2)))))) L (\<not> is_branch c) []"
    by (rule yields_deref [OF node_fits [OF c(1)] False]) (use held False in \<open>simp_all add: held_def hashed_def count_form [OF c]\<close>)
  ultimately show ?thesis by (simp add: isTwoItemNode_def)
qed

lemma graft_form:
  assumes c: "t_fit c" "c \<noteq> TEmpty" "\<not> is_branch c" and held: "held sha3 L (hashed (node_item sha3 c))"
    and p: "part_ok p" "t_fit (join p c)"
  shows "yields (graft ops (encode (pair_item False p (ref_item sha3 (node_item sha3 c))))) L (encode (node_item sha3 (join p c))) []"
proof -
  obtain leaf q x where f: "node_item sha3 c = pair_item leaf q x" "part_ok q" "length (encode x) < 2 ^ 34"
    "node_item sha3 (join p c) = pair_item leaf (p @ q) x" by (rule pair_form [OF c, of sha3]) blast
  let ?r = "ref_item sha3 (node_item sha3 c)"
  let ?rest = "\<lambda>n. ebind (titemCount n) (\<lambda>c.
     if c \<noteq> 2 then ethrow Trie_assert
     else
       ebind (keyOf_node (encode (pair_item False p ?r))) (\<lambda>k1.
       ebind (keyOf_node n) (\<lambda>k2.
       ebind (isLeaf n) (\<lambda>leaf.
       ebind (titems n [1]) (\<lambda>js.
         tlift (stream_of 2 (append_str (hexPrefixEncode_two k1 k2 leaf) # raws js)))))))"
  have fits: "rlp_fits (pair_item False p ?r)" "rlp_fits (pair_item leaf q x)" "rlp_fits (pair_item leaf (p @ q) x)" "key_ok q"
    using p f node_fits [OF c(1), of sha3] node_fits [OF p(2), of sha3] by (simp_all add: fits_pair_ref part_ok_def)
  have rest: "?rest (encode (node_item sha3 c)) = ereturn (encode (pair_item leaf (p @ q) x))"
    using fits p f(2)
    by (intro pureI) (simp add: f(1) pair_pure pureI [OF pair_items(7)] pure_pair(3) hexPrefixEncode_two_hp keyOf_part str_item pure_pair(1))
  show ?thesis
  proof (cases "length (encode (node_item sha3 c)) < 32")
    case True
    then have r: "?r = node_item sha3 c" by (simp add: ref_item_def)
    show ?thesis unfolding r graft_def using fits(1) [unfolded r] list_form [OF c(1,2), of sha3]
      by (simp add: pair_pure rest [unfolded r] f(4))
  next
    case False
    have nl: "\<not> isList (encode ?r)" using False isData_encode [OF small_fits [OF small_data]] by (simp add: ref_item_def)
    have h: "thash (encode ?r) = ereturn (sha3 (encode (node_item sha3 c)))"
      using False toHash_encode [of 32 Strict "sha3 (encode (node_item sha3 c))"] by (intro pureI) (simp add: thash_def ref_item_def)
    have L: "L (sha3 (encode (node_item sha3 c))) = encode (node_item sha3 c)" using held False by (simp add: held_def hashed_def)
    let ?h = "sha3 (encode (node_item sha3 c))"
    have "yields (ebind (tnode ops ?h) (\<lambda>s. ebind (forceKillNode ops ?h) (\<lambda>_. tRLP s))) L (encode (node_item sha3 c)) ([] @ [])"
      by (rule yields_bind [OF yields_node]) (simp add: L yields_force pure_RLP [OF node_fits [OF c(1)]])
    from yields_bind [where f = ?rest, OF this] show ?thesis
      using fits(1) nl by (simp add: graft_def pair_pure h rest f(4))
  qed
qed

lemma merge_graft_form:
  assumes fit: "t_fit (TBranch cs [])" and i: "i < 16" "cs ! i \<noteq> TEmpty" "t_fit (join [of_nat i] (cs ! i))"
    and held: "held sha3 L (hashed (node_item sha3 (cs ! i)))"
  shows "yields (merge_graft ops (encode (node_item sha3 (TBranch cs []))) i) L (encode (node_item sha3 (join [of_nat i] (cs ! i)))) []"
proof -
  let ?c = "cs ! i" and ?ts = "map (\<lambda>c. ref_item sha3 (node_item sha3 c)) cs @ [RData []]" and ?p = "[of_nat i] :: byte list"
  let ?r = "ref_item sha3 (node_item sha3 ?c)"
  have fits: "rlp_fits (RList ?ts)" "length cs = 16" using fit node_fits [OF fit, of sha3] by simp_all
  have c: "t_fit ?c" using fit i(1) by simp
  have p: "part_ok ?p" using i(1) by (simp add: part_ok_def unat_slot)
  have nth: "?ts ! i = ?r" using fits(2) i(1) by (simp add: nth_append)
  note item = pureI [OF titems_encode [OF fits(1)], of "[i]"]
  have merged: "merge_one (encode (RList ?ts)) i = ereturn (encode (pair_item False ?p ?r))"
    using i fits(2) isEmpty_ref [OF c, of sha3] fits_pair_ref [OF p, of False sha3 "node_item sha3 ?c"]
    by (intro pureI) (simp add: merge_one_def item nth hexPrefixEncode_slot [unfolded One_nat_def] str_item pure_pair(1) pure_pair(3) [OF fits_pair_ref [OF p]])
  have two: "yields (isTwoItemNode ops (encode ?r)) L (\<not> is_branch ?c) []" by (rule two_item [OF c i(2) held])
  have "yields (if \<not> is_branch ?c then ebind (merge_one (encode (RList ?ts)) i) (\<lambda>merged. ebind (tRLP merged) (graft ops))
      else merge_one (encode (RList ?ts)) i) L (encode (node_item sha3 (join ?p ?c))) []"
  proof (cases "is_branch ?c")
    case True
    then show ?thesis by (cases ?c) (simp_all add: merged)
  next
    case False
    then show ?thesis using graft_form [OF c i(2) False held p i(3)]
      by (simp add: merged pure_RLP [OF fits_pair_ref [OF p]])
  qed
  from yields_bind [where f = "\<lambda>two. if two then ebind (merge_one (encode (RList ?ts)) i) (\<lambda>merged. ebind (tRLP merged) (graft ops))
      else merge_one (encode (RList ?ts)) i", OF two] this
  show ?thesis using i(1) fits(2) by (simp add: merge_graft_def item nth)
qed

lemma delete_child:
  assumes c: "t_fit c" and held: "held sha3 L (hashed (node_item sha3 c))" and r: "\<And>c'. r = Some c' \<Longrightarrow> t_fit c'"
    and del: "yields (del (encode (node_item sha3 c))) L (opt_form sha3 r) log" and none: "r = None \<Longrightarrow> log = []"
    and emp: "c = TEmpty \<Longrightarrow> r = None"
  shows "yields (deleteAtAux ops sha3 del (encode (ref_item sha3 (node_item sha3 c)))) L
    (map_option (\<lambda>c'. append_item (ref_item sha3 (node_item sha3 c'))) r) (opt_log sha3 r log)"
proof -
  let ?fin = "\<lambda>b. if b = [] then ereturn None else ebind (streamNode ops sha3 b) (\<lambda>w. ereturn (Some w))"
  have fin: "yields (?fin (opt_form sha3 r)) L' (map_option (\<lambda>c'. append_item (ref_item sha3 (node_item sha3 c'))) r)
      (case r of None \<Rightarrow> [] | Some c' \<Rightarrow> hashed (node_item sha3 c'))" for L'
    using r by (cases r) (auto simp: opt_form_def encode_not_Nil intro!: yields_last [OF yields_stream] node_fits)
  show ?thesis
  proof (cases "c = TEmpty")
    case True
    then show ?thesis using emp none by (simp add: deleteAtAux_def isEmpty_data opt_log_def)
  next
    case False
    have "yields (ebind (follow ops (encode (ref_item sha3 (node_item sha3 c)))) del) L (opt_form sha3 r) log"
      by (rule yields_follow [OF c False held]) (rule del)
    from yields_bind [where f = ?fin, OF this fin] False isEmpty_ref [OF c, of sha3] none show ?thesis
      by (cases r) (simp_all add: deleteAtAux_def opt_log_def)
  qed
qed

text \<open>The form of a changed extension or branch, brought into canonical form.\<close>

lemma rejoin_ext:
  assumes p: "part_ok p" and c: "t_fit c" "c \<noteq> TEmpty" and held: "held sha3 L (hashed (node_item sha3 c))" and fit: "t_fit (join p c)"
  shows "yields (ebind (tlift (stream_of 2 [append_item (RData (hp False p)), append_item (ref_item sha3 (node_item sha3 c))])) (\<lambda>s.
      ebind (tRLP s) (\<lambda>r. ebind (titems r [1]) (\<lambda>js. ebind (isTwoItemNode ops (js ! 0)) (\<lambda>two.
        if two then graft ops r else ereturn s))))) L (encode (node_item sha3 (join p c))) []"
proof -
  let ?s = "pair_item False p (ref_item sha3 (node_item sha3 c))"
  have fits: "rlp_fits ?s" using p by (rule fits_pair_ref)
  have "yields (if \<not> is_branch c then graft ops (encode ?s) else ereturn (encode ?s)) L (encode (node_item sha3 (join p c))) []"
    using graft_form [OF c _ held p fit] c(2) by (cases c) simp_all
  from yields_bind [where f = "\<lambda>two. if two then graft ops (encode ?s) else ereturn (encode ?s)", OF two_item [OF c held]] this
  show ?thesis using fits by (simp add: pure_pair(1) pure_RLP [OF fits] pair_pure)
qed

lemma rejoin_branch:
  assumes fit: "t_fit (TBranch cs [])" "t_fit (collapse cs)" and held: "\<And>i. in_use cs = [i] \<Longrightarrow> held sha3 L (hashed (node_item sha3 (cs ! i)))"
    and ws: "ws = map append_item (map (\<lambda>c. ref_item sha3 (node_item sha3 c)) cs @ [RData []])"
  shows "yields (ebind (tlift (stream_of 17 ws)) (\<lambda>s. ebind (tRLP s) (\<lambda>rlp. ebind (uniqueInUse rlp 255) (\<lambda>used.
      if used = 255 then ereturn s else merge_graft ops rlp used)))) L (encode (node_item sha3 (collapse cs))) []"
proof -
  let ?ts = "map (\<lambda>c. ref_item sha3 (node_item sha3 c)) cs @ [RData []]"
  have fits: "rlp_fits (RList ?ts)" "length ?ts = 17" "length cs = 16" using fit(1) node_fits [OF fit(1), of sha3] by simp_all
  note pure = pure_branch(5) [OF fits(1,2) ws] pure_RLP [OF fits(1)] unique_form [OF fit(1), of sha3]
  show ?thesis
  proof (cases rule: collapse_cases [of cs])
    case (one i)
    then have "yields (merge_graft ops (encode (node_item sha3 (TBranch cs []))) i) L (encode (node_item sha3 (collapse cs))) []"
      using merge_graft_form [OF fit(1), of i] fit(2) held fits(3) by simp
    then show ?thesis using one(1,2) fits(3) by (simp add: pure)
  next
    case more
    then show ?thesis by (auto simp: pure split: list.split)
  qed
qed

subsection \<open>Removal\<close>

text \<open>\<^verbatim>\<open>deleteAt\<close> with this fuel removes the key from the tree.\<close>

definition deletes :: "nat \<Rightarrow> byte list \<Rightarrow> trie \<Rightarrow> bool" where
  "deletes fuel ks t \<longleftrightarrow> (\<forall>k L. nibbles k = ks \<and> held sha3 L (t_nodes sha3 t) \<longrightarrow>
     yields (deleteAt ops sha3 fuel (encode (node_item sha3 t)) k) L (opt_form sha3 (t_delete ks t)) (del_log sha3 ks t))"

lemma deletes_leaf:
  assumes "t_fit (TLeaf p v)" and "length ks = length p"
  shows "deletes (Suc n) ks (TLeaf p v)"
  unfolding deletes_def
proof (intro allI impI)
  fix k L assume k: "nibbles k = ks \<and> held sha3 L (t_nodes sha3 (TLeaf p v))"
  have p: "part_ok p" "key_ok p" "rlp_fits (pair_item True p (RData v))" using assms(1) by (simp_all add: part_ok_def fits_pair_data)
  have "ns_eq (keyOf (hp True p)) k \<longleftrightarrow> ks = p" "ns_contains k (keyOf (hp True p)) \<longleftrightarrow> ks = p"
    using k p assms(2) by (auto simp: ns_eq_nibbles ns_contains_prefix keyOf_part)
  then show "yields (deleteAt ops sha3 (Suc n) (encode (node_item sha3 (TLeaf p v))) k) L
      (opt_form sha3 (t_delete ks (TLeaf p v))) (del_log sha3 ks (TLeaf p v))"
    using p by (auto simp: pair_pure opt_form_def RLPNull_def encode.simps header_def intro!: yields_kill)
qed

lemma deletes_ext:
  assumes fit: "t_fit (TExt p t)" and ok: "t_ok (TExt p t)" and ks: "t_uniform (length ks) (TExt p t)" "length ks < 2 ^ 32"
    and inj: "inj_on sha3 S" "set (del_log sha3 ks (TExt p t)) \<subseteq> S"
    and rec: "take (length p) ks = p \<Longrightarrow> deletes n (drop (length p) ks) t"
  shows "deletes (Suc n) ks (TExt p t)"
  unfolding deletes_def
proof (intro allI impI)
  fix k L assume k: "nibbles k = ks \<and> held sha3 L (t_nodes sha3 (TExt p t))"
  let ?x = "ref_item sha3 (node_item sha3 t)" and ?k = "drop (length p) ks"
  have p: "part_ok p" "key_ok p" "rlp_fits (pair_item False p ?x)" "t_fit t" "t_ok t" "is_branch t" "t_uniform (length ?k) t"
    using fit ok ks by (simp_all add: part_ok_def fits_pair_ref)
  have c: "ns_contains k (keyOf (hp False p)) \<longleftrightarrow> take (length p) ks = p"
    using k p(1) by (simp add: ns_contains_prefix keyOf_part)
  show "yields (deleteAt ops sha3 (Suc n) (encode (node_item sha3 (TExt p t))) k) L
      (opt_form sha3 (t_delete ks (TExt p t))) (del_log sha3 ks (TExt p t))"
  proof (cases "take (length p) ks = p")
    case True
    have mid: "nibbles (ns_mid k (length p)) = ?k"
      using True k nibbles_mid [of "length p" k] by (metis length_nibbles length_take min.cobounded1)
    let ?r = "t_delete ?k t" and ?L = "put_all sha3 (del_log sha3 ks (TExt p t)) L"
    have r: "t_fit c'" "c' \<noteq> TEmpty" "t_fit (join p c')" if "?r = Some c'" for c'
      using fit_delete [OF p(4,5,7) _ that] t_delete_ok [OF p(5,7) that] p(6) ks(2)
        fit_delete [OF fit ok ks, of ks "join p c'"] True that by auto
    have "yields (deleteAt ops sha3 n (encode (node_item sha3 t)) (ns_mid k (length p))) L (opt_form sha3 ?r) (del_log sha3 ?k t)"
      using rec [OF True] k mid unfolding deletes_def by simp
    from delete_child [where del = "\<lambda>r. deleteAt ops sha3 n r (ns_mid k (length p))", OF p(4) _ r(1) this del_log_none] k p(6)
    have aux: "yields (deleteAtAux ops sha3 (\<lambda>r. deleteAt ops sha3 n r (ns_mid k (length p))) (encode ?x)) L
        (map_option (\<lambda>c'. append_item (ref_item sha3 (node_item sha3 c'))) ?r) (del_log sha3 ks (TExt p t))"
      using True by auto
    have held: "held sha3 ?L (hashed (node_item sha3 c'))" if "?r = Some c'" for c'
      using inj True that by (intro held_put [OF inj(1,2)]) (auto simp: opt_log_def)
    let ?F = "\<lambda>r. case r of
        None \<Rightarrow> ereturn []
      | Some w \<Rightarrow>
          ebind (killNode ops (encode (pair_item False p ?x)) (sha3 (encode (pair_item False p ?x)))) (\<lambda>_.
          ebind (tlift (stream_of 2 [appendRaw (encode (RData (hp False p))) 1, w])) (\<lambda>s.
          ebind (tRLP s) (\<lambda>r. ebind (titems r [1]) (\<lambda>js. ebind (isTwoItemNode ops (js ! 0)) (\<lambda>two.
            if two then graft ops r else ereturn s)))))"
    have raw: "appendRaw (encode (RData (hp False p))) 1 = append_item (RData (hp False p))"
      using pure_pair(2) [OF p(3)] by (simp add: raws_def)
    have "yields (?F (map_option (\<lambda>c'. append_item (ref_item sha3 (node_item sha3 c'))) ?r)) ?L (opt_form sha3 (t_delete ks (TExt p t))) []"
    proof (cases ?r)
      case (Some c')
      then show ?thesis unfolding raw
        using True rejoin_ext [OF p(1) r(1,2) held r(3)] by (simp add: opt_form_def yields_kill del: One_nat_def)
    qed (use True in \<open>simp add: opt_form_def\<close>)
    from yields_bind [where f = ?F, OF aux this, unfolded One_nat_def] show ?thesis
      using p True c by (simp add: pair_pure keyOf_part)
  qed (use p c in \<open>simp add: pair_pure opt_form_def\<close>)
qed

lemma deletes_branch:
  assumes fit: "t_fit (TBranch cs v)" and ok: "t_ok (TBranch cs v)"
    and ks: "t_uniform (length ks) (TBranch cs v)" "length ks < 2 ^ 32" "part_ok ks"
    and inj: "inj_on sha3 S" "set (del_log sha3 ks (TBranch cs v)) \<subseteq> S" "set (t_nodes sha3 (TBranch cs v)) \<subseteq> S"
    and rec: "\<And>m k'. ks = m # k' \<Longrightarrow> deletes n k' (cs ! unat m)"
  shows "deletes (Suc n) ks (TBranch cs v)"
  unfolding deletes_def
proof (intro allI impI)
  fix k L assume k: "nibbles k = ks \<and> held sha3 L (t_nodes sha3 (TBranch cs v))"
  obtain m k' where km: "ks = m # k'" using ks(1) by (cases ks) auto
  have v: "v = []" using ks(1) by simp
  let ?c = "cs ! unat m" and ?ref = "\<lambda>c. ref_item sha3 (node_item sha3 c)"
  let ?r = "t_delete k' ?c" and ?log = "del_log sha3 ks (TBranch cs v)" and ?ts = "map (\<lambda>c. ref_item sha3 (node_item sha3 c)) cs @ [RData v]"
  have m: "unat m < 16" "length cs = 16" "t_fit ?c" "t_ok ?c" "t_uniform (length k') ?c"
    using part_key [of m k'] ks km fit ok by auto
  have fits: "rlp_fits (RList ?ts)" "length ?ts = 17" using node_fits [OF fit, of sha3] m(2) by simp_all
  have s: "ns_size k \<noteq> 0" "ns_at k 0 = m" "nibbles (ns_mid k 1) = k'"
    using k km ns_at_nibbles [of k] nibbles_mid [of 1 k] length_nibbles [of k] by (auto simp del: length_nibbles)
  have held: "held sha3 L (hashed (node_item sha3 c) @ t_nodes sha3 c)" if "c \<in> set cs" for c
    using k that nodes_child [of _ cs sha3 v] held_sub by (metis in_set_conv_nth)
  have r: "t_fit c'" "t_fit (TBranch (cs[unat m := c']) [])" "t_fit (collapse (cs[unat m := c']))" if r: "?r = Some c'" for c'
  proof -
    show c': "t_fit c'" using fit_delete [OF m(3,4,5) _ r] ks(2) km by simp
    show "t_fit (TBranch (cs[unat m := c']) [])" using fit_update [OF fit c'] v by simp
    show "t_fit (collapse (cs[unat m := c']))" using fit_delete [OF fit ok ks(1,2), of ks] r km m(1,2) by simp
  qed
  have log: "?log = opt_log sha3 ?r (del_log sha3 k' ?c)" using km m by simp
  have "yields (deleteAt ops sha3 n (encode (node_item sha3 ?c)) (ns_mid k 1)) L (opt_form sha3 ?r) (del_log sha3 k' ?c)"
    using rec [OF km] held [of ?c] s(3) m unfolding deletes_def by simp
  from delete_child [where del = "\<lambda>r. deleteAt ops sha3 n r (ns_mid k 1)", OF m(3) _ r(1) this del_log_none] held [of ?c] m
  have aux: "yields (deleteAtAux ops sha3 (\<lambda>r. deleteAt ops sha3 n r (ns_mid k 1)) (encode (?ref ?c))) L
      (map_option (\<lambda>c'. append_item (?ref c')) ?r) ?log" unfolding log by auto
  have used: "held sha3 (put_all sha3 ?log L) (hashed (node_item sha3 (cs[unat m := c'] ! i)))"
    if "?r = Some c'" "i < 16" for c' i
  proof (cases "i = unat m")
    case True
    have "set (hashed (node_item sha3 c')) \<subseteq> set ?log" unfolding log using that(1) by (simp add: opt_log_def)
    then have "held sha3 (put_all sha3 ?log L) (hashed (node_item sha3 c'))"
      using inj(2) by (intro held_put [OF inj(1,2)]) (blast+)
    then show ?thesis using True m by simp
  next
    case False
    then show ?thesis
      using that m inj(3) held [of "cs ! i"] nodes_child [of i cs sha3 v] by (intro held_put [OF inj(1,2)]) (simp_all del: t_nodes.simps, blast)
  qed
  show "yields (deleteAt ops sha3 (Suc n) (encode (node_item sha3 (TBranch cs v))) k) L
      (opt_form sha3 (t_delete ks (TBranch cs v))) ?log"
  proof -
    let ?F = "\<lambda>r. case r of
        None \<Rightarrow> ereturn []
      | Some w \<Rightarrow>
          ebind (killNode ops (encode (RList ?ts)) (sha3 (encode (RList ?ts)))) (\<lambda>_.
          ebind (tlift (stream_of 17 ((raws (map encode ?ts))[unat m := w]))) (\<lambda>s.
          ebind (tRLP s) (\<lambda>rlp. ebind (uniqueInUse rlp 255) (\<lambda>used.
            if used = 255 then ereturn s else merge_graft ops rlp used))))"
    have "yields (?F (map_option (\<lambda>c'. append_item (?ref c')) ?r)) (put_all sha3 ?log L) (opt_form sha3 (t_delete ks (TBranch cs v))) []"
    proof (cases ?r)
      case (Some c')
      have "(raws (map encode ?ts))[unat m := append_item (?ref c')] = map append_item (map ?ref (cs[unat m := c']) @ [RData []])"
        unfolding pure_branch(6) [OF fits] using m v by (simp add: list_update_append1 map_update)
      moreover have "held sha3 (put_all sha3 ?log L) (hashed (node_item sha3 (cs[unat m := c'] ! i)))" if "in_use (cs[unat m := c']) = [i]" for i
        using used [OF Some, of i] in_use_iff [of i "cs[unat m := c']"] that m by simp
      moreover have "opt_form sha3 (t_delete ks (TBranch cs v)) = encode (node_item sha3 (collapse (cs[unat m := c'])))"
        using km m Some by (simp add: opt_form_def)
      ultimately show ?thesis unfolding Some option.map option.case
        using r(2,3) [OF Some] by (intro yields_kill) (simp only: rejoin_branch)
    qed (use km m in \<open>simp add: opt_form_def\<close>)
    from yields_bind [where f = ?F, OF aux this]
    have "yields (ebind (deleteAtAux ops sha3 (\<lambda>r. deleteAt ops sha3 n r (ns_mid k 1)) (encode (?ref ?c))) ?F) L
        (opt_form sha3 (t_delete ks (TBranch cs v))) ?log" by simp
    moreover have nth: "map encode ?ts ! unat m = encode (?ref ?c)" using m by (simp add: nth_append)
    moreover have other: "\<not> (17 :: nat) = 2" "\<not> (ns_size k = 0 \<and> \<not> rlp_isEmpty (map encode ?ts ! 16))" using s(1) by simp_all
    ultimately show ?thesis
      unfolding deleteAt.simps(2) node_item.simps if_not_P [OF pure_branch(4) [OF fits]] pure_branch(1,2) [OF fits] then_return
        if_not_P [OF other(1)] if_not_P [OF other(2)] if_not_P [OF s(1)] s(2) nth by blast
  qed
qed

lemma delete_yields:
  assumes inj: "inj_on sha3 S"
  shows "t_fit t \<Longrightarrow> t_ok t \<Longrightarrow> part_ok ks \<Longrightarrow> t_uniform (length ks) t \<Longrightarrow> length ks < fuel \<Longrightarrow>
    set (t_nodes sha3 t) \<subseteq> S \<Longrightarrow> set (del_log sha3 ks t) \<subseteq> S \<Longrightarrow> deletes fuel ks t"
proof (induction t arbitrary: ks fuel)
  case TEmpty
  then show ?case by (cases fuel) (simp_all add: deletes_def opt_form_def isEmpty_data)
next
  case (TLeaf p v)
  then obtain n where "fuel = Suc n" by (cases fuel) auto
  with TLeaf show ?case by (auto intro: deletes_leaf)
next
  case (TExt p t)
  then obtain n where n: "fuel = Suc n" by (cases fuel) auto
  have "0 < length p" "length p \<le> length ks" "length ks < Suc n" using TExt.prems n by simp_all
  then have len: "length ks - length p < n" by linarith
  have "deletes n (drop (length p) ks) t" if take: "take (length p) ks = p"
  proof (cases "t_delete (drop (length p) ks) t")
    case None
    then show ?thesis using TExt.prems len del_log_none [OF None, of sha3] by (intro TExt.IH) auto
  next
    case (Some c')
    then show ?thesis using TExt.prems len Some take by (intro TExt.IH) (auto simp: opt_log_def)
  qed
  moreover have "length ks < 2 ^ 32" using TExt.prems(3) by (simp add: part_ok_def)
  ultimately show ?case unfolding n using TExt.prems inj by (intro deletes_ext [of p t ks S n]) auto
next
  case (TBranch cs v)
  then obtain n where n: "fuel = Suc n" by (cases fuel) auto
  have "deletes n k' (cs ! unat m)" if ks: "ks = m # k'" for m k'
  proof -
    have m: "unat m < length cs" "part_ok k'" "cs ! unat m \<in> set cs" using part_key [of m k'] TBranch.prems ks by auto
    have "set (del_log sha3 k' (cs ! unat m)) \<subseteq> S"
      using TBranch.prems(7) m(1) del_log_none [of k' "cs ! unat m" sha3] ks
      by (cases "t_delete k' (cs ! unat m)") (auto simp: opt_log_def)
    then show ?thesis using TBranch.prems m ks n nodes_child [OF m(1), of sha3 v]
      by (intro TBranch.IH [OF m(3)]) (auto simp del: t_nodes.simps)
  qed
  moreover have "length ks < 2 ^ 32" using TBranch.prems(3) by (simp add: part_ok_def)
  ultimately show ?case unfolding n using TBranch.prems inj by (intro deletes_branch [of cs v ks S n]) auto
qed

lemma trie_remove_repr:
  assumes repr: "trie_repr ops sha3 g t" and "ok (gt_db g)" and key: "length key < 2 ^ 31" "t_uniform (2 * length key) t"
    and inj: "inj_on sha3 (set (delete_nodes sha3 key t))"
  shows "\<exists>g'. trie_remove ops sha3 key g = (Inr (), g') \<and> ok (gt_db g') \<and>
    trie_repr ops sha3 g' (case t_delete (asNibbles key) t of None \<Rightarrow> t | Some t' \<Rightarrow> t')"
proof -
  let ?L = "db_lookup ops (gt_db g)" and ?it = "node_item sha3 t" and ?ks = "asNibbles key"
  let ?r = "t_delete ?ks t" and ?log = "del_log sha3 (asNibbles key) t" and ?S = "set (delete_nodes sha3 key t)"
  have t: "t_ok t" "t_fit t" "?L (gt_root g) = encode ?it" "held sha3 ?L (t_nodes sha3 t)"
    using repr by (simp_all add: trie_repr_def held_def)
  have ks: "part_ok ?ks" "key_ok ?ks" using part_asNibbles [OF key(1)] by (simp_all add: part_ok_def)
  have sub: "set (t_nodes sha3 t) \<subseteq> ?S" "set ?log \<subseteq> ?S" by (auto simp: delete_nodes_def)
  have del: "yields (deleteAt ops sha3 (key_fuel key) (encode ?it) (slice key 0)) ?L (opt_form sha3 ?r) ?log"
    using delete_yields [OF inj t(2,1) ks(1) _ _ sub, of "key_fuel key"] t(4) key(2)
    by (simp add: deletes_def nibbles_slice key_fuel_def)
  let ?F = "\<lambda>b. if b = [] then ereturn (gt_root g)
    else ebind (ewhen (length (?L (gt_root g)) < 32) (forceKillNode ops (gt_root g))) (\<lambda>_. forceInsertNode ops sha3 b)"
  have fin: "yields (?F (opt_form sha3 ?r)) L (case ?r of None \<Rightarrow> gt_root g | Some t' \<Rightarrow> sha3 (encode (node_item sha3 t'))) (new_root sha3 ?r)" for L
    using yields_insert [OF encode_not_Nil]
    by (cases ?r) (auto simp: opt_form_def new_root_def encode_not_Nil intro!: yields_when_force)
  have run: "yields (ebind (tnode ops (gt_root g)) (\<lambda>rv. ebind (tRLP rv) (\<lambda>r.
        ebind (deleteAt ops sha3 (key_fuel key) r (slice key 0)) (\<lambda>b.
          if b = [] then ereturn (gt_root g)
          else ebind (ewhen (length rv < 32) (forceKillNode ops (gt_root g))) (\<lambda>_. forceInsertNode ops sha3 b))))) ?L
      (case ?r of None \<Rightarrow> gt_root g | Some t' \<Rightarrow> sha3 (encode (node_item sha3 t'))) ([] @ (?log @ new_root sha3 ?r))"
    by (intro yields_bind [OF yields_node]) (simp add: t(3) pure_RLP node_fits [OF t(2)] yields_bind [where f = ?F, OF del fin])
  from on_db_yields [OF this \<open>ok (gt_db g)\<close>] obtain d' where d': "ok d'" "db_lookup ops d' = put_all sha3 (?log @ new_root sha3 ?r) ?L"
    "trie_remove ops sha3 key g = (Inr (), \<lparr>gt_root = (case ?r of None \<Rightarrow> gt_root g | Some t' \<Rightarrow> sha3 (encode (node_item sha3 t'))), gt_db = d'\<rparr>)"
    by (auto simp: trie_remove_def ebind_def)
  show ?thesis
  proof (cases ?r)
    case None
    then show ?thesis using d' repr del_log_none [OF None, of sha3] by (auto simp: new_root_def trie_repr_def)
  next
    case (Some t')
    have t': "t_ok t'" "t_fit t'" using t_delete_ok [OF t(1) key(2) Some] fit_delete [OF t(2,1) key(2) _ Some] key(1) by simp_all
    have "held sha3 (db_lookup ops d') (encode (node_item sha3 t') # t_nodes sha3 t')"
      unfolding d'(2) using nodes_delete [OF Some, of sha3] Some
      by (intro held_mix [OF inj _ sub(1) t(4)]) (auto simp: new_root_def delete_nodes_def)
    moreover have "\<forall>ks\<in>t_dom t'. \<exists>q. length q < 2 ^ 31 \<and> ks = asNibbles q"
      using repr t_delete_lookup(1) [OF t(1) _ ks(2) Some] key(2) by (auto simp: trie_repr_def t_dom_def split: if_splits)
    ultimately show ?thesis using d' t' Some by (simp add: trie_repr_def)
  qed
qed

end

section \<open>Removal from a trie\<close>

lemma uniform_insert: "t_uniform (length k) t \<Longrightarrow> part_ok k \<Longrightarrow> t_fit t \<Longrightarrow> t_uniform (length k) (t_insert k v t)"
proof (induction k v t rule: t_insert.induct)
  case (1 k v)
  then show ?case by (simp add: t_insert_rules)
next
  case (2 k v p w)
  consider "k = p" | "k \<noteq> p" "lcp k p \<noteq> 0" | n k' where "k \<noteq> p" "lcp k p = 0" "k = n # k'" using "2.prems"(1) by (cases k) auto
  then show ?case
  proof cases
    case 2
    then show ?thesis unfolding t_insert_leaf(2) [OF 2] using "2.IH"(1) [OF 2] "2.prems" lcp_le [of k p] by auto
  next
    case 3
    have c: "leaf_children p w ! unat n = TEmpty" using "2.prems" 3 part_key by (intro split_child) auto
    have "\<forall>c\<in>set ((leaf_children p w)[unat n := TLeaf k' v]). t_uniform (length k') c"
      using "2.prems"(1) 3 by (intro all_children_update) (auto simp: leaf_children_def dest!: set_update_subset_insert [THEN subsetD])
    then show ?thesis using 3 c "2.prems"(1) by (auto simp: t_insert_leaf(4) t_insert.simps(1) leaf_slot_def)
  qed (simp add: t_insert_leaf)
next
  case (3 k v p t)
  consider "take (length p) k = p" | "take (length p) k \<noteq> p" "lcp k p \<noteq> 0" | n k' where "take (length p) k \<noteq> p" "lcp k p = 0" "k = n # k'"
    using "3.prems" by (cases k) auto
  then show ?case
  proof cases
    case 1
    then show ?thesis using "3.IH"(1) [OF 1] "3.prems" by (simp add: t_insert_ext(1))
  next
    case 2
    have "drop (lcp k p) p \<noteq> []" using 2 lcp_le(2) [of k p] lcp_eq_length [of k p] by auto
    then show ?thesis unfolding t_insert_ext(2) [OF 2] using "3.IH"(2) [OF 2] "3.prems" lcp_le [of k p] by auto
  next
    case 3
    have c: "ext_children p t ! unat n = TEmpty" using "3.prems" 3 part_key by (intro split_child) auto
    have "\<forall>c\<in>set ((ext_children p t)[unat n := TLeaf k' v]). t_uniform (length k') c"
      using "3.prems" 3 by (intro all_children_update) (cases p; auto simp: ext_children_def dest!: set_update_subset_insert [THEN subsetD])+
    then show ?thesis using 3 c by (simp add: t_insert_ext(4) t_insert.simps(1))
  qed
next
  case (4 k v cs s)
  then obtain n k' where k: "k = n # k'" by (cases k) auto
  have n: "unat n < length cs" "part_ok k'" using 4 part_key [of n k'] k by auto
  then have "t_uniform (length k') (t_insert k' v (cs ! unat n))" using "4.IH" [OF k] 4 k by auto
  then have "\<forall>c\<in>set (cs[unat n := t_insert k' v (cs ! unat n)]). t_uniform (length k') c"
    using "4.prems"(1) k by (intro all_children_update) auto
  then show ?case using "4.prems"(1) k by (simp add: t_insert_branch)
qed

text \<open>
  C10. Removal refines the removal from a map. On a trie over OverlayDB whose keys all have the length of the given key,
  and when the hashes of the nodes involved are different, \<^verbatim>\<open>remove\<close> ends without an exception and within its fuel, \<^verbatim>\<open>at\<close>
  then finds nothing under the key and the old value under every other key, and the trie again holds a tree in
  canonical form.
\<close>

theorem trie_remove_lookup:
  fixes g :: "OverlayDB GenericTrieDB"
  assumes repr: "trie_repr overlay_ops sha3 g t" and refs: "\<not> m_enforceRefs (ov_cache (gt_db g))"
    and key: "length key < 2 ^ 31" "t_uniform (2 * length key) t" and inj: "inj_on sha3 (set (delete_nodes sha3 key t))"
  shows "\<exists>g' t'. trie_remove overlay_ops sha3 key g = (Inr (), g') \<and>
    trie_repr overlay_ops sha3 g' t' \<and> t_uniform (2 * length key) t' \<and>
    (\<forall>q. length q < 2 ^ 31 \<longrightarrow>
      fst (trie_at overlay_ops q g') = (if q = key then Inr [] else fst (trie_at overlay_ops q g)))"
proof -
  let ?r = "t_delete (asNibbles key) t"
  obtain g' where g': "trie_remove overlay_ops sha3 key g = (Inr (), g')" "\<not> m_enforceRefs (ov_cache (gt_db g'))"
    "trie_repr overlay_ops sha3 g' (case ?r of None \<Rightarrow> t | Some t' \<Rightarrow> t')"
    using overlay_db.trie_remove_repr [OF repr refs key inj] by blast
  have t: "t_ok t" "t_uniform (length (asNibbles key)) t" "key_ok (asNibbles key)"
    using repr key part_asNibbles [of key] by (simp_all add: trie_repr_def part_ok_def)
  have "t_uniform (2 * length key) (case ?r of None \<Rightarrow> t | Some t' \<Rightarrow> t')"
    using t_delete_uniform [OF t(1) key(2)] key(2) by (simp split: option.split)
  moreover have "t_lookup (case ?r of None \<Rightarrow> t | Some t' \<Rightarrow> t') ks = (if ks = asNibbles key then [] else t_lookup t ks)" for ks
    using t_delete_lookup [OF t] by (auto split: option.split)
  ultimately show ?thesis
    using g' overlay_db.trie_at_repr [OF repr refs] overlay_db.trie_at_repr [OF g'(3,2)] by (auto simp: asNibbles_inj)
qed

text \<open>
  A key that is inserted and removed again leaves no trace: over OverlayDB, for keys of one length, the insertion of
  a key that is not there and the removal of it end with the root of the beginning.
\<close>

lemma trie_insert_remove_root:
  fixes g :: "OverlayDB GenericTrieDB"
  assumes repr: "trie_repr overlay_ops sha3 g t" and refs: "\<not> m_enforceRefs (ov_cache (gt_db g))"
    and entry: "entry_ok (key, v)" "t_uniform (2 * length key) t" and new: "fst (trie_at overlay_ops key g) = Inr []"
    and inj: "inj_on sha3 (set (insert_nodes sha3 key v t))"
      "inj_on sha3 (set (delete_nodes sha3 key (t_insert (asNibbles key) v t)))"
  shows "\<exists>g'. ebind (trie_insert overlay_ops sha3 key v) (\<lambda>_. trie_remove overlay_ops sha3 key) g = (Inr (), g') \<and>
    gt_root g' = gt_root g"
proof -
  let ?ks = "asNibbles key"
  let ?t = "t_insert ?ks v t"
  let ?u = "case t_delete ?ks ?t of None \<Rightarrow> ?t | Some t' \<Rightarrow> t'"
  have key: "length key < 2 ^ 31" "part_ok ?ks" "key_ok ?ks" "t_ok t" "t_fit t"
    using entry(1) part_asNibbles [of key] repr by (simp_all add: entry_ok_def part_ok_def trie_repr_def)
  obtain h where h: "trie_insert overlay_ops sha3 key v g = (Inr (), h)" "\<not> m_enforceRefs (ov_cache (gt_db h))"
    "trie_repr overlay_ops sha3 h ?t"
    using overlay_db.trie_insert_repr [OF repr refs entry(1) inj(1)] by blast
  have uni: "t_uniform (2 * length key) ?t" "t_uniform (length ?ks) ?t" using uniform_insert [of ?ks t v] entry(2) key by simp_all
  obtain g' where g': "trie_remove overlay_ops sha3 key h = (Inr (), g')" "trie_repr overlay_ops sha3 g' ?u"
    using overlay_db.trie_remove_repr [OF h(3,2) key(1) uni(1) inj(2)] by blast
  have ok: "t_ok ?t" using h(3) by (simp add: trie_repr_def)
  have "t_lookup ?u ks = (if ks = ?ks then [] else t_lookup ?t ks)" for ks
    using t_delete_lookup [OF ok uni(2) key(3)] by (auto split: option.split)
  then have "t_lookup ?u = t_lookup t"
    using t_lookup_insert [OF key(4,3), of v] new overlay_db.trie_at_repr [OF repr refs key(1)] by (auto simp: fun_eq_iff)
  then have "?u = t" using g'(2) key(4) by (intro canonical_unique) (simp_all add: trie_repr_def)
  with g' repr h(1) show ?thesis by (simp add: trie_repr_def ebind_def)
qed

subsection \<open>Instances\<close>

definition leaf_trie :: "OverlayDB GenericTrieDB" where
  "leaf_trie = \<lparr>gt_root = sum_hash [0xc4, 0x82, 0x20, 0x12, 1], gt_db = \<lparr>ov_cache = \<lparr>m_main =
       [sum_hash [0xc4, 0x82, 0x20, 0x12, 1] \<mapsto> ([0xc4, 0x82, 0x20, 0x12, 1], 1)], m_aux = Map.empty, m_enforceRefs = False\<rparr>,
     ov_disk = None\<rparr>\<rparr>"

lemma leaf_trie_repr:
  "trie_repr overlay_ops sum_hash leaf_trie (TLeaf (asNibbles [0x12]) [1])" "\<not> m_enforceRefs (ov_cache (gt_db leaf_trie))"
proof -
  have item: "encode (node_item sum_hash (TLeaf (asNibbles [0x12]) [1])) = [0xc4, 0x82, 0x20, 0x12, 1]" by (rule small_leaf) simp
  have "part_ok (asNibbles [0x12])" by (rule part_asNibbles) simp
  moreover have "t_dom (TLeaf (asNibbles [0x12]) [1]) = {asNibbles [0x12]}" by (rule dom_leaf) simp
  moreover have "\<exists>q :: bytes. length q < 2 ^ 31 \<and> asNibbles [0x12] = asNibbles q" by (rule exI [of _ "[0x12]"]) simp
  ultimately show "trie_repr overlay_ops sum_hash leaf_trie (TLeaf (asNibbles [0x12]) [1])"
    unfolding trie_repr_def item
    by (simp add: part_ok_def leaf_trie_def overlay_ops_def overlay_lookup_def cache_lookup_def held_def del: asNibbles_simps)
qed (simp add: leaf_trie_def)

lemma small_delete_nodes: "delete_nodes sum_hash [0x12] (TLeaf (asNibbles [0x12]) [1]) = [[0xc4, 0x82, 0x20, 0x12, 1], [0x80]]"
  using small_leaf [of 1 sum_hash] by (simp add: delete_nodes_def new_root_def encode.simps(1) header_def)

lemma small_delete_inj: "inj_on sum_hash (set (delete_nodes sum_hash [0x12] (TLeaf (asNibbles [0x12]) [1])))"
  unfolding small_delete_nodes by (rule inj_on_subset [OF sum_hash_inj]) auto

theorem trie_remove_lookup_witness:
  "\<exists>g'. trie_remove overlay_ops sum_hash [0x12] leaf_trie = (Inr (), g') \<and> fst (trie_at overlay_ops [0x12] g') = Inr []"
  using trie_remove_lookup [OF leaf_trie_repr _ _ small_delete_inj] by fastforce

end
