(* ===== verification/TrieHash.thy ===== *)
theory TrieHash
  imports TrieDelete "HOL-Library.List_Lexorder"
begin

text \<open>
  libdevcore/TrieHash.cpp: the root of the trie for given entries, computed directly from the sorted map without a
  database; it gives the roots of the transactions and the receipts of a block. The laws show that it is the root
  that \<^verbatim>\<open>GenericTrieDB\<close> ends with after the entries were inserted in any order.
\<close>

text \<open>\<^verbatim>\<open>std::map<bytes, bytes>\<close>; strings are in the order of their first different byte.\<close>

type_synonym BytesMap = "(bytes, bytes) omap"

section \<open>The computation\<close>

text \<open>The number of nibbles that the first key shares with each other one; \<open>shared\<close> starts at \<open>preLen\<close>.\<close>

function shared_loop :: "byte list \<Rightarrow> byte list \<Rightarrow> nat \<Rightarrow> nat \<Rightarrow> nat" where
  "shared_loop f k x shared = (if shared < x \<and> f ! shared = k ! shared then shared_loop f k x (Suc shared) else shared)"
  by pat_completeness auto
termination by (relation "measure (\<lambda>(f, k, x, shared). x - shared)") auto

declare shared_loop.simps [simp del]

fun sharedPre_loop :: "byte list \<Rightarrow> nat \<Rightarrow> BytesMap \<Rightarrow> nat \<Rightarrow> nat" where
  "sharedPre_loop f preLen [] sharedPre = sharedPre"
| "sharedPre_loop f preLen ((k, v) # m) sharedPre =
     (if sharedPre = 0 then sharedPre
      else sharedPre_loop f preLen m
        (min (shared_loop f k (min sharedPre (min (length f) (length k))) preLen) sharedPre))"

text \<open>The ranges of entries with the nibbles from a list after \<open>preLen\<close> nibbles, one after the other.\<close>

primrec ranges :: "nat \<Rightarrow> nat list \<Rightarrow> BytesMap \<Rightarrow> BytesMap list" where
  "ranges preLen [] b = []"
| "ranges preLen (i # is) b =
     takeWhile (\<lambda>(k, v). preLen < length k \<and> unat (k ! preLen) = i) b #
     ranges preLen is (dropWhile (\<lambda>(k, v). preLen < length k \<and> unat (k ! preLen) = i) b)"

text \<open>\<^verbatim>\<open>hash256aux\<close>: what \<^verbatim>\<open>hash256rlp\<close> writes, or the hash of it.\<close>

definition hash256aux :: "(bytes \<Rightarrow> h256) \<Rightarrow> writer \<Rightarrow> writer" where
  "hash256aux sha3 w st =
     sbind (sbind (w empty_stream) stream_out) (\<lambda>out. if length out < 32 then appendRaw out 1 st else append_hash 32 (sha3 out) st)"

lemma shared_loop_le: "shared_loop f k x s \<le> max s x"
proof (induction f k x s rule: shared_loop.induct)
  case (1 f k x s)
  then show ?case by (subst shared_loop.simps) auto
qed

lemma sharedPre_le: "preLen < sharedPre_loop f preLen m s \<Longrightarrow> m \<noteq> [] \<Longrightarrow> preLen < length f"
proof (induction f preLen m s rule: sharedPre_loop.induct)
  case (2 f preLen k v m s)
  let ?s = "min (shared_loop f k (min s (min (length f) (length k))) preLen) s"
  show ?case
  proof (cases "m = []")
    case True
    with 2 shared_loop_le [of f k "min s (min (length f) (length k))" preLen] show ?thesis by (auto split: if_splits)
  qed (use 2 in \<open>auto split: if_splits\<close>)
qed simp

lemma ranges_sub: "r \<in> set (ranges preLen is b) \<Longrightarrow> e \<in> set r \<Longrightarrow> e \<in> set b \<and> preLen < length (fst e)"
  by (induction "is" arbitrary: b) (auto dest: set_takeWhileD set_dropWhileD)

definition maxlen :: "BytesMap \<Rightarrow> nat" where
  "maxlen m = Max (insert 0 ((length \<circ> fst) ` set m))"

lemma maxlen_ge: "e \<in> set m \<Longrightarrow> length (fst e) \<le> maxlen m"
  by (simp add: maxlen_def)

lemma maxlen_sub: "set r \<subseteq> set m \<Longrightarrow> maxlen r \<le> maxlen m"
  unfolding maxlen_def by (rule Max_mono) auto

lemma maxlen_range:
  assumes "r \<in> set (ranges preLen is b)" and "r \<noteq> []" and "set b \<subseteq> set m"
  shows "maxlen r - Suc preLen < maxlen m - preLen"
proof -
  have "set r \<subseteq> set m" using ranges_sub [OF assms(1)] assms(3) by auto
  from maxlen_sub [OF this] have "maxlen r \<le> maxlen m" .
  moreover have "preLen < maxlen m"
    using ranges_sub [OF assms(1), of "hd r"] maxlen_ge [of "hd r" m] assms(2,3) by fastforce
  ultimately show ?thesis by linarith
qed

text \<open>\<^verbatim>\<open>hash256rlp\<close>; \<^verbatim>\<open>(unsigned)-1\<close> is the start of the minimum.\<close>

function (sequential) hash256rlp :: "(bytes \<Rightarrow> h256) \<Rightarrow> BytesMap \<Rightarrow> nat \<Rightarrow> writer" where
  "hash256rlp sha3 [] preLen = append_str []"
| "hash256rlp sha3 [(k, v)] preLen =
     write_all [appendList 2, append_str (hexPrefixEncode_vector k True preLen (-1)), append_str v]"
| "hash256rlp sha3 ((k, v) # e # m) preLen =
     (if sharedPre_loop k preLen (e # m) (2 ^ 32 - 1) > preLen then
        write_all [appendList 2,
          append_str (hexPrefixEncode_vector k False preLen (int (sharedPre_loop k preLen (e # m) (2 ^ 32 - 1)))),
          hash256aux sha3 (hash256rlp sha3 ((k, v) # e # m) (sharedPre_loop k preLen (e # m) (2 ^ 32 - 1)))]
      else
        write_all (appendList 17 #
          map (\<lambda>r. if r = [] then append_str [] else hash256aux sha3 (hash256rlp sha3 r (Suc preLen)))
            (ranges preLen [0..<16] (if preLen = length k then e # m else (k, v) # e # m)) @
          [append_str (if preLen = length k then v else [])]))"
  by pat_completeness auto
termination
proof (relation "measure (\<lambda>(sha3, m, preLen). maxlen m - preLen)", goal_cases)
  case (2 sha3 k v e m preLen)
  from sharedPre_le [OF this] have "preLen < length k" by simp
  moreover have "length k \<le> maxlen ((k, v) # e # m)" using maxlen_ge [of "(k, v)"] by simp
  ultimately show ?case using 2 by (simp del: sharedPre_loop.simps)
next
  case (3 sha3 k v e m preLen r)
  have "set (if preLen = length k then e # m else (k, v) # e # m) \<subseteq> set ((k, v) # e # m)" by auto
  from maxlen_range [OF 3(2,3) this] show ?case by simp
qed simp

definition rlp256 :: "(bytes \<Rightarrow> h256) \<Rightarrow> BytesMap \<Rightarrow> rlp_error + bytes" where
  "rlp256 sha3 m =
     (if m = [] then Inr RLPNull
      else sbind (hash256rlp sha3 (fold (\<lambda>(k, v). om_insert (asNibbles k) v) (rev m) []) 0 empty_stream) stream_out)"

definition hash256 :: "(bytes \<Rightarrow> h256) \<Rightarrow> BytesMap \<Rightarrow> rlp_error + h256" where
  "hash256 sha3 m = sbind (rlp256 sha3 m) (\<lambda>b. Inr (sha3 b))"

text \<open>\<^verbatim>\<open>orderedTrieRoot\<close>: the keys are the positions, counted by an \<^verbatim>\<open>unsigned\<close>.\<close>

definition rlp_index :: "nat \<Rightarrow> rlp_error + bytes" where
  "rlp_index j = sbind (append_bigint j empty_stream) stream_out"

primrec indexed_map :: "nat \<Rightarrow> bytes list \<Rightarrow> BytesMap \<Rightarrow> rlp_error + BytesMap" where
  "indexed_map j [] m = Inr m"
| "indexed_map j (b # bs) m = sbind (rlp_index j) (\<lambda>k. indexed_map (Suc j mod 2 ^ 32) bs (om_insert k b m))"

definition orderedTrieRoot :: "(bytes \<Rightarrow> h256) \<Rightarrow> bytes list \<Rightarrow> rlp_error + h256" where
  "orderedTrieRoot sha3 data = sbind (indexed_map 0 data []) (hash256 sha3)"

section \<open>The hex-prefix form of a vector\<close>

lemma plus_nibble: "is_nibble b \<Longrightarrow> a * 16 + b = push_bit 4 a OR b"
proof -
  assume b: "is_nibble b"
  have "push_bit 4 a + b = push_bit 4 a OR b"
    by (rule disjunctive_add) (auto simp: bit_push_bit_iff dest: is_nibble_bit [OF b])
  then show ?thesis by (simp add: push_bit_eq_mult)
qed

lemma hp_pairs_pack:
  "key_ok v \<Longrightarrow> i \<le> e \<Longrightarrow> e \<le> length v \<Longrightarrow> even (e - i) \<Longrightarrow> hp_pairs v i e ret = ret @ pack (take (e - i) (drop i v))"
proof (induction v i e ret rule: hp_pairs.induct)
  case (1 v i e ret)
  show ?case
  proof (cases "i < e")
    case True
    then have "Suc i < e" using "1.prems"(4) by (cases "e = Suc i") auto
    moreover from this have "even (e - (i + 2))" using "1.prems"(4) by simp
    moreover have "take (e - i) (drop i v) = v ! i # v ! Suc i # take (e - (i + 2)) (drop (i + 2) v)"
      using \<open>Suc i < e\<close> "1.prems"(3) by (simp add: Cons_nth_drop_Suc [symmetric] numeral_2_eq_2 Suc_diff_Suc take_Suc_Cons [symmetric] del: take_Suc_Cons)
    moreover have "is_nibble (v ! Suc i)" using \<open>Suc i < e\<close> "1.prems"(1,3) by simp
    ultimately show ?thesis using True "1.IH" "1.prems"(1,3) by (subst hp_pairs.simps) (simp add: plus_nibble)
  qed (use "1.prems" in \<open>subst hp_pairs.simps, simp\<close>)
qed

lemma hexPrefixEncode_vector_hp:
  assumes "key_ok v" and "i \<le> j" and "j \<le> length v" and "e = int j \<or> e = -1 \<and> j = length v"
  shows "hexPrefixEncode_vector v leaf i e = hp leaf (take (j - i) (drop i v))"
proof -
  have e: "(if e < 0 then nat (int (length v) + 1 + e) else nat e) = j" using assms(4) by auto
  have len: "length (take (j - i) (drop i v)) = j - i" using assms(3) by simp
  show ?thesis
  proof (cases "odd (j - i)")
    case True
    then have "i < j" by (cases "i = j") (use assms(2) in auto)
    then have "take (j - i) (drop i v) = v ! i # take (j - Suc i) (drop (Suc i) v)"
      using assms(3) by (simp add: Cons_nth_drop_Suc [symmetric] Suc_diff_Suc take_Suc_Cons [symmetric] del: take_Suc_Cons)
    moreover have "hp_pairs v (i + 1) j [hp_flags leaf True OR v ! i] = [hp_flags leaf True OR v ! i] @ pack (take (j - Suc i) (drop (Suc i) v))"
      using hp_pairs_pack [of v "i + 1" j] assms \<open>i < j\<close> True by simp
    ultimately show ?thesis using True len unfolding hexPrefixEncode_vector_def Let_def e hp_def by simp
  next
    case False
    then show ?thesis using hp_pairs_pack [of v i j] assms len unfolding hexPrefixEncode_vector_def Let_def e hp_def by simp
  qed
qed

section \<open>The tree of a sorted map\<close>

function (sequential) t_of :: "BytesMap \<Rightarrow> nat \<Rightarrow> trie" where
  "t_of [] preLen = TEmpty"
| "t_of [(k, v)] preLen = TLeaf (drop preLen k) v"
| "t_of ((k, v) # e # m) preLen =
     (if sharedPre_loop k preLen (e # m) (2 ^ 32 - 1) > preLen
      then TExt (take (sharedPre_loop k preLen (e # m) (2 ^ 32 - 1) - preLen) (drop preLen k))
        (t_of ((k, v) # e # m) (sharedPre_loop k preLen (e # m) (2 ^ 32 - 1)))
      else TBranch (map (\<lambda>r. if r = [] then TEmpty else t_of r (Suc preLen))
          (ranges preLen [0..<16] (if preLen = length k then e # m else (k, v) # e # m)))
        (if preLen = length k then v else []))"
  by pat_completeness auto
termination
proof (relation "measure (\<lambda>(m, preLen). maxlen m - preLen)", goal_cases)
  case (2 k v e m preLen)
  from sharedPre_le [OF this] have "preLen < length k" by simp
  moreover have "length k \<le> maxlen ((k, v) # e # m)" using maxlen_ge [of "(k, v)"] by simp
  ultimately show ?case using 2 by (simp del: sharedPre_loop.simps)
next
  case (3 k v e m preLen r)
  have "set (if preLen = length k then e # m else (k, v) # e # m) \<subseteq> set ((k, v) # e # m)" by auto
  from maxlen_range [OF 3(2,3) this] show ?case by simp
qed simp

declare t_of.simps(3) [simp del] hash256rlp.simps(3) [simp del] sharedPre_loop.simps(2) [simp del]

subsection \<open>Common parts of keys\<close>

lemma shared_loop_spec:
  "s \<le> x \<Longrightarrow> s \<le> shared_loop f k x s \<and> shared_loop f k x s \<le> x \<and> (\<forall>j. s \<le> j \<and> j < shared_loop f k x s \<longrightarrow> f ! j = k ! j) \<and>
   (shared_loop f k x s < x \<longrightarrow> f ! shared_loop f k x s \<noteq> k ! shared_loop f k x s)"
proof (induction f k x s rule: shared_loop.induct)
  case (1 f k x s)
  show ?case
  proof (cases "s < x \<and> f ! s = k ! s")
    case True
    with 1 have "shared_loop f k x s = shared_loop f k x (Suc s)" by (subst shared_loop.simps) simp
    moreover have "f ! j = k ! j" if "s \<le> j" "j < shared_loop f k x (Suc s)" for j
      using that True 1 by (cases "j = s") auto
    ultimately show ?thesis using True 1 by auto
  next
    case False
    then have "shared_loop f k x s = s" by (subst shared_loop.simps) auto
    with False 1 show ?thesis by auto
  qed
qed

text \<open>\<open>s\<close> nibbles are common to \<open>f\<close> and to all keys, and not one more.\<close>

definition common :: "byte list \<Rightarrow> nat \<Rightarrow> BytesMap \<Rightarrow> nat \<Rightarrow> bool" where
  "common f preLen m s \<longleftrightarrow> (\<forall>e\<in>set m. s \<le> length (fst e) \<and> (\<forall>j. preLen \<le> j \<and> j < s \<longrightarrow> f ! j = fst e ! j))"

lemma sharedPre_spec:
  assumes "preLen \<le> length f" and "\<forall>e\<in>set m. preLen \<le> length (fst e)" and "preLen \<le> s0"
  defines "s \<equiv> sharedPre_loop f preLen m s0"
  shows "preLen \<le> s \<and> s \<le> s0 \<and> (m \<noteq> [] \<longrightarrow> s \<le> length f) \<and> common f preLen m s \<and>
    (s < s0 \<longrightarrow> (\<exists>e\<in>set m. s = length f \<or> s = length (fst e) \<or> f ! s \<noteq> fst e ! s))"
  using assms(1-3) unfolding s_def
proof (induction f preLen m s0 rule: sharedPre_loop.induct)
  case (2 f preLen k v m s0)
  show ?case
  proof (cases "s0 = 0")
    case False
    define x where "x = min s0 (min (length f) (length k))"
    define h where "h = shared_loop f k x preLen"
    define r where "r = sharedPre_loop f preLen m (min h s0)"
    have "preLen \<le> x" using "2.prems" by (auto simp: x_def)
    from shared_loop_spec [OF this, of f k] have h: "preLen \<le> h" "h \<le> x" "\<And>j. preLen \<le> j \<Longrightarrow> j < h \<Longrightarrow> f ! j = k ! j"
      "h < x \<Longrightarrow> f ! h \<noteq> k ! h" by (auto simp: h_def)
    have x: "x \<le> length f" "x \<le> length k" "x \<le> s0" "x = length f \<or> x = length k \<or> x = s0" by (auto simp: x_def)
    have eq: "sharedPre_loop f preLen ((k, v) # m) s0 = r" using False by (simp add: sharedPre_loop.simps(2) r_def h_def x_def)
    have "preLen \<le> min h s0" "\<forall>e\<in>set m. preLen \<le> length (fst e)" using h(1) "2.prems" by simp_all
    from "2.IH" [OF False "2.prems"(1), folded x_def, folded h_def, folded r_def, OF this(2,1)]
    have r: "preLen \<le> r" "r \<le> h" "common f preLen m r" "r < min h s0 \<Longrightarrow> \<exists>e\<in>set m. r = length f \<or> r = length (fst e) \<or> f ! r \<noteq> fst e ! r"
      by auto
    have "\<exists>e\<in>set ((k, v) # m). r = length f \<or> r = length (fst e) \<or> f ! r \<noteq> fst e ! r" if "r < s0"
    proof (cases "r < min h s0")
      case False
      then have "r = h" using r(2) that h x by simp
      then show ?thesis using h(4) h(2) x that by fastforce
    qed (use r(4) in auto)
    then show ?thesis unfolding eq using r h x by (auto simp: common_def)
  qed (use "2.prems" in \<open>auto simp: common_def sharedPre_loop.simps(2)\<close>)
qed (simp add: common_def)

subsection \<open>The order of the keys\<close>

lemma prefix_less: "p @ a < p @ b \<longleftrightarrow> a < b" for a b p :: "byte list"
  by (induction p) simp_all

lemma split_keys:
  fixes f k :: "byte list"
  assumes "f < k" and "take n k = take n f"
  shows "drop n f < drop n k"
  using assms by (metis append_take_drop_id prefix_less)

lemma later_longer: "f < k \<Longrightarrow> take n k = take n f \<Longrightarrow> n < length k" for f k :: "byte list"
  using split_keys [of f k n] by (cases "n < length k") auto

lemma nibble_le:
  fixes f k :: "byte list"
  assumes "f < k" and "take n k = take n f" and "n < length f"
  shows "f ! n \<le> k ! n"
proof -
  have "n < length k" by (rule later_longer [OF assms(1,2)])
  with split_keys [OF assms(1,2)] assms(3) have "f ! n # drop (Suc n) f < k ! n # drop (Suc n) k" by (simp add: Cons_nth_drop_Suc)
  then show ?thesis by auto
qed

lemma take_while_sorted:
  assumes "sorted (map g xs)" and "\<forall>x\<in>set xs. i \<le> g x"
  shows "takeWhile (\<lambda>x. g x = i) xs = filter (\<lambda>x. g x = i) xs \<and> dropWhile (\<lambda>x. g x = i) xs = filter (\<lambda>x. g x \<noteq> i) xs"
  using assms
proof (induction xs)
  case (Cons x xs)
  show ?case
  proof (cases "g x = i")
    case False
    then have "\<forall>y\<in>set xs. g y \<noteq> i" using Cons.prems by fastforce
    then show ?thesis using False by (simp add: filter_empty_conv filter_id_conv)
  qed (use Cons in auto)
qed simp

lemma ranges_filter:
  assumes "\<forall>e\<in>set b. n < length (fst e)" and "sorted (map (\<lambda>e. unat (fst e ! n)) b)" and "\<forall>e\<in>set b. i \<le> unat (fst e ! n)"
  shows "ranges n [i..<j] b = map (\<lambda>l. filter (\<lambda>e. unat (fst e ! n) = l) b) [i..<j]"
  using assms
proof (induction "j - i" arbitrary: i b)
  case (Suc d)
  then have ij: "i < j" by simp
  have cong: "takeWhile (\<lambda>(k, v). n < length k \<and> unat (k ! n) = i) b = takeWhile (\<lambda>e. unat (fst e ! n) = i) b"
    "dropWhile (\<lambda>(k, v). n < length k \<and> unat (k ! n) = i) b = dropWhile (\<lambda>e. unat (fst e ! n) = i) b"
    using Suc.prems(1) by (auto intro!: takeWhile_cong dropWhile_cong)
  note tw = take_while_sorted [OF Suc.prems(2,3)]
  let ?b = "filter (\<lambda>e. unat (fst e ! n) \<noteq> i) b"
  have "ranges n [Suc i..<j] ?b = map (\<lambda>l. filter (\<lambda>e. unat (fst e ! n) = l) ?b) [Suc i..<j]"
    using Suc.prems Suc.hyps(2) sorted_filter [OF Suc.prems(2)] by (intro Suc.hyps(1)) force+
  moreover have "filter (\<lambda>e. unat (fst e ! n) = l) ?b = filter (\<lambda>e. unat (fst e ! n) = l) b" if "l \<noteq> i" for l
    using that by (auto intro: filter_cong)
  ultimately show ?case using tw cong ij by (simp add: upt_conv_Cons)
qed simp

definition hex_inv :: "BytesMap \<Rightarrow> nat \<Rightarrow> bool" where
  "hex_inv m n \<longleftrightarrow> om_wf m \<and> (\<forall>e\<in>set m. key_ok (fst e) \<and> length (fst e) < 2 ^ 32 - 1 \<and> n \<le> length (fst e) \<and>
     take n (fst e) = take n (fst (hd m)) \<and> snd e \<noteq> [] \<and> length (snd e) < 2 ^ 32)"

lemma hex_inv_branch:
  assumes "hex_inv ((k, v) # m) n"
  defines "b \<equiv> (if n = length k then m else (k, v) # m)"
  shows "\<forall>e\<in>set b. n < length (fst e)" and "sorted (map (\<lambda>e. unat (fst e ! n)) b)"
proof -
  have wf: "om_wf ((k, v) # m)" and take: "\<And>e. e \<in> set ((k, v) # m) \<Longrightarrow> take n (fst e) = take n k \<and> n \<le> length (fst e)"
    using assms(1) by (auto simp: hex_inv_def)
  have "n < length (fst e)" if "e \<in> set m" for e
    using wf that take by (intro later_longer [of k]) (auto simp: om_wf_def)
  then show long: "\<forall>e\<in>set b. n < length (fst e)" using take [of "(k, v)"] by (auto simp: b_def)
  have "om_wf b" using wf by (auto simp: b_def om_wf_def)
  then have "sorted_wrt (\<lambda>x y. fst x < fst y) b" by (simp add: om_wf_def sorted_wrt_map)
  moreover have "unat (fst x ! n) \<le> unat (fst y ! n)" if "x \<in> set b" "y \<in> set b" "fst x < fst y" for x y
    using nibble_le [of "fst x" "fst y" n] that long take [of x] take [of y]
    by (auto simp: b_def word_le_nat_alt split: if_splits)
  ultimately show "sorted (map (\<lambda>e. unat (fst e ! n)) b)"
    unfolding sorted_map by (rule sorted_wrt_mono_rel [rotated])
qed

subsection \<open>The tree is canonical and has the entries of the map\<close>

text \<open>The split of a map with more than one entry, as \<^verbatim>\<open>hash256rlp\<close> makes it.\<close>

lemma shared_inv:
  assumes inv: "hex_inv ((k, v) # e # m) n"
  defines "s \<equiv> sharedPre_loop k n (e # m) (2 ^ 32 - 1)"
  shows "n \<le> s" "s \<le> length k" "hex_inv ((k, v) # e # m) s"
    and "\<exists>x\<in>set (e # m). s = length k \<or> s = length (fst x) \<or> k ! s \<noteq> fst x ! s"
proof -
  have all: "\<And>x. x \<in> set ((k, v) # e # m) \<Longrightarrow> n \<le> length (fst x) \<and> length (fst x) < 2 ^ 32 - 1 \<and> take n (fst x) = take n k"
    using inv by (auto simp: hex_inv_def)
  have sp: "n \<le> s" "s \<le> length k" "common k n (e # m) s"
    "s < 2 ^ 32 - 1 \<longrightarrow> (\<exists>x\<in>set (e # m). s = length k \<or> s = length (fst x) \<or> k ! s \<noteq> fst x ! s)"
    using sharedPre_spec [of n k "e # m" "2 ^ 32 - 1"] all [of "(k, v)"] all by (auto simp: s_def)
  then show "n \<le> s" "s \<le> length k" by auto
  show "\<exists>x\<in>set (e # m). s = length k \<or> s = length (fst x) \<or> k ! s \<noteq> fst x ! s" using sp(2,4) all [of "(k, v)"] by auto
  have "take s (fst x) = take s k \<and> s \<le> length (fst x)" if "x \<in> set (e # m)" for x
  proof
    show l: "s \<le> length (fst x)" using sp(3) that by (auto simp: common_def)
    show "take s (fst x) = take s k"
    proof (rule nth_equalityI)
      fix j assume "j < length (take s (fst x))"
      then have j: "j < s" using l by simp
      show "take s (fst x) ! j = take s k ! j"
      proof (cases "j < n")
        case True
        have "take n (fst x) ! j = take n k ! j" using all [of x] that by simp
        then show ?thesis using True j by simp
      next
        case False
        then show ?thesis using sp(3) that j by (auto simp: common_def)
      qed
    qed (use l sp(2) in simp)
  qed
  then show "hex_inv ((k, v) # e # m) s" using inv sp(2) by (auto simp: hex_inv_def)
qed

lemma range_inv:
  assumes inv: "hex_inv ((k, v) # m) n"
    and r: "r = filter (\<lambda>e. unat (fst e ! n) = i) (if n = length k then m else (k, v) # m)"
  shows "hex_inv r (Suc n)" and "\<forall>e\<in>set r. take (Suc n) (fst e) = take n k @ [of_nat i]"
proof -
  have long: "n < length (fst e)" if "e \<in> set r" for e using hex_inv_branch(1) [OF inv] that by (auto simp: r)
  have mem: "e \<in> set ((k, v) # m)" "unat (fst e ! n) = i" if "e \<in> set r" for e using that by (auto simp: r split: if_splits)
  have all: "key_ok (fst e) \<and> length (fst e) < 2 ^ 32 - 1 \<and> take n (fst e) = take n k \<and> snd e \<noteq> [] \<and> length (snd e) < 2 ^ 32"
    if "e \<in> set r" for e using inv mem(1) [OF that] by (auto simp: hex_inv_def)
  have "fst e ! n = of_nat i" if "e \<in> set r" for e using mem(2) [OF that] by (auto simp flip: mem(2) [OF that])
  then show take: "\<forall>e\<in>set r. take (Suc n) (fst e) = take n k @ [of_nat i]"
    using long all by (simp add: take_Suc_conv_app_nth)
  have "om_wf r" using inv unfolding r om_wf_def hex_inv_def
    by (auto simp: sorted_wrt_map intro: sorted_wrt_filter)
  then show "hex_inv r (Suc n)" unfolding hex_inv_def
    using all take long by (cases r) (auto simp: Suc_le_eq)
qed

lemma shared_max:
  assumes inv: "hex_inv ((k, v) # e # m) n"
  defines "s \<equiv> sharedPre_loop k n (e # m) (2 ^ 32 - 1)"
  shows "sharedPre_loop k s (e # m) (2 ^ 32 - 1) = s"
proof (rule ccontr)
  define s' where "s' = sharedPre_loop k s (e # m) (2 ^ 32 - 1)"
  assume "s' \<noteq> s"
  note s = shared_inv [OF inv, folded s_def]
  note s' = shared_inv [OF s(3), folded s'_def]
  have lt: "s < s'" using s'(1) \<open>s' \<noteq> s\<close> by simp
  obtain x where x: "x \<in> set (e # m)" "s = length k \<or> s = length (fst x) \<or> k ! s \<noteq> fst x ! s" using s(4) by blast
  have "take s' (fst x) = take s' k" "s' \<le> length (fst x)" using s'(3) x(1) by (auto simp: hex_inv_def)
  moreover from this have "fst x ! s = k ! s" using lt by (metis nth_take)
  ultimately show False using x(2) lt s'(2) by auto
qed

lemma map_of_filter_key: "(\<And>v. (key, v) \<in> set m \<Longrightarrow> P (key, v)) \<Longrightarrow> map_of (filter P m) key = map_of m key"
  by (induction m) auto

lemma used_two:
  assumes "i < length cs" and "cs ! i \<noteq> TEmpty" and "v \<noteq> [] \<or> j < length cs \<and> cs ! j \<noteq> TEmpty \<and> i \<noteq> j"
  shows "2 \<le> used_slots cs v"
proof (cases "v = []")
  case True
  have "card {i, j} \<le> card (set (in_use cs))" using assms True by (intro card_mono) (auto simp: in_use_iff)
  then have "2 \<le> length (in_use cs)" using assms(3) True card_length [of "in_use cs"] by auto
  then show ?thesis using True by (simp add: length_in_use)
next
  case False
  have "i \<in> set (in_use cs)" using assms by (simp add: in_use_iff)
  then have "in_use cs \<noteq> []" by auto
  then have "0 < used_slots cs []" unfolding length_in_use [symmetric] by simp
  then show ?thesis using used_value [of "[]" v cs] False by simp
qed

text \<open>What the tree of a map has to be.\<close>

definition tree_for :: "BytesMap \<Rightarrow> nat \<Rightarrow> trie \<Rightarrow> bool" where
  "tree_for m n t \<longleftrightarrow> t_ok t \<and> t_fit t \<and> t \<noteq> TEmpty \<and>
     (\<forall>q. t_lookup t q = (case map_of m (take n (fst (hd m)) @ q) of None \<Rightarrow> [] | Some v \<Rightarrow> v))"

definition kids :: "BytesMap \<Rightarrow> nat \<Rightarrow> trie list" where
  "kids b n = map (\<lambda>i. case filter (\<lambda>e. unat (fst e ! n) = i) b of [] \<Rightarrow> TEmpty | r \<Rightarrow> t_of r (Suc n)) [0..<16]"

lemma kids_nth:
  "i < 16 \<Longrightarrow> kids b n ! i = (case filter (\<lambda>e. unat (fst e ! n) = i) b of [] \<Rightarrow> TEmpty | r \<Rightarrow> t_of r (Suc n))"
  by (simp add: kids_def del: upt_rec_numeral)

lemma length_kids [simp]: "length (kids b n) = 16"
  by (simp add: kids_def del: upt_rec_numeral)

lemma t_of_branch:
  assumes inv: "hex_inv ((k, v) # e # m) n" and "sharedPre_loop k n (e # m) (2 ^ 32 - 1) \<le> n"
  shows "t_of ((k, v) # e # m) n =
    TBranch (kids (if n = length k then e # m else (k, v) # e # m) n) (if n = length k then v else [])"
proof -
  let ?b = "if n = length k then e # m else (k, v) # e # m"
  have "ranges n [0..<16] ?b = map (\<lambda>l. filter (\<lambda>e. unat (fst e ! n) = l) ?b) [0..<16]"
    using hex_inv_branch [OF inv] by (intro ranges_filter) auto
  then show ?thesis using assms(2)
    by (auto simp: t_of.simps(3) kids_def comp_def split: list.split simp del: upt_rec_numeral)
qed

lemma tree_branch:
  assumes inv: "hex_inv ((k, v) # e # m) n" and s: "sharedPre_loop k n (e # m) (2 ^ 32 - 1) \<le> n"
  defines "b \<equiv> if n = length k then e # m else (k, v) # e # m"
  assumes IH: "\<And>i. i < 16 \<Longrightarrow> filter (\<lambda>e. unat (fst e ! n) = i) b \<noteq> [] \<Longrightarrow>
    tree_for (filter (\<lambda>e. unat (fst e ! n) = i) b) (Suc n) (t_of (filter (\<lambda>e. unat (fst e ! n) = i) b) (Suc n))"
  shows "tree_for ((k, v) # e # m) n (t_of ((k, v) # e # m) n)"
proof -
  let ?m = "(k, v) # e # m"
  have all: "key_ok (fst x)" "take n (fst x) = take n k" "n \<le> length (fst x)" "snd x \<noteq> []" "length (snd x) < 2 ^ 32" if "x \<in> set ?m" for x
    using inv that by (auto simp: hex_inv_def)
  have long: "n < length (fst x)" if "x \<in> set b" for x using hex_inv_branch(1) [OF inv] that by (auto simp: b_def)
  have slot: "unat (fst x ! n) < 16" "kids b n ! unat (fst x ! n) \<noteq> TEmpty" if "x \<in> set b" for x
  proof -
    have "x \<in> set ?m" using that by (auto simp: b_def split: if_splits)
    then have "is_nibble (fst x ! n)" using all(1) long [OF that] by (auto simp del: set_simps)
    then show u: "unat (fst x ! n) < 16" by (rule nibble_unat)
    have "x \<in> set (filter (\<lambda>e. unat (fst e ! n) = unat (fst x ! n)) b)" using that by simp
    then have "filter (\<lambda>e. unat (fst e ! n) = unat (fst x ! n)) b \<noteq> []" by (metis list.distinct(1) list.set_cases)
    with IH [OF u this] show "kids b n ! unat (fst x ! n) \<noteq> TEmpty"
      by (auto simp: kids_nth [OF u] tree_for_def split: list.split)
  qed
  have kid: "t_ok (kids b n ! i) \<and> t_fit (kids b n ! i)" if "i < 16" for i
    using IH [OF that] by (auto simp: kids_nth [OF that] tree_for_def split: list.split)
  then have each: "\<forall>c\<in>set (kids b n). t_ok c \<and> t_fit c" by (auto simp: in_set_conv_nth)
  have "2 \<le> used_slots (kids b n) (if n = length k then v else [])"
  proof -
    obtain x where x: "x \<in> set (e # m)" "n = length k \<or> n = length (fst x) \<or> k ! n \<noteq> fst x ! n"
      using shared_inv(4) [OF inv] unfolding antisym [OF s shared_inv(1) [OF inv]] by blast
    have xb: "x \<in> set b" using x(1) by (auto simp: b_def)
    show ?thesis
    proof (cases "n = length k")
      case False
      then have kb: "(k, v) \<in> set b" by (simp add: b_def)
      have "k ! n \<noteq> fst x ! n" using x(2) False long [OF xb] by simp
      then show ?thesis using slot [OF xb] slot [OF kb] False
        by (intro used_two [of "unat (fst x ! n)" _ _ "unat (k ! n)"]) (auto simp: word_unat_eq_iff)
    qed (use slot [OF xb] all(4) [of "(k, v)"] in \<open>auto intro!: used_two [of "unat (fst x ! n)"]\<close>)
  qed
  then have ok: "t_ok (t_of ?m n)" "t_fit (t_of ?m n)" "t_of ?m n \<noteq> TEmpty"
    using each all(5) [of "(k, v)"] unfolding t_of_branch [OF inv s, folded b_def] by auto
  have "t_lookup (t_of ?m n) q = (case map_of ?m (take n k @ q) of None \<Rightarrow> [] | Some v \<Rightarrow> v)" for q
  proof (cases q)
    case Nil
    have "(take n k, w) \<notin> set ?m" if "n \<noteq> length k" for w
      using long [of "(take n k, w)"] that by (auto simp: b_def)
    then have "map_of ?m (take n k) = None" if "n \<noteq> length k" using that by (meson map_of_SomeD not_Some_eq)
    then show ?thesis unfolding t_of_branch [OF inv s, folded b_def] using Nil by (simp del: map_of.simps) simp
  next
    case (Cons x q')
    let ?key = "take n k @ x # q'" and ?r = "filter (\<lambda>e. unat (fst e ! n) = unat x) b"
    have len: "length (take n k) = n" using all(3) [of "(k, v)"] by simp
    have nth: "?key ! n = x" using len by (metis nth_append_length)
    have "n < length ?key" using len by simp
    then have "map_of b ?key = map_of ?m ?key" using len by (auto simp: b_def)
    then have r: "map_of ?r ?key = map_of ?m ?key" using map_of_filter_key [of ?key b] nth by simp
    show ?thesis
    proof (cases "unat x < 16")
      case True
      have "take (Suc n) (fst (hd ?r)) = take n k @ [x]" if "?r \<noteq> []"
        using bspec [OF range_inv(2) [OF inv refl, of "unat x", folded b_def] hd_in_set [OF that]] by simp
      then have "t_lookup (kids b n ! unat x) q' = (case map_of ?r ?key of None \<Rightarrow> [] | Some v \<Rightarrow> v)"
        using IH [OF True] by (cases "?r") (auto simp: kids_nth [OF True] tree_for_def)
      then show ?thesis unfolding t_of_branch [OF inv s, folded b_def] r using True Cons by simp
    next
      case False
      have "(?key, w) \<notin> set ?m" for w using all(1) [of "(?key, w)"] False nibble_unat [of x] by auto
      then have "map_of ?m ?key = None" by (meson map_of_SomeD not_Some_eq)
      then show ?thesis unfolding t_of_branch [OF inv s, folded b_def] using False Cons by (simp del: map_of.simps)
    qed
  qed
  with ok show ?thesis by (simp add: tree_for_def)
qed

lemma tree_leaf: "hex_inv [(k, v)] n \<Longrightarrow> tree_for [(k, v)] n (TLeaf (drop n k) v)"
  by (auto simp: tree_for_def hex_inv_def part_ok_def dest: in_set_dropD) (metis append_take_drop_id same_append_eq)+

lemma tree_shared:
  assumes inv: "hex_inv ((k, v) # e # m) n"
  defines "s \<equiv> sharedPre_loop k n (e # m) (2 ^ 32 - 1)"
  assumes "n < s" and t: "tree_for ((k, v) # e # m) s t" and "is_branch t"
  shows "tree_for ((k, v) # e # m) n (TExt (take (s - n) (drop n k)) t)"
proof -
  let ?m = "(k, v) # e # m" and ?p = "take (s - n) (drop n k)"
  note s = shared_inv [OF inv, folded s_def]
  have k: "key_ok k" "length k < 2 ^ 32 - 1" using inv by (auto simp: hex_inv_def)
  have p: "length ?p = s - n" "take s k = take n k @ ?p" "?p \<noteq> []"
    using s(2) \<open>n < s\<close> by (auto simp flip: take_add)
  have "part_ok ?p" using k p(1) by (auto simp: part_ok_def dest: in_set_takeD in_set_dropD)
  moreover have "t_lookup (TExt ?p t) q = (case map_of ?m (take n k @ q) of None \<Rightarrow> [] | Some v \<Rightarrow> v)" for q
  proof (cases "take (s - n) q = ?p")
    case True
    then have "take n k @ q = take s k @ drop (s - n) q" unfolding p(2) by (metis append_assoc append_take_drop_id)
    then show ?thesis using t True p(1) by (simp add: tree_for_def del: map_of.simps)
  next
    case False
    have "(take n k @ q, w) \<notin> set ?m" for w
    proof
      assume "(take n k @ q, w) \<in> set ?m"
      with s(3) have "take s (fst (take n k @ q, w)) = take s (fst (hd ?m))" unfolding hex_inv_def by blast
      then have "take s (take n k @ q) = take s k" by simp
      moreover have "length (take n k) = n" using s(1,2) by simp
      ultimately show False using False s(1) unfolding p(2) by simp
    qed
    then have "map_of ?m (take n k @ q) = None" by (meson map_of_SomeD not_Some_eq)
    then show ?thesis using False p(1) by (simp del: map_of.simps)
  qed
  ultimately show ?thesis using t p(3) \<open>is_branch t\<close> by (auto simp: tree_for_def part_ok_def)
qed

lemma tree_of: "hex_inv m n \<Longrightarrow> m \<noteq> [] \<Longrightarrow> tree_for m n (t_of m n)"
proof (induction m n rule: t_of.induct)
  case (3 k v e m n)
  let ?m = "(k, v) # e # m" and ?s = "sharedPre_loop k n (e # m) (2 ^ 32 - 1)"
  let ?b = "if n = length k then e # m else ?m"
  show ?case
  proof (cases "n < ?s")
    case True
    note s = shared_inv [OF "3.prems"(1)]
    have "is_branch (t_of ?m ?s)" using t_of_branch [OF s(3)] shared_max [OF "3.prems"(1)] by simp
    from tree_shared [OF "3.prems"(1) True _ this] "3.IH"(1) [OF True s(3)] True show ?thesis
      by (simp add: t_of.simps(3))
  next
    case False
    have "ranges n [0..<16] ?b = map (\<lambda>l. filter (\<lambda>e. unat (fst e ! n) = l) ?b) [0..<16]"
      using hex_inv_branch [OF "3.prems"(1)] by (intro ranges_filter) auto
    then have mem: "filter (\<lambda>e. unat (fst e ! n) = i) ?b \<in> set (ranges n [0..<16] ?b)" if "i < 16" for i
      using that by (auto simp del: upt_rec_numeral)
    show ?thesis
      by (rule tree_branch [OF "3.prems"(1)]) (use False "3.IH"(2) [OF False mem] range_inv(1) [OF "3.prems"(1) refl] in auto)
  qed
qed (simp_all add: tree_leaf)

section \<open>What is written is the form of the tree\<close>

lemma aux_item:
  assumes "rlp_fits it"
  shows "hash256aux sha3 (append_item it) = append_item (ref_item sha3 it)"
  by (rule ext) (simp add: hash256aux_def stream_item_out [OF assms] ref_item_def raw_item [OF assms, unfolded One_nat_def] append_hash_item del: encode.simps append_item.simps)

lemma write_items: "write_all (appendList (length ts) # map append_item ts) = append_item (RList ts)"
  by (rule ext) (simp only: write_all.simps append_item_list)

lemma write_pair: "write_all [appendList 2, append_item a, append_item b] = append_item (RList [a, b])"
  using write_items [of "[a, b]"] by (simp add: numeral_2_eq_2)

lemma write_branch:
  "length cs = 16 \<Longrightarrow> write_all (appendList 17 # map append_item cs @ [append_item x]) = append_item (RList (cs @ [x]))"
  using write_items [of "cs @ [x]"] by simp

lemma hash256rlp_item:
  "hex_inv m n \<Longrightarrow> hash256rlp sha3 m n = append_item (node_item sha3 (t_of m n))"
proof (induction m n rule: t_of.induct)
  case (2 k v n)
  then have "hexPrefixEncode_vector k True n (-1) = hp True (drop n k)"
    using hexPrefixEncode_vector_hp [of k n "length k" "-1" True] by (simp add: hex_inv_def)
  then show ?case by (simp only: hash256rlp.simps(2) t_of.simps(2) node_item.simps pair_item_def str_item write_pair)
next
  case (3 k v e m n)
  let ?m = "(k, v) # e # m" and ?s = "sharedPre_loop k n (e # m) (2 ^ 32 - 1)"
  let ?b = "if n = length k then e # m else ?m"
  note s = shared_inv [OF "3.prems"]
  show ?case
  proof (cases "n < ?s")
    case True
    have "hexPrefixEncode_vector k False n (int ?s) = hp False (take (?s - n) (drop n k))"
      using "3.prems" s(1,2) by (intro hexPrefixEncode_vector_hp) (auto simp: hex_inv_def)
    moreover have "rlp_fits (node_item sha3 (t_of ?m ?s))"
      using tree_of [OF s(3)] by (simp add: node_fits tree_for_def)
    ultimately show ?thesis
      unfolding hash256rlp.simps(3) [of sha3 k v e m n] t_of.simps(3) [of k v e m n] if_P [OF True] "3.IH"(1) [OF True s(3)] aux_item str_item
      by (simp only: write_pair node_item.simps pair_item_def aux_item)
  next
    case False
    have r: "ranges n [0..<16] ?b = map (\<lambda>l. filter (\<lambda>e. unat (fst e ! n) = l) ?b) [0..<16]"
      using hex_inv_branch [OF "3.prems"] by (intro ranges_filter) auto
    have child: "(if r = [] then append_str [] else hash256aux sha3 (hash256rlp sha3 r (Suc n))) =
        append_item (ref_item sha3 (node_item sha3 (if r = [] then TEmpty else t_of r (Suc n))))"
      if "r \<in> set (ranges n [0..<16] ?b)" for r
    proof (cases "r = []")
      case r_not: False
      have inv: "hex_inv r (Suc n)" using that range_inv(1) [OF "3.prems" refl] unfolding r by auto
      then have "rlp_fits (node_item sha3 (t_of r (Suc n)))" using tree_of [OF inv r_not] by (simp add: node_fits tree_for_def)
      then show ?thesis using "3.IH"(2) [OF False that r_not inv] r_not by (simp add: aux_item)
    qed (simp add: str_item)
    have eq: "map (\<lambda>r. if r = [] then append_str [] else hash256aux sha3 (hash256rlp sha3 r (Suc n))) (ranges n [0..<16] ?b) =
        map append_item (map (\<lambda>c. ref_item sha3 (node_item sha3 c))
          (map (\<lambda>r. if r = [] then TEmpty else t_of r (Suc n)) (ranges n [0..<16] ?b)))"
      unfolding map_map comp_def by (rule map_cong [OF refl child])
    have "length (ranges n [0..<16] ?b) = 16" unfolding r by (simp del: upt_rec_numeral)
    then show ?thesis
      unfolding hash256rlp.simps(3) [of sha3 k v e m n] t_of.simps(3) [of k v e m n] if_not_P [OF False] eq
      unfolding str_item node_item.simps by (subst write_branch) simp_all
  qed
qed (simp add: str_item)

section \<open>The map of nibbles\<close>

lemma hex_map:
  fixes m :: BytesMap
  defines "h \<equiv> fold (\<lambda>(k, v). om_insert (asNibbles k) v) m []"
  shows "om_wf h" and "map_of h = map_of (map (\<lambda>(k, v). (asNibbles k, v)) (rev m))"
proof -
  have "om_wf (fold (\<lambda>(k, v). om_insert (asNibbles k) v) m c)" if "om_wf c" for c :: BytesMap
    using that by (induction m arbitrary: c) auto
  then show "om_wf h" unfolding h_def by simp
  have "map_of (fold (\<lambda>(k, v). om_insert (asNibbles k) v) m c) = map_of c ++ map_of (map (\<lambda>(k, v). (asNibbles k, v)) (rev m))" for c :: BytesMap
    by (induction m arbitrary: c) (auto simp: map_add_def fun_eq_iff split: option.split)
  then show "map_of h = map_of (map (\<lambda>(k, v). (asNibbles k, v)) (rev m))" unfolding h_def by simp
qed

lemma rlp256_form:
  assumes wf: "om_wf m" and same: "map_of m = map_of (rev kvs)" and ok: "\<forall>e\<in>set kvs. entry_ok e"
  shows "rlp256 sha3 m = Inr (encode (node_item sha3 (t_insert_all kvs TEmpty)))"
proof (cases "m = []")
  case True
  then have "kvs = []" using same by (cases kvs rule: rev_cases) (auto simp: fun_eq_iff split: if_splits)
  then show ?thesis using True by (simp add: rlp256_def RLPNull_def header_def encode.simps(1))
next
  case False
  let ?h = "fold (\<lambda>(k, v). om_insert (asNibbles k) v) (rev m) []"
  note h = hex_map [of "rev m", simplified]
  have entry: "entry_ok e" if "e \<in> set m" for e
    using that ok same map_of_is_SomeI [OF om_wf_distinct [OF wf], of "fst e" "snd e"] map_of_SomeD [of "rev kvs" "fst e" "snd e"] by auto
  have mem: "\<exists>k. fst x = asNibbles k \<and> (k, snd x) \<in> set m" if "x \<in> set ?h" for x
  proof -
    have "map_of ?h (fst x) = Some (snd x)" using that by (intro map_of_is_SomeI om_wf_distinct h(1)) simp
    from map_of_SomeD [OF this [unfolded h(2)]] show ?thesis by auto
  qed
  have "key_ok (fst x) \<and> length (fst x) < 2 ^ 32 - 1 \<and> snd x \<noteq> [] \<and> length (snd x) < 2 ^ 32" if x: "x \<in> set ?h" for x
  proof -
    obtain k where k: "fst x = asNibbles k" "(k, snd x) \<in> set m" using mem [OF x] by blast
    with entry [OF k(2)] part_asNibbles [of k] show ?thesis by (auto simp: entry_ok_def part_ok_def)
  qed
  then have inv: "hex_inv ?h 0" using h(1) by (simp add: hex_inv_def)
  have "?h \<noteq> []"
  proof
    assume "?h = []"
    then have "map_of (map (\<lambda>(k, v). (asNibbles k, v)) m) = Map.empty" using h(2) by simp
    then show False using False by (simp only: map_of_eq_empty_iff) simp
  qed
  then have tree: "tree_for ?h 0 (t_of ?h 0)" by (rule tree_of [OF inv])
  have "map_of (map (\<lambda>(k, v). (asNibbles k, v)) m) ks = map_of (rev (map (\<lambda>(k, v). (asNibbles k, v)) kvs)) ks" for ks
    using same by (cases "\<exists>q. ks = asNibbles q") (auto simp: rev_map map_of_nibbles map_of_other)
  then have "t_of ?h 0 = t_insert_all kvs TEmpty"
    using tree ok h(2) by (intro canonical_unique) (simp_all add: tree_for_def insert_all_ok fun_eq_iff lookup_insert_all cong: option.case_cong)
  then show ?thesis using False hash256rlp_item [OF inv] tree
    by (simp add: rlp256_def stream_item_out node_fits tree_for_def)
qed

section \<open>The root without a database is the root of the trie\<close>

lemma build_repr:
  fixes g :: "OverlayDB GenericTrieDB"
  assumes "\<not> m_enforceRefs (ov_cache (gt_db g))" "\<forall>e\<in>set kvs. entry_ok e" "inj_on sha3 (set (run_nodes sha3 kvs TEmpty))"
  shows "\<exists>h. trie_build overlay_ops sha3 kvs g = (Inr (), h) \<and> trie_repr overlay_ops sha3 h (t_insert_all kvs TEmpty)"
  using overlay_db.trie_init_repr [OF assms(1), of sha3] overlay_db.trie_run_repr [OF _ _ assms(2,3)]
  by (fastforce simp: trie_build_def ebind_def)

text \<open>
  C11. \<^verbatim>\<open>hash256\<close> computes the root of a trie without building it. For entries inserted in any order, with
  overwriting, into a new trie over OverlayDB, the root that the trie ends with is \<^verbatim>\<open>hash256\<close> of the sorted map with the
  same contents. The hash has to be different on the nodes that are written.
\<close>

theorem hash256_trie_root:
  fixes g :: "OverlayDB GenericTrieDB"
  assumes "om_wf m" and "map_of m = map_of (rev kvs)" and "\<forall>e\<in>set kvs. entry_ok e"
    and "\<not> m_enforceRefs (ov_cache (gt_db g))" and "inj_on sha3 (set (run_nodes sha3 kvs TEmpty))"
  shows "\<exists>h. trie_build overlay_ops sha3 kvs g = (Inr (), h) \<and> hash256 sha3 m = Inr (gt_root h)"
  using build_repr [OF assms(4,3,5)] rlp256_form [OF assms(1-3), of sha3] by (auto simp: hash256_def trie_repr_def)

theorem hash256_trie_root_witness:
  "\<exists>h. trie_build overlay_ops sum_hash [([0x12], [1]), ([0x12], [2])] new_trie = (Inr (), h) \<and>
     hash256 sum_hash [([0x12], [2])] = Inr (gt_root h)"
proof (rule hash256_trie_root)
  show "inj_on sum_hash (set (run_nodes sum_hash [([0x12], [1]), ([0x12], [2])] TEmpty))"
    unfolding run_nodes.simps fst_conv snd_conv small_insert small_nodes by (rule inj_on_subset [OF sum_hash_inj]) auto
qed (use small_entries in \<open>auto simp: om_wf_def new_trie_def fun_eq_iff\<close>)

subsection \<open>The root of a list\<close>

lemma indexed_map_spec:
  assumes "\<And>i. i < length data \<Longrightarrow> rlp_index (j + i) = Inr (ks ! i)" and "length ks = length data" and "om_wf m"
    and "j + length data < 2 ^ 32"
  shows "\<exists>m'. indexed_map j data m = Inr m' \<and> om_wf m' \<and> map_of m' = map_of (rev (zip ks data) @ m)"
  using assms
proof (induction data arbitrary: j ks m)
  case (Cons b data)
  then obtain k ks' where ks: "ks = k # ks'" by (cases ks) auto
  have "rlp_index (Suc j + i) = Inr (ks' ! i)" if "i < length data" for i
    using Cons.prems(1) [of "Suc i"] that ks by simp
  from Cons.IH [OF this, of "om_insert k b m"] Cons.prems ks
  obtain m' where "indexed_map (Suc j) data (om_insert k b m) = Inr m'" "om_wf m'"
    "map_of m' = map_of (rev (zip ks' data) @ om_insert k b m)" by auto
  moreover have "rlp_index j = Inr k" using Cons.prems(1) [of 0] ks by simp
  moreover have "Suc j mod 2 ^ 32 = Suc j" using Cons.prems(4) by simp
  ultimately show ?case using ks by (simp add: map_add_def fun_eq_iff split: option.split)
qed simp

text \<open>\<^verbatim>\<open>orderedTrieRoot\<close> is the root of the trie in which every element is stored under its position.\<close>

definition positions :: "bytes list \<Rightarrow> (bytes \<times> bytes) list" where
  "positions data = zip (map (\<lambda>i. encode (RData (toCompactBigEndian i))) [0..<length data]) data"

lemma rlp_index_form: "i < 2 ^ 64 \<Longrightarrow> rlp_index i = Inr (encode (RData (toCompactBigEndian i)))"
  using append_bigint_encode [of i empty_stream]
  by (simp add: rlp_index_def empty_stream_def noteAppended_def stream_out_def)

lemma orderedTrieRoot_trie:
  fixes g :: "OverlayDB GenericTrieDB"
  assumes "length data < 2 ^ 32" and "\<forall>b\<in>set data. b \<noteq> [] \<and> length b < 2 ^ 32"
    and "\<not> m_enforceRefs (ov_cache (gt_db g))" and "inj_on sha3 (set (run_nodes sha3 (positions data) TEmpty))"
  shows "\<exists>h. trie_build overlay_ops sha3 (positions data) g = (Inr (), h) \<and> orderedTrieRoot sha3 data = Inr (gt_root h)"
proof -
  have "rlp_index (0 + i) = Inr (map (\<lambda>i. encode (RData (toCompactBigEndian i))) [0..<length data] ! i)" if "i < length data" for i
    using that assms(1) rlp_index_form [of i] by (simp)
  from indexed_map_spec [where m = "[]" and data = data, OF this] obtain m where m: "indexed_map 0 data [] = Inr m" "om_wf m"
    "map_of m = map_of (rev (positions data))" unfolding positions_def using assms(1) by auto
  have key: "length (encode (RData (toCompactBigEndian i))) < 2 ^ 31" if "i < length data" for i
    using bytesRequired_size [of i] length_encode_data [of "toCompactBigEndian i"] that assms(1) by (simp)
  have "entry_ok e" if "e \<in> set (positions data)" for e
    using that key assms(2) by (auto simp: positions_def entry_ok_def set_zip)
  then show ?thesis
    using build_repr [OF assms(3) _ assms(4)] rlp256_form [OF m(2,3), of sha3] m(1)
    by (auto simp: orderedTrieRoot_def hash256_def trie_repr_def)
qed

end
