(* ===== verification/TxQueue.thy ===== *)
theory TxQueue
  imports Prelude
begin

text \<open>
  libbrcdchain/TransactionQueue: the pool of transactions that wait for a block. \<open>m_current\<close> is a multiset ordered by
  the distance of the nonce to the lowest one of the sender and by the gas price; it is indexed by hash and by sender
  and nonce with iterators into it. \<open>m_future\<close> holds transactions whose predecessors are missing. Transactions from
  the network wait in \<open>m_unverified\<close> for a verifier thread.

  An iterator into \<open>m_current\<close> is a number that no other element had before; using one whose element was erased, and
  the singular iterator of a new index entry (\<open>None\<close>), is undefined behaviour, an outcome of its own.

  Two choices of the standard library enter as the record \<open>stl\<close>: where \<^verbatim>\<open>std::multiset\<close> puts a new element
  (specified only when the order is consistent, which the queue does not guarantee) and the order of iteration of an
  \<^verbatim>\<open>unordered_map\<close> after an insertion.
\<close>

section \<open>Data\<close>

text \<open>What the queue reads of a \<^verbatim>\<open>Transaction\<close>. \<^verbatim>\<open>sender()\<close> throws when no key can be recovered from the signature.\<close>

record pool_tx =
  px_sender :: "address option"
  px_nonce :: u256
  px_gasPrice :: u256
  px_sha3 :: h256
  px_hasZeroSignature :: bool

definition px_from :: "pool_tx \<Rightarrow> address" where
  "px_from t = (case px_sender t of None \<Rightarrow> 0 | Some a \<Rightarrow> a)"

datatype ImportResult = Import_Success | Import_UnknownParent | Import_FutureTimeKnown | Import_FutureTimeUnknown
  | Import_AlreadyInChain | Import_AlreadyKnown | Import_Malformed | Import_OverbidGasPrice | Import_BadChain
  | Import_ZeroSignature | Import_NonceRepeat

datatype IfDropped = IfDropped_Ignore | IfDropped_Retry

text \<open>The signals: their handlers are outside the queue.\<close>

datatype tq_event = Ev_Ready | Ev_Replaced h256 | Ev_Import ImportResult h256 "512 word"

datatype tq_error = Tq_InvalidSignature | Tq_undefined | Tq_diverges

record UnverifiedTransaction =
  ut_transaction :: bytes
  ut_nodeId :: "512 word"

record TransactionQueue =
  m_known :: "h256 set"
  m_dropped :: "h256 set"
  m_current :: "(nat \<times> pool_tx) list"
  m_currentByHash :: "h256 \<rightharpoonup> nat"
  m_currentByAddressAndNonce :: "address \<rightharpoonup> (u256, nat option) omap"
  m_future :: "(address \<times> (u256, pool_tx) omap) list"
  m_limit :: "32 word"
  m_futureLimit :: "32 word"
  m_futureSize :: "32 word"
  m_unverified :: "UnverifiedTransaction list"
  tq_next :: nat
  tq_events :: "tq_event list"

type_synonym 'a tq = "(TransactionQueue, tq_error, 'a) emonad"

record stl =
  stl_emplace :: "(pool_tx \<Rightarrow> tq_error + bool) \<Rightarrow> pool_tx list \<Rightarrow> tq_error + nat"
  stl_rehash :: "(address \<times> (u256, pool_tx) omap) list \<Rightarrow> (address \<times> (u256, pool_tx) omap) list"

definition emptyQueue :: "32 word \<Rightarrow> 32 word \<Rightarrow> TransactionQueue" where
  "emptyQueue limit futureLimit =
     \<lparr>m_known = {}, m_dropped = {}, m_current = [], m_currentByHash = Map.empty, m_currentByAddressAndNonce = Map.empty,
      m_future = [], m_limit = limit, m_futureLimit = futureLimit, m_futureSize = 0, m_unverified = [], tq_next = 0,
      tq_events = []\<rparr>"

definition signal :: "tq_event \<Rightarrow> unit tq" where
  "signal e = emodify (\<lambda>s. s\<lparr>tq_events := tq_events s @ [e]\<rparr>)"

definition deref :: "nat option \<Rightarrow> pool_tx tq" where
  "deref it = (\<lambda>s. case it of None \<Rightarrow> (Inl Tq_undefined, s) | Some i \<Rightarrow>
     (case map_of (m_current s) i of None \<Rightarrow> (Inl Tq_undefined, s) | Some t \<Rightarrow> (Inr t, s)))"

section \<open>The order\<close>

text \<open>\<^verbatim>\<open>PriorityCompare\<close>; \<^verbatim>\<open>begin()\<close> of a map that is not there or empty has no element.\<close>

definition height :: "TransactionQueue \<Rightarrow> pool_tx \<Rightarrow> tq_error + u256" where
  "height s t = (case px_sender t of None \<Rightarrow> Inl Tq_InvalidSignature | Some a \<Rightarrow>
     (case m_currentByAddressAndNonce s a of Some ((n, _) # _) \<Rightarrow> Inr (px_nonce t - n) | _ \<Rightarrow> Inl Tq_undefined))"

definition PriorityCompare :: "TransactionQueue \<Rightarrow> pool_tx \<Rightarrow> pool_tx \<Rightarrow> tq_error + bool" where
  "PriorityCompare s first second =
     sbind (height s first) (\<lambda>height1. sbind (height s second) (\<lambda>height2.
       Inr (height1 < height2 \<or> height1 = height2 \<and> px_gasPrice first > px_gasPrice second)))"

definition emplace :: "stl \<Rightarrow> pool_tx \<Rightarrow> nat tq" where
  "emplace l t = (\<lambda>s. case stl_emplace l (PriorityCompare s t) (map snd (m_current s)) of
     Inl e \<Rightarrow> (Inl e, s)
   | Inr i \<Rightarrow> (Inr (tq_next s),
       s\<lparr>m_current := take i (m_current s) @ (tq_next s, t) # drop i (m_current s), tq_next := Suc (tq_next s)\<rparr>))"

text \<open>
  The statements that \<^verbatim>\<open>insertCurrent\<close> and \<^verbatim>\<open>makeCurrent\<close> share: an index entry with a singular iterator (when there is
  none), the element itself, the iterator in both indexes.
\<close>

definition index_of :: "TransactionQueue \<Rightarrow> address \<Rightarrow> (u256, nat option) omap" where
  "index_of s a = (case m_currentByAddressAndNonce s a of None \<Rightarrow> [] | Some m \<Rightarrow> m)"

definition put_current :: "stl \<Rightarrow> address \<Rightarrow> h256 \<Rightarrow> pool_tx \<Rightarrow> unit tq" where
  "put_current l a h t = eseq [
     emodify (\<lambda>s. s\<lparr>m_currentByAddressAndNonce := (m_currentByAddressAndNonce s)(a \<mapsto>
       (if om_count (index_of s a) (px_nonce t) then index_of s a else om_insert (px_nonce t) None (index_of s a)))\<rparr>),
     ebind (emplace l t) (\<lambda>handle. emodify (\<lambda>s.
       s\<lparr>m_currentByAddressAndNonce := (m_currentByAddressAndNonce s)(a \<mapsto> om_insert (px_nonce t) (Some handle) (index_of s a)),
         m_currentByHash := (m_currentByHash s)(h \<mapsto> handle)\<rparr>))]"

section \<open>Moving transactions\<close>

definition remove_WITH_LOCK :: "h256 \<Rightarrow> bool tq" where
  "remove_WITH_LOCK h = (\<lambda>s. case m_currentByHash s h of
     None \<Rightarrow> (Inr False, s)
   | Some i \<Rightarrow> ebind (deref (Some i)) (\<lambda>t s. case m_currentByAddressAndNonce s (px_from t) of
         None \<Rightarrow> (Inl Tq_undefined, s)
       | Some m \<Rightarrow> (Inr True,
           s\<lparr>m_currentByAddressAndNonce := (m_currentByAddressAndNonce s)(px_from t :=
               (if om_erase (px_nonce t) m = [] then None else Some (om_erase (px_nonce t) m))),
             m_current := filter (\<lambda>e. fst e \<noteq> i) (m_current s),
             m_currentByHash := (m_currentByHash s)(h := None),
             m_known := m_known s - {h}\<rparr>)) s)"

definition erase_key :: "address \<Rightarrow> (address \<times> 'v) list \<Rightarrow> (address \<times> 'v) list" where
  "erase_key a xs = filter (\<lambda>e. fst e \<noteq> a) xs"

definition set_key :: "address \<Rightarrow> 'v list \<Rightarrow> (address \<times> 'v list) list \<Rightarrow> (address \<times> 'v list) list" where
  "set_key a m xs = (if m = [] then erase_key a xs else map (\<lambda>e. if fst e = a then (a, m) else e) xs)"

text \<open>The run of transactions that follow without a gap, and the loop that drops what exceeds the limit.\<close>

primrec make_loop :: "stl \<Rightarrow> address \<Rightarrow> (u256, pool_tx) omap \<Rightarrow> u256 \<Rightarrow> nat \<Rightarrow> nat tq" where
  "make_loop l a [] nonce n = ereturn n"
| "make_loop l a (e # ft) nonce n =
     (if px_nonce (snd e) = nonce
      then ebind (put_current l a (px_sha3 (snd e)) (snd e)) (\<lambda>_.
           ebind (emodify (\<lambda>s. s\<lparr>m_futureSize := m_futureSize s - 1\<rparr>)) (\<lambda>_.
             make_loop l a ft (nonce + 1) (Suc n)))
      else ereturn n)"

function trim_future :: "unit tq" where
  "trim_future s =
     (if m_futureSize s \<le> m_futureLimit s then (Inr (), s)
      else case m_future s of
          (a, x # xs) # fs \<Rightarrow> trim_future (s\<lparr>m_futureSize := m_futureSize s - 1,
            m_future := (if xs = [] then fs else (a, butlast (x # xs)) # fs)\<rparr>)
        | _ \<Rightarrow> (Inl Tq_undefined, s\<lparr>m_futureSize := m_futureSize s - 1\<rparr>))"
  by pat_completeness auto
termination
proof (relation "measure (\<lambda>s. unat (m_futureSize s))", goal_cases)
  case (2 s)
  then have "m_futureSize s \<noteq> 0" using word_zero_le [of "m_futureLimit s"] by (metis (no_types))
  then show ?case by (simp add: measure_unat)
qed simp

declare trim_future.simps [simp del]

definition makeCurrent_WITH_LOCK :: "stl \<Rightarrow> pool_tx \<Rightarrow> unit tq" where
  "makeCurrent_WITH_LOCK l t =
     ebind (\<lambda>s. case map_of (m_future s) (px_from t) of
         None \<Rightarrow> (Inr False, s)
       | Some fm \<Rightarrow>
           (if om_count fm (px_nonce t + 1) then
              ebind (make_loop l (px_from t) (dropWhile (\<lambda>e. fst e \<noteq> px_nonce t + 1) fm) (px_nonce t + 1) 0) (\<lambda>n s.
                (Inr (0 < n), s\<lparr>m_future := set_key (px_from t)
                   (takeWhile (\<lambda>e. fst e \<noteq> px_nonce t + 1) fm @ drop n (dropWhile (\<lambda>e. fst e \<noteq> px_nonce t + 1) fm)) (m_future s)\<rparr>)) s
            else (Inr False, s))) (\<lambda>newCurrent.
     ebind trim_future (\<lambda>_. ewhen newCurrent (signal Ev_Ready)))"

definition insertCurrent_WITH_LOCK :: "stl \<Rightarrow> h256 \<Rightarrow> pool_tx \<Rightarrow> unit tq" where
  "insertCurrent_WITH_LOCK l h t = (\<lambda>s.
     if m_currentByHash s h \<noteq> None then (Inr (), s)
     else eseq [put_current l (px_from t) h t, makeCurrent_WITH_LOCK l t,
       emodify (\<lambda>s. s\<lparr>m_known := insert h (m_known s)\<rparr>)] s)"

section \<open>Import\<close>

definition check_WITH_LOCK :: "h256 \<Rightarrow> IfDropped \<Rightarrow> TransactionQueue \<Rightarrow> ImportResult" where
  "check_WITH_LOCK h ik s =
     (if h \<in> m_known s then Import_AlreadyKnown
      else if h \<in> m_dropped s \<and> ik = IfDropped_Ignore then Import_AlreadyInChain
      else Import_Success)"

text \<open>
  The loop over the limit of \<open>m_current\<close>. A round that removes nothing repeats for ever, so that one round more than
  there are elements tells whether the loop ends.
\<close>

primrec trim_current :: "nat \<Rightarrow> unit tq" where
  "trim_current 0 s = (Inl Tq_diverges, s)"
| "trim_current (Suc n) s =
     (if length (m_current s) > unat (m_limit s)
      then ebind (remove_WITH_LOCK (px_sha3 (snd (last (m_current s))))) (\<lambda>_. trim_current n) s
      else (Inr (), s))"

text \<open>A transaction with the same nonce is replaced unless it pays more; the first result is that it pays more.\<close>

definition replace_current :: "pool_tx \<Rightarrow> bool tq" where
  "replace_current t = (\<lambda>s. case map_of (index_of s (px_from t)) (px_nonce t) of
     None \<Rightarrow> (Inr False, s)
   | Some it \<Rightarrow> ebind (deref it) (\<lambda>old.
       if px_gasPrice t < px_gasPrice old then ereturn True
       else ebind (remove_WITH_LOCK (px_sha3 old)) (\<lambda>_. ebind (signal (Ev_Replaced (px_sha3 old))) (\<lambda>_. ereturn False))) s)"

definition replace_future :: "pool_tx \<Rightarrow> bool tq" where
  "replace_future t = (\<lambda>s. case map_of (m_future s) (px_from t) of
     None \<Rightarrow> (Inr False, s)
   | Some fm \<Rightarrow> (case map_of fm (px_nonce t) of
       None \<Rightarrow> (Inr False, s)
     | Some old \<Rightarrow>
         (if px_gasPrice t < px_gasPrice old then (Inr True, s)
          else (Inr False, s\<lparr>m_future := set_key (px_from t) (om_erase (px_nonce t) fm) (m_future s),
            m_futureSize := m_futureSize s - 1\<rparr>))))"

definition manage_body :: "stl \<Rightarrow> h256 \<Rightarrow> pool_tx \<Rightarrow> ImportResult tq" where
  "manage_body l h t =
     ebind (replace_current t) (\<lambda>overbid. if overbid then ereturn Import_OverbidGasPrice else
     ebind (replace_future t) (\<lambda>overbid. if overbid then ereturn Import_OverbidGasPrice else
     ebind (insertCurrent_WITH_LOCK l h t) (\<lambda>_.
     ebind (\<lambda>s. trim_current (Suc (length (m_current s))) s) (\<lambda>_.
     ebind (signal Ev_Ready) (\<lambda>_. ereturn Import_Success)))))"

definition manageImport_WITH_LOCK :: "stl \<Rightarrow> h256 \<Rightarrow> pool_tx \<Rightarrow> ImportResult tq" where
  "manageImport_WITH_LOCK l h t = (\<lambda>s.
     if h \<noteq> px_sha3 t then (Inl Tq_undefined, s)
     else case manage_body l h t s of
         (Inl Tq_InvalidSignature, s') \<Rightarrow> (Inr Import_Malformed, s')
       | r \<Rightarrow> r)"

definition tq_import :: "stl \<Rightarrow> pool_tx \<Rightarrow> IfDropped \<Rightarrow> ImportResult tq" where
  "tq_import l t ik = (\<lambda>s.
     if px_hasZeroSignature t then (Inr Import_ZeroSignature, s)
     else if check_WITH_LOCK (px_sha3 t) ik s \<noteq> Import_Success then (Inr (check_WITH_LOCK (px_sha3 t) ik s), s)
     else manageImport_WITH_LOCK l (px_sha3 t) t s)"

text \<open>\<^verbatim>\<open>Transaction(rlp, CheckTransaction::Everything)\<close> is the parameter \<open>parse\<close>, none when it throws.\<close>

definition import_rlp :: "(bytes \<Rightarrow> pool_tx option) \<Rightarrow> stl \<Rightarrow> bytes \<Rightarrow> IfDropped \<Rightarrow> ImportResult tq" where
  "import_rlp parse l b ik = (case parse b of None \<Rightarrow> ereturn Import_Malformed | Some t \<Rightarrow> tq_import l t ik)"

section \<open>The other operations\<close>

definition topTransactions :: "nat \<Rightarrow> h256 set \<Rightarrow> TransactionQueue \<Rightarrow> pool_tx list" where
  "topTransactions limit avoid s =
     take (if limit = 0 then length (m_current s) mod 2 ^ 32 else limit)
       (filter (\<lambda>t. px_sha3 t \<notin> avoid) (map snd (m_current s)))"

definition knownTransactions :: "TransactionQueue \<Rightarrow> h256 set" where
  "knownTransactions s = m_known s"

definition maxNonce :: "address \<Rightarrow> TransactionQueue \<Rightarrow> u256" where
  "maxNonce a s =
     (let ret = (if index_of s a = [] then 0 else fst (last (index_of s a)) + 1) in
      case map_of (m_future s) a of
        Some fm \<Rightarrow> (if fm = [] then ret else max ret (fst (last fm) + 1))
      | None \<Rightarrow> ret)"

definition waiting :: "address \<Rightarrow> TransactionQueue \<Rightarrow> 32 word" where
  "waiting a s = of_nat (length (index_of s a)) +
     (case map_of (m_future s) a of None \<Rightarrow> 0 | Some fm \<Rightarrow> of_nat (length fm))"

text \<open>\<^verbatim>\<open>setFuture\<close>: a transaction and all later ones of its sender leave \<open>m_current\<close>; \<^verbatim>\<open>map::emplace\<close> keeps an old entry.\<close>

definition future_of :: "TransactionQueue \<Rightarrow> address \<Rightarrow> (u256, pool_tx) omap" where
  "future_of s a = (case map_of (m_future s) a of None \<Rightarrow> [] | Some m \<Rightarrow> m)"

definition open_future :: "stl \<Rightarrow> address \<Rightarrow> TransactionQueue \<Rightarrow> TransactionQueue" where
  "open_future l a s =
     (if a \<in> fst ` set (m_future s) then s else s\<lparr>m_future := stl_rehash l ((a, []) # m_future s)\<rparr>)"

definition future_step :: "address \<Rightarrow> nat option \<Rightarrow> unit tq" where
  "future_step a it = ebind (deref it) (\<lambda>t. emodify (\<lambda>s.
     s\<lparr>m_currentByHash := (m_currentByHash s)(px_sha3 t := None),
       m_future := map (\<lambda>e. if fst e = a
         then (a, if om_count (snd e) (px_nonce t) then snd e else om_insert (px_nonce t) t (snd e)) else e) (m_future s),
       m_current := filter (\<lambda>e. Some (fst e) \<noteq> it) (m_current s),
       m_futureSize := m_futureSize s + 1\<rparr>))"

definition setFuture :: "stl \<Rightarrow> h256 \<Rightarrow> unit tq" where
  "setFuture l h = (\<lambda>s. case m_currentByHash s h of
     None \<Rightarrow> (Inr (), s)
   | Some i \<Rightarrow> ebind (deref (Some i)) (\<lambda>st.
       ebind (emodify (open_future l (px_from st))) (\<lambda>_ s.
         let queue = index_of s (px_from st); kept = takeWhile (\<lambda>e. fst e < px_nonce st) queue in
         ebind (efor (map snd (dropWhile (\<lambda>e. fst e < px_nonce st) queue)) (future_step (px_from st))) (\<lambda>_.
           emodify (\<lambda>s. s\<lparr>m_currentByAddressAndNonce := (m_currentByAddressAndNonce s)(px_from st :=
             (if kept = [] then None else Some kept))\<rparr>)) s)) s)"

definition tq_drop :: "h256 \<Rightarrow> unit tq" where
  "tq_drop h = (\<lambda>s. if h \<notin> m_known s then (Inr (), s)
     else ebind (emodify (\<lambda>s. s\<lparr>m_dropped := insert h (m_dropped s)\<rparr>)) (\<lambda>_.
          ebind (remove_WITH_LOCK h) (\<lambda>_. ereturn ())) s)"

definition dropGood :: "stl \<Rightarrow> pool_tx \<Rightarrow> unit tq" where
  "dropGood l t = ebind (makeCurrent_WITH_LOCK l t) (\<lambda>_ s.
     if px_sha3 t \<notin> m_known s then (Inr (), s)
     else ebind (remove_WITH_LOCK (px_sha3 t)) (\<lambda>_. ereturn ()) s)"

definition tq_clear :: "unit tq" where
  "tq_clear = emodify (\<lambda>s. s\<lparr>m_known := {}, m_current := [], m_dropped := {}, m_currentByAddressAndNonce := Map.empty,
     m_currentByHash := Map.empty, m_future := [], m_futureSize := 0\<rparr>)"

definition eraseDropedTx :: "h256 \<Rightarrow> unit tq" where
  "eraseDropedTx h = emodify (\<lambda>s. s\<lparr>m_dropped := m_dropped s - {h}\<rparr>)"

section \<open>The verifier threads\<close>

definition c_maxVerificationQueueSize :: nat where
  "c_maxVerificationQueueSize = 100000"

primrec enqueue :: "bytes list \<Rightarrow> 512 word \<Rightarrow> unit tq" where
  "enqueue [] nodeId = ereturn ()"
| "enqueue (b # data) nodeId = (\<lambda>s.
     if length (m_unverified s) \<ge> c_maxVerificationQueueSize then (Inr (), s)
     else enqueue data nodeId (s\<lparr>m_unverified := m_unverified s @ [\<lparr>ut_transaction = b, ut_nodeId = nodeId\<rparr>]\<rparr>))"

text \<open>
  One round of \<^verbatim>\<open>verifierBody\<close> has two parts under different locks: taking the work and importing it. \<open>parse\<close> is
  \<^verbatim>\<open>Transaction(data, CheckTransaction::Cheap)\<close>, which does not recover the sender.
\<close>

definition verifier_take :: "TransactionQueue \<Rightarrow> (UnverifiedTransaction \<times> TransactionQueue) option" where
  "verifier_take s = (case m_unverified s of [] \<Rightarrow> None | w # ws \<Rightarrow> Some (w, s\<lparr>m_unverified := ws\<rparr>))"

definition verifier_import :: "(bytes \<Rightarrow> pool_tx option) \<Rightarrow> stl \<Rightarrow> UnverifiedTransaction \<Rightarrow> unit tq" where
  "verifier_import parse l work = (case parse (ut_transaction work) of
     None \<Rightarrow> ereturn ()
   | Some t \<Rightarrow> ebind (tq_import l t IfDropped_Ignore) (\<lambda>ir. signal (Ev_Import ir (px_sha3 t) (ut_nodeId work))))"

end
