(* ===== verification/TxQueueLaws.thy ===== *)
theory TxQueueLaws
  imports TxQueue RlpCodec "HOL-Library.Multiset"
begin

text \<open>
  The laws of the transaction queue. Its indexes agree with its contents in every state that the threads can reach, as
  long as the senders of the transactions can be recovered; then no operation meets undefined behaviour. What an import
  does is stated on the transactions that are current and that wait for a predecessor.
\<close>

section \<open>The contents\<close>

abbreviation cur :: "TransactionQueue \<Rightarrow> pool_tx list" where
  "cur s \<equiv> map snd (m_current s)"

definition fut :: "TransactionQueue \<Rightarrow> pool_tx list" where
  "fut s = concat (map (\<lambda>e. map snd (snd e)) (m_future s))"

definition recovered :: "pool_tx \<Rightarrow> bool" where
  "recovered t \<longleftrightarrow> px_sender t \<noteq> None"

definition cur_wf :: "TransactionQueue \<Rightarrow> bool" where
  "cur_wf s \<longleftrightarrow>
     distinct (map fst (m_current s)) \<and> (\<forall>e\<in>set (m_current s). fst e < tq_next s \<and> recovered (snd e)) \<and>
     (\<forall>h i. m_currentByHash s h = Some i \<longleftrightarrow> (\<exists>t. (i, t) \<in> set (m_current s) \<and> px_sha3 t = h)) \<and>
     (\<forall>a n x. map_of (index_of s a) n = Some x \<longleftrightarrow>
       (\<exists>i t. x = Some i \<and> (i, t) \<in> set (m_current s) \<and> px_from t = a \<and> px_nonce t = n)) \<and>
     (\<forall>a m. m_currentByAddressAndNonce s a = Some m \<longrightarrow> m \<noteq> [] \<and> om_wf m)"

definition fut_wf :: "TransactionQueue \<Rightarrow> bool" where
  "fut_wf s \<longleftrightarrow> distinct (map fst (m_future s)) \<and>
     (\<forall>e\<in>set (m_future s). snd e \<noteq> [] \<and> om_wf (snd e) \<and>
       (\<forall>x\<in>set (snd e). px_nonce (snd x) = fst x \<and> px_from (snd x) = fst e \<and> recovered (snd x))) \<and>
     m_futureSize s = of_nat (length (fut s))"

definition apart :: "TransactionQueue \<Rightarrow> bool" where
  "apart s \<longleftrightarrow> distinct (map px_sha3 (cur s @ fut s)) \<and>
     (\<forall>t\<in>set (cur s). \<forall>u\<in>set (fut s). px_from t = px_from u \<longrightarrow> px_nonce t \<noteq> px_nonce u)"

definition noted :: "TransactionQueue \<Rightarrow> bool" where
  "noted s \<longleftrightarrow> px_sha3 ` set (cur s @ fut s) \<subseteq> m_known s"

definition tq_wf :: "TransactionQueue \<Rightarrow> bool" where
  "tq_wf s \<longleftrightarrow> cur_wf s \<and> fut_wf s \<and> apart s \<and> noted s"

text \<open>What the sources rely on of the standard library.\<close>

definition stl_ok :: "stl \<Rightarrow> bool" where
  "stl_ok l \<longleftrightarrow>
     (\<forall>c xs. (\<forall>y\<in>set xs. \<exists>b. c y = Inr b) \<longrightarrow> (\<exists>i\<le>length xs. stl_emplace l c xs = Inr i)) \<and>
     (\<forall>xs. mset (stl_rehash l xs) = mset xs)"

lemma stl_okD:
  assumes "stl_ok l"
  shows "\<forall>y\<in>set xs. \<exists>b. c y = Inr b \<Longrightarrow> \<exists>i\<le>length xs. stl_emplace l c xs = Inr i" and "mset (stl_rehash l m) = mset m"
  using assms by (auto simp: stl_ok_def)

text \<open>The parts that the moves into \<open>m_current\<close> leave alone.\<close>

definition frame :: "TransactionQueue \<Rightarrow> TransactionQueue \<Rightarrow> bool" where
  "frame s s' \<longleftrightarrow> m_known s' = m_known s \<and> m_dropped s' = m_dropped s \<and> m_future s' = m_future s \<and>
     m_limit s' = m_limit s \<and> m_futureLimit s' = m_futureLimit s \<and> m_futureSize s' = m_futureSize s \<and>
     m_unverified s' = m_unverified s \<and> tq_events s' = tq_events s"

lemma px_from_recovered: "recovered t \<Longrightarrow> px_sender t = Some (px_from t)"
  by (auto simp: recovered_def px_from_def)

lemma cur_wf_D:
  assumes "cur_wf s"
  shows "distinct (map fst (m_current s))" and "e \<in> set (m_current s) \<Longrightarrow> fst e < tq_next s"
    and "e \<in> set (m_current s) \<Longrightarrow> recovered (snd e)"
    and "m_currentByHash s h = Some i \<longleftrightarrow> (\<exists>t. (i, t) \<in> set (m_current s) \<and> px_sha3 t = h)"
    and "map_of (index_of s a) n = Some x \<longleftrightarrow>
       (\<exists>i t. x = Some i \<and> (i, t) \<in> set (m_current s) \<and> px_from t = a \<and> px_nonce t = n)"
    and "m_currentByAddressAndNonce s a = Some m \<Longrightarrow> m \<noteq> [] \<and> om_wf m"
  using assms by (auto simp: cur_wf_def)

lemma cur_deref: "cur_wf s \<Longrightarrow> (i, t) \<in> set (m_current s) \<Longrightarrow> deref (Some i) s = (Inr t, s)"
  using map_of_is_SomeI [OF cur_wf_D(1)] by (simp add: deref_def)

lemma cur_unique:
  assumes "cur_wf s" and "(i, t) \<in> set (m_current s)" and "(j, u) \<in> set (m_current s)"
  shows "i = j \<Longrightarrow> t = u" and "px_sha3 t = px_sha3 u \<Longrightarrow> i = j \<and> t = u"
    and "px_from t = px_from u \<Longrightarrow> px_nonce t = px_nonce u \<Longrightarrow> i = j \<and> t = u"
proof -
  show same: "t = u" if "i = j" using cur_wf_D(1) [OF assms(1)] assms(2,3) that by (metis eq_key_imp_eq_value)
  show "i = j \<and> t = u" if "px_sha3 t = px_sha3 u"
    using cur_wf_D(4) [OF assms(1), of "px_sha3 t"] assms(2,3) that same by (metis option.inject)
  show "i = j \<and> t = u" if "px_from t = px_from u" "px_nonce t = px_nonce u"
    using cur_wf_D(5) [OF assms(1), of "px_from t" "px_nonce t"] assms(2,3) that same by (metis option.inject)
qed

lemma cur_mem: "u \<in> set (cur s) \<Longrightarrow> \<exists>i. (i, u) \<in> set (m_current s)"
  by force

lemma index_of_om: "cur_wf s \<Longrightarrow> om_wf (index_of s a)"
  using cur_wf_D(6) [of s a] by (auto simp: index_of_def split: option.split)

lemma index_of_some: "cur_wf s \<Longrightarrow> (i, t) \<in> set (m_current s) \<Longrightarrow>
   \<exists>x m. m_currentByAddressAndNonce s (px_from t) = Some (x # m) \<and> om_wf (x # m)"
  using cur_wf_D(5) [of s "px_from t" "px_nonce t" "Some i"] cur_wf_D(6) [of s "px_from t"]
  by (cases "m_currentByAddressAndNonce s (px_from t)") (auto simp: index_of_def neq_Nil_conv)

lemma om_insert_nonempty [simp]: "om_insert k v m \<noteq> []"
  by (cases "(k, v, m)" rule: om_insert.cases) auto

section \<open>Moves into and out of the current transactions\<close>

lemma mset_insert_at: "mset (take i xs @ x # drop i xs) = add_mset x (mset xs)"
  by (metis append_take_drop_id mset.simps(2) mset_append union_mset_add_mset_right)

lemma set_insert_at: "set (take i xs @ x # drop i xs) = insert x (set xs)"
  by (metis append_take_drop_id set_append set_simps(2) Un_insert_right)

lemma distinct_insert_at: "distinct (take i xs @ x # drop i xs) \<longleftrightarrow> x \<notin> set xs \<and> distinct xs"
proof -
  have "distinct (ys @ x # zs) \<longleftrightarrow> x \<notin> set (ys @ zs) \<and> distinct (ys @ zs)" for ys zs by auto
  from this [of "take i xs" "drop i xs"] show ?thesis by (simp only: append_take_drop_id)
qed

lemma put_current_wf:
  assumes l: "stl_ok l" and wf: "cur_wf s" and t: "recovered t" "m_currentByHash s (px_sha3 t) = None"
    and new: "\<And>u. u \<in> set (cur s) \<Longrightarrow> px_from u = px_from t \<Longrightarrow> px_nonce u \<noteq> px_nonce t"
  shows "\<exists>s'. put_current l (px_from t) (px_sha3 t) t s = (Inr (), s') \<and> cur_wf s' \<and>
    mset (cur s') = add_mset t (mset (cur s)) \<and> frame s s'"
proof -
  let ?a = "px_from t" and ?n = "px_nonce t"
  have none: "map_of (index_of s ?a) ?n = None"
  proof (rule ccontr)
    assume "map_of (index_of s ?a) ?n \<noteq> None"
    then obtain x where "map_of (index_of s ?a) ?n = Some x" by blast
    then obtain i u where u: "(i, u) \<in> set (m_current s)" "px_from u = ?a" "px_nonce u = ?n" by (auto simp: cur_wf_D(5) [OF wf])
    from u(1) have "u \<in> set (cur s)" by force
    with new u(2,3) show False by blast
  qed
  define s1 where "s1 = s\<lparr>m_currentByAddressAndNonce := (m_currentByAddressAndNonce s)(?a \<mapsto> om_insert ?n None (index_of s ?a))\<rparr>"
  have count: "\<not> om_count (index_of s ?a) ?n" using none by (simp add: om_count_def)
  have ha: "\<exists>b. height s1 t = Inr b"
    by (cases "index_of s ?a") (auto simp: height_def px_from_recovered [OF t(1)] s1_def)
  have "\<exists>b. height s1 y = Inr b" if "y \<in> set (cur s)" for y
  proof -
    obtain i where i: "(i, y) \<in> set (m_current s)" using \<open>y \<in> set (cur s)\<close> by auto
    then have "recovered y" using cur_wf_D(3) [OF wf] by fastforce
    moreover have "\<exists>x m. m_currentByAddressAndNonce s1 (px_from y) = Some (x # m)"
    proof (cases "px_from y = ?a")
      case True
      then show ?thesis by (cases "index_of s ?a") (auto simp: s1_def)
    qed (use index_of_some [OF wf i] in \<open>auto simp: s1_def\<close>)
    ultimately show ?thesis by (auto simp: height_def px_from_recovered)
  qed
  then have "\<forall>y\<in>set (cur s). \<exists>b. PriorityCompare s1 t y = Inr b"
    using ha by (fastforce simp: PriorityCompare_def)
  then obtain i where i: "stl_emplace l (PriorityCompare s1 t) (cur s) = Inr i" using stl_okD(1) [OF l] by blast
  define s' where "s' = s1\<lparr>m_current := take i (m_current s) @ (tq_next s, t) # drop i (m_current s), tq_next := Suc (tq_next s),
      m_currentByAddressAndNonce := (m_currentByAddressAndNonce s)(?a \<mapsto> om_insert ?n (Some (tq_next s)) (om_insert ?n None (index_of s ?a))),
      m_currentByHash := (m_currentByHash s)(px_sha3 t \<mapsto> tq_next s)\<rparr>"
  have run: "put_current l ?a (px_sha3 t) t s = (Inr (), s')"
    unfolding put_current_def using i count
    by (simp add: ebind_def emplace_def s1_def [symmetric]) (simp add: s'_def s1_def index_of_def)
  have set': "set (m_current s') = insert (tq_next s, t) (set (m_current s))"
    by (simp add: s'_def set_insert_at del: set_append)
  have fresh: "(tq_next s, u) \<notin> set (m_current s)" for u using cur_wf_D(2) [OF wf] by fastforce
  have idx: "map_of (index_of s' b) n = (if b = ?a \<and> n = ?n then Some (Some (tq_next s)) else map_of (index_of s b) n)" for b n
    by (auto simp: s'_def index_of_def)
  have by_hash: "m_currentByHash s' = (m_currentByHash s)(px_sha3 t \<mapsto> tq_next s)" by (simp add: s'_def)
  have next': "tq_next s' = Suc (tq_next s)" by (simp add: s'_def)
  have "distinct (map fst (m_current s'))"
    using cur_wf_D(1) [OF wf] fresh distinct_insert_at [of i "map fst (m_current s)" "tq_next s"]
    by (auto simp: s'_def take_map drop_map)
  moreover have "m_currentByHash s' h = Some j \<longleftrightarrow> (\<exists>u. (j, u) \<in> set (m_current s') \<and> px_sha3 u = h)" for h j
    using cur_wf_D(4) [OF wf, of h j] cur_wf_D(4) [OF wf, of "px_sha3 t" j] t(2) fresh unfolding set' by_hash by auto
  moreover have "map_of (index_of s' b) n = Some x \<longleftrightarrow>
      (\<exists>j u. x = Some j \<and> (j, u) \<in> set (m_current s') \<and> px_from u = b \<and> px_nonce u = n)" for b n x
    using cur_wf_D(5) [OF wf, of b n x] cur_wf_D(5) [OF wf, of ?a ?n x] none by (auto simp: idx set')
  moreover have "m \<noteq> [] \<and> om_wf m" if "m_currentByAddressAndNonce s' b = Some m" for b m
    using that cur_wf_D(6) [OF wf, of b m] index_of_om [OF wf, of ?a]
    by (auto simp: s'_def split: if_splits)
  moreover have "\<forall>e\<in>set (m_current s'). fst e < tq_next s' \<and> recovered (snd e)"
    unfolding set' next' using cur_wf_D(2,3) [OF wf] t(1) by (auto intro: less_SucI)
  ultimately have "cur_wf s'" unfolding cur_wf_def by blast
  moreover have "mset (cur s') = add_mset t (mset (cur s))"
    using mset_insert_at [of i "cur s" t] by (simp add: s'_def take_map drop_map)
  moreover have "frame s s'" by (simp add: frame_def s'_def s1_def)
  ultimately show ?thesis using run by blast
qed

lemma remove_absent: "m_currentByHash s h = None \<Longrightarrow> remove_WITH_LOCK h s = (Inr False, s)"
  by (simp add: remove_WITH_LOCK_def)

lemma remove_current_wf:
  assumes wf: "cur_wf s" and mem: "(i, t) \<in> set (m_current s)"
  shows "\<exists>s'. remove_WITH_LOCK (px_sha3 t) s = (Inr True, s') \<and> cur_wf s' \<and>
    m_current s' = filter (\<lambda>e. fst e \<noteq> i) (m_current s) \<and> m_known s' = m_known s - {px_sha3 t} \<and>
    frame (s\<lparr>m_known := m_known s - {px_sha3 t}\<rparr>) s'"
proof -
  let ?a = "px_from t" and ?n = "px_nonce t"
  obtain x xs where m: "m_currentByAddressAndNonce s ?a = Some (x # xs)" "om_wf (x # xs)" using index_of_some [OF wf mem] by blast
  define m' where "m' = om_erase ?n (x # xs)"
  define s' where "s' = s\<lparr>m_currentByAddressAndNonce := (m_currentByAddressAndNonce s)(?a := (if m' = [] then None else Some m')),
      m_current := filter (\<lambda>e. fst e \<noteq> i) (m_current s), m_currentByHash := (m_currentByHash s)(px_sha3 t := None),
      m_known := m_known s - {px_sha3 t}\<rparr>"
  have "m_currentByHash s (px_sha3 t) = Some i" using cur_wf_D(4) [OF wf] mem by blast
  then have run: "remove_WITH_LOCK (px_sha3 t) s = (Inr True, s')"
    unfolding remove_WITH_LOCK_def using cur_deref [OF wf mem] m(1)
    by (simp add: ebind_def m'_def [symmetric] s'_def del: om_erase.simps)
  have set': "(j, u) \<in> set (m_current s') \<longleftrightarrow> (j, u) \<in> set (m_current s) \<and> j \<noteq> i" for j u by (auto simp: s'_def)
  have idx: "map_of (index_of s' b) n = (if b = ?a \<and> n = ?n then None else map_of (index_of s b) n)" for b n
  proof (cases "b = ?a")
    case True
    have "map_of (index_of s' ?a) = (map_of (index_of s ?a))(?n := None)"
      using om_find_erase [OF m(2), of ?n, folded m'_def] m(1) by (cases "m' = []") (simp_all add: s'_def index_of_def)
    with True show ?thesis by simp
  qed (simp add: s'_def index_of_def)
  have by_hash: "m_currentByHash s' = (m_currentByHash s)(px_sha3 t := None)" by (simp add: s'_def)
  have same: "px_sha3 u = px_sha3 t \<longleftrightarrow> j = i" "px_from u = ?a \<and> px_nonce u = ?n \<longleftrightarrow> j = i" if "(j, u) \<in> set (m_current s)" for j u
    using cur_unique [OF wf mem that] by metis+
  have "distinct (map fst (m_current s'))" using cur_wf_D(1) [OF wf] by (simp add: s'_def distinct_map_filter)
  moreover have "\<forall>e\<in>set (m_current s'). fst e < tq_next s' \<and> recovered (snd e)"
    using cur_wf_D(2,3) [OF wf] by (auto simp: s'_def)
  moreover have "m_currentByHash s' h = Some j \<longleftrightarrow> (\<exists>u. (j, u) \<in> set (m_current s') \<and> px_sha3 u = h)" for h j
    using cur_wf_D(4) [OF wf, of h j] same(1) unfolding set' by_hash by auto
  moreover have "map_of (index_of s' b) n = Some y \<longleftrightarrow>
      (\<exists>j u. y = Some j \<and> (j, u) \<in> set (m_current s') \<and> px_from u = b \<and> px_nonce u = n)" for b n y
  proof (cases "b = ?a \<and> n = ?n")
    case True
    then show ?thesis using same(2) unfolding set' idx by auto
  next
    case False
    then have "j \<noteq> i" if "(j, u) \<in> set (m_current s)" "px_from u = b" "px_nonce u = n" for j u
      using same(2) [OF that(1)] that(2,3) by blast
    then show ?thesis using False cur_wf_D(5) [OF wf, of b n y] unfolding set' idx if_not_P [OF False] by blast
  qed
  moreover have "k \<noteq> [] \<and> om_wf k" if "m_currentByAddressAndNonce s' b = Some k" for b k
    using that cur_wf_D(6) [OF wf, of b k] om_wf_erase [OF m(2), of ?n] by (auto simp: s'_def m'_def [symmetric] split: if_splits)
  ultimately have "cur_wf s'" unfolding cur_wf_def by blast
  moreover have "frame (s\<lparr>m_known := m_known s - {px_sha3 t}\<rparr>) s'" by (simp add: frame_def s'_def)
  ultimately show ?thesis using run by (auto simp: s'_def)
qed

lemma cur_filter:
  assumes "cur_wf s" and "(i, t) \<in> set (m_current s)"
  shows "map snd (filter (\<lambda>e. fst e \<noteq> i) (m_current s)) = filter (\<lambda>u. px_sha3 u \<noteq> px_sha3 t) (cur s)"
    and "length (filter (\<lambda>e. fst e \<noteq> i) (m_current s)) < length (m_current s)"
proof -
  have "fst e \<noteq> i \<longleftrightarrow> px_sha3 (snd e) \<noteq> px_sha3 t" if "e \<in> set (m_current s)" for e
  proof -
    have "(fst e, snd e) \<in> set (m_current s)" using that by simp
    from cur_unique [OF assms this] show ?thesis by metis
  qed
  then show "map snd (filter (\<lambda>e. fst e \<noteq> i) (m_current s)) = filter (\<lambda>u. px_sha3 u \<noteq> px_sha3 t) (cur s)"
    by (simp add: filter_map comp_def cong: filter_cong)
  show "length (filter (\<lambda>e. fst e \<noteq> i) (m_current s)) < length (m_current s)"
    using length_filter_less [OF assms(2), of "\<lambda>e. fst e \<noteq> i"] by simp
qed

section \<open>The future transactions\<close>

lemma distinct_hashes_mono:
  assumes "mset xs \<subseteq># mset ys" and "distinct (map f ys)"
  shows "distinct (map f xs)"
proof -
  obtain zs where "mset ys = mset (xs @ zs)"
    using assms(1) by (metis ex_mset mset_append mset_subset_eq_exists_conv)
  then have "mset (map f ys) = mset (map f (xs @ zs))" by simp
  then have "distinct (map f (xs @ zs))" using assms(2) mset_eq_imp_distinct_iff by blast
  then show ?thesis by simp
qed

lemma apart_mono:
  assumes "apart s" and "mset (cur s' @ fut s') \<subseteq># mset (cur s @ fut s)"
    and "\<forall>t\<in>set (cur s'). \<forall>u\<in>set (fut s'). px_from t = px_from u \<longrightarrow> px_nonce t \<noteq> px_nonce u"
  shows "apart s'"
  using assms distinct_hashes_mono [OF assms(2), of px_sha3] by (simp add: apart_def)

definition entry_wf :: "address \<Rightarrow> (u256, pool_tx) omap \<Rightarrow> bool" where
  "entry_wf a m \<longleftrightarrow> om_wf m \<and> (\<forall>x\<in>set m. px_nonce (snd x) = fst x \<and> px_from (snd x) = a \<and> recovered (snd x))"

definition fut_ok :: "(address \<times> (u256, pool_tx) omap) list \<Rightarrow> bool" where
  "fut_ok xs \<longleftrightarrow> distinct (map fst xs) \<and> (\<forall>e\<in>set xs. snd e \<noteq> [] \<and> entry_wf (fst e) (snd e))"

definition txs_of :: "(address \<times> (u256, pool_tx) omap) list \<Rightarrow> pool_tx list" where
  "txs_of xs = concat (map (\<lambda>e. map snd (snd e)) xs)"

lemma txs_of_simps [simp]: "txs_of [] = []" "txs_of (e # xs) = map snd (snd e) @ txs_of xs"
  by (simp_all add: txs_of_def)

lemma fut_wf_iff: "fut_wf s \<longleftrightarrow> fut_ok (m_future s) \<and> m_futureSize s = of_nat (length (fut s))"
  by (auto simp: fut_wf_def fut_ok_def entry_wf_def)

lemma fut_txs: "fut s = txs_of (m_future s)"
  by (simp add: fut_def txs_of_def)

lemma set_txs_of: "u \<in> set (txs_of xs) \<longleftrightarrow> (\<exists>e\<in>set xs. u \<in> snd ` set (snd e))"
  by (auto simp: txs_of_def)

lemma set_key_absent: "a \<notin> fst ` set xs \<Longrightarrow> set_key a m xs = xs"
  by (induction xs) (auto simp: set_key_def erase_key_def)

lemma set_key_Cons: "set_key a m (e # xs) = (if fst e = a then (if m = [] then [] else [(a, m)]) else [e]) @ set_key a m xs"
  by (simp add: set_key_def erase_key_def)

lemma set_key_ok':
  assumes "distinct (map fst xs)" and "\<forall>e\<in>set xs. fst e \<noteq> a \<longrightarrow> snd e \<noteq> [] \<and> entry_wf (fst e) (snd e)" and "entry_wf a m"
  shows "fut_ok (set_key a m xs)"
proof (cases "m = []")
  case False
  have "map fst (map (\<lambda>e. if fst e = a then (a, m) else e) xs) = map fst xs" by auto
  then show ?thesis using False assms unfolding fut_ok_def set_key_def by (auto simp del: map_map)
qed (use assms in \<open>auto simp: fut_ok_def set_key_def erase_key_def distinct_map_filter\<close>)

lemma set_key_ok: "fut_ok xs \<Longrightarrow> entry_wf a m \<Longrightarrow> fut_ok (set_key a m xs)"
  by (intro set_key_ok') (auto simp: fut_ok_def)

lemma entry_wf_part: "entry_wf a (xs @ ys @ zs) \<Longrightarrow> entry_wf a (xs @ zs)"
  by (auto simp: entry_wf_def om_wf_append)

lemma set_key_txs:
  assumes "distinct (map fst xs)" and "map_of xs a = Some m"
  shows "mset (txs_of (set_key a m' xs)) + mset (map snd m) = mset (txs_of xs) + mset (map snd m')"
  using assms
proof (induction xs)
  case (Cons e xs)
  show ?case
  proof (cases "fst e = a")
    case True
    then have "a \<notin> fst ` set xs" "snd e = m" using Cons.prems by auto
    then show ?thesis using True by (cases "m' = []") (simp_all add: set_key_Cons set_key_absent)
  next
    case False
    then show ?thesis using Cons by (simp add: set_key_Cons)
  qed
qed simp

lemma future_entry:
  assumes "fut_ok xs"
  shows "map_of xs a = Some m \<Longrightarrow> (n, u) \<in> set m \<Longrightarrow> u \<in> set (txs_of xs) \<and> px_from u = a \<and> px_nonce u = n"
    and "u \<in> set (txs_of xs) \<Longrightarrow> \<exists>m. map_of xs (px_from u) = Some m \<and> (px_nonce u, u) \<in> set m"
    and "u \<in> set (txs_of xs) \<Longrightarrow> recovered u"
proof -
  show "u \<in> set (txs_of xs) \<and> px_from u = a \<and> px_nonce u = n" if m: "map_of xs a = Some m" "(n, u) \<in> set m"
  proof -
    have "(a, m) \<in> set xs" using m(1) by (rule map_of_SomeD)
    moreover from this have "px_nonce u = n \<and> px_from u = a" using assms m(2) by (force simp: fut_ok_def entry_wf_def)
    ultimately show ?thesis using m(2) by (force simp: set_txs_of)
  qed
  assume "u \<in> set (txs_of xs)"
  then obtain e x where e: "e \<in> set xs" "x \<in> set (snd e)" "u = snd x" by (auto simp: set_txs_of)
  then have x: "px_nonce u = fst x" "px_from u = fst e" "recovered u" using assms by (auto simp: fut_ok_def entry_wf_def)
  then show "recovered u" by blast
  have "map_of xs (fst e) = Some (snd e)" using assms e(1) by (simp add: fut_ok_def)
  then show "\<exists>m. map_of xs (px_from u) = Some m \<and> (px_nonce u, u) \<in> set m" using x e(2,3) by (metis prod.collapse)
qed

lemma fut_unique:
  assumes ok: "fut_ok xs" and "u \<in> set (txs_of xs)" and "v \<in> set (txs_of xs)" and "px_from u = px_from v" and "px_nonce u = px_nonce v"
  shows "u = v"
proof -
  obtain m where m: "map_of xs (px_from v) = Some m" "(px_nonce v, u) \<in> set m"
    using future_entry(2) [OF ok assms(2)] assms(4,5) by auto
  obtain m' where m': "map_of xs (px_from v) = Some m'" "(px_nonce v, v) \<in> set m'" using future_entry(2) [OF ok assms(3)] by blast
  have "(px_from v, m) \<in> set xs" using m(1) by (rule map_of_SomeD)
  then have "om_wf m" using ok by (auto simp: fut_ok_def entry_wf_def)
  then have "distinct (map fst m)" by (rule om_wf_distinct)
  with m m' show ?thesis by (auto dest: eq_key_imp_eq_value)
qed

lemma trim_future_wf:
  assumes "fut_wf s"
  shows "\<exists>s'. trim_future s = (Inr (), s') \<and> fut_wf s' \<and> mset (fut s') \<subseteq># mset (fut s) \<and> m_futureSize s' \<le> m_futureLimit s' \<and>
    s' = s\<lparr>m_future := m_future s', m_futureSize := m_futureSize s'\<rparr> \<and> (m_futureSize s \<le> m_futureLimit s \<longrightarrow> s' = s)"
  using assms
proof (induction s rule: trim_future.induct)
  case (1 s)
  note wf = "1.prems" [unfolded fut_wf_iff]
  show ?case
  proof (cases "m_futureSize s \<le> m_futureLimit s")
    case True
    then show ?thesis using "1.prems" by (subst trim_future.simps) auto
  next
    case False
    then have "fut s \<noteq> []" using wf by auto
    then obtain a m fs where f: "m_future s = (a, m) # fs" by (cases "m_future s") (auto simp: fut_def)
    then obtain x xs where m: "m = x # xs" using wf by (cases m) (auto simp: fut_ok_def)
    define fs' where "fs' = (if xs = [] then fs else (a, butlast (x # xs)) # fs)"
    define s1 where "s1 = s\<lparr>m_futureSize := m_futureSize s - 1, m_future := fs'\<rparr>"
    have step: "trim_future s = trim_future s1" using False f m by (subst trim_future.simps) (simp add: s1_def fs'_def)
    have "entry_wf a (butlast (x # xs))"
      using wf entry_wf_part [of a "butlast (x # xs)" "[last (x # xs)]" "[]"]
      by (simp add: f m fut_ok_def del: butlast.simps last.simps)
    moreover have "butlast (x # xs) \<noteq> []" if "xs \<noteq> []" using that by simp
    ultimately have "fut_ok fs'" using wf unfolding f m fs'_def by (auto simp: fut_ok_def simp del: butlast.simps)
    moreover have txs: "mset (fut s) = add_mset (snd (last (x # xs))) (mset (fut s1))"
    proof -
      have "mset (map snd (butlast (x # xs) @ [last (x # xs)])) = add_mset (snd (last (x # xs))) (mset (map snd (butlast (x # xs))))"
        by (simp del: butlast.simps last.simps append_butlast_last_id)
      then have "mset (map snd (x # xs)) = add_mset (snd (last (x # xs))) (mset (map snd (butlast (x # xs))))"
        by (simp only: append_butlast_last_id [OF list.distinct(2)])
      then show ?thesis by (auto simp: fut_txs f m s1_def fs'_def simp del: butlast.simps)
    qed
    moreover have "m_futureSize s1 = of_nat (length (fut s1))"
    proof -
      have "length (fut s) = Suc (length (fut s1))" using arg_cong [OF txs, of size] by simp
      then show ?thesis using wf by (simp add: s1_def [THEN arg_cong, of m_futureSize])
    qed
    ultimately have "fut_wf s1" by (simp add: fut_wf_iff s1_def)
    from "1.IH" [OF False f, unfolded m, OF refl] this obtain s' where s': "trim_future s1 = (Inr (), s')" "fut_wf s'"
      "mset (fut s') \<subseteq># mset (fut s1)" "m_futureSize s' \<le> m_futureLimit s'" "s' = s1\<lparr>m_future := m_future s', m_futureSize := m_futureSize s'\<rparr>"
      unfolding s1_def fs'_def by blast
    have "mset (fut s1) \<subseteq># mset (fut s)" unfolding txs by simp
    with s'(3) have "mset (fut s') \<subseteq># mset (fut s)" by (rule subset_mset.order_trans)
    moreover have "s' = s\<lparr>m_future := m_future s', m_futureSize := m_futureSize s'\<rparr>" by (subst s'(5)) (simp add: s1_def)
    ultimately show ?thesis using step s' False by auto
  qed
qed

section \<open>The run of followers\<close>

text \<open>The transactions that follow a nonce without a gap.\<close>

primrec consec :: "u256 \<Rightarrow> (u256, pool_tx) omap \<Rightarrow> (u256, pool_tx) omap" where
  "consec n [] = []"
| "consec n (e # m) = (if px_nonce (snd e) = n then e # consec (n + 1) m else [])"

lemma consec_take: "consec n m = take (length (consec n m)) m"
  by (induction m arbitrary: n) auto

lemma make_loop_wf:
  assumes l: "stl_ok l" and "cur_wf s"
    and "\<forall>x\<in>set m. px_from (snd x) = a \<and> recovered (snd x)" and "distinct (map (px_sha3 \<circ> snd) m)" and "distinct (map (px_nonce \<circ> snd) m)"
    and "\<forall>x\<in>set m. \<forall>u\<in>set (cur s). px_sha3 u \<noteq> px_sha3 (snd x) \<and> (px_from u = a \<longrightarrow> px_nonce u \<noteq> px_nonce (snd x))"
  shows "\<exists>s'. make_loop l a m n k s = (Inr (k + length (consec n m)), s') \<and> cur_wf s' \<and>
    mset (cur s') = mset (map snd (consec n m)) + mset (cur s) \<and>
    frame (s\<lparr>m_futureSize := m_futureSize s - of_nat (length (consec n m))\<rparr>) s'"
  using assms(2-)
proof (induction m arbitrary: n k s)
  case (Cons x m)
  let ?t = "snd x"
  show ?case
  proof (cases "px_nonce ?t = n")
    case True
    have "m_currentByHash s (px_sha3 ?t) = None"
      using cur_wf_D(4) [OF Cons.prems(1), of "px_sha3 ?t"] Cons.prems(5) by (cases "m_currentByHash s (px_sha3 ?t)") force+
    then obtain s1 where s1: "put_current l a (px_sha3 ?t) ?t s = (Inr (), s1)" "cur_wf s1"
      "mset (cur s1) = add_mset ?t (mset (cur s))" "frame s s1"
      using put_current_wf [OF l Cons.prems(1), of ?t] Cons.prems(2,5) by auto
    define s2 where "s2 = s1\<lparr>m_futureSize := m_futureSize s1 - 1\<rparr>"
    have "cur_wf s2" using s1(2) by (simp add: s2_def cur_wf_def index_of_def)
    moreover have cur2: "set (cur s2) = insert ?t (set (cur s))" using arg_cong [OF s1(3), of set_mset] by (simp add: s2_def)
    have "\<forall>y\<in>set m. \<forall>u\<in>set (cur s2). px_sha3 u \<noteq> px_sha3 (snd y) \<and> (px_from u = a \<longrightarrow> px_nonce u \<noteq> px_nonce (snd y))"
    proof (intro ballI)
      fix y u assume y: "y \<in> set m" and u: "u \<in> set (cur s2)"
      show "px_sha3 u \<noteq> px_sha3 (snd y) \<and> (px_from u = a \<longrightarrow> px_nonce u \<noteq> px_nonce (snd y))"
      proof (cases "u = ?t")
        case True
        have "px_sha3 (snd y) \<in> set (map (px_sha3 \<circ> snd) m)" "px_nonce (snd y) \<in> set (map (px_nonce \<circ> snd) m)" using y by auto
        then show ?thesis using Cons.prems(3,4) True by (auto simp: comp_def simp del: set_map)
      qed (use Cons.prems(5) y u cur2 in auto)
    qed
    ultimately obtain s' where s': "make_loop l a m (n + 1) (Suc k) s2 = (Inr (Suc k + length (consec (n + 1) m)), s')" "cur_wf s'"
      "mset (cur s') = mset (map snd (consec (n + 1) m)) + mset (cur s2)"
      "frame (s2\<lparr>m_futureSize := m_futureSize s2 - of_nat (length (consec (n + 1) m))\<rparr>) s'"
      using Cons.IH [of s2 "n + 1" "Suc k"] Cons.prems(2-4) by auto
    have "frame (s\<lparr>m_futureSize := m_futureSize s - of_nat (length (consec n (x # m)))\<rparr>) s'"
      using s'(4) s1(4) True by (auto simp: frame_def s2_def)
    then show ?thesis using True s1 s' by (simp add: ebind_def s2_def)
  qed (use Cons.prems in \<open>auto simp: frame_def\<close>)
qed (auto simp: frame_def)

lemma fut_cong: "m_future s' = m_future s \<Longrightarrow> fut s' = fut s"
  by (simp add: fut_def)

text \<open>The followers of a transaction in the queue.\<close>

definition followers :: "TransactionQueue \<Rightarrow> pool_tx \<Rightarrow> pool_tx list" where
  "followers s t = map snd (consec (px_nonce t + 1) (dropWhile (\<lambda>e. fst e \<noteq> px_nonce t + 1) (future_of s (px_from t))))"

lemma followers_sub: "set (followers s t) \<subseteq> snd ` set (future_of s (px_from t))"
proof -
  have "set (consec n m) \<subseteq> set m" for n m by (induction m arbitrary: n) auto
  moreover have "set (dropWhile P m) \<subseteq> set m" for P and m :: "(u256, pool_tx) omap" by (auto dest: set_dropWhileD)
  ultimately show ?thesis unfolding followers_def set_map by (meson image_mono subset_trans)
qed

lemma move_run:
  fixes n :: u256 and fm :: "(u256, pool_tx) omap"
  assumes l: "stl_ok l" and cw: "cur_wf s" and ok: "fut_ok (m_future s)" and ap: "apart s" and fm: "map_of (m_future s) a = Some fm"
  defines "m \<equiv> dropWhile (\<lambda>e. fst e \<noteq> n) fm" and "m' \<equiv> takeWhile (\<lambda>e. fst e \<noteq> n) fm"
  shows "\<exists>s'. make_loop l a m n 0 s = (Inr (length (consec n m)), s') \<and> cur_wf s' \<and>
    mset (cur s') = mset (map snd (consec n m)) + mset (cur s) \<and>
    frame (s\<lparr>m_futureSize := m_futureSize s - of_nat (length (consec n m))\<rparr>) s' \<and>
    fut_ok (set_key a (m' @ drop (length (consec n m)) m) (m_future s)) \<and>
    mset (txs_of (set_key a (m' @ drop (length (consec n m)) m) (m_future s))) + mset (map snd (consec n m)) = mset (fut s)"
proof -
  have split: "fm = m' @ consec n m @ drop (length (consec n m)) m"
    using consec_take [of n m] by (metis m_def m'_def takeWhile_dropWhile_id append_take_drop_id)
  have e: "entry_wf a fm" using ok map_of_SomeD [OF fm] by (force simp: fut_ok_def)
  have sub: "set m \<subseteq> set fm" using set_dropWhileD by (fastforce simp: m_def)
  have in_fut: "snd x \<in> set (fut s)" if "x \<in> set m" for x
    using future_entry(1) [OF ok fm, of "fst x" "snd x"] sub that by (auto simp: fut_txs)
  have "\<forall>x\<in>set m. px_from (snd x) = a \<and> recovered (snd x)" using e sub by (auto simp: entry_wf_def)
  moreover have "distinct (map (px_sha3 \<circ> snd) m)"
  proof -
    have "mset (map snd fm) \<subseteq># mset (txs_of (m_future s))"
      using set_key_txs [of "m_future s" a fm "[]"] ok fm by (simp add: fut_ok_def) (metis mset_subset_eq_add_right)
    moreover have "mset (map snd m) \<subseteq># mset (map snd fm)"
      using takeWhile_dropWhile_id [of "\<lambda>e. fst e \<noteq> n" fm] unfolding m_def by (metis map_append mset_append mset_subset_eq_add_right)
    ultimately have "mset (map snd m) \<subseteq># mset (fut s)" unfolding fut_txs by (rule subset_mset.order_trans [rotated])
    moreover have "distinct (map px_sha3 (fut s))" using ap by (simp add: apart_def)
    ultimately have "distinct (map px_sha3 (map snd m))" by (rule distinct_hashes_mono)
    then show ?thesis by (simp add: comp_def)
  qed
  moreover have "distinct (map (px_nonce \<circ> snd) m)"
  proof -
    have "map (px_nonce \<circ> snd) m = map fst m" using e sub by (auto simp: entry_wf_def)
    moreover have "distinct (map fst fm)" using e by (simp add: entry_wf_def om_wf_distinct)
    ultimately show ?thesis unfolding m_def by (metis distinct_append map_append takeWhile_dropWhile_id)
  qed
  moreover have "\<forall>x\<in>set m. \<forall>u\<in>set (cur s). px_sha3 u \<noteq> px_sha3 (snd x) \<and> (px_from u = a \<longrightarrow> px_nonce u \<noteq> px_nonce (snd x))"
  proof (intro ballI)
    fix x u assume x: "x \<in> set m" and u: "u \<in> set (cur s)"
    have "px_sha3 u \<noteq> px_sha3 (snd x)" using ap u in_fut [OF x] by (auto simp: apart_def)
    moreover have "px_from (snd x) = a" using e sub x by (auto simp: entry_wf_def)
    ultimately show "px_sha3 u \<noteq> px_sha3 (snd x) \<and> (px_from u = a \<longrightarrow> px_nonce u \<noteq> px_nonce (snd x))"
      using ap u in_fut [OF x] unfolding apart_def by metis
  qed
  ultimately have loop: "\<exists>s'. make_loop l a m n 0 s = (Inr (0 + length (consec n m)), s') \<and> cur_wf s' \<and>
    mset (cur s') = mset (map snd (consec n m)) + mset (cur s) \<and>
    frame (s\<lparr>m_futureSize := m_futureSize s - of_nat (length (consec n m))\<rparr>) s'"
    by (rule make_loop_wf [OF l cw])
  have "entry_wf a (m' @ drop (length (consec n m)) m)" using e entry_wf_part split by metis
  then have "fut_ok (set_key a (m' @ drop (length (consec n m)) m) (m_future s))" by (rule set_key_ok [OF ok])
  moreover have "mset (txs_of (set_key a (m' @ drop (length (consec n m)) m) (m_future s))) + mset (map snd (consec n m)) = mset (fut s)"
  proof -
    have "mset (map snd fm) = mset (map snd (m' @ drop (length (consec n m)) m)) + mset (map snd (consec n m))"
      using arg_cong [OF split, of "\<lambda>z. mset (map snd z)"] by simp
    then show ?thesis using set_key_txs [of "m_future s" a fm "m' @ drop (length (consec n m)) m"] ok fm
      by (simp add: fut_ok_def fut_txs add.commute add.left_commute)
  qed
  ultimately show ?thesis using loop by simp
qed

text \<open>The parts that no move touches.\<close>

definition params_kept :: "TransactionQueue \<Rightarrow> TransactionQueue \<Rightarrow> bool" where
  "params_kept s s' \<longleftrightarrow> m_limit s' = m_limit s \<and> m_futureLimit s' = m_futureLimit s \<and> m_unverified s' = m_unverified s"

lemma params_kept_trans: "params_kept s s' \<Longrightarrow> params_kept s' s'' \<Longrightarrow> params_kept s s''"
  by (simp add: params_kept_def)

lemma frame_params: "frame s s' \<Longrightarrow> params_kept s s'"
  by (simp add: frame_def params_kept_def)

lemma cur_wf_cong:
  "m_current s' = m_current s \<Longrightarrow> m_currentByHash s' = m_currentByHash s \<Longrightarrow>
   m_currentByAddressAndNonce s' = m_currentByAddressAndNonce s \<Longrightarrow> tq_next s' = tq_next s \<Longrightarrow> cur_wf s' = cur_wf s"
  by (simp add: cur_wf_def index_of_def)

lemma makeCurrent_wf:
  assumes l: "stl_ok l" and cw: "cur_wf s" and fw: "fut_wf s" and ap: "apart s"
  shows "\<exists>s'. makeCurrent_WITH_LOCK l t s = (Inr (), s') \<and> cur_wf s' \<and> fut_wf s' \<and> apart s' \<and>
    mset (cur s') = mset (followers s t) + mset (cur s) \<and> mset (fut s') + mset (followers s t) \<subseteq># mset (fut s) \<and>
    m_futureSize s' \<le> m_futureLimit s' \<and> m_known s' = m_known s \<and> m_dropped s' = m_dropped s \<and> params_kept s s' \<and>
    (length (fut s) \<le> unat (m_futureLimit s) \<longrightarrow> mset (fut s') + mset (followers s t) = mset (fut s))"
proof -
  let ?a = "px_from t" and ?n = "px_nonce t + 1"
  note ok = fw [unfolded fut_wf_iff]
  obtain b s1 where s1: "(\<lambda>s. case map_of (m_future s) ?a of None \<Rightarrow> (Inr False, s)
       | Some fm \<Rightarrow> (if om_count fm ?n then
              ebind (make_loop l ?a (dropWhile (\<lambda>e. fst e \<noteq> ?n) fm) ?n 0) (\<lambda>n s.
                (Inr (0 < n), s\<lparr>m_future := set_key ?a
                   (takeWhile (\<lambda>e. fst e \<noteq> ?n) fm @ drop n (dropWhile (\<lambda>e. fst e \<noteq> ?n) fm)) (m_future s)\<rparr>)) s
            else (Inr False, s))) s = (Inr b, s1)" (is "?first s = _")
    "cur_wf s1" "fut_wf s1" "mset (cur s1) = mset (followers s t) + mset (cur s)" "mset (fut s1) + mset (followers s t) = mset (fut s)"
    "m_known s1 = m_known s" "m_dropped s1 = m_dropped s" "params_kept s s1"
  proof (cases "\<exists>fm. map_of (m_future s) ?a = Some fm \<and> om_count fm ?n")
    case True
    then obtain fm where fm: "map_of (m_future s) ?a = Some fm" "om_count fm ?n" by blast
    let ?m = "dropWhile (\<lambda>e. fst e \<noteq> ?n) fm" and ?m' = "takeWhile (\<lambda>e. fst e \<noteq> ?n) fm"
    let ?k = "length (consec ?n ?m)"
    obtain s' where s': "make_loop l ?a ?m ?n 0 s = (Inr ?k, s')" "cur_wf s'"
      "mset (cur s') = mset (map snd (consec ?n ?m)) + mset (cur s)" "frame (s\<lparr>m_futureSize := m_futureSize s - of_nat ?k\<rparr>) s'"
      "fut_ok (set_key ?a (?m' @ drop ?k ?m) (m_future s))"
      "mset (txs_of (set_key ?a (?m' @ drop ?k ?m) (m_future s))) + mset (map snd (consec ?n ?m)) = mset (fut s)"
      using move_run [OF l cw _ ap fm(1)] ok by blast
    define s2 where "s2 = s'\<lparr>m_future := set_key ?a (?m' @ drop ?k ?m) (m_future s')\<rparr>"
    have fol: "followers s t = map snd (consec ?n ?m)" using fm(1) by (simp add: followers_def future_of_def)
    have fs: "m_future s' = m_future s" using s'(4) by (simp add: frame_def)
    have fut2: "mset (fut s2) + mset (followers s t) = mset (fut s)" using s'(6) by (simp add: fut_txs s2_def fs fol)
    have "length (fut s) = length (fut s2) + ?k" using arg_cong [OF fut2, of size] by (simp add: fol)
    then have "of_nat (length (fut s)) - of_nat ?k = (of_nat (length (fut s2)) :: 32 word)"
      by (simp only: of_nat_add add_diff_cancel_right')
    moreover have "m_futureSize s2 = m_futureSize s - of_nat ?k" using s'(4) by (simp add: s2_def frame_def)
    ultimately have "m_futureSize s2 = of_nat (length (fut s2))" using ok by simp
    then have "fut_wf s2" using s'(5) by (simp add: fut_wf_iff s2_def fs)
    moreover have "cur_wf s2" using s'(2) by (simp add: s2_def cur_wf_def index_of_def)
    moreover have "mset (cur s2) = mset (followers s t) + mset (cur s)" using s'(3) by (simp add: s2_def fol)
    moreover have "?first s = (Inr (0 < ?k), s2)" using fm s'(1) by (simp add: ebind_def s2_def)
    moreover have "m_known s2 = m_known s" "m_dropped s2 = m_dropped s" "params_kept s s2"
      using s'(4) by (simp_all add: s2_def frame_def params_kept_def)
    ultimately show ?thesis using that fut2 by blast
  next
    case False
    have "?first s = (Inr False, s)" using False by (auto split: option.split)
    moreover have "followers s t = []"
    proof -
      have "dropWhile (\<lambda>e. fst e \<noteq> ?n) (future_of s ?a) = []"
        using False by (cases "map_of (m_future s) ?a") (force simp: future_of_def om_count_iff)+
      then show ?thesis unfolding followers_def by (simp only: consec.simps list.map)
    qed
    ultimately show ?thesis using that [of False s] cw fw by (simp add: params_kept_def)
  qed
  obtain s2 where s2: "trim_future s1 = (Inr (), s2)" "fut_wf s2" "mset (fut s2) \<subseteq># mset (fut s1)" "m_futureSize s2 \<le> m_futureLimit s2"
    "s2 = s1\<lparr>m_future := m_future s2, m_futureSize := m_futureSize s2\<rparr>" "m_futureSize s1 \<le> m_futureLimit s1 \<longrightarrow> s2 = s1"
    using trim_future_wf [OF s1(3)] by blast
  define s3 where "s3 = (if b then s2\<lparr>tq_events := tq_events s2 @ [Ev_Ready]\<rparr> else s2)"
  have run: "makeCurrent_WITH_LOCK l t s = (Inr (), s3)"
    unfolding makeCurrent_WITH_LOCK_def ebind_def [of ?first] s1(1) using s2(1) by (simp add: ebind_def s3_def signal_def)
  have same: "m_current s2 = m_current s1" "m_currentByHash s2 = m_currentByHash s1" "tq_next s2 = tq_next s1"
    "m_currentByAddressAndNonce s2 = m_currentByAddressAndNonce s1" "m_known s2 = m_known s1" "m_dropped s2 = m_dropped s1" "params_kept s1 s2"
    by (subst s2(5), simp add: params_kept_def)+
  have three: "cur s3 = cur s1" "fut s3 = fut s2" "cur_wf s3 = cur_wf s1" "fut_wf s3 = fut_wf s2" "params_kept s s3"
    "m_futureSize s3 = m_futureSize s2" "m_futureLimit s3 = m_futureLimit s2" "m_known s3 = m_known s" "m_dropped s3 = m_dropped s"
    using same s1(6-8) by (auto simp: s3_def fut_def fut_wf_iff cur_wf_def index_of_def params_kept_def)
  have sub: "mset (fut s3) + mset (followers s t) \<subseteq># mset (fut s)"
    using s2(3) s1(5) three(2) by (metis subset_mset.add_right_mono)
  have all: "mset (fut s3) + mset (followers s t) = mset (fut s)" if len: "length (fut s) \<le> unat (m_futureLimit s)"
  proof -
    have "length (fut s1) \<le> length (fut s)" using arg_cong [OF s1(5), of size] by simp
    with len have "length (fut s1) \<le> unat (m_futureLimit s)" by simp
    moreover from this have "unat (of_nat (length (fut s1)) :: 32 word) = length (fut s1)"
      by (intro unat_of_nat_small) (rule le_less_trans [OF _ unsigned_less [of "m_futureLimit s", where ?'a = nat]])
    ultimately have "m_futureSize s1 \<le> m_futureLimit s1"
      using s1(3,8) by (simp add: fut_wf_iff params_kept_def word_le_nat_alt)
    with s2(6) s1(5) three(2) show ?thesis by simp
  qed
  have "apart s3"
  proof (rule apart_mono [OF ap])
    show "mset (cur s3 @ fut s3) \<subseteq># mset (cur s @ fut s)"
      using sub s1(4) three(1) by (simp add: add.commute add.left_commute subset_mset.add_left_mono)
    have fs: "set (followers s t) \<subseteq> set (fut s)" "set (fut s3) \<subseteq> set (fut s)"
      using set_mset_mono [OF sub] by auto
    show "\<forall>x\<in>set (cur s3). \<forall>u\<in>set (fut s3). px_from x = px_from u \<longrightarrow> px_nonce x \<noteq> px_nonce u"
    proof (intro ballI impI notI)
      fix x u assume x: "x \<in> set (cur s3)" "u \<in> set (fut s3)" "px_from x = px_from u" "px_nonce x = px_nonce u"
      have "x \<in> set (followers s t) \<or> x \<in> set (cur s)" using arg_cong [OF s1(4), of set_mset] x(1) three(1) by auto
      then show False
      proof
        assume f: "x \<in> set (followers s t)"
        have "x = u"
          by (rule fut_unique [OF ok [THEN conjunct1]]) (use fs f x in \<open>auto simp: fut_txs [symmetric]\<close>)
        moreover have "count (mset (fut s)) u \<le> 1"
        proof -
          have "distinct (fut s)" using ap by (auto simp: apart_def distinct_map)
          then show ?thesis by (simp add: distinct_count_atmost_1)
        qed
        moreover have "count (mset (fut s3)) u + count (mset (followers s t)) u \<le> count (mset (fut s)) u"
          using sub by (metis count_union mset_subset_eq_count)
        moreover have "0 < count (mset (fut s3)) u" using x(2) by simp
        moreover have "0 < count (mset (followers s t)) u" using f \<open>x = u\<close> by simp
        ultimately show False by linarith
      next
        assume "x \<in> set (cur s)"
        then show False using ap x(2-) fs(2) unfolding apart_def by blast
      qed
    qed
  qed
  moreover have "mset (cur s3) = mset (followers s t) + mset (cur s)" unfolding three(1) by (rule s1(4))
  moreover have "cur_wf s3" "fut_wf s3" "m_futureSize s3 \<le> m_futureLimit s3" using three(3,4,6,7) s1(2) s2(2,4) by simp_all
  ultimately show ?thesis using run three(5,8,9) sub all by blast
qed

lemma om_parts:
  assumes "om_wf m"
  shows "set (dropWhile (\<lambda>e. fst e < n) m) = {e \<in> set m. \<not> fst e < n}" and "set (takeWhile (\<lambda>e. fst e < n) m) = {e \<in> set m. fst e < n}"
  using assms by (induction m) (fastforce simp: om_wf_Cons split: if_splits)+

text \<open>A chain of waiting transactions without a gap is a run of followers.\<close>

lemma dropWhile_key:
  fixes n :: u256
  shows "om_wf m \<Longrightarrow> n \<in> fst ` set m \<Longrightarrow> dropWhile (\<lambda>e. fst e \<noteq> n) m = dropWhile (\<lambda>e. fst e < n) m"
proof (induction m)
  case (Cons e m)
  have "fst e < n" if "n \<in> fst ` set m" using Cons.prems(1) that by (cases e) (auto simp: om_wf_Cons)
  then show ?case using Cons by (cases e) (auto simp: om_wf_Cons)
qed simp

lemma consec_mem:
  fixes n :: u256
  assumes "om_wf m" and "\<forall>x\<in>set m. px_nonce (snd x) = fst x \<and> n \<le> fst x" and "\<forall>i\<le>j. n + of_nat i \<in> fst ` set m"
    and "unat n + j < 2 ^ 256" and "(n + of_nat j, u) \<in> set m"
  shows "(n + of_nat j, u) \<in> set (consec n m)"
  using assms
proof (induction m arbitrary: n j)
  case (Cons e m)
  have "n \<in> fst ` set (e # m)" using Cons.prems(3) [rule_format, of 0] by simp
  moreover have tail: "\<forall>k\<in>fst ` set m. fst e < k" using Cons.prems(1) by (cases e) (simp add: om_wf_Cons)
  moreover have "n \<le> fst e" using Cons.prems(2) by simp
  ultimately have e: "fst e = n" by (auto dest: bspec leD)
  then have nonce: "px_nonce (snd e) = n" using Cons.prems(2) by simp
  show ?case
  proof (cases j)
    case 0
    then have "(n, u) = e" using Cons.prems(5) tail e by fastforce
    then show ?thesis using 0 nonce by simp
  next
    case (Suc i)
    have lt: "unat n + 1 < 2 ^ 256" using Cons.prems(4) Suc by simp
    then have n1: "unat (n + 1) = unat n + 1" by (simp add: unat_plus_if' take_bit_eq_mod)
    have step: "n + 1 + of_nat k = n + of_nat (Suc k)" for k by simp
    have ge: "n + 1 \<le> k" if "n < k" for k using that n1 by (simp add: word_le_nat_alt word_less_nat_alt)
    have ne: "n + of_nat (Suc k) \<noteq> n" if "k \<le> i" for k
    proof
      assume "n + of_nat (Suc k) = n"
      then have "of_nat (Suc k) = (0 :: u256)" by (metis add_cancel_right_right)
      then have "2 ^ 256 dvd Suc k" by (simp add: word_of_nat_eq_0_iff del: of_nat_Suc)
      then show False using Cons.prems(4) Suc that by (auto dest: dvd_imp_le)
    qed
    have mem: "n + of_nat (Suc k) \<in> fst ` set m" if "k \<le> i" for k
      using Cons.prems(3) [rule_format, of "Suc k"] ne [OF that] that Suc e by auto
    have "om_wf m" using Cons.prems(1) by (cases e) (simp add: om_wf_Cons)
    moreover have "\<forall>x\<in>set m. px_nonce (snd x) = fst x \<and> n + 1 \<le> fst x" using Cons.prems(2) tail e ge by auto
    moreover have "\<forall>k\<le>i. n + 1 + of_nat k \<in> fst ` set m" unfolding step using mem by blast
    moreover have "unat (n + 1) + i < 2 ^ 256" unfolding n1 using Cons.prems(4) Suc by simp
    moreover have "(n + 1 + of_nat i, u) \<in> set m"
    proof -
      have "(n + of_nat (Suc i), u) \<noteq> e" using ne [of i] e by (metis fst_conv order_refl)
      then show ?thesis unfolding step using Cons.prems(5) unfolding Suc by (metis set_ConsD)
    qed
    ultimately have "(n + 1 + of_nat i, u) \<in> set (consec (n + 1) m)" by (rule Cons.IH)
    then show ?thesis using nonce Suc unfolding step by simp
  qed
qed simp

lemma followers_chain:
  assumes ok: "fut_ok (m_future s)" and chain: "\<forall>i\<le>j. \<exists>v\<in>set (fut s). px_from v = px_from t \<and> px_nonce v = px_nonce t + 1 + of_nat i"
    and wrap: "unat (px_nonce t + 1) + j < 2 ^ 256"
    and u: "u \<in> set (fut s)" "px_from u = px_from t" "px_nonce u = px_nonce t + 1 + of_nat j"
  shows "u \<in> set (followers s t)"
proof -
  let ?n = "px_nonce t + 1"
  obtain m where m: "map_of (m_future s) (px_from t) = Some m" "(?n + of_nat j, u) \<in> set m"
    using future_entry(2) [OF ok, of u] u by (auto simp: fut_txs)
  have e: "entry_wf (px_from t) m" using ok map_of_SomeD [OF m(1)] by (force simp: fut_ok_def)
  then have om: "om_wf m" by (simp add: entry_wf_def)
  have keys: "?n + of_nat i \<in> fst ` set m" if i: "i \<le> j" for i
  proof -
    obtain v where v: "v \<in> set (fut s)" "px_from v = px_from t" "px_nonce v = ?n + of_nat i" using chain i by blast
    then obtain m' where "map_of (m_future s) (px_from t) = Some m'" "(?n + of_nat i, v) \<in> set m'"
      using future_entry(2) [OF ok, of v] by (auto simp: fut_txs)
    then show ?thesis using m(1) by (metis fst_conv imageI option.inject)
  qed
  let ?d = "dropWhile (\<lambda>x. fst x < ?n) m"
  have d: "set ?d = {x \<in> set m. \<not> fst x < ?n}" by (rule om_parts(1) [OF om])
  have le: "?n \<le> ?n + of_nat i" if "i \<le> j" for i
  proof -
    have "unat (of_nat i :: u256) = i" using wrap that by (simp add: unat_of_nat)
    then have "unat (?n + of_nat i) = unat ?n + i" using wrap that by (subst unat_plus_if_size) (simp add: word_size)
    then show ?thesis by (simp add: word_le_nat_alt)
  qed
  have "(?n + of_nat j, u) \<in> set (consec ?n ?d)"
  proof (rule consec_mem [OF _ _ _ wrap])
    have "om_wf (takeWhile (\<lambda>x. fst x < ?n) m @ ?d)" using om by simp
    then show "om_wf ?d" by (simp only: om_wf_append simp_thms)
    show "\<forall>x\<in>set ?d. px_nonce (snd x) = fst x \<and> ?n \<le> fst x" unfolding d using e by (auto simp: entry_wf_def)
    show "\<forall>i\<le>j. ?n + of_nat i \<in> fst ` set ?d" unfolding d using keys le by (fastforce simp: not_less)
    show "(?n + of_nat j, u) \<in> set ?d" unfolding d using m(2) le [of j] by (simp add: not_less)
  qed
  moreover have "dropWhile (\<lambda>x. fst x \<noteq> ?n) m = ?d" using dropWhile_key [OF om, of ?n] keys [of 0] by simp
  ultimately show ?thesis using m(1) by (force simp: followers_def future_of_def)
qed

lemma next_gone:
  assumes wf: "fut_wf s" "apart s" and sub: "mset xs + mset (followers s t) \<subseteq># mset (fut s)" and u: "u \<in> set xs" "px_from u = px_from t"
  shows "px_nonce u \<noteq> px_nonce t + 1"
proof
  assume n: "px_nonce u = px_nonce t + 1"
  have lt: "unat (px_nonce t + 1) < 2 ^ 256" using unsigned_less [of "px_nonce t + 1"] by simp
  have "u \<in> set (fut s)" using set_mset_mono [OF sub] u(1) by auto
  then have "u \<in> set (followers s t)"
    using followers_chain [of s 0 t u] wf(1) u(2) n lt by (auto simp: fut_wf_iff)
  moreover have "count (mset (fut s)) u \<le> 1"
  proof -
    have "distinct (fut s)" using wf(2) by (auto simp: apart_def distinct_map)
    then show ?thesis by (simp add: distinct_count_atmost_1)
  qed
  moreover have "count (mset xs) u + count (mset (followers s t)) u \<le> count (mset (fut s)) u"
    using sub by (metis count_union mset_subset_eq_count)
  moreover have "0 < count (mset xs) u" using u(1) by simp
  moreover have "0 < count (mset (followers s t)) u" using \<open>u \<in> set (followers s t)\<close> by simp
  ultimately show False by linarith
qed

section \<open>Import\<close>

lemma wf_updates [simp]:
  "cur_wf (s\<lparr>tq_events := e\<rparr>) = cur_wf s" "fut_wf (s\<lparr>tq_events := e\<rparr>) = fut_wf s" "apart (s\<lparr>tq_events := e\<rparr>) = apart s"
  "noted (s\<lparr>tq_events := e\<rparr>) = noted s"
  "cur_wf (s\<lparr>m_unverified := w\<rparr>) = cur_wf s" "fut_wf (s\<lparr>m_unverified := w\<rparr>) = fut_wf s" "apart (s\<lparr>m_unverified := w\<rparr>) = apart s"
  "noted (s\<lparr>m_unverified := w\<rparr>) = noted s"
  "cur_wf (s\<lparr>m_dropped := d\<rparr>) = cur_wf s" "fut_wf (s\<lparr>m_dropped := d\<rparr>) = fut_wf s" "apart (s\<lparr>m_dropped := d\<rparr>) = apart s"
  "noted (s\<lparr>m_dropped := d\<rparr>) = noted s"
  "cur_wf (s\<lparr>m_known := k\<rparr>) = cur_wf s" "fut_wf (s\<lparr>m_known := k\<rparr>) = fut_wf s" "apart (s\<lparr>m_known := k\<rparr>) = apart s"
  by (simp_all add: cur_wf_def fut_wf_def apart_def noted_def fut_def index_of_def)

lemma tq_wf_D: "tq_wf s \<Longrightarrow> cur_wf s" "tq_wf s \<Longrightarrow> fut_wf s" "tq_wf s \<Longrightarrow> apart s" "tq_wf s \<Longrightarrow> noted s"
  by (simp_all add: tq_wf_def)

definition drop_hash :: "h256 \<Rightarrow> pool_tx list \<Rightarrow> pool_tx list" where
  "drop_hash h xs = filter (\<lambda>u. px_sha3 u \<noteq> h) xs"

lemma remove_tq:
  assumes "tq_wf s"
  shows "\<exists>b s'. remove_WITH_LOCK h s = (Inr b, s') \<and> tq_wf s' \<and> cur s' = drop_hash h (cur s) \<and> m_future s' = m_future s \<and>
    m_futureSize s' = m_futureSize s \<and> m_dropped s' = m_dropped s \<and> params_kept s s' \<and>
    m_known s' = (if h \<in> px_sha3 ` set (cur s) then m_known s - {h} else m_known s)"
proof (cases "m_currentByHash s h")
  case None
  have "px_sha3 u \<noteq> h" if mem': "u \<in> set (cur s)" for u
  proof -
    obtain i where "(i, u) \<in> set (m_current s)" using cur_mem [OF mem'] by blast
    then show ?thesis using cur_wf_D(4) [OF tq_wf_D(1) [OF assms], of h i] None by auto
  qed
  then show ?thesis using remove_absent [OF None] assms by (auto simp: drop_hash_def params_kept_def filter_id_conv)
next
  case (Some i)
  then obtain t where t: "(i, t) \<in> set (m_current s)" "h = px_sha3 t" using cur_wf_D(4) [OF tq_wf_D(1) [OF assms], of h i] by auto
  obtain s' where s': "remove_WITH_LOCK h s = (Inr True, s')" "cur_wf s'" "m_current s' = filter (\<lambda>e. fst e \<noteq> i) (m_current s)"
    "m_known s' = m_known s - {h}" "frame (s\<lparr>m_known := m_known s - {h}\<rparr>) s'"
    using remove_current_wf [OF tq_wf_D(1) [OF assms] t(1)] t(2) by blast
  have cur': "cur s' = drop_hash h (cur s)" using cur_filter(1) [OF tq_wf_D(1) [OF assms] t(1)] s'(3) t(2) by (simp add: drop_hash_def)
  have fr: "m_future s' = m_future s" "m_futureSize s' = m_futureSize s" "m_dropped s' = m_dropped s" "params_kept s s'"
    using s'(5) by (simp_all add: frame_def params_kept_def)
  have f': "fut s' = fut s" using fr(1) by (rule fut_cong)
  have "fut_wf s'" using tq_wf_D(2) [OF assms] fr f' by (simp add: fut_wf_iff)
  moreover have "apart s'"
  proof (rule apart_mono [OF tq_wf_D(3) [OF assms]])
    show "mset (cur s' @ fut s') \<subseteq># mset (cur s @ fut s)" unfolding cur' f' by (simp add: drop_hash_def)
    show "\<forall>t\<in>set (cur s'). \<forall>u\<in>set (fut s'). px_from t = px_from u \<longrightarrow> px_nonce t \<noteq> px_nonce u"
      using tq_wf_D(3) [OF assms] unfolding cur' f' apart_def by (auto simp: drop_hash_def)
  qed
  moreover have "noted s'"
  proof -
    have "t \<in> set (cur s)" using t(1) by force
    then have "px_sha3 u \<noteq> h" if "u \<in> set (fut s)" for u using tq_wf_D(3) [OF assms] that t(2) by (auto simp: apart_def)
    then show ?thesis using tq_wf_D(4) [OF assms] unfolding noted_def cur' f' s'(4) by (auto simp: drop_hash_def)
  qed
  moreover have "h \<in> px_sha3 ` set (cur s)" using t by force
  ultimately show ?thesis using s' cur' fr by (auto simp: tq_wf_def)
qed

lemma drop_last_hash: "distinct (map px_sha3 xs) \<Longrightarrow> xs \<noteq> [] \<Longrightarrow> drop_hash (px_sha3 (last xs)) xs = butlast xs"
proof (induction xs rule: rev_induct)
  case (snoc x xs)
  have "px_sha3 u \<noteq> px_sha3 x" if "u \<in> set xs" for u using that snoc.prems(1) by (force simp: image_iff)
  then show ?case by (simp add: drop_hash_def filter_id_conv)
qed simp

lemma trim_current_wf:
  assumes "tq_wf s" and "length (m_current s) < n"
  shows "\<exists>s'. trim_current n s = (Inr (), s') \<and> tq_wf s' \<and> cur s' = take (unat (m_limit s)) (cur s) \<and> m_future s' = m_future s \<and>
    m_futureSize s' = m_futureSize s \<and> m_dropped s' = m_dropped s \<and> params_kept s s' \<and> m_known s' \<subseteq> m_known s"
  using assms
proof (induction n arbitrary: s)
  case (Suc n)
  show ?case
  proof (cases "length (m_current s) > unat (m_limit s)")
    case True
    let ?h = "px_sha3 (snd (last (m_current s)))"
    have ne: "m_current s \<noteq> []" using True by auto
    then have h: "?h = px_sha3 (last (cur s))" by (simp add: last_map)
    obtain b s1 where s1: "remove_WITH_LOCK ?h s = (Inr b, s1)" "tq_wf s1" "cur s1 = drop_hash ?h (cur s)" "m_future s1 = m_future s"
      "m_futureSize s1 = m_futureSize s" "m_dropped s1 = m_dropped s" "params_kept s s1" "m_known s1 \<subseteq> m_known s"
      using remove_tq [OF Suc.prems(1), of ?h] by (auto split: if_splits)
    have cur1: "cur s1 = butlast (cur s)"
      using drop_last_hash [of "cur s"] tq_wf_D(3) [OF Suc.prems(1)] ne s1(3) h by (simp add: apart_def)
    have len: "length (m_current s1) = length (m_current s) - 1" using arg_cong [OF cur1, of length] by simp
    then have "length (m_current s1) < n" using Suc.prems(2) ne by (cases "m_current s") auto
    from Suc.IH [OF s1(2) this] obtain s' where s': "trim_current n s1 = (Inr (), s')" "tq_wf s'" "cur s' = take (unat (m_limit s1)) (cur s1)"
      "m_future s' = m_future s1" "m_futureSize s' = m_futureSize s1" "m_dropped s' = m_dropped s1" "params_kept s1 s'" "m_known s' \<subseteq> m_known s1"
      by blast
    have "cur s' = take (unat (m_limit s)) (cur s)"
      using s'(3) cur1 s1(7) True by (simp add: params_kept_def take_butlast)
    then show ?thesis using True s1 s' params_kept_trans [OF s1(7) s'(7)] by (auto simp: ebind_def)
  next
    case False
    then show ?thesis using Suc.prems by (auto simp: params_kept_def)
  qed
qed simp

text \<open>The transactions without those of the same sender and nonce.\<close>

definition other_keys :: "pool_tx \<Rightarrow> pool_tx list \<Rightarrow> pool_tx list" where
  "other_keys t xs = filter (\<lambda>u. \<not> (px_from u = px_from t \<and> px_nonce u = px_nonce t)) xs"

lemma replace_current_wf:
  assumes "tq_wf s" and "px_sha3 t \<notin> m_known s"
  shows "\<exists>b s'. replace_current t s = (Inr b, s') \<and> tq_wf s' \<and> px_sha3 t \<notin> m_known s' \<and> m_future s' = m_future s \<and> params_kept s s' \<and>
    m_futureSize s' = m_futureSize s \<and> cur s' = (if b then cur s else other_keys t (cur s)) \<and> m_dropped s' = m_dropped s \<and>
    (b \<or> other_keys t (cur s) = cur s \<longrightarrow> s' = s) \<and>
    (b \<longleftrightarrow> (\<exists>u\<in>set (cur s). px_from u = px_from t \<and> px_nonce u = px_nonce t \<and> px_gasPrice t < px_gasPrice u))"
proof -
  note cw = tq_wf_D(1) [OF assms(1)]
  let ?a = "px_from t" and ?n = "px_nonce t"
  show ?thesis
  proof (cases "map_of (index_of s ?a) ?n")
    case None
    have "\<not> (px_from u = ?a \<and> px_nonce u = ?n)" if mem': "u \<in> set (cur s)" for u
    proof -
      obtain i where "(i, u) \<in> set (m_current s)" using cur_mem [OF mem'] by blast
      then show ?thesis using cur_wf_D(5) [OF cw, of ?a ?n "Some i"] None by auto
    qed
    then show ?thesis using None assms by (auto simp: replace_current_def other_keys_def filter_id_conv params_kept_def)
  next
    case (Some it)
    then obtain i u where u: "it = Some i" "(i, u) \<in> set (m_current s)" "px_from u = ?a" "px_nonce u = ?n"
      using cur_wf_D(5) [OF cw] by blast
    have key: "px_from v = ?a \<and> px_nonce v = ?n \<longleftrightarrow> px_sha3 v = px_sha3 u" "px_from v = ?a \<and> px_nonce v = ?n \<longleftrightarrow> v = u"
      if mem': "v \<in> set (cur s)" for v
    proof -
      obtain j where j: "(j, v) \<in> set (m_current s)" using cur_mem [OF mem'] by blast
      from cur_unique [OF cw u(2) j] u(3,4)
      show "px_from v = ?a \<and> px_nonce v = ?n \<longleftrightarrow> px_sha3 v = px_sha3 u" "px_from v = ?a \<and> px_nonce v = ?n \<longleftrightarrow> v = u" by metis+
    qed
    have mem: "u \<in> set (cur s)" using u(2) by force
    show ?thesis
    proof (cases "px_gasPrice t < px_gasPrice u")
      case True
      then show ?thesis using Some u cur_deref [OF cw u(2)] assms mem
        by (auto simp: replace_current_def ebind_def params_kept_def)
    next
      case False
      obtain b s' where s': "remove_WITH_LOCK (px_sha3 u) s = (Inr b, s')" "tq_wf s'" "cur s' = drop_hash (px_sha3 u) (cur s)"
        "m_future s' = m_future s" "m_futureSize s' = m_futureSize s" "m_dropped s' = m_dropped s" "params_kept s s'" "m_known s' \<subseteq> m_known s"
        using remove_tq [OF assms(1), of "px_sha3 u"] by (auto split: if_splits)
      define s2 where "s2 = s'\<lparr>tq_events := tq_events s' @ [Ev_Replaced (px_sha3 u)]\<rparr>"
      have "tq_wf s2" using s'(2) by (simp add: s2_def tq_wf_def)
      moreover have "cur s2 = other_keys t (cur s)"
      proof -
        have "filter (\<lambda>v. px_sha3 v \<noteq> px_sha3 u) (cur s) = other_keys t (cur s)"
          unfolding other_keys_def by (rule filter_cong [OF refl]) (simp only: key(1))
        then show ?thesis using s'(3) by (simp add: s2_def drop_hash_def)
      qed
      moreover have "replace_current t s = (Inr False, s2)"
        using Some u cur_deref [OF cw u(2)] False s'(1) by (simp add: replace_current_def ebind_def signal_def s2_def)
      moreover have "\<not> (\<exists>v\<in>set (cur s). px_from v = ?a \<and> px_nonce v = ?n \<and> px_gasPrice t < px_gasPrice v)"
        using key(2) False by blast
      moreover have "other_keys t (cur s) \<noteq> cur s" using mem u(3,4) by (auto simp: other_keys_def filter_id_conv)
      ultimately show ?thesis using s' assms(2) by (auto simp: s2_def params_kept_def)
    qed
  qed
qed

lemma mset_erase_key: "om_wf m \<Longrightarrow> map_of m n = Some v \<Longrightarrow> mset m = add_mset (n, v) (mset (om_erase n m))"
  by (induction n m rule: om_erase.induct) (auto simp: om_wf_Cons split: if_splits)

lemma om_erase_filter: "om_wf m \<Longrightarrow> filter (\<lambda>e. fst e \<noteq> k) m = om_erase k m"
  by (induction k m rule: om_erase.induct) (auto simp: om_wf_Cons filter_id_conv)

lemma future_of_set_key:
  assumes "map_of xs a = Some m"
  shows "(case map_of (set_key a m' xs) a of None \<Rightarrow> [] | Some m \<Rightarrow> m) = m'"
proof (cases "m' = []")
  case True
  have "a \<notin> fst ` set (erase_key a xs)" by (auto simp: erase_key_def)
  then have "map_of (erase_key a xs) a = None" by (simp add: map_of_eq_None_iff)
  with True show ?thesis by (simp add: set_key_def)
next
  case False
  have "map_of (map (\<lambda>e. if fst e = a then (a, m') else e) xs) a = Some m'"
    using assms by (induction xs) auto
  with False show ?thesis by (simp add: set_key_def)
qed

lemma replace_future_wf:
  assumes "tq_wf s"
  shows "\<exists>b s'. replace_future t s = (Inr b, s') \<and> tq_wf s' \<and> cur s' = cur s \<and> m_known s' = m_known s \<and> params_kept s s' \<and>
    mset (fut s') = (if b then mset (fut s) else mset (other_keys t (fut s))) \<and> m_dropped s' = m_dropped s \<and>
    (b \<longrightarrow> s' = s) \<and> (\<not> b \<longrightarrow> future_of s' (px_from t) = filter (\<lambda>e. fst e \<noteq> px_nonce t) (future_of s (px_from t))) \<and>
    (b \<longleftrightarrow> (\<exists>u\<in>set (fut s). px_from u = px_from t \<and> px_nonce u = px_nonce t \<and> px_gasPrice t < px_gasPrice u))"
proof -
  let ?a = "px_from t" and ?n = "px_nonce t"
  note fo = tq_wf_D(2) [OF assms, unfolded fut_wf_iff]
  note ok = fo [THEN conjunct1]
  show ?thesis
  proof (cases "\<exists>fm old. map_of (m_future s) ?a = Some fm \<and> map_of fm ?n = Some old")
    case False
    have "\<not> (px_from u = ?a \<and> px_nonce u = ?n)" if u: "u \<in> set (fut s)" for u
    proof
      assume k: "px_from u = ?a \<and> px_nonce u = ?n"
      obtain m where m: "map_of (m_future s) ?a = Some m" "(?n, u) \<in> set m"
        using future_entry(2) [OF ok, of u] u k by (auto simp: fut_txs)
      then have "map_of m ?n \<noteq> None" by (metis map_of_eq_None_iff imageI fst_conv)
      then show False using False m(1) by blast
    qed
    moreover from this have "other_keys t (fut s) = fut s" by (simp add: other_keys_def filter_id_conv)
    moreover have "replace_future t s = (Inr False, s)" using False by (auto simp: replace_future_def split: option.split)
    moreover have "future_of s ?a = filter (\<lambda>e. fst e \<noteq> ?n) (future_of s ?a)"
    proof (cases "map_of (m_future s) ?a")
      case (Some fm)
      with False have "?n \<notin> fst ` set fm" by (auto simp: map_of_eq_None_iff [symmetric])
      then have "filter (\<lambda>e. fst e \<noteq> ?n) fm = fm" by (force simp: filter_id_conv)
      then show ?thesis using Some by (simp add: future_of_def)
    qed (simp add: future_of_def)
    ultimately show ?thesis using assms by (auto simp: params_kept_def)
  next
    case True
    then obtain fm old where fm: "map_of (m_future s) ?a = Some fm" "map_of fm ?n = Some old" by blast
    have e: "entry_wf ?a fm" using ok map_of_SomeD [OF fm(1)] by (force simp: fut_ok_def)
    have old: "old \<in> set (fut s)" "px_from old = ?a" "px_nonce old = ?n"
      using future_entry(1) [OF ok fm(1) map_of_SomeD [OF fm(2)]] by (simp_all add: fut_txs)
    have key: "px_from v = ?a \<and> px_nonce v = ?n \<longleftrightarrow> v = old" if "v \<in> set (fut s)" for v
      using fut_unique [OF ok, of v old] that old by (auto simp: fut_txs)
    show ?thesis
    proof (cases "px_gasPrice t < px_gasPrice old")
      case True
      then show ?thesis using fm assms old by (auto simp: replace_future_def params_kept_def)
    next
      case False
      let ?fm' = "om_erase ?n fm"
      define s' where "s' = s\<lparr>m_future := set_key ?a ?fm' (m_future s), m_futureSize := m_futureSize s - 1\<rparr>"
      have ms: "mset fm = add_mset (?n, old) (mset ?fm')" using e fm(2) by (intro mset_erase_key) (simp_all add: entry_wf_def)
      then have "set ?fm' \<subseteq> set fm" by (metis set_mset_mset subsetI set_mset_add_mset_insert insertI2)
      then have "entry_wf ?a ?fm'" using e by (auto simp: entry_wf_def)
      then have ok': "fut_ok (m_future s')" using set_key_ok [OF ok] by (simp add: s'_def)
      have txs: "mset (fut s) = add_mset old (mset (fut s'))"
      proof -
        have "mset (map snd fm) = add_mset old (mset (map snd ?fm'))" using ms by simp
        then show ?thesis using set_key_txs [of "m_future s" ?a fm ?fm'] ok fm(1) by (simp add: fut_ok_def fut_txs s'_def)
      qed
      have dist: "distinct (fut s)" using tq_wf_D(3) [OF assms] by (auto simp: apart_def distinct_map)
      have "mset (other_keys t (fut s)) = filter_mset (\<lambda>u. u \<noteq> old) (mset (fut s))"
      proof -
        have "other_keys t (fut s) = filter (\<lambda>u. u \<noteq> old) (fut s)" unfolding other_keys_def by (rule filter_cong [OF refl]) (simp only: key)
        then show ?thesis by simp
      qed
      moreover have "count (mset (fut s)) old \<le> 1" using dist by (simp add: distinct_count_atmost_1)
      then have "count (mset (fut s')) old = 0" unfolding txs by simp
      then have "filter (\<lambda>u. u \<noteq> old) (fut s') = fut s'" by (auto simp: filter_id_conv count_eq_zero_iff)
      then have "filter_mset (\<lambda>u. u \<noteq> old) (mset (fut s')) = mset (fut s')" by (metis mset_filter)
      ultimately have ok_keys: "mset (other_keys t (fut s)) = mset (fut s')" unfolding txs by simp
      have "length (fut s) = Suc (length (fut s'))" using arg_cong [OF txs, of size] by simp
      moreover have "m_futureSize s' = m_futureSize s - 1" by (simp add: s'_def)
      ultimately have "m_futureSize s' = of_nat (length (fut s'))" using fo by simp
      then have "fut_wf s'" using ok' by (simp add: fut_wf_iff)
      moreover have sub: "set (fut s') \<subseteq> set (fut s)" using txs by (metis set_mset_mset subsetI set_mset_add_mset_insert insertI2)
      moreover have c': "cur s' = cur s" by (simp add: s'_def)
      have "apart s'"
      proof (rule apart_mono [OF tq_wf_D(3) [OF assms]])
        show "mset (cur s' @ fut s') \<subseteq># mset (cur s @ fut s)" unfolding c' by (simp add: txs)
        show "\<forall>t\<in>set (cur s'). \<forall>u\<in>set (fut s'). px_from t = px_from u \<longrightarrow> px_nonce t \<noteq> px_nonce u"
          using tq_wf_D(3) [OF assms] sub unfolding apart_def c' by blast
      qed
      moreover have "cur_wf s'" using tq_wf_D(1) [OF assms] by (simp add: s'_def cur_wf_def index_of_def)
      moreover have "noted s'" using tq_wf_D(4) [OF assms] sub by (auto simp: noted_def s'_def [THEN arg_cong, of m_current] s'_def [THEN arg_cong, of m_known])
      moreover have "replace_future t s = (Inr False, s')" using fm False by (simp add: replace_future_def s'_def)
      moreover have "cur s' = cur s" "m_known s' = m_known s" "params_kept s s'" "m_dropped s' = m_dropped s" by (simp_all add: s'_def params_kept_def)
      moreover have "\<not> (\<exists>u\<in>set (fut s). px_from u = ?a \<and> px_nonce u = ?n \<and> px_gasPrice t < px_gasPrice u)" using key False by blast
      moreover have "future_of s' ?a = filter (\<lambda>e. fst e \<noteq> ?n) (future_of s ?a)"
        using future_of_set_key [OF fm(1), of ?fm'] e fm(1)
        by (simp add: future_of_def s'_def om_erase_filter [symmetric] entry_wf_def)
      ultimately show ?thesis using ok_keys by (auto simp: tq_wf_def)
    qed
  qed
qed

lemma px_key_apart:
  assumes "recovered t" and "apart s" and "px_sha3 t \<notin> m_known s" and "noted s"
    and "other_keys t (fut s) = fut s" and "mset (cur s') = add_mset t (mset (cur s))" and "fut s' = fut s"
  shows "apart s'"
proof -
  have new: "px_sha3 t \<notin> px_sha3 ` set (cur s @ fut s)" using assms(3,4) by (auto simp: noted_def)
  have "mset (map px_sha3 (cur s' @ fut s')) = mset (map px_sha3 (t # cur s @ fut s))"
    using arg_cong [OF assms(6), of "image_mset px_sha3"] assms(7) by (simp add: multiset.map_comp)
  moreover have "distinct (map px_sha3 (t # cur s @ fut s))" using new assms(2) unfolding apart_def by (simp only: list.map distinct.simps set_map simp_thms)
  ultimately have "distinct (map px_sha3 (cur s' @ fut s'))" by (metis mset_eq_imp_distinct_iff)
  moreover have "\<not> (px_from u = px_from t \<and> px_nonce u = px_nonce t)" if "u \<in> set (fut s)" for u
    using assms(5) that by (simp add: other_keys_def filter_id_conv)
  moreover have "set (cur s') = insert t (set (cur s))" using arg_cong [OF assms(6), of set_mset] by simp
  ultimately show ?thesis using assms(2) unfolding apart_def assms(7) by (metis insert_iff)
qed

text \<open>The waiting transactions that an import brings along: those of its sender that follow it without a gap, the one it
  replaces left aside.\<close>

definition run_of :: "TransactionQueue \<Rightarrow> pool_tx \<Rightarrow> pool_tx list" where
  "run_of s t = map snd (consec (px_nonce t + 1) (dropWhile (\<lambda>e. fst e \<noteq> px_nonce t + 1)
     (filter (\<lambda>e. fst e \<noteq> px_nonce t) (future_of s (px_from t)))))"

text \<open>What a successful import leaves: the new transaction in the place of one with the same sender and nonce, with its run
  and all the others, in an order that \<open>xs\<close> stands for, cut to the limit. The run and the replaced one no longer wait; the
  others do, unless there are more than the second limit allows.\<close>

definition import_result :: "pool_tx \<Rightarrow> TransactionQueue \<Rightarrow> TransactionQueue \<Rightarrow> bool" where
  "import_result t s s' \<longleftrightarrow> (\<exists>xs. cur s' = take (unat (m_limit s)) xs \<and>
       mset xs = add_mset t (mset (run_of s t) + mset (other_keys t (cur s)))) \<and>
     mset (fut s') + mset (run_of s t) \<subseteq># mset (other_keys t (fut s)) \<and>
     (length (fut s) \<le> unat (m_futureLimit s) \<longrightarrow> mset (fut s') + mset (run_of s t) = mset (other_keys t (fut s))) \<and>
     m_futureSize s' \<le> m_futureLimit s \<and> m_dropped s' = m_dropped s"

lemma insertCurrent_wf:
  assumes l: "stl_ok l" and wf: "tq_wf s" and t: "recovered t" "px_sha3 t \<notin> m_known s"
    and new: "other_keys t (cur s) = cur s" "other_keys t (fut s) = fut s"
  shows "\<exists>s'. insertCurrent_WITH_LOCK l (px_sha3 t) t s = (Inr (), s') \<and> tq_wf s' \<and>
    mset (cur s') = mset (followers s t) + add_mset t (mset (cur s)) \<and> mset (fut s') + mset (followers s t) \<subseteq># mset (fut s) \<and>
    m_futureSize s' \<le> m_futureLimit s' \<and> params_kept s s' \<and> m_dropped s' = m_dropped s \<and> m_known s' = insert (px_sha3 t) (m_known s) \<and>
    (length (fut s) \<le> unat (m_futureLimit s) \<longrightarrow> mset (fut s') + mset (followers s t) = mset (fut s))"
proof -
  note cw = tq_wf_D(1) [OF wf]
  have none: "m_currentByHash s (px_sha3 t) = None"
  proof (rule ccontr)
    assume "m_currentByHash s (px_sha3 t) \<noteq> None"
    then obtain i where "m_currentByHash s (px_sha3 t) = Some i" by blast
    then obtain u where "(i, u) \<in> set (m_current s)" "px_sha3 u = px_sha3 t" using cur_wf_D(4) [OF cw] by auto
    then show False using t(2) tq_wf_D(4) [OF wf] by (force simp: noted_def)
  qed
  have other: "px_nonce u \<noteq> px_nonce t" if "u \<in> set (cur s)" "px_from u = px_from t" for u
    using new(1) that by (auto simp: other_keys_def filter_id_conv)
  obtain s1 where s1: "put_current l (px_from t) (px_sha3 t) t s = (Inr (), s1)" "cur_wf s1"
    "mset (cur s1) = add_mset t (mset (cur s))" "frame s s1" using put_current_wf [OF l cw t(1) none other] by blast
  have fr: "m_future s1 = m_future s" "m_futureSize s1 = m_futureSize s" "m_known s1 = m_known s" "m_dropped s1 = m_dropped s"
    using s1(4) by (simp_all add: frame_def)
  have f1: "fut s1 = fut s" using fr(1) by (rule fut_cong)
  have "fut_wf s1" using tq_wf_D(2) [OF wf] fr f1 by (simp add: fut_wf_iff)
  moreover have "apart s1" by (rule px_key_apart [OF t(1) tq_wf_D(3) [OF wf] t(2) tq_wf_D(4) [OF wf] new(2) s1(3) f1])
  ultimately obtain s2 where s2: "makeCurrent_WITH_LOCK l t s1 = (Inr (), s2)" "cur_wf s2" "fut_wf s2" "apart s2"
    "mset (cur s2) = mset (followers s1 t) + mset (cur s1)" "mset (fut s2) + mset (followers s1 t) \<subseteq># mset (fut s1)"
    "m_futureSize s2 \<le> m_futureLimit s2" "m_known s2 = m_known s1" "m_dropped s2 = m_dropped s1" "params_kept s1 s2"
    "length (fut s1) \<le> unat (m_futureLimit s1) \<longrightarrow> mset (fut s2) + mset (followers s1 t) = mset (fut s1)"
    using makeCurrent_wf [OF l s1(2)] by blast
  have fol: "followers s1 t = followers s t" by (simp add: followers_def future_of_def fr(1))
  define s3 where "s3 = s2\<lparr>m_known := insert (px_sha3 t) (m_known s2)\<rparr>"
  have cur3: "mset (cur s3) = mset (followers s t) + add_mset t (mset (cur s))" using s2(5) s1(3) fol by (simp add: s3_def)
  have fut3: "fut s3 = fut s2" by (simp add: fut_def s3_def)
  have set3: "set (cur s3) = insert t (set (followers s t) \<union> set (cur s))" using arg_cong [OF cur3, of set_mset] by simp
  have known3: "m_known s3 = insert (px_sha3 t) (m_known s)" using s2(8) fr(3) by (simp add: s3_def)
  have "set (followers s t) \<subseteq> set (fut s)" "set (fut s2) \<subseteq> set (fut s)" using set_mset_mono [OF s2(6)] f1 fol by auto
  then have "noted s3"
    using tq_wf_D(4) [OF wf] unfolding noted_def known3 set_append set3 fut3 by blast
  then have "tq_wf s3" using s2(2-4) by (simp add: tq_wf_def s3_def)
  moreover have "insertCurrent_WITH_LOCK l (px_sha3 t) t s = (Inr (), s3)"
    using none s1(1) s2(1) by (simp add: insertCurrent_WITH_LOCK_def ebind_def s3_def)
  moreover have "params_kept s s3" using s2(10) frame_params [OF s1(4)] by (simp add: s3_def params_kept_def)
  moreover have "m_futureLimit s1 = m_futureLimit s" using frame_params [OF s1(4)] by (simp add: params_kept_def)
  ultimately show ?thesis using cur3 s2(6-9,11) fr f1 fol fut3 by (auto simp: s3_def)
qed

lemma other_keys_idem: "other_keys t (other_keys t xs) = other_keys t xs"
  by (simp add: other_keys_def)

lemma other_keys_id: "mset xs = mset (other_keys t ys) \<Longrightarrow> other_keys t xs = xs"
proof -
  assume "mset xs = mset (other_keys t ys)"
  then have "set xs = set (other_keys t ys)" by (rule mset_eq_setD)
  then show ?thesis by (auto simp: other_keys_def filter_id_conv)
qed

text \<open>A transaction is outbid when one with the same sender and nonce pays more.\<close>

definition outbid :: "pool_tx \<Rightarrow> pool_tx list \<Rightarrow> bool" where
  "outbid t xs \<longleftrightarrow> (\<exists>u\<in>set xs. px_from u = px_from t \<and> px_nonce u = px_nonce t \<and> px_gasPrice t < px_gasPrice u)"

lemma manage_body_outbid:
  assumes wf: "tq_wf s" and t: "px_sha3 t \<notin> m_known s" and bid: "outbid t (cur s @ fut s)"
  shows "manage_body l (px_sha3 t) t s = (Inr Import_OverbidGasPrice, s)"
proof -
  obtain b s1 where s1: "replace_current t s = (Inr b, s1)" "b \<or> other_keys t (cur s) = cur s \<longrightarrow> s1 = s"
    "b \<longleftrightarrow> (\<exists>u\<in>set (cur s). px_from u = px_from t \<and> px_nonce u = px_nonce t \<and> px_gasPrice t < px_gasPrice u)"
    using replace_current_wf [OF wf t] by blast
  show ?thesis
  proof (cases b)
    case True
    then show ?thesis using s1 by (simp add: manage_body_def ebind_def)
  next
    case False
    then obtain u where u: "u \<in> set (fut s)" "px_from u = px_from t" "px_nonce u = px_nonce t" "px_gasPrice t < px_gasPrice u"
      using bid s1(3) by (auto simp: outbid_def)
    then have "\<not> (px_from v = px_from t \<and> px_nonce v = px_nonce t)" if "v \<in> set (cur s)" for v
      using tq_wf_D(3) [OF wf] that unfolding apart_def by metis
    then have "other_keys t (cur s) = cur s" by (simp add: other_keys_def filter_id_conv)
    with s1(2) have same: "s1 = s" by simp
    obtain b2 s2 where "replace_future t s = (Inr b2, s2)" "b2 \<longrightarrow> s2 = s"
      "b2 \<longleftrightarrow> (\<exists>u\<in>set (fut s). px_from u = px_from t \<and> px_nonce u = px_nonce t \<and> px_gasPrice t < px_gasPrice u)"
      using replace_future_wf [OF wf] by blast
    with u False s1(1) same show ?thesis by (auto simp: manage_body_def ebind_def)
  qed
qed

lemma manage_body_accepts:
  assumes l: "stl_ok l" and wf: "tq_wf s" and t: "recovered t" "px_sha3 t \<notin> m_known s" and bid: "\<not> outbid t (cur s @ fut s)"
  shows "\<exists>s'. manage_body l (px_sha3 t) t s = (Inr Import_Success, s') \<and> tq_wf s' \<and> params_kept s s' \<and> import_result t s s'"
proof -
  obtain b s1 where r1: "replace_current t s = (Inr b, s1)" "tq_wf s1" "px_sha3 t \<notin> m_known s1" "m_future s1 = m_future s"
    "params_kept s s1" "cur s1 = (if b then cur s else other_keys t (cur s))" "m_dropped s1 = m_dropped s"
    "b \<longleftrightarrow> (\<exists>u\<in>set (cur s). px_from u = px_from t \<and> px_nonce u = px_nonce t \<and> px_gasPrice t < px_gasPrice u)"
    using replace_current_wf [OF wf t(2)] by blast
  have nb: "b = False" using r1(8) bid unfolding outbid_def set_append by blast
  note s1 = r1 [unfolded nb if_False]
  have f1: "fut s1 = fut s" using s1(4) by (rule fut_cong)
  obtain b2 s2 where r2: "replace_future t s1 = (Inr b2, s2)" "tq_wf s2" "cur s2 = cur s1" "m_known s2 = m_known s1"
    "params_kept s1 s2" "mset (fut s2) = (if b2 then mset (fut s1) else mset (other_keys t (fut s1)))" "m_dropped s2 = m_dropped s1"
    "\<not> b2 \<longrightarrow> future_of s2 (px_from t) = filter (\<lambda>e. fst e \<noteq> px_nonce t) (future_of s1 (px_from t))"
    "b2 \<longleftrightarrow> (\<exists>u\<in>set (fut s1). px_from u = px_from t \<and> px_nonce u = px_nonce t \<and> px_gasPrice t < px_gasPrice u)"
    using replace_future_wf [OF s1(2), of t] by (elim exE conjE) (rule that, assumption+)
  have nb2: "b2 = False" using r2(9) bid unfolding outbid_def set_append f1 by blast
  note s2 = r2 [unfolded nb2 if_False not_False_eq_True simp_thms f1]
  have run: "followers s2 t = run_of s t" unfolding followers_def run_of_def s2(8) by (simp add: future_of_def s1(4))
  have "other_keys t (cur s2) = cur s2" using s2(3) s1(6) by (simp add: other_keys_idem)
  moreover have "other_keys t (fut s2) = fut s2" using s2(6) by (rule other_keys_id)
  ultimately obtain s3 where s3: "insertCurrent_WITH_LOCK l (px_sha3 t) t s2 = (Inr (), s3)" "tq_wf s3"
    "mset (cur s3) = mset (run_of s t) + add_mset t (mset (cur s2))" "mset (fut s3) + mset (run_of s t) \<subseteq># mset (fut s2)"
    "m_futureSize s3 \<le> m_futureLimit s3" "params_kept s2 s3" "m_dropped s3 = m_dropped s2"
    "length (fut s2) \<le> unat (m_futureLimit s2) \<longrightarrow> mset (fut s3) + mset (run_of s t) = mset (fut s2)"
    using insertCurrent_wf [OF l s2(2) t(1)] s1(3) s2(4) unfolding run by auto
  obtain s4 where s4: "trim_current (Suc (length (m_current s3))) s3 = (Inr (), s4)" "tq_wf s4"
    "cur s4 = take (unat (m_limit s3)) (cur s3)" "m_future s4 = m_future s3" "m_futureSize s4 = m_futureSize s3"
    "m_dropped s4 = m_dropped s3" "params_kept s3 s4"
    using trim_current_wf [OF s3(2), of "Suc (length (m_current s3))"] by auto
  define s5 where "s5 = s4\<lparr>tq_events := tq_events s4 @ [Ev_Ready]\<rparr>"
  have kept: "params_kept s s2" "params_kept s s3" "params_kept s s5"
    using params_kept_trans s1(5) s2(5) s3(6) s4(7) by (auto simp: s5_def params_kept_def)
  have "cur s5 = take (unat (m_limit s)) (cur s3)" using s4(3) kept(2) by (simp add: s5_def params_kept_def)
  moreover have "mset (cur s3) = add_mset t (mset (run_of s t) + mset (other_keys t (cur s)))"
    using s3(3) s2(3) s1(6) by simp
  moreover have fut5: "fut s5 = fut s3" using fut_cong [OF s4(4)] by (simp add: s5_def fut_def)
  moreover have "length (fut s2) \<le> length (fut s)"
    using mset_eq_length [OF s2(6)] by (simp add: other_keys_def)
  moreover have "m_futureLimit s2 = m_futureLimit s" using kept(1) by (simp add: params_kept_def)
  moreover have "m_futureSize s5 \<le> m_futureLimit s" using s3(5) s4(5) kept(2) by (simp add: s5_def params_kept_def)
  moreover have "m_dropped s5 = m_dropped s" using s4(6) s3(7) s2(7) s1(7) by (simp add: s5_def)
  ultimately have "import_result t s s5" using s3(4,8) s2(6) unfolding import_result_def by auto
  moreover have "tq_wf s5" using s4(2) by (simp add: s5_def tq_wf_def)
  moreover have "manage_body l (px_sha3 t) t s = (Inr Import_Success, s5)"
    using s1(1) s2(1) s3(1) s4(1) by (simp add: manage_body_def ebind_def signal_def s5_def del: trim_current.simps)
  ultimately show ?thesis using kept(3) by blast
qed

section \<open>The other operations\<close>

definition put_future :: "pool_tx \<Rightarrow> (u256, pool_tx) omap \<Rightarrow> (u256, pool_tx) omap" where
  "put_future t m = (if om_count m (px_nonce t) then m else om_insert (px_nonce t) t m)"

definition future_result :: "address \<Rightarrow> (nat \<times> pool_tx) list \<Rightarrow> TransactionQueue \<Rightarrow> TransactionQueue" where
  "future_result a ps s = s\<lparr>
     m_currentByHash := (\<lambda>h. if h \<in> px_sha3 ` snd ` set ps then None else m_currentByHash s h),
     m_future := map (\<lambda>e. if fst e = a then (a, fold put_future (map snd ps) (snd e)) else e) (m_future s),
     m_current := filter (\<lambda>e. fst e \<notin> fst ` set ps) (m_current s),
     m_futureSize := m_futureSize s + of_nat (length ps)\<rparr>"

lemma future_loop:
  "distinct (map fst (m_current s)) \<Longrightarrow> set ps \<subseteq> set (m_current s) \<Longrightarrow> distinct (map fst ps) \<Longrightarrow>
   efor (map (\<lambda>p. Some (fst p)) ps) (future_step a) s = (Inr (), future_result a ps s)"
proof (induction ps arbitrary: s)
  case Nil
  have "(\<lambda>e. if fst e = a then (a, fold put_future (map snd ([] :: (nat \<times> pool_tx) list)) (snd e)) else e) = id" by (auto simp: fun_eq_iff)
  then show ?case by (simp add: future_result_def)
next
  case (Cons p ps)
  define s1 where "s1 = future_result a [p] s"
  have "map_of (m_current s) (fst p) = Some (snd p)" using Cons.prems by (intro map_of_is_SomeI) auto
  then have step: "future_step a (Some (fst p)) s = (Inr (), s1)"
    by (simp add: future_step_def deref_def ebind_def s1_def future_result_def put_future_def fun_upd_def cong: if_cong)
  have "fst q \<noteq> fst p" if "q \<in> set ps" for q
    using Cons.prems(3) imageI [OF that, of fst] unfolding list.map distinct.simps set_map by metis
  then have "set ps \<subseteq> set (m_current s1)" using Cons.prems(2) by (auto simp: s1_def future_result_def)
  moreover have "distinct (map fst (m_current s1))" using Cons.prems(1) by (simp add: s1_def future_result_def distinct_map_filter)
  ultimately have "efor (map (\<lambda>p. Some (fst p)) ps) (future_step a) s1 = (Inr (), future_result a ps s1)"
    using Cons.IH [of s1] Cons.prems(3) by simp
  moreover have "future_result a ps s1 = future_result a (p # ps) s"
    by (rule TransactionQueue.equality) (auto simp: future_result_def s1_def fun_eq_iff cong: if_cong)
  ultimately show ?case using step by (simp add: ebind_def)
qed

lemma mset_om_insert: "map_of m k = None \<Longrightarrow> mset (om_insert k v m) = add_mset (k, v) (mset m)"
  by (induction k v m rule: om_insert.induct) (auto split: if_splits)

lemma fold_put_future:
  assumes "entry_wf a m" and "\<forall>u\<in>set us. px_from u = a \<and> recovered u \<and> px_nonce u \<notin> fst ` set m" and "distinct (map px_nonce us)"
  shows "entry_wf a (fold put_future us m) \<and> mset (map snd (fold put_future us m)) = mset us + mset (map snd m)"
  using assms
proof (induction us arbitrary: m)
  case (Cons u us)
  have none: "map_of m (px_nonce u) = None" using Cons.prems(2) by (simp add: map_of_eq_None_iff)
  then have put: "put_future u m = om_insert (px_nonce u) u m" by (simp add: put_future_def om_count_def)
  have ms: "mset (put_future u m) = add_mset (px_nonce u, u) (mset m)" unfolding put using none by (rule mset_om_insert)
  then have set': "set (put_future u m) = insert (px_nonce u, u) (set m)" by (metis set_mset_add_mset_insert set_mset_mset)
  have "entry_wf a (put_future u m)" using Cons.prems(1,2) set' unfolding entry_wf_def put by auto
  moreover have "\<forall>w\<in>set us. px_from w = a \<and> recovered w \<and> px_nonce w \<notin> fst ` set (put_future u m)"
  proof -
    have "px_nonce w \<noteq> px_nonce u" if "w \<in> set us" for w
      using Cons.prems(3) imageI [OF that, of px_nonce] by auto
    then show ?thesis using Cons.prems(2) unfolding set' image_insert fst_conv by auto
  qed
  ultimately have "entry_wf a (fold put_future us (put_future u m)) \<and>
      mset (map snd (fold put_future us (put_future u m))) = mset us + mset (map snd (put_future u m))"
    using Cons.IH Cons.prems(3) by simp
  moreover have "mset (map snd (put_future u m)) = add_mset u (mset (map snd m))" using ms by simp
  ultimately show ?case by simp
qed simp

lemma open_future_spec:
  fixes a :: address
  assumes l: "stl_ok l" and ok: "fut_ok (m_future s)"
  defines "fs \<equiv> m_future (open_future l a s)"
  shows "distinct (map fst fs)" and "\<forall>e\<in>set fs. fst e \<noteq> a \<longrightarrow> snd e \<noteq> [] \<and> entry_wf (fst e) (snd e)"
    and "\<exists>m. map_of fs a = Some m \<and> entry_wf a m \<and> m = future_of s a" and "mset (txs_of fs) = mset (txs_of (m_future s))"
    and "open_future l a s = s\<lparr>m_future := fs\<rparr>"
proof -
  have perm: "mset (stl_rehash l ((a, []) # m_future s)) = mset ((a, []) # m_future s)" by (rule stl_okD(2) [OF l])
  have set': "set (stl_rehash l ((a, []) # m_future s)) = insert (a, []) (set (m_future s))"
    using mset_eq_setD [OF perm] by simp
  have txs: "mset (txs_of xs) = mset (txs_of ys)" if "mset xs = mset ys" for xs ys
  proof -
    have "mset (txs_of zs) = sum_mset (image_mset (\<lambda>e. mset (map snd (snd e))) (mset zs))" for zs by (induction zs) simp_all
    then show ?thesis using that by simp
  qed
  have dist: "distinct (map fst (stl_rehash l ((a, []) # m_future s)))" if "a \<notin> fst ` set (m_future s)"
  proof -
    have "mset (map fst (stl_rehash l ((a, []) # m_future s))) = mset (map fst ((a, []) # m_future s))" using perm by simp
    moreover have "distinct (map fst ((a, []) # m_future s))" using that ok by (simp add: fut_ok_def)
    ultimately show ?thesis by (metis mset_eq_imp_distinct_iff)
  qed
  show d: "distinct (map fst fs)" using dist ok by (auto simp: fs_def open_future_def fut_ok_def)
  show "\<forall>e\<in>set fs. fst e \<noteq> a \<longrightarrow> snd e \<noteq> [] \<and> entry_wf (fst e) (snd e)"
    using ok set' by (auto simp: fs_def open_future_def fut_ok_def split: if_splits)
  show "\<exists>m. map_of fs a = Some m \<and> entry_wf a m \<and> m = future_of s a"
  proof (cases "a \<in> fst ` set (m_future s)")
    case True
    then obtain m where m: "map_of (m_future s) a = Some m" by (metis map_of_eq_None_iff not_None_eq)
    then have "entry_wf a m" using ok map_of_SomeD [OF m] by (force simp: fut_ok_def)
    then show ?thesis using True m by (auto simp: fs_def open_future_def future_of_def)
  next
    case False
    then have "map_of fs a = Some []" using set' d by (intro map_of_is_SomeI) (simp_all add: fs_def open_future_def)
    moreover have "future_of s a = []" using False by (simp add: future_of_def map_of_eq_None_iff [THEN iffD2])
    ultimately show ?thesis by (simp add: entry_wf_def)
  qed
  show "mset (txs_of fs) = mset (txs_of (m_future s))" using txs [OF perm] by (simp add: fs_def open_future_def)
  show "open_future l a s = s\<lparr>m_future := fs\<rparr>" by (simp add: fs_def open_future_def)
qed

lemma map_set_key:
  "distinct (map fst xs) \<Longrightarrow> map_of xs a = Some m \<Longrightarrow> F m \<noteq> [] \<Longrightarrow>
   map (\<lambda>e. if fst e = a then (a, F (snd e)) else e) xs = set_key a (F m) xs"
  by (auto simp: set_key_def dest!: map_of_SomeD) (metis eq_key_imp_eq_value)

text \<open>\<^verbatim>\<open>setFuture\<close> moves a transaction and all later ones of its sender.\<close>

definition later :: "pool_tx \<Rightarrow> pool_tx \<Rightarrow> bool" where
  "later t u \<longleftrightarrow> px_from u = px_from t \<and> px_nonce t \<le> px_nonce u"

lemma moved_elements:
  fixes t :: pool_tx and s :: TransactionQueue
  assumes cw: "cur_wf s"
  defines "D \<equiv> dropWhile (\<lambda>e. fst e < px_nonce t) (index_of s (px_from t))"
  shows "\<exists>ps. map snd D = map (\<lambda>p. Some (fst p)) ps \<and> distinct (map fst ps) \<and> set ps = {e \<in> set (m_current s). later t (snd e)}"
proof -
  let ?ps = "map (\<lambda>e. (the (snd e), the (map_of (m_current s) (the (snd e))))) D"
  have om: "om_wf (index_of s (px_from t))" by (rule index_of_om [OF cw])
  have entry: "\<exists>i u. snd e = Some i \<and> (i, u) \<in> set (m_current s) \<and> px_from u = px_from t \<and> px_nonce u = fst e \<and> map_of (m_current s) i = Some u"
    if "e \<in> set (index_of s (px_from t))" for e
  proof -
    have "map_of (index_of s (px_from t)) (fst e) = Some (snd e)" using om_wf_distinct [OF om] that by simp
    then obtain i u where "snd e = Some i" "(i, u) \<in> set (m_current s)" "px_from u = px_from t" "px_nonce u = fst e"
      unfolding cur_wf_D(5) [OF cw] by blast
    moreover from this have "map_of (m_current s) i = Some u" using cur_wf_D(1) [OF cw] by simp
    ultimately show ?thesis by blast
  qed
  have D: "e \<in> set D \<longleftrightarrow> e \<in> set (index_of s (px_from t)) \<and> px_nonce t \<le> fst e" for e
    unfolding D_def om_parts(1) [OF om] by (simp add: not_less)
  have "snd e = Some (the (snd e))" if e: "e \<in> set D" for e
  proof -
    obtain i where "snd e = Some i" using entry D [of e] e by blast
    then show ?thesis by simp
  qed
  then have "map snd D = map (\<lambda>p. Some (fst p)) ?ps" by (simp add: comp_def)
  moreover have "set ?ps = {e \<in> set (m_current s). later t (snd e)}"
  proof (intro subset_antisym subsetI)
    fix p assume "p \<in> set ?ps"
    then obtain e where e: "e \<in> set D" "p = (the (snd e), the (map_of (m_current s) (the (snd e))))" by auto
    with entry [of e] D show "p \<in> {e \<in> set (m_current s). later t (snd e)}" by (auto simp: later_def)
  next
    fix p assume p: "p \<in> {e \<in> set (m_current s). later t (snd e)}"
    then have "map_of (index_of s (px_from t)) (px_nonce (snd p)) = Some (Some (fst p))"
      unfolding cur_wf_D(5) [OF cw] by (cases p) (auto simp: later_def)
    then have "(px_nonce (snd p), Some (fst p)) \<in> set D" using map_of_SomeD p by (fastforce simp: D later_def)
    moreover have "map_of (m_current s) (fst p) = Some (snd p)" using p cur_wf_D(1) [OF cw] by simp
    ultimately show "p \<in> set ?ps" by force
  qed
  moreover have "distinct (map fst ?ps)"
  proof -
    have "distinct (map fst D)" unfolding D_def using om_wf_distinct [OF om]
      by (metis distinct_append map_append takeWhile_dropWhile_id)
    then have "distinct D" by (simp add: distinct_map)
    moreover have "inj_on (\<lambda>e. the (snd e)) (set D)"
    proof (rule inj_onI)
      fix e e' assume e: "e \<in> set D" "e' \<in> set D" "the (snd e) = the (snd e')"
      then have "fst e = fst e' \<and> snd e = snd e'" using entry [of e] entry [of e'] D by fastforce
      then show "e = e'" by (simp add: prod_eq_iff)
    qed
    ultimately show ?thesis by (simp add: distinct_map comp_def)
  qed
  ultimately show ?thesis by blast
qed

lemma filter_moved:
  assumes "distinct (map fst xs)" and "distinct (map fst ps)" and "set ps = {e \<in> set xs. P (snd e)}"
  shows "filter (\<lambda>e. fst e \<notin> fst ` set ps) xs = filter (\<lambda>e. \<not> P (snd e)) xs"
    and "mset (map snd ps) = mset (filter P (map snd xs))"
proof -
  have "fst e \<in> fst ` set ps \<longleftrightarrow> P (snd e)" if e: "e \<in> set xs" for e
  proof
    assume "fst e \<in> fst ` set ps"
    then obtain p where "p \<in> set xs" "P (snd p)" "fst p = fst e" using assms(3) by auto
    then show "P (snd e)" using assms(1) e by (metis eq_key_imp_eq_value prod.collapse)
  qed (use assms(3) e in auto)
  then show "filter (\<lambda>e. fst e \<notin> fst ` set ps) xs = filter (\<lambda>e. \<not> P (snd e)) xs" by (intro filter_cong) simp_all
  have "distinct xs" using assms(1) by (simp add: distinct_map)
  moreover have "distinct ps" using assms(2) by (simp add: distinct_map)
  ultimately have "mset ps = mset (filter (\<lambda>e. P (snd e)) xs)"
    using assms(3) by (subst set_eq_iff_mset_eq_distinct [symmetric]) auto
  then have "mset (map snd ps) = mset (map snd (filter (\<lambda>e. P (snd e)) xs))" by simp
  then show "mset (map snd ps) = mset (filter P (map snd xs))" by (simp add: filter_map comp_def)
qed

text \<open>The indexes after the later transactions of the sender have gone.\<close>

lemma cur_wf_moved:
  assumes cw: "cur_wf s" and cur': "m_current s' = filter (\<lambda>e. \<not> later t (snd e)) (m_current s)" and nx: "tq_next s' = tq_next s"
    and by_hash: "\<And>h. m_currentByHash s' h = (if \<exists>e\<in>set (m_current s). later t (snd e) \<and> px_sha3 (snd e) = h then None else m_currentByHash s h)"
    and kept: "kept = takeWhile (\<lambda>e. fst e < px_nonce t) (index_of s (px_from t))"
    and idx: "m_currentByAddressAndNonce s' = (m_currentByAddressAndNonce s)(px_from t := (if kept = [] then None else Some kept))"
  shows "cur_wf s'"
proof -
  have om: "om_wf (index_of s (px_from t))" by (rule index_of_om [OF cw])
  have "om_wf (kept @ dropWhile (\<lambda>e. fst e < px_nonce t) (index_of s (px_from t)))" using om by (simp add: kept)
  then have omk: "om_wf kept" by (simp add: om_wf_append)
  have set': "(i, u) \<in> set (m_current s') \<longleftrightarrow> (i, u) \<in> set (m_current s) \<and> \<not> later t u" for i u by (auto simp: cur')
  have ix: "index_of s' b = (if b = px_from t then kept else index_of s b)" for b by (auto simp: index_of_def idx)
  have ixk: "map_of kept n = Some x \<longleftrightarrow> map_of (index_of s (px_from t)) n = Some x \<and> n < px_nonce t" for n x
  proof -
    have "map_of kept n = Some x \<longleftrightarrow> (n, x) \<in> set kept" using om_wf_distinct [OF omk] by simp
    also have "\<dots> \<longleftrightarrow> (n, x) \<in> set (index_of s (px_from t)) \<and> n < px_nonce t" unfolding kept om_parts(2) [OF om] by simp
    finally show ?thesis using om_wf_distinct [OF om] by simp
  qed
  have "distinct (map fst (m_current s'))" using cur_wf_D(1) [OF cw] by (simp add: cur' distinct_map_filter)
  moreover have "\<forall>e\<in>set (m_current s'). fst e < tq_next s' \<and> recovered (snd e)" using cur_wf_D(2,3) [OF cw] by (auto simp: cur' nx)
  moreover have "m_currentByHash s' h = Some j \<longleftrightarrow> (\<exists>u. (j, u) \<in> set (m_current s') \<and> px_sha3 u = h)" for h j
  proof (cases "\<exists>e\<in>set (m_current s). later t (snd e) \<and> px_sha3 (snd e) = h")
    case True
    then obtain k v where v: "(k, v) \<in> set (m_current s)" "later t v" "px_sha3 v = h" by auto
    then have "\<not> ((j, u) \<in> set (m_current s) \<and> \<not> later t u \<and> px_sha3 u = h)" for u using cur_unique(2) [OF cw v(1), of j u] by blast
    then show ?thesis using True unfolding by_hash set' by auto
  next
    case False
    then have "\<not> later t u" if "(j, u) \<in> set (m_current s)" "px_sha3 u = h" for u using that by (metis snd_conv)
    then show ?thesis using cur_wf_D(4) [OF cw, of h j] unfolding by_hash if_not_P [OF False] set' by blast
  qed
  moreover have "map_of (index_of s' b) n = Some y \<longleftrightarrow>
      (\<exists>j u. y = Some j \<and> (j, u) \<in> set (m_current s') \<and> px_from u = b \<and> px_nonce u = n)" for b n y
  proof (cases "b = px_from t")
    case True
    have "later t u \<longleftrightarrow> \<not> n < px_nonce t" if "px_from u = px_from t" "px_nonce u = n" for u using that by (auto simp: later_def)
    moreover have "map_of (index_of s' b) n = Some y \<longleftrightarrow> map_of (index_of s b) n = Some y \<and> n < px_nonce t" by (simp add: ix True ixk)
    ultimately show ?thesis unfolding True cur_wf_D(5) [OF cw] set' by blast
  next
    case False
    have "\<not> later t u" if "px_from u = b" for u using that False by (auto simp: later_def)
    then show ?thesis using cur_wf_D(5) [OF cw, of b n y] unfolding ix if_not_P [OF False] set' by blast
  qed
  moreover have "m \<noteq> [] \<and> om_wf m" if "m_currentByAddressAndNonce s' b = Some m" for b m
    using that cur_wf_D(6) [OF cw, of b m] omk by (auto simp: idx split: if_splits)
  ultimately show ?thesis unfolding cur_wf_def by blast
qed

lemma setFuture_wf:
  assumes l: "stl_ok l" and wf: "tq_wf s" and st: "(i, st) \<in> set (m_current s)"
  shows "\<exists>s'. setFuture l (px_sha3 st) s = (Inr (), s') \<and> tq_wf s' \<and> cur s' = filter (\<lambda>u. \<not> later st u) (cur s) \<and>
    mset (fut s') = mset (filter (later st) (cur s)) + mset (fut s) \<and> m_known s' = m_known s \<and> m_dropped s' = m_dropped s \<and> params_kept s s'"
proof -
  let ?a = "px_from st"
  note cw = tq_wf_D(1) [OF wf] and fo = tq_wf_D(2) [OF wf, unfolded fut_wf_iff]
  define fs where "fs = m_future (open_future l ?a s)"
  note of = open_future_spec [OF l conjunct1 [OF fo], of ?a, folded fs_def]
  obtain m where m: "map_of fs ?a = Some m" "entry_wf ?a m" "m = future_of s ?a" using of(3) by blast
  obtain ps where ps: "map snd (dropWhile (\<lambda>e. fst e < px_nonce st) (index_of s ?a)) = map (\<lambda>p. Some (fst p)) ps"
    "distinct (map fst ps)" "set ps = {e \<in> set (m_current s). later st (snd e)}" using moved_elements [OF cw] by blast
  define kept where "kept = takeWhile (\<lambda>e. fst e < px_nonce st) (index_of s ?a)"
  define s2 where "s2 = future_result ?a ps (s\<lparr>m_future := fs\<rparr>)"
  define s' where "s' = s2\<lparr>m_currentByAddressAndNonce := (m_currentByAddressAndNonce s2)(?a := (if kept = [] then None else Some kept))\<rparr>"
  note moved = filter_moved [OF cur_wf_D(1) [OF cw] ps(2,3)]
  have "efor (map snd (dropWhile (\<lambda>e. fst e < px_nonce st) (index_of s ?a))) (future_step ?a) (s\<lparr>m_future := fs\<rparr>) = (Inr (), s2)"
    unfolding ps(1) s2_def using cur_wf_D(1) [OF cw] ps(2,3) by (intro future_loop) auto
  moreover have "m_currentByHash s (px_sha3 st) = Some i" using cur_wf_D(4) [OF cw] st by blast
  moreover have "index_of (s\<lparr>m_future := fs\<rparr>) ?a = index_of s ?a" by (simp add: index_of_def)
  ultimately have run: "setFuture l (px_sha3 st) s = (Inr (), s')"
    using cur_deref [OF cw st] of(5) by (simp add: setFuture_def ebind_def kept_def s'_def Let_def)
  define us where "us = map snd ps"
  have us: "\<forall>u\<in>set us. u \<in> set (cur s) \<and> px_from u = ?a" using ps(3) by (auto simp: us_def later_def)
  have "\<forall>u\<in>set us. px_from u = ?a \<and> recovered u \<and> px_nonce u \<notin> fst ` set m"
  proof
    fix u assume u: "u \<in> set us"
    have "px_nonce u \<noteq> fst x" if x: "x \<in> set m" for x
    proof -
      have "snd x \<in> set (fut s)" "px_from (snd x) = ?a" "px_nonce (snd x) = fst x"
        using future_entry(1) [OF conjunct1 [OF fo], of ?a m "fst x" "snd x"] m(3) x
        by (auto simp: future_of_def fut_txs split: option.splits)
      then show ?thesis using tq_wf_D(3) [OF wf] us u unfolding apart_def by metis
    qed
    moreover have "recovered u" using cur_wf_D(3) [OF cw] us u by auto
    ultimately show "px_from u = ?a \<and> recovered u \<and> px_nonce u \<notin> fst ` set m" using us u by auto
  qed
  moreover have "distinct (map px_nonce us)"
    using ps(2,3) cur_unique(3) [OF cw] by (auto simp: us_def distinct_map inj_on_def later_def)
  ultimately have fold: "entry_wf ?a (fold put_future us m)" "mset (map snd (fold put_future us m)) = mset us + mset (map snd m)"
    using fold_put_future [OF m(2)] by blast+
  have usm: "mset us = mset (filter (later st) (cur s))" unfolding us_def by (rule moved(2))
  have "us \<noteq> []"
  proof -
    have "(i, st) \<in> set ps" using ps(3) st by (simp add: later_def)
    then show ?thesis by (auto simp: us_def)
  qed
  then have ne: "fold put_future us m \<noteq> []" using fold(2) by auto
  have fs': "m_future s' = set_key ?a (fold put_future us m) fs"
    using map_set_key [OF of(1) m(1), of "fold put_future us", OF ne]
    by (simp add: s'_def s2_def future_result_def us_def [symmetric] cong: if_cong)
  have fut': "mset (fut s') = mset us + mset (fut s)"
    using set_key_txs [OF of(1) m(1), of "fold put_future us m"] of(4) fold(2) by (simp add: fut_txs fs' add.commute add.left_commute)
  have ok': "fut_ok (m_future s')" unfolding fs' by (rule set_key_ok' [OF of(1,2) fold(1)])
  have cur1: "m_current s' = filter (\<lambda>e. \<not> later st (snd e)) (m_current s)" using moved(1) by (simp add: s'_def s2_def future_result_def)
  have cur': "cur s' = filter (\<lambda>u. \<not> later st u) (cur s)" by (simp add: cur1 filter_map comp_def)
  have "cur_wf s'"
  proof (rule cur_wf_moved [OF cw cur1 _ _ kept_def])
    show "m_currentByHash s' h = (if \<exists>e\<in>set (m_current s). later st (snd e) \<and> px_sha3 (snd e) = h then None else m_currentByHash s h)" for h
      using ps(3) by (auto simp: s'_def s2_def future_result_def image_image)
  qed (simp_all add: s'_def s2_def future_result_def)
  moreover have "fut_wf s'"
  proof -
    have "length (fut s') = length (fut s) + length ps" using arg_cong [OF fut', of size] by (simp add: us_def)
    then show ?thesis using ok' fo by (simp add: fut_wf_iff) (simp add: s'_def s2_def future_result_def)
  qed
  moreover have all: "mset (cur s' @ fut s') = mset (cur s @ fut s)"
    using fut' usm multiset_partition [of "mset (cur s)" "later st"] by (simp add: cur' mset_filter [symmetric])
  moreover have "apart s'"
  proof (rule apart_mono [OF tq_wf_D(3) [OF wf]])
    show "mset (cur s' @ fut s') \<subseteq># mset (cur s @ fut s)" unfolding all by simp
    have f: "set (fut s') = set us \<union> set (fut s)" using arg_cong [OF fut', of set_mset] by simp
    show "\<forall>t\<in>set (cur s'). \<forall>u\<in>set (fut s'). px_from t = px_from u \<longrightarrow> px_nonce t \<noteq> px_nonce u"
    proof (intro ballI impI)
      fix t u assume t: "t \<in> set (cur s')" and u: "u \<in> set (fut s')" and a: "px_from t = px_from u"
      from u consider "u \<in> set us" | "u \<in> set (fut s)" unfolding f by blast
      then show "px_nonce t \<noteq> px_nonce u"
      proof cases
        case 1
        then have "later st u" using ps(3) by (auto simp: us_def)
        then show ?thesis using t a unfolding cur' by (auto simp: later_def)
      next
        case 2
        moreover have "t \<in> set (cur s)" using t unfolding cur' by simp
        ultimately show ?thesis using tq_wf_D(3) [OF wf] a unfolding apart_def by blast
      qed
    qed
  qed
  moreover have known: "m_known s' = m_known s" "m_dropped s' = m_dropped s" "params_kept s s'"
    by (simp_all add: s'_def s2_def future_result_def params_kept_def)
  moreover have "noted s'" using tq_wf_D(4) [OF wf] mset_eq_setD [OF all] known(1) unfolding noted_def by simp
  ultimately show ?thesis using run cur' fut' usm by (auto simp: tq_wf_def)
qed

end
