(* ===== verification/TxPool.thy ===== *)
theory TxPool
  imports TxQueueLaws
begin

text \<open>
  The operations that the client and the verifier threads call on the transaction queue, and the runs of all of them
  together: a network thread that enqueues, verifier threads that take work and import it, and calls of the client, each
  under its lock. The invariant of the queue holds after every such run in which all senders can be recovered; the last section
  shows what happens otherwise.
\<close>

section \<open>The operations keep the invariant\<close>

lemma tq_wf_empty: "tq_wf (emptyQueue limit futureLimit)"
  by (simp add: tq_wf_def cur_wf_def fut_wf_def apart_def noted_def fut_def emptyQueue_def index_of_def)

text \<open>The verdict on a transaction: the first reason against it, in the order of the checks.\<close>

definition import_verdict :: "pool_tx \<Rightarrow> IfDropped \<Rightarrow> TransactionQueue \<Rightarrow> ImportResult" where
  "import_verdict t ik s =
     (if px_hasZeroSignature t then Import_ZeroSignature
      else if px_sha3 t \<in> m_known s then Import_AlreadyKnown
      else if px_sha3 t \<in> m_dropped s \<and> ik = IfDropped_Ignore then Import_AlreadyInChain
      else if outbid t (cur s @ fut s) then Import_OverbidGasPrice
      else Import_Success)"

lemma tq_import_wf:
  assumes l: "stl_ok l" and wf: "tq_wf s" and t: "recovered t"
  shows "\<exists>s'. tq_import l t ik s = (Inr (import_verdict t ik s), s') \<and> tq_wf s' \<and> params_kept s s' \<and>
    (if import_verdict t ik s = Import_Success then import_result t s s' else s' = s)"
proof (cases "px_hasZeroSignature t \<or> check_WITH_LOCK (px_sha3 t) ik s \<noteq> Import_Success")
  case True
  then show ?thesis using wf
    by (auto simp: tq_import_def check_WITH_LOCK_def import_verdict_def params_kept_def)
next
  case False
  then have new: "px_sha3 t \<notin> m_known s" and v: "import_verdict t ik s = (if outbid t (cur s @ fut s) then Import_OverbidGasPrice else Import_Success)"
    by (auto simp: check_WITH_LOCK_def import_verdict_def split: if_splits)
  have run: "tq_import l t ik s = manageImport_WITH_LOCK l (px_sha3 t) t s" using False by (simp add: tq_import_def)
  show ?thesis
  proof (cases "outbid t (cur s @ fut s)")
    case True
    with manage_body_outbid [OF wf new True, of l] wf show ?thesis
      unfolding run v by (simp add: manageImport_WITH_LOCK_def params_kept_def)
  next
    case nb: False
    obtain s' where "manage_body l (px_sha3 t) t s = (Inr Import_Success, s')" "tq_wf s'" "params_kept s s'" "import_result t s s'"
      using manage_body_accepts [OF l wf t new nb] by blast
    with nb show ?thesis unfolding run v by (auto simp: manageImport_WITH_LOCK_def)
  qed
qed

lemma tq_drop_wf:
  assumes "tq_wf s"
  shows "\<exists>s'. tq_drop h s = (Inr (), s') \<and> tq_wf s' \<and> params_kept s s' \<and> cur s' = drop_hash h (cur s) \<and> fut s' = fut s"
proof (cases "h \<in> m_known s")
  case True
  have "tq_wf (s\<lparr>m_dropped := insert h (m_dropped s)\<rparr>)" using assms by (simp add: tq_wf_def)
  from remove_tq [OF this, of h] show ?thesis using True
    by (auto simp: tq_drop_def ebind_def params_kept_def fut_def)
next
  case False
  then have "px_sha3 u \<noteq> h" if "u \<in> set (cur s)" for u using tq_wf_D(4) [OF assms] that by (auto simp: noted_def)
  then have "drop_hash h (cur s) = cur s" by (simp add: drop_hash_def filter_id_conv)
  then show ?thesis using False assms by (auto simp: tq_drop_def params_kept_def)
qed

lemma dropGood_wf:
  assumes l: "stl_ok l" and wf: "tq_wf s"
  shows "\<exists>s'. dropGood l t s = (Inr (), s') \<and> tq_wf s' \<and> params_kept s s' \<and>
    (\<exists>xs. mset xs = mset (followers s t) + mset (cur s) \<and> cur s' = drop_hash (px_sha3 t) xs) \<and>
    mset (fut s') + mset (followers s t) \<subseteq># mset (fut s) \<and> m_futureSize s' \<le> m_futureLimit s"
proof -
  obtain s1 where s1: "makeCurrent_WITH_LOCK l t s = (Inr (), s1)" "cur_wf s1" "fut_wf s1" "apart s1"
    "mset (cur s1) = mset (followers s t) + mset (cur s)" "mset (fut s1) + mset (followers s t) \<subseteq># mset (fut s)"
    "m_futureSize s1 \<le> m_futureLimit s1" "m_known s1 = m_known s" "params_kept s s1"
    using makeCurrent_wf [OF l tq_wf_D(1-3) [OF wf]] by blast
  have "set (cur s1 @ fut s1) \<subseteq> set (cur s @ fut s)"
  proof -
    have "set (cur s1) = set (followers s t) \<union> set (cur s)" using arg_cong [OF s1(5), of set_mset] by simp
    moreover have "set (followers s t) \<subseteq> set (fut s)" "set (fut s1) \<subseteq> set (fut s)" using set_mset_mono [OF s1(6)] by auto
    ultimately show ?thesis unfolding set_append by blast
  qed
  then have "noted s1" using tq_wf_D(4) [OF wf] s1(8) unfolding noted_def by blast
  then have wf1: "tq_wf s1" using s1(2-4) by (simp add: tq_wf_def)
  show ?thesis
  proof (cases "px_sha3 t \<in> m_known s1")
    case True
    obtain b s2 where s2: "remove_WITH_LOCK (px_sha3 t) s1 = (Inr b, s2)" "tq_wf s2" "cur s2 = drop_hash (px_sha3 t) (cur s1)"
      "m_future s2 = m_future s1" "m_futureSize s2 = m_futureSize s1" "params_kept s1 s2"
      using remove_tq [OF wf1] by blast
    have "dropGood l t s = (Inr (), s2)" using s1(1) s2(1) True by (simp add: dropGood_def ebind_def)
    moreover have "\<exists>xs. mset xs = mset (followers s t) + mset (cur s) \<and> cur s2 = drop_hash (px_sha3 t) xs" using s1(5) s2(3) by blast
    moreover have "m_futureSize s2 \<le> m_futureLimit s" using s1(7,9) s2(5) by (simp add: params_kept_def)
    ultimately show ?thesis using s2(2) s1(6) fut_cong [OF s2(4)] params_kept_trans [OF s1(9) s2(6)] by auto
  next
    case False
    then have "px_sha3 u \<noteq> px_sha3 t" if "u \<in> set (cur s1)" for u
      using tq_wf_D(4) [OF wf1] False that unfolding noted_def set_append by (metis UnI1 imageI subsetD)
    then have "cur s1 = drop_hash (px_sha3 t) (cur s1)" by (simp add: drop_hash_def filter_id_conv)
    moreover have "dropGood l t s = (Inr (), s1)" using s1(1) False by (simp add: dropGood_def ebind_def)
    moreover have "\<exists>xs. mset xs = mset (followers s t) + mset (cur s) \<and> cur s1 = drop_hash (px_sha3 t) xs"
      using s1(5) \<open>cur s1 = drop_hash (px_sha3 t) (cur s1)\<close> by blast
    ultimately show ?thesis using wf1 s1(6,7,9) by (auto simp: params_kept_def)
  qed
qed

lemma setFuture_total:
  assumes "stl_ok l" and "tq_wf s"
  shows "\<exists>s'. setFuture l h s = (Inr (), s') \<and> tq_wf s' \<and> params_kept s s'"
proof (cases "m_currentByHash s h")
  case None
  then show ?thesis using assms by (simp add: setFuture_def params_kept_def)
next
  case (Some i)
  then obtain t where "(i, t) \<in> set (m_current s)" "px_sha3 t = h" using cur_wf_D(4) [OF tq_wf_D(1) [OF assms(2)]] by blast
  then show ?thesis using setFuture_wf [OF assms] by blast
qed

lemma tq_clear_wf: "\<exists>s'. tq_clear s = (Inr (), s') \<and> tq_wf s' \<and> params_kept s s'"
  by (simp add: tq_clear_def tq_wf_def cur_wf_def fut_wf_def apart_def noted_def fut_def index_of_def params_kept_def)

lemma enqueue_wf:
  assumes "length (m_unverified s) \<le> c_maxVerificationQueueSize"
  shows "\<exists>s' ws. enqueue ds nodeId s = (Inr (), s') \<and> s' = s\<lparr>m_unverified := m_unverified s @ ws\<rparr> \<and>
    length (m_unverified s') \<le> c_maxVerificationQueueSize"
  using assms
proof (induction ds arbitrary: s)
  case (Cons b ds)
  show ?case
  proof (cases "length (m_unverified s) \<ge> c_maxVerificationQueueSize")
    case True
    then show ?thesis using Cons.prems by (auto intro: exI [of _ "[]"])
  next
    case False
    define s1 where "s1 = s\<lparr>m_unverified := m_unverified s @ [\<lparr>ut_transaction = b, ut_nodeId = nodeId\<rparr>]\<rparr>"
    have "length (m_unverified s1) \<le> c_maxVerificationQueueSize" using False by (simp add: s1_def)
    from Cons.IH [OF this] show ?thesis using False by (auto simp: s1_def)
  qed
qed (auto intro: exI [of _ "[]"])

lemma verifier_import_wf:
  assumes l: "stl_ok l" and parse: "\<And>t. parse (ut_transaction w) = Some t \<Longrightarrow> recovered t" and wf: "tq_wf s"
  shows "\<exists>s'. verifier_import parse l w s = (Inr (), s') \<and> tq_wf s' \<and> params_kept s s' \<and>
    (\<forall>t. parse (ut_transaction w) = Some t \<longrightarrow>
      (\<exists>r es. r \<noteq> Import_Malformed \<and> tq_events s' = es @ [Ev_Import r (px_sha3 t) (ut_nodeId w)]))"
proof (cases "parse (ut_transaction w)")
  case None
  then show ?thesis using wf by (simp add: verifier_import_def params_kept_def)
next
  case (Some t)
  obtain s1 where "tq_import l t IfDropped_Ignore s = (Inr (import_verdict t IfDropped_Ignore s), s1)" "tq_wf s1" "params_kept s s1"
    using tq_import_wf [OF l wf parse [OF Some]] by blast
  moreover have "import_verdict t IfDropped_Ignore s \<noteq> Import_Malformed" by (simp add: import_verdict_def)
  ultimately show ?thesis using Some
    by (auto simp: verifier_import_def ebind_def signal_def tq_wf_def params_kept_def)
qed

section \<open>Events\<close>

text \<open>No operation takes a signal back.\<close>

definition grows :: "TransactionQueue \<Rightarrow> TransactionQueue \<Rightarrow> bool" where
  "grows s s' \<longleftrightarrow> set (tq_events s) \<subseteq> set (tq_events s')"

interpretation grows: step_relation grows
  by unfold_locales (auto simp: grows_def)

lemma deref_grows: "keeps grows (deref it)"
  by (rule keepsI) (auto simp: deref_def grows_def split: option.splits)

lemma put_current_grows: "keeps grows (put_current l a h t)"
  unfolding put_current_def emplace_def
  by (rule keepsI) (auto simp: ebind_def grows_def split: sum.splits)

lemma signal_grows: "keeps grows (signal e)"
  by (rule keepsI) (auto simp: signal_def grows_def)

lemma remove_grows: "keeps grows (remove_WITH_LOCK h)"
  by (rule keepsI) (auto simp: remove_WITH_LOCK_def ebind_def deref_def grows_def split: option.splits)

lemma make_loop_grows: "keeps grows (make_loop l a m n k)"
  by (induction m arbitrary: n k) (auto intro!: grows.keeps_rules grows.keeps_emodify put_current_grows simp: grows_def)

lemma trim_future_grows: "grows s (snd (trim_future s))"
proof (induction s rule: trim_future.induct)
  case (1 s)
  show ?case
    by (subst trim_future.simps) (use 1 in \<open>auto simp: grows_def split: list.splits prod.splits\<close>)
qed

lemma makeCurrent_grows: "keeps grows (makeCurrent_WITH_LOCK l t)"
  unfolding makeCurrent_WITH_LOCK_def
proof (intro grows.keeps_ebind grows.keeps_ewhen signal_grows)
  show "keeps grows trim_future" by (rule keepsI) (rule trim_future_grows)
  let ?rest = "\<lambda>fm n s. (Inr (0 < n), s\<lparr>m_future := set_key (px_from t)
    (takeWhile (\<lambda>e. fst e \<noteq> px_nonce t + 1) fm @ drop n (dropWhile (\<lambda>e. fst e \<noteq> px_nonce t + 1) fm)) (m_future s)\<rparr>)"
  have "keeps grows (?rest fm n)" for fm n by (rule keepsI) (simp add: grows_def)
  then have "keeps grows (ebind (make_loop l (px_from t) m k 0) (?rest fm))" for m k fm
    by (intro grows.keeps_ebind make_loop_grows)
  then show "keeps grows (\<lambda>s. case map_of (m_future s) (px_from t) of None \<Rightarrow> (Inr False, s)
       | Some fm \<Rightarrow> (if om_count fm (px_nonce t + 1) then
              ebind (make_loop l (px_from t) (dropWhile (\<lambda>e. fst e \<noteq> px_nonce t + 1) fm) (px_nonce t + 1) 0) (?rest fm) s
            else (Inr False, s)))"
    by (intro keepsI) (auto simp: grows.R_refl keepsD split: option.split)
qed

lemma trim_current_grows: "keeps grows (trim_current n)"
proof (induction n)
  case (Suc n)
  have "keeps grows (ebind (remove_WITH_LOCK h) (\<lambda>_. trim_current n))" for h
    by (intro grows.keeps_ebind remove_grows Suc)
  then show ?case by (intro keepsI) (simp add: grows.R_refl keepsD)
qed (auto intro: keepsI simp: grows.R_refl)

lemma replace_grows: "keeps grows (replace_current t)" "keeps grows (replace_future t)"
proof -
  let ?rest = "\<lambda>old. if px_gasPrice t < px_gasPrice old then ereturn True
       else ebind (remove_WITH_LOCK (px_sha3 old)) (\<lambda>_. ebind (signal (Ev_Replaced (px_sha3 old))) (\<lambda>_. ereturn False))"
  have "keeps grows (ebind (deref it) ?rest)" for it
    by (intro grows.keeps_rules deref_grows remove_grows signal_grows)
  then show "keeps grows (replace_current t)" unfolding replace_current_def
    by (intro keepsI) (auto simp: grows.R_refl keepsD split: option.split)
  show "keeps grows (replace_future t)" unfolding replace_future_def
    by (rule keepsI) (auto simp: grows_def split: option.split)
qed

lemma insertCurrent_grows: "keeps grows (insertCurrent_WITH_LOCK l h t)"
proof (rule keepsI)
  fix s
  have "grows s (snd (eseq [put_current l (px_from t) h t, makeCurrent_WITH_LOCK l t,
       emodify (\<lambda>s. s\<lparr>m_known := insert h (m_known s)\<rparr>)] s))"
    by (rule keepsD [OF grows.keeps_eseq]) (auto intro: put_current_grows makeCurrent_grows grows.keeps_emodify simp: grows_def)
  then show "grows s (snd (insertCurrent_WITH_LOCK l h t s))" by (simp add: insertCurrent_WITH_LOCK_def grows.R_refl del: eseq.simps)
qed

lemma manage_body_grows: "keeps grows (manage_body l h t)"
  unfolding manage_body_def
proof (intro grows.keeps_rules replace_grows insertCurrent_grows signal_grows)
  show "keeps grows (\<lambda>s. trim_current (Suc (length (m_current s))) s)"
    by (rule keepsI) (rule keepsD [OF trim_current_grows])
qed

lemma tq_import_grows: "keeps grows (tq_import l t ik)"
proof (rule keepsI)
  fix s
  have "grows s (snd (manageImport_WITH_LOCK l (px_sha3 t) t s))"
    using keepsD [OF manage_body_grows [of l "px_sha3 t" t], of s]
    by (auto simp: manageImport_WITH_LOCK_def split: prod.splits sum.splits tq_error.splits)
  then show "grows s (snd (tq_import l t ik s))" by (simp add: tq_import_def grows.R_refl)
qed

lemma verifier_import_grows: "keeps grows (verifier_import parse l w)"
  unfolding verifier_import_def by (intro grows.keeps_rules tq_import_grows signal_grows)

section \<open>The threads\<close>

text \<open>
  A verifier thread alone, for a number of rounds; it would wait when there is no work. The loop ends only with the
  destructor.
\<close>

primrec verifierBody :: "(bytes \<Rightarrow> pool_tx option) \<Rightarrow> stl \<Rightarrow> nat \<Rightarrow> unit tq" where
  "verifierBody parse l 0 = ereturn ()"
| "verifierBody parse l (Suc n) = (\<lambda>s. case verifier_take s of
     None \<Rightarrow> (Inr (), s)
   | Some (work, s') \<Rightarrow> ebind (verifier_import parse l work) (\<lambda>_. verifierBody parse l n) s')"

text \<open>The public calls of the client that change the queue under its lock. \<^verbatim>\<open>eraseDropedTx\<close> takes no lock; nothing
  calls it.\<close>

datatype tq_call = Call_import pool_tx IfDropped | Call_drop h256 | Call_setFuture h256 | Call_dropGood pool_tx
  | Call_clear

primrec tq_do :: "stl \<Rightarrow> tq_call \<Rightarrow> unit tq" where
  "tq_do l (Call_import t ik) = ebind (tq_import l t ik) (\<lambda>_. ereturn ())"
| "tq_do l (Call_drop h) = tq_drop h"
| "tq_do l (Call_setFuture h) = setFuture l h"
| "tq_do l (Call_dropGood t) = dropGood l t"
| "tq_do l Call_clear = tq_clear"

primrec call_ok :: "tq_call \<Rightarrow> bool" where
  "call_ok (Call_import t ik) = recovered t"
| "call_ok (Call_drop h) = True"
| "call_ok (Call_setFuture h) = True"
| "call_ok (Call_dropGood t) = True"
| "call_ok Call_clear = True"

text \<open>
  The steps of all threads: the queue and the work that verifiers took and have not imported. An exception ends a step
  with the state it left.
\<close>

inductive tq_step :: "(bytes \<Rightarrow> pool_tx option) \<Rightarrow> stl \<Rightarrow> TransactionQueue \<times> UnverifiedTransaction list \<Rightarrow>
    TransactionQueue \<times> UnverifiedTransaction list \<Rightarrow> bool" for parse l where
  enqueue_step: "enqueue ds nodeId s = (r, s') \<Longrightarrow> tq_step parse l (s, ws) (s', ws)"
| take_step: "verifier_take s = Some (w, s') \<Longrightarrow> tq_step parse l (s, ws) (s', w # ws)"
| import_step: "verifier_import parse l w s = (r, s') \<Longrightarrow> tq_step parse l (s, us @ w # ws) (s', us @ ws)"
| call_step: "call_ok c \<Longrightarrow> tq_do l c s = (r, s') \<Longrightarrow> tq_step parse l (s, ws) (s', ws)"

inductive tq_runs :: "(bytes \<Rightarrow> pool_tx option) \<Rightarrow> stl \<Rightarrow> 32 word \<Rightarrow> 32 word \<Rightarrow>
    TransactionQueue \<times> UnverifiedTransaction list \<Rightarrow> bool" for parse l limit futureLimit where
  start: "tq_runs parse l limit futureLimit (emptyQueue limit futureLimit, [])"
| step: "tq_runs parse l limit futureLimit p \<Longrightarrow> tq_step parse l p p' \<Longrightarrow> tq_runs parse l limit futureLimit p'"

definition pool_ok :: "32 word \<Rightarrow> 32 word \<Rightarrow> TransactionQueue \<Rightarrow> bool" where
  "pool_ok limit futureLimit s \<longleftrightarrow> tq_wf s \<and> length (m_unverified s) \<le> c_maxVerificationQueueSize \<and>
     m_limit s = limit \<and> m_futureLimit s = futureLimit"

lemma pool_ok_kept: "pool_ok n k s \<Longrightarrow> tq_wf s' \<Longrightarrow> params_kept s s' \<Longrightarrow> pool_ok n k s'"
  by (simp add: pool_ok_def params_kept_def)

lemma tq_do_total:
  assumes "stl_ok l" and "call_ok c" and "tq_wf s"
  shows "\<exists>s'. tq_do l c s = (Inr (), s') \<and> tq_wf s' \<and> params_kept s s'"
proof (cases c)
  case (Call_import t ik)
  then show ?thesis using tq_import_wf [OF assms(1,3), of t ik] assms(2) by (auto simp: ebind_def)
next
  case (Call_drop h)
  then show ?thesis using tq_drop_wf [OF assms(3), of h] by auto
next
  case (Call_setFuture h)
  then show ?thesis using setFuture_total [OF assms(1,3), of h] by auto
next
  case (Call_dropGood t)
  then show ?thesis using dropGood_wf [OF assms(1,3), of t] by auto
next
  case Call_clear
  then show ?thesis using tq_clear_wf [of s] by simp
qed

text \<open>Every transaction that comes off the wire has a signature from which its sender can be recovered.\<close>

definition parse_ok :: "(bytes \<Rightarrow> pool_tx option) \<Rightarrow> bool" where
  "parse_ok parse \<longleftrightarrow> (\<forall>b t. parse b = Some t \<longrightarrow> recovered t)"

lemma tq_step_ok:
  assumes l: "stl_ok l" and parse: "parse_ok parse"
  shows "tq_step parse l p p' \<Longrightarrow> pool_ok n k (fst p) \<Longrightarrow> pool_ok n k (fst p')"
proof (induction rule: tq_step.induct)
  case (enqueue_step ds nodeId s r s' ws)
  then show ?case using enqueue_wf [of s ds nodeId] by (auto simp: pool_ok_def tq_wf_def)
next
  case (take_step s w s' ws)
  then show ?case by (auto simp: pool_ok_def tq_wf_def verifier_take_def split: list.splits)
next
  case (import_step w s r s' us ws)
  then have wf: "tq_wf s" by (simp add: pool_ok_def)
  have "recovered t" if "parse (ut_transaction w) = Some t" for t using parse that by (simp add: parse_ok_def)
  from verifier_import_wf [of l parse w s, OF l this wf] import_step(1) have "tq_wf s' \<and> params_kept s s'" by auto
  then show ?case using import_step(2) pool_ok_kept by auto
next
  case (call_step c s r s' ws)
  then have wf: "tq_wf s" by (simp add: pool_ok_def)
  from tq_do_total [OF l call_step(1) wf] call_step(2) have "tq_wf s' \<and> params_kept s s'" by auto
  then show ?case using call_step(3) pool_ok_kept by auto
qed

lemma tq_runs_ok:
  assumes l: "stl_ok l" and parse: "parse_ok parse"
  shows "tq_runs parse l n k p \<Longrightarrow> pool_ok n k (fst p)"
proof (induction rule: tq_runs.induct)
  case start
  then show ?case using tq_wf_empty by (simp add: pool_ok_def) (simp add: emptyQueue_def)
next
  case (step p p')
  then show ?case using tq_step_ok [OF l parse] by blast
qed

lemma verifierBody_wf:
  assumes l: "stl_ok l" and parse: "parse_ok parse" and "tq_wf s"
  shows "\<exists>s'. verifierBody parse l (length (m_unverified s)) s = (Inr (), s') \<and> tq_wf s' \<and> m_unverified s' = [] \<and> grows s s' \<and>
    (\<forall>w\<in>set (m_unverified s). \<forall>t. parse (ut_transaction w) = Some t \<longrightarrow>
      (\<exists>r. r \<noteq> Import_Malformed \<and> Ev_Import r (px_sha3 t) (ut_nodeId w) \<in> set (tq_events s')))"
  using \<open>tq_wf s\<close>
proof (induction "m_unverified s" arbitrary: s)
  case Nil
  then show ?case by (auto simp: grows.R_refl)
next
  case (Cons w ws)
  define s0 where "s0 = s\<lparr>m_unverified := ws\<rparr>"
  have took: "verifier_take s = Some (w, s0)" using Cons.hyps(2) [symmetric] by (simp add: verifier_take_def s0_def)
  have "tq_wf s0" using Cons.prems by (simp add: s0_def tq_wf_def)
  then obtain s1 where s1: "verifier_import parse l w s0 = (Inr (), s1)" "tq_wf s1" "params_kept s0 s1"
    "\<forall>t. parse (ut_transaction w) = Some t \<longrightarrow> (\<exists>r es. r \<noteq> Import_Malformed \<and> tq_events s1 = es @ [Ev_Import r (px_sha3 t) (ut_nodeId w)])"
    using verifier_import_wf [OF l, of parse w s0] parse unfolding parse_ok_def by blast
  have ws: "ws = m_unverified s1" using s1(3) by (simp add: params_kept_def s0_def)
  from Cons.hyps(1) [OF this s1(2)] obtain s' where s': "verifierBody parse l (length (m_unverified s1)) s1 = (Inr (), s')" "tq_wf s'"
    "m_unverified s' = []" "grows s1 s'"
    "\<forall>w\<in>set (m_unverified s1). \<forall>t. parse (ut_transaction w) = Some t \<longrightarrow>
      (\<exists>r. r \<noteq> Import_Malformed \<and> Ev_Import r (px_sha3 t) (ut_nodeId w) \<in> set (tq_events s'))" by blast
  have "verifierBody parse l (length (m_unverified s)) s = (Inr (), s')"
    using took s1(1) s'(1) by (simp add: Cons.hyps(2) [symmetric] ws [symmetric] ebind_def)
  moreover have g: "grows s s'"
    using keepsD [OF verifier_import_grows [of parse l w], of s0] s1(1) s'(4) by (auto simp: grows_def s0_def)
  have "\<exists>r. r \<noteq> Import_Malformed \<and> Ev_Import r (px_sha3 t) (ut_nodeId w) \<in> set (tq_events s')"
    if pt: "parse (ut_transaction w) = Some t" for t
  proof -
    obtain r es where r: "r \<noteq> Import_Malformed" "tq_events s1 = es @ [Ev_Import r (px_sha3 t) (ut_nodeId w)]" using s1(4) pt by blast
    then have "Ev_Import r (px_sha3 t) (ut_nodeId w) \<in> set (tq_events s1)" by simp
    then show ?thesis using s'(4) r(1) by (auto simp: grows_def)
  qed
  then have "\<forall>w\<in>set (m_unverified s). \<forall>t. parse (ut_transaction w) = Some t \<longrightarrow>
      (\<exists>r. r \<noteq> Import_Malformed \<and> Ev_Import r (px_sha3 t) (ut_nodeId w) \<in> set (tq_events s'))"
    using s'(5) unfolding Cons.hyps(2) [symmetric] ws [symmetric] list.set by blast
  ultimately show ?case using s'(2,3) g by blast
qed

section \<open>An instance\<close>

text \<open>A library that puts an element before the first one it precedes, and does not reorder a map.\<close>

primrec scan_fit :: "(pool_tx \<Rightarrow> tq_error + bool) \<Rightarrow> pool_tx list \<Rightarrow> tq_error + nat" where
  "scan_fit c [] = Inr 0"
| "scan_fit c (x # xs) = sbind (c x) (\<lambda>b. if b then Inr 0 else sbind (scan_fit c xs) (\<lambda>i. Inr (Suc i)))"

definition first_fit :: stl where
  "first_fit = \<lparr>stl_emplace = scan_fit, stl_rehash = (\<lambda>m. m)\<rparr>"

lemma scan_fit_ok: "\<forall>y\<in>set xs. \<exists>b. c y = Inr b \<Longrightarrow> \<exists>i\<le>length xs. scan_fit c xs = Inr i"
  by (induction xs) auto

lemma first_fit_ok: "stl_ok first_fit"
  using scan_fit_ok by (auto simp: stl_ok_def first_fit_def)

definition sample :: "u256 \<Rightarrow> pool_tx" where
  "sample n = \<lparr>px_sender = Some 5, px_nonce = n, px_gasPrice = 1, px_sha3 = n, px_hasZeroSignature = False\<rparr>"

lemma sample_recovered [simp]: "recovered (sample n)" "px_from (sample n) = 5" "px_nonce (sample n) = n" "px_sha3 (sample n) = n"
  "px_hasZeroSignature (sample n) = False"
  by (simp_all add: sample_def recovered_def px_from_def)

section \<open>Properties\<close>

text \<open>In every state that the network thread, the verifiers and the client can bring an empty queue to, when all senders can be
  recovered and the multiset accepts insertions although its order changes: the indexes agree with the contents, the work queue keeps its
  bound, and no further call and no import meets undefined behaviour, an endless loop or an exception. The first hypothesis
  is not ensured by \<^verbatim>\<open>CheckTransaction::Cheap\<close>, and the second not by the library's documentation.\<close>

lemma queue_runs_safe:
  assumes "stl_ok l" and "parse_ok parse" and "tq_runs parse l limit futureLimit (s, ws)"
  shows "tq_wf s \<and> length (m_unverified s) \<le> c_maxVerificationQueueSize \<and>
    (\<forall>c. call_ok c \<longrightarrow> (\<exists>s'. tq_do l c s = (Inr (), s'))) \<and> (\<forall>w. \<exists>s'. verifier_import parse l w s = (Inr (), s'))"
proof -
  have ok: "tq_wf s" "length (m_unverified s) \<le> c_maxVerificationQueueSize"
    using tq_runs_ok [OF assms] by (simp_all add: pool_ok_def)
  have "\<exists>s'. verifier_import parse l w s = (Inr (), s')" for w
    using verifier_import_wf [OF assms(1) _ ok(1), of parse w] assms(2) unfolding parse_ok_def by blast
  then show ?thesis using ok tq_do_total [OF assms(1) _ ok(1)] by blast
qed

text \<open>C12. The verdict of an import, for a well-formed queue and a sender that can be recovered, is the first reason against the
  transaction in the order of the checks: a zero signature, a known hash, a dropped hash that is not to be retried, a transaction with the same sender and
  nonce, current or waiting, that pays more. Then the queue is left as it was. With no reason against it the import succeeds: the
  transaction takes the place of the one with the same sender and nonce, the waiting ones that follow it without a gap are current
  with it, the current ones are cut to the limit, and all others wait as before unless they exceed their own limit.\<close>

theorem import_verdicts:
  assumes "stl_ok l" and "tq_wf s" and "recovered t"
  shows "\<exists>s'. tq_import l t ik s = (Inr (import_verdict t ik s), s') \<and> tq_wf s' \<and>
    (if import_verdict t ik s = Import_Success then import_result t s s' else s' = s)"
  using tq_import_wf [OF assms] by blast

text \<open>A waiting successor becomes current with the imported transaction; a cheaper one with its nonce is refused.\<close>

definition sample_waiting :: TransactionQueue where
  "sample_waiting = (emptyQueue 8 8)\<lparr>m_known := {1}, m_future := [(5, [(1, sample 1)])], m_futureSize := 1\<rparr>"

lemma sample_waiting_wf: "tq_wf sample_waiting"
  by (simp add: sample_waiting_def tq_wf_def cur_wf_def fut_wf_def apart_def noted_def fut_def emptyQueue_def index_of_def om_wf_Cons)

theorem import_verdicts_witness:
  "\<exists>s'. tq_import first_fit (sample 0) IfDropped_Ignore sample_waiting = (Inr Import_Success, s') \<and>
     mset (cur s') = {#sample 0, sample 1#} \<and> fut s' = [] \<and>
     tq_import first_fit ((sample 1)\<lparr>px_gasPrice := 0, px_sha3 := 9\<rparr>) IfDropped_Ignore sample_waiting =
       (Inr Import_OverbidGasPrice, sample_waiting)"
proof -
  let ?u = "(sample 1)\<lparr>px_gasPrice := 0, px_sha3 := 9\<rparr>"
  have facts: "fut sample_waiting = [sample 1]" "cur sample_waiting = []" "run_of sample_waiting (sample 0) = [sample 1]"
    "m_known sample_waiting = {1}" "m_dropped sample_waiting = {}" "m_limit sample_waiting = 8" "m_futureLimit sample_waiting = 8"
    by (simp_all add: sample_waiting_def fut_def emptyQueue_def run_of_def future_of_def)
  have v: "import_verdict (sample 0) IfDropped_Ignore sample_waiting = Import_Success"
    by (simp add: import_verdict_def facts outbid_def)
  obtain s' where s': "tq_import first_fit (sample 0) IfDropped_Ignore sample_waiting = (Inr Import_Success, s')" "tq_wf s'"
    "import_result (sample 0) sample_waiting s'"
    using import_verdicts [OF first_fit_ok sample_waiting_wf, of "sample 0" IfDropped_Ignore] v by auto
  then obtain xs where xs: "cur s' = take 8 xs" "mset xs = {#sample 0, sample 1#}"
    by (auto simp: import_result_def facts other_keys_def)
  moreover have "length xs = 2" using arg_cong [OF xs(2), of size] by simp
  ultimately have c: "mset (cur s') = {#sample 0, sample 1#}" by simp
  have f: "fut s' = []" using s'(3) by (simp add: import_result_def facts other_keys_def)
  have "recovered ?u" "import_verdict ?u IfDropped_Ignore sample_waiting = Import_OverbidGasPrice"
    by (simp_all add: import_verdict_def facts outbid_def recovered_def px_from_def sample_def)
  with import_verdicts [OF first_fit_ok sample_waiting_wf, of ?u IfDropped_Ignore] s'(1) c f show ?thesis by auto
qed

text \<open>C13. When a transaction has gone into a block, all waiting transactions of its sender that follow it without a gap are offered
  for the next block, and it is not.\<close>

theorem dropGood_releases_followers:
  assumes "stl_ok l" and "tq_wf s" and "unat (px_nonce t + 1) + j < 2 ^ 256"
    and "\<forall>i\<le>j. \<exists>u\<in>set (fut s). px_from u = px_from t \<and> px_nonce u = px_nonce t + 1 + of_nat i \<and> px_sha3 u \<noteq> px_sha3 t"
  shows "\<exists>s'. dropGood l t s = (Inr (), s') \<and>
    (\<forall>i\<le>j. \<exists>u\<in>set (topTransactions (length (m_current s')) {} s'). px_from u = px_from t \<and> px_nonce u = px_nonce t + 1 + of_nat i) \<and>
    (\<forall>u\<in>set (topTransactions (length (m_current s')) {} s'). px_sha3 u \<noteq> px_sha3 t)"
proof -
  obtain s' xs where s': "dropGood l t s = (Inr (), s')" "mset xs = mset (followers s t) + mset (cur s)" "cur s' = drop_hash (px_sha3 t) xs"
    using dropGood_wf [OF assms(1,2), of t] by blast
  have xs: "set (cur s') = {u \<in> set (followers s t) \<union> set (cur s). px_sha3 u \<noteq> px_sha3 t}"
    unfolding s'(3) using arg_cong [OF s'(2), of set_mset] by (auto simp: drop_hash_def)
  have top: "set (topTransactions (length (m_current s')) {} s') = set (cur s')" by (simp add: topTransactions_def)
  have "\<exists>u\<in>set (cur s'). px_from u = px_from t \<and> px_nonce u = px_nonce t + 1 + of_nat i" if i: "i \<le> j" for i
  proof -
    obtain u where u: "u \<in> set (fut s)" "px_from u = px_from t" "px_nonce u = px_nonce t + 1 + of_nat i" "px_sha3 u \<noteq> px_sha3 t"
      using assms(4) i by blast
    have ok: "fut_ok (m_future s)" using tq_wf_D(2) [OF assms(2)] by (simp add: fut_wf_iff)
    have "u \<in> set (followers s t)"
    proof (rule followers_chain [OF ok _ _ u(1-3)])
      show "\<forall>k\<le>i. \<exists>v\<in>set (fut s). px_from v = px_from t \<and> px_nonce v = px_nonce t + 1 + of_nat k" using assms(4) i by (meson le_trans)
    qed (use assms(3) i in simp)
    then show ?thesis using u(2-) unfolding xs by blast
  qed
  moreover have "\<forall>u\<in>set (cur s'). px_sha3 u \<noteq> px_sha3 t" unfolding xs by blast
  ultimately show ?thesis using s'(1) unfolding top [symmetric] by blast
qed

theorem dropGood_releases_followers_witness:
  "\<exists>s'. dropGood first_fit (sample 0) ((emptyQueue 8 8)\<lparr>m_known := {1}, m_future := [(5, [(1, sample 1)])], m_futureSize := 1\<rparr>) = (Inr (), s') \<and>
     (\<exists>u\<in>set (topTransactions (length (m_current s')) {} s'). px_nonce u = 1)"
proof -
  let ?s = "(emptyQueue 8 8)\<lparr>m_known := {1}, m_future := [(5, [(1, sample 1)])], m_futureSize := 1\<rparr>"
  have "tq_wf ?s"
    by (simp add: tq_wf_def cur_wf_def fut_wf_def apart_def noted_def fut_def emptyQueue_def index_of_def om_wf_Cons)
  from dropGood_releases_followers [OF first_fit_ok this, of "sample 0" 0] show ?thesis
    by (auto simp: fut_def)
qed

text \<open>Under the same hypotheses: after as many rounds as there is work, a verifier has left none, and for every transaction
  that parses there is a signal with a verdict and the peer it came from.\<close>

lemma verifier_answers:
  assumes "stl_ok l" and "parse_ok parse" and "tq_wf s"
  shows "\<exists>s'. verifierBody parse l (length (m_unverified s)) s = (Inr (), s') \<and> tq_wf s' \<and> m_unverified s' = [] \<and>
    (\<forall>w\<in>set (m_unverified s). \<forall>t. parse (ut_transaction w) = Some t \<longrightarrow>
      (\<exists>r. r \<noteq> Import_Malformed \<and> Ev_Import r (px_sha3 t) (ut_nodeId w) \<in> set (tq_events s')))"
  using verifierBody_wf [OF assms] by blast

section \<open>A sender that cannot be recovered\<close>

text \<open>What \<^verbatim>\<open>multiset::emplace\<close> does in an empty container, and when every comparison throws.\<close>

definition stl_calls :: "stl \<Rightarrow> bool" where
  "stl_calls l \<longleftrightarrow> (\<forall>c. stl_emplace l c [] = Inr 0) \<and>
     (\<forall>c xs e. xs \<noteq> [] \<and> (\<forall>y\<in>set xs. c y = Inl e) \<longrightarrow> stl_emplace l c xs = Inl e)"

text \<open>The queue that holds only \<open>t\<close>, whose sender is not recovered, after failed imports with the given senders and nonces.\<close>

definition blocked :: "pool_tx \<Rightarrow> (address \<times> u256) set \<Rightarrow> TransactionQueue \<Rightarrow> bool" where
  "blocked t ks s \<longleftrightarrow> m_current s = [(0, t)] \<and> m_known s = {px_sha3 t} \<and> m_dropped s = {} \<and> m_future s = [] \<and>
     m_currentByHash s = [px_sha3 t \<mapsto> 0] \<and>
     (\<forall>a n. a \<noteq> 0 \<longrightarrow> map_of (index_of s a) n = (if (a, n) \<in> ks then Some None else None))"

text \<open>A transaction of a sender that can be recovered, with a signature and another hash.\<close>

definition honest :: "pool_tx \<Rightarrow> pool_tx \<Rightarrow> bool" where
  "honest t u \<longleftrightarrow> recovered u \<and> px_from u \<noteq> 0 \<and> \<not> px_hasZeroSignature u \<and> px_sha3 u \<noteq> px_sha3 t"

definition px_key :: "pool_tx \<Rightarrow> address \<times> u256" where
  "px_key u = (px_from u, px_nonce u)"

lemma import_unrecoverable:
  assumes "stl_calls l" and "px_sender t = None" and "\<not> px_hasZeroSignature t" and "0 < limit"
  shows "\<exists>s1. tq_import l t ik (emptyQueue limit futureLimit) = (Inr Import_Success, s1) \<and> blocked t {} s1"
proof -
  have first: "stl_emplace l c [] = Inr 0" for c using assms(1) by (simp add: stl_calls_def)
  define s1 where "s1 = (emptyQueue limit futureLimit)\<lparr>m_known := {px_sha3 t}, m_current := [(0, t)],
    m_currentByHash := [px_sha3 t \<mapsto> 0], m_currentByAddressAndNonce := [0 \<mapsto> [(px_nonce t, Some 0)]], tq_next := 1, tq_events := [Ev_Ready]\<rparr>"
  have from_t: "px_from t = 0" using assms(2) by (simp add: px_from_def)
  have lim: "\<not> unat limit < Suc 0" using assms(4) by (simp add: unat_gt_0)
  have "tq_import l t ik (emptyQueue limit futureLimit) = (Inr Import_Success, s1)"
    using assms(3) first lim
    by (simp add: tq_import_def check_WITH_LOCK_def manageImport_WITH_LOCK_def manage_body_def replace_current_def replace_future_def
      insertCurrent_WITH_LOCK_def put_current_def emplace_def makeCurrent_WITH_LOCK_def trim_future.simps signal_def ebind_def
      emptyQueue_def index_of_def from_t s1_def)
  moreover have "blocked t {} s1" by (simp add: blocked_def s1_def emptyQueue_def index_of_def)
  ultimately show ?thesis by blast
qed

lemma blocked_import_again:
  assumes "blocked t ks s" and "honest t u" and "px_key u \<in> ks"
  shows "tq_import l u ik s = (Inl Tq_undefined, s)"
  using assms by (simp add: blocked_def honest_def px_key_def tq_import_def check_WITH_LOCK_def manageImport_WITH_LOCK_def
      manage_body_def replace_current_def deref_def ebind_def)

lemma blocked_import_new:
  assumes l: "stl_calls l" and t: "px_sender t = None" and s: "blocked t ks s" and u: "honest t u" and new: "px_key u \<notin> ks"
  shows "\<exists>s'. tq_import l u ik s = (Inr Import_Malformed, s') \<and> blocked t (insert (px_key u) ks) s'"
proof -
  let ?a = "px_from u" and ?n = "px_nonce u"
  have none: "map_of (index_of s ?a) ?n = None" using s u new by (simp add: blocked_def honest_def px_key_def)
  then have cnt: "\<not> om_count (index_of s ?a) ?n" by (simp add: om_count_def)
  define s2 where "s2 = s\<lparr>m_currentByAddressAndNonce := (m_currentByAddressAndNonce s)(?a \<mapsto> om_insert ?n None (index_of s ?a))\<rparr>"
  have cur: "m_current s = [(0, t)]" using s by (simp add: blocked_def)
  have ix: "index_of s2 b = (if b = ?a then om_insert ?n None (index_of s ?a) else index_of s b)" for b
    by (simp add: s2_def index_of_def)
  obtain k v m where "om_insert ?n None (index_of s ?a) = (k, v) # m" by (metis list.exhaust om_insert_nonempty prod.exhaust)
  then have "PriorityCompare s2 u t = Inl Tq_InvalidSignature"
    using u t by (simp add: PriorityCompare_def height_def px_from_recovered honest_def s2_def)
  then have throws: "stl_emplace l (PriorityCompare s2 u) [t] = Inl Tq_InvalidSignature" using l by (simp add: stl_calls_def)
  have put: "put_current l ?a (px_sha3 u) u s = (Inl Tq_InvalidSignature, s2)"
    using throws cnt cur by (simp add: put_current_def emplace_def ebind_def s2_def)
  have "tq_import l u ik s = (Inr Import_Malformed, s2)"
    using s u none put by (simp add: blocked_def honest_def tq_import_def check_WITH_LOCK_def manageImport_WITH_LOCK_def manage_body_def
      replace_current_def replace_future_def insertCurrent_WITH_LOCK_def ebind_def)
  moreover have "blocked t (insert (px_key u) ks) s2"
    using s none unfolding blocked_def ix by (auto simp: s2_def px_key_def)
  ultimately show ?thesis by blast
qed

text \<open>One import after the other, with their verdicts.\<close>

primrec import_each :: "stl \<Rightarrow> IfDropped \<Rightarrow> pool_tx list \<Rightarrow> ImportResult list tq" where
  "import_each l ik [] = ereturn []"
| "import_each l ik (u # us) = ebind (tq_import l u ik) (\<lambda>r. ebind (import_each l ik us) (\<lambda>rs. ereturn (r # rs)))"

lemma blocked_import_all:
  assumes l: "stl_calls l" and t: "px_sender t = None"
  shows "blocked t ks s \<Longrightarrow> \<forall>u\<in>set us. honest t u \<Longrightarrow>
    \<exists>s' ks'. blocked t ks' s' \<and> import_each l ik us s =
      (if distinct (map px_key us) \<and> px_key ` set us \<inter> ks = {} then Inr (replicate (length us) Import_Malformed) else Inl Tq_undefined, s')"
proof (induction us arbitrary: s ks)
  case (Cons u us)
  show ?case
  proof (cases "px_key u \<in> ks")
    case True
    then show ?thesis using blocked_import_again [OF Cons.prems(1) _ True] Cons.prems by (auto simp: ebind_def)
  next
    case False
    then obtain s1 where s1: "tq_import l u ik s = (Inr Import_Malformed, s1)" "blocked t (insert (px_key u) ks) s1"
      using blocked_import_new [OF l t Cons.prems(1)] Cons.prems(2) by force
    from Cons.IH [OF s1(2)] Cons.prems(2) obtain s' ks' where "blocked t ks' s'" "import_each l ik us s1 =
      (if distinct (map px_key us) \<and> px_key ` set us \<inter> insert (px_key u) ks = {} then Inr (replicate (length us) Import_Malformed) else Inl Tq_undefined, s')"
      by auto
    with s1(1) False show ?thesis by (auto simp: ebind_def)
  qed
qed (auto simp: Let_def)

text \<open>C14. The verifiers accept transactions whose sender cannot be recovered (they check the signature cheaply). One such
  transaction in an empty queue is accepted. From then on no sequence of imports of signed transactions of recoverable senders gets one
  into the queue, which keeps holding the first alone: every one of them is refused as malformed, and if two of them have the same sender and nonce
  the import of the second dereferences a singular iterator. (Only dropping the first or clearing the queue ends this.)\<close>

theorem unrecoverable_sender_blocks_queue:
  assumes "stl_calls l" and "px_sender t = None" and "\<not> px_hasZeroSignature t" and "0 < limit"
  shows "\<exists>s1. tq_import l t ik (emptyQueue limit futureLimit) = (Inr Import_Success, s1) \<and>
    (\<forall>us. (\<forall>u\<in>set us. honest t u) \<longrightarrow> (\<exists>s2. cur s2 = [t] \<and> import_each l ik us s1 =
      (if distinct (map px_key us) then Inr (replicate (length us) Import_Malformed) else Inl Tq_undefined, s2)))"
proof -
  obtain s1 where s1: "tq_import l t ik (emptyQueue limit futureLimit) = (Inr Import_Success, s1)" "blocked t {} s1"
    using import_unrecoverable [OF assms] by blast
  have "\<exists>s2. cur s2 = [t] \<and> import_each l ik us s1 =
      (if distinct (map px_key us) then Inr (replicate (length us) Import_Malformed) else Inl Tq_undefined, s2)"
    if us: "\<forall>u\<in>set us. honest t u" for us
  proof -
    obtain s2 ks where s2: "blocked t ks s2" "import_each l ik us s1 =
      (if distinct (map px_key us) then Inr (replicate (length us) Import_Malformed) else Inl Tq_undefined, s2)"
      using blocked_import_all [OF assms(1,2) s1(2) us, of ik] by auto
    then have "cur s2 = [t]" by (simp add: blocked_def)
    with s2(2) show ?thesis by (intro exI [of _ s2] conjI)
  qed
  with s1(1) show ?thesis by blast
qed

theorem unrecoverable_sender_blocks_queue_witness:
  "\<exists>s1. tq_import first_fit ((sample 0)\<lparr>px_sender := None\<rparr>) IfDropped_Ignore (emptyQueue 8 8) = (Inr Import_Success, s1) \<and>
     fst (import_each first_fit IfDropped_Ignore [sample 1, sample 2] s1) = Inr [Import_Malformed, Import_Malformed] \<and>
     fst (import_each first_fit IfDropped_Ignore [sample 1, sample 1] s1) = Inl Tq_undefined"
proof -
  let ?t = "(sample 0)\<lparr>px_sender := None\<rparr>"
  have "scan_fit c xs = Inl e" if "xs \<noteq> []" "\<forall>y\<in>set xs. c y = Inl e" for c xs e using that by (cases xs) auto
  then have "stl_calls first_fit" by (simp add: stl_calls_def first_fit_def)
  moreover have "px_sender ?t = None" "\<not> px_hasZeroSignature ?t" "px_sha3 ?t = 0" by (simp_all add: sample_def)
  ultimately obtain s1 where s1: "tq_import first_fit ?t IfDropped_Ignore (emptyQueue 8 8) = (Inr Import_Success, s1)"
    "\<forall>us. (\<forall>u\<in>set us. honest ?t u) \<longrightarrow> (\<exists>s2. cur s2 = [?t] \<and> import_each first_fit IfDropped_Ignore us s1 =
      (if distinct (map px_key us) then Inr (replicate (length us) Import_Malformed) else Inl Tq_undefined, s2))"
    using unrecoverable_sender_blocks_queue [of first_fit ?t 8 IfDropped_Ignore 8] by auto
  have "\<forall>u\<in>set [sample 1, sample 2]. honest ?t u" "\<forall>u\<in>set [sample 1, sample 1]. honest ?t u"
    "distinct (map px_key [sample 1, sample 2])" "\<not> distinct (map px_key [sample 1, sample 1])"
    by (simp_all add: honest_def px_key_def sample_def px_from_def recovered_def)
  moreover have "fst (import_each first_fit IfDropped_Ignore us s1) =
      (if distinct (map px_key us) then Inr (replicate (length us) Import_Malformed) else Inl Tq_undefined)"
    if "\<forall>u\<in>set us. honest ?t u" for us
    using s1(2) [THEN spec, THEN mp, OF that] by (elim exE conjE) (simp only: fst_conv)
  ultimately have "fst (import_each first_fit IfDropped_Ignore [sample 1, sample 2] s1) = Inr (replicate 2 Import_Malformed)"
    "fst (import_each first_fit IfDropped_Ignore [sample 1, sample 1] s1) = Inl Tq_undefined"
    by (simp_all add: numeral_2_eq_2 del: import_each.simps)
  with s1(1) show ?thesis by (simp add: numeral_2_eq_2 del: import_each.simps)
qed

end
