(* ===== verification/Headers.thy ===== *)
theory Headers
  imports OrderRlp TrieHash
begin

unbundle bit_operations_syntax

text \<open>
  libbrccore/BlockHeader and the checks of SealEngineFace: the header of a block, its RLP form, its memoised hashes, its
  signature and the verification against the parent and the block. \<open>sha3\<close>, the recovery of a public key from a
  signature (zero when there is none), the signature function of a secret and the conversion of a 256-bit integer to
  \<^verbatim>\<open>int64_t\<close> are parameters.
\<close>

section \<open>Data\<close>

text \<open>\<^verbatim>\<open>enum IncludeSeal\<close>, used as a set of flags.\<close>

definition WithoutSeal :: "32 word" where "WithoutSeal = 1"
definition WithSeal :: "32 word" where "WithSeal = 2"
definition OnlySeal :: "32 word" where "OnlySeal = 4"
definition WithoutSign :: "32 word" where "WithoutSign = 8"

definition flag :: "32 word \<Rightarrow> 32 word \<Rightarrow> bool" where
  "flag i f \<longleftrightarrow> i AND f = f"

datatype Strictness = CheckEverything | JustSeal | QuickNonce | IgnoreSeal | CheckNothingNew

datatype BlockDataType = HeaderData | BlockData

record BlockHeader =
  bh_parentHash :: h256
  bh_sha3Uncles :: h256
  bh_stateRoot :: h256
  bh_transactionsRoot :: h256
  bh_receiptsRoot :: h256
  bh_logBloom :: "2048 word"
  bh_number :: int
  bh_gasLimit :: u256
  bh_gasUsed :: u256
  bh_extraData :: bytes
  bh_timestamp :: int
  bh_author :: address
  bh_difficulty :: u256
  bh_chain_id :: u256
  bh_seal :: "bytes list"
  bh_hash :: h256
  bh_hashWithout :: h256
  bh_sign_data :: "520 word"

datatype header_error = HE_rlp rlp_error | HE_InvalidBlockFormat | HE_InvalidBlockSignature | HE_InvalidNumber
  | HE_TooMuchGasUsed | HE_InvalidParentHash | HE_InvalidTimestamp | HE_InvalidTransactionsRoot | HE_InvalidUnclesHash
  | HE_InvalidSignature | HE_InvalidDifficulty | HE_InvalidGasLimit | HE_ExtraDataTooBig | HE_overflow

type_synonym 'a header_monad = "(BlockHeader, header_error, 'a) emonad"

definition lift_rlp :: "rlp_error + 'a \<Rightarrow> header_error + 'a" where
  "lift_rlp r = (case r of Inl e \<Rightarrow> Inl (HE_rlp e) | Inr x \<Rightarrow> Inr x)"

definition BasicFields :: nat where "BasicFields = 14"

text \<open>The default constructor.\<close>

definition empty_header :: BlockHeader where
  "empty_header = \<lparr>bh_parentHash = 0, bh_sha3Uncles = 0, bh_stateRoot = 0, bh_transactionsRoot = 0, bh_receiptsRoot = 0,
     bh_logBloom = 0, bh_number = 0, bh_gasLimit = 0, bh_gasUsed = 0, bh_extraData = [], bh_timestamp = - 1, bh_author = 0,
     bh_difficulty = 0, bh_chain_id = 0, bh_seal = [], bh_hash = 0, bh_hashWithout = 0, bh_sign_data = 0\<rparr>"

text \<open>
  \<^verbatim>\<open>operator bool\<close>: \<^verbatim>\<open>Invalid256\<close> is what -1 becomes as a 256-bit integer.
\<close>

definition header_valid :: "BlockHeader \<Rightarrow> bool" where
  "header_valid h \<longleftrightarrow> bh_timestamp h \<noteq> - 1"

text \<open>\<^verbatim>\<open>operator==\<close> leaves out the seal, the signature and the memos.\<close>

definition header_eq :: "BlockHeader \<Rightarrow> BlockHeader \<Rightarrow> bool" where
  "header_eq h c \<longleftrightarrow> bh_parentHash h = bh_parentHash c \<and> bh_sha3Uncles h = bh_sha3Uncles c \<and> bh_author h = bh_author c \<and>
     bh_stateRoot h = bh_stateRoot c \<and> bh_transactionsRoot h = bh_transactionsRoot c \<and> bh_receiptsRoot h = bh_receiptsRoot c \<and>
     bh_logBloom h = bh_logBloom c \<and> bh_difficulty h = bh_difficulty c \<and> bh_number h = bh_number c \<and>
     bh_gasLimit h = bh_gasLimit c \<and> bh_gasUsed h = bh_gasUsed c \<and> bh_timestamp h = bh_timestamp c \<and>
     bh_extraData h = bh_extraData c \<and> bh_chain_id h = bh_chain_id c"

definition noteDirty :: "BlockHeader \<Rightarrow> BlockHeader" where
  "noteDirty h = h\<lparr>bh_hashWithout := 0, bh_hash := 0\<rparr>"

definition header_clear :: "h256 \<Rightarrow> h256 \<Rightarrow> BlockHeader \<Rightarrow> BlockHeader" where
  "header_clear emptyListSHA3 emptyTrie h = noteDirty (h\<lparr>bh_parentHash := 0, bh_sha3Uncles := emptyListSHA3, bh_author := 0,
     bh_stateRoot := emptyTrie, bh_transactionsRoot := emptyTrie, bh_receiptsRoot := emptyTrie, bh_logBloom := 0,
     bh_difficulty := 0, bh_number := 0, bh_gasLimit := 0, bh_gasUsed := 0, bh_timestamp := - 1, bh_chain_id := 0,
     bh_extraData := [], bh_seal := []\<rparr>)"

definition setParentHash :: "h256 \<Rightarrow> BlockHeader \<Rightarrow> BlockHeader" where
  "setParentHash v h = noteDirty (h\<lparr>bh_parentHash := v\<rparr>)"

definition setTimestamp :: "int \<Rightarrow> BlockHeader \<Rightarrow> BlockHeader" where
  "setTimestamp v h = noteDirty (h\<lparr>bh_timestamp := v\<rparr>)"

definition setAuthor :: "address \<Rightarrow> BlockHeader \<Rightarrow> BlockHeader" where
  "setAuthor v h = noteDirty (h\<lparr>bh_author := v\<rparr>)"

definition setRoots :: "h256 \<Rightarrow> h256 \<Rightarrow> h256 \<Rightarrow> h256 \<Rightarrow> BlockHeader \<Rightarrow> BlockHeader" where
  "setRoots t r u s h = noteDirty (h\<lparr>bh_transactionsRoot := t, bh_receiptsRoot := r, bh_sha3Uncles := u, bh_stateRoot := s\<rparr>)"

definition setSha3Uncles :: "h256 \<Rightarrow> BlockHeader \<Rightarrow> BlockHeader" where
  "setSha3Uncles v h = noteDirty (h\<lparr>bh_sha3Uncles := v\<rparr>)"

definition setGasUsed :: "u256 \<Rightarrow> BlockHeader \<Rightarrow> BlockHeader" where
  "setGasUsed v h = noteDirty (h\<lparr>bh_gasUsed := v\<rparr>)"

definition setNumber :: "int \<Rightarrow> BlockHeader \<Rightarrow> BlockHeader" where
  "setNumber v h = noteDirty (h\<lparr>bh_number := v\<rparr>)"

definition setGasLimit :: "u256 \<Rightarrow> BlockHeader \<Rightarrow> BlockHeader" where
  "setGasLimit v h = noteDirty (h\<lparr>bh_gasLimit := v\<rparr>)"

definition setExtraData :: "bytes \<Rightarrow> BlockHeader \<Rightarrow> BlockHeader" where
  "setExtraData v h = noteDirty (h\<lparr>bh_extraData := v\<rparr>)"

definition setLogBloom :: "2048 word \<Rightarrow> BlockHeader \<Rightarrow> BlockHeader" where
  "setLogBloom v h = noteDirty (h\<lparr>bh_logBloom := v\<rparr>)"

definition setDifficulty :: "u256 \<Rightarrow> BlockHeader \<Rightarrow> BlockHeader" where
  "setDifficulty v h = noteDirty (h\<lparr>bh_difficulty := v\<rparr>)"

definition setChainId :: "u256 \<Rightarrow> BlockHeader \<Rightarrow> BlockHeader" where
  "setChainId v h = noteDirty (h\<lparr>bh_chain_id := v\<rparr>)"

text \<open>\<^verbatim>\<open>setSeal\<close>; the value comes as its RLP.\<close>

definition setSeal :: "nat \<Rightarrow> bytes \<Rightarrow> BlockHeader \<Rightarrow> BlockHeader" where
  "setSeal offset value h = noteDirty (h\<lparr>bh_seal :=
     (bh_seal h @ replicate (Suc offset - length (bh_seal h)) [])[offset := value]\<rparr>)"

section \<open>Writing\<close>

text \<open>
  The number goes through \<^verbatim>\<open>append(unsigned)\<close>, the only overload that an \<^verbatim>\<open>int64_t\<close> reaches with a standard conversion.
\<close>

definition streamRLPFields :: "BlockHeader \<Rightarrow> 32 word \<Rightarrow> writer" where
  "streamRLPFields h i = write_all (
     [append_hash 32 (bh_parentHash h), append_hash 32 (bh_sha3Uncles h), append_hash 20 (bh_author h),
      append_hash 32 (bh_stateRoot h), append_hash 32 (bh_transactionsRoot h), append_hash 32 (bh_receiptsRoot h),
      append_hash 256 (bh_logBloom h), append_word (bh_difficulty h), append_word (of_int (bh_number h) :: 32 word),
      append_word (bh_gasLimit h), append_word (bh_gasUsed h), append_word (of_int (bh_timestamp h) :: u256),
      append_word (bh_chain_id h), append_bytes (bh_extraData h) False] @
     (if flag i WithoutSign then [] else [append_hash 65 (bh_sign_data h)]))"

definition header_streamRLP :: "BlockHeader \<Rightarrow> 32 word \<Rightarrow> writer" where
  "header_streamRLP h i st =
     sbind
       (if i \<noteq> OnlySeal then
          sbind (appendList ((BasicFields + (if flag i WithoutSeal then 0 else length (bh_seal h)) +
            (if flag i WithoutSign then 0 else 1)) mod 2 ^ 32) st) (streamRLPFields h i)
        else Inr st) (\<lambda>st.
     if flag i WithoutSeal then Inr st else write_all (map (\<lambda>b. appendRaw b 1) (bh_seal h)) st)"

text \<open>\<^verbatim>\<open>hash\<close>: the memo for \<^verbatim>\<open>WithoutSeal\<close> serves all combinations of flags with it.\<close>

definition header_hash :: "(bytes \<Rightarrow> h256) \<Rightarrow> 32 word \<Rightarrow> h256 header_monad" where
  "header_hash sha3 i = (\<lambda>h.
     let memo = (if flag i WithSeal then bh_hash h else if flag i WithoutSeal then bh_hashWithout h else 0) in
     if memo \<noteq> 0 then (Inr memo, h)
     else case sbind (header_streamRLP h i empty_stream) stream_out of
         Inl e \<Rightarrow> (Inl (HE_rlp e), h)
       | Inr b \<Rightarrow> (Inr (sha3 b),
           if flag i WithSeal then h\<lparr>bh_hash := sha3 b\<rparr>
           else if flag i WithoutSeal then h\<lparr>bh_hashWithout := sha3 b\<rparr> else h))"

section \<open>Reading\<close>

definition extractHeader :: "bytes \<Rightarrow> header_error + bytes" where
  "extractHeader block =
     sbind (lift_rlp (RLP_node VeryStrict block)) (\<lambda>root.
     if \<not> isList root then Inl HE_InvalidBlockFormat else
     sbind (lift_rlp (subscript 0 (fresh_node root))) (\<lambda>(header, nd).
     if \<not> isList header then Inl HE_InvalidBlockFormat else
     sbind (lift_rlp (subscript 1 nd)) (\<lambda>(txs, nd).
     if \<not> isList txs then Inl HE_InvalidBlockFormat else
     sbind (lift_rlp (subscript 2 nd)) (\<lambda>(uncles, nd).
     if \<not> isList uncles then Inl HE_InvalidBlockFormat else Inr header))))"

definition headerHashFromBlock :: "(bytes \<Rightarrow> h256) \<Rightarrow> bytes \<Rightarrow> rlp_error + h256" where
  "headerHashFromBlock sha3 block =
     sbind (RLP_node VeryStrict block) (\<lambda>root. sbind (subscript 0 (fresh_node root)) (\<lambda>(d, _). Inr (sha3 d)))"

definition toPositiveInt64 :: "bytes \<Rightarrow> rlp_error + int" where
  "toPositiveInt64 d = sbind (toInt Strict d) (\<lambda>i :: 64 word. if sint i < 0 then Inl BadCast else Inr (sint i))"

text \<open>The loop over the seal fields starts with field 14.\<close>

primrec read_seals :: "nat \<Rightarrow> nat \<Rightarrow> rlp_node \<Rightarrow> rlp_error + bytes list" where
  "read_seals 0 i nd = Inr []"
| "read_seals (Suc n) i nd = sbind (subscript i nd) (\<lambda>(d, nd). sbind (read_seals n (Suc i) nd) (\<lambda>ds. Inr (d # ds)))"

definition header_populate :: "(u256 \<Rightarrow> int) \<Rightarrow> bytes \<Rightarrow> BlockHeader \<Rightarrow> rlp_error + BlockHeader" where
  "header_populate to_int64 d h =
     with_field 0 (toHash VeryStrict) (fresh_node d) (\<lambda>parentHash nd.
     with_field 1 (toHash VeryStrict) nd (\<lambda>sha3Uncles nd.
     with_field 2 (toHash VeryStrict) nd (\<lambda>author nd.
     with_field 3 (toHash VeryStrict) nd (\<lambda>stateRoot nd.
     with_field 4 (toHash VeryStrict) nd (\<lambda>transactionsRoot nd.
     with_field 5 (toHash VeryStrict) nd (\<lambda>receiptsRoot nd.
     with_field 6 (toHash VeryStrict) nd (\<lambda>logBloom nd.
     with_field 7 (toInt Strict) nd (\<lambda>difficulty nd.
     with_field 8 toPositiveInt64 nd (\<lambda>number nd.
     with_field 9 (toInt Strict) nd (\<lambda>gasLimit nd.
     with_field 10 (toInt Strict) nd (\<lambda>gasUsed nd.
     with_field 11 (toInt Strict) nd (\<lambda>timestamp nd.
     with_field 12 (toInt Strict) nd (\<lambda>chain_id nd.
     with_field 13 (toBytes LaissezFaire) nd (\<lambda>extraData nd.
     with_field 14 (toHash VeryStrict) nd (\<lambda>sign_data nd.
     sbind (itemCount d) (\<lambda>count.
     sbind (read_seals (count - 14) 14 nd) (\<lambda>seal.
       Inr (h\<lparr>bh_parentHash := parentHash, bh_sha3Uncles := sha3Uncles, bh_author := author, bh_stateRoot := stateRoot,
         bh_transactionsRoot := transactionsRoot, bh_receiptsRoot := receiptsRoot, bh_logBloom := logBloom,
         bh_difficulty := difficulty, bh_number := number, bh_gasLimit := gasLimit, bh_gasUsed := gasUsed,
         bh_timestamp := to_int64 timestamp, bh_chain_id := chain_id, bh_extraData := extraData,
         bh_sign_data := sign_data, bh_seal := seal\<rparr>))))))))))))))))))"

definition read_header :: "(bytes \<Rightarrow> h256) \<Rightarrow> (u256 \<Rightarrow> int) \<Rightarrow> BlockDataType \<Rightarrow> h256 \<Rightarrow> bytes \<Rightarrow> header_error + BlockHeader" where
  "read_header sha3 to_int64 bdt hashWith block =
     sbind (if bdt = BlockData then extractHeader block else lift_rlp (RLP_node VeryStrict block)) (\<lambda>header.
     lift_rlp (header_populate to_int64 header (empty_header\<lparr>bh_hash := (if hashWith \<noteq> 0 then hashWith else sha3 header)\<rparr>)))"

definition populateFromParent :: "BlockHeader \<Rightarrow> BlockHeader \<Rightarrow> BlockHeader" where
  "populateFromParent parent h = h\<lparr>bh_stateRoot := bh_stateRoot parent, bh_number := bh_number parent + 1,
     bh_parentHash := bh_hash parent, bh_gasLimit := bh_gasLimit parent, bh_difficulty := bh_difficulty parent,
     bh_gasUsed := 0, bh_chain_id := bh_chain_id parent\<rparr>"

section \<open>Signing\<close>

definition public_address :: "(bytes \<Rightarrow> h256) \<Rightarrow> 512 word \<Rightarrow> address" where
  "public_address sha3 p = ucast (sha3 (toBigEndian 64 (unat p)))"

text \<open>What is signed: the hash of the RLP of the header's hash.\<close>

definition sign_digest :: "(bytes \<Rightarrow> h256) \<Rightarrow> h256 header_monad" where
  "sign_digest sha3 = ebind (header_hash sha3 (WithoutSign OR WithoutSeal)) (\<lambda>v h.
     case sbind (append_hash 32 v empty_stream) stream_out of Inl e \<Rightarrow> (Inl (HE_rlp e), h) | Inr b \<Rightarrow> (Inr (sha3 b), h))"

definition sign_block :: "(bytes \<Rightarrow> h256) \<Rightarrow> (h256 \<Rightarrow> 520 word) \<Rightarrow> bool header_monad" where
  "sign_block sha3 sign = ebind (sign_digest sha3) (\<lambda>d. ebind (emodify (\<lambda>h. h\<lparr>bh_sign_data := sign d\<rparr>)) (\<lambda>_. ereturn True))"

definition verfy_sign :: "(bytes \<Rightarrow> h256) \<Rightarrow> (520 word \<Rightarrow> h256 \<Rightarrow> 512 word) \<Rightarrow> bool header_monad" where
  "verfy_sign sha3 recover = (\<lambda>h. if bh_number h \<le> 0 then (Inr True, h) else
     ebind (sign_digest sha3) (\<lambda>d h.
       let p = recover (bh_sign_data h) d in
       (Inr (p \<noteq> 0 \<and> bh_author h = public_address sha3 p), h)) h)"

section \<open>Verification\<close>

text \<open>
  \<^verbatim>\<open>trieRootOver\<close> with the keys \<^verbatim>\<open>rlp(i)\<close> and the items of a list, whose cache the subscripts update; the count is an
  \<^verbatim>\<open>unsigned\<close>.
\<close>

primrec over_items :: "nat \<Rightarrow> nat \<Rightarrow> rlp_node \<Rightarrow> BytesMap \<Rightarrow> rlp_error + BytesMap" where
  "over_items 0 i nd m = Inr m"
| "over_items (Suc n) i nd m =
     sbind (rlp_index i) (\<lambda>k. sbind (subscript i nd) (\<lambda>(d, nd). over_items n (Suc i) nd (om_insert k d m)))"

definition trieRootOver :: "(bytes \<Rightarrow> h256) \<Rightarrow> bytes \<Rightarrow> rlp_error + h256" where
  "trieRootOver sha3 txList =
     sbind (itemCount txList) (\<lambda>n. sbind (over_items (n mod 2 ^ 32) 0 (fresh_node txList) []) (hash256 sha3))"

text \<open>The part of \<^verbatim>\<open>verify\<close> on the bytes of the block.\<close>

definition verify_block :: "(bytes \<Rightarrow> h256) \<Rightarrow> BlockHeader \<Rightarrow> bytes \<Rightarrow> header_error + unit" where
  "verify_block sha3 h block =
     sbind (lift_rlp (RLP_node VeryStrict block)) (\<lambda>root.
     sbind (lift_rlp (subscript 1 (fresh_node root))) (\<lambda>(txList, nd).
     sbind (lift_rlp (trieRootOver sha3 txList)) (\<lambda>expectedRoot.
     if bh_transactionsRoot h \<noteq> expectedRoot then Inl HE_InvalidTransactionsRoot else
     sbind (lift_rlp (subscript 2 nd)) (\<lambda>(uncles, nd).
     if bh_sha3Uncles h \<noteq> sha3 uncles then Inl HE_InvalidUnclesHash else Inr ()))))"

text \<open>
  \<^verbatim>\<open>verify\<close> computes hashes of the header and of its parent, so that the memos of both change: the state is the header with
  its parent. The block is empty when it is not given.
\<close>

definition on_header :: "'a header_monad \<Rightarrow> (BlockHeader \<times> BlockHeader, header_error, 'a) emonad" where
  "on_header m = (\<lambda>(h, p). case m h of (r, h') \<Rightarrow> (r, (h', p)))"

definition on_parent :: "'a header_monad \<Rightarrow> (BlockHeader \<times> BlockHeader, header_error, 'a) emonad" where
  "on_parent m = (\<lambda>(h, p). case m p of (r, p') \<Rightarrow> (r, (h, p')))"

definition efail :: "bool \<Rightarrow> 'e \<Rightarrow> ('s, 'e, unit) emonad" where
  "efail b e = (if b then ethrow e else ereturn ())"

definition verify_parent :: "(bytes \<Rightarrow> h256) \<Rightarrow> (BlockHeader \<times> BlockHeader, header_error, unit) emonad" where
  "verify_parent sha3 = (\<lambda>(h, p). if \<not> header_valid p then (Inr (), (h, p)) else eseq [
     ebind (if bh_parentHash h \<noteq> 0 then on_parent (header_hash sha3 WithSeal) else ereturn (bh_parentHash h)) (\<lambda>v.
       efail (v \<noteq> bh_parentHash h) HE_InvalidParentHash),
     efail (bh_timestamp h \<le> bh_timestamp p) HE_InvalidTimestamp,
     efail (bh_number h \<noteq> bh_number p + 1) HE_InvalidNumber] (h, p))"

definition header_verify :: "(bytes \<Rightarrow> h256) \<Rightarrow> (520 word \<Rightarrow> h256 \<Rightarrow> 512 word) \<Rightarrow> Strictness \<Rightarrow> bytes \<Rightarrow>
    (BlockHeader \<times> BlockHeader, header_error, unit) emonad" where
  "header_verify sha3 recover s block =
     ebind (on_header (verfy_sign sha3 recover)) (\<lambda>ok (h, p). eseq [
       efail (\<not> ok) HE_InvalidBlockSignature,
       efail (bh_number h > 2 ^ 32 - 1) HE_InvalidNumber,
       efail (s \<noteq> CheckNothingNew \<and> bh_gasUsed h > bh_gasLimit h) HE_TooMuchGasUsed,
       verify_parent sha3,
       (\<lambda>(h, p). (if block = [] then Inr () else verify_block sha3 h block, (h, p)))] (h, p))"

record engine_params =
  ep_chainID :: int
  ep_minimumDifficulty :: u256
  ep_minGasLimit :: u256
  ep_maxGasLimit :: u256
  ep_gasLimitBoundDivisor :: u256
  ep_maximumExtraDataSize :: u256

definition engine_checks :: "engine_params \<Rightarrow> BlockHeader \<Rightarrow> header_error + unit" where
  "engine_checks c h =
     (if bh_chain_id h \<noteq> of_int (ep_chainID c) then Inl HE_InvalidSignature
      else if bh_difficulty h < ep_minimumDifficulty c then Inl HE_InvalidDifficulty
      else if bh_gasLimit h < ep_minGasLimit c then Inl HE_InvalidGasLimit
      else if bh_gasLimit h > ep_maxGasLimit c then Inl HE_InvalidGasLimit
      else if bh_number h \<noteq> 0 \<and> length (bh_extraData h) > unat (ep_maximumExtraDataSize c) then Inl HE_ExtraDataTooBig
      else Inr ())"

definition engine_parent_checks :: "engine_params \<Rightarrow> BlockHeader \<Rightarrow> BlockHeader \<Rightarrow> header_error + unit" where
  "engine_parent_checks c h p =
     (let gasLimit = bh_gasLimit h; parentGasLimit = bh_gasLimit p; d = ep_gasLimitBoundDivisor c in
      if gasLimit < ep_minGasLimit c \<or> gasLimit > ep_maxGasLimit c then Inl HE_InvalidGasLimit
      else if d = 0 then Inl HE_overflow
      else if gasLimit \<le> parentGasLimit - parentGasLimit div d \<or> gasLimit \<ge> parentGasLimit + parentGasLimit div d
        then Inl HE_InvalidGasLimit else Inr ())"

definition engine_verify :: "engine_params \<Rightarrow> (bytes \<Rightarrow> h256) \<Rightarrow> (520 word \<Rightarrow> h256 \<Rightarrow> 512 word) \<Rightarrow> Strictness \<Rightarrow> bytes \<Rightarrow>
    (BlockHeader \<times> BlockHeader, header_error, unit) emonad" where
  "engine_verify c sha3 recover s block = eseq [
     header_verify sha3 recover s block,
     ewhen (s \<noteq> CheckNothingNew) (\<lambda>(h, p). (engine_checks c h, (h, p))),
     (\<lambda>(h, p). (if header_valid p then engine_parent_checks c h p else Inr (), (h, p)))]"

end
