(* ===== verification/HeaderLaws.thy ===== *)
theory HeaderLaws
  imports Headers AccountRlp
begin

text \<open>
  The laws of block headers: what is written is read back, with the signature counted as a seal field; a signature
  verifies; a chain of verified headers is ordered and linked.
\<close>

section \<open>Long byte strings\<close>

lemma requireGood_long:
  assumes "rlp_fits (RData bs)" and "1 < length bs"
  shows "requireGood (encode (RData bs)) = Inr ()"
proof -
  have len: "length bs < 2 ^ 64 - 257" using rlp_fits_data [OF assms(1)] by simp
  then have br: "bytesRequired (length bs) \<le> 8" by (intro bytesRequired_size) simp
  have "unat (header 0x80 (length bs) ! 0) \<noteq> 0x81"
  proof (cases "length bs < 56")
    case True
    then have "unat (0x80 + word_of_nat (length bs) :: byte) = 0x80 + length bs" using unat_byte [of "0x80 + length bs"] by simp
    then show ?thesis using True assms(2) by (simp add: header_def)
  next
    case False
    have "unat (0xb7 + word_of_nat (bytesRequired (length bs)) :: byte) = 0xb7 + bytesRequired (length bs)"
      using br unat_byte [of "0xb7 + bytesRequired (length bs)"] by simp
    then show ?thesis using False by (simp add: header_def)
  qed
  moreover have "encode (RData bs) = header 0x80 (length bs) @ bs" using assms(2) by (auto simp: encode.simps)
  moreover have "header 0x80 (length bs) \<noteq> []" by simp
  ultimately show ?thesis by (simp add: requireGood_def isNull_def rlp_consts nth_append)
qed

lemma toHash_long:
  fixes w :: "'a::len word"
  assumes "LENGTH('a) = 8 * n" and "rlp_fits (RData (toBigEndian n (unat w)))" and "1 < n"
  shows "toHash fl (encode (RData (toBigEndian n (unat w)))) = Inr w"
proof -
  let ?b = "toBigEndian n (unat w)"
  have "unat w < 256 ^ n" using unsigned_less [of w] by (simp add: assms(1) power_mult)
  then have "fromBigEndian ?b = unat w" by (rule from_toBigEndian)
  moreover have "isData (encode (RData ?b))" "payload (encode (RData ?b)) = Inr ?b"
    using read_data [OF assms(2), of "[]"] by (simp_all del: encode.simps)
  ultimately show ?thesis
    using requireGood_long [OF assms(2)] assms(1,3) by (simp add: toHash_def Let_def del: encode.simps)
qed

section \<open>The items of a header\<close>

definition basic_items :: "BlockHeader \<Rightarrow> rlp_item list" where
  "basic_items h = [hash_item (bh_parentHash h), hash_item (bh_sha3Uncles h), address_item (bh_author h), hash_item (bh_stateRoot h),
     hash_item (bh_transactionsRoot h), hash_item (bh_receiptsRoot h), RData (toBigEndian 256 (unat (bh_logBloom h))),
     word_item (bh_difficulty h), RData (toCompactBigEndian (nat (bh_number h))), word_item (bh_gasLimit h),
     word_item (bh_gasUsed h), word_item (of_int (bh_timestamp h)), word_item (bh_chain_id h), RData (bh_extraData h)]"

definition sign_item :: "BlockHeader \<Rightarrow> rlp_item" where
  "sign_item h = RData (toBigEndian 65 (unat (bh_sign_data h)))"

definition flag_items :: "BlockHeader \<Rightarrow> 32 word \<Rightarrow> rlp_item list \<Rightarrow> rlp_item list" where
  "flag_items h i ts = basic_items h @ (if flag i WithoutSign then [] else [sign_item h]) @ (if flag i WithoutSeal then [] else ts)"

definition header_fits :: "BlockHeader \<Rightarrow> rlp_item list \<Rightarrow> bool" where
  "header_fits h ts \<longleftrightarrow> 0 \<le> bh_number h \<and> bh_number h < 2 ^ 32 \<and> bh_seal h = map encode ts \<and> length ts < 2 ^ 32 - 15 \<and>
     length (concat (map encode (basic_items h @ sign_item h # ts))) < 2 ^ 62"

lemma flags [simp]:
  "flag WithSeal WithSeal" "\<not> flag WithSeal WithoutSeal" "\<not> flag WithSeal WithoutSign"
  "\<not> flag WithoutSeal WithSeal" "flag WithoutSeal WithoutSeal" "\<not> flag WithoutSeal WithoutSign"
  "\<not> flag (WithoutSign OR WithoutSeal) WithSeal" "flag (WithoutSign OR WithoutSeal) WithoutSeal"
  "flag (WithoutSign OR WithoutSeal) WithoutSign" "WithSeal \<noteq> OnlySeal" "WithoutSeal \<noteq> OnlySeal" "WithoutSign OR WithoutSeal \<noteq> OnlySeal"
  by (simp_all add: flag_def WithSeal_def WithoutSeal_def WithoutSign_def OnlySeal_def)

lemma write_all_append: "write_all (xs @ ys) st = sbind (write_all xs st) (write_all ys)"
  by (induction xs arbitrary: st) (auto simp: sbind_def split: sum.split)

lemma rlp_fits_bound: "length (concat (map encode us)) < 2 ^ 62 \<Longrightarrow> rlp_fits (RList us)"
proof -
  assume b: "length (concat (map encode us)) < 2 ^ 62"
  then have "bytesRequired (length (concat (map encode us))) \<le> 8" by (intro bytesRequired_size) simp
  then have "length (header 0xc0 (length (concat (map encode us)))) \<le> 9" by (simp add: header_def)
  then show ?thesis using b by (simp add: rlp_fits_def encode.simps(2))
qed

lemma flag_items_fit:
  assumes "header_fits h ts"
  shows "rlp_fits (RList (flag_items h i ts))"
  using assms by (intro rlp_fits_bound) (auto simp: header_fits_def flag_items_def)

lemma flag_items_write:
  assumes fits: "header_fits h ts" and "i \<noteq> OnlySeal"
  shows "sbind (header_streamRLP h i empty_stream) stream_out = Inr (encode (RList (flag_items h i ts)))"
proof -
  note f = flag_items_fit [OF fits, of i]
  have num: "unat (of_int (bh_number h) :: 32 word) = nat (bh_number h)"
    using fits by (simp add: header_fits_def unsigned_of_int take_bit_eq_mod nat_mod_distrib)
  have seal: "map (\<lambda>b. appendRaw b 1) (bh_seal h) = map append_item ts" if "\<not> flag i WithoutSeal"
  proof -
    have "rlp_fits t" if "t \<in> set ts" for t using rlp_fits_item [OF f] that \<open>\<not> flag i WithoutSeal\<close> by (simp add: flag_items_def)
    then show ?thesis using fits by (simp add: header_fits_def raw_item del: One_nat_def)
  qed
  let ?n = "(BasicFields + (if flag i WithoutSeal then 0 else length (bh_seal h)) + (if flag i WithoutSign then 0 else 1)) mod 2 ^ 32"
  have n: "?n = length (flag_items h i ts)"
    using fits by (simp add: header_fits_def flag_items_def basic_items_def BasicFields_def)
  have "streamRLPFields h i = write_all (map append_item (basic_items h @ (if flag i WithoutSign then [] else [sign_item h])))"
    by (simp add: streamRLPFields_def basic_items_def sign_item_def append_word_item append_hash_item append_bytes_item num del: append_item.simps)
  then have "sbind (header_streamRLP h i empty_stream) stream_out = stream_of ?n (map append_item (flag_items h i ts))"
    using assms(2) seal
    by (simp add: header_streamRLP_def stream_of_def flag_items_def write_all_append sbind_assoc del: append_item.simps) 
  then show ?thesis unfolding n using stream_of_items [OF f refl] by simp
qed

section \<open>Reading a header\<close>

lemma read_seals_encode:
  assumes "cache_ok ts nd" and "rlp_fits (RList ts)" and "i + n \<le> length ts"
  shows "read_seals n i nd = Inr (map encode (take n (drop i ts)))"
  using assms(1,3)
proof (induction n arbitrary: i nd)
  case (Suc n)
  then obtain nd' where "subscript i nd = Inr (encode (ts ! i), nd')" "cache_ok ts nd'"
    using subscript_cache_ok [OF Suc.prems(1) _ assms(2), of i] by auto
  moreover have "take (Suc n) (drop i ts) = ts ! i # take n (drop (Suc i) ts)" using Suc.prems(2) by (simp add: Cons_nth_drop_Suc [symmetric])
  ultimately show ?case using Suc by simp
qed simp

lemma toPositiveInt64_encode:
  assumes "0 \<le> n" and "n < 2 ^ 32"
  shows "toPositiveInt64 (encode (RData (toCompactBigEndian (nat n)))) = Inr n"
proof -
  define w where "w = (of_int n :: 64 word)"
  have u: "unat w = nat n" using assms by (simp add: w_def unsigned_of_int take_bit_eq_mod nat_mod_distrib)
  have "uint w = n" using u assms(1) by (simp add: uint_nat)
  then have "sint w = n" using assms by (simp add: sint_uint signed_take_bit_int_eq_self)
  then show ?thesis using toInt_encode [of Strict w] assms(1) by (simp add: toPositiveInt64_def u)
qed

definition reread :: "BlockHeader \<Rightarrow> BlockHeader" where
  "reread h = h\<lparr>bh_seal := encode (sign_item h) # bh_seal h\<rparr>"

lemma header_populate_encode:
  assumes fits: "header_fits h ts" and time: "to_int64 (of_int (bh_timestamp h)) = bh_timestamp h"
  shows "header_populate to_int64 (encode (RList (basic_items h @ sign_item h # ts))) h0 =
    Inr ((reread h)\<lparr>bh_hash := bh_hash h0, bh_hashWithout := bh_hashWithout h0\<rparr>)"
proof -
  let ?ts = "basic_items h @ sign_item h # ts"
  have f: "rlp_fits (RList ?ts)" using fits by (intro rlp_fits_bound) (simp add: header_fits_def)
  have num: "0 \<le> bh_number h" "bh_number h < 2 ^ 32" using fits by (simp_all add: header_fits_def)
  have item: "rlp_fits t" if "t \<in> set ?ts" for t using rlp_fits_item [OF f that] .
  have long: "rlp_fits (RData (toBigEndian 256 (unat (bh_logBloom h))))" "rlp_fits (RData (toBigEndian 65 (unat (bh_sign_data h))))"
    "rlp_fits (RData (bh_extraData h))"
    using item by (auto simp: basic_items_def sign_item_def)
  have seals: "read_seals (length ?ts - 14) 14 nd = Inr (encode (sign_item h) # map encode ts)" if "cache_ok ?ts nd" for nd
    using read_seals_encode [OF that f, of 14 "length ?ts - 14"] by (simp add: basic_items_def)
  show ?thesis
    unfolding header_populate_def
    by (rule with_field_encode [OF _ f], (rule cache_ok_fresh | assumption), simp add: basic_items_def,
        simp add: basic_items_def sign_item_def field_readers toHash_long toPositiveInt64_encode long num [simplified])+
      (use itemCount_encode(2) [OF f] seals fits time in \<open>simp add: reread_def header_fits_def del: length_append\<close>)
qed

lemma header_fits_reread: "header_fits (reread h) (sign_item h # ts) \<Longrightarrow> header_fits h ts"
  by (simp add: header_fits_def reread_def basic_items_def sign_item_def)

section \<open>The memos\<close>

text \<open>Computing a hash changes nothing but a memo.\<close>

definition same_header :: "BlockHeader \<Rightarrow> BlockHeader \<Rightarrow> bool" where
  "same_header h h' \<longleftrightarrow> noteDirty h' = noteDirty h"

interpretation same_header: step_relation same_header
  by unfold_locales (simp_all add: same_header_def)

lemma header_hash_same: "keeps same_header (header_hash sha3 i)"
  by (rule keepsI) (auto simp: header_hash_def Let_def same_header_def noteDirty_def split: sum.split)

lemma sign_digest_same: "keeps same_header (sign_digest sha3)"
  unfolding sign_digest_def
  by (intro same_header.keeps_ebind header_hash_same keepsI) (auto simp: same_header.R_refl split: sum.split)

lemma verfy_sign_same: "keeps same_header (verfy_sign sha3 recover)"
proof -
  have "keeps same_header (ebind (sign_digest sha3) (\<lambda>d h. let p = recover (bh_sign_data h) d in
       (Inr (p \<noteq> 0 \<and> bh_author h = public_address sha3 p), h)))"
    by (intro same_header.keeps_ebind sign_digest_same keepsI) (simp add: same_header.R_refl Let_def)
  then show ?thesis by (intro keepsI) (simp add: verfy_sign_def same_header.R_refl keepsD)
qed

lemma same_header_fields:
  assumes "same_header h h'"
  shows "bh_number h' = bh_number h" "bh_timestamp h' = bh_timestamp h" "bh_parentHash h' = bh_parentHash h"
    "bh_transactionsRoot h' = bh_transactionsRoot h" "bh_sha3Uncles h' = bh_sha3Uncles h" "bh_gasLimit h' = bh_gasLimit h"
    "bh_gasUsed h' = bh_gasUsed h" "bh_sign_data h' = bh_sign_data h" "bh_author h' = bh_author h" "bh_seal h' = bh_seal h"
    "bh_chain_id h' = bh_chain_id h" "header_valid h' = header_valid h"
  using assms [unfolded same_header_def, THEN arg_cong, of bh_number] assms [unfolded same_header_def, THEN arg_cong, of bh_timestamp]
    assms [unfolded same_header_def, THEN arg_cong, of bh_parentHash] assms [unfolded same_header_def, THEN arg_cong, of bh_transactionsRoot]
    assms [unfolded same_header_def, THEN arg_cong, of bh_sha3Uncles] assms [unfolded same_header_def, THEN arg_cong, of bh_gasLimit]
    assms [unfolded same_header_def, THEN arg_cong, of bh_gasUsed] assms [unfolded same_header_def, THEN arg_cong, of bh_sign_data]
    assms [unfolded same_header_def, THEN arg_cong, of bh_author] assms [unfolded same_header_def, THEN arg_cong, of bh_seal]
    assms [unfolded same_header_def, THEN arg_cong, of bh_chain_id]
  by (simp_all add: noteDirty_def header_valid_def)

section \<open>What verification establishes\<close>

lemma over_items_encode:
  assumes "cache_ok ts nd" and "rlp_fits (RList ts)" and "i + n = length ts" and "length ts < 2 ^ 32"
  shows "over_items n i nd m = indexed_map i (map encode (drop i ts)) m"
  using assms(1,3)
proof (induction n arbitrary: i nd m)
  case (Suc n)
  then obtain nd' where "subscript i nd = Inr (encode (ts ! i), nd')" "cache_ok ts nd'"
    using subscript_cache_ok [OF Suc.prems(1) _ assms(2), of i] by auto
  moreover have "drop i ts = ts ! i # drop (Suc i) ts" using Suc.prems(2) by (simp add: Cons_nth_drop_Suc)
  moreover have "rlp_index i = Inr (encode (RData (toCompactBigEndian i)))" using Suc.prems(2) assms(4) by (intro rlp_index_form) simp
  ultimately show ?case using Suc assms(4) by (cases "Suc i = 2 ^ 32") simp_all
qed simp

lemma trieRootOver_encode:
  assumes "rlp_fits (RList ts)" and "length ts < 2 ^ 32"
  shows "trieRootOver sha3 (encode (RList ts)) = orderedTrieRoot sha3 (map encode ts)"
  using assms over_items_encode [OF cache_ok_fresh assms(1), of 0 "length ts" "[]"]
  by (simp add: trieRootOver_def itemCount_encode orderedTrieRoot_def)

lemma verify_block_root:
  assumes ok: "verify_block sha3 h block = Inr ()" and block: "block = encode (RList (t # RList txs # us))"
    and fits: "rlp_fits (RList (t # RList txs # us))" and "length txs < 2 ^ 32"
  shows "orderedTrieRoot sha3 (map encode txs) = Inr (bh_transactionsRoot h)"
proof -
  obtain nd where "subscript 1 (fresh_node block) = Inr (encode (RList txs), nd)"
    using subscript_cache_ok [OF cache_ok_fresh _ fits, of 1] by (auto simp: block)
  moreover have "rlp_fits (RList txs)" using rlp_fits_item [OF fits] by simp
  ultimately show ?thesis using ok trieRootOver_encode [of txs sha3] assms(4) RLP_node_encode [OF fits]
    by (auto simp: verify_block_def block lift_rlp_def sbind_def split: sum.splits if_splits)
qed

lemma verify_parent_ok:
  assumes run: "verify_parent sha3 (h, p) = (Inr (), s)"
  shows "header_valid p \<Longrightarrow> bh_timestamp p < bh_timestamp h \<and> bh_number h = bh_number p + 1 \<and>
      (bh_parentHash h \<noteq> 0 \<longrightarrow> fst (header_hash sha3 WithSeal p) = Inr (bh_parentHash h))" and "fst s = h"
proof -
  show "bh_timestamp p < bh_timestamp h \<and> bh_number h = bh_number p + 1 \<and>
      (bh_parentHash h \<noteq> 0 \<longrightarrow> fst (header_hash sha3 WithSeal p) = Inr (bh_parentHash h))" if v: "header_valid p"
  proof (cases "bh_parentHash h = 0")
    case True
    with run v show ?thesis by (simp add: verify_parent_def efail_def ebind_def split: if_splits)
  next
    case False
    obtain r p1 where "header_hash sha3 WithSeal p = (r, p1)" by force
    with run v False show ?thesis
      by (cases r) (simp_all add: verify_parent_def efail_def ebind_def on_parent_def split: if_splits)
  qed
  obtain r p1 where "header_hash sha3 WithSeal p = (r, p1)" by force
  with run show "fst s = h"
    by (cases r; cases "bh_parentHash h = 0"; cases "header_valid p") (simp_all add: verify_parent_def efail_def ebind_def on_parent_def split: if_splits, auto)
qed

lemma header_verify_ok:
  assumes "header_verify sha3 recover st block (h, p) = (Inr (), s)"
  shows "fst (verfy_sign sha3 recover h) = Inr True" and "bh_number h < 2 ^ 32"
    and "header_valid p \<Longrightarrow> bh_timestamp p < bh_timestamp h \<and> bh_number h = bh_number p + 1 \<and>
      (bh_parentHash h \<noteq> 0 \<longrightarrow> fst (header_hash sha3 WithSeal p) = Inr (bh_parentHash h))"
    and "block \<noteq> [] \<Longrightarrow> \<exists>h'. same_header h h' \<and> verify_block sha3 h' block = Inr ()"
proof -
  obtain r h1 where r: "verfy_sign sha3 recover h = (r, h1)" by force
  then have same: "same_header h h1" using keepsD [OF verfy_sign_same, of h sha3 recover] by simp
  from assms r obtain ok where ok: "r = Inr ok" "ok" by (auto simp: header_verify_def ebind_def on_header_def efail_def split: sum.splits if_splits)
  from assms r ok have num: "\<not> bh_number h1 > 2 ^ 32 - 1" by (auto simp: header_verify_def ebind_def on_header_def efail_def split: if_splits)
  from assms r ok num obtain h2 where vp: "verify_parent sha3 (h1, p) = (Inr (), h2)"
      "(if block = [] then Inr () else verify_block sha3 (fst h2) block) = Inr ()"
    by (auto simp: header_verify_def ebind_def on_header_def efail_def split: if_splits prod.splits sum.splits)
  show "fst (verfy_sign sha3 recover h) = Inr True" using r ok by simp
  show "bh_number h < 2 ^ 32" using num same_header_fields(1) [OF same] by simp
  show "bh_timestamp p < bh_timestamp h \<and> bh_number h = bh_number p + 1 \<and>
      (bh_parentHash h \<noteq> 0 \<longrightarrow> fst (header_hash sha3 WithSeal p) = Inr (bh_parentHash h))" if "header_valid p"
    using verify_parent_ok(1) [OF vp(1) that] same_header_fields(1-3) [OF same] by simp
  assume "block \<noteq> []"
  moreover have "fst h2 = h1" using vp(1) by (rule verify_parent_ok(2))
  ultimately show "\<exists>h'. same_header h h' \<and> verify_block sha3 h' block = Inr ()" using vp(2) same by auto
qed

text \<open>Headers that \<^verbatim>\<open>operator==\<close> identifies are signed with the same digest.\<close>

lemma header_eq_items: "header_eq h c \<Longrightarrow> basic_items h = basic_items c"
  by (simp add: header_eq_def basic_items_def)

lemma setters_forget:
  "same_header (h\<lparr>bh_extraData := e\<rparr>) (setExtraData e h)" "bh_hashWithout (setExtraData e h) = 0" "bh_hash (setExtraData e h) = 0"
  "bh_hashWithout (setNumber n h) = 0" "bh_hash (setNumber n h) = 0" "bh_hashWithout (setGasUsed g h) = 0" "bh_hash (setGasUsed g h) = 0"
  "bh_hashWithout (setTimestamp t h) = 0" "bh_hash (setTimestamp t h) = 0" "bh_hashWithout (setSeal i b h) = 0" "bh_hash (setSeal i b h) = 0"
  by (simp_all add: same_header_def noteDirty_def setExtraData_def setNumber_def setGasUsed_def setTimestamp_def setSeal_def)

section \<open>Digests\<close>

definition digest :: "(bytes \<Rightarrow> h256) \<Rightarrow> h256 \<Rightarrow> h256" where
  "digest sha3 v = sha3 (encode (hash_item v))"

lemma digest_stream: "sbind (append_hash 32 v empty_stream) stream_out = Inr (encode (hash_item v))"
  using stream_item_out [of "hash_item v"] by (simp add: append_hash_item rlp_fits_short del: append_item.simps)

lemma header_hash_clean:
  assumes "header_fits h ts" and "i = WithoutSeal \<or> i = WithoutSign OR WithoutSeal" and "bh_hashWithout h = 0"
  shows "header_hash sha3 i h = (Inr (sha3 (encode (RList (flag_items h i ts)))),
    h\<lparr>bh_hashWithout := sha3 (encode (RList (flag_items h i ts)))\<rparr>)"
  using assms flag_items_write [OF assms(1), of i] by (auto simp: header_hash_def)

lemma header_hash_memo:
  "i = WithoutSeal \<or> i = WithoutSign OR WithoutSeal \<Longrightarrow> bh_hashWithout h \<noteq> 0 \<Longrightarrow> header_hash sha3 i h = (Inr (bh_hashWithout h), h)"
  by (auto simp: header_hash_def)

lemma verfy_sign_clean:
  assumes "header_fits h ts" and "0 < bh_number h"
    and "bh_hashWithout h = 0 \<or> bh_hashWithout h = sha3 (encode (RList (basic_items h)))"
  shows "fst (verfy_sign sha3 recover h) = Inr (recover (bh_sign_data h) (digest sha3 (sha3 (encode (RList (basic_items h))))) \<noteq> 0 \<and>
    bh_author h = public_address sha3 (recover (bh_sign_data h) (digest sha3 (sha3 (encode (RList (basic_items h)))))))"
proof -
  have items: "flag_items h (WithoutSign OR WithoutSeal) ts = basic_items h" by (simp add: flag_items_def)
  show ?thesis
  proof (cases "bh_hashWithout h = 0")
    case True
    then show ?thesis using assms(2) header_hash_clean [OF assms(1), of "WithoutSign OR WithoutSeal" sha3]
      by (simp add: verfy_sign_def sign_digest_def ebind_def items digest_stream digest_def Let_def)
  next
    case False
    then show ?thesis using assms(2,3) header_hash_memo [of "WithoutSign OR WithoutSeal" h sha3]
      by (simp add: verfy_sign_def sign_digest_def ebind_def digest_stream digest_def Let_def)
  qed
qed

lemma length_encode_hash: "n < 300 \<Longrightarrow> length (encode (RData (toBigEndian n (unat w)))) \<le> n + 9"
  using length_encode_data [of "toBigEndian n (unat w)"] by simp

lemma header_fits_sign: "header_fits h ts \<Longrightarrow> header_fits (h\<lparr>bh_sign_data := d\<rparr>) ts" for d
proof -
  have "length (encode (RData (toBigEndian 65 v))) = 67" for v by (simp add: encode.simps header_def bytesRequired.simps [of 65] bytesRequired.simps [of 0])
  then show "header_fits h ts \<Longrightarrow> header_fits (h\<lparr>bh_sign_data := d\<rparr>) ts" by (simp add: header_fits_def basic_items_def sign_item_def)
qed

text \<open>A header without extra data and seal always fits.\<close>

lemma header_fits_plain:
  assumes "0 \<le> bh_number h" and "bh_number h < 2 ^ 32" and "bh_extraData h = []" and "bh_seal h = []"
  shows "header_fits h []"
proof -
  have word: "length (encode (word_item w)) \<le> 41" for w
  proof -
    have "unat w < 2 ^ 256" using unsigned_less [of w] by simp
    then show ?thesis using compact_length_le [of "unat w"] length_encode_data [of "toCompactBigEndian (unat w)"] by simp
  qed
  have num: "length (encode (RData (toCompactBigEndian (nat (bh_number h))))) \<le> 41"
  proof -
    have "nat (bh_number h) < 2 ^ 256" using assms(2) by (simp add: nat_less_iff)
    then show ?thesis
      using compact_length_le [of "nat (bh_number h)"] length_encode_data [of "toCompactBigEndian (nat (bh_number h))"] by simp
  qed
  have e: "length (encode (RData [])) = 1" by (simp add: encode.simps header_def)
  have h32: "length (encode (hash_item v)) \<le> 41" for v using length_encode_hash [of 32 v] by simp
  have "length (encode (address_item (bh_author h))) \<le> 29" "length (encode (RData (toBigEndian 256 (unat (bh_logBloom h))))) \<le> 265"
    "length (encode (RData (toBigEndian 65 (unat (bh_sign_data h))))) \<le> 74"
    using length_encode_hash [of 20 "bh_author h"] length_encode_hash [of 256 "bh_logBloom h"] length_encode_hash [of 65 "bh_sign_data h"] by simp_all
  then have "length (concat (map encode (basic_items h @ [sign_item h]))) \<le> 1000"
    using num e word [of "bh_difficulty h"] word [of "bh_gasLimit h"] word [of "bh_gasUsed h"] word [of "of_int (bh_timestamp h)"]
      word [of "bh_chain_id h"] h32 [of "bh_parentHash h"] h32 [of "bh_sha3Uncles h"] h32 [of "bh_stateRoot h"]
      h32 [of "bh_transactionsRoot h"] h32 [of "bh_receiptsRoot h"]
    by (simp add: basic_items_def sign_item_def assms(3))
  then show ?thesis using assms by (simp add: header_fits_def)
qed

section \<open>A sample\<close>

definition sample_header :: BlockHeader where
  "sample_header = empty_header\<lparr>bh_number := 1, bh_timestamp := 6, bh_author := 64, bh_gasLimit := 100\<rparr>"

lemma sample_lengths:
  "length (concat (map encode (basic_items sample_header))) = 452" "length (encode (sign_item sample_header)) = 67"
proof -
  have br: "bytesRequired 0 = 0" "bytesRequired 1 = 1" "bytesRequired 6 = 1" "bytesRequired 100 = 1" "bytesRequired 65 = 1" "bytesRequired 256 = 2"
    by (simp_all add: bytesRequired.simps [of "Suc 0"] bytesRequired.simps [of 6] bytesRequired.simps [of 100] bytesRequired.simps [of 65]
      bytesRequired.simps [of 256] bytesRequired.simps [of 0])
  then have one: "length (encode (RData (toCompactBigEndian n))) = 1" if "n \<in> {0, 1, 6, 100}" for n
    using that by (auto simp: toCompactBigEndian_def encode.simps header_def)
  have "length (encode (RData (toBigEndian 32 0))) = 33" "length (encode (RData (toBigEndian 20 64))) = 21" "length (encode (RData [])) = 1"
    "length (encode (RData (toBigEndian 256 0))) = 259" "length (encode (RData (toBigEndian 65 0))) = 67"
    using br by (simp_all add: encode.simps header_def toCompactBigEndian_def)
  then show "length (concat (map encode (basic_items sample_header))) = 452" "length (encode (sign_item sample_header)) = 67"
    using one [of 0] one [of 1] one [of 6] one [of 100]
    by (simp_all add: basic_items_def sign_item_def sample_header_def empty_header_def)
qed

lemma sample_fits: "header_fits sample_header []" "header_fits (reread sample_header) [sign_item sample_header]"
proof -
  have "basic_items (reread sample_header) = basic_items sample_header" "sign_item (reread sample_header) = sign_item sample_header"
    by (simp_all add: basic_items_def sign_item_def reread_def)
  then show "header_fits sample_header []" "header_fits (reread sample_header) [sign_item sample_header]"
    using sample_lengths by (simp_all add: header_fits_def) (simp_all add: sample_header_def empty_header_def reread_def)
qed

section \<open>Properties\<close>

text \<open>C23. A header that is written with its seal is read back with every field, its hash memoised. But the reader counts the
  signature as the first seal field: the header that was read is written as other bytes, with one field more.\<close>

theorem header_roundtrip:
  assumes "header_fits (reread h) (sign_item h # ts)" and "to_int64 (of_int (bh_timestamp h)) = bh_timestamp h"
  shows "\<exists>b b'. sbind (header_streamRLP h WithSeal empty_stream) stream_out = Inr b \<and>
    read_header sha3 to_int64 HeaderData 0 b = Inr ((reread h)\<lparr>bh_hash := sha3 b, bh_hashWithout := 0\<rparr>) \<and>
    sbind (header_streamRLP (reread h) WithSeal empty_stream) stream_out = Inr b' \<and> itemCount b' = Inr (Suc (length (basic_items h @ sign_item h # ts))) \<and>
    itemCount b = Inr (length (basic_items h @ sign_item h # ts)) \<and> b' \<noteq> b"
proof -
  let ?ts = "basic_items h @ sign_item h # ts" and ?us = "basic_items h @ sign_item h # sign_item h # ts"
  note fits = header_fits_reread [OF assms(1)]
  have items: "flag_items h WithSeal ts = ?ts" by (simp add: flag_items_def)
  have again: "flag_items (reread h) WithSeal (sign_item h # ts) = ?us"
    by (simp add: flag_items_def reread_def basic_items_def sign_item_def)
  have fit: "rlp_fits (RList ?ts)" "rlp_fits (RList ?us)"
    using flag_items_fit [OF fits, of WithSeal] flag_items_fit [OF assms(1), of WithSeal] by (simp_all only: items again)
  have "read_header sha3 to_int64 HeaderData 0 (encode (RList ?ts)) = Inr ((reread h)\<lparr>bh_hash := sha3 (encode (RList ?ts)), bh_hashWithout := 0\<rparr>)"
    using header_populate_encode [of h ts to_int64 "empty_header\<lparr>bh_hash := sha3 (encode (RList ?ts))\<rparr>", OF fits assms(2)] RLP_node_encode [OF fit(1)]
    by (simp add: read_header_def lift_rlp_def empty_header_def)
  moreover have "encode (RList ?us) \<noteq> encode (RList ?ts)" using itemCount_encode(2) [OF fit(1)] itemCount_encode(2) [OF fit(2)] by auto
  ultimately show ?thesis
    using flag_items_write [OF fits, of WithSeal] flag_items_write [OF assms(1), of WithSeal] itemCount_encode(2) [OF fit(1)] itemCount_encode(2) [OF fit(2)]
    unfolding items again by (intro exI [of _ "encode (RList ?ts)"] exI [of _ "encode (RList ?us)"]) simp
qed

theorem header_roundtrip_witness:
  "\<exists>b h. sbind (header_streamRLP sample_header WithSeal empty_stream) stream_out = Inr b \<and>
     read_header (\<lambda>_. 1) uint HeaderData 0 b = Inr h \<and> bh_seal h \<noteq> bh_seal sample_header"
proof -
  have "uint (of_int (bh_timestamp sample_header) :: u256) = bh_timestamp sample_header" by (simp add: sample_header_def)
  from header_roundtrip [where h = sample_header and ts = "[]" and ?to_int64.0 = uint and ?sha3.0 = "\<lambda>_. 1", OF sample_fits(2) this]
  show ?thesis by (auto simp: reread_def)
qed

text \<open>C24. A witness that signs a header gets a signature that verifies, with the memo that signing left and after the header went
  over the network without memos.\<close>

theorem sign_then_verify:
  assumes "header_fits h ts" and "0 < bh_number h" and "bh_hashWithout h = 0"
    and "\<And>d. recover (sign d) d = pub" and "pub \<noteq> 0" and "bh_author h = public_address sha3 pub"
  shows "\<exists>h'. sign_block sha3 sign h = (Inr True, h') \<and> fst (verfy_sign sha3 recover h') = Inr True \<and>
    fst (verfy_sign sha3 recover (noteDirty h')) = Inr True"
proof -
  let ?v = "sha3 (encode (RList (basic_items h)))"
  let ?h = "h\<lparr>bh_hashWithout := ?v, bh_sign_data := sign (digest sha3 ?v)\<rparr>"
  have "flag_items h (WithoutSign OR WithoutSeal) ts = basic_items h" by (simp add: flag_items_def)
  then have "sign_block sha3 sign h = (Inr True, ?h)"
    using header_hash_clean [OF assms(1), of "WithoutSign OR WithoutSeal" sha3] assms(3)
    by (simp add: sign_block_def sign_digest_def ebind_def digest_stream digest_def)
  moreover have fits: "header_fits ?h ts" "header_fits (noteDirty ?h) ts"
    using header_fits_sign [OF assms(1), of "sign (digest sha3 ?v)"]
    by (simp_all add: header_fits_def basic_items_def sign_item_def noteDirty_def)
  have "basic_items ?h = basic_items h" "basic_items (noteDirty ?h) = basic_items h" by (simp_all add: basic_items_def noteDirty_def)
  then have "fst (verfy_sign sha3 recover ?h) = Inr True" "fst (verfy_sign sha3 recover (noteDirty ?h)) = Inr True"
    using verfy_sign_clean [OF fits(1), of sha3 recover] verfy_sign_clean [OF fits(2), of sha3 recover] assms(2,4-6)
    by (simp_all add: noteDirty_def)
  ultimately show ?thesis by blast
qed

theorem sign_then_verify_witness:
  "\<exists>h'. sign_block (\<lambda>_. 64) (\<lambda>_. 3) sample_header = (Inr True, h') \<and> fst (verfy_sign (\<lambda>_. 64) (\<lambda>_ _. 7) h') = Inr True"
  using sign_then_verify [OF sample_fits(1), of "\<lambda>_ _. 7" "\<lambda>_. 3" 7 "\<lambda>_. 64"]
  by (auto simp: sample_header_def empty_header_def public_address_def)

text \<open>C25. The hash without seal and the hash without seal and signature share a memo: once the first has been asked for, for
  instance to print the header, a correct signature does not verify any more.\<close>

theorem printed_header_fails_verification:
  assumes "header_fits h ts" and "0 < bh_number h" and "bh_hashWithout h = 0" and "fst (verfy_sign sha3 recover h) = Inr True"
    and "sha3 (encode (RList (basic_items h @ [sign_item h]))) \<noteq> 0"
    and "recover (bh_sign_data h) (digest sha3 (sha3 (encode (RList (basic_items h @ [sign_item h]))))) = 0 \<or>
      public_address sha3 (recover (bh_sign_data h) (digest sha3 (sha3 (encode (RList (basic_items h @ [sign_item h])))))) \<noteq> bh_author h"
  shows "\<exists>v h'. header_hash sha3 WithoutSeal h = (Inr v, h') \<and> fst (verfy_sign sha3 recover h') = Inr False"
proof -
  let ?v = "sha3 (encode (RList (basic_items h @ [sign_item h])))"
  have "flag_items h WithoutSeal ts = basic_items h @ [sign_item h]" by (simp add: flag_items_def)
  then have run: "header_hash sha3 WithoutSeal h = (Inr ?v, h\<lparr>bh_hashWithout := ?v\<rparr>)"
    using header_hash_clean [OF assms(1), of WithoutSeal sha3] assms(3) by simp
  have "fst (verfy_sign sha3 recover (h\<lparr>bh_hashWithout := ?v\<rparr>)) = Inr False"
    using assms(2,5,6) header_hash_memo [of "WithoutSign OR WithoutSeal" "h\<lparr>bh_hashWithout := ?v\<rparr>" sha3]
    by (auto simp: verfy_sign_def sign_digest_def ebind_def digest_stream digest_def Let_def)
  then show ?thesis using run by blast
qed

text \<open>A function of bytes that tells short and long ones apart.\<close>

definition length_hash :: "bytes \<Rightarrow> h256" where
  "length_hash b = (if length b = 33 then of_nat (fromBigEndian (drop 1 b)) + 1 else of_nat (length b))"

theorem printed_header_fails_verification_witness:
  "fst (verfy_sign length_hash (\<lambda>_ d. if d = 456 then 7 else 0) sample_header) = Inr True \<and>
   (\<exists>v h'. header_hash length_hash WithoutSeal sample_header = (Inr v, h') \<and>
     fst (verfy_sign length_hash (\<lambda>_ d. if d = 456 then 7 else 0) h') = Inr False)"
proof -
  let ?b = "basic_items sample_header" and ?r = "\<lambda>(_ :: 520 word) (d :: h256). if d = 456 then 7 else 0 :: 512 word"
  have enc: "encode (RList ts) = header 0xc0 (length (concat (map encode ts))) @ concat (map encode ts)" for ts by (simp add: encode.simps)
  have "length (encode (RList ?b)) = 455" "length (encode (RList (?b @ [sign_item sample_header]))) = 522"
    unfolding enc using sample_lengths by (simp_all add: header_def toCompactBigEndian_def bytesRequired.simps [of 452] bytesRequired.simps [of 519]
      bytesRequired.simps [of "Suc 0"] bytesRequired.simps [of 2] bytesRequired.simps [of 0])
  then have hash: "length_hash (encode (RList ?b)) = 455" "length_hash (encode (RList (?b @ [sign_item sample_header]))) = 522"
    by (simp_all add: length_hash_def)
  have dig: "digest length_hash v = v + 1" for v
  proof -
    have "encode (hash_item v) = 0xa0 # toBigEndian 32 (unat v)" by (simp add: encode.simps header_def)
    moreover have "fromBigEndian (toBigEndian 32 (unat v)) = unat v" using unsigned_less [of v] by (intro from_toBigEndian) simp
    ultimately show ?thesis by (simp add: digest_def length_hash_def)
  qed
  have fields: "0 < bh_number sample_header" "bh_hashWithout sample_header = 0" "bh_author sample_header = 64"
    by (simp_all add: sample_header_def empty_header_def)
  have addr: "public_address length_hash p = 64" for p by (simp add: public_address_def length_hash_def)
  have first: "fst (verfy_sign length_hash ?r sample_header) = Inr True"
    using verfy_sign_clean [OF sample_fits(1) fields(1), of length_hash ?r] by (simp add: fields hash dig addr)
  from printed_header_fails_verification [OF sample_fits(1) fields(1,2) this] show ?thesis
    using first by (simp add: hash dig addr fields)
qed

text \<open>C22. In a chain of headers that each passed verification against the one before, numbers count up by one, times increase
  strictly, every header names the hash of its parent (or none), and its transaction root is the root of the trie of
  the block's transactions.\<close>

theorem verified_chain:
  assumes step: "\<And>i. Suc i < length hs \<Longrightarrow> fst (engine_verify c sha3 recover CheckEverything (bs ! Suc i) (hs ! Suc i, hs ! i)) = Inr ()"
    and "0 \<le> bh_timestamp (hs ! 0)" and "\<And>i. i < length hs \<Longrightarrow> bh_hash (hs ! i) \<noteq> 0" and "i < j" and "j < length hs"
  shows "bh_number (hs ! j) = bh_number (hs ! i) + int (j - i) \<and> bh_timestamp (hs ! i) < bh_timestamp (hs ! j) \<and>
    bh_parentHash (hs ! j) \<in> {0, bh_hash (hs ! (j - 1))} \<and>
    (\<forall>t txs us. bs ! j = encode (RList (t # RList txs # us)) \<and> rlp_fits (RList (t # RList txs # us)) \<and> length txs < 2 ^ 32 \<longrightarrow>
      orderedTrieRoot sha3 (map encode txs) = Inr (bh_transactionsRoot (hs ! j)))"
proof -
  have ver: "\<exists>s. header_verify sha3 recover CheckEverything (bs ! Suc k) (hs ! Suc k, hs ! k) = (Inr (), s)" if "Suc k < length hs" for k
    using step [OF that] by (auto simp: engine_verify_def ebind_def split: prod.splits sum.splits)
  have time: "0 \<le> bh_timestamp (hs ! k)" if "k < length hs" for k
    using that
  proof (induction k)
    case (Suc k)
    then obtain s where s: "header_verify sha3 recover CheckEverything (bs ! Suc k) (hs ! Suc k, hs ! k) = (Inr (), s)" using ver by blast
    have "header_valid (hs ! k)" using Suc by (simp add: header_valid_def)
    from header_verify_ok(3) [OF s this] Suc show ?case by simp
  qed (use assms(2) in simp)
  have next': "bh_timestamp (hs ! k) < bh_timestamp (hs ! Suc k) \<and> bh_number (hs ! Suc k) = bh_number (hs ! k) + 1 \<and>
      (bh_parentHash (hs ! Suc k) \<noteq> 0 \<longrightarrow> bh_parentHash (hs ! Suc k) = bh_hash (hs ! k))" if k: "Suc k < length hs" for k
  proof -
    obtain s where s: "header_verify sha3 recover CheckEverything (bs ! Suc k) (hs ! Suc k, hs ! k) = (Inr (), s)" using ver [OF k] by blast
    have "header_valid (hs ! k)" using time [of k] k by (simp add: header_valid_def)
    from header_verify_ok(3) [OF s this] show ?thesis using assms(3) [of k] k by (auto simp: header_hash_def)
  qed
  have order: "bh_number (hs ! (i + Suc n)) = bh_number (hs ! i) + int (Suc n) \<and> bh_timestamp (hs ! i) < bh_timestamp (hs ! (i + Suc n))"
    if "i + Suc n < length hs" for n
    using that
  proof (induction n)
    case 0
    then show ?case using next' [of i] by simp
  next
    case (Suc n)
    then show ?case using next' [of "i + Suc n"] by simp
  qed
  obtain n where n: "j = Suc (i + n)" using assms(4) less_imp_Suc_add by blast
  have "\<forall>t txs us. bs ! j = encode (RList (t # RList txs # us)) \<and> rlp_fits (RList (t # RList txs # us)) \<and> length txs < 2 ^ 32 \<longrightarrow>
      orderedTrieRoot sha3 (map encode txs) = Inr (bh_transactionsRoot (hs ! j))"
  proof (intro allI impI)
    fix t txs us assume b: "bs ! j = encode (RList (t # RList txs # us)) \<and> rlp_fits (RList (t # RList txs # us)) \<and> length txs < 2 ^ 32"
    obtain s where s: "header_verify sha3 recover CheckEverything (bs ! j) (hs ! j, hs ! (i + n)) = (Inr (), s)" using ver [of "i + n"] assms(5) n by auto
    have "bs ! j \<noteq> []" using b by simp
    with header_verify_ok(4) [OF s] obtain h' where h': "same_header (hs ! j) h'" "verify_block sha3 h' (bs ! j) = Inr ()" by blast
    then show "orderedTrieRoot sha3 (map encode txs) = Inr (bh_transactionsRoot (hs ! j))"
      using verify_block_root [OF h'(2)] b same_header_fields(4) [OF h'(1)] by auto
  qed
  then show ?thesis using order [of n] next' [of "i + n"] assms(5) n by auto
qed

theorem verified_chain_witness:
  "bh_number (sample_header\<lparr>bh_hash := 9\<rparr>) = bh_number (sample_header\<lparr>bh_number := 0, bh_timestamp := 5, bh_hash := 9\<rparr>) + 1 \<and>
   fst (engine_verify \<lparr>ep_chainID = 0, ep_minimumDifficulty = 0, ep_minGasLimit = 0, ep_maxGasLimit = 1000, ep_gasLimitBoundDivisor = 2,
     ep_maximumExtraDataSize = 10\<rparr> (\<lambda>_. 64) (\<lambda>_ _. 7) CheckEverything []
     (sample_header\<lparr>bh_hash := 9\<rparr>, sample_header\<lparr>bh_number := 0, bh_timestamp := 5, bh_hash := 9\<rparr>)) = Inr ()"
proof -
  let ?c = "\<lparr>ep_chainID = 0, ep_minimumDifficulty = 0, ep_minGasLimit = 0, ep_maxGasLimit = 1000, ep_gasLimitBoundDivisor = 2,
     ep_maximumExtraDataSize = 10\<rparr>" and ?h = "sample_header\<lparr>bh_hash := 9\<rparr>"
    and ?p = "sample_header\<lparr>bh_number := 0, bh_timestamp := 5, bh_hash := 9\<rparr>"
  have fits: "header_fits ?h []" using sample_fits(1) by (simp add: header_fits_def basic_items_def sign_item_def)
  have "verfy_sign (\<lambda>_. 64) (\<lambda>_ _. 7) ?h = (Inr True, ?h\<lparr>bh_hashWithout := 64\<rparr>)"
    using header_hash_clean [OF fits, of "WithoutSign OR WithoutSeal" "\<lambda>_. 64"]
    by (simp add: verfy_sign_def sign_digest_def ebind_def digest_stream public_address_def) (simp add: sample_header_def empty_header_def)
  then have run: "fst (engine_verify ?c (\<lambda>_. 64) (\<lambda>_ _. 7) CheckEverything [] (?h, ?p)) = Inr ()"
    by (simp add: engine_verify_def header_verify_def on_header_def ebind_def efail_def verify_parent_def)
      (simp add: sample_header_def empty_header_def header_valid_def engine_checks_def engine_parent_checks_def)
  have "0 \<le> bh_timestamp ([?p, ?h] ! 0)" "\<And>i. i < length [?p, ?h] \<Longrightarrow> bh_hash ([?p, ?h] ! i) \<noteq> 0"
    by (simp_all add: less_Suc_eq numeral_2_eq_2) auto
  with verified_chain [of "[?p, ?h]" ?c "\<lambda>_. 64" "\<lambda>_ _. 7" "[[], []]" 0 1] run show ?thesis by simp
qed

end
