(* ===== verification/Sealing.thy ===== *)
theory Sealing
  imports Voting Headers
begin

text \<open>
  Who may seal a block, and when: libshdposseal/SHDpos (the node's own decision), libbrcdchain/Verify (the standby nodes)
  and \<^verbatim>\<open>BlockChain::verifyReplaceMiner\<close> (the check on a block that arrives, with the choice between competing blocks). Times
  are \<^verbatim>\<open>int64_t\<close> milliseconds, kept as integers; where the code mixes them with \<^verbatim>\<open>size_t\<close> they become 64-bit words, as
  in C++. What the node reads from its client is the record \<open>dpos_view\<close>, what the chain reads from its database the record \<open>chain_view\<close>.
\<close>

section \<open>Data\<close>

datatype seal_error = SE_undefined | SE_InvalidMinner | SE_UnknownParent | SE_out_of_range
  | SE_FutureTime | SE_not_enacted

record SHDposConfigParams =
  epochInterval :: "64 word"
  varlitorInterval :: "64 word"
  blockInterval :: "64 word"

record SHDpos =
  m_curr_varlitors :: "address list"
  m_next_block_time :: int
  m_last_block_time :: int
  m_config :: SHDposConfigParams

definition emptySHDpos :: "SHDposConfigParams \<Rightarrow> SHDpos" where
  "emptySHDpos config = \<lparr>m_curr_varlitors = [], m_next_block_time = 0, m_last_block_time = 0, m_config = config\<rparr>"

record dpos_view =
  dv_preSeal :: chain_state
  dv_preSeal_number :: int
  dv_author :: address
  dv_header :: BlockHeader
  dv_hash :: h256
  dv_genesis :: h256

record chain_view =
  cv_info :: BlockHeader
  cv_hash :: h256
  cv_states :: "h256 \<Rightarrow> chain_state option"

text \<open>The conversions to \<^verbatim>\<open>uint64_t\<close>, \<^verbatim>\<open>int64_t\<close> and \<^verbatim>\<open>int\<close>, and the range of \<^verbatim>\<open>int64_t\<close>.\<close>

definition u64 :: "int \<Rightarrow> 64 word" where "u64 i = of_int i"

definition i64 :: "64 word \<Rightarrow> int" where "i64 w = sint w"

definition to_int :: "64 word \<Rightarrow> int" where "to_int w = sint (ucast w :: 32 word)"

definition in_int64 :: "int \<Rightarrow> bool" where "in_int64 i \<longleftrightarrow> - (2 ^ 63) \<le> i \<and> i < 2 ^ 63"

text \<open>\<^verbatim>\<open>(t / interval) % n\<close>, the place in a list of \<open>n\<close>.\<close>

definition slot_index :: "64 word \<Rightarrow> 64 word \<Rightarrow> nat \<Rightarrow> nat" where
  "slot_index t interval n = unat (t div interval) mod n"

section \<open>Standby nodes\<close>

text \<open>
  \<^verbatim>\<open>std::replace\<close> with a reference into the vector as the old value: behind that place nothing is replaced any more.
\<close>

definition replace_upto :: "nat \<Rightarrow> address \<Rightarrow> address list \<Rightarrow> address list" where
  "replace_upto i new xs = map (\<lambda>a. if a = xs ! i then new else a) (take (Suc i) xs) @ drop (Suc i) xs"

text \<open>The last standby node that sealed in the witness's place: its time, its address, the rounds since then.\<close>

fun last_standby :: "(address, time_ms) omap \<Rightarrow> int \<Rightarrow> 64 word \<Rightarrow> 64 word \<Rightarrow> nat \<Rightarrow> nat \<Rightarrow> PollData list \<Rightarrow> int \<times> address \<times> int \<Rightarrow>
    seal_error + int \<times> address \<times> int" where
  "last_standby records block_time interval round n offset [] acc = Inr acc"
| "last_standby records block_time interval round n offset (v # vs) acc =
     (case om_find records (pd_addr v) of
        None \<Rightarrow> last_standby records block_time interval round n offset vs acc
      | Some t \<Rightarrow>
          if slot_index (u64 t) interval n mod 2 ^ 32 = offset \<and> fst acc < t then
            if \<not> in_int64 (block_time - t) then Inl SE_undefined
            else last_standby records block_time interval round n offset vs (t, pd_addr v, to_int (u64 (block_time - t) div round))
          else last_standby records block_time interval round n offset vs acc)"

text \<open>The decrement of an \<^verbatim>\<open>int\<close>.\<close>

definition int_dec :: "int \<Rightarrow> seal_error + int" where
  "int_dec i = (if i = - (2 ^ 31) then Inl SE_undefined else Inr (i - 1))"

text \<open>Whether a node sealed within the last round.\<close>

definition sealed_lately :: "(address, time_ms) omap \<Rightarrow> int \<Rightarrow> 64 word \<Rightarrow> address \<Rightarrow> bool" where
  "sealed_lately records block_time round a =
     (case om_find records a of None \<Rightarrow> False | Some t \<Rightarrow> u64 t + round > u64 block_time)"

text \<open>The final loop over the standby nodes, with the counters of rounds and the flag \<^verbatim>\<open>is_loop_last_standby\<close>.\<close>

fun standby_turn :: "(address, time_ms) omap \<Rightarrow> int \<Rightarrow> 64 word \<Rightarrow> address \<Rightarrow> int \<Rightarrow> address \<Rightarrow> PollData list \<Rightarrow> int \<Rightarrow> int \<Rightarrow> bool \<Rightarrow>
    seal_error + bool" where
  "standby_turn records block_time round addr last_time last_addr [] beyond beyond_standby looped = Inr False"
| "standby_turn records block_time round addr last_time last_addr (v # vs) beyond beyond_standby looped =
     (if last_time = 0 then
        if beyond \<ge> 1 then
          if pd_addr v = addr then Inr True
          else standby_turn records block_time round addr last_time last_addr vs
            (if sealed_lately records block_time round (pd_addr v) then beyond - 1 else beyond) beyond_standby looped
        else standby_turn records block_time round addr last_time last_addr vs beyond beyond_standby looped
      else if pd_addr v = addr \<and> beyond_standby \<ge> 1 then Inr True
      else if last_addr = pd_addr v \<or> looped then
        sbind (int_dec beyond_standby) (\<lambda>b. standby_turn records block_time round addr last_time last_addr vs beyond b True)
      else standby_turn records block_time round addr last_time last_addr vs beyond beyond_standby looped)"

text \<open>The replacements of a changed miner, for the witness of the slot and for the standby node.\<close>

definition changed_miners :: "chain_state \<Rightarrow> bool \<Rightarrow> nat \<Rightarrow> address list" where
  "changed_miners s fork offset =
     (let minners = map pd_addr (vote_data s SysVarlitorAddress); mapping = minerMapping s (minners ! offset) in
      if fork \<and> snd mapping \<noteq> 0 \<and> om_find (block_record s) (minners ! offset) = None
      then replace_upto offset (fst mapping) minners else minners)"

definition changed_standby :: "chain_state \<Rightarrow> bool \<Rightarrow> address \<Rightarrow> PollData list \<times> address" where
  "changed_standby s fork addr =
     (let standby_addrs = vote_data s SysCanlitorAddress; mapping = minerMapping s addr in
      if fork \<and> snd mapping \<noteq> 0 \<and> om_find (block_record s) addr = None
      then (map (\<lambda>p. if pd_addr p = addr then \<lparr>pd_addr = fst mapping, pd_poll = 0, pd_time = 0\<rparr> else p) standby_addrs, fst mapping)
      else (standby_addrs, addr))"

definition verify_standby :: "config \<Rightarrow> chain_state \<Rightarrow> int \<Rightarrow> address \<Rightarrow> 64 word \<Rightarrow> bool \<Rightarrow> seal_error + bool" where
  "verify_standby c s block_time addr interval fork =
     (let records = block_record s; n = length (vote_data s SysVarlitorAddress) in
      if n = 0 \<or> records = [] then Inr False
      else if interval = 0 then Inl SE_undefined
      else let offset = slot_index (u64 block_time) interval n mod 2 ^ 32; round = interval * ucast (varlitor_num c) in
      case om_find records (changed_miners s fork offset ! offset) of None \<Rightarrow> Inr False
      | Some t \<Rightarrow>
        if \<not> in_int64 (block_time - t) \<or> round = 0 then Inl SE_undefined
        else let beyond = to_int (u64 (block_time - t) div round) in
        if (of_int beyond :: 32 word) \<le> min_cycel c then Inr False
        else if addr \<notin> pd_addr ` set (vote_data s SysCanlitorAddress) then Inr False
        else let (standby_addrs, standby_addr) = changed_standby s fork addr in
        if sealed_lately records block_time round standby_addr then Inr False
        else sbind (last_standby records block_time interval round n offset standby_addrs (0, 0, 0)) (\<lambda>(last_time, last_addr, beyond_standby).
          standby_turn records block_time round standby_addr last_time last_addr standby_addrs
            (sint (of_int beyond - min_cycel c :: 32 word)) beyond_standby False))"

section \<open>The node's decision\<close>

definition SHDpos_checkDeadline :: "dpos_view \<Rightarrow> 64 word \<Rightarrow> SHDpos \<Rightarrow> (seal_error + bool) \<times> SHDpos" where
  "SHDpos_checkDeadline v now d =
     (let b = blockInterval (m_config d) in
      if b = 0 then (Inl SE_undefined, d) else
      let d = (if dv_hash v = dv_genesis v then
                 if m_next_block_time d = 0 \<and> m_last_block_time d = 0 then
                   let t = i64 (now div b * b + 1) in d\<lparr>m_last_block_time := t, m_next_block_time := i64 (u64 t + b)\<rparr>
                 else d
               else d\<lparr>m_last_block_time := bh_timestamp (dv_header v)\<rparr>) in
      if m_last_block_time d \<le> 0 then (Inr False, d)
      else if \<not> in_int64 (m_next_block_time d + 50) then (Inl SE_undefined, d)
      else if now < u64 (m_next_block_time d + 50) then (Inr False, d)
      else let next_slot = now div b * b + b; last_slot = u64 (m_last_block_time d) div b * b; curr_slot = last_slot + b in
        if curr_slot \<le> now \<or> next_slot - now \<le> 1 then (Inr True, d\<lparr>m_next_block_time := i64 next_slot\<rparr>)
        else (Inr False, d))"

text \<open>\<^verbatim>\<open>SHDposClient::verify_standby\<close> takes the interval as \<^verbatim>\<open>uint32_t\<close>.\<close>

definition client_verify_standby :: "config \<Rightarrow> dpos_view \<Rightarrow> int \<Rightarrow> address \<Rightarrow> 64 word \<Rightarrow> seal_error + bool" where
  "client_verify_standby c v block_time addr interval =
     verify_standby c (dv_preSeal v) block_time addr (ucast (ucast interval :: 32 word)) (dv_preSeal_number v \<ge> newChangeHeight c)"

definition CheckValidator :: "config \<Rightarrow> dpos_view \<Rightarrow> 64 word \<Rightarrow> SHDpos \<Rightarrow> (seal_error + bool) \<times> SHDpos" where
  "CheckValidator c v now d =
     (let miners = map pd_addr (vote_data (dv_preSeal v) SysVarlitorAddress); d = d\<lparr>m_curr_varlitors := miners\<rparr>;
          interval = varlitorInterval (m_config d) in
      (if miners = [] then Inr False
       else if interval = 0 then Inl SE_undefined
       else if miners ! slot_index now interval (length miners) = dv_author v then Inr True
       else if dv_author v \<in> set miners then Inr False
       else if bh_number (dv_header v) \<le> uint (varlitor_num c * min_cycel c) then Inr False
       else if bh_number (dv_header v) \<ge> replaceMinerHeight c
         then client_verify_standby c v (i64 (now - now mod interval)) (dv_author v) interval
       else Inr False, d))"

definition isBlockSeal :: "config \<Rightarrow> dpos_view \<Rightarrow> 64 word \<Rightarrow> SHDpos \<Rightarrow> (seal_error + bool) \<times> SHDpos" where
  "isBlockSeal c v now d =
     (case SHDpos_checkDeadline v now d of
        (Inr True, d) \<Rightarrow> CheckValidator c v now d
      | r \<Rightarrow> r)"

text \<open>The time of a new block.\<close>

definition SHDpos_populateFromParent :: "SHDpos \<Rightarrow> int \<Rightarrow> BlockHeader \<Rightarrow> BlockHeader \<Rightarrow> seal_error + BlockHeader" where
  "SHDpos_populateFromParent d now parent h =
     (let b = blockInterval (m_config d) in
      if b = 0 then Inl SE_undefined else
      let time1 = i64 (u64 now div b * b); time2 = i64 (u64 (bh_timestamp parent) div b * b + b) in
      Inr (setTimestamp (if time1 > time2 then time1 else time2) (populateFromParent parent h)))"

section \<open>The blocks of the dividend\<close>

definition FORCEBLOCKCOUNT :: nat where "FORCEBLOCKCOUNT = 3"
definition MAXFORCEBLOCKAUTHOR :: nat where "MAXFORCEBLOCKAUTHOR = 7"

record force_state =
  m_forceAuthorCount :: nat
  m_forceBlockBeginTime :: int
  m_errorForceCount :: nat

definition author_at :: "SHDpos \<Rightarrow> nat \<Rightarrow> seal_error + address" where
  "author_at d i = (if i < length (m_curr_varlitors d) then Inr (m_curr_varlitors d ! i) else Inl SE_out_of_range)"

definition isForceBlock :: "config \<Rightarrow> SHDpos \<Rightarrow> int \<Rightarrow> address \<Rightarrow> int \<Rightarrow> force_state \<Rightarrow> (seal_error + bool) \<times> force_state" where
  "isForceBlock c d number author now f =
     (let timeout = 60 * 10 in
      if number = dividendHeight c then
        let f = (if m_forceAuthorCount f \<noteq> 0 \<and> m_forceBlockBeginTime f \<noteq> 0 then
                   if now - m_forceBlockBeginTime f > timeout
                   then f\<lparr>m_errorForceCount := Suc (m_errorForceCount f), m_forceBlockBeginTime := now\<rparr> else f
                 else f\<lparr>m_forceAuthorCount := FORCEBLOCKCOUNT, m_forceBlockBeginTime := now\<rparr>) in
        (sbind (author_at d (m_errorForceCount f)) (\<lambda>a. Inr (author = a)), f)
      else if m_forceAuthorCount f = 0 then (Inr True, f)
      else case author_at d (m_errorForceCount f) of Inl e \<Rightarrow> (Inl e, f)
        | Inr a \<Rightarrow>
          if author \<noteq> a \<and> m_forceBlockBeginTime f \<noteq> 0 then
            if now - m_forceBlockBeginTime f \<ge> timeout \<and> m_errorForceCount f < MAXFORCEBLOCKAUTHOR
            then (Inr True, f\<lparr>m_errorForceCount := Suc (m_errorForceCount f), m_forceBlockBeginTime := now\<rparr>)
            else (Inr False, if m_errorForceCount f = MAXFORCEBLOCKAUTHOR - 1
              then f\<lparr>m_errorForceCount := 0, m_forceBlockBeginTime := now\<rparr> else f)
          else (Inr True, f))"

section \<open>The check on a block\<close>

definition forced_block :: "config \<Rightarrow> BlockHeader \<Rightarrow> bool" where
  "forced_block c h \<longleftrightarrow> last (bh_extraData h) = 0x66 \<and> bh_number h \<ge> dividendHeight c \<and>
     bh_number h \<le> dividendHeight c + int FORCEBLOCKCOUNT"

definition verify_miner :: "config \<Rightarrow> 64 word \<Rightarrow> chain_state \<Rightarrow> BlockHeader \<Rightarrow> seal_error + unit" where
  "verify_miner c interval s h =
     (let exe = map pd_addr (vote_data s SysVarlitorAddress) in
      if bh_author h \<in> set exe then
        if bh_extraData h = [] then Inl SE_undefined
        else if forced_block c h then Inr ()
        else if interval = 0 then Inl SE_undefined
        else let offset = sint (of_nat (slot_index (u64 (bh_timestamp h)) interval (length exe)) :: 32 word) in
          if offset < 0 then Inl SE_undefined
          else if bh_author h \<noteq> exe ! nat offset then Inl SE_InvalidMinner else Inr ()
      else if bh_author h \<notin> pd_addr ` set (vote_data s SysCanlitorAddress) then Inl SE_InvalidMinner
      else sbind (verify_standby c s (bh_timestamp h) (bh_author h) interval (bh_number h \<ge> newChangeHeight c)) (\<lambda>ok.
        if ok then Inr () else Inl SE_InvalidMinner))"

text \<open>The choice between the head and another block of its height, over the standby nodes in their order.\<close>

fun front_standby :: "PollData list \<Rightarrow> address \<Rightarrow> address \<Rightarrow> bool" where
  "front_standby [] author head = False"
| "front_standby (v # vs) author head =
     (if pd_addr v = author then True else if pd_addr v = head then False else front_standby vs author head)"

definition replaces_head :: "chain_state \<Rightarrow> address \<Rightarrow> address \<Rightarrow> bool" where
  "replaces_head s author head =
     (let exe = pd_addr ` set (vote_data s SysVarlitorAddress) in
      if head \<in> exe then False else if author \<in> exe then True else front_standby (vote_data s SysCanlitorAddress) author head)"

definition verifyReplaceMiner :: "config \<Rightarrow> 64 word \<Rightarrow> chain_view \<Rightarrow> BlockHeader \<Rightarrow> seal_error + bool" where
  "verifyReplaceMiner c interval v h =
     (let info = cv_info v in
      if bh_number info = 0 then Inr True
      else case cv_states v (if bh_number h \<ge> replaceMinerHeight c then bh_parentHash h else bh_parentHash info) of
        None \<Rightarrow> Inl SE_UnknownParent
      | Some s \<Rightarrow>
          sbind (verify_miner c interval s h) (\<lambda>_.
          Inr (if bh_number h \<ge> replaceMinerHeight c then
                 if bh_parentHash h = cv_hash v then True
                 else if bh_number h < bh_number info then False
                 else if bh_number h = bh_number info then replaces_head s (bh_author h) (bh_author info)
                 else bh_number h = bh_number info + 1
               else True)))"

section \<open>Import\<close>

text \<open>
  \<^verbatim>\<open>execute_block\<close> with \<^verbatim>\<open>insertBlockAndExtras\<close>: the block is stored with its state, and becomes the head when it is not lower than
  the head and the best. Verification and execution of the block (\<^verbatim>\<open>verifyBlock\<close>, \<^verbatim>\<open>enactOn\<close>) are the parameter \<open>enact\<close>, from the
  state of the parent to the state of the block, \<open>None\<close> when they throw. The header carries its hash in the memo.
\<close>

definition checkBlockTimestamp :: "bool \<Rightarrow> int \<Rightarrow> BlockHeader \<Rightarrow> seal_error + unit" where
  "checkBlockTimestamp allowFutureBlocks now h =
     (if bh_timestamp h > now \<and> \<not> allowFutureBlocks then Inl SE_FutureTime else Inr ())"

definition becomes_head :: "BlockHeader \<Rightarrow> bool \<Rightarrow> chain_view \<Rightarrow> bool" where
  "becomes_head h isBest v \<longleftrightarrow> bh_number h \<ge> bh_number (cv_info v) \<and> isBest"

definition insertBlockAndExtras :: "BlockHeader \<Rightarrow> chain_state \<Rightarrow> bool \<Rightarrow> chain_view \<Rightarrow> chain_view" where
  "insertBlockAndExtras h s isBest v =
     (let v' = v\<lparr>cv_states := (cv_states v)(bh_hash h := Some s)\<rparr> in
      if becomes_head h isBest v then v'\<lparr>cv_info := h, cv_hash := bh_hash h\<rparr> else v')"

definition execute_block :: "config \<Rightarrow> 64 word \<Rightarrow> bool \<Rightarrow> (chain_state \<Rightarrow> BlockHeader \<Rightarrow> chain_state option) \<Rightarrow> int \<Rightarrow> BlockHeader \<Rightarrow> chain_view \<Rightarrow>
    (seal_error + unit) \<times> chain_view" where
  "execute_block c interval allowFutureBlocks enact now h v =
     (case cv_states v (bh_parentHash h) of None \<Rightarrow> (Inl SE_UnknownParent, v)
      | Some parent \<Rightarrow>
        (case verifyReplaceMiner c interval v h of Inl e \<Rightarrow> (Inl e, v)
         | Inr is_best \<Rightarrow>
           (case checkBlockTimestamp allowFutureBlocks now h of Inl e \<Rightarrow> (Inl e, v)
            | Inr _ \<Rightarrow>
              (case enact parent h of None \<Rightarrow> (Inl SE_not_enacted, v)
               | Some s \<Rightarrow> (Inr (), insertBlockAndExtras h s (bh_number h < replaceMinerHeight c \<or> is_best) v)))))"

end
