(* ===== verification/SealingLaws.thy ===== *)
theory SealingLaws
  imports Sealing "HOL-Library.Multiset"
begin

text \<open>
  The laws of sealing: the witnesses take turns and the chain accepts exactly the block of the one whose turn it is; a standby
  node seals only for a witness that has been away; nodes that import competing blocks in different orders agree.
\<close>

section \<open>Turns\<close>

definition witnesses :: "chain_state \<Rightarrow> address list" where
  "witnesses s = map pd_addr (vote_data s SysVarlitorAddress)"

lemma slot_index_less: "0 < n \<Longrightarrow> slot_index t interval n < n"
  by (simp add: slot_index_def)

lemma slot_index_same: "t div interval = t' div interval \<Longrightarrow> slot_index t interval n = slot_index t' interval n"
  by (simp add: slot_index_def)



lemma CheckValidator_witness:
  assumes "dv_author v \<in> set (witnesses (dv_preSeal v))" and "varlitorInterval (m_config d) \<noteq> 0"
  shows "fst (CheckValidator c v now d) =
    Inr (witnesses (dv_preSeal v) ! slot_index now (varlitorInterval (m_config d)) (length (witnesses (dv_preSeal v))) = dv_author v)"
  using assms by (auto simp: CheckValidator_def Let_def witnesses_def)

lemma verify_miner_witness:
  assumes "bh_author h \<in> set (witnesses s)" and "interval \<noteq> 0" and "length (witnesses s) < 2 ^ 31" and "bh_extraData h \<noteq> []" and "\<not> forced_block c h"
  shows "verify_miner c interval s h =
    (if witnesses s ! slot_index (u64 (bh_timestamp h)) interval (length (witnesses s)) = bh_author h then Inr () else Inl SE_InvalidMinner)"
proof -
  let ?i = "slot_index (u64 (bh_timestamp h)) interval (length (witnesses s))"
  have "witnesses s \<noteq> []" using assms(1) by auto
  then have i: "?i < 2 ^ 31" using slot_index_less [of "length (witnesses s)"] assms(3) by (meson length_greater_0_conv less_trans)
  have "uint (word_of_nat ?i :: 32 word) = int ?i" using i by (simp add: unsigned_of_nat take_bit_nat_eq_self)
  then have "sint (word_of_nat ?i :: 32 word) = int ?i" using i by (simp add: sint_uint signed_take_bit_int_eq_self)
  then show ?thesis using assms by (auto simp: verify_miner_def Let_def witnesses_def)
qed

section \<open>The time of a block\<close>

lemma u64_uint: "u64 (uint w) = w"
  by (simp add: u64_def)

lemma u64_i64 [simp]: "u64 (i64 w) = w"
  by (simp add: u64_def i64_def)

lemma i64_small: "unat w < 2 ^ 63 \<Longrightarrow> i64 w = uint w"
proof -
  assume "unat w < 2 ^ 63"
  then have "int (unat w) < int (2 ^ 63)" by (simp only: of_nat_less_iff)
  then have "uint w < 2 ^ 63" by simp
  moreover have "- (2 ^ 63) \<le> uint w" by (rule order_trans [OF _ uint_ge_0]) simp
  ultimately have "signed_take_bit 63 (uint w) = uint w" by (intro signed_take_bit_int_eq_self)
  then show ?thesis by (simp add: i64_def sint_uint)
qed

text \<open>The start of the interval that holds a time.\<close>

lemma unat_floor:
  fixes t b :: "64 word"
  shows "unat (t div b * b) = unat t div unat b * unat b"
proof -
  have "unat t div unat b * unat b \<le> unat t" by simp
  also have "unat t < 2 ^ 64" using unsigned_less [of t, where ?'a = nat] by simp
  finally show ?thesis by (simp add: unat_word_ariths(2) unat_div)
qed

text \<open>The interval of a block and the turn of a witness fit when the second is a multiple of the first.\<close>

lemma floor_same_turn:
  fixes t b interval :: "64 word"
  assumes "unat b dvd unat interval"
  shows "slot_index (t div b * b) interval n = slot_index t interval n"
proof -
  obtain k where k: "unat interval = unat b * k" using assms by blast
  have "unat t div unat b * unat b div unat interval = unat t div unat interval"
    by (cases "unat b = 0") (simp_all add: k div_mult2_eq)
  then show ?thesis by (simp add: slot_index_def unat_div unat_floor)
qed

text \<open>A node that seals after the slot of the parent gives its block the start of the current slot.\<close>

lemma block_time_current:
  assumes "blockInterval (m_config d) = b" and "b \<noteq> 0" and "unat now < 2 ^ 63" and "u64 (bh_timestamp p) div b * b + b \<le> now"
    and "u64 (bh_timestamp p) div b * b \<le> u64 (bh_timestamp p) div b * b + b"
    and "SHDpos_populateFromParent d (uint now) p h = Inr h'"
  shows "bh_timestamp h' = uint (now div b * b)" and "bh_parentHash h' = bh_hash p" and "bh_number h' = bh_number p + 1"
proof -
  let ?l = "u64 (bh_timestamp p) div b * b"
  have fl: "unat (now div b * b) \<le> unat now" by (simp add: unat_floor)
  have "unat (?l + b) = unat ?l + unat b" using assms(5) by (simp only: unat_plus_simple)
  moreover have "unat ?l = unat (u64 (bh_timestamp p)) div unat b * unat b" by (rule unat_floor)
  ultimately have "unat (?l + b) = Suc (unat (u64 (bh_timestamp p)) div unat b) * unat b" by simp
  moreover have "unat (?l + b) \<le> unat now" using assms(4) by (simp add: word_le_nat_alt)
  moreover have "0 < unat b" using assms(2) by (simp add: unat_gt_0)
  ultimately have "unat (?l + b) \<le> unat now div unat b * unat b"
    by (metis less_eq_div_iff_mult_less_eq mult_le_mono1)
  then have "unat (?l + b) \<le> unat (now div b * b)" by (simp only: unat_floor)
  moreover have small: "unat (now div b * b) < 2 ^ 63" using fl assms(3) by simp
  ultimately have "unat (?l + b) < 2 ^ 63" by simp
  then have le: "i64 (?l + b) \<le> i64 (now div b * b)"
    using \<open>unat (?l + b) \<le> unat (now div b * b)\<close> by (simp only: i64_small small uint_nat of_nat_le_iff)
  note t1 = i64_small [OF small]
  then show "bh_timestamp h' = uint (now div b * b)" "bh_parentHash h' = bh_hash p" "bh_number h' = bh_number p + 1"
    using le t1 assms(1,2,6) by (auto simp: SHDpos_populateFromParent_def Let_def u64_uint setTimestamp_def noteDirty_def populateFromParent_def)
qed

section \<open>Standby nodes\<close>

lemma to_int_word: "(of_int (to_int w) :: 32 word) = ucast w"
  by (simp add: to_int_def)

lemma unat_ucast_le: "unat (ucast (w :: 64 word) :: 32 word) \<le> unat w"
  by (simp add: unsigned_ucast_eq take_bit_nat_eq_self_iff take_bit_eq_mod)

text \<open>What a standby node that may seal has passed.\<close>

lemma verify_standby_true:
  assumes "verify_standby c s block_time addr interval fork = Inr True"
  defines "offset \<equiv> slot_index (u64 block_time) interval (length (witnesses s)) mod 2 ^ 32"
    and "round \<equiv> interval * ucast (varlitor_num c)"
  shows "witnesses s \<noteq> []" and "interval \<noteq> 0" and "round \<noteq> 0" and "addr \<in> pd_addr ` set (vote_data s SysCanlitorAddress)"
    and "\<not> sealed_lately (block_record s) block_time round (snd (changed_standby s fork addr))"
    and "\<exists>t. om_find (block_record s) (changed_miners s fork offset ! offset) = Some t \<and> in_int64 (block_time - t) \<and>
      unat (min_cycel c) < unat (u64 (block_time - t) div round)"
proof -
  note run = assms(1) [unfolded verify_standby_def, folded round_def]
  show "witnesses s \<noteq> []" "interval \<noteq> 0" using run by (auto simp: Let_def witnesses_def split: if_splits)
  then obtain t where t: "om_find (block_record s) (changed_miners s fork offset ! offset) = Some t"
    using run by (auto simp: Let_def witnesses_def offset_def split: if_splits option.splits)
  note run' = run [unfolded Let_def]
  have *: "in_int64 (block_time - t) \<and> round \<noteq> 0 \<and> min_cycel c < ucast (u64 (block_time - t) div round) \<and>
      addr \<in> pd_addr ` set (vote_data s SysCanlitorAddress) \<and>
      \<not> sealed_lately (block_record s) block_time round (snd (changed_standby s fork addr))"
    using run' t by (auto simp: witnesses_def offset_def to_int_word split: if_splits prod.splits)
  then show "round \<noteq> 0" "addr \<in> pd_addr ` set (vote_data s SysCanlitorAddress)"
    "\<not> sealed_lately (block_record s) block_time round (snd (changed_standby s fork addr))" by blast+
  have "unat (min_cycel c) < unat (u64 (block_time - t) div round)"
    using * unat_ucast_le [of "u64 (block_time - t) div round"] by (simp add: word_less_nat_alt)
  then show "\<exists>t. om_find (block_record s) (changed_miners s fork offset ! offset) = Some t \<and> in_int64 (block_time - t) \<and>
      unat (min_cycel c) < unat (u64 (block_time - t) div round)" using t * by blast
qed

text \<open>Rounds and records as integers, where nothing wraps.\<close>

lemma uint_round:
  assumes "uint interval * uint n < 2 ^ 62"
  shows "uint (interval * ucast (n :: 32 word) :: 64 word) = uint interval * uint n"
proof -
  have "uint n < 2 ^ 32" using unsigned_less [of n, where ?'a = int] by simp
  then have "uint (ucast n :: 64 word) = uint n" by (simp add: unsigned_ucast_eq take_bit_int_eq_self)
  moreover have "0 \<le> uint interval * uint n" by simp
  ultimately show ?thesis using assms by (simp add: uint_word_ariths(3))
qed

lemma uint_u64: "0 \<le> i \<Longrightarrow> i < 2 ^ 64 \<Longrightarrow> uint (u64 i) = i"
  by (simp add: u64_def unsigned_of_int take_bit_int_eq_self)

lemma sealed_lately_int:
  assumes "om_find records a = Some t" and "0 \<le> t" and "t \<le> block_time" and "block_time < 2 ^ 62" and "uint round < 2 ^ 62"
    and "\<not> sealed_lately records block_time round a"
  shows "t + uint round \<le> block_time"
proof -
  have u: "uint (u64 t) = t" "uint (u64 block_time) = block_time" using assms(2-4) by (simp_all add: uint_u64)
  have "uint (u64 t + round) = t + uint round" using assms(2-5) by (simp add: uint_word_ariths(1) u)
  then show ?thesis using assms(1,6) by (simp add: sealed_lately_def word_less_def u)
qed

section \<open>Competing blocks\<close>




text \<open>A block replaces the head also when both are by the same standby node, so that two such blocks take turns.\<close>

lemma same_author_replaces:
  assumes "a \<in> pd_addr ` set (vote_data s SysCanlitorAddress)" and "a \<notin> set (witnesses s)"
  shows "replaces_head s a a"
proof -
  have "front_standby vs a a" if "a \<in> pd_addr ` set vs" for vs using that by (induction vs) auto
  then show ?thesis using assms by (auto simp: replaces_head_def witnesses_def Let_def)
qed











section \<open>Sealing in the last millisecond\<close>

lemma isBlockSealD:
  assumes "isBlockSeal c v now d = (Inr True, d')"
  obtains d1 where "SHDpos_checkDeadline v now d = (Inr True, d1)" and "CheckValidator c v now d1 = (Inr True, d')"
    and "m_config d1 = m_config d" and "m_config d' = m_config d"
proof -
  obtain d1 where d1: "SHDpos_checkDeadline v now d = (Inr True, d1)" "CheckValidator c v now d1 = (Inr True, d')"
    using assms by (auto simp: isBlockSeal_def split: prod.splits sum.splits bool.splits)
  have "m_config d1 = m_config d" using d1(1) by (auto simp: SHDpos_checkDeadline_def Let_def split: if_splits)
  moreover have "m_config d' = m_config d1" using d1(2) by (auto simp: CheckValidator_def Let_def)
  ultimately show ?thesis using d1 that by simp
qed


text \<open>The deadline has passed when the parent lies in an earlier slot.\<close>

lemma deadline_slot:
  assumes "SHDpos_checkDeadline v now d = (Inr True, d1)" and "dv_hash v \<noteq> dv_genesis v"
    and "1 < now div blockInterval (m_config d) * blockInterval (m_config d) + blockInterval (m_config d) - now"
  shows "u64 (bh_timestamp (dv_header v)) div blockInterval (m_config d) * blockInterval (m_config d) + blockInterval (m_config d) \<le> now"
    and "blockInterval (m_config d) \<noteq> 0" and "0 < bh_timestamp (dv_header v)"
  using assms by (auto simp: SHDpos_checkDeadline_def Let_def split: if_splits)

text \<open>
  With two witnesses or more, a node that seals while the parent lies in the current slot, which the deadline allows in the slot's
  last millisecond, gives its block the time of the next witness; the chain refuses it.
\<close>

lemma last_millisecond_refused:
  assumes "isBlockSeal c v now d = (Inr True, d')" and "dv_author v \<in> set (witnesses s)" and "witnesses (dv_preSeal v) = witnesses s"
    and "distinct (witnesses s)" and "1 < length (witnesses s)" and "length (witnesses s) < 2 ^ 31"
    and "blockInterval (m_config d) = b" and "varlitorInterval (m_config d) = b" and "b \<noteq> 0"
    and "u64 (bh_timestamp (dv_header v)) div b = now div b" and "unat now + unat b < 2 ^ 63"
    and "SHDpos_populateFromParent d' (uint now) (dv_header v) h0 = Inr h" and "bh_extraData h \<noteq> []" and "\<not> forced_block c h"
    and "bh_author h = dv_author v"
  shows "verify_miner c b s h = Inl SE_InvalidMinner"
proof -
  obtain d1 where d1: "CheckValidator c v now d1 = (Inr True, d')" "m_config d1 = m_config d" "m_config d' = m_config d"
    using isBlockSealD [OF assms(1)] by metis
  let ?n = "length (witnesses s)" and ?t = "now div b * b"
  have fl: "unat ?t \<le> unat now" by (simp add: unat_floor)
  have plus: "unat (?t + b) = unat ?t + unat b" using fl assms(11) by (simp add: unat_word_ariths(1))
  have small: "unat (?t + b) < 2 ^ 63" "unat ?t < 2 ^ 63" using fl assms(11) plus by simp_all
  have "i64 ?t \<le> i64 (?t + b)" unfolding i64_small [OF small(1)] i64_small [OF small(2)] uint_nat plus by simp
  then have "bh_timestamp h = uint (?t + b)"
    using assms(7,9,10,12) d1(3) i64_small [OF small(1)]
    by (auto simp: SHDpos_populateFromParent_def Let_def u64_uint setTimestamp_def noteDirty_def split: if_splits)
  moreover have "unat (?t + b) div unat b = Suc (unat now div unat b)"
    using assms(9) by (simp add: plus unat_floor unat_gt_0)
  ultimately have next': "slot_index (u64 (bh_timestamp h)) b ?n = Suc (unat now div unat b) mod ?n"
    by (simp add: slot_index_def unat_div u64_uint)
  have "witnesses s ! slot_index now b ?n = dv_author v"
    using CheckValidator_witness [of v d1 c now] d1 assms(2,3,8,9) by simp
  moreover have "Suc (unat now div unat b) mod ?n \<noteq> unat now div unat b mod ?n"
    using assms(5) by (auto simp: mod_Suc)
  moreover have "Suc (unat now div unat b) mod ?n < ?n" "unat now div unat b mod ?n < ?n" using assms(5) by (intro mod_less_divisor; linarith)+
  ultimately have "witnesses s ! slot_index (u64 (bh_timestamp h)) b ?n \<noteq> dv_author v"
    using assms(4) next' by (metis nth_eq_iff_index_eq slot_index_def unat_div)
  then show ?thesis using verify_miner_witness [OF _ assms(9,6,13,14)] assms(2,15) by simp
qed

section \<open>Samples\<close>

definition seal_state :: chain_state where
  "seal_state = \<lparr>accts = [SysVarlitorAddress \<mapsto> dead_account\<lparr>m_vote_data := map (\<lambda>a. \<lparr>pd_addr = a, pd_poll = 0, pd_time = 0\<rparr>) [1, 2, 3]\<rparr>,
     SysCanlitorAddress \<mapsto> dead_account\<lparr>m_vote_data := map (\<lambda>a. \<lparr>pd_addr = a, pd_poll = 0, pd_time = 0\<rparr>) [4, 5]\<rparr>,
     SysBlockCreateRecordAddress \<mapsto> dead_account\<lparr>m_block_records := [(1, 3000), (2, 4000), (3, 5000)]\<rparr>],
     changeLog = [], accountStartNonce = 0\<rparr>"

lemma seal_state_data [simp]:
  "vote_data seal_state SysVarlitorAddress = map (\<lambda>a. \<lparr>pd_addr = a, pd_poll = 0, pd_time = 0\<rparr>) [1, 2, 3]"
  "vote_data seal_state SysCanlitorAddress = map (\<lambda>a. \<lparr>pd_addr = a, pd_poll = 0, pd_time = 0\<rparr>) [4, 5]"
  "block_record seal_state = [(1, 3000), (2, 4000), (3, 5000)]" "witnesses seal_state = [1, 2, 3]"
  by (simp_all add: vote_data_def block_record_def witnesses_def seal_state_def sys_address_defs)

definition seal_config :: SHDposConfigParams where
  "seal_config = \<lparr>epochInterval = 0, varlitorInterval = 1000, blockInterval = 1000\<rparr>"

definition seal_head :: BlockHeader where
  "seal_head = empty_header\<lparr>bh_number := 20000000, bh_timestamp := 6000, bh_author := 1, bh_hash := 9\<rparr>"

definition seal_view :: dpos_view where
  "seal_view = \<lparr>dv_preSeal = seal_state, dv_preSeal_number = 20000001, dv_author = 2, dv_header = seal_head, dv_hash = 9, dv_genesis = 8\<rparr>"

section \<open>Properties\<close>



text \<open>C18. The nodes and the chain agree on the schedule: when the node of a witness finds it its turn, the chain accepts a block of
  this turn from this witness and refuses it from every other.\<close>

theorem witness_schedule_agreed:
  assumes "fst (CheckValidator c v now d) = Inr True" and "dv_author v \<in> set (witnesses (dv_preSeal v))"
    and "interval = varlitorInterval (m_config d)" and "interval \<noteq> 0" and "length (witnesses s) < 2 ^ 31"
    and "witnesses s = witnesses (dv_preSeal v)" and "bh_author h \<in> set (witnesses s)"
    and "u64 (bh_timestamp h) div interval = now div interval" and "bh_extraData h \<noteq> []" and "\<not> forced_block c h"
  shows "verify_miner c interval s h = (if bh_author h = dv_author v then Inr () else Inl SE_InvalidMinner)"
proof -
  have "witnesses s ! slot_index now interval (length (witnesses s)) = dv_author v"
    using assms(1-4,6) CheckValidator_witness [OF assms(2), of d c now] by simp
  then show ?thesis using verify_miner_witness [OF assms(7,4,5,9,10)] slot_index_same [OF assms(8)] by auto
qed

theorem witness_schedule_agreed_witness:
  "verify_miner default_config 1000 seal_state (empty_header\<lparr>bh_author := 2, bh_timestamp := 7000, bh_extraData := [1]\<rparr>) = Inr () \<and>
   verify_miner default_config 1000 seal_state (empty_header\<lparr>bh_author := 3, bh_timestamp := 7000, bh_extraData := [1]\<rparr>) = Inl SE_InvalidMinner"
proof -
  have turn: "fst (CheckValidator default_config seal_view 7100 (emptySHDpos seal_config)) = Inr True"
    by (simp add: CheckValidator_def seal_view_def seal_config_def emptySHDpos_def slot_index_def unat_div)
  show ?thesis
    using witness_schedule_agreed [OF turn, where interval = 1000 and s = seal_state and h = "empty_header\<lparr>bh_author := 2, bh_timestamp := 7000, bh_extraData := [1]\<rparr>"]
      witness_schedule_agreed [OF turn, where interval = 1000 and s = seal_state and h = "empty_header\<lparr>bh_author := 3, bh_timestamp := 7000, bh_extraData := [1]\<rparr>"]
    by (simp add: seal_view_def seal_config_def emptySHDpos_def u64_def forced_block_def)
qed

text \<open>C16. What a witness's node seals in its turn is accepted. The node decides at the time \<open>now\<close>, after the slot of the parent and not in the last
  millisecond of a slot; it reads the clock again when it fills in the header, at \<open>now'\<close>, still in the same slot. A node that has
  the same head and whose clock is not behind \<open>now\<close> then imports the block, if it executes, and makes it its head. A turn is a
  multiple of the block interval.\<close>

theorem sealed_block_accepted:
  assumes "isBlockSeal c v now d = (Inr True, d')" and "dv_author v \<in> set (witnesses s)" and "witnesses (dv_preSeal v) = witnesses s"
    and "length (witnesses s) < 2 ^ 31" and "b = blockInterval (m_config d)" and "interval = varlitorInterval (m_config d)" and "interval \<noteq> 0"
    and "unat b dvd unat interval" and "unat now < 2 ^ 63" and "1 < now div b * b + b - now" and "dv_hash v \<noteq> dv_genesis v"
    and "0 < bh_timestamp (dv_header v)" and "bh_timestamp (dv_header v) < 2 ^ 62" and "unat b < 2 ^ 62"
    and "SHDpos_populateFromParent d' (uint now') (dv_header v) h0 = Inr h1" and "now' div b = now div b"
    and "bh_timestamp h = bh_timestamp h1" and "bh_number h = bh_number h1" and "bh_parentHash h = bh_parentHash h1"
    and "bh_author h = dv_author v" and "bh_extraData h \<noteq> []" and "\<not> forced_block c h"
    and "cv_info w = dv_header v" and "cv_hash w = bh_hash (dv_header v)" and "cv_states w (bh_hash (dv_header v)) = Some s"
    and "replaceMinerHeight c \<le> bh_number h" and "uint now \<le> clock" and "enact s h = Some s'"
  shows "execute_block c interval allow enact clock h w =
    (Inr (), w\<lparr>cv_info := h, cv_hash := bh_hash h, cv_states := (cv_states w)(bh_hash h \<mapsto> s')\<rparr>)"
proof -
  obtain d1 where d1: "SHDpos_checkDeadline v now d = (Inr True, d1)" "CheckValidator c v now d1 = (Inr True, d')" "m_config d1 = m_config d"
    "m_config d' = m_config d" using isBlockSealD [OF assms(1)] by metis
  note slot = deadline_slot [OF d1(1) assms(11), folded assms(5), OF assms(10)]
  have small: "unat (u64 (bh_timestamp (dv_header v))) < 2 ^ 62"
    using assms(12,13) by (simp add: u64_def unsigned_of_int take_bit_int_eq_self nat_less_iff)
  have "unat (u64 (bh_timestamp (dv_header v)) div b * b) \<le> unat (u64 (bh_timestamp (dv_header v)))" by (simp add: unat_floor)
  then have fits: "u64 (bh_timestamp (dv_header v)) div b * b \<le> u64 (bh_timestamp (dv_header v)) div b * b + b"
    using small assms(14) by (simp add: no_olen_add_nat)
  have b: "blockInterval (m_config d') = b" using d1(4) assms(5) by simp
  have "SHDpos_populateFromParent d' (uint now) (dv_header v) h0 = SHDpos_populateFromParent d' (uint now') (dv_header v) h0"
    by (simp only: SHDpos_populateFromParent_def u64_uint Let_def b assms(16))
  then have "SHDpos_populateFromParent d' (uint now) (dv_header v) h0 = Inr h1" using assms(15) by (rule trans)
  note time = block_time_current [OF b slot(2) assms(9) slot(1) fits this]
  have h: "bh_timestamp h = uint (now div b * b)" "bh_parentHash h = bh_hash (dv_header v)" "bh_number h = bh_number (dv_header v) + 1"
    by (simp_all only: assms(17-19) time)
  have "witnesses s ! slot_index now interval (length (witnesses s)) = dv_author v"
    using CheckValidator_witness [of v d1 c now] d1 assms(2,3,6,7) by simp
  then have "verify_miner c interval s h = Inr ()"
    using verify_miner_witness [of h s interval c] assms(2,4,7,20-22) floor_same_turn [OF assms(8), of now] by (simp add: h u64_uint)
  then have best: "verifyReplaceMiner c interval w h = Inr True" using assms(23-26) by (simp add: verifyReplaceMiner_def Let_def h)
  have "uint (now div b * b) \<le> uint now" unfolding uint_nat of_nat_le_iff by (simp add: unat_floor)
  then have "checkBlockTimestamp allow clock h = Inr ()" using assms(27) by (simp add: checkBlockTimestamp_def h)
  with best show ?thesis
    using assms(23,25,28) by (simp add: execute_block_def h(2) insertBlockAndExtras_def becomes_head_def h(3) Let_def)
qed

theorem sealed_block_accepted_witness:
  "\<exists>h1 h. SHDpos_populateFromParent (emptySHDpos seal_config) 7350 seal_head empty_header = Inr h1 \<and>
    h = setExtraData [1] (setAuthor 2 h1) \<and>
    execute_block default_config 1000 False (\<lambda>s _. Some s) 7200 h \<lparr>cv_info = seal_head, cv_hash = 9, cv_states = [9 \<mapsto> seal_state]\<rparr> =
      (Inr (), \<lparr>cv_info = h, cv_hash = bh_hash h, cv_states = [9 \<mapsto> seal_state, bh_hash h \<mapsto> seal_state]\<rparr>)"
proof -
  define d' where "d' = snd (isBlockSeal default_config seal_view 7100 (emptySHDpos seal_config))"
  have u: "u64 (bh_timestamp seal_head) = 6000" by (simp add: u64_def seal_head_def)
  have run: "isBlockSeal default_config seal_view 7100 (emptySHDpos seal_config) = (Inr True, d')"
  proof -
    have "bh_timestamp seal_head = 6000" by (simp add: seal_head_def)
    then have "SHDpos_checkDeadline seal_view 7100 (emptySHDpos seal_config) =
        (Inr True, \<lparr>m_curr_varlitors = [], m_next_block_time = 8000, m_last_block_time = 6000, m_config = seal_config\<rparr>)"
      by (simp add: SHDpos_checkDeadline_def seal_view_def seal_config_def emptySHDpos_def in_int64_def u64_def i64_def Let_def)
    then show ?thesis
      by (simp add: d'_def isBlockSeal_def CheckValidator_def seal_view_def seal_config_def slot_index_def unat_div Let_def)
  qed
  then have config: "m_config d' = seal_config" using isBlockSealD [OF run] by (metis SHDpos.select_convs(4) emptySHDpos_def)
  obtain h1 where h1: "SHDpos_populateFromParent d' 7350 seal_head empty_header = Inr h1"
    "SHDpos_populateFromParent (emptySHDpos seal_config) 7350 seal_head empty_header = Inr h1" "bh_number h1 = 20000001"
    by (simp add: SHDpos_populateFromParent_def config emptySHDpos_def seal_config_def setTimestamp_def noteDirty_def populateFromParent_def Let_def)
      (simp add: seal_head_def)
  let ?h = "setExtraData [1] (setAuthor 2 h1)" and ?w = "\<lparr>cv_info = seal_head, cv_hash = 9, cv_states = [9 \<mapsto> seal_state]\<rparr>"
  have h: "bh_number ?h = 20000001" "bh_extraData ?h = [1]" using h1(3) by (simp_all add: setExtraData_def setAuthor_def noteDirty_def)
  have head: "bh_timestamp seal_head = 6000" "bh_hash seal_head = 9" by (simp_all add: seal_head_def)
  have high: "replaceMinerHeight default_config \<le> bh_number ?h" by (simp add: h replaceMinerHeight_def default_config_def MAINCHAINID_def)
  have plain: "\<not> forced_block default_config ?h" by (simp add: forced_block_def h)
  have "execute_block default_config 1000 False (\<lambda>s _. Some s) 7200 ?h ?w =
      (Inr (), ?w\<lparr>cv_info := ?h, cv_hash := bh_hash ?h, cv_states := (cv_states ?w)(bh_hash ?h \<mapsto> seal_state)\<rparr>)"
    by (rule sealed_block_accepted [OF run, where s = seal_state and b = 1000 and ?h1.0 = h1 and now' = 7350])
      (use h1(1) plain high head in \<open>simp_all add: seal_view_def seal_config_def emptySHDpos_def setExtraData_def setAuthor_def noteDirty_def\<close>)
  then show ?thesis using h1(2) by auto
qed

text \<open>C19. A standby node may seal only in place of a witness that has not sealed for more than the minimum number of rounds, only when it
  is registered, and at most once in a round.\<close>

theorem standby_waits_for_witness:
  assumes "verify_standby c s block_time addr interval fork = Inr True" and "\<forall>t\<in>snd ` set (block_record s). 0 \<le> t \<and> t \<le> block_time"
    and "block_time < 2 ^ 62" and "uint interval * uint (varlitor_num c) < 2 ^ 62" and "length (witnesses s) < 2 ^ 32"
  defines "offset \<equiv> slot_index (u64 block_time) interval (length (witnesses s))"
  shows "addr \<in> pd_addr ` set (vote_data s SysCanlitorAddress) \<and>
    (\<exists>t. om_find (block_record s) (changed_miners s fork offset ! offset) = Some t \<and>
       uint (min_cycel c) < (block_time - t) div (uint interval * uint (varlitor_num c))) \<and>
    (\<forall>t. om_find (block_record s) (snd (changed_standby s fork addr)) = Some t \<longrightarrow>
       t + uint interval * uint (varlitor_num c) \<le> block_time)"
proof -
  let ?round = "interval * ucast (varlitor_num c) :: 64 word"
  note ok = verify_standby_true [OF assms(1)]
  have off: "slot_index (u64 block_time) interval (length (witnesses s)) mod 2 ^ 32 = offset"
    using slot_index_less [of "length (witnesses s)" "u64 block_time" interval] ok(1) assms(5) by (simp add: offset_def)
  have rec: "0 \<le> t \<and> t \<le> block_time" if "om_find (block_record s) a = Some t" for a t
    using assms(2) map_of_SomeD [OF that] by force
  obtain t where t: "om_find (block_record s) (changed_miners s fork offset ! offset) = Some t"
    "unat (min_cycel c) < unat (u64 (block_time - t) div ?round)" using ok(6) unfolding off by blast
  have "uint (u64 (block_time - t)) = block_time - t" using rec [OF t(1)] assms(3) by (intro uint_u64) simp_all
  then have "uint (u64 (block_time - t) div ?round) = (block_time - t) div (uint interval * uint (varlitor_num c))"
    by (simp add: uint_div uint_round [OF assms(4)])
  moreover have "uint (min_cycel c) < uint (u64 (block_time - t) div ?round)" using t(2) by (simp only: uint_nat of_nat_less_iff)
  ultimately have "uint (min_cycel c) < (block_time - t) div (uint interval * uint (varlitor_num c))" by simp
  moreover have "t' + uint interval * uint (varlitor_num c) \<le> block_time"
    if "om_find (block_record s) (snd (changed_standby s fork addr)) = Some t'" for t'
    using sealed_lately_int [OF that _ _ assms(3) _ ok(5)] rec [OF that] assms(4) by (simp add: uint_round)
  ultimately show ?thesis using t(1) ok(4) by blast
qed

theorem standby_waits_for_witness_witness:
  "\<exists>t. om_find (block_record seal_state) (changed_miners seal_state False 0 ! 0) = Some t \<and> 3 < (99000 - t) div 21000"
proof -
  have run: "verify_standby default_config seal_state 99000 4 1000 False = Inr True"
    by (simp add: verify_standby_def default_config_def slot_index_def u64_def to_int_def in_int64_def unat_div changed_miners_def
        changed_standby_def sealed_lately_def Let_def)
  have slot: "slot_index (u64 99000) 1000 (length (witnesses seal_state)) = 0" by (simp add: slot_index_def u64_def unat_div)
  have "\<exists>t. om_find (block_record seal_state) (changed_miners seal_state False 0 ! 0) = Some t \<and>
      uint (min_cycel default_config) < (99000 - t) div (uint (1000 :: 64 word) * uint (varlitor_num default_config))"
    using standby_waits_for_witness [OF run, unfolded slot] by (simp add: default_config_def del: map_of.simps)
  then show ?thesis by (simp add: default_config_def del: map_of.simps)
qed




end
