(* ===== verification/Transactions.thy ===== *)
theory Transactions
  imports Executive Headers
begin

text \<open>
  libbrccore/TransactionBase: a transaction with its signature, its RLP form, its hash and its sender. The hash function, the
  recovery of a public key and the signature function of a secret are parameters. \<open>tx_view\<close> is what the executive gets to
  see of a transaction.
\<close>

section \<open>Data\<close>

datatype IncludeSignature = WithoutSignature | WithSignature

datatype CheckTransaction = CheckNone | CheckCheap | CheckSigEverything

datatype tb_type = TB_NullTransaction | TB_ContractCreation | TB_MessageCall | TB_VoteMassage

record SignatureStruct =
  sig_r :: h256
  sig_s :: h256
  sig_v :: byte

record TransactionBase =
  tb_type :: tb_type
  tb_nonce :: u256
  tb_value :: u256
  tb_receiveAddress :: address
  tb_gasPrice :: u256
  tb_gas :: u256
  tb_data :: bytes
  tb_vrs :: "SignatureStruct option"
  tb_chainId :: int
  tb_hashWith :: h256
  tb_sender :: address

datatype tx_error = TX_rlp rlp_error | TX_TransactionIsUnsigned | TX_InvalidSignature | TX_InvalidTransactionFormat | TX_overflow

type_synonym 'a tx_monad = "(TransactionBase, tx_error, 'a) emonad"

definition tx_lift :: "rlp_error + 'a \<Rightarrow> tx_error + 'a" where
  "tx_lift r = (case r of Inl e \<Rightarrow> Inl (TX_rlp e) | Inr x \<Rightarrow> Inr x)"

definition null_transaction :: TransactionBase where
  "null_transaction = \<lparr>tb_type = TB_NullTransaction, tb_nonce = 0, tb_value = 0, tb_receiveAddress = 0, tb_gasPrice = 0, tb_gas = 0,
     tb_data = [], tb_vrs = None, tb_chainId = 1, tb_hashWith = 0, tb_sender = 0\<rparr>"

definition c_secp256k1n :: u256 where
  "c_secp256k1n = 115792089237316195423570985008687907852837564279074904382605163141518161494337"

definition sig_isValid :: "SignatureStruct \<Rightarrow> bool" where
  "sig_isValid g \<longleftrightarrow> sig_v g \<le> 1 \<and> sig_r g > 0 \<and> sig_s g > 0 \<and> sig_r g < c_secp256k1n \<and> sig_s g < c_secp256k1n"

definition isZeroSignature :: "u256 \<Rightarrow> u256 \<Rightarrow> bool" where
  "isZeroSignature r s \<longleftrightarrow> r = 0 \<and> s = 0"

definition hasZeroSignature :: "TransactionBase \<Rightarrow> bool" where
  "hasZeroSignature t = (case tb_vrs t of None \<Rightarrow> False | Some g \<Rightarrow> isZeroSignature (sig_r g) (sig_s g))"

text \<open>\<^verbatim>\<open>clearSignature\<close> leaves an empty signature, not none.\<close>

definition tx_setNonce :: "u256 \<Rightarrow> TransactionBase \<Rightarrow> TransactionBase" where
  "tx_setNonce n t = t\<lparr>tb_vrs := Some \<lparr>sig_r = 0, sig_s = 0, sig_v = 0\<rparr>, tb_nonce := n\<rparr>"

definition forceSender :: "address \<Rightarrow> TransactionBase \<Rightarrow> TransactionBase" where
  "forceSender a t = t\<lparr>tb_sender := a\<rparr>"

section \<open>Writing\<close>

text \<open>An \<^verbatim>\<open>int\<close> goes through \<^verbatim>\<open>append(unsigned)\<close>.\<close>

definition append_int :: "int \<Rightarrow> writer" where
  "append_int i = append_word (of_int i :: 32 word)"

definition in_int32 :: "int \<Rightarrow> bool" where
  "in_int32 i \<longleftrightarrow> - (2 ^ 31) \<le> i \<and> i < 2 ^ 31"

definition tx_fields :: "TransactionBase \<Rightarrow> writer list" where
  "tx_fields t = [append_word (tb_nonce t), append_word (tb_gasPrice t), append_word (tb_gas t),
     if tb_type t \<in> {TB_MessageCall, TB_VoteMassage} then append_hash 20 (tb_receiveAddress t) else append_bytes [] False,
     append_word (tb_value t), append_bytes (tb_data t) False]"

definition signature_fields :: "TransactionBase \<Rightarrow> IncludeSignature \<Rightarrow> bool \<Rightarrow> tx_error + writer list" where
  "signature_fields t sig forEip155hash =
     (if sig = WithSignature then
        case tb_vrs t of None \<Rightarrow> Inl TX_TransactionIsUnsigned
        | Some g \<Rightarrow>
          if hasZeroSignature t then Inr [append_int (tb_chainId t), append_word (sig_r g), append_word (sig_s g)]
          else let vOffset = tb_chainId t * 2 + 35 + uint (sig_v g) in
            if \<not> in_int32 (tb_chainId t * 2) \<or> \<not> in_int32 (tb_chainId t * 2 + 35) \<or> \<not> in_int32 vOffset then Inl TX_overflow
            else Inr [append_int vOffset, append_word (sig_r g), append_word (sig_s g)]
      else if forEip155hash then Inr [append_int (tb_chainId t), append_int 0, append_int 0]
      else Inr [])"

definition tx_streamRLP :: "TransactionBase \<Rightarrow> IncludeSignature \<Rightarrow> bool \<Rightarrow> RLPStream \<Rightarrow> tx_error + RLPStream" where
  "tx_streamRLP t sig forEip155hash st =
     (if tb_type t = TB_NullTransaction then Inr st
      else sbind (tx_lift (appendList ((if sig = WithSignature \<or> forEip155hash then 3 else 0) + 6) st)) (\<lambda>st.
        sbind (tx_lift (write_all (tx_fields t) st)) (\<lambda>st.
        sbind (signature_fields t sig forEip155hash) (\<lambda>ws. tx_lift (write_all ws st)))))"

definition tx_rlp :: "TransactionBase \<Rightarrow> IncludeSignature \<Rightarrow> bool \<Rightarrow> tx_error + bytes" where
  "tx_rlp t sig forEip155hash = sbind (tx_streamRLP t sig forEip155hash empty_stream) (\<lambda>st. tx_lift (stream_out st))"

definition tx_sha3 :: "(bytes \<Rightarrow> h256) \<Rightarrow> IncludeSignature \<Rightarrow> h256 tx_monad" where
  "tx_sha3 sha3 sig = (\<lambda>t.
     if sig = WithSignature \<and> tb_hashWith t \<noteq> 0 then (Inr (tb_hashWith t), t)
     else case tx_rlp t sig (tb_chainId t > 0 \<and> sig = WithoutSignature) of
         Inl e \<Rightarrow> (Inl e, t)
       | Inr b \<Rightarrow> (Inr (sha3 b), if sig = WithSignature then t\<lparr>tb_hashWith := sha3 b\<rparr> else t))"

section \<open>Signing\<close>

definition tx_sender :: "(bytes \<Rightarrow> h256) \<Rightarrow> (SignatureStruct \<Rightarrow> h256 \<Rightarrow> 512 word) \<Rightarrow> address tx_monad" where
  "tx_sender sha3 recover = (\<lambda>t.
     if tb_sender t \<noteq> 0 then (Inr (tb_sender t), t)
     else if hasZeroSignature t then (Inr MaxAddress, t\<lparr>tb_sender := MaxAddress\<rparr>)
     else case tb_vrs t of None \<Rightarrow> (Inl TX_TransactionIsUnsigned, t)
       | Some g \<Rightarrow> ebind (tx_sha3 sha3 WithoutSignature) (\<lambda>h t.
           let p = recover g h in
           if p = 0 then (Inl TX_InvalidSignature, t)
           else (Inr (public_address sha3 p), t\<lparr>tb_sender := public_address sha3 p\<rparr>)) t)"

definition safeSender :: "(bytes \<Rightarrow> h256) \<Rightarrow> (SignatureStruct \<Rightarrow> h256 \<Rightarrow> 512 word) \<Rightarrow> TransactionBase \<Rightarrow> address" where
  "safeSender sha3 recover t = (case fst (tx_sender sha3 recover t) of Inl _ \<Rightarrow> 0 | Inr a \<Rightarrow> a)"

definition tx_sign :: "(bytes \<Rightarrow> h256) \<Rightarrow> (h256 \<Rightarrow> SignatureStruct) \<Rightarrow> unit tx_monad" where
  "tx_sign sha3 sign = ebind (tx_sha3 sha3 WithoutSignature) (\<lambda>h.
     emodify (\<lambda>t. if sig_isValid (sign h) then t\<lparr>tb_vrs := Some (sign h)\<rparr> else t))"

definition checkLowS :: "TransactionBase \<Rightarrow> tx_error + unit" where
  "checkLowS t = (case tb_vrs t of None \<Rightarrow> Inl TX_TransactionIsUnsigned
     | Some g \<Rightarrow> if sig_s g > c_secp256k1n div 2 then Inl TX_InvalidSignature else Inr ())"

definition checkChainId :: "int \<Rightarrow> TransactionBase \<Rightarrow> tx_error + unit" where
  "checkChainId i t = (if tb_chainId t \<noteq> i then Inl TX_InvalidSignature else Inr ())"

section \<open>Reading\<close>

text \<open>\<^verbatim>\<open>rlp[i]\<close> and then a conversion, as in \<open>with_field\<close>, with the errors of a transaction.\<close>

definition tx_field :: "nat \<Rightarrow> (bytes \<Rightarrow> tx_error + 'a) \<Rightarrow> rlp_node \<Rightarrow> ('a \<Rightarrow> rlp_node \<Rightarrow> tx_error + 'b) \<Rightarrow> tx_error + 'b" where
  "tx_field i conv nd k = sbind (tx_lift (subscript i nd)) (\<lambda>(d, nd). sbind (conv d) (\<lambda>x. k x nd))"

definition to_int32 :: "bytes \<Rightarrow> tx_error + int" where
  "to_int32 d = sbind (tx_lift (toInt Strict d)) (\<lambda>w :: 32 word. Inr (sint w))"

definition to_u256 :: "bytes \<Rightarrow> tx_error + u256" where
  "to_u256 d = tx_lift (toInt Strict d)"

text \<open>Field 3: the kind of the transaction with its receiver.\<close>

definition receiver_of :: "bytes \<Rightarrow> tx_error + tb_type \<times> address" where
  "receiver_of d = (if rlp_isEmpty d then Inr (TB_ContractCreation, 0)
     else sbind (tx_lift (toHash VeryStrict d)) (\<lambda>a. Inr (if a = VoteAddress then TB_VoteMassage else TB_MessageCall, a)))"

definition data_of :: "bytes \<Rightarrow> tx_error + bytes" where
  "data_of d = (if \<not> isData d then Inl TX_InvalidTransactionFormat else tx_lift (toBytes LaissezFaire d))"

text \<open>Fields 6 to 8: the chain and the signature.\<close>

definition signature_of :: "CheckTransaction \<Rightarrow> int \<Rightarrow> u256 \<Rightarrow> u256 \<Rightarrow> tx_error + int \<times> SignatureStruct" where
  "signature_of checkSig v r s =
     (if isZeroSignature r s then Inr (v, \<lparr>sig_r = r, sig_s = s, sig_v = 0\<rparr>)
      else if v < 35 then Inl TX_InvalidSignature
      else let chainId = (if v > 36 then (v - 35) div 2 else 0);
               g = \<lparr>sig_r = r, sig_s = s, sig_v = of_int (v - (chainId * 2 + 35))\<rparr> in
        if checkSig \<noteq> CheckNone \<and> \<not> sig_isValid g then Inl TX_InvalidSignature else Inr (chainId, g))"

definition read_transaction :: "(bytes \<Rightarrow> h256) \<Rightarrow> (SignatureStruct \<Rightarrow> h256 \<Rightarrow> 512 word) \<Rightarrow> CheckTransaction \<Rightarrow> bytes \<Rightarrow> tx_error + TransactionBase" where
  "read_transaction sha3 recover checkSig b =
     sbind (tx_lift (RLP_node VeryStrict b)) (\<lambda>rlp.
     if \<not> isList rlp then Inl TX_InvalidTransactionFormat else
     tx_field 0 to_u256 (fresh_node rlp) (\<lambda>nonce nd.
     tx_field 1 to_u256 nd (\<lambda>gasPrice nd.
     tx_field 2 to_u256 nd (\<lambda>gas nd.
     tx_field 3 receiver_of nd (\<lambda>(type, receiver) nd.
     tx_field 4 to_u256 nd (\<lambda>value nd.
     tx_field 5 data_of nd (\<lambda>data nd.
     tx_field 6 to_int32 nd (\<lambda>v nd.
     tx_field 7 to_u256 nd (\<lambda>r nd.
     tx_field 8 to_u256 nd (\<lambda>s nd.
     sbind (signature_of checkSig v r s) (\<lambda>(chainId, g).
     let t = \<lparr>tb_type = type, tb_nonce = nonce, tb_value = value, tb_receiveAddress = receiver, tb_gasPrice = gasPrice, tb_gas = gas,
       tb_data = data, tb_vrs = Some g, tb_chainId = chainId, tb_hashWith = 0, tb_sender = 0\<rparr> in
     sbind (if checkSig = CheckSigEverything then
              case tx_sender sha3 recover t of (Inl e, t) \<Rightarrow> Inl e | (Inr _, t) \<Rightarrow> Inr t
            else Inr t) (\<lambda>t.
     sbind (tx_lift (itemCount rlp)) (\<lambda>n. if n > 9 then Inl TX_InvalidTransactionFormat else Inr t)))))))))))))"

section \<open>The executive's view\<close>

definition tx_view :: "(bytes \<Rightarrow> h256) \<Rightarrow> (SignatureStruct \<Rightarrow> h256 \<Rightarrow> 512 word) \<Rightarrow> TransactionBase \<Rightarrow> tx_error + transaction" where
  "tx_view sha3 recover t =
     sbind (fst (tx_sender sha3 recover t)) (\<lambda>sender.
     sbind (fst (tx_sha3 sha3 WithSignature t)) (\<lambda>hash.
     sbind (fst (tx_sha3 sha3 WithoutSignature t)) (\<lambda>unsigned.
       Inr \<lparr>t_kind = (case tb_type t of TB_NullTransaction \<Rightarrow> NullTransaction | TB_ContractCreation \<Rightarrow> ContractCreation | _ \<Rightarrow> MessageCall),
         t_sender = sender, t_nonce = tb_nonce t, t_gas = tb_gas t, t_gasPrice = tb_gasPrice t, t_value = tb_value t,
         t_receiveAddress = tb_receiveAddress t, t_data = tb_data t, t_chainId = tb_chainId t, t_hasSignature = (tb_vrs t \<noteq> None),
         t_hasZeroSignature = hasZeroSignature t, t_lowS = (checkLowS t = Inr ()), t_sha3 = hash, t_sha3_unsigned = unsigned\<rparr>)))"

end
