(* ===== verification/TransactionLaws.thy ===== *)
theory TransactionLaws
  imports Transactions HeaderLaws
begin

text \<open>
  The laws of transactions: a signed transaction is read back by every node as it was written, with the address of its signer
  as the sender.
\<close>

declare encode.simps [simp del]

section \<open>The items of a transaction\<close>

definition tx_items :: "TransactionBase \<Rightarrow> rlp_item list" where
  "tx_items t = [word_item (tb_nonce t), word_item (tb_gasPrice t), word_item (tb_gas t),
     if tb_type t \<in> {TB_MessageCall, TB_VoteMassage} then address_item (tb_receiveAddress t) else RData [],
     word_item (tb_value t), RData (tb_data t)]"

definition signed_items :: "TransactionBase \<Rightarrow> SignatureStruct \<Rightarrow> rlp_item list" where
  "signed_items t g = tx_items t @ [RData (toCompactBigEndian (nat (tb_chainId t * 2 + 35 + uint (sig_v g)))), word_item (sig_r g), word_item (sig_s g)]"

definition chain_items :: "TransactionBase \<Rightarrow> rlp_item list" where
  "chain_items t = tx_items t @ (if tb_chainId t > 0
     then [RData (toCompactBigEndian (nat (tb_chainId t))), RData (toCompactBigEndian 0), RData (toCompactBigEndian 0)] else [])"

text \<open>Transactions as the constructors leave them, with a chain whose number fits, and data of a size that fits.\<close>

definition tx_ok :: "TransactionBase \<Rightarrow> bool" where
  "tx_ok t \<longleftrightarrow> tb_type t \<noteq> TB_NullTransaction \<and> 0 \<le> tb_chainId t \<and> tb_chainId t * 2 + 36 < 2 ^ 31 \<and> length (tb_data t) < 2 ^ 32 \<and>
     (tb_type t = TB_ContractCreation \<longrightarrow> tb_receiveAddress t = 0) \<and>
     (tb_type t = TB_MessageCall \<longrightarrow> tb_receiveAddress t \<noteq> VoteAddress) \<and> (tb_type t = TB_VoteMassage \<longrightarrow> tb_receiveAddress t = VoteAddress)"

lemma length_encode_word: "length (encode (word_item w)) \<le> 41"
proof -
  have "unat w < 2 ^ 256" using unsigned_less [of w] by simp
  then show ?thesis using compact_length_le [of "unat w"] length_encode_data [of "toCompactBigEndian (unat w)"] by simp
qed

lemma length_encode_compact: "n < 2 ^ 256 \<Longrightarrow> length (encode (RData (toCompactBigEndian n))) \<le> 41"
  using compact_length_le [of n] length_encode_data [of "toCompactBigEndian n"] by simp

lemma tx_items_fit:
  assumes "tx_ok t" and "\<forall>u\<in>set us. length (encode u) \<le> 41" and "length us \<le> 3"
  shows "rlp_fits (RList (tx_items t @ us))"
proof -
  have us: "length (concat (map encode us)) \<le> 41 * length us"
    using assms(2) by (induction us) auto
  have data: "length (encode (RData (tb_data t))) \<le> length (tb_data t) + 9"
    using assms(1) by (intro length_encode_data) (simp add: tx_ok_def)
  have a: "length (encode (address_item x)) \<le> 29" for x using length_encode_hash [of 20 x] by simp
  have e: "length (encode (RData [])) = 1" by (simp add: encode.simps header_def)
  have "length (concat (map encode (tx_items t))) \<le> 300 + length (tb_data t)"
    using data e a [of "tb_receiveAddress t"] length_encode_word [of "tb_nonce t"] length_encode_word [of "tb_gasPrice t"]
      length_encode_word [of "tb_gas t"] length_encode_word [of "tb_value t"]
    by (auto simp: tx_items_def)
  then show ?thesis using us assms(1,3) by (intro rlp_fits_bound) (simp add: tx_ok_def)
qed

lemma word32_nat: "0 \<le> i \<Longrightarrow> i < 2 ^ 31 \<Longrightarrow> unat (of_int i :: 32 word) = nat i \<and> sint (of_int i :: 32 word) = i"
proof -
  assume b: "0 \<le> i" "i < 2 ^ 31"
  then have u: "uint (of_int i :: 32 word) = i" by (simp add: unsigned_of_int take_bit_int_eq_self)
  then have "sint (of_int i :: 32 word) = i" using b by (simp add: sint_uint signed_take_bit_int_eq_self)
  moreover have "unat (of_int i :: 32 word) = nat i" using u by (metis nat_uint_eq)
  ultimately show ?thesis by simp
qed

lemma append_int_item: "0 \<le> i \<Longrightarrow> i < 2 ^ 31 \<Longrightarrow> append_int i = append_item (RData (toCompactBigEndian (nat i)))"
  using word32_nat [of i] by (simp add: append_int_def append_word_item del: append_item.simps)

lemma tx_fields_write: "tx_fields t = map append_item (tx_items t)"
  by (auto simp: tx_fields_def tx_items_def append_word_item append_hash_item append_bytes_item simp del: append_item.simps)

lemma tx_write:
  assumes "tb_type t \<noteq> TB_NullTransaction" and "signature_fields t sig eip = Inr (map append_item us)" and "rlp_fits (RList (tx_items t @ us))"
    and "length us = (if sig = WithSignature \<or> eip then 3 else 0)"
  shows "tx_rlp t sig eip = Inr (encode (RList (tx_items t @ us)))"
proof -
  have lift: "sbind (tx_lift r) (\<lambda>x. tx_lift (f x)) = tx_lift (sbind r f)" for r and f :: "RLPStream \<Rightarrow> rlp_error + 'a"
    by (cases r) (simp_all add: tx_lift_def)
  have n: "(if sig = WithSignature \<or> eip then 3 else 0) + 6 = length (tx_items t @ us)" using assms(4) by (simp add: tx_items_def)
  have "tx_rlp t sig eip = tx_lift (stream_of (length (tx_items t @ us)) (map append_item (tx_items t @ us)))"
    using assms(1,2) unfolding tx_rlp_def tx_streamRLP_def n
    by (simp add: tx_fields_write lift sbind_assoc stream_of_def write_all_append del: append_item.simps)
  then show ?thesis using stream_of_items [OF assms(3) refl] by (simp add: tx_lift_def)
qed

lemma signed_items_fit: "tx_ok t \<Longrightarrow> sig_isValid g \<Longrightarrow> rlp_fits (RList (signed_items t g))"
proof -
  assume t: "tx_ok t" and g: "sig_isValid g"
  have "uint (sig_v g) \<le> 1" using g by (simp add: sig_isValid_def word_le_def)
  then have "nat (tb_chainId t * 2 + 35 + uint (sig_v g)) < 2 ^ 256" using t by (simp add: tx_ok_def nat_less_iff)
  then show ?thesis
    unfolding signed_items_def using length_encode_compact length_encode_word by (intro tx_items_fit [OF t]) auto
qed

lemma signed_write:
  assumes "tx_ok t" and "tb_vrs t = Some g" and "sig_isValid g"
  shows "tx_rlp t WithSignature False = Inr (encode (RList (signed_items t g)))"
proof -
  have v: "0 \<le> uint (sig_v g)" "uint (sig_v g) \<le> 1" using assms(3) by (simp_all add: sig_isValid_def word_le_def)
  have b: "0 \<le> tb_chainId t * 2 + 35 + uint (sig_v g)" "tb_chainId t * 2 + 35 + uint (sig_v g) < 2 ^ 31"
    using assms(1) v by (simp_all add: tx_ok_def)
  have "\<not> hasZeroSignature t" using assms(2,3) by (auto simp: hasZeroSignature_def isZeroSignature_def sig_isValid_def)
  then have "signature_fields t WithSignature False = Inr (map append_item
      [RData (toCompactBigEndian (nat (tb_chainId t * 2 + 35 + uint (sig_v g)))), word_item (sig_r g), word_item (sig_s g)])"
    using assms(1,2) b append_int_item [OF b]
    by (simp add: signature_fields_def in_int32_def tx_ok_def append_word_item Let_def del: append_item.simps)
  from tx_write [OF _ this] signed_items_fit [OF assms(1,3)] assms(1) show ?thesis by (simp add: signed_items_def tx_ok_def)
qed

lemma chain_write:
  assumes "tx_ok t"
  shows "tx_rlp t WithoutSignature (tb_chainId t > 0) = Inr (encode (RList (chain_items t)))"
proof (cases "tb_chainId t > 0")
  case True
  let ?us = "[RData (toCompactBigEndian (nat (tb_chainId t))), RData (toCompactBigEndian 0), RData (toCompactBigEndian 0)]"
  have "append_int (tb_chainId t) = append_item (RData (toCompactBigEndian (nat (tb_chainId t))))"
    using assms by (intro append_int_item) (simp_all add: tx_ok_def)
  moreover have "append_int 0 = append_item (RData (toCompactBigEndian 0))" using append_int_item [of 0] by simp
  ultimately have "signature_fields t WithoutSignature True = Inr (map append_item ?us)"
    by (simp add: signature_fields_def del: append_item.simps)
  moreover have "nat (tb_chainId t) < 2 ^ 256" using assms by (simp add: tx_ok_def nat_less_iff)
  then have "rlp_fits (RList (tx_items t @ ?us))" using length_encode_compact by (intro tx_items_fit [OF assms]) auto
  ultimately show ?thesis using tx_write [of t WithoutSignature True ?us] assms True by (simp add: chain_items_def tx_ok_def)
next
  case False
  then show ?thesis using tx_write [of t WithoutSignature False "[]"] tx_items_fit [OF assms, of "[]"] assms
    by (simp add: chain_items_def tx_ok_def signature_fields_def)
qed

section \<open>Reading\<close>

lemma tx_lift_Inr [simp]: "tx_lift (Inr x) = Inr x"
  by (simp add: tx_lift_def)

lemma tx_field_encode:
  assumes "cache_ok ts nd" and "rlp_fits (RList ts)" and "i < length ts" and "conv (encode (ts ! i)) = Inr x"
    and "\<And>nd'. cache_ok ts nd' \<Longrightarrow> k x nd' = r"
  shows "tx_field i conv nd k = r"
proof -
  obtain nd' where "subscript i nd = Inr (encode (ts ! i), nd')" "cache_ok ts nd'"
    using subscript_cache_ok [OF assms(1,3,2)] by blast
  with assms(4,5) show ?thesis by (simp add: tx_field_def tx_lift_def)
qed

lemma to_u256_encode: "to_u256 (encode (word_item w)) = Inr w"
  by (simp add: to_u256_def tx_lift_def toInt_encode)

lemma to_int32_encode:
  assumes "0 \<le> i" and "i < 2 ^ 31"
  shows "to_int32 (encode (RData (toCompactBigEndian (nat i)))) = Inr i"
  using word32_nat [OF assms] toInt_encode [of Strict "of_int i :: 32 word"] by (simp add: to_int32_def tx_lift_def)

lemma rlp_isEmpty_encode:
  "rlp_isEmpty (encode (RData []))" "\<not> rlp_isEmpty (encode (address_item a))"
proof -
  have "encode (address_item a) = 0x94 # toBigEndian 20 (unat a)" by (simp add: encode.simps header_def)
  then show "\<not> rlp_isEmpty (encode (address_item a))" by (simp add: rlp_isEmpty_def isNull_def rlp_consts)
  show "rlp_isEmpty (encode (RData []))" by (simp add: rlp_isEmpty_def isNull_def rlp_consts encode.simps header_def)
qed

lemma receiver_of_encode:
  assumes "tx_ok t"
  shows "receiver_of (encode (tx_items t ! 3)) = Inr (tb_type t, tb_receiveAddress t)"
  using assms rlp_isEmpty_encode
  by (cases "tb_type t") (simp_all add: tx_ok_def tx_items_def receiver_of_def tx_lift_def toHash_encode)

lemma data_of_encode: "rlp_fits (RData b) \<Longrightarrow> data_of (encode (RData b)) = Inr b"
  using read_data(1) [of b "[]"] by (simp add: data_of_def tx_lift_def toBytes_encode)

lemma signature_of_written:
  assumes "sig_isValid g" and "0 \<le> c" and "v = c * 2 + 35 + uint (sig_v g)"
  shows "signature_of checkSig v (sig_r g) (sig_s g) = Inr (c, g)"
proof -
  have b: "0 \<le> uint (sig_v g)" "uint (sig_v g) \<le> 1" using assms(1) by (simp_all add: sig_isValid_def word_le_def)
  have chain: "(if v > 36 then (v - 35) div 2 else 0) = c"
  proof (cases "v > 36")
    case True
    then show ?thesis using assms(2,3) b by simp
  next
    case False
    then have "c * 2 + 35 \<le> 36" using assms(3) b(1) by linarith
    then show ?thesis using assms(2) False by simp
  qed
  have "\<not> isZeroSignature (sig_r g) (sig_s g)" using assms(1) by (auto simp: isZeroSignature_def sig_isValid_def)
  moreover have "\<not> v < 35" using assms(2,3) b by linarith
  moreover have "\<lparr>sig_r = sig_r g, sig_s = sig_s g, sig_v = of_int (v - (c * 2 + 35))\<rparr> = g" using assms(3) by simp
  ultimately show ?thesis using assms(1) unfolding signature_of_def Let_def chain by simp
qed

lemma read_signed:
  assumes "tx_ok t" and "tb_vrs t = Some g" and "sig_isValid g"
  shows "read_transaction sha3 recover checkSig (encode (RList (signed_items t g))) =
    (if checkSig = CheckSigEverything then
       case tx_sender sha3 recover (t\<lparr>tb_hashWith := 0, tb_sender := 0\<rparr>) of (Inl e, _) \<Rightarrow> Inl e | (Inr _, t') \<Rightarrow> Inr t'
     else Inr (t\<lparr>tb_hashWith := 0, tb_sender := 0\<rparr>))"
proof -
  let ?ts = "signed_items t g"
  note f = signed_items_fit [OF assms(1,3)]
  have v: "0 \<le> uint (sig_v g)" "uint (sig_v g) \<le> 1" using assms(3) by (simp_all add: sig_isValid_def word_le_def)
  have b: "0 \<le> tb_chainId t * 2 + 35 + uint (sig_v g)" "tb_chainId t * 2 + 35 + uint (sig_v g) < 2 ^ 31" "0 \<le> tb_chainId t"
    using assms(1) v by (simp_all add: tx_ok_def)
  have data: "rlp_fits (RData (tb_data t))" using rlp_fits_item [OF f] by (simp add: signed_items_def tx_items_def)
  have len: "length ?ts = 9" by (simp add: signed_items_def tx_items_def)
  have nth: "?ts ! 0 = word_item (tb_nonce t)" "?ts ! 1 = word_item (tb_gasPrice t)" "?ts ! 2 = word_item (tb_gas t)" "?ts ! 3 = tx_items t ! 3"
    "?ts ! 4 = word_item (tb_value t)" "?ts ! 5 = RData (tb_data t)"
    "?ts ! 6 = RData (toCompactBigEndian (nat (tb_chainId t * 2 + 35 + uint (sig_v g))))" "?ts ! 7 = word_item (sig_r g)" "?ts ! 8 = word_item (sig_s g)"
    by (simp_all add: signed_items_def tx_items_def)
  have same: "\<lparr>tb_type = tb_type t, tb_nonce = tb_nonce t, tb_value = tb_value t, tb_receiveAddress = tb_receiveAddress t,
      tb_gasPrice = tb_gasPrice t, tb_gas = tb_gas t, tb_data = tb_data t, tb_vrs = Some g, tb_chainId = tb_chainId t, tb_hashWith = 0,
      tb_sender = 0\<rparr> = t\<lparr>tb_hashWith := 0, tb_sender := 0\<rparr>" using assms(2) by simp
  have list: "isList (encode (RList ?ts))" using read_list(1) [OF f, of "[]"] by simp
  show ?thesis
    unfolding read_transaction_def
    by (simp only: RLP_node_encode [OF f] tx_lift_Inr sbind_Inr list not_True_eq_False if_False,
        (rule tx_field_encode [OF _ f], (rule cache_ok_fresh | assumption), simp add: len,
          simp only: nth to_u256_encode to_int32_encode [OF b(1,2)] receiver_of_encode [OF assms(1)] data_of_encode [OF data],
          (simp only: prod.case)?)+)
      (use itemCount_encode(2) [OF f] len signature_of_written [OF assms(3) b(3) refl] same in \<open>auto simp: Let_def split: prod.split sum.split\<close>)
qed

section \<open>Senders\<close>

lemma unsigned_hash: "tx_ok t \<Longrightarrow> tx_sha3 sha3 WithoutSignature t = (Inr (sha3 (encode (RList (chain_items t)))), t)"
  using chain_write [of t] by (auto simp: tx_sha3_def)

lemma tx_sender_signed:
  assumes "tx_ok t" and "tb_sender t = 0" and "tb_vrs t = Some g" and "sig_isValid g" and "recover g (sha3 (encode (RList (chain_items t)))) = pub"
    and "pub \<noteq> 0"
  shows "tx_sender sha3 recover t = (Inr (public_address sha3 pub), t\<lparr>tb_sender := public_address sha3 pub\<rparr>)"
proof -
  have "\<not> hasZeroSignature t" using assms(3,4) by (auto simp: hasZeroSignature_def isZeroSignature_def sig_isValid_def)
  then show ?thesis using assms unsigned_hash [OF assms(1)] by (simp add: tx_sender_def ebind_def Let_def)
qed

definition sample_tx :: TransactionBase where
  "sample_tx = null_transaction\<lparr>tb_type := TB_MessageCall, tb_receiveAddress := 7, tb_value := 5\<rparr>"

definition sample_signature :: SignatureStruct where
  "sample_signature = \<lparr>sig_r = 3, sig_s = 4, sig_v = 1\<rparr>"

lemma sample_tx_ok: "tx_ok sample_tx" "sig_isValid sample_signature"
  by (simp_all add: tx_ok_def sample_tx_def null_transaction_def sample_signature_def sig_isValid_def c_secp256k1n_def VoteAddress_def)

section \<open>Properties\<close>

text \<open>C21. A signed transaction is read back from its RLP form with every field and its signature.\<close>

theorem transaction_roundtrip:
  assumes "tx_ok t" and "tb_vrs t = Some g" and "sig_isValid g" and "checkSig \<noteq> CheckSigEverything"
  shows "\<exists>b. tx_rlp t WithSignature False = Inr b \<and> read_transaction sha3 recover checkSig b = Inr (t\<lparr>tb_hashWith := 0, tb_sender := 0\<rparr>)"
  using signed_write [OF assms(1-3)] read_signed [OF assms(1-3)] assms(4) by auto

theorem transaction_roundtrip_witness:
  "\<exists>b. tx_rlp (sample_tx\<lparr>tb_vrs := Some sample_signature\<rparr>) WithSignature False = Inr b \<and>
    read_transaction (\<lambda>_. 0) (\<lambda>_ _. 0) CheckCheap b = Inr (sample_tx\<lparr>tb_vrs := Some sample_signature\<rparr>)"
proof -
  have "tx_ok (sample_tx\<lparr>tb_vrs := Some sample_signature\<rparr>)" using sample_tx_ok(1) by (simp add: tx_ok_def)
  from transaction_roundtrip [OF this _ sample_tx_ok(2), of CheckCheap] show ?thesis
    by (simp add: sample_tx_def null_transaction_def)
qed

text \<open>C20. Every node that receives a signed transaction takes the address of the signer's public key for its sender, and passes it to the
  executive with the fields it was signed with.\<close>

theorem signed_transaction_sender:
  assumes "tx_ok t" and "tb_sender t = 0" and "\<And>d. sig_isValid (sign d)" and "\<And>d. recover (sign d) d = pub" and "pub \<noteq> 0"
  shows "\<exists>t' b r x. tx_sign sha3 sign t = (Inr (), t') \<and> tx_rlp t' WithSignature False = Inr b \<and>
    read_transaction sha3 recover CheckSigEverything b = Inr r \<and> r = t'\<lparr>tb_hashWith := 0, tb_sender := public_address sha3 pub\<rparr> \<and>
    tx_view sha3 recover r = Inr x \<and> t_sender x = public_address sha3 pub \<and> t_nonce x = tb_nonce t \<and> t_data x = tb_data t \<and> t_value x = tb_value t \<and>
    t_receiveAddress x = tb_receiveAddress t \<and> t_chainId x = tb_chainId t"
proof -
  let ?a = "public_address sha3 pub" and ?h = "sha3 (encode (RList (chain_items t)))"
  let ?t = "t\<lparr>tb_vrs := Some (sign ?h)\<rparr>" and ?r = "t\<lparr>tb_vrs := Some (sign ?h), tb_hashWith := 0, tb_sender := ?a\<rparr>"
  have sign: "tx_sign sha3 sign t = (Inr (), ?t)" using unsigned_hash [OF assms(1)] assms(3) by (simp add: tx_sign_def ebind_def)
  have ok: "tx_ok ?t" "tx_ok (?t\<lparr>tb_hashWith := 0, tb_sender := 0\<rparr>)" "tx_ok ?r" using assms(1) by (simp_all add: tx_ok_def)
  have items: "chain_items (t\<lparr>tb_vrs := v, tb_hashWith := h, tb_sender := a\<rparr>) = chain_items t" for v h a
    by (simp add: chain_items_def tx_items_def)
  have sender: "tx_sender sha3 recover (?t\<lparr>tb_hashWith := 0, tb_sender := 0\<rparr>) = (Inr ?a, ?r)"
    using tx_sender_signed [OF ok(2), of "sign ?h" recover sha3 pub] assms(3-5) by (simp add: items)
  have read: "read_transaction sha3 recover CheckSigEverything (encode (RList (signed_items ?t (sign ?h)))) = Inr ?r"
    using read_signed [OF ok(1) _ assms(3)] sender by simp
  have again: "fst (tx_sender sha3 recover ?r) = Inr ?a"
  proof (cases "?a = 0")
    case True
    then show ?thesis using tx_sender_signed [OF ok(3), of "sign ?h" recover sha3 pub] assms(3-5) by (simp add: items)
  qed (simp add: tx_sender_def)
  have "tx_rlp ?r WithSignature False = Inr (encode (RList (signed_items ?r (sign ?h))))" by (rule signed_write [OF ok(3) _ assms(3)]) simp
  then have "tx_sha3 sha3 WithSignature ?r = (Inr (sha3 (encode (RList (signed_items ?r (sign ?h))))), ?r\<lparr>tb_hashWith := sha3 (encode (RList (signed_items ?r (sign ?h))))\<rparr>)"
    by (simp add: tx_sha3_def)
  then show ?thesis using sign signed_write [OF ok(1) _ assms(3)] read again unsigned_hash [OF ok(3)] by (simp add: tx_view_def)
qed

theorem signed_transaction_sender_witness:
  "\<exists>t' b r. tx_sign (\<lambda>_. 9) (\<lambda>_. sample_signature) sample_tx = (Inr (), t') \<and> tx_rlp t' WithSignature False = Inr b \<and>
    read_transaction (\<lambda>_. 9) (\<lambda>_ _. 5) CheckSigEverything b = Inr r \<and> tb_sender r = 9"
  using signed_transaction_sender [OF sample_tx_ok(1) _ sample_tx_ok(2), of "\<lambda>_ _. 5" 5 "\<lambda>_. 9"]
  by (auto simp: sample_tx_def null_transaction_def public_address_def)

end
