(* ===== verification/Spec2Isabelle.thy ===== *)
theory Spec2Isabelle
  imports VoteLaws RlpLaws AccountRlp Batches TrieHash TxPool HeaderLaws SealingLaws TransactionLaws
begin

text \<open>
  A model of the core of BrcdChain (cpp-lsac), a delegated-proof-of-stake chain with a built-in
  exchange, and the theorems that make it correct.

  \<^bold>\<open>The program.\<close> The state of the chain is a map from addresses to accounts (libbrcdchain/State,
  Account). An account holds two currencies, BRC and cookies (the balance that pays for gas), each
  with a frozen part, ballots, polls, and the records of the voting system. System accounts hold
  what is global: \<^verbatim>\<open>ExdbSystemAddress\<close> the order book, \<^verbatim>\<open>SysElectorAddress\<close>, \<^verbatim>\<open>SysVarlitorAddress\<close> and
  \<^verbatim>\<open>SysCanlitorAddress\<close> the registers of electors, witnesses and candidates, \<^verbatim>\<open>PdSystemAddress\<close> the fees
  of the exchange. Every write appends to a change log; \<^verbatim>\<open>executeTransaction\<close> takes a savepoint, runs
  the operations of a transaction and undoes the log when one of them throws. A new block first runs
  the hooks of \<^verbatim>\<open>Block::intoNewBlockToDo\<close>. The registered witnesses take turns to seal blocks, in time slots; standby nodes
  step in for a witness that stays away. Data goes to the database and the network as RLP.

  \<^bold>\<open>The theories.\<close>
  \<^item> \<open>Prelude\<close>: words, the exception monad (the state left behind by an exception is kept, as in C++),
    ordered association lists for \<^verbatim>\<open>std::map\<close>, relations between states that sequences respect (locale
    \<open>step_relation\<close>).
  \<^item> \<open>ChainConfig\<close> (libbrccore/config, libdevcore/Address.cpp): constants, fork heights, the calendar.
  \<^item> \<open>ExOrder\<close> (indexDb objects.hpp, types.hpp): orders and their multi-index containers.
  \<^item> \<open>Account\<close> (libbrcdchain/Account): the account and its members. A member that the C++ leaves
    undefined in some case returns an option.
  \<^item> \<open>ChainState\<close> (libbrcdchain/State): the change log, the amounts, the storage overlay, savepoint,
    rollback and \<^verbatim>\<open>executeTransaction\<close>. \<open>Journal\<close>: a run is restorable when undoing what it logged gives
    back an observably equal state; this is closed under composition. \<open>Amounts\<close>: the contract all
    seven amounts have, as locales, with an interpretation for each amount.
  \<^item> \<open>OrderBook\<close> (libbrcdchain/ExdbState): matching of limit and market orders, cancellation, queries.
    \<open>Matching\<close>: the specification of matching on a plain list and the refinement of the code to it, which ends
    where a limit order fills a resting order only in part: there the C++ uses an iterator to an erased element, and the
    outcome of the model is undefined behaviour.
  \<^item> \<open>Operations\<close> (Transaction.h): the operations a transaction carries.
  \<^item> \<open>Exchange\<close> (State.cpp): placing and cancelling orders, the transfers of a match, freezing, the
    orders of the system and the automatic exchange of a transfer. \<open>Frames\<close>: what moves of amounts
    leave alone, and the interface \<open>exchange_steps\<close>: a relation that the primitive moves respect is
    respected by every operation of the exchange. It is interpreted for the well-formed book, for the
    supply of each currency (\<open>Supply\<close>) and for restorability (\<open>Atomicity\<close>). \<open>ExchangeLaws\<close>: the
    resulting properties. \<open>AutoOrders\<close>: the recursion of the system's orders ends.
  \<^item> \<open>Voting\<close> (State.cpp, DposVote): ballots, delegation, registers, snapshots, rounds. \<open>MinerChange\<close>:
    replacing a witness and the proposed gas prices. \<open>Income\<close>: the distribution of fees. \<open>NewBlock\<close>: the
    hooks of a new block. \<open>VoteLaws\<close>: the properties of voting.
  \<^item> \<open>Rlp\<close>, \<open>RlpLaws\<close> (libdevcore/RLP, CommonData.h): the writer with its stack of open lists refines a
    tree-shaped specification, the reader inverts it, its subscript cache is transparent.
  \<^item> \<open>RlpCodec\<close> (libdevcore/RLP.h): the conversions of pairs, vectors and maps, with the contract of a
    writer and its reader as the locales \<open>codec\<close>, \<open>pair_codec\<close>, \<open>blob\<close> and \<open>map_blob\<close>. \<open>OrderRlp\<close>
    (objects.hpp) and \<open>AccountRlp\<close> (Account.h, \<^verbatim>\<open>State::account\<close>, \<^verbatim>\<open>commit\<close>): orders, records and whole
    accounts as they are stored, and what reading them back gives: the same fields, the orders in another order.
    \<open>OperationRlp\<close>
    (Transaction.h): the operations in the data of a transaction.
  \<^item> \<open>Verify\<close> (BRCTranscation.cpp): the checks on the operations of a transaction before it is executed.
    \<open>Executive\<close> (Executive.cpp, SealEngine.cpp, TransactionBase): a transaction from \<^verbatim>\<open>initialize\<close> to \<^verbatim>\<open>finalize\<close>, with
    its gas. \<open>Nonces\<close>: no operation writes a nonce. \<open>TxLaws\<close>: the phases of a batch of operations.
    \<open>Batches\<close>: the data of a batch, the whole life of a batch of transfers, replay protection.
  \<^item> \<open>TrieCommon\<close>, \<open>TrieDB\<close> (libdevcore/TrieCommon, TrieDB.h, StateCacheDB, OverlayDB): slices of nibbles, the
    hex-prefix form, the node databases and the Merkle Patricia trie over them. \<open>TrieSpec\<close>: trees with a canonical
    form that is determined by the map they stand for. \<open>TrieLaws\<close>: the RLP form of a tree and the interface
    \<open>node_db\<close> of a node database, interpreted for the cache and the overlay. \<open>TrieInsert\<close>, \<open>TrieRefine\<close>, \<open>TrieDelete\<close>:
    lookup, insertion and removal refine the trees; the hash has to be different on the nodes involved, which is
    a hypothesis. \<open>TrieHash\<close> (TrieHash.cpp): the root computed from a sorted map without a database is the same.
  \<^item> \<open>TxQueue\<close> (libbrcdchain/TransactionQueue): the pool of transactions with its indexes by iterator, the waiting
    transactions, the work queue of the verifier threads. \<open>TxQueueLaws\<close>: the invariant that the indexes agree with
    the contents, and what each operation does to the contents. \<open>TxPool\<close>: the verdict of an import and its effect,
    what is released when a transaction is in a block, the failure of all later imports after one of a
    sender that cannot be recovered, and, as lemmas, runs of all threads. These lemmas and the laws of the queue's
    operations assume of \<^verbatim>\<open>std::multiset\<close> that it takes an element wherever the comparisons return (\<open>stl_ok\<close>); the standard says
    so only while the order of the elements does not change, which the queue does not ensure.
  \<^item> \<open>Transactions\<close> (libbrccore/TransactionBase): a transaction with its signature, its RLP form, its hash and its sender, and
    what the executive sees of it. \<open>TransactionLaws\<close>: the round trip, and that every node finds the signer as the sender.
  \<^item> \<open>Headers\<close> (libbrccore/BlockHeader, \<^verbatim>\<open>SealEngineFace::verify\<close>): the header of a block with its memoised hashes, its RLP
    form, its signature and its verification against the parent and the block. \<open>HeaderLaws\<close>: what is written is read
    back, with the signature among the seal fields; what a chain of verified headers satisfies; when signatures verify
    and when the shared memo spoils them.
  \<^item> \<open>Sealing\<close> (libshdposseal/SHDpos, SHDposClient, libbrcdchain/Verify.cpp, BlockChain.cpp): who may seal when, on the side of
    the node that seals and of the node that imports, the standby nodes, and the choice of the head. \<open>SealingLaws\<close>:
    when the node of a witness may seal, that its block is imported, that both sides agree on the turns, a standby node waits for its witness to be away, and nodes that import
    competing blocks in different orders agree on the head.

  \<^bold>\<open>Conventions.\<close> \<^verbatim>\<open>u256\<close> is \<^typ>\<open>256 word\<close>: arithmetic wraps as boost's unchecked integer does. An exception
  is \<open>Inl\<close>; undefined behaviour and running out of fuel are outcomes of their own
  that no \<^verbatim>\<open>catch\<close> intercepts. \<open>systemAutoPendingOrder\<close> has fuel because its C++
  recursion is not structural. Its laws hold for every fuel, and \<open>AutoOrders\<close> proves for which states
  a fuel linear in the size of the book is enough. The recursions of the trie follow references in a database
  that may be cyclic; their fuel is linear in the length of the key, and the theorems show that it is enough on
  every database that holds a tree.

  \<^bold>\<open>Parameters.\<close> The hash function, the storage of an account, the table of votes changed at a fixed height and
  the genesis accounts are arguments; so are the conversion of a 256-bit integer to \<^verbatim>\<open>int64_t\<close> (boost's,
  specified on the non-negative range only) and the root of an account's storage trie. The record
  \<open>host\<close> collects what the executive gets from outside: the byte-code interpreter (a function from a call,
  its gas and a state to an outcome and a state), the code store, the gas schedule, the precompiled
  contracts and the parameters of the chain. Signing and the recovery of a public key are arguments of the operations
  of headers and transactions, the execution of a block is one of its import.

  \<^bold>\<open>Not modelled.\<close> The network, the RPC and the command line (I/O), the block database with its caches
  and indexes (threads and files), the virtual machines inherited from cpp-ethereum and their callbacks (ExtVM), the
  bad-block messages and punishments of SHDpos, which nothing calls, the other seal engines, the iterator of the trie, the text messages of errors and
  the logs, the literal tables of Genesis.cpp.
\<close>

end
